(* ===== verification/Prelude.thy ===== *)
theory Prelude
  imports Complex_Main "HOL-Library.Char_ord" "HOL-Library.List_Lexorder"
    "HOL-Library.Product_Lexorder"
begin

text \<open>
  The prelude of the development: the collections its proofs draw on, the two result types
  (a value or a Python exception), the part of Python's \<open>str\<close> and \<open>int\<close> that the
  uploader uses, dynamic values (JSON and TOML), and the facts on strings, lists and
  association lists that the component theories share.

  A Python \<open>bytes\<close> object is a \<open>string\<close>: a HOL \<open>char\<close> is one of 256 values, so a
  \<open>char list\<close> is exactly a byte string.  A Python \<open>str\<close> is a \<open>string\<close> too, which
  covers the code points up to 255; every comparison the code makes on strings (Python's, and
  SQLite's BINARY collation) is the lexicographic order of \<open>List_Lexorder\<close>.
\<close>

named_theorems store_simps \<open>equations of the watermark store's operations\<close>
named_theorems frame_simps \<open>what an operation leaves unchanged\<close>
named_theorems clock_simps \<open>equations of the calendar\<close>

type_synonym bytes = string

subsection \<open>Results\<close>

text \<open>An exception keeps its type's name and its text, which is all the code ever reads of one.\<close>

datatype exn = Exn (exn_type: string) (exn_text: string)

datatype 'a res = Ok (the_ok: 'a) | Raise (the_exn: exn)

fun is_ok :: "'a res \<Rightarrow> bool" where
  "is_ok (Ok _) = True"
| "is_ok (Raise _) = False"

fun map_res :: "('a \<Rightarrow> 'b) \<Rightarrow> 'a res \<Rightarrow> 'b res" where
  "map_res f (Ok x) = Ok (f x)"
| "map_res f (Raise e) = Raise e"

fun bind_res :: "'a res \<Rightarrow> ('a \<Rightarrow> 'b res) \<Rightarrow> 'b res" where
  "bind_res (Ok x) f = f x"
| "bind_res (Raise e) f = Raise e"

lemma bind_res_Ok [simp]: "bind_res r f = Ok y \<longleftrightarrow> (\<exists>x. r = Ok x \<and> f x = Ok y)"
  by (cases r) auto

lemma map_res_Ok [simp]: "map_res f r = Ok y \<longleftrightarrow> (\<exists>x. r = Ok x \<and> y = f x)"
  by (cases r) auto

text \<open>A loop that calls a fallible function on each element and stops at the first exception.\<close>

fun mapM_res :: "('a \<Rightarrow> 'b res) \<Rightarrow> 'a list \<Rightarrow> 'b list res" where
  "mapM_res f [] = Ok []"
| "mapM_res f (x # xs) = bind_res (f x) (\<lambda>y. map_res (Cons y) (mapM_res f xs))"

lemma mapM_res_cong [fundef_cong]:
  "xs = ys \<Longrightarrow> (\<And>x. x \<in> set ys \<Longrightarrow> f x = g x) \<Longrightarrow> mapM_res f xs = mapM_res g ys"
  by (induction xs arbitrary: ys) auto

lemma mapM_res_length: "mapM_res f xs = Ok ys \<Longrightarrow> length ys = length xs"
  by (induction xs arbitrary: ys) auto

lemma mapM_res_nth:
  "mapM_res f xs = Ok ys \<Longrightarrow> i < length xs \<Longrightarrow> f (xs ! i) = Ok (ys ! i)"
  by (induction xs arbitrary: ys i) (auto simp: nth_Cons split: nat.splits)

lemma mapM_res_all_Ok: "(\<forall>x \<in> set xs. f x = Ok (g x)) \<Longrightarrow> mapM_res f xs = Ok (map g xs)"
  by (induction xs) auto

lemma mapM_res_Raise_iff:
  "(\<exists>e. mapM_res f xs = Raise e) \<longleftrightarrow> (\<exists>x \<in> set xs. \<exists>e. f x = Raise e)"
proof (induction xs)
  case (Cons x xs)
  then show ?case by (cases "f x"; cases "mapM_res f xs") auto
qed simp

subsection \<open>Characters and strings\<close>

text \<open>The whitespace \<open>str.strip()\<close> and \<open>int()\<close> remove, among the code points up to 255.\<close>

definition is_ws :: "char \<Rightarrow> bool" where
  "is_ws c \<longleftrightarrow> (let k = (of_char c :: nat) in
     (9 \<le> k \<and> k \<le> 13) \<or> (28 \<le> k \<and> k \<le> 32) \<or> k = 133 \<or> k = 160)"

definition lstrip :: "string \<Rightarrow> string" where "lstrip s = dropWhile is_ws s"

definition rstrip :: "string \<Rightarrow> string" where "rstrip s = rev (dropWhile is_ws (rev s))"

definition py_strip :: "string \<Rightarrow> string" where "py_strip s = rstrip (lstrip s)"

text \<open>\<open>str.lower()\<close> on the code points up to 255.\<close>

definition py_lower :: "string \<Rightarrow> string" where
  "py_lower = map (\<lambda>c. let k = (of_char c :: nat) in
     if (65 \<le> k \<and> k \<le> 90) \<or> (192 \<le> k \<and> k \<le> 222 \<and> k \<noteq> 215) then char_of (k + 32) else c)"

definition is_lower_ascii :: "char \<Rightarrow> bool" where
  "is_lower_ascii c \<longleftrightarrow> (let k = (of_char c :: nat) in 97 \<le> k \<and> k \<le> 122)"

definition is_upper_ascii :: "char \<Rightarrow> bool" where
  "is_upper_ascii c \<longleftrightarrow> (let k = (of_char c :: nat) in 65 \<le> k \<and> k \<le> 90)"

definition is_digit :: "char \<Rightarrow> bool" where
  "is_digit c \<longleftrightarrow> (let k = (of_char c :: nat) in 48 \<le> k \<and> k \<le> 57)"

definition is_ascii :: "string \<Rightarrow> bool" where
  "is_ascii s \<longleftrightarrow> list_all (\<lambda>c. (of_char c :: nat) < 128) s"

text \<open>\<open>str.endswith\<close> and \<open>str.startswith\<close>.\<close>

fun starts_with :: "string \<Rightarrow> string \<Rightarrow> bool" where
  "starts_with s [] = True"
| "starts_with [] (_ # _) = False"
| "starts_with (c # s) (p # ps) = (c = p \<and> starts_with s ps)"

definition ends_with :: "string \<Rightarrow> string \<Rightarrow> bool" where
  "ends_with s p = starts_with (rev s) (rev p)"

lemma starts_with_iff: "starts_with s p \<longleftrightarrow> (\<exists>r. s = p @ r)"
  by (induction s p rule: starts_with.induct) auto

lemma ends_with_iff: "ends_with s p \<longleftrightarrow> (\<exists>r. s = r @ p)"
  unfolding ends_with_def starts_with_iff
  by (metis rev_append rev_rev_ident)

lemma ends_with_append [simp]: "ends_with (r @ p) p"
  by (auto simp: ends_with_iff)

text \<open>\<open>sep.join(xs)\<close>.\<close>

fun join :: "string \<Rightarrow> string list \<Rightarrow> string" where
  "join sep [] = []"
| "join sep [x] = x"
| "join sep (x # y # xs) = x @ sep @ join sep (y # xs)"

text \<open>\<open>str.split(sep)\<close> for a one-character separator.\<close>

fun split_on :: "char \<Rightarrow> string \<Rightarrow> string list" where
  "split_on c [] = [[]]"
| "split_on c (x # xs) = (if x = c then [] # split_on c xs
     else (case split_on c xs of [] \<Rightarrow> [[x]] | y # ys \<Rightarrow> (x # y) # ys))"

subsection \<open>Decimal integers\<close>

definition digit_char :: "nat \<Rightarrow> char" where "digit_char d = char_of (48 + d)"

definition digit_val :: "char \<Rightarrow> nat option" where
  "digit_val c = (if is_digit c then Some (of_char c - 48) else None)"

lemma of_char_digit_char: "d < 10 \<Longrightarrow> (of_char (digit_char d) :: nat) = 48 + d"
  by (simp add: digit_char_def)

lemma digit_val_digit_char [simp]: "d < 10 \<Longrightarrow> digit_val (digit_char d) = Some d"
  by (simp add: digit_val_def is_digit_def of_char_digit_char)

lemma digit_char_less: "a < b \<Longrightarrow> b < 10 \<Longrightarrow> digit_char a < digit_char b"
  by (simp add: less_char_def of_char_digit_char)

lemma digit_char_not_ws: "d < 10 \<Longrightarrow> \<not> is_ws (digit_char d)"
  by (simp add: is_ws_def of_char_digit_char)

text \<open>\<open>str(n)\<close>.\<close>

fun str_of_nat :: "nat \<Rightarrow> string" where
  "str_of_nat n = (if n < 10 then [digit_char n] else str_of_nat (n div 10) @ [digit_char (n mod 10)])"

declare str_of_nat.simps [simp del]

definition str_of_int :: "int \<Rightarrow> string" where
  "str_of_int i = (if i < 0 then CHR ''-'' # str_of_nat (nat (- i)) else str_of_nat (nat i))"

text \<open>
  \<open>int(text)\<close> on ASCII text: surrounding whitespace, one sign, digits with single
  underscores between digits; \<open>None\<close> is \<open>ValueError\<close>.
\<close>

fun int_digits :: "nat \<Rightarrow> bool \<Rightarrow> string \<Rightarrow> nat option" where
  "int_digits acc after_digit [] = (if after_digit then Some acc else None)"
| "int_digits acc after_digit (c # cs) =
     (case digit_val c of
        Some d \<Rightarrow> int_digits (10 * acc + d) True cs
      | None \<Rightarrow> if c = CHR ''_'' \<and> after_digit then int_digits acc False cs else None)"

definition py_int :: "string \<Rightarrow> int option" where
  "py_int s = (case py_strip s of
      [] \<Rightarrow> None
    | c # cs \<Rightarrow> (if c = CHR ''-'' then map_option (\<lambda>n. - int n) (int_digits 0 False cs)
                 else if c = CHR ''+'' then map_option int (int_digits 0 False cs)
                 else map_option int (int_digits 0 False (c # cs))))"

lemma int_digits_str_of_nat:
  "int_digits acc pd (str_of_nat n @ rest)
     = int_digits (acc * 10 ^ length (str_of_nat n) + n) True rest"
proof (induction n arbitrary: acc pd rest rule: str_of_nat.induct)
  case (1 n)
  show ?case
  proof (cases "n < 10")
    case True
    then show ?thesis by (subst (1 2) str_of_nat.simps) (simp add: mult.commute)
  next
    case False
    have m: "n mod 10 < 10" by simp
    show ?thesis
      using False m by (subst (1 2) str_of_nat.simps) (simp add: 1 [OF False] algebra_simps)
  qed
qed

lemma str_of_nat_nonempty [simp]: "str_of_nat n \<noteq> []"
  by (subst str_of_nat.simps) simp

lemma str_of_nat_digits: "c \<in> set (str_of_nat n) \<Longrightarrow> is_digit c"
proof (induction n rule: str_of_nat.induct)
  case (1 n)
  have m: "n mod 10 < 10" by simp
  show ?case
    using 1 m by (cases "n < 10")
      (auto simp: str_of_nat.simps [of n] is_digit_def of_char_digit_char)
qed

lemma is_digit_not_ws: "is_digit c \<Longrightarrow> \<not> is_ws c"
  by (auto simp: is_digit_def is_ws_def Let_def)

lemma dropWhile_none: "(\<And>x. x \<in> set xs \<Longrightarrow> \<not> P x) \<Longrightarrow> dropWhile P xs = xs"
  by (cases xs) auto

lemma py_strip_id: "(\<And>c. c \<in> set s \<Longrightarrow> \<not> is_ws c) \<Longrightarrow> py_strip s = s"
  using dropWhile_none [of s is_ws] dropWhile_none [of "rev s" is_ws]
  by (simp add: py_strip_def lstrip_def rstrip_def)

lemma py_strip_str_of_nat [simp]: "py_strip (str_of_nat n) = str_of_nat n"
  by (rule py_strip_id) (auto dest: str_of_nat_digits is_digit_not_ws)

lemma str_of_nat_not_sign:
  "str_of_nat n = c # cs \<Longrightarrow> c \<noteq> CHR ''-'' \<and> c \<noteq> CHR ''+''"
proof -
  assume "str_of_nat n = c # cs"
  then have "is_digit c" using str_of_nat_digits [of c n] by simp
  then show ?thesis by (auto simp: is_digit_def)
qed

lemma py_int_str_of_nat: "py_int (str_of_nat n) = Some (int n)"
proof (cases "str_of_nat n")
  case (Cons c cs)
  have "int_digits 0 False (c # cs) = Some n"
    using int_digits_str_of_nat [of 0 False n "[]"] Cons by simp
  then show ?thesis
    using str_of_nat_not_sign [OF Cons]
    unfolding py_int_def py_strip_str_of_nat unfolding Cons by simp
qed simp

lemma minus_not_ws: "\<not> is_ws CHR ''-''"
  by (simp add: is_ws_def)

lemma py_int_str_of_int [simp]: "py_int (str_of_int i) = Some i"
proof (cases "i < 0")
  case True
  have ns: "\<And>c. c \<in> set (CHR ''-'' # str_of_nat (nat (- i))) \<Longrightarrow> \<not> is_ws c"
    using minus_not_ws by (auto dest: str_of_nat_digits is_digit_not_ws)
  have "py_strip (CHR ''-'' # str_of_nat (nat (- i))) = CHR ''-'' # str_of_nat (nat (- i))"
    by (rule py_strip_id) (rule ns)
  then show ?thesis
    using True int_digits_str_of_nat [of 0 False "nat (- i)" "[]"]
    by (simp add: py_int_def str_of_int_def)
next
  case False
  then show ?thesis by (simp add: str_of_int_def py_int_str_of_nat)
qed

lemma str_of_int_nonempty [simp]: "str_of_int i \<noteq> []"
  by (simp add: str_of_int_def)

lemma is_ascii_str_of_int [simp]: "is_ascii (str_of_int i)"
  by (auto simp: str_of_int_def is_ascii_def list_all_iff is_digit_def Let_def
      dest!: str_of_nat_digits)

text \<open>\<open>"%0<w>d"\<close>: the last \<open>w\<close> decimal digits.\<close>

fun fixed_digits :: "nat \<Rightarrow> nat \<Rightarrow> string" where
  "fixed_digits 0 n = []"
| "fixed_digits (Suc w) n = fixed_digits w (n div 10) @ [digit_char (n mod 10)]"

lemma length_fixed_digits [simp]: "length (fixed_digits w n) = w"
  by (induction w n rule: fixed_digits.induct) auto

subsection \<open>Lexicographic order\<close>

lemma lex_append_less:
  fixes a b :: "'a::linorder list"
  assumes "length a = length b"
  shows "a @ x < b @ y \<longleftrightarrow> a < b \<or> (a = b \<and> x < y)"
  using assms by (induction a b rule: list_induct2) auto

lemma fixed_digits_less:
  "a < b \<Longrightarrow> b < 10 ^ w \<Longrightarrow> fixed_digits w a < fixed_digits w b"
proof (induction w arbitrary: a b)
  case 0
  then show ?case by simp
next
  case (Suc w)
  show ?case
  proof (cases "a div 10 < b div 10")
    case True
    have "b div 10 < 10 ^ w" using Suc.prems by (simp add: div_less_iff_less_mult mult.commute)
    with True Suc.IH show ?thesis by (simp add: lex_append_less)
  next
    case False
    with Suc.prems(1) have q: "a div 10 = b div 10"
      by (meson div_le_mono le_antisym less_imp_le not_less)
    with Suc.prems(1) have "a mod 10 < b mod 10"
      by (metis add_less_cancel_left div_mult_mod_eq)
    then have "digit_char (a mod 10) < digit_char (b mod 10)"
      by (rule digit_char_less) simp
    then show ?thesis by (simp add: lex_append_less q)
  qed
qed

lemma fixed_digits_inj:
  "fixed_digits w a = fixed_digits w b \<Longrightarrow> a < 10 ^ w \<Longrightarrow> b < 10 ^ w \<Longrightarrow> a = b"
  by (metis fixed_digits_less less_irrefl linorder_neqE_nat)

subsection \<open>Dynamic values\<close>

text \<open>
  A value of a JSON payload or of a TOML file, as Python sees it: dicts keep their
  insertion order, so they are association lists.  \<open>PFloat\<close> is a finite float (read as
  the rational it denotes), \<open>POther\<close> a value of any other type, by its type's name.
\<close>

datatype pyval =
    PNone
  | PBool bool
  | PInt int
  | PFloat rat
  | PInf bool
  | PNaN
  | PStr string
  | PList "pyval list"
  | PDict "(string \<times> pyval) list"
  | POther string

type_synonym pydict = "(string \<times> pyval) list"

text \<open>\<open>bool(v)\<close>.\<close>

fun py_truthy :: "pyval \<Rightarrow> bool" where
  "py_truthy PNone = False"
| "py_truthy (PBool b) = b"
| "py_truthy (PInt i) = (i \<noteq> 0)"
| "py_truthy (PFloat r) = (r \<noteq> 0)"
| "py_truthy (PInf _) = True"
| "py_truthy PNaN = True"
| "py_truthy (PStr s) = (s \<noteq> [])"
| "py_truthy (PList xs) = (xs \<noteq> [])"
| "py_truthy (PDict kvs) = (kvs \<noteq> [])"
| "py_truthy (POther _) = True"

text \<open>\<open>d.get(k)\<close>, and assignment \<open>d[k] = v\<close>: in place for a known key, else at the end.\<close>

definition py_get :: "pydict \<Rightarrow> string \<Rightarrow> pyval" where
  "py_get d k = (case map_of d k of None \<Rightarrow> PNone | Some v \<Rightarrow> v)"

fun dict_set :: "'k \<Rightarrow> 'v \<Rightarrow> ('k \<times> 'v) list \<Rightarrow> ('k \<times> 'v) list" where
  "dict_set k v [] = [(k, v)]"
| "dict_set k v ((k', v') # d) = (if k' = k then (k, v) # d else (k', v') # dict_set k v d)"

definition dict_del :: "'k \<Rightarrow> ('k \<times> 'v) list \<Rightarrow> ('k \<times> 'v) list" where
  "dict_del k d = filter (\<lambda>(k', _). k' \<noteq> k) d"

lemma map_of_dict_set [simp]: "map_of (dict_set k v d) = (map_of d)(k \<mapsto> v)"
  by (induction k v d rule: dict_set.induct) (auto simp: fun_eq_iff)

lemma fst_set_dict_set: "fst ` set (dict_set k v d) = insert k (fst ` set d)"
  by (induction k v d rule: dict_set.induct) auto

lemma distinct_dict_set: "distinct (map fst d) \<Longrightarrow> distinct (map fst (dict_set k v d))"
proof (induction k v d rule: dict_set.induct)
  case (2 k v k' v' d)
  then show ?case using fst_set_dict_set [of k v d] by auto
qed simp

lemma map_of_dict_del [simp]: "map_of (dict_del k d) = (map_of d)(k := None)"
  by (induction d) (auto simp: dict_del_def fun_eq_iff)

lemma distinct_dict_del: "distinct (map fst d) \<Longrightarrow> distinct (map fst (dict_del k d))"
  by (simp add: dict_del_def distinct_map_filter)

subsection \<open>Lists\<close>

text \<open>The minimum of a list under a key, the first of the ties: SQL's \<open>ORDER BY k LIMIT 1\<close>.\<close>

fun min_by :: "('a \<Rightarrow> 'k::linorder) \<Rightarrow> 'a list \<Rightarrow> 'a option" where
  "min_by k [] = None"
| "min_by k (x # xs) = (case min_by k xs of
     None \<Rightarrow> Some x
   | Some y \<Rightarrow> if k x \<le> k y then Some x else Some y)"

lemma min_by_None [simp]: "min_by k xs = None \<longleftrightarrow> xs = []"
  by (cases xs) (auto split: option.splits)

lemma min_by_mem: "min_by k xs = Some x \<Longrightarrow> x \<in> set xs"
  by (induction xs arbitrary: x) (auto split: option.splits if_splits)

lemma min_by_le: "min_by k xs = Some x \<Longrightarrow> y \<in> set xs \<Longrightarrow> k x \<le> k y"
proof (induction xs arbitrary: x y)
  case (Cons a xs)
  then show ?case
    by (cases "min_by k xs") (auto split: if_splits intro: order_trans)
qed simp

lemma sorted_wrt_le_nth_last:
  fixes xs :: "'a::linorder list"
  shows "sorted xs \<Longrightarrow> x \<in> set xs \<Longrightarrow> x \<le> last xs"
  by (induction xs rule: rev_induct) (auto simp: sorted_append)

lemma filter_filter_conj: "filter P (filter Q xs) = filter (\<lambda>x. Q x \<and> P x) xs"
  by (induction xs) auto

end
