(* ===== verification/Clock.thy ===== *)
theory Clock
  imports Prelude
begin

text \<open>
  Time stamps.  The uploader stores every instant as the text of
  \<open>datetime.fromtimestamp(epoch, tz=utc).isoformat(timespec="seconds")\<close> (\<open>core._iso\<close>) and
  lets SQLite compare those texts: \<open>next_attempt_at <= now\<close> decides which retry is due.  So
  the theory builds the calendar, the text, and proves that the order of the texts is the
  order of the instants.

  An epoch is the rational a Python float denotes.  \<open>fromtimestamp\<close> rounds it to the
  microsecond, ties to even; the text then drops the fraction.  Instants outside the years
  1 to 9999, where \<open>fromtimestamp\<close> raises, are outside the model: \<open>in_calendar\<close> is their
  complement.
\<close>

subsection \<open>Rounding\<close>

definition round_half_even :: "rat \<Rightarrow> int" where
  "round_half_even r = (let f = \<lfloor>r\<rfloor>; d = r - of_int f in
     if d < 1 / 2 then f else if d > 1 / 2 then f + 1 else if even f then f else f + 1)"

lemma round_half_even_mono: "a \<le> b \<Longrightarrow> round_half_even a \<le> round_half_even b"
proof -
  assume le: "a \<le> b"
  consider "\<lfloor>a\<rfloor> = \<lfloor>b\<rfloor>" | "\<lfloor>a\<rfloor> + 1 \<le> \<lfloor>b\<rfloor>" using floor_mono [OF le] by linarith
  then show ?thesis
    by cases (use le in \<open>auto simp: round_half_even_def Let_def\<close>)
qed

lemma round_half_even_of_int [simp]: "round_half_even (of_int n) = n"
  by (simp add: round_half_even_def)

text \<open>The whole second \<open>fromtimestamp\<close> and \<open>isoformat\<close> leave of an epoch.\<close>

definition epoch_secs :: "rat \<Rightarrow> int" where
  "epoch_secs e = round_half_even (e * 1000000) div 1000000"

lemma epoch_secs_mono: "a \<le> b \<Longrightarrow> epoch_secs a \<le> epoch_secs b"
  by (simp add: epoch_secs_def round_half_even_mono zdiv_mono1)

lemma epoch_secs_of_int [simp]: "epoch_secs (of_int n) = n"
proof -
  have "round_half_even (of_int n * 1000000) = n * 1000000"
    using round_half_even_of_int [of "n * 1000000"] by simp
  then show ?thesis by (simp add: epoch_secs_def)
qed

lemma epoch_secs_numerals [simp]:
  "epoch_secs 0 = 0" "epoch_secs 1 = 1" "epoch_secs (numeral n) = numeral n"
  using epoch_secs_of_int [of 0] epoch_secs_of_int [of 1] epoch_secs_of_int [of "numeral n"]
  by simp_all

subsection \<open>The proleptic Gregorian calendar\<close>

text \<open>
  Days are counted from 1 March of the year 0, so that a leap day ends its year.
  \<open>year_start y\<close> is the day the year from March \<open>y\<close> begins, \<open>month_start n\<close> the day month \<open>n\<close>
  begins, where \<open>n\<close> counts months from March of the year 0.
\<close>

definition year_start :: "int \<Rightarrow> int" where
  "year_start y = 365 * y + y div 4 - y div 100 + y div 400"

definition year_at :: "int \<Rightarrow> int" where
  "year_at z = (let y = (400 * z) div 146097 in if year_start (y + 1) \<le> z then y + 1 else y)"

definition month_at :: "int \<Rightarrow> int" where
  "month_at z = (let y = year_at z in 12 * y + (5 * (z - year_start y) + 2) div 153)"

definition month_start :: "int \<Rightarrow> int" where
  "month_start n = year_start (n div 12) + (153 * (n mod 12) + 2) div 5"

lemma div_lower: "0 < k \<Longrightarrow> k * (x div k) \<le> (x :: int)"
  using pos_mod_sign [of k x] mult_div_mod_eq [of k x] by linarith

lemma div_upper: "0 < k \<Longrightarrow> x < k * (x div k) + (k :: int)"
  using pos_mod_bound [of k x] mult_div_mod_eq [of k x] by linarith

lemma div_diff_le:
  fixes a b k :: int
  assumes "a \<le> b" "0 < k"
  shows "b div k - a div k \<le> b - a"
proof -
  have "b - a \<le> (b - a) * k"
    using assms mult_left_mono [of 1 k "b - a"] by simp
  then have "b div k \<le> (a + (b - a) * k) div k"
    using assms by (intro zdiv_mono1) auto
  also have "\<dots> = a div k + (b - a)" using assms by simp
  finally show ?thesis by simp
qed

lemma leap_steps:
  fixes y :: int
  shows "y div 4 \<le> (y + 1) div 4" "(y + 1) div 4 \<le> y div 4 + 1"
    "(y + 1) div 100 - y div 100 \<le> (y + 1) div 4 - y div 4"
    "(y + 1) div 400 - y div 400 \<le> (y + 1) div 100 - y div 100"
    "y div 100 \<le> (y + 1) div 100" "y div 400 \<le> (y + 1) div 400"
proof -
  show m: "y div 4 \<le> (y + 1) div 4" "y div 100 \<le> (y + 1) div 100" "y div 400 \<le> (y + 1) div 400"
    by (rule zdiv_mono1; simp)+
  show "(y + 1) div 4 \<le> y div 4 + 1" using div_diff_le [of y "y + 1" 4] by simp
  have e: "x div 4 div 25 = x div 100" "x div 100 div 4 = x div 400" for x :: int
    using zdiv_zmult2_eq [of 25 x 4] zdiv_zmult2_eq [of 4 x 100] by simp_all
  show "(y + 1) div 100 - y div 100 \<le> (y + 1) div 4 - y div 4"
    "(y + 1) div 400 - y div 400 \<le> (y + 1) div 100 - y div 100"
    by (rule div_diff_le [OF m(1), of 25, unfolded e] div_diff_le [OF m(2), of 4, unfolded e],
        simp only: zero_less_numeral)+
qed

lemma year_start_step:
  "year_start y + 365 \<le> year_start (y + 1) \<and> year_start (y + 1) \<le> year_start y + 366"
proof -
  have "365 * y + a - b + c + 365 \<le> 365 * (y + 1) + a' - b' + c'
      \<and> 365 * (y + 1) + a' - b' + c' \<le> 365 * y + a - b + c + 366"
    if "a \<le> a'" "a' \<le> a + 1" "b' - b \<le> a' - a" "c' - c \<le> b' - b" "b \<le> b'" "c \<le> c'"
    for a b c a' b' c' using that by simp
  from this [OF leap_steps] show ?thesis unfolding year_start_def .
qed

lemma year_start_lower: "146097 * y - 800 < 400 * year_start y"
proof -
  have "146097 * y - 800 < 400 * (365 * y + a - b + c)"
    if "y < 4 * a + 4" "100 * b \<le> y" "y < 400 * c + 400" for a b c
    using that by simp
  from this [OF div_upper [of 4] div_lower [of 100] div_upper [of 400]]
  show ?thesis by (simp add: year_start_def)
qed

lemma year_start_upper: "400 * year_start y < 146097 * y + 400"
proof -
  have "400 * (365 * y + a - b + c) < 146097 * y + 400"
    if "4 * a \<le> y" "y < 100 * b + 100" "400 * c \<le> y" for a b c
    using that by simp
  from this [OF div_lower [of 4] div_upper [of 100] div_lower [of 400]]
  show ?thesis by (simp add: year_start_def)
qed

lemma year_at_bounds: "year_start (year_at z) \<le> z \<and> z < year_start (year_at z + 1)"
proof -
  define y where "y = (400 * z) div 146097"
  have y: "146097 * y \<le> 400 * z" "400 * z < 146097 * y + 146097"
    unfolding y_def by (rule div_lower div_upper; simp)+
  have lo: "year_start y \<le> z" using year_start_upper [of y] y by simp
  have hi: "z < year_start (y + 1 + 1)" using year_start_lower [of "y + 1 + 1"] y by simp
  show ?thesis
    using lo hi unfolding year_at_def y_def [symmetric] Let_def by (auto simp: not_le)
qed

lemma next_month:
  fixes n :: int
  shows "n mod 12 = 11 \<Longrightarrow> (n + 1) mod 12 = 0"
    and "n mod 12 = 11 \<Longrightarrow> (n + 1) div 12 = n div 12 + 1"
    and "n mod 12 \<noteq> 11 \<Longrightarrow> (n + 1) mod 12 = n mod 12 + 1"
    and "n mod 12 \<noteq> 11 \<Longrightarrow> (n + 1) div 12 = n div 12"
proof -
  define q r where "q = n div 12" and "r = n mod 12"
  have n: "n = 12 * q + r" "0 \<le> r" "r < 12"
    unfolding q_def r_def by simp_all
  show "r = 11 \<Longrightarrow> (n + 1) mod 12 = 0" "r = 11 \<Longrightarrow> (n + 1) div 12 = q + 1"
    using n int_mod_pos_eq [of "n + 1" 12 "q + 1" 0] int_div_pos_eq [of "n + 1" 12 "q + 1" 0]
    by auto
  show "r \<noteq> 11 \<Longrightarrow> (n + 1) mod 12 = r + 1" "r \<noteq> 11 \<Longrightarrow> (n + 1) div 12 = q"
    using n int_mod_pos_eq [of "n + 1" 12 q "r + 1"] int_div_pos_eq [of "n + 1" 12 q "r + 1"]
    by auto
qed

lemma month_start_step: "month_start n < month_start (n + 1)"
proof (cases "n mod 12 = 11")
  case True
  note m = next_month(1,2) [OF True]
  show ?thesis
    using year_start_step [of "n div 12"] by (simp add: month_start_def True m)
next
  case False
  note m = next_month(3,4) [OF False]
  have "(153 * k + 2) div 5 < (153 * (k + 1) + 2) div (5 :: int)" for k
  proof -
    have "a < b" if "5 * a \<le> 153 * k + 2" "153 * (k + 1) + 2 < 5 * b + 5" for a b
      using that by simp
    from this [OF div_lower div_upper] show ?thesis by simp
  qed
  from this [of "n mod 12"] show ?thesis by (simp add: month_start_def m)
qed

lemma month_start_mono: "a \<le> b \<Longrightarrow> month_start a \<le> month_start b"
proof (induction "nat (b - a)" arbitrary: b)
  case (Suc k)
  then have "month_start a \<le> month_start (b - 1)" by auto
  also have "\<dots> < month_start b" using month_start_step [of "b - 1"] by simp
  finally show ?case by simp
qed simp

lemma month_at_bounds: "month_start (month_at z) \<le> z \<and> z < month_start (month_at z + 1)"
proof -
  define y where "y = year_at z"
  define doy where "doy = z - year_start y"
  define m where "m = (5 * doy + 2) div 153"
  have yb: "0 \<le> doy" "z < year_start (y + 1)"
    using year_at_bounds [of z] unfolding y_def doy_def by auto
  have doy366: "doy \<le> 365" using yb(2) year_start_step [of y] unfolding doy_def by linarith
  have m5: "153 * m \<le> 5 * doy + 2" "5 * doy + 2 < 153 * m + 153"
    using div_lower [of 153 "5 * doy + 2"] div_upper [of 153 "5 * doy + 2"]
    unfolding m_def by simp_all
  have m: "0 \<le> m" "m \<le> 11" using yb(1) doy366 m5 by linarith+
  have "a \<le> doy" if "5 * a \<le> 153 * m + 2" for a using that m5 by simp
  from this [OF div_lower] have mb1: "(153 * m + 2) div 5 \<le> doy" by simp
  have "doy < a" if "153 * (m + 1) + 2 < 5 * a + 5" for a using that m5 by simp
  from this [OF div_upper] have mb2: "doy < (153 * (m + 1) + 2) div 5" by simp
  have n: "month_at z = 12 * y + m"
    unfolding month_at_def Let_def y_def [symmetric] doy_def [symmetric] m_def ..
  have nd: "(12 * y + m) div 12 = y" "(12 * y + m) mod 12 = m"
    using m by (simp_all add: div_pos_pos_trivial)
  have lo: "month_start (month_at z) \<le> z"
    using mb1 unfolding n month_start_def nd doy_def by linarith
  have hi: "z < month_start (month_at z + 1)"
  proof (cases "m = 11")
    case True
    then show ?thesis using yb(2) next_month(1,2) [of "12 * y + m"] nd
      unfolding n month_start_def by (simp add: add.commute)
  next
    case False
    then show ?thesis using mb2 next_month(3,4) [of "12 * y + m"] nd
      unfolding n month_start_def doy_def by simp
  qed
  from lo hi show ?thesis ..
qed

text \<open>A civil date is a month counted from January of the year 0, and a day of that month.\<close>

definition civil_month :: "int \<Rightarrow> int" where "civil_month z = month_at z + 2"

definition civil_day :: "int \<Rightarrow> int" where "civil_day z = z - month_start (month_at z) + 1"

lemma month_at_mono: "a \<le> b \<Longrightarrow> month_at a \<le> month_at b"
proof (rule ccontr)
  assume le: "a \<le> b" and "\<not> month_at a \<le> month_at b"
  then have "month_start (month_at b + 1) \<le> month_start (month_at a)"
    by (intro month_start_mono) simp
  with le month_at_bounds [of a] month_at_bounds [of b] show False by linarith
qed

lemma civil_strict_mono:
  "a < b \<Longrightarrow> civil_month a < civil_month b
     \<or> (civil_month a = civil_month b \<and> civil_day a < civil_day b)"
  using month_at_mono [of a b] by (auto simp: civil_month_def civil_day_def)

lemma civil_day_range: "1 \<le> civil_day z \<and> civil_day z \<le> 31"
proof -
  define n where "n = month_at z"
  have "month_start (n + 1) - month_start n \<le> 31"
  proof (cases "n mod 12 = 11")
    case True
    note m = next_month(1,2) [OF True]
    show ?thesis using year_start_step [of "n div 12"] by (simp add: month_start_def True m)
  next
    case False
    note m = next_month(3,4) [OF False]
    have "(153 * (k + 1) + 2) div 5 - (153 * k + 2) div 5 \<le> (31 :: int)" for k
    proof -
      have "b - a \<le> 31" if "153 * k + 2 < 5 * a + 5" "5 * b \<le> 153 * (k + 1) + 2" for a b
        using that by simp
      from this [OF div_upper div_lower] show ?thesis by simp
    qed
    from this [of "n mod 12"] show ?thesis by (simp add: month_start_def m)
  qed
  with month_at_bounds [of z] show ?thesis unfolding civil_day_def n_def by linarith
qed

subsection \<open>Texts of fixed-width fields\<close>

text \<open>
  Every stamp the uploader writes is a sequence of zero-padded decimal fields, each after a
  fixed separator.  Such texts compare as their fields do.
\<close>

fun fields :: "(string \<times> nat \<times> nat) list \<Rightarrow> string" where
  "fields [] = []"
| "fields ((sep, w, n) # fs) = sep @ fixed_digits w n @ fields fs"

definition field_shape :: "(string \<times> nat \<times> nat) list \<Rightarrow> (string \<times> nat) list" where
  "field_shape = map (\<lambda>(sep, w, n). (sep, w))"

definition field_values :: "(string \<times> nat \<times> nat) list \<Rightarrow> nat list" where
  "field_values = map (\<lambda>(sep, w, n). n)"

definition fields_fit :: "(string \<times> nat \<times> nat) list \<Rightarrow> bool" where
  "fields_fit = list_all (\<lambda>(sep, w, n). n < 10 ^ w)"

lemma fields_less:
  "field_shape fs = field_shape gs \<Longrightarrow> fields_fit fs \<Longrightarrow> fields_fit gs
     \<Longrightarrow> field_values fs < field_values gs \<Longrightarrow> fields fs @ t < fields gs @ t"
proof (induction fs arbitrary: gs)
  case (Cons f fs)
  obtain sep w n where f: "f = (sep, w, n)" by (cases f)
  from Cons.prems(1) obtain m gs' where g: "gs = (sep, w, m) # gs'"
    unfolding f field_shape_def by (cases gs) auto
  have sh: "field_shape fs = field_shape gs'" "fields_fit fs" "fields_fit gs'"
    using Cons.prems unfolding f g by (simp_all add: field_shape_def fields_fit_def)
  have fit: "n < 10 ^ w" "m < 10 ^ w"
    using Cons.prems unfolding f g by (simp_all add: fields_fit_def)
  consider "n < m" | "n = m" "field_values fs < field_values gs'"
    using Cons.prems(4) unfolding f g by (auto simp: field_values_def)
  then show ?case
  proof cases
    case 1
    then show ?thesis
      using fixed_digits_less [OF 1 fit(2)] unfolding f g by (simp add: lex_append_less)
  next
    case 2
    then show ?thesis using Cons.IH [OF sh 2(2)] unfolding f g by (simp add: lex_append_less)
  qed
qed (simp add: field_shape_def field_values_def)

subsection \<open>The text of an instant\<close>

definition day_number :: "int \<Rightarrow> int" where "day_number s = s div 86400 + 719468"

definition date_parts :: "int \<Rightarrow> nat list" where
  "date_parts s = (let m = civil_month (day_number s) in
     [nat (m div 12), nat (m mod 12 + 1), nat (civil_day (day_number s))])"

definition time_parts :: "int \<Rightarrow> nat list" where
  "time_parts s = (let t = s mod 86400 in
     [nat (t div 3600), nat (t div 60 mod 60), nat (t mod 60)])"

definition stamp :: "string list \<Rightarrow> int \<Rightarrow> (string \<times> nat \<times> nat) list" where
  "stamp seps s = zip seps (zip [4, 2, 2, 2, 2, 2] (date_parts s @ time_parts s))"

definition iso_seps :: "string list" where
  "iso_seps = [[], ''-'', ''-'', ''T'', '':'', '':'']"

definition iso_utc :: "int \<Rightarrow> string" where
  "iso_utc s = fields (stamp iso_seps s) @ ''+00:00''"

text \<open>\<open>core._iso\<close>.\<close>

definition iso :: "rat \<Rightarrow> string" where "iso epoch = iso_utc (epoch_secs epoch)"

text \<open>The seconds of the years 1 to 9999.\<close>

definition in_calendar :: "int \<Rightarrow> bool" where
  "in_calendar s \<longleftrightarrow> - 62135596800 \<le> s \<and> s < 253402300800"

definition calendar_epoch :: "rat \<Rightarrow> bool" where
  "calendar_epoch e \<longleftrightarrow> in_calendar (epoch_secs e)"

lemma month_at_first: "month_at 306 = 10"
  by (simp add: month_at_def year_at_def year_start_def Let_def)

lemma month_at_last: "month_at 3652364 = 119997"
  by (simp add: month_at_def year_at_def year_start_def Let_def)

lemma civil_month_range:
  assumes "in_calendar s"
  shows "12 \<le> civil_month (day_number s) \<and> civil_month (day_number s) < 120000"
proof -
  have "- 719162 \<le> s div 86400" "s div 86400 \<le> 2932896"
    using assms zdiv_mono1 [of "- 62135596800" s 86400] zdiv_mono1 [of s 253402300799 86400]
    by (simp_all add: in_calendar_def)
  then have "306 \<le> day_number s" "day_number s \<le> 3652364" by (simp_all add: day_number_def)
  then show ?thesis
    using month_at_mono [of 306 "day_number s"] month_at_mono [of "day_number s" 3652364]
    by (simp add: civil_month_def month_at_first month_at_last)
qed

lemma stamp_shape: "length seps = 6 \<Longrightarrow> field_shape (stamp seps s) = zip seps [4, 2, 2, 2, 2, 2]"
  by (auto simp: field_shape_def stamp_def date_parts_def time_parts_def Let_def
      numeral_eq_Suc length_Suc_conv)

lemma stamp_values: "length seps = 6 \<Longrightarrow> field_values (stamp seps s) = date_parts s @ time_parts s"
  by (auto simp: field_values_def stamp_def date_parts_def time_parts_def Let_def
      numeral_eq_Suc length_Suc_conv)

lemma nat_lt: "x < int k \<Longrightarrow> 0 < k \<Longrightarrow> nat x < k"
  by (cases "0 \<le> x") auto

lemma stamp_fit:
  assumes "in_calendar s" "length seps = 6"
  shows "fields_fit (stamp seps s)"
proof -
  define m where "m = civil_month (day_number s)"
  define t where "t = s mod 86400"
  have m: "12 \<le> m" "m < 120000" using civil_month_range [OF assms(1)] by (simp_all add: m_def)
  have t: "0 \<le> t" "t < 86400" by (simp_all add: t_def)
  have "m div 12 < 10000" using m(2) zdiv_mono1 [of m 119999 12] by simp
  moreover have "t div 3600 < 24" using t(2) zdiv_mono1 [of t 86399 3600] by simp
  moreover have "m mod 12 < 12" "t div 60 mod 60 < 60" "t mod 60 < 60" by simp_all
  moreover have "civil_day (day_number s) \<le> 31" using civil_day_range by blast
  ultimately have nats: "nat (m div 12) < 10000" "nat (m mod 12 + 1) < 100"
    "nat (civil_day (day_number s)) < 100" "nat (t div 3600) < 100"
    "nat (t div 60 mod 60) < 100" "nat (t mod 60) < 100"
    by (intro nat_lt; linarith)+
  obtain a b c d e f where "seps = [a, b, c, d, e, f]"
    using assms(2) by (auto simp: numeral_eq_Suc length_Suc_conv)
  then show ?thesis
    by (simp add: nats fields_fit_def stamp_def date_parts_def time_parts_def Let_def
        flip: m_def t_def)
qed

lemma lex3_nat:
  fixes a b c :: int
  assumes "a < a' \<or> (a = a' \<and> b < b') \<or> (a = a' \<and> b = b' \<and> c < c')"
    and "0 \<le> a" "0 \<le> b" "0 \<le> c"
  shows "[nat a, nat b, nat c] < [nat a', nat b', nat c']"
  using assms by auto

lemma day_parts_less:
  assumes "0 \<le> t" "t < t'" "t' < 86400"
  shows "[nat (t div 3600), nat (t div 60 mod 60), nat (t mod 60)]
    < [nat (t' div 3600), nat (t' div 60 mod 60), nat (t' mod 60)]"
proof -
  have split: "x div 3600 = x div 60 div 60" for x :: int
    using zdiv_zmult2_eq [of 60 x 60] by simp
  have q: "t div 60 \<le> t' div 60" using assms by (simp add: zdiv_mono1)
  have hh: "t div 60 div 60 \<le> t' div 60 div 60" using q by (simp add: zdiv_mono1)
  have nn: "0 \<le> t div 60" "0 \<le> t div 60 div 60" using assms(1) by (simp_all add: pos_imp_zdiv_nonneg_iff)
  have parts: "60 * (60 * (x div 60 div 60) + x div 60 mod 60) + x mod 60 = x" for x :: int
    by simp
  have lex: "a < a' \<or> (a = a' \<and> b < b') \<or> (a = a' \<and> b = b' \<and> c < c')"
    if "60 * (60 * a + b) + c < 60 * (60 * a' + b') + c'" "a \<le> a'" "60 * a + b \<le> 60 * a' + b'"
    for a b c a' b' c' :: int
    using that by (cases "a = a'"; cases "b = b'") simp_all
  have "t div 60 div 60 < t' div 60 div 60
     \<or> (t div 60 div 60 = t' div 60 div 60 \<and> t div 60 mod 60 < t' div 60 mod 60)
     \<or> (t div 60 div 60 = t' div 60 div 60 \<and> t div 60 mod 60 = t' div 60 mod 60
        \<and> t mod 60 < t' mod 60)"
    by (rule lex) (simp_all only: parts mult_div_mod_eq assms(2) hh q)
  then show ?thesis
    unfolding split by (intro lex3_nat) (simp_all only: nn pos_mod_sign zero_less_numeral)
qed

lemma date_parts_less:
  assumes "in_calendar s" "s div 86400 < s' div 86400"
  shows "date_parts s @ xs < date_parts s' @ ys"
proof -
  define z z' where "z = day_number s" and "z' = day_number s'"
  have lt: "z < z'" using assms(2) by (simp add: z_def z'_def day_number_def)
  have lo: "12 \<le> civil_month z" using civil_month_range [OF assms(1)] by (simp add: z_def)
  have day: "1 \<le> civil_day z" using civil_day_range by blast
  have mon: "civil_month z \<le> civil_month z'" using month_at_mono [of z z'] lt by (simp add: civil_month_def)
  have yr: "civil_month z div 12 \<le> civil_month z' div 12" using mon by (intro zdiv_mono1) auto
  have nn: "0 \<le> civil_month z div 12" using lo by (simp add: pos_imp_zdiv_nonneg_iff)
  have eq: "x = 12 * (x div 12) + x mod 12" for x :: int by simp
  have cases3: "civil_month z div 12 < civil_month z' div 12
     \<or> (civil_month z div 12 = civil_month z' div 12 \<and> civil_month z mod 12 < civil_month z' mod 12)
     \<or> (civil_month z = civil_month z' \<and> civil_day z < civil_day z')"
    using civil_strict_mono [OF lt] yr eq [of "civil_month z"] eq [of "civil_month z'"] by linarith
  show ?thesis
    unfolding date_parts_def Let_def z_def [symmetric] z'_def [symmetric]
    using cases3 nn day by (elim disjE) (auto simp: nat_less_eq_zless)
qed

lemma stamp_less:
  assumes "in_calendar s" "in_calendar s'" "length seps = 6" "s < s'"
  shows "fields (stamp seps s) @ t < fields (stamp seps s') @ t"
proof (rule fields_less)
  show "field_values (stamp seps s) < field_values (stamp seps s')"
  proof (cases "s div 86400 < s' div 86400")
    case True
    then show ?thesis using date_parts_less [OF assms(1) True] assms(3) by (simp add: stamp_values)
  next
    case False
    moreover have "s div 86400 \<le> s' div 86400" using assms(4) by (intro zdiv_mono1) auto
    ultimately have d: "s div 86400 = s' div 86400" by simp
    have "s mod 86400 < s' mod 86400"
      using assms(4) d mult_div_mod_eq [of 86400 s] mult_div_mod_eq [of 86400 s'] by linarith
    then have "time_parts s < time_parts s'"
      unfolding time_parts_def Let_def by (intro day_parts_less) simp_all
    moreover have "date_parts s = date_parts s'" by (simp add: date_parts_def day_number_def d)
    ultimately show ?thesis using assms(3) by (simp add: stamp_values lex_append_less)
  qed
qed (use assms in \<open>simp_all add: stamp_shape stamp_fit\<close>)

lemma length_iso_seps [simp]: "length iso_seps = 6"
  by (simp add: iso_seps_def)

lemma iso_utc_less: "in_calendar s \<Longrightarrow> in_calendar s' \<Longrightarrow> s < s' \<Longrightarrow> iso_utc s < iso_utc s'"
  unfolding iso_utc_def by (rule stamp_less) simp_all

lemma iso_utc_le_iff: "in_calendar s \<Longrightarrow> in_calendar s' \<Longrightarrow> iso_utc s \<le> iso_utc s' \<longleftrightarrow> s \<le> s'"
  using iso_utc_less [of s s'] iso_utc_less [of s' s] by (metis leD le_less linorder_less_linear)

end
