(* ===== verification/CoreTypes.thy ===== *)
theory CoreTypes
  imports Clock
begin

text \<open>
  The value types of \<open>core.py\<close> and \<open>watermark/base.py\<close>: what flows between a source, a
  transport and the store.  Cursors and commit tokens are byte strings that only their source
  reads.  The class methods of \<open>Outcome\<close> and the two policies' arithmetic are here too.
\<close>

subsection \<open>Records and batches\<close>

text \<open>\<open>Record\<close>: the time is in microseconds since the epoch.\<close>

record urecord =
  rec_table :: string
  rec_time :: int
  rec_columns :: pydict
  rec_dedup_key :: "bytes option"
  rec_payload_path :: "string option"

record batch =
  bt_records :: "urecord list"
  bt_cursor_after :: bytes
  bt_commit_token :: bytes

definition batch_len :: "batch \<Rightarrow> nat" where "batch_len b = length (bt_records b)"

subsection \<open>Outcomes\<close>

record outcome =
  oc_kind :: string
  oc_reason :: string
  oc_accepted_cursor :: "bytes option"
  oc_rejected :: "urecord list"
  oc_n_bytes :: int

definition acked :: outcome where
  "acked = \<lparr>oc_kind = ''acked'', oc_reason = [], oc_accepted_cursor = None, oc_rejected = [],
     oc_n_bytes = 0\<rparr>"

definition retry_later :: "string \<Rightarrow> outcome" where
  "retry_later reason = \<lparr>oc_kind = ''retry_later'', oc_reason = reason,
     oc_accepted_cursor = None, oc_rejected = [], oc_n_bytes = 0\<rparr>"

definition partial_ack :: "bytes \<Rightarrow> urecord list \<Rightarrow> string \<Rightarrow> outcome" where
  "partial_ack accepted rejected reason = \<lparr>oc_kind = ''partial_ack'', oc_reason = reason,
     oc_accepted_cursor = Some accepted, oc_rejected = rejected, oc_n_bytes = 0\<rparr>"

definition permanent_failure :: "string \<Rightarrow> outcome" where
  "permanent_failure reason = \<lparr>oc_kind = ''permanent'', oc_reason = reason,
     oc_accepted_cursor = None, oc_rejected = [], oc_n_bytes = 0\<rparr>"

definition succeeded :: "outcome \<Rightarrow> bool" where
  "succeeded oc \<longleftrightarrow> oc_kind oc \<in> {''acked'', ''partial_ack''}"

lemmas outcome_defs = acked_def retry_later_def partial_ack_def permanent_failure_def

lemma succeeded_simps [simp]:
  "succeeded acked" "succeeded (partial_ack c rs r)"
  "\<not> succeeded (retry_later r)" "\<not> succeeded (permanent_failure r)"
  by (simp_all add: succeeded_def outcome_defs)

text \<open>\<open>reason or None\<close>, the error column of an attempt row.\<close>

definition reason_or_none :: "outcome \<Rightarrow> string option" where
  "reason_or_none oc = (if oc_reason oc = [] then None else Some (oc_reason oc))"

subsection \<open>Policies\<close>

record batch_policy =
  bp_max_records :: nat
  bp_max_bytes :: "nat option"
  bp_min_records_for_burst :: nat
  bp_stability_window_sec :: rat

definition default_batch_policy :: batch_policy where
  "default_batch_policy = \<lparr>bp_max_records = 1000, bp_max_bytes = None,
     bp_min_records_for_burst = 1, bp_stability_window_sec = 0\<rparr>"

record retry_policy =
  rp_base :: rat
  rp_cap_sec :: rat
  rp_max_attempts :: int

definition exponential :: "rat \<Rightarrow> rat \<Rightarrow> int \<Rightarrow> retry_policy" where
  "exponential base cap_sec max_attempts
     = \<lparr>rp_base = base, rp_cap_sec = cap_sec, rp_max_attempts = max_attempts\<rparr>"

definition default_retry_policy :: retry_policy where
  "default_retry_policy = exponential 2 300 12"

definition delay_for :: "retry_policy \<Rightarrow> int \<Rightarrow> rat" where
  "delay_for p attempt = (if attempt < 0 then 0
     else min (rp_base p ^ nat attempt) (rp_cap_sec p))"

lemma delay_for_le_cap: "0 \<le> rp_cap_sec p \<Longrightarrow> delay_for p n \<le> rp_cap_sec p"
  by (simp add: delay_for_def)

lemma delay_for_nonneg: "0 \<le> rp_base p \<Longrightarrow> 0 \<le> rp_cap_sec p \<Longrightarrow> 0 \<le> delay_for p n"
  by (simp add: delay_for_def)

lemma delay_for_mono:
  assumes "1 \<le> rp_base p" "0 \<le> rp_cap_sec p" "m \<le> n"
  shows "delay_for p m \<le> delay_for p n"
proof (cases "m < 0")
  case True
  then show ?thesis using delay_for_nonneg [of p n] assms by (simp add: delay_for_def)
next
  case False
  then have "rp_base p ^ nat m \<le> rp_base p ^ nat n" using assms by (intro power_increasing) auto
  then show ?thesis using False assms(3) by (simp add: delay_for_def min.coboundedI1)
qed

subsection \<open>The store's row types\<close>

text \<open>\<open>Advance\<close>: what one \<open>advance_cursor\<close> did.\<close>

datatype advance = Written | Refreshed | Refused | WrittenUnchecked

text \<open>\<open>Deliverable\<close>: a batch that waits for its next attempt.\<close>

record deliverable =
  dl_id :: nat
  dl_pipeline :: string
  dl_payload :: bytes
  dl_enqueued_at :: string
  dl_attempts :: int
  dl_next_attempt_at :: string
  dl_source_id :: string
  dl_dest_id :: string
  dl_table :: string
  dl_cursor_after :: bytes
  dl_commit_token :: bytes

text \<open>A send record's key: source id, destination id, table.\<close>

type_synonym send_key = "string \<times> string \<times> string"

text \<open>A cursor comparator of a source: "the first lies after the second", or an exception.\<close>

type_synonym comparator = "bytes \<Rightarrow> bytes \<Rightarrow> bool res"

text \<open>
  The order a source's comparator follows.  Each source's own comparator is shown to be one
  (\<open>SqliteSource\<close>, \<open>WsprCycle\<close>, \<open>FileTree\<close>); the store and the pump rest on the laws alone.
  \<open>readable\<close> holds the cursors the comparator can read, \<open>pos\<close> is a cursor's place.
\<close>

locale cursor_order =
  fixes after :: comparator
    and readable :: "bytes \<Rightarrow> bool"
    and pos :: "bytes \<Rightarrow> 'p::linorder"
  assumes after_readable: "readable a \<Longrightarrow> readable b \<Longrightarrow> after a b = Ok (pos b < pos a)"
begin

lemma after_irrefl: "readable a \<Longrightarrow> after a a = Ok False"
  by (simp add: after_readable)

lemma after_asym: "readable a \<Longrightarrow> readable b \<Longrightarrow> after a b = Ok True \<Longrightarrow> after b a = Ok False"
  by (auto simp: after_readable)

lemma after_trans:
  "readable a \<Longrightarrow> readable b \<Longrightarrow> readable c \<Longrightarrow> after a b = Ok True \<Longrightarrow> after b c = Ok True
    \<Longrightarrow> after a c = Ok True"
  by (auto simp: after_readable)

end

end
