(* ===== verification/Store.thy ===== *)
theory Store
  imports CoreTypes "HOL-Library.Multiset"
begin

text \<open>
  The watermark store (\<open>watermark/sqlite.py\<close>): send records, the attempt log, the retry
  queue, dead letters and the daemon's pipeline states.  A table is an association list or a
  list of rows in rowid order; an \<open>INSERT .. ON CONFLICT DO UPDATE\<close> is \<open>dict_set\<close>.

  Two locales state what the rest of the program relies on: \<open>cursor_order\<close> (CoreTypes) for
  the forward-only rule of \<open>advance_cursor\<close>, and \<open>retry_queue\<close> for the queue the pump drains.
  Failures of SQLite itself (a full disk, a locked file) are outside the model.
\<close>

subsection \<open>State\<close>

text \<open>What a column of BLOB affinity may hold; \<open>bytes(raw)\<close> reads it.\<close>

datatype cell = CBlob bytes | CText string | CInt int | CReal

definition read_cell :: "cell \<Rightarrow> bytes res" where
  "read_cell c = (case c of
     CBlob b \<Rightarrow> Ok b
   | CText _ \<Rightarrow> Raise (Exn ''TypeError'' ''string argument without an encoding'')
   | CInt n \<Rightarrow> if n < 0 then Raise (Exn ''ValueError'' ''negative count'')
       else Ok (replicate (nat n) (char_of (0 :: nat)))
   | CReal \<Rightarrow> Raise (Exn ''TypeError'' ''cannot convert 'float' object to bytes''))"

record mark =
  mk_cursor :: cell
  mk_last_ack :: string

record attempt =
  at_ts :: string
  at_source_id :: string
  at_dest_id :: string
  at_table :: string
  at_outcome :: string
  at_records :: "int option"
  at_bytes :: "int option"
  at_error :: "string option"
  at_pipeline :: string
  at_client :: string

record last_send_row =
  ls_outcome :: string
  ls_ts :: string
  ls_records :: "int option"

record dead_row =
  dd_ts :: string
  dd_pipeline :: string
  dd_payload :: bytes
  dd_final_error :: string

record pipe_row =
  pr_client :: string
  pr_refused_reason :: string
  pr_updated_at :: string

datatype log_level = Debug | Info | Warning | Error

datatype store_log =
    LogNotForward log_level send_key bytes bytes nat
  | LogCheckFailed log_level send_key string
  | LogDuplicate string bytes nat

record store =
  st_marks :: "(send_key \<times> mark) list"
  st_attempts :: "attempt list"
  st_queue :: "deliverable list"
  st_next_id :: nat
  st_dead :: "dead_row list"
  st_last_send :: "((string \<times> string) \<times> last_send_row) list"
  st_pipes :: "(string \<times> pipe_row) list"
  st_superseded :: "(send_key \<times> send_key \<times> string) list"
  st_user_version :: int
  st_has_tables :: bool
  st_v3 :: bool
  st_in_txn :: bool
  st_warn_windows :: "(send_key \<times> rat \<times> nat) list"
  st_check_failed_at :: "(send_key \<times> rat) list"
  st_log :: "store_log list"

definition attempts_ring_size :: nat where "attempts_ring_size = 10000"

definition backward_warn_interval :: rat where "backward_warn_interval = 3600"

definition schema_version :: int where "schema_version = 3"

text \<open>A file that held no table is born current; a file with tables keeps its number.\<close>

definition empty_file :: store where
  "empty_file = \<lparr>st_marks = [], st_attempts = [], st_queue = [], st_next_id = 1, st_dead = [],
     st_last_send = [], st_pipes = [], st_superseded = [], st_user_version = 0,
     st_has_tables = False, st_v3 = False, st_in_txn = False, st_warn_windows = [],
     st_check_failed_at = [], st_log = []\<rparr>"

definition init_schema :: "store \<Rightarrow> store" where
  "init_schema st = (if st_has_tables st then st
     else st\<lparr>st_has_tables := True, st_user_version := schema_version\<rparr>)"

definition refresh_schema_version :: "store \<Rightarrow> int \<times> store" where
  "refresh_schema_version st
     = (st_user_version st, st\<lparr>st_v3 := (3 \<le> st_user_version st)\<rparr>)"

text \<open>\<open>SqliteWatermarkStore(path)\<close>: the windows are in memory only.\<close>

definition open_store :: "store \<Rightarrow> store" where
  "open_store st = snd (refresh_schema_version (init_schema
     (st\<lparr>st_in_txn := False, st_v3 := False, st_warn_windows := [], st_check_failed_at := []\<rparr>)))"

subsection \<open>Send records\<close>

definition find_mark :: "store \<Rightarrow> send_key \<Rightarrow> mark option" where
  "find_mark st k = map_of (st_marks st) k"

definition get_cursor :: "store \<Rightarrow> send_key \<Rightarrow> bytes res" where
  "get_cursor st k = (case find_mark st k of None \<Rightarrow> Ok [] | Some m \<Rightarrow> read_cell (mk_cursor m))"

definition upsert :: "send_key \<Rightarrow> bytes \<Rightarrow> string \<Rightarrow> store \<Rightarrow> store" where
  "upsert k cursor last_ack st
     = st\<lparr>st_marks := dict_set k \<lparr>mk_cursor = CBlob cursor, mk_last_ack = last_ack\<rparr> (st_marks st)\<rparr>"

definition start_cursor :: "send_key \<Rightarrow> bytes \<Rightarrow> string \<Rightarrow> store \<Rightarrow> bool \<times> store" where
  "start_cursor k cursor last_ack st = (case find_mark st k of
     None \<Rightarrow> (True, upsert k cursor last_ack st)
   | Some _ \<Rightarrow> (False, st))"

definition reset_cursor :: "send_key \<Rightarrow> store \<Rightarrow> bool \<times> store" where
  "reset_cursor k st = (find_mark st k \<noteq> None, st\<lparr>st_marks := dict_del k (st_marks st)\<rparr>)"

definition touch_last_ack :: "send_key \<Rightarrow> string \<Rightarrow> store \<Rightarrow> store" where
  "touch_last_ack k last_ack st = (case find_mark st k of
     None \<Rightarrow> st
   | Some m \<Rightarrow> st\<lparr>st_marks := dict_set k (m\<lparr>mk_last_ack := last_ack\<rparr>) (st_marks st)\<rparr>)"

text \<open>
  The two throttles.  \<open>tick\<close> is the reading of the monotonic clock, which may raise; a
  failure to log changes nothing.
\<close>

definition log_check_failed :: "send_key \<Rightarrow> string \<Rightarrow> rat res \<Rightarrow> store \<Rightarrow> store" where
  "log_check_failed k what tick st = (case tick of
     Raise _ \<Rightarrow> st
   | Ok now \<Rightarrow> (case map_of (st_check_failed_at st) k of
         Some prev \<Rightarrow> if now - prev < backward_warn_interval
           then st\<lparr>st_log := st_log st @ [LogCheckFailed Debug k what]\<rparr>
           else st\<lparr>st_check_failed_at := dict_set k now (st_check_failed_at st),
                  st_log := st_log st @ [LogCheckFailed Warning k what]\<rparr>
       | None \<Rightarrow> st\<lparr>st_check_failed_at := dict_set k now (st_check_failed_at st),
                  st_log := st_log st @ [LogCheckFailed Warning k what]\<rparr>))"

definition log_not_forward :: "send_key \<Rightarrow> bytes \<Rightarrow> bytes \<Rightarrow> rat res \<Rightarrow> store \<Rightarrow> store" where
  "log_not_forward k stored new tick st = (case tick of
     Raise _ \<Rightarrow> st
   | Ok now \<Rightarrow> (case map_of (st_warn_windows st) k of
         None \<Rightarrow> st\<lparr>st_warn_windows := dict_set k (now, 0) (st_warn_windows st),
                   st_log := st_log st @ [LogNotForward Warning k stored new 0]\<rparr>
       | Some (start, n) \<Rightarrow>
           if now - start < backward_warn_interval
           then st\<lparr>st_warn_windows := dict_set k (start, n + 1) (st_warn_windows st),
                  st_log := st_log st @ [LogNotForward Debug k stored new (n + 1)]\<rparr>
           else st\<lparr>st_warn_windows := dict_set k (now, 0) (st_warn_windows st),
                  st_log := st_log st @ [LogNotForward Warning k stored new (n + 1)]\<rparr>))"

text \<open>
  The forward check: \<open>after\<close> first; \<open>before\<close> asks the other way round only when that is
  needed.  The pair is (after, before).
\<close>

definition forward_check :: "comparator \<Rightarrow> bytes \<Rightarrow> bytes \<Rightarrow> (bool \<times> bool) res" where
  "forward_check is_after cursor stored = bind_res (is_after cursor stored) (\<lambda>after.
     if after \<or> cursor = stored then Ok (after, False)
     else map_res (\<lambda>before. (False, before)) (is_after stored cursor))"

definition advance_in_txn ::
  "send_key \<Rightarrow> bytes \<Rightarrow> string \<Rightarrow> comparator \<Rightarrow> rat res \<Rightarrow> store \<Rightarrow> store \<times> advance" where
  "advance_in_txn k cursor last_ack is_after tick st = (case find_mark st k of
     None \<Rightarrow> (upsert k cursor last_ack st, Written)
   | Some m \<Rightarrow> (case read_cell (mk_cursor m) of
       Raise _ \<Rightarrow>
         (upsert k cursor last_ack (log_check_failed k ''forward check'' tick st), WrittenUnchecked)
     | Ok stored \<Rightarrow> (case forward_check is_after cursor stored of
         Raise _ \<Rightarrow>
           (upsert k cursor last_ack (log_check_failed k ''cursor comparator'' tick st),
            WrittenUnchecked)
       | Ok (after, before) \<Rightarrow>
           if after then (upsert k cursor last_ack st, Written)
           else if before then (log_not_forward k stored cursor tick st, Refused)
           else (touch_last_ack k last_ack st, Refreshed))))"

definition advance_cursor ::
  "send_key \<Rightarrow> bytes \<Rightarrow> string \<Rightarrow> comparator \<Rightarrow> rat res \<Rightarrow> store \<Rightarrow> store \<times> advance res" where
  "advance_cursor k cursor last_ack is_after tick st = (if st_in_txn st
     then (st, Raise (Exn ''RuntimeError'' ''advance_cursor called inside an open transaction''))
     else (case advance_in_txn k cursor last_ack is_after tick st of (st', a) \<Rightarrow> (st', Ok a)))"

subsection \<open>The attempt log\<close>

text \<open>The rows are in rowid order, so the trim keeps the last \<open>attempts_ring_size\<close> of them.\<close>

definition trim_ring :: "attempt list \<Rightarrow> attempt list" where
  "trim_ring rows = drop (length rows - attempts_ring_size) rows"

definition record_attempt :: "attempt \<Rightarrow> bool \<Rightarrow> store \<Rightarrow> store" where
  "record_attempt a last_send st = (if st_v3 st
     then st\<lparr>st_attempts := trim_ring (st_attempts st @ [a]),
            st_last_send := (if last_send \<and> at_outcome a \<in> {''acked'', ''partial_ack''}
               then dict_set (at_client a, at_pipeline a)
                 \<lparr>ls_outcome = at_outcome a, ls_ts = at_ts a, ls_records = at_records a\<rparr>
                 (st_last_send st)
               else st_last_send st)\<rparr>
     else st\<lparr>st_attempts :=
            trim_ring (st_attempts st @ [a\<lparr>at_pipeline := [], at_client := []\<rparr>])\<rparr>)"

definition recent_attempts :: "nat \<Rightarrow> store \<Rightarrow> attempt list" where
  "recent_attempts limit st = take limit (rev (st_attempts st))"

subsection \<open>The retry queue\<close>

text \<open>Rows stand in id order, so the first of a filter is \<open>ORDER BY id LIMIT 1\<close>.\<close>

definition enqueue_deliverable :: "deliverable \<Rightarrow> store \<Rightarrow> nat \<times> store" where
  "enqueue_deliverable d st = (case
     (if dl_cursor_after d = [] then []
      else filter (\<lambda>r. dl_pipeline r = dl_pipeline d \<and> dl_cursor_after r = dl_cursor_after d)
             (st_queue st)) of
     r # _ \<Rightarrow> (dl_id r, st\<lparr>st_log := st_log st
         @ [LogDuplicate (dl_pipeline d) (take 40 (dl_cursor_after d)) (dl_id r)]\<rparr>)
   | [] \<Rightarrow> (st_next_id st,
       st\<lparr>st_queue := st_queue st @ [d\<lparr>dl_id := st_next_id st, dl_attempts := 0\<rparr>],
          st_next_id := st_next_id st + 1\<rparr>))"

definition due_rows :: "string \<Rightarrow> string \<Rightarrow> store \<Rightarrow> deliverable list" where
  "due_rows pipeline now st
     = filter (\<lambda>r. dl_pipeline r = pipeline \<and> dl_next_attempt_at r \<le> now) (st_queue st)"

definition pop_due :: "string \<Rightarrow> string \<Rightarrow> store \<Rightarrow> deliverable option \<times> store" where
  "pop_due pipeline now st = (case min_by dl_next_attempt_at (due_rows pipeline now st) of
     None \<Rightarrow> (None, st)
   | Some r \<Rightarrow> (Some r, st\<lparr>st_queue := filter (\<lambda>q. dl_id q \<noteq> dl_id r) (st_queue st)\<rparr>))"

definition requeue_deliverable :: "deliverable \<Rightarrow> store \<Rightarrow> store res" where
  "requeue_deliverable d st = (if dl_id d \<in> dl_id ` set (st_queue st)
     then Raise (Exn ''IntegrityError'' ''UNIQUE constraint failed: deliverables.id'')
     else Ok (st\<lparr>st_queue := insort_key dl_id d (st_queue st),
                st_next_id := max (st_next_id st) (dl_id d + 1)\<rparr>))"

definition deliverable_count :: "string option \<Rightarrow> store \<Rightarrow> nat" where
  "deliverable_count pipeline st = (case pipeline of
     None \<Rightarrow> length (st_queue st)
   | Some p \<Rightarrow> length (filter (\<lambda>r. dl_pipeline r = p) (st_queue st)))"

subsection \<open>Dead letters, pipeline states, listings\<close>

definition send_to_dead_letter :: "string \<Rightarrow> string \<Rightarrow> bytes \<Rightarrow> string \<Rightarrow> store \<Rightarrow> store" where
  "send_to_dead_letter ts pipeline payload final_error st = st\<lparr>st_dead := st_dead st
     @ [\<lparr>dd_ts = ts, dd_pipeline = pipeline, dd_payload = payload, dd_final_error = final_error\<rparr>]\<rparr>"

definition dead_letter_count :: "store \<Rightarrow> nat" where
  "dead_letter_count st = length (st_dead st)"

definition record_pipeline_states ::
  "string \<Rightarrow> (string \<times> string \<times> string) list \<Rightarrow> bool \<Rightarrow> store \<Rightarrow> store" where
  "record_pipeline_states now states replace_all st = (let
     kept = (if replace_all
       then filter (\<lambda>(n, _). n \<in> fst ` set states) (st_pipes st) else st_pipes st)
     in st\<lparr>st_pipes := fold (\<lambda>(n, c, r). dict_set n
          \<lparr>pr_client = c, pr_refused_reason = r, pr_updated_at = now\<rparr>) states kept\<rparr>)"

definition record_pipeline_state :: "string \<Rightarrow> string \<Rightarrow> string \<Rightarrow> string \<Rightarrow> store \<Rightarrow> store" where
  "record_pipeline_state now name client refused_reason
     = record_pipeline_states now [(name, client, refused_reason)] False"

definition pipeline_states :: "store \<Rightarrow> (string \<times> pipe_row) list" where
  "pipeline_states st = sort_key fst (st_pipes st)"

definition all_cursors :: "store \<Rightarrow> (send_key \<times> mark) list" where
  "all_cursors st = sort_key fst (st_marks st)"

definition superseded_by :: "send_key \<Rightarrow> store \<Rightarrow> string list" where
  "superseded_by k st = sort (remdups (map (\<lambda>(_, (s, _, _), _). s)
     (filter (\<lambda>(old, _, _). old = k) (st_superseded st))))"


subsection \<open>Well-formedness\<close>

text \<open>What the primary keys and the AUTOINCREMENT give: distinct keys, ids in order, none reused.\<close>

definition wf_store :: "store \<Rightarrow> bool" where
  "wf_store st \<longleftrightarrow> distinct (map fst (st_marks st)) \<and> sorted (map dl_id (st_queue st))
     \<and> distinct (map dl_id (st_queue st)) \<and> (\<forall>d \<in> set (st_queue st). dl_id d < st_next_id st)
     \<and> distinct (map fst (st_last_send st)) \<and> distinct (map fst (st_pipes st))
     \<and> length (st_attempts st) \<le> attempts_ring_size"

lemma wf_storeI:
  "distinct (map fst (st_marks st)) \<Longrightarrow> sorted (map dl_id (st_queue st))
    \<Longrightarrow> distinct (map dl_id (st_queue st)) \<Longrightarrow> (\<And>d. d \<in> set (st_queue st) \<Longrightarrow> dl_id d < st_next_id st)
    \<Longrightarrow> distinct (map fst (st_last_send st)) \<Longrightarrow> distinct (map fst (st_pipes st))
    \<Longrightarrow> length (st_attempts st) \<le> attempts_ring_size \<Longrightarrow> wf_store st"
  by (simp add: wf_store_def)

lemma length_trim_ring [simp]: "length (trim_ring xs) \<le> attempts_ring_size"
  by (simp add: trim_ring_def)

lemma trim_ring_suffix: "\<exists>old. xs = old @ trim_ring xs"
  by (metis append_take_drop_id trim_ring_def)

lemma trim_ring_small: "length xs \<le> attempts_ring_size \<Longrightarrow> trim_ring xs = xs"
  by (simp add: trim_ring_def)

subsection \<open>What each operation leaves alone\<close>

lemma find_mark_upsert [simp]:
  "find_mark (upsert k c t st) k' = (if k' = k then Some \<lparr>mk_cursor = CBlob c, mk_last_ack = t\<rparr>
     else find_mark st k')"
  by (simp add: find_mark_def upsert_def)

lemma find_mark_touch [simp]:
  "find_mark (touch_last_ack k t st) k' = (if k' = k then map_option (mk_last_ack_update (\<lambda>_. t)) (find_mark st k)
     else find_mark st k')"
  by (auto simp: find_mark_def touch_last_ack_def split: option.splits)

lemma find_mark_reset [simp]:
  "find_mark (snd (reset_cursor k st)) k' = (if k' = k then None else find_mark st k')"
  by (simp add: find_mark_def reset_cursor_def)

lemma log_frames [frame_simps, simp]:
  "st_marks (log_check_failed k w t st) = st_marks st"
  "st_marks (log_not_forward k a b t st) = st_marks st"
  "st_queue (log_check_failed k w t st) = st_queue st"
  "st_queue (log_not_forward k a b t st) = st_queue st"
  "st_next_id (log_check_failed k w t st) = st_next_id st"
  "st_next_id (log_not_forward k a b t st) = st_next_id st"
  "st_attempts (log_check_failed k w t st) = st_attempts st"
  "st_attempts (log_not_forward k a b t st) = st_attempts st"
  "st_last_send (log_check_failed k w t st) = st_last_send st"
  "st_last_send (log_not_forward k a b t st) = st_last_send st"
  "st_pipes (log_check_failed k w t st) = st_pipes st"
  "st_pipes (log_not_forward k a b t st) = st_pipes st"
  "st_dead (log_check_failed k w t st) = st_dead st"
  "st_dead (log_not_forward k a b t st) = st_dead st"
  "st_in_txn (log_check_failed k w t st) = st_in_txn st"
  "st_in_txn (log_not_forward k a b t st) = st_in_txn st"
  "st_v3 (log_check_failed k w t st) = st_v3 st"
  "st_v3 (log_not_forward k a b t st) = st_v3 st"
  by (simp_all add: log_check_failed_def log_not_forward_def split: res.splits option.splits prod.splits)

lemma find_mark_logs [simp]:
  "find_mark (log_check_failed k w t st) k' = find_mark st k'"
  "find_mark (log_not_forward k a b t st) k' = find_mark st k'"
  by (simp_all add: find_mark_def)

lemma record_attempt_frames [frame_simps, simp]:
  "st_marks (record_attempt a l st) = st_marks st"
  "st_queue (record_attempt a l st) = st_queue st"
  "st_next_id (record_attempt a l st) = st_next_id st"
  "st_dead (record_attempt a l st) = st_dead st"
  "st_in_txn (record_attempt a l st) = st_in_txn st"
  "st_v3 (record_attempt a l st) = st_v3 st"
  "st_pipes (record_attempt a l st) = st_pipes st"
  "find_mark (record_attempt a l st) k = find_mark st k"
  by (simp_all add: record_attempt_def find_mark_def)

lemma dead_letter_frames [frame_simps, simp]:
  "st_marks (send_to_dead_letter t p b e st) = st_marks st"
  "st_queue (send_to_dead_letter t p b e st) = st_queue st"
  "st_next_id (send_to_dead_letter t p b e st) = st_next_id st"
  "st_in_txn (send_to_dead_letter t p b e st) = st_in_txn st"
  "st_v3 (send_to_dead_letter t p b e st) = st_v3 st"
  "st_attempts (send_to_dead_letter t p b e st) = st_attempts st"
  "st_last_send (send_to_dead_letter t p b e st) = st_last_send st"
  "st_pipes (send_to_dead_letter t p b e st) = st_pipes st"
  "find_mark (send_to_dead_letter t p b e st) k = find_mark st k"
  by (simp_all add: send_to_dead_letter_def find_mark_def)

lemma upsert_frames [frame_simps, simp]:
  "st_queue (upsert k c t st) = st_queue st" "st_next_id (upsert k c t st) = st_next_id st"
  "st_attempts (upsert k c t st) = st_attempts st" "st_dead (upsert k c t st) = st_dead st"
  "st_last_send (upsert k c t st) = st_last_send st" "st_pipes (upsert k c t st) = st_pipes st"
  "st_in_txn (upsert k c t st) = st_in_txn st" "st_v3 (upsert k c t st) = st_v3 st"
  by (simp_all add: upsert_def)

lemma touch_frames [frame_simps, simp]:
  "st_queue (touch_last_ack k t st) = st_queue st" "st_next_id (touch_last_ack k t st) = st_next_id st"
  "st_attempts (touch_last_ack k t st) = st_attempts st" "st_dead (touch_last_ack k t st) = st_dead st"
  "st_last_send (touch_last_ack k t st) = st_last_send st" "st_pipes (touch_last_ack k t st) = st_pipes st"
  "st_in_txn (touch_last_ack k t st) = st_in_txn st" "st_v3 (touch_last_ack k t st) = st_v3 st"
  by (simp_all add: touch_last_ack_def split: option.splits)

text \<open>An advance touches the send records and the log, nothing else.\<close>

lemma advance_frames [frame_simps, simp]:
  "st_queue (fst (advance_cursor k c t f tick st)) = st_queue st"
  "st_next_id (fst (advance_cursor k c t f tick st)) = st_next_id st"
  "st_attempts (fst (advance_cursor k c t f tick st)) = st_attempts st"
  "st_dead (fst (advance_cursor k c t f tick st)) = st_dead st"
  "st_last_send (fst (advance_cursor k c t f tick st)) = st_last_send st"
  "st_pipes (fst (advance_cursor k c t f tick st)) = st_pipes st"
  "st_in_txn (fst (advance_cursor k c t f tick st)) = st_in_txn st"
  "st_v3 (fst (advance_cursor k c t f tick st)) = st_v3 st"
  by (simp_all add: advance_cursor_def advance_in_txn_def split: option.splits res.splits prod.splits)

subsection \<open>Every operation keeps the store well-formed\<close>

lemma wf_empty_file [intro]: "wf_store empty_file"
  by (simp add: wf_store_def empty_file_def)

lemma wf_open_store: "wf_store st \<Longrightarrow> wf_store (open_store st)"
  by (simp add: wf_store_def open_store_def init_schema_def refresh_schema_version_def)

lemma wf_upsert: "wf_store st \<Longrightarrow> wf_store (upsert k c t st)"
  by (simp add: wf_store_def) (simp add: upsert_def distinct_dict_set)

lemma wf_touch: "wf_store st \<Longrightarrow> wf_store (touch_last_ack k t st)"
  by (simp add: wf_store_def) (simp add: touch_last_ack_def distinct_dict_set split: option.split)

lemma wf_logs:
  "wf_store st \<Longrightarrow> wf_store (log_check_failed k w t st)"
  "wf_store st \<Longrightarrow> wf_store (log_not_forward k a b t st)"
  by (simp_all add: wf_store_def)

lemma wf_advance: "wf_store st \<Longrightarrow> wf_store (fst (advance_cursor k c t f tick st))"
  by (auto simp: advance_cursor_def advance_in_txn_def intro!: wf_upsert wf_touch wf_logs
      split: option.split res.split prod.split)

lemma wf_start_cursor: "wf_store st \<Longrightarrow> wf_store (snd (start_cursor k c t st))"
  by (simp add: start_cursor_def wf_upsert split: option.split)

lemma wf_reset_cursor: "wf_store st \<Longrightarrow> wf_store (snd (reset_cursor k st))"
  by (simp add: wf_store_def reset_cursor_def distinct_dict_del)

lemma wf_record_attempt: "wf_store st \<Longrightarrow> wf_store (record_attempt a l st)"
  by (simp add: wf_store_def) (simp add: record_attempt_def distinct_dict_set)

lemma wf_dead_letter: "wf_store st \<Longrightarrow> wf_store (send_to_dead_letter t p b e st)"
  by (simp add: wf_store_def)

lemma wf_enqueue: "wf_store st \<Longrightarrow> wf_store (snd (enqueue_deliverable d st))"
  by (force simp: wf_store_def enqueue_deliverable_def sorted_append less_Suc_eq less_imp_le
      split: list.split)

lemma wf_pop_due: "wf_store st \<Longrightarrow> wf_store (snd (pop_due p now st))"
  by (auto simp: wf_store_def pop_due_def sorted_filter distinct_map_filter split: option.split)

lemma distinct_insort_id:
  "distinct (map dl_id (insort_key dl_id d q)) \<longleftrightarrow> dl_id d \<notin> dl_id ` set q \<and> distinct (map dl_id q)"
proof -
  have "mset (map dl_id (insort_key dl_id d q)) = mset (dl_id d # map dl_id q)" by simp
  then have "distinct (map dl_id (insort_key dl_id d q)) = distinct (dl_id d # map dl_id q)"
    by (rule mset_eq_imp_distinct_iff)
  then show ?thesis by simp
qed

lemma wf_requeue:
  assumes "wf_store st" "requeue_deliverable d st = Ok st'"
  shows "wf_store st'"
proof -
  have fresh: "dl_id d \<notin> dl_id ` set (st_queue st)"
    and st': "st' = st\<lparr>st_queue := insort_key dl_id d (st_queue st),
      st_next_id := max (st_next_id st) (dl_id d + 1)\<rparr>"
    using assms(2) by (auto simp: requeue_deliverable_def split: if_splits)
  show ?thesis
    using assms(1) fresh unfolding st' wf_store_def
    by (auto simp: sorted_insort_key set_insort_key distinct_insort_id less_Suc_eq_le le_max_iff_disj
        intro: less_imp_le max.strict_coboundedI1)
qed

lemma distinct_fold_dict_set:
  "distinct (map fst d) \<Longrightarrow> distinct (map fst (fold (\<lambda>x. dict_set (f x) (g x)) xs d))"
  by (induction xs arbitrary: d) (simp_all add: distinct_dict_set)

lemma wf_record_pipeline_states: "wf_store st \<Longrightarrow> wf_store (record_pipeline_states now states r st)"
  using distinct_fold_dict_set [of _ fst "\<lambda>(n, c, r). \<lparr>pr_client = c, pr_refused_reason = r, pr_updated_at = now\<rparr>" states]
  by (simp add: wf_store_def record_pipeline_states_def Let_def distinct_map_filter case_prod_beta')

subsection \<open>Forward only\<close>

text \<open>The cursor bytes a send record holds, when it holds readable ones.\<close>

definition stored_cursor :: "store \<Rightarrow> send_key \<Rightarrow> bytes option" where
  "stored_cursor st k = (case find_mark st k of
     Some m \<Rightarrow> (case mk_cursor m of CBlob b \<Rightarrow> Some b | _ \<Rightarrow> None) | None \<Rightarrow> None)"

lemma stored_cursor_upsert [simp]:
  "stored_cursor (upsert k c t st) k' = (if k' = k then Some c else stored_cursor st k')"
  by (simp add: stored_cursor_def)

lemma stored_cursor_touch [simp]: "stored_cursor (touch_last_ack k t st) k' = stored_cursor st k'"
  by (simp add: stored_cursor_def split: option.split)

lemma stored_cursor_marks: "st_marks st' = st_marks st \<Longrightarrow> stored_cursor st' k = stored_cursor st k"
  by (simp add: stored_cursor_def find_mark_def)

lemma stored_cursor_logs [simp]:
  "stored_cursor (log_check_failed k w t st) k' = stored_cursor st k'"
  "stored_cursor (log_not_forward k a b t st) k' = stored_cursor st k'"
  by (rule stored_cursor_marks, simp)+

lemma stored_cursor_get: "stored_cursor st k = Some c \<Longrightarrow> get_cursor st k = Ok c"
  by (auto simp: stored_cursor_def get_cursor_def read_cell_def split: option.splits cell.splits)

lemma advance_other_key:
  "k' \<noteq> k \<Longrightarrow> find_mark (fst (advance_cursor k c t f tick st)) k' = find_mark st k'"
  by (simp add: advance_cursor_def advance_in_txn_def split: option.split res.split prod.split)

text \<open>A sequence of acknowledgements on one key, in the order they arrive.\<close>

fun advance_all :: "send_key \<Rightarrow> (bytes \<times> string) list \<Rightarrow> comparator \<Rightarrow> rat res \<Rightarrow> store \<Rightarrow> store" where
  "advance_all k [] is_after tick st = st"
| "advance_all k ((c, t) # acks) is_after tick st
     = advance_all k acks is_after tick (fst (advance_cursor k c t is_after tick st))"

context cursor_order
begin

lemma forward_check_readable:
  "readable c \<Longrightarrow> readable s \<Longrightarrow> forward_check after c s = Ok (pos s < pos c, pos c < pos s)"
  by (auto simp: forward_check_def after_readable)

lemma advance_first:
  "find_mark st k = None \<Longrightarrow> \<not> st_in_txn st
    \<Longrightarrow> advance_cursor k c t after tick st = (upsert k c t st, Ok Written)"
  by (simp add: advance_cursor_def advance_in_txn_def)

lemma advance_readable:
  assumes "stored_cursor st k = Some s" "readable s" "readable c" "\<not> st_in_txn st"
  shows "advance_cursor k c t after tick st =
    (if pos s < pos c then (upsert k c t st, Ok Written)
     else if pos c < pos s then (log_not_forward k s c tick st, Ok Refused)
     else (touch_last_ack k t st, Ok Refreshed))"
proof -
  obtain m where "find_mark st k = Some m" "mk_cursor m = CBlob s"
    using assms(1) by (auto simp: stored_cursor_def split: option.splits cell.splits)
  then show ?thesis
    using assms by (auto simp: advance_cursor_def advance_in_txn_def read_cell_def
        forward_check_readable)
qed

lemma advance_max:
  assumes "stored_cursor st k = Some s" "readable s" "readable c" "\<not> st_in_txn st"
  shows "\<exists>s'. stored_cursor (fst (advance_cursor k c t after tick st)) k = Some s'
    \<and> s' \<in> {s, c} \<and> pos s' = max (pos s) (pos c)"
  unfolding advance_readable [OF assms] using assms(1)
  by (auto simp: max_def)

lemma advance_all_max:
  assumes "stored_cursor st k = Some s" "readable s" "\<not> st_in_txn st"
    and "\<And>c t. (c, t) \<in> set acks \<Longrightarrow> readable c"
  shows "\<exists>s'. stored_cursor (advance_all k acks after tick st) k = Some s' \<and> readable s'
    \<and> pos s' = Max (insert (pos s) (pos ` fst ` set acks))"
  using assms
proof (induction acks arbitrary: st s)
  case (Cons a acks)
  obtain c t where a: "a = (c, t)" by (cases a)
  have rc: "readable c" using Cons.prems(4) [of c t] a by simp
  obtain s' where s': "stored_cursor (fst (advance_cursor k c t after tick st)) k = Some s'"
      "s' \<in> {s, c}" "pos s' = max (pos s) (pos c)"
    using advance_max [OF Cons.prems(1,2) rc Cons.prems(3)] by blast
  have r': "readable s'" using s'(2) Cons.prems(2) rc by auto
  from Cons.IH [OF s'(1) r'] Cons.prems(3,4)
  obtain s'' where s'': "stored_cursor (advance_all k acks after tick (fst (advance_cursor k c t after tick st))) k = Some s''"
      "readable s''" "pos s'' = Max (insert (pos s') (pos ` fst ` set acks))"
    by auto
  have "pos s'' = Max (insert (pos s) (pos ` fst ` set (a # acks)))"
    unfolding s''(3) s'(3) a
    by (cases "acks = []") (auto simp: Max_insert max.assoc max.left_commute max.commute)
  then show ?case using s''(1,2) a by auto
qed auto

end

subsection \<open>The retry queue's contract\<close>

text \<open>
  What the pump relies on: a queue is a bag of rows; \<open>pop\<close> takes out one row it may take, and
  finds one when there is one; \<open>put\<close> puts a row back that was taken out.
\<close>

locale retry_queue =
  fixes bag :: "'s \<Rightarrow> 'd multiset"
    and ident :: "'d \<Rightarrow> nat"
    and due :: "'d \<Rightarrow> bool"
    and pop :: "'s \<Rightarrow> 'd option \<times> 's"
    and put :: "'d \<Rightarrow> 's \<Rightarrow> 's res"
    and wf :: "'s \<Rightarrow> bool"
  assumes pop_Some: "wf s \<Longrightarrow> pop s = (Some d, s') \<Longrightarrow>
      d \<in># bag s \<and> due d \<and> bag s' = bag s - {#d#} \<and> ident d \<notin> ident ` set_mset (bag s') \<and> wf s'"
    and pop_None: "wf s \<Longrightarrow> pop s = (None, s') \<Longrightarrow> s' = s \<and> (\<forall>d \<in># bag s. \<not> due d)"
    and put_fresh: "wf s \<Longrightarrow> ident d \<notin> ident ` set_mset (bag s) \<Longrightarrow>
      \<exists>s'. put d s = Ok s' \<and> bag s' = add_mset d (bag s) \<and> wf s'"
begin

lemma pop_shrinks: "wf s \<Longrightarrow> pop s = (Some d, s') \<Longrightarrow> size (bag s') < size (bag s)"
  using pop_Some [of s d s'] by (auto intro: size_Diff1_less)

text \<open>A row taken out and put back under its own id leaves the queue as it was, but for the row.\<close>

lemma pop_put:
  assumes "wf s" "pop s = (Some d, s')" "ident d' = ident d"
  shows "\<exists>s''. put d' s' = Ok s'' \<and> wf s'' \<and> bag s'' = add_mset d' (bag s - {#d#})
    \<and> size (bag s'') = size (bag s)"
proof -
  note p = pop_Some [OF assms(1,2)]
  then obtain s'' where "put d' s' = Ok s''" "bag s'' = add_mset d' (bag s')" "wf s''"
    using put_fresh [of s' d'] assms(3) by auto
  with p show ?thesis by (auto simp: size_Suc_Diff1)
qed

end

lemma due_rows_iff:
  "d \<in> set (due_rows p now st) \<longleftrightarrow> d \<in> set (st_queue st) \<and> dl_pipeline d = p \<and> dl_next_attempt_at d \<le> now"
  by (auto simp: due_rows_def)

lemma filter_id_mset:
  "distinct (map dl_id q) \<Longrightarrow> d \<in> set q \<Longrightarrow> mset (filter (\<lambda>r. dl_id r \<noteq> dl_id d) q) = mset q - {#d#}"
proof (induction q)
  case (Cons a q)
  show ?case
  proof (cases "a = d")
    case True
    then have "filter (\<lambda>r. dl_id r \<noteq> dl_id d) q = q"
      using Cons.prems(1) by (intro filter_True) (auto simp: image_iff)
    then show ?thesis using True by simp
  next
    case False
    then have "d \<in> set q" "dl_id a \<noteq> dl_id d" using Cons.prems by force+
    then show ?thesis using Cons False by auto
  qed
qed simp

interpretation rq: retry_queue "\<lambda>st. mset (st_queue st)" dl_id
  "\<lambda>d. dl_pipeline d = p \<and> dl_next_attempt_at d \<le> now" "pop_due p now" requeue_deliverable wf_store
  for p now
proof
  fix s d s'
  assume wf: "wf_store s" and pop: "pop_due p now s = (Some d, s')"
  have d: "d \<in> set (due_rows p now s)"
    and s': "s' = s\<lparr>st_queue := filter (\<lambda>q. dl_id q \<noteq> dl_id d) (st_queue s)\<rparr>"
    using pop min_by_mem by (auto simp: pop_due_def split: option.splits)
  have "wf_store s'" using wf_pop_due [OF wf, of p now] pop by simp
  then show "d \<in># mset (st_queue s) \<and> (dl_pipeline d = p \<and> dl_next_attempt_at d \<le> now)
      \<and> mset (st_queue s') = mset (st_queue s) - {#d#}
      \<and> dl_id d \<notin> dl_id ` set_mset (mset (st_queue s')) \<and> wf_store s'"
    using d wf filter_id_mset [of "st_queue s" d]
    by (simp add: due_rows_iff s' wf_store_def image_iff flip: filter_id_mset)
next
  fix s s'
  assume "wf_store s" and pop: "pop_due p now s = (None, s')"
  then show "s' = s \<and> (\<forall>d \<in># mset (st_queue s). \<not> (dl_pipeline d = p \<and> dl_next_attempt_at d \<le> now))"
    by (auto simp: pop_due_def due_rows_def filter_empty_conv split: option.splits)
next
  fix s and d :: deliverable
  assume wf: "wf_store s" and fresh: "dl_id d \<notin> dl_id ` set_mset (mset (st_queue s))"
  then have "requeue_deliverable d s = Ok (s\<lparr>st_queue := insort_key dl_id d (st_queue s),
      st_next_id := max (st_next_id s) (dl_id d + 1)\<rparr>)"
    by (simp add: requeue_deliverable_def)
  with wf_requeue [OF wf this]
  show "\<exists>s'. requeue_deliverable d s = Ok s' \<and> mset (st_queue s') = add_mset d (mset (st_queue s))
      \<and> wf_store s'" by simp
qed

end
