(* ===== verification/Pump.thy ===== *)
theory Pump
  imports Store
begin

text \<open>
  The orchestrator (\<open>core.Uploader\<close>): one pump of a pipeline asks the gate, replays the due
  retries, then ships fresh batches of its source, and keeps the store's send records, retry
  queue and attempt log.

  The operations of a source, a transport, the gate, the clocks and the batch callback are
  functions on an environment \<open>'e\<close> the model does not look into: everything outside the
  process.  Each may raise.  A program is a function from a state to a state and a result, so
  that what an operation did before it raised stays done.  A generator
  (\<open>Source.iter_batches\<close>) is the list of its batches, each a program that runs when the pump
  takes it.
\<close>

subsection \<open>State, ports and configuration\<close>

datatype pump_log =
    LogGateFault string string
  | LogGateFaultsFull
  | LogRecordHeld log_level string send_key bytes nat
  | LogDeferring string string nat
  | LogUnexpectedOutcome string string

record 'e ustate =
  us_env :: 'e
  us_store :: store
  us_gate_faults :: "string list"
  us_faults_full :: bool
  us_held_windows :: "(send_key \<times> rat \<times> nat) list"
  us_log :: "pump_log list"

type_synonym ('e, 'a) prog = "'e ustate \<Rightarrow> 'e ustate \<times> 'a res"

type_synonym ('e, 'a) effect = "'e \<Rightarrow> 'e \<times> 'a res"

record 'e source =
  so_id :: string
  so_iter :: "bytes \<Rightarrow> nat \<Rightarrow> ('e, ('e, batch) effect list) effect"
  so_commit :: "bytes \<Rightarrow> ('e, unit) effect"
  so_is_after :: "comparator option"

record 'e transport =
  tr_name :: string
  tr_primary_table :: string
  tr_policy :: batch_policy
  tr_ships :: bool
  tr_ship :: "batch \<Rightarrow> ('e, outcome) effect"
  tr_serialize :: "batch \<Rightarrow> ('e, bytes) effect"
  tr_replay :: "bytes \<Rightarrow> ('e, outcome) effect"

record 'e pipeline =
  pi_name :: string
  pi_source :: "'e source"
  pi_transport :: "'e transport"
  pi_retry :: retry_policy
  pi_batch_limit :: nat
  pi_max_per_pump :: "nat option"
  pi_client :: string
  pi_governed :: bool
  pi_origin :: string

record 'e uploader =
  up_now :: "'e \<Rightarrow> 'e \<times> rat"
  up_clock :: "'e \<Rightarrow> rat res"
  up_gate :: "('e pipeline \<Rightarrow> ('e, bool) effect) option"
  up_on_batch :: "'e pipeline \<Rightarrow> batch \<Rightarrow> outcome \<Rightarrow> ('e, unit) effect"

subsection \<open>Programs\<close>

definition ret :: "'a \<Rightarrow> ('e, 'a) prog" where "ret x s = (s, Ok x)"

definition fail :: "exn \<Rightarrow> ('e, 'a) prog" where "fail e s = (s, Raise e)"

definition bind_p :: "('e, 'a) prog \<Rightarrow> ('a \<Rightarrow> ('e, 'b) prog) \<Rightarrow> ('e, 'b) prog" where
  "bind_p m f s = (case m s of (s', Ok x) \<Rightarrow> f x s' | (s', Raise e) \<Rightarrow> (s', Raise e))"

definition in_env :: "('e, 'a) effect \<Rightarrow> ('e, 'a) prog" where
  "in_env f s = (case f (us_env s) of (e, r) \<Rightarrow> (s\<lparr>us_env := e\<rparr>, r))"

definition on_store :: "(store \<Rightarrow> store) \<Rightarrow> ('e, unit) prog" where
  "on_store f s = (s\<lparr>us_store := f (us_store s)\<rparr>, Ok ())"

definition ask_store :: "(store \<Rightarrow> 'a) \<Rightarrow> ('e, 'a) prog" where
  "ask_store f s = (s, Ok (f (us_store s)))"

definition put_log :: "pump_log \<Rightarrow> ('e, unit) prog" where
  "put_log l s = (s\<lparr>us_log := us_log s @ [l]\<rparr>, Ok ())"

definition now_of :: "'e uploader \<Rightarrow> ('e, rat) prog" where
  "now_of u = in_env (\<lambda>e. case up_now u e of (e', t) \<Rightarrow> (e', Ok t))"

subsection \<open>The gate\<close>

definition gate_fault_cap :: nat where "gate_fault_cap = 64"

definition note_gate_fault :: "'e pipeline \<Rightarrow> string \<Rightarrow> 'e ustate \<Rightarrow> 'e ustate" where
  "note_gate_fault p kind s =
    (if kind \<in> set (us_gate_faults s) then s
     else if gate_fault_cap \<le> length (us_gate_faults s) then
       (if us_faults_full s then s
        else s\<lparr>us_faults_full := True, us_log := us_log s @ [LogGateFaultsFull]\<rparr>)
     else s\<lparr>us_gate_faults := us_gate_faults s @ [kind],
            us_log := us_log s @ [LogGateFault (pi_name p) kind]\<rparr>)"

text \<open>\<open>_may_send\<close>: a gate that raises holds.\<close>

definition may_send :: "'e uploader \<Rightarrow> 'e pipeline \<Rightarrow> ('e, bool) prog" where
  "may_send u p s = (case up_gate u of
     None \<Rightarrow> (s, Ok True)
   | Some g \<Rightarrow> (case in_env (g p) s of
       (s', Ok b) \<Rightarrow> (s', Ok b)
     | (s', Raise e) \<Rightarrow> (note_gate_fault p (exn_type e) s', Ok False)))"

subsection \<open>The send record after an acknowledgement\<close>

definition always_after :: comparator where "always_after new stored = Ok True"

definition is_after_for :: "'e source \<Rightarrow> comparator" where
  "is_after_for so = (case so_is_after so of Some f \<Rightarrow> f | None \<Rightarrow> always_after)"

definition log_record_held :: "'e uploader \<Rightarrow> 'e pipeline \<Rightarrow> send_key \<Rightarrow> bytes \<Rightarrow> 'e ustate \<Rightarrow> 'e ustate" where
  "log_record_held u p k cursor s = (case up_clock u (us_env s) of
     Raise _ \<Rightarrow> s
   | Ok now \<Rightarrow> (case map_of (us_held_windows s) k of
       None \<Rightarrow> s\<lparr>us_held_windows := dict_set k (now, 0) (us_held_windows s),
         us_log := us_log s @ [LogRecordHeld Info (pi_name p) k cursor 0]\<rparr>
     | Some (start, n) \<Rightarrow>
         if now - start < backward_warn_interval
         then s\<lparr>us_held_windows := dict_set k (start, n + 1) (us_held_windows s),
           us_log := us_log s @ [LogRecordHeld Debug (pi_name p) k cursor (n + 1)]\<rparr>
         else s\<lparr>us_held_windows := dict_set k (now, 0) (us_held_windows s),
           us_log := us_log s @ [LogRecordHeld Info (pi_name p) k cursor (n + 1)]\<rparr>))"

definition advance_record ::
  "'e uploader \<Rightarrow> 'e pipeline \<Rightarrow> send_key \<Rightarrow> bytes \<Rightarrow> string \<Rightarrow> ('e, advance) prog" where
  "advance_record u p k cursor last_ack s =
    (case advance_cursor k cursor last_ack (is_after_for (pi_source p)) (up_clock u (us_env s))
        (us_store s) of
       (st', Ok a) \<Rightarrow> (let s' = s\<lparr>us_store := st'\<rparr> in
          (if a = Refused then log_record_held u p k cursor s' else s', Ok a))
     | (st', Raise e) \<Rightarrow> (s\<lparr>us_store := st'\<rparr>, Raise e))"

text \<open>The send record's key of a pipeline, and the attempt row it writes.\<close>

definition pipe_key :: "'e pipeline \<Rightarrow> send_key" where
  "pipe_key p = (so_id (pi_source p), tr_name (pi_transport p), tr_primary_table (pi_transport p))"

definition attempt_row ::
  "'e pipeline \<Rightarrow> string \<Rightarrow> string \<Rightarrow> int option \<Rightarrow> int option \<Rightarrow> string option \<Rightarrow> attempt" where
  "attempt_row p ts oc records nbytes err = \<lparr>at_ts = ts, at_source_id = so_id (pi_source p),
     at_dest_id = tr_name (pi_transport p), at_table = tr_primary_table (pi_transport p),
     at_outcome = oc, at_records = records, at_bytes = nbytes, at_error = err,
     at_pipeline = pi_name p, at_client = pi_client p\<rparr>"

definition record_p ::
  "'e pipeline \<Rightarrow> string \<Rightarrow> string \<Rightarrow> int option \<Rightarrow> int option \<Rightarrow> string option \<Rightarrow> ('e, unit) prog" where
  "record_p p ts oc records nbytes err
     = on_store (record_attempt (attempt_row p ts oc records nbytes err) (tr_ships (pi_transport p)))"

subsection \<open>A first attempt\<close>

definition queued_row ::
  "'e pipeline \<Rightarrow> batch \<Rightarrow> bytes \<Rightarrow> rat \<Rightarrow> deliverable" where
  "queued_row p b payload now = \<lparr>dl_id = 0, dl_pipeline = pi_name p, dl_payload = payload,
     dl_enqueued_at = iso now, dl_attempts = 0,
     dl_next_attempt_at = iso (now + delay_for (pi_retry p) 0),
     dl_source_id = so_id (pi_source p), dl_dest_id = tr_name (pi_transport p),
     dl_table = tr_primary_table (pi_transport p),
     dl_cursor_after = bt_cursor_after b, dl_commit_token = bt_commit_token b\<rparr>"

definition or_else :: "string \<Rightarrow> string \<Rightarrow> string" where
  "or_else a b = (if a = [] then b else a)"

definition handle_first_attempt ::
  "'e uploader \<Rightarrow> 'e pipeline \<Rightarrow> batch \<Rightarrow> outcome \<Rightarrow> rat \<Rightarrow> ('e, unit) prog" where
  "handle_first_attempt u p b oc now s0 = (let
     s = fst (in_env (up_on_batch u p b oc) s0);
     ts = iso now;
     n = int (batch_len b)
   in (if oc_kind oc = ''acked'' then
         bind_p (advance_record u p (pipe_key p) (bt_cursor_after b) ts) (\<lambda>_.
         bind_p (in_env (so_commit (pi_source p) (bt_commit_token b))) (\<lambda>_.
         record_p p ts ''acked'' (Some n) None None))
       else if oc_kind oc = ''partial_ack'' then
         bind_p (advance_record u p (pipe_key p)
           (case oc_accepted_cursor oc of Some (c # cs) \<Rightarrow> c # cs | _ \<Rightarrow> bt_cursor_after b) ts) (\<lambda>_.
         bind_p (in_env (so_commit (pi_source p) (bt_commit_token b))) (\<lambda>_.
         record_p p ts ''partial_ack'' (Some (n - int (length (oc_rejected oc)))) None
           (reason_or_none oc)))
       else if oc_kind oc = ''retry_later'' then
         bind_p (in_env (tr_serialize (pi_transport p) b)) (\<lambda>payload.
         bind_p (on_store (snd \<circ> enqueue_deliverable (queued_row p b payload now))) (\<lambda>_.
         record_p p ts ''retry_later'' (Some n) (Some (int (length payload))) (reason_or_none oc)))
       else if oc_kind oc = ''permanent'' then
         bind_p (in_env (tr_serialize (pi_transport p) b)) (\<lambda>payload.
         bind_p (on_store (send_to_dead_letter ts (pi_name p) payload
           (or_else (oc_reason oc) ''permanent_failure''))) (\<lambda>_.
         record_p p ts ''permanent'' (Some n) None (reason_or_none oc)))
       else fail (Exn ''RuntimeError'' (''Unhandled outcome kind: '' @ oc_kind oc))) s)"

subsection \<open>A replay\<close>

definition deliverable_key :: "'e pipeline \<Rightarrow> deliverable \<Rightarrow> send_key" where
  "deliverable_key p d = (or_else (dl_source_id d) (so_id (pi_source p)),
     or_else (dl_dest_id d) (tr_name (pi_transport p)),
     or_else (dl_table d) (tr_primary_table (pi_transport p)))"

definition requeue_p :: "deliverable \<Rightarrow> ('e, unit) prog" where
  "requeue_p d s = (case requeue_deliverable d (us_store s) of
     Ok st \<Rightarrow> (s\<lparr>us_store := st\<rparr>, Ok ())
   | Raise e \<Rightarrow> (s, Raise e))"

definition handle_outcome ::
  "'e uploader \<Rightarrow> 'e pipeline \<Rightarrow> deliverable \<Rightarrow> outcome \<Rightarrow> rat \<Rightarrow> ('e, unit) prog" where
  "handle_outcome u p d oc now = (let
     ts = iso now;
     size = Some (int (length (dl_payload d)));
     attempts = dl_attempts d + 1
   in if oc_kind oc = ''acked'' then
        bind_p (if dl_cursor_after d = [] then ret Refreshed
           else advance_record u p (deliverable_key p d) (dl_cursor_after d) ts) (\<lambda>_.
        bind_p (in_env (so_commit (pi_source p) (dl_commit_token d))) (\<lambda>_.
        record_p p ts ''acked'' None size None))
      else if oc_kind oc = ''retry_later'' then
        (if rp_max_attempts (pi_retry p) \<le> attempts then
           bind_p (on_store (send_to_dead_letter ts (pi_name p) (dl_payload d)
             (or_else (oc_reason oc) ''max_attempts''))) (\<lambda>_.
           record_p p ts ''dead_letter'' None size (reason_or_none oc))
         else
           bind_p (requeue_p (d\<lparr>dl_attempts := attempts,
             dl_next_attempt_at := iso (now + delay_for (pi_retry p) attempts)\<rparr>)) (\<lambda>_.
           record_p p ts ''retry_later'' None size (reason_or_none oc)))
      else if oc_kind oc = ''permanent'' then
        bind_p (on_store (send_to_dead_letter ts (pi_name p) (dl_payload d)
          (or_else (oc_reason oc) ''permanent_failure''))) (\<lambda>_.
        record_p p ts ''permanent'' None size (reason_or_none oc))
      else
        bind_p (put_log (LogUnexpectedOutcome (oc_kind oc) (pi_name p))) (\<lambda>_.
        record_p p ts ''acked'' None size None))"

subsection \<open>Draining the retries\<close>

definition pop_p :: "string \<Rightarrow> string \<Rightarrow> ('e, deliverable option) prog" where
  "pop_p pipeline now s = (case pop_due pipeline now (us_store s) of
     (d, st) \<Rightarrow> (s\<lparr>us_store := st\<rparr>, Ok d))"

definition count_p :: "'e pipeline \<Rightarrow> ('e, nat) prog" where
  "count_p p = ask_store (deliverable_count (Some (pi_name p)))"

text \<open>One turn of the loop of \<open>_drain_deliverables\<close>: nothing done, one replay and go on, one
  replay and stop.\<close>

datatype drain = Idle | Again | Stopped

definition drain_turn :: "'e uploader \<Rightarrow> 'e pipeline \<Rightarrow> rat \<Rightarrow> ('e, drain) prog" where
  "drain_turn u p now = bind_p (may_send u p) (\<lambda>ok.
     if \<not> ok then ret Idle
     else bind_p (pop_p (pi_name p) (iso now)) (\<lambda>next. case next of
       None \<Rightarrow> ret Idle
     | Some d \<Rightarrow>
         bind_p (in_env (tr_replay (pi_transport p) (dl_payload d))) (\<lambda>oc.
         bind_p (handle_outcome u p d oc now) (\<lambda>_.
           if oc_kind oc = ''retry_later''
           then bind_p (count_p p) (\<lambda>n.
             bind_p (put_log (LogDeferring (pi_name p) (oc_reason oc) n)) (\<lambda>_. ret Stopped))
           else ret Again))))"

subsection \<open>Structure of programs\<close>

lemma bind_p_Ok: "bind_p m f s = (s', Ok y) \<longleftrightarrow> (\<exists>s1 x. m s = (s1, Ok x) \<and> f x s1 = (s', Ok y))"
  by (auto simp: bind_p_def split: prod.splits res.splits)

lemma fst_bind_p: "fst (bind_p m f s) = (case m s of (s', Ok x) \<Rightarrow> fst (f x s') | (s', Raise e) \<Rightarrow> s')"
  by (simp add: bind_p_def split: prod.split res.split)

lemma prog_apply [simp]:
  "ret x s = (s, Ok x)" "fail e s = (s, Raise e)"
  "on_store f s = (s\<lparr>us_store := f (us_store s)\<rparr>, Ok ())"
  "ask_store g s = (s, Ok (g (us_store s)))"
  "put_log l s = (s\<lparr>us_log := us_log s @ [l]\<rparr>, Ok ())"
  by (simp_all add: ret_def fail_def on_store_def ask_store_def put_log_def)

lemma in_env_store [simp]: "us_store (fst (in_env f s)) = us_store s"
  by (simp add: in_env_def split: prod.split)

lemma note_gate_fault_store [simp]: "us_store (note_gate_fault p k s) = us_store s"
  by (simp add: note_gate_fault_def)

lemma may_send_store [simp]: "us_store (fst (may_send u p s)) = us_store s"
proof -
  have "us_store s' = us_store s" if "in_env f s = (s', r)" for f :: "('a, bool) effect" and r s'
    using that in_env_store [of f s] by simp
  then show ?thesis by (auto simp: may_send_def split: option.split prod.split res.split)
qed

lemma may_send_Ok: "\<exists>b. may_send u p s = (fst (may_send u p s), Ok b)"
  by (cases "up_gate u"; cases "in_env (the (up_gate u) p) s"; cases "snd (in_env (the (up_gate u) p) s)")
     (auto simp: may_send_def)

text \<open>The log lines the gate's faults write.\<close>

fun gate_note :: "pump_log \<Rightarrow> bool" where
  "gate_note (LogGateFault _ _) = True"
| "gate_note LogGateFaultsFull = True"
| "gate_note _ = False"

text \<open>
  A relation between the states before and after a step, closed under composition, holds of a
  composed program when it holds of the parts.  The pump's invariants are such relations.
\<close>

locale step_relation =
  fixes R :: "'e ustate \<Rightarrow> 'e ustate \<Rightarrow> bool"
  assumes R_refl: "R s s"
    and R_trans: "R a b \<Longrightarrow> R b c \<Longrightarrow> R a c"
    and R_env: "R s (s\<lparr>us_env := e\<rparr>)"
    and R_fault: "R s (note_gate_fault p k s)"
    and R_note: "\<not> gate_note l \<Longrightarrow> R s (s\<lparr>us_log := us_log s @ [l]\<rparr>)"
begin

declare R_refl [simp]

lemma step_bind:
  assumes "R s (fst (m s))" "\<And>s' x. m s = (s', Ok x) \<Longrightarrow> R s' (fst (f x s'))"
  shows "R s (fst (bind_p m f s))"
proof (cases "m s")
  case (Pair s' r)
  then show ?thesis
    using assms R_trans by (cases r) (auto simp: bind_p_def)
qed

lemma step_ret [simp]: "R s (fst (ret x s))" and step_fail [simp]: "R s (fst (fail e s))"
  by (simp_all add: R_refl)

lemma step_env [simp]: "R s (fst (in_env f s))"
  by (simp add: in_env_def R_env split: prod.split)

lemma step_may_send [simp]: "R s (fst (may_send u p s))"
proof (cases "up_gate u")
  case (Some g)
  obtain s' r where g: "in_env (g p) s = (s', r)" by (cases "in_env (g p) s")
  have "R s s'" using step_env [of s "g p"] g by simp
  then show ?thesis using Some g R_trans [OF _ R_fault] by (cases r) (auto simp: may_send_def)
qed (simp add: may_send_def)

lemma step_log [simp]: "\<not> gate_note l \<Longrightarrow> R s (fst (put_log l s))"
  by (simp add: R_note)

lemma step_ask [simp]: "R s (fst (ask_store g s))"
  by (simp add: R_refl)

lemma step_now [simp]: "R s (fst (now_of u s))"
  by (simp add: now_of_def)

lemma step_count [simp]: "R s (fst (count_p p s))"
  by (simp add: count_p_def)

end

subsection \<open>The loop terminates: every turn that goes on takes a row off the queue\<close>

definition queued :: "'e pipeline \<Rightarrow> 'e ustate \<Rightarrow> nat" where
  "queued p s = deliverable_count (Some (pi_name p)) (us_store s)"

lemma pop_due_count:
  "pop_due p now st = (Some d, st') \<Longrightarrow> deliverable_count (Some p) st' < deliverable_count (Some p) st"
proof -
  assume "pop_due p now st = (Some d, st')"
  then have d: "d \<in> set (due_rows p now st)"
    and st': "st_queue st' = filter (\<lambda>q. dl_id q \<noteq> dl_id d) (st_queue st)"
    using min_by_mem by (auto simp: pop_due_def split: option.splits)
  let ?mine = "filter (\<lambda>r. dl_pipeline r = p) (st_queue st)"
  have "d \<in> set ?mine" using d by (auto simp: due_rows_iff)
  then have "length (filter (\<lambda>q. dl_id q \<noteq> dl_id d) ?mine) < length ?mine"
    by (rule length_filter_less) simp
  then show ?thesis by (simp add: deliverable_count_def st' filter_filter_conj conj_commute)
qed

text \<open>What each operation of the pump does to the queue: nothing, but for the two that queue.\<close>

lemma log_record_held_store [simp]: "us_store (log_record_held u p k c s) = us_store s"
  by (simp add: log_record_held_def split: res.split option.split prod.split)

lemma advance_record_store:
  "us_store (fst (advance_record u p k c t s))
     = fst (advance_cursor k c t (is_after_for (pi_source p)) (up_clock u (us_env s)) (us_store s))"
  by (simp add: advance_record_def Let_def split: prod.split res.split)

lemma advance_record_queue [simp]:
  "st_queue (us_store (fst (advance_record u p k c t s))) = st_queue (us_store s)"
  by (simp add: advance_record_store)

lemma record_p_apply [simp]:
  "record_p p ts oc n b err s = (s\<lparr>us_store := record_attempt (attempt_row p ts oc n b err)
     (tr_ships (pi_transport p)) (us_store s)\<rparr>, Ok ())"
  by (simp add: record_p_def)

definition same_queue :: "'e ustate \<Rightarrow> 'e ustate \<Rightarrow> bool" where
  "same_queue s s' \<longleftrightarrow> st_queue (us_store s') = st_queue (us_store s)"

interpretation sq: step_relation same_queue
  by standard (simp_all add: same_queue_def)

lemma same_queue_advance [simp]: "same_queue s (fst (advance_record u p k c t s))"
  by (simp add: same_queue_def)

lemma same_queue_record [simp]: "same_queue s (fst (record_p p ts oc n b err s))"
  by (simp add: same_queue_def)

lemma same_queue_dead [simp]: "same_queue s (fst (on_store (send_to_dead_letter t q b e) s))"
  by (simp add: same_queue_def)

lemma handle_outcome_queue:
  assumes "oc_kind oc \<noteq> ''retry_later''"
  shows "same_queue s (fst (handle_outcome u p d oc now s))"
  using assms unfolding handle_outcome_def Let_def
  by (auto intro!: sq.step_bind simp del: prog_apply record_p_apply)

lemma drain_turn_Again:
  assumes "drain_turn u p now s = (s', Ok Again)"
  shows "queued p s' < queued p s"
proof -
  from assms obtain s1 s2 d s3 oc where
    1: "may_send u p s = (s1, Ok True)" and
    2: "pop_p (pi_name p) (iso now) s1 = (s2, Ok (Some d))" and
    3: "in_env (tr_replay (pi_transport p) (dl_payload d)) s2 = (s3, Ok oc)" and
    4: "handle_outcome u p d oc now s3 = (s', Ok ())" and
    5: "oc_kind oc \<noteq> ''retry_later''"
    unfolding drain_turn_def
    by (auto simp: bind_p_Ok count_p_def split: if_splits option.splits)
  have "us_store s1 = us_store s" using may_send_store [of u p s] 1 by simp
  moreover have "us_store s3 = us_store s2"
    using in_env_store [of "tr_replay (pi_transport p) (dl_payload d)" s2] 3 by simp
  moreover have "st_queue (us_store s') = st_queue (us_store s3)"
    using handle_outcome_queue [OF 5, of s3 u p d now] 4 by (simp add: same_queue_def)
  moreover have "deliverable_count (Some (pi_name p)) (us_store s2)
      < deliverable_count (Some (pi_name p)) (us_store s1)"
    using 2 by (auto simp: pop_p_def intro!: pop_due_count split: prod.splits)
  ultimately show ?thesis by (simp add: queued_def deliverable_count_def)
qed

function drain_loop :: "'e uploader \<Rightarrow> 'e pipeline \<Rightarrow> rat \<Rightarrow> bool \<Rightarrow> ('e, bool) prog" where
  "drain_loop u p now any s = (case drain_turn u p now s of
     (s', Raise e) \<Rightarrow> (s', Raise e)
   | (s', Ok Idle) \<Rightarrow> (s', Ok any)
   | (s', Ok Stopped) \<Rightarrow> (s', Ok True)
   | (s', Ok Again) \<Rightarrow> drain_loop u p now True s')"
  by pat_completeness auto
termination
  by (relation "measure (\<lambda>(u, p, now, any, s). queued p s)") (auto intro: drain_turn_Again)

declare drain_loop.simps [simp del]

definition drain_deliverables :: "'e uploader \<Rightarrow> 'e pipeline \<Rightarrow> ('e, bool) prog" where
  "drain_deliverables u p = bind_p (now_of u) (\<lambda>now. drain_loop u p now False)"

subsection \<open>Draining the source\<close>

text \<open>
  One turn of the outer loop of \<open>_drain_source\<close>: \<open>Return\<close> leaves the function with a value,
  \<open>More\<close> goes round again with the count of records shipped and \<open>any_shipped\<close>.
\<close>

datatype pass = Return bool | More nat bool

definition ship_one :: "'e uploader \<Rightarrow> 'e pipeline \<Rightarrow> batch \<Rightarrow> ('e, outcome) prog" where
  "ship_one u p b = bind_p (in_env (tr_ship (pi_transport p) b)) (\<lambda>oc.
     bind_p (now_of u) (\<lambda>now.
     bind_p (handle_first_attempt u p b oc now) (\<lambda>_. ret oc)))"

fun ship_batches :: "'e uploader \<Rightarrow> 'e pipeline \<Rightarrow> ('e, batch) effect list \<Rightarrow> nat \<Rightarrow> bool \<Rightarrow> bool
    \<Rightarrow> ('e, pass) prog" where
  "ship_batches u p [] shipped any progressed
     = ret (if progressed then More shipped any else Return any)"
| "ship_batches u p (g # gs) shipped any progressed = bind_p (in_env g) (\<lambda>b.
     if bt_records b = [] then ship_batches u p gs shipped any progressed
     else bind_p (may_send u p) (\<lambda>ok.
       if \<not> ok then ret (Return any)
       else bind_p (ship_one u p b) (\<lambda>oc.
         if \<not> succeeded oc then ret (Return True)
         else (case pi_max_per_pump p of
             None \<Rightarrow> ret (Return True)
           | Some budget \<Rightarrow>
               if budget \<le> shipped + batch_len b then ret (Return True)
               else ship_batches u p gs (shipped + batch_len b) True True))))"

definition fetch_limit :: "'e pipeline \<Rightarrow> nat" where
  "fetch_limit p = min (pi_batch_limit p) (bp_max_records (tr_policy (pi_transport p)))"

definition get_cursor_p :: "send_key \<Rightarrow> ('e, bytes) prog" where
  "get_cursor_p k s = (s, get_cursor (us_store s) k)"

definition source_pass :: "'e uploader \<Rightarrow> 'e pipeline \<Rightarrow> nat \<Rightarrow> bool \<Rightarrow> ('e, pass) prog" where
  "source_pass u p shipped any = bind_p (may_send u p) (\<lambda>ok.
     if \<not> ok then ret (Return any)
     else bind_p (get_cursor_p (pipe_key p)) (\<lambda>cursor.
       bind_p (in_env (so_iter (pi_source p) cursor (fetch_limit p))) (\<lambda>gs.
       ship_batches u p gs shipped any False)))"

lemma ship_batches_More:
  "ship_batches u p gs shipped any progressed s = (s', Ok (More n any'))
    \<Longrightarrow> progressed \<longrightarrow> (\<exists>budget. pi_max_per_pump p = Some budget \<and> n0 < shipped)
    \<Longrightarrow> n0 \<le> shipped \<Longrightarrow> \<exists>budget. pi_max_per_pump p = Some budget \<and> n0 < n"
proof (induction gs arbitrary: shipped any progressed s)
  case Nil
  then show ?case by (auto split: if_splits)
next
  case (Cons g gs)
  from Cons.prems(1) obtain s1 b where g: "in_env g s = (s1, Ok b)" and
    rest: "(if bt_records b = [] then ship_batches u p gs shipped any progressed
       else bind_p (may_send u p) (\<lambda>ok. if \<not> ok then ret (Return any)
         else bind_p (ship_one u p b) (\<lambda>oc. if \<not> succeeded oc then ret (Return True)
           else (case pi_max_per_pump p of None \<Rightarrow> ret (Return True)
             | Some budget \<Rightarrow> if budget \<le> shipped + batch_len b then ret (Return True)
                 else ship_batches u p gs (shipped + batch_len b) True True)))) s1
       = (s', Ok (More n any'))"
    by (auto simp: bind_p_Ok)
  show ?case
  proof (cases "bt_records b = []")
    case True
    then have "ship_batches u p gs shipped any progressed s1 = (s', Ok (More n any'))"
      using rest by simp
    then show ?thesis by (rule Cons.IH [OF _ Cons.prems(2,3)])
  next
    case False
    then have pos: "0 < batch_len b" by (simp add: batch_len_def)
    from rest False obtain s2 where "ship_batches u p gs (shipped + batch_len b) True True s2
        = (s', Ok (More n any'))" "\<exists>budget. pi_max_per_pump p = Some budget"
      by (auto simp: bind_p_Ok split: if_splits option.splits)
    then show ?thesis using Cons.IH [of "shipped + batch_len b" True True s2] pos Cons.prems(3) by auto
  qed
qed

lemma source_pass_More:
  assumes "source_pass u p shipped any s = (s', Ok (More n any'))"
  shows "\<exists>budget. pi_max_per_pump p = Some budget \<and> shipped < n"
proof -
  obtain gs s1 where "ship_batches u p gs shipped any False s1 = (s', Ok (More n any'))"
    using assms unfolding source_pass_def by (auto simp: bind_p_Ok split: if_splits)
  then show ?thesis by (rule ship_batches_More) simp_all
qed

definition under_budget :: "'e pipeline \<Rightarrow> nat \<Rightarrow> bool" where
  "under_budget p shipped = (case pi_max_per_pump p of None \<Rightarrow> True | Some budget \<Rightarrow> shipped < budget)"

function source_loop :: "'e uploader \<Rightarrow> 'e pipeline \<Rightarrow> nat \<Rightarrow> bool \<Rightarrow> ('e, bool) prog" where
  "source_loop u p shipped any s = (if \<not> under_budget p shipped then (s, Ok any)
     else (case source_pass u p shipped any s of
         (s', Raise e) \<Rightarrow> (s', Raise e)
       | (s', Ok (Return b)) \<Rightarrow> (s', Ok b)
       | (s', Ok (More n any')) \<Rightarrow> source_loop u p n any' s'))"
  by pat_completeness auto
termination
  by (relation "measure (\<lambda>(u, p, shipped, any, s). the (pi_max_per_pump p) - shipped)")
     (auto simp: under_budget_def dest!: source_pass_More [OF sym])

declare source_loop.simps [simp del]

definition drain_source :: "'e uploader \<Rightarrow> 'e pipeline \<Rightarrow> ('e, bool) prog" where
  "drain_source u p = source_loop u p 0 False"

subsection \<open>The pump\<close>

definition pump_one :: "'e uploader \<Rightarrow> 'e pipeline \<Rightarrow> ('e, bool) prog" where
  "pump_one u p = bind_p (may_send u p) (\<lambda>ok.
     if \<not> ok then ret False
     else bind_p (drain_deliverables u p) (\<lambda>did.
       bind_p (count_p p) (\<lambda>n.
         if 0 < n then ret did
         else bind_p (drain_source u p) (\<lambda>did'. ret (did \<or> did')))))"

text \<open>
  \<open>pump\<close>.  A lone pipeline runs on the caller's thread, and an exception leaves at once.  On the
  executors every pipeline runs to its end, whatever the others do, and the first exception in
  pipeline order then leaves \<open>pump\<close>; the model runs them one after the other, which is one of
  their schedules (the store's lock makes each store operation atomic).
\<close>

fun pump_inline :: "'e uploader \<Rightarrow> 'e pipeline list \<Rightarrow> bool \<Rightarrow> ('e, bool) prog" where
  "pump_inline u [] did = ret did"
| "pump_inline u (p # ps) did = bind_p (pump_one u p) (\<lambda>d. pump_inline u ps (did \<or> d))"

fun pump_all :: "'e uploader \<Rightarrow> 'e pipeline list \<Rightarrow> 'e ustate \<Rightarrow> 'e ustate \<times> bool res list" where
  "pump_all u [] s = (s, [])"
| "pump_all u (p # ps) s = (let (s1, r) = pump_one u p s; (s2, rs) = pump_all u ps s1
     in (s2, r # rs))"

definition pump :: "'e uploader \<Rightarrow> bool \<Rightarrow> 'e pipeline list \<Rightarrow> ('e, bool) prog" where
  "pump u inline_single ps s = (if inline_single \<and> length ps \<le> 1 then pump_inline u ps False s
     else (let (s', rs) = pump_all u ps s in
       (s', map_res (\<lambda>bs. \<exists>b \<in> set bs. b) (mapM_res (\<lambda>r. r) rs))))"

fun pump_until_idle :: "'e uploader \<Rightarrow> bool \<Rightarrow> 'e pipeline list \<Rightarrow> nat \<Rightarrow> nat \<Rightarrow> ('e, nat) prog" where
  "pump_until_idle u inl ps 0 passes = ret passes"
| "pump_until_idle u inl ps (Suc left) passes = bind_p (pump u inl ps) (\<lambda>worked.
     if worked then pump_until_idle u inl ps left (Suc passes) else ret passes)"

end
