(* ===== verification/PumpLaws.thy ===== *)
theory PumpLaws
  imports Pump
begin

text \<open>
  Reasoning about the pump.  \<open>pump_relation\<close> lifts a relation from the two steps that matter, one
  turn of the retry drain and one first attempt, to a whole pump of a pipeline; every invariant
  of the pump is an interpretation of it.
\<close>

lemma in_env_Ok:
  "in_env f s = (s', Ok x) \<longleftrightarrow> (\<exists>e. f (us_env s) = (e, Ok x) \<and> s' = s\<lparr>us_env := e\<rparr>)"
  by (auto simp: in_env_def split: prod.splits)

lemma pop_p_row:
  "pop_p q now s = (s', Ok (Some d)) \<Longrightarrow>
    d \<in> set (st_queue (us_store s)) \<and> dl_pipeline d = q \<and> dl_next_attempt_at d \<le> now"
  using min_by_mem [of dl_next_attempt_at "due_rows q now (us_store s)" d]
  by (auto simp: pop_p_def pop_due_def due_rows_iff split: prod.splits option.splits)

text \<open>A batch the source may hand the pump.\<close>

definition emitted :: "'e pipeline \<Rightarrow> batch \<Rightarrow> bool" where
  "emitted p b \<longleftrightarrow> (\<exists>c l e e' gs g e1 e2. so_iter (pi_source p) c l e = (e', Ok gs)
     \<and> g \<in> set gs \<and> g e1 = (e2, Ok b))"

locale ship_relation = step_relation R for R :: "'e ustate \<Rightarrow> 'e ustate \<Rightarrow> bool" +
  fixes u :: "'e uploader" and p :: "'e pipeline"
  assumes R_ship: "emitted p b \<Longrightarrow> R s (fst (ship_one u p b s))"
begin

lemma rel_ship_batches:
  "(\<And>g e1 e2 b. g \<in> set gs \<Longrightarrow> g e1 = (e2, Ok b) \<Longrightarrow> emitted p b)
    \<Longrightarrow> R s (fst (ship_batches u p gs shipped any progressed s))"
proof (induction gs arbitrary: shipped any progressed s)
  case (Cons g gs)
  have IH: "R s' (fst (ship_batches u p gs sh a pr s'))" for sh a pr s'
  proof (rule Cons.IH)
    fix g' e1 e2 b assume "g' \<in> set gs" "g' e1 = (e2, Ok b)"
    then show "emitted p b" using Cons.prems [of g' e1 e2 b] by simp
  qed
  show ?case
    unfolding ship_batches.simps
  proof (rule step_bind)
    fix s1 b assume "in_env g s = (s1, Ok b)"
    then have em: "emitted p b"
      using Cons.prems [of g "us_env s"] by (auto simp: in_env_Ok)
    show "R s1 (fst ((if bt_records b = [] then ship_batches u p gs shipped any progressed
       else bind_p (may_send u p) (\<lambda>ok. if \<not> ok then ret (Return any)
         else bind_p (ship_one u p b) (\<lambda>oc. if \<not> succeeded oc then ret (Return True)
           else (case pi_max_per_pump p of None \<Rightarrow> ret (Return True)
             | Some budget \<Rightarrow> if budget \<le> shipped + batch_len b then ret (Return True)
                 else ship_batches u p gs (shipped + batch_len b) True True)))) s1))"
      using em by (auto intro!: step_bind simp: IH R_ship split: option.split)
  qed simp
qed simp

lemma rel_source_pass: "R s (fst (source_pass u p shipped any s))"
  unfolding source_pass_def
proof (rule step_bind)
  fix s1 ok assume "may_send u p s = (s1, Ok ok)"
  have get: "R s' (fst (get_cursor_p k s'))" for k s' by (simp add: get_cursor_p_def)
  have ship: "R s3 (fst (ship_batches u p gs shipped any False s3))"
    if run: "in_env (so_iter (pi_source p) c l) s2 = (s3, Ok gs)" for c l s2 s3 gs
  proof (rule rel_ship_batches)
    obtain e' where it: "so_iter (pi_source p) c l (us_env s2) = (e', Ok gs)"
      using run by (auto simp: in_env_Ok)
    fix g e1 e2 b assume "g \<in> set gs" "g e1 = (e2, Ok b)"
    with it show "emitted p b" unfolding emitted_def by blast
  qed
  show "R s1 (fst ((if \<not> ok then ret (Return any) else bind_p (get_cursor_p (pipe_key p)) (\<lambda>cursor.
      bind_p (in_env (so_iter (pi_source p) cursor (fetch_limit p))) (\<lambda>gs.
      ship_batches u p gs shipped any False))) s1))"
    by (auto intro!: step_bind get ship simp del: prog_apply)
qed simp

lemma rel_source_loop: "R s (fst (source_loop u p shipped any s))"
proof (induction u\<equiv>u p\<equiv>p shipped any s rule: source_loop.induct)
  case (1 shipped any s)
  obtain s' r where t: "source_pass u p shipped any s = (s', r)" by (cases "source_pass u p shipped any s")
  have R1: "R s s'" using rel_source_pass [of s shipped any] t by simp
  show ?case
  proof (cases "under_budget p shipped \<and> (\<exists>n a. r = Ok (More n a))")
    case True
    then obtain n a where r: "r = Ok (More n a)" by auto
    then have "R s' (fst (source_loop u p n a s'))" using 1 t True by simp
    with R1 have "R s (fst (source_loop u p n a s'))" by (rule R_trans)
    then show ?thesis using t r True by (subst source_loop.simps) simp
  next
    case False
    then show ?thesis using t R1 by (subst source_loop.simps) (auto split: res.split pass.split)
  qed
qed

end

locale pump_relation = ship_relation R u p
  for R :: "'e ustate \<Rightarrow> 'e ustate \<Rightarrow> bool" and u :: "'e uploader" and p :: "'e pipeline" +
  assumes R_turn: "R s (fst (drain_turn u p now s))"
begin

lemma rel_drain_loop: "R s (fst (drain_loop u p now any s))"
proof (induction u\<equiv>u p\<equiv>p now any s rule: drain_loop.induct)
  case (1 now any s)
  obtain s' r where t: "drain_turn u p now s = (s', r)" by (cases "drain_turn u p now s")
  have R1: "R s s'" using R_turn [of s now] t by simp
  show ?case
  proof (cases "r = Ok Again")
    case True
    then have "R s' (fst (drain_loop u p now True s'))" using 1 t by simp
    with R1 have "R s (fst (drain_loop u p now True s'))" by (rule R_trans)
    then show ?thesis using t True by (subst drain_loop.simps) simp
  next
    case False
    then show ?thesis using t R1 by (subst drain_loop.simps) (auto split: res.split drain.split)
  qed
qed

lemma rel_drain_deliverables: "R s (fst (drain_deliverables u p s))"
  unfolding drain_deliverables_def by (rule step_bind) (simp_all add: rel_drain_loop)

lemma rel_pump_one: "R s (fst (pump_one u p s))"
  unfolding pump_one_def drain_source_def
  by (auto intro!: step_bind rel_drain_deliverables rel_source_loop simp del: prog_apply)

end

text \<open>The set of pipelines: what holds of each pipeline's pump holds of a pump of them all.\<close>

context step_relation
begin

lemma rel_pump_all:
  "(\<And>p s. p \<in> set ps \<Longrightarrow> R s (fst (pump_one u p s))) \<Longrightarrow> R s (fst (pump_all u ps s))"
proof (induction ps arbitrary: s)
  case (Cons p ps)
  obtain s1 r where 1: "pump_one u p s = (s1, r)" by fastforce
  obtain s2 rs where 2: "pump_all u ps s1 = (s2, rs)" by fastforce
  have "R s s1" using Cons.prems [of p s] 1 by simp
  moreover have "R s1 s2" using Cons.IH [of s1] Cons.prems 2 by simp
  ultimately show ?case using R_trans 1 2 by simp
qed simp

lemma rel_pump_inline:
  "(\<And>p s. p \<in> set ps \<Longrightarrow> R s (fst (pump_one u p s))) \<Longrightarrow> R s (fst (pump_inline u ps did s))"
proof (induction ps arbitrary: s did)
  case (Cons p ps)
  then show ?case unfolding pump_inline.simps by (intro step_bind) simp_all
qed simp

lemma rel_pump:
  assumes "\<And>p s. p \<in> set ps \<Longrightarrow> R s (fst (pump_one u p s))"
  shows "R s (fst (pump u inl ps s))"
  using rel_pump_all [of ps u s] rel_pump_inline [of ps u s False] assms
  by (auto simp: pump_def Let_def split: prod.split)

lemma rel_pump_until_idle:
  "(\<And>p s. p \<in> set ps \<Longrightarrow> R s (fst (pump_one u p s)))
    \<Longrightarrow> R s (fst (pump_until_idle u inl ps n k s))"
proof (induction n arbitrary: s k)
  case (Suc n)
  then show ?case
    unfolding pump_until_idle.simps by (intro step_bind) (auto intro: rel_pump simp del: prog_apply)
qed simp

end

end
