(* ===== verification/PumpForward.thy ===== *)
theory PumpForward
  imports PumpLaws
begin

text \<open>
  The forward-only rule, for the whole pump: whatever the transport answers, whatever raises,
  and whatever is in the retry queue, a pump of a pipeline leaves no send record behind where
  it stood.  The source's order enters as the laws of \<open>cursor_order\<close>.
\<close>

definition queue_reads :: "(bytes \<Rightarrow> bool) \<Rightarrow> 'e pipeline \<Rightarrow> store \<Rightarrow> bool" where
  "queue_reads readable p st \<longleftrightarrow> (\<forall>d \<in> set (st_queue st).
     dl_pipeline d = pi_name p \<longrightarrow> dl_cursor_after d = [] \<or> readable (dl_cursor_after d))"

definition ports_read :: "(bytes \<Rightarrow> bool) \<Rightarrow> 'e pipeline \<Rightarrow> bool" where
  "ports_read readable p \<longleftrightarrow> (\<forall>b. emitted p b \<longrightarrow> readable (bt_cursor_after b))
     \<and> (\<forall>b e e' oc c. tr_ship (pi_transport p) b e = (e', Ok oc) \<longrightarrow> oc_accepted_cursor oc = Some c
          \<longrightarrow> c = [] \<or> readable c)"

definition not_behind :: "(bytes \<Rightarrow> bool) \<Rightarrow> (bytes \<Rightarrow> 'p::linorder) \<Rightarrow> store \<Rightarrow> store \<Rightarrow> bool" where
  "not_behind readable pos st st' \<longleftrightarrow> (\<forall>k c. stored_cursor st k = Some c \<longrightarrow> readable c
     \<longrightarrow> (\<exists>c'. stored_cursor st' k = Some c' \<and> readable c' \<and> pos c \<le> pos c'))"

lemma not_behind_refl [simp]: "not_behind readable pos st st"
  by (auto simp: not_behind_def)

lemma not_behind_trans:
  "not_behind readable pos a b \<Longrightarrow> not_behind readable pos b c \<Longrightarrow> not_behind readable pos a c"
  unfolding not_behind_def by (meson order_trans)

lemma not_behind_marks: "st_marks st' = st_marks st \<Longrightarrow> not_behind readable pos st st'"
  using stored_cursor_marks [of st' st] by (auto simp: not_behind_def)

definition forward_rel ::
  "(bytes \<Rightarrow> bool) \<Rightarrow> (bytes \<Rightarrow> 'p::linorder) \<Rightarrow> 'e pipeline \<Rightarrow> 'e ustate \<Rightarrow> 'e ustate \<Rightarrow> bool" where
  "forward_rel readable pos p s s' \<longleftrightarrow> (queue_reads readable p (us_store s)
     \<longrightarrow> queue_reads readable p (us_store s') \<and> not_behind readable pos (us_store s) (us_store s'))"

interpretation fr: step_relation "forward_rel readable pos p" for readable pos p
  by standard (auto simp: forward_rel_def intro: not_behind_trans)

lemma forward_rel_queue:
  "set (st_queue (us_store s')) \<subseteq> set (st_queue (us_store s)) \<Longrightarrow> st_marks (us_store s') = st_marks (us_store s)
    \<Longrightarrow> forward_rel readable pos p s s'"
  by (auto simp: forward_rel_def queue_reads_def intro: not_behind_marks)

lemma forward_record [simp]: "forward_rel readable pos p s (fst (record_p p' ts oc n b err s))"
  by (rule forward_rel_queue) simp_all

lemma forward_dead [simp]: "forward_rel readable pos p s (fst (on_store (send_to_dead_letter t q b e) s))"
  by (rule forward_rel_queue) simp_all

lemma forward_pop: "forward_rel readable pos p s (fst (pop_p q now s))"
  by (auto intro!: forward_rel_queue simp: pop_p_def pop_due_def split: prod.splits option.splits)

lemma forward_requeue:
  assumes "dl_pipeline d = pi_name p \<Longrightarrow> dl_cursor_after d = [] \<or> readable (dl_cursor_after d)"
  shows "forward_rel readable pos p s (fst (requeue_p d s))"
  using assms by (auto simp: forward_rel_def requeue_p_def requeue_deliverable_def queue_reads_def
      set_insort_key intro!: not_behind_marks split: res.split)

lemma forward_enqueue:
  assumes "dl_cursor_after d = [] \<or> readable (dl_cursor_after d)"
  shows "forward_rel readable pos p s (fst (on_store (snd \<circ> enqueue_deliverable d) s))"
  using assms by (auto simp: forward_rel_def enqueue_deliverable_def queue_reads_def
      intro!: not_behind_marks split: list.split)

context cursor_order
begin

lemma advance_not_behind:
  assumes "readable c"
  shows "not_behind readable pos st (fst (advance_cursor k c t after tick st))"
  unfolding not_behind_def
proof (intro allI impI)
  fix k' s assume s: "stored_cursor st k' = Some s" "readable s"
  show "\<exists>c'. stored_cursor (fst (advance_cursor k c t after tick st)) k' = Some c' \<and> readable c' \<and> pos s \<le> pos c'"
  proof (cases "k' = k \<and> \<not> st_in_txn st")
    case True
    then obtain s' where "stored_cursor (fst (advance_cursor k c t after tick st)) k = Some s'"
        "s' \<in> {s, c}" "pos s' = max (pos s) (pos c)"
      using advance_max [of st k s c t tick] s assms by auto
    then show ?thesis using True s(2) assms by auto
  next
    case False
    then have "find_mark (fst (advance_cursor k c t after tick st)) k' = find_mark st k'"
      using advance_other_key [of k' k c t after tick st] by (auto simp: advance_cursor_def)
    then show ?thesis using s by (auto simp: stored_cursor_def)
  qed
qed

lemma forward_advance:
  assumes "readable c" "is_after_for (pi_source p') = after"
  shows "forward_rel readable pos p s (fst (advance_record u p' k c t s))"
  using advance_not_behind [OF assms(1)] assms(2)
  by (simp add: forward_rel_def queue_reads_def advance_record_store)

lemma forward_handle_outcome:
  assumes "is_after_for (pi_source p) = after"
    and "dl_cursor_after d = [] \<or> readable (dl_cursor_after d)"
  shows "forward_rel readable pos p s (fst (handle_outcome u p d oc now s))"
  unfolding handle_outcome_def Let_def
  using assms
  by (auto intro!: fr.step_bind forward_advance forward_requeue simp del: prog_apply record_p_apply)

lemma forward_turn:
  assumes "is_after_for (pi_source p) = after"
  shows "forward_rel readable pos p s (fst (drain_turn u p now s))"
proof (cases "queue_reads readable p (us_store s)")
  case True
  show ?thesis
    unfolding drain_turn_def
  proof (rule fr.step_bind)
    fix s1 ok assume 1: "may_send u p s = (s1, Ok ok)"
    then have q1: "queue_reads readable p (us_store s1)"
      using True may_send_store [of u p s] by simp
    have d: "dl_cursor_after d = [] \<or> readable (dl_cursor_after d)"
      if "pop_p (pi_name p) (iso now) s1 = (s2, Ok (Some d))" for s2 d
      using pop_p_row [OF that] q1 by (auto simp: queue_reads_def)
    have pop: "forward_rel readable pos p s1 (fst (pop_p (pi_name p) (iso now) s1))"
      by (rule forward_pop)
    show "forward_rel readable pos p s1 (fst ((if \<not> ok then ret Idle
       else bind_p (pop_p (pi_name p) (iso now)) (\<lambda>next. case next of None \<Rightarrow> ret Idle
         | Some d \<Rightarrow> bind_p (in_env (tr_replay (pi_transport p) (dl_payload d))) (\<lambda>oc.
             bind_p (handle_outcome u p d oc now) (\<lambda>_.
             if oc_kind oc = ''retry_later''
             then bind_p (count_p p) (\<lambda>n.
               bind_p (put_log (LogDeferring (pi_name p) (oc_reason oc) n)) (\<lambda>_. ret Stopped))
             else ret Again)))) s1))"
    proof (cases ok)
      case ok: True
      have replay: "forward_rel readable pos p s2 (fst (bind_p
          (in_env (tr_replay (pi_transport p) (dl_payload d))) (\<lambda>oc.
             bind_p (handle_outcome u p d oc now) (\<lambda>_.
             if oc_kind oc = ''retry_later''
             then bind_p (count_p p) (\<lambda>n.
               bind_p (put_log (LogDeferring (pi_name p) (oc_reason oc) n)) (\<lambda>_. ret Stopped))
             else ret Again)) s2))"
        if "pop_p (pi_name p) (iso now) s1 = (s2, Ok (Some d))" for s2 d
        using d [OF that]
        by (auto intro!: fr.step_bind forward_handle_outcome [OF assms] simp del: prog_apply)
      show ?thesis
        using ok replay
        by (auto intro!: fr.step_bind pop split: option.split simp del: prog_apply)
    qed simp
  qed simp
qed (simp add: forward_rel_def)

lemma forward_ship:
  assumes "is_after_for (pi_source p) = after" "ports_read readable p" "emitted p b"
  shows "forward_rel readable pos p s (fst (ship_one u p b s))"
proof -
  have b: "readable (bt_cursor_after b)" using assms(2,3) by (simp add: ports_read_def)
  have acc: "readable (case oc_accepted_cursor oc of Some (c # cs) \<Rightarrow> c # cs | _ \<Rightarrow> bt_cursor_after b)"
    if "in_env (tr_ship (pi_transport p) b) s1 = (s2, Ok oc)" for s1 s2 oc
    using that assms(2) b
    by (auto simp: ports_read_def in_env_Ok split: option.split list.split)
       (metis list.distinct(1))
  have q: "dl_cursor_after (queued_row p b payload now) = [] \<or>
      readable (dl_cursor_after (queued_row p b payload now))" for payload now
    using b by (simp add: queued_row_def)
  have h: "forward_rel readable pos p s3 (fst (handle_first_attempt u p b oc now s3))"
    if "in_env (tr_ship (pi_transport p) b) s1 = (s2, Ok oc)" for s1 s2 s3 oc now
  proof -
    let ?s = "fst (in_env (up_on_batch u p b oc) s3)"
    have "forward_rel readable pos p ?s (fst (handle_first_attempt u p b oc now s3))"
      unfolding handle_first_attempt_def Let_def
      by (auto intro!: fr.step_bind forward_advance [OF _ assms(1)] acc [OF that] b forward_enqueue q
          simp del: prog_apply record_p_apply)
    then show ?thesis by (rule fr.R_trans [rotated]) simp
  qed
  show ?thesis
    unfolding ship_one_def by (auto intro!: fr.step_bind h simp del: prog_apply)
qed

lemma forward_pump_one:
  assumes "is_after_for (pi_source p) = after" "ports_read readable p"
  shows "forward_rel readable pos p s (fst (pump_one u p s))"
proof -
  have "pump_relation (forward_rel readable pos p) u p"
    by standard (rule forward_ship [OF assms], assumption, rule forward_turn [OF assms(1)])
  then show ?thesis by (rule pump_relation.rel_pump_one)
qed

end

subsection \<open>The property\<close>

text \<open>C1: no pump rewinds.  Let the source's comparator follow an order on the cursors it can
  read, and let the cursors that the source's batches, the transport's partial acks and the
  pipeline's queued retries carry be readable ones.  Then one pump of the pipeline (whatever its
  transport, gate and clock do, exceptions included) leaves every readable send record of the
  store, its own or another pipeline's, at a position at or after the one it had.\<close>

theorem pump_never_rewinds:
  fixes pos :: "bytes \<Rightarrow> 'p::linorder"
  assumes "\<And>a b. readable a \<Longrightarrow> readable b \<Longrightarrow> is_after_for (pi_source p) a b = Ok (pos b < pos a)"
    and "ports_read readable p" and "queue_reads readable p (us_store s)"
  shows "not_behind readable pos (us_store s) (us_store (fst (pump_one u p s)))"
proof -
  have "cursor_order (is_after_for (pi_source p)) readable pos"
    by standard (rule assms(1))
  from cursor_order.forward_pump_one [OF this refl assms(2), of s u] assms(3)
  show ?thesis by (simp add: forward_rel_def)
qed

end
