(* ===== verification/PumpRetry.thy ===== *)
theory PumpRetry
  imports PumpLaws
begin

text \<open>
  What the pump does with failures: the retry queue's invariants (no row lost, attempts
  bounded), one probe of a failing destination per pump, the bound on what a broken gate logs,
  and the equivalence of a retried acknowledgement with a first one.
\<close>

subsection \<open>A held pipeline\<close>

lemma may_send_gate:
  assumes "up_gate u = Some g" "g p (us_env s) = (e, r)" "r \<noteq> Ok True"
  shows "\<exists>s1. may_send u p s = (s1, Ok False) \<and> us_store s1 = us_store s \<and> us_env s1 = e"
proof (cases r)
  case (Ok b)
  then have "\<not> b" using assms(3) by auto
  then show ?thesis using assms Ok by (simp add: may_send_def in_env_def)
next
  case (Raise x)
  have "us_env (note_gate_fault p k s') = us_env s'" for k s' by (simp add: note_gate_fault_def)
  then show ?thesis using assms Raise by (simp add: may_send_def in_env_def)
qed

text \<open>A held pipeline is not touched.  When the gate answers no, or raises, a pump of the
  pipeline does nothing: the store is as it was (send record, retries, attempt log), and the
  environment has seen the gate's own call and no other, so no source was read and nothing
  was sent.\<close>

theorem held_pipeline_untouched:
  assumes "up_gate u = Some g" "g p (us_env s) = (e, r)" "r \<noteq> Ok True"
  shows "\<exists>s1. pump_one u p s = (s1, Ok False) \<and> us_store s1 = us_store s \<and> us_env s1 = e"
  using may_send_gate [OF assms] by (auto simp: pump_one_def bind_p_def)

subsection \<open>What a broken gate may log\<close>

definition gate_notes :: "pump_log list \<Rightarrow> nat" where
  "gate_notes ls = length (filter gate_note ls)"

definition faults_accounted :: "'e ustate \<Rightarrow> bool" where
  "faults_accounted s \<longleftrightarrow> gate_notes (us_log s) \<le> length (us_gate_faults s) + (if us_faults_full s then 1 else 0)
     \<and> length (us_gate_faults s) \<le> gate_fault_cap \<and> distinct (us_gate_faults s)"

definition faults_rel :: "'e ustate \<Rightarrow> 'e ustate \<Rightarrow> bool" where
  "faults_rel s s' \<longleftrightarrow> (faults_accounted s \<longrightarrow> faults_accounted s')"

lemma faults_same:
  "us_gate_faults s' = us_gate_faults s \<Longrightarrow> us_faults_full s' = us_faults_full s
    \<Longrightarrow> gate_notes (us_log s') = gate_notes (us_log s) \<Longrightarrow> faults_rel s s'"
  by (simp add: faults_rel_def faults_accounted_def)

lemma faults_note: "faults_rel s (note_gate_fault p k s)"
  by (auto simp: faults_rel_def faults_accounted_def note_gate_fault_def gate_notes_def)

interpretation gf: step_relation faults_rel
proof
  show "faults_rel s (s\<lparr>us_log := us_log s @ [l]\<rparr>)" if "\<not> gate_note l" for s :: "'a ustate" and l
    using that by (intro faults_same) (simp_all add: gate_notes_def)
  show "faults_rel s (s\<lparr>us_env := e\<rparr>)" for s :: "'a ustate" and e
    by (intro faults_same) simp_all
qed (auto simp: faults_rel_def faults_note [unfolded faults_rel_def, rule_format])

lemma faults_store [simp]: "faults_rel s (s\<lparr>us_store := st\<rparr>)"
  by (intro faults_same) simp_all

lemma faults_held [simp]: "faults_rel s (log_record_held u p k c s)"
  by (intro faults_same) (simp_all add: log_record_held_def gate_notes_def split: res.split option.split prod.split)

lemma faults_advance [simp]: "faults_rel s (fst (advance_record u p k c t s))"
  by (auto simp: advance_record_def Let_def split: prod.split res.split
      intro: gf.R_trans [OF faults_store faults_held])

lemma faults_steps [simp]:
  "faults_rel s (fst (on_store f s))" "faults_rel s (fst (record_p p ts oc n b err s))"
  "faults_rel s (fst (pop_p q now s))" "faults_rel s (fst (requeue_p d s))"
  by (simp_all add: pop_p_def requeue_p_def split: prod.split res.split)

lemma faults_handle_outcome [simp]: "faults_rel s (fst (handle_outcome u p d oc now s))"
  unfolding handle_outcome_def Let_def
  by (auto intro!: gf.step_bind simp del: prog_apply record_p_apply)

lemma faults_turn: "faults_rel s (fst (drain_turn u p now s))"
  unfolding drain_turn_def
  by (auto intro!: gf.step_bind split: option.split simp del: prog_apply)

lemma faults_ship: "faults_rel s (fst (ship_one u p b s))"
proof -
  have "faults_rel s3 (fst (handle_first_attempt u p b oc now s3))" for s3 oc now
  proof -
    let ?s = "fst (in_env (up_on_batch u p b oc) s3)"
    have "faults_rel ?s (fst (handle_first_attempt u p b oc now s3))"
      unfolding handle_first_attempt_def Let_def
      by (auto intro!: gf.step_bind simp del: prog_apply record_p_apply)
    then show ?thesis by (rule gf.R_trans [rotated]) simp
  qed
  then show ?thesis
    unfolding ship_one_def by (auto intro!: gf.step_bind simp del: prog_apply)
qed

interpretation gfp: pump_relation faults_rel u p for u p
  by standard (simp_all add: faults_turn faults_ship)

lemma faults_until_idle: "faults_rel s (fst (pump_until_idle u inl ps n k s))"
  by (rule gf.rel_pump_until_idle) (rule gfp.rel_pump_one)

text \<open>A gate that raises cannot flood the journal.  However many pumps run, over whatever
  pipelines, a gate that raises on every call writes at most 65 lines: one for each of at most
  64 exception types and one for the cap.\<close>

theorem gate_fault_lines_bounded:
  assumes "us_log s = []" "us_gate_faults s = []" "\<not> us_faults_full s"
  shows "gate_notes (us_log (fst (pump_until_idle u inl ps n k s))) \<le> 65"
proof -
  have "faults_accounted s" using assms by (simp add: faults_accounted_def gate_notes_def)
  then have "faults_accounted (fst (pump_until_idle u inl ps n k s))"
    using faults_until_idle [of s u inl ps n k] by (simp add: faults_rel_def)
  then show ?thesis by (auto simp: faults_accounted_def gate_fault_cap_def split: if_splits)
qed

subsection \<open>The fate of a replayed row, and the history of replays\<close>

text \<open>
  What the retry policy makes of the answer to a replay.  An exception leaves the pump and an
  acknowledgement (or an unknown kind, taken for one) settles the row; "later" puts the row back
  until the attempts are used up; then, or after "never", the row becomes a dead letter.
\<close>

datatype fate = Settled | Requeued | Buried string

definition fate_of :: "'e pipeline \<Rightarrow> deliverable \<Rightarrow> outcome res \<Rightarrow> fate" where
  "fate_of p d r = (case r of Raise _ \<Rightarrow> Settled | Ok oc \<Rightarrow>
     if oc_kind oc = ''retry_later'' then
       (if dl_attempts d + 1 < rp_max_attempts (pi_retry p) then Requeued
        else Buried (or_else (oc_reason oc) ''max_attempts''))
     else if oc_kind oc = ''permanent'' then Buried (or_else (oc_reason oc) ''permanent_failure'')
     else Settled)"

text \<open>
  A history of the replays.  \<open>h\<close> reads off the environment what the transport was asked to replay
  and what it answered, oldest first: a replay appends its payload and its answer, and nothing
  else the pump calls changes the history.
\<close>

type_synonym replays = "(bytes \<times> outcome res) list"

definition keeps :: "('e \<Rightarrow> replays) \<Rightarrow> ('e, 'a) effect \<Rightarrow> bool" where
  "keeps h f \<longleftrightarrow> (\<forall>e. h (fst (f e)) = h e)"

definition history_kept :: "('e \<Rightarrow> replays) \<Rightarrow> 'e uploader \<Rightarrow> 'e pipeline \<Rightarrow> bool" where
  "history_kept h u p \<longleftrightarrow> (let so = pi_source p; tr = pi_transport p in
     (\<forall>b e. h (fst (tr_replay tr b e)) = h e @ [(b, snd (tr_replay tr b e))])
   \<and> (\<forall>b. keeps h (tr_ship tr b) \<and> keeps h (tr_serialize tr b))
   \<and> (\<forall>c l e. h (fst (so_iter so c l e)) = h e \<and> (\<forall>gs. snd (so_iter so c l e) = Ok gs \<longrightarrow> (\<forall>g \<in> set gs. keeps h g)))
   \<and> (\<forall>t. keeps h (so_commit so t)) \<and> (\<forall>b oc. keeps h (up_on_batch u p b oc))
   \<and> (\<forall>e. h (fst (up_now u e)) = h e) \<and> (\<forall>g. up_gate u = Some g \<longrightarrow> keeps h (g p)))"

text \<open>A history can always be kept: next to any environment, by an onlooker that notes the replays.\<close>

definition aside :: "('e, 'a) effect \<Rightarrow> ('e \<times> replays, 'a) effect" where
  "aside f e = (case f (fst e) of (e', r) \<Rightarrow> ((e', snd e), r))"

definition noted :: "bytes \<Rightarrow> ('e, outcome) effect \<Rightarrow> ('e \<times> replays, outcome) effect" where
  "noted b f e = (case f (fst e) of (e', r) \<Rightarrow> ((e', snd e @ [(b, r)]), r))"

definition watched_pipe :: "'e pipeline \<Rightarrow> ('e \<times> replays) pipeline" where
  "watched_pipe p = (let so = pi_source p; tr = pi_transport p in \<lparr>pi_name = pi_name p,
     pi_source = \<lparr>so_id = so_id so,
       so_iter = (\<lambda>c l e. case aside (so_iter so c l) e of (e', r) \<Rightarrow> (e', map_res (map aside) r)),
       so_commit = (\<lambda>t. aside (so_commit so t)), so_is_after = so_is_after so\<rparr>,
     pi_transport = \<lparr>tr_name = tr_name tr, tr_primary_table = tr_primary_table tr, tr_policy = tr_policy tr,
       tr_ships = tr_ships tr, tr_ship = (\<lambda>b. aside (tr_ship tr b)), tr_serialize = (\<lambda>b. aside (tr_serialize tr b)),
       tr_replay = (\<lambda>b. noted b (tr_replay tr b))\<rparr>,
     pi_retry = pi_retry p, pi_batch_limit = pi_batch_limit p, pi_max_per_pump = pi_max_per_pump p,
     pi_client = pi_client p, pi_governed = pi_governed p, pi_origin = pi_origin p\<rparr>)"

definition watched_up :: "'e uploader \<Rightarrow> 'e pipeline \<Rightarrow> ('e \<times> replays) uploader" where
  "watched_up u p = \<lparr>up_now = (\<lambda>e. case up_now u (fst e) of (e', t) \<Rightarrow> ((e', snd e), t)),
     up_clock = (\<lambda>e. up_clock u (fst e)), up_gate = map_option (\<lambda>g q. aside (g p)) (up_gate u),
     up_on_batch = (\<lambda>q b oc. aside (up_on_batch u p b oc))\<rparr>"

lemma aside_keeps [simp]: "keeps snd (aside f)"
  by (simp add: keeps_def aside_def split: prod.split)

lemma watched_history: "history_kept snd (watched_up u p) (watched_pipe p)"
proof -
  have "keeps snd g" if "r = Ok gs" "map_res (map aside) r' = r" "g \<in> set gs"
    for g :: "('a \<times> replays, batch) effect" and gs r and r' :: "('a, batch) effect list res"
    using that by (cases r') auto
  then show ?thesis
    by (auto simp: history_kept_def Let_def watched_up_def watched_pipe_def noted_def case_prod_beta)
       (simp_all add: aside_def case_prod_beta)
qed

lemma bind_p_apply [simp]:
  "m s = (s', Ok x) \<Longrightarrow> bind_p m f s = f x s'" "m s = (s', Raise e) \<Longrightarrow> bind_p m f s = (s', Raise e)"
  by (simp_all add: bind_p_def)

lemma requeue_fresh:
  assumes "dl_id d \<notin> dl_id ` set (st_queue (us_store s))"
  shows "requeue_p d s = (s\<lparr>us_store := us_store s\<lparr>
    st_queue := insort_key dl_id d (st_queue (us_store s)),
    st_next_id := max (st_next_id (us_store s)) (dl_id d + 1)\<rparr>\<rparr>, Ok ())"
  using assms by (simp add: requeue_p_def requeue_deliverable_def)

text \<open>The row after its failing attempt.\<close>

definition retried :: "'e pipeline \<Rightarrow> rat \<Rightarrow> deliverable \<Rightarrow> deliverable" where
  "retried p now d = d\<lparr>dl_attempts := dl_attempts d + 1,
     dl_next_attempt_at := iso (now + delay_for (pi_retry p) (dl_attempts d + 1))\<rparr>"

text \<open>What a failing replay leaves: the row back in the queue, or a dead letter.\<close>

lemma handle_dead:
  assumes "oc_kind oc = ''retry_later'' \<and> rp_max_attempts (pi_retry p) \<le> dl_attempts d + 1
      \<and> err = or_else (oc_reason oc) ''max_attempts''
    \<or> oc_kind oc = ''permanent'' \<and> err = or_else (oc_reason oc) ''permanent_failure''"
    and "handle_outcome u p d oc now s = (s', r)"
  shows "r = Ok () \<and> us_env s' = us_env s \<and> st_marks (us_store s') = st_marks (us_store s)
    \<and> st_queue (us_store s') = st_queue (us_store s)
    \<and> st_dead (us_store s') = st_dead (us_store s) @ [\<lparr>dd_ts = iso now, dd_pipeline = pi_name p,
         dd_payload = dl_payload d, dd_final_error = err\<rparr>]"
  using assms by (auto simp: handle_outcome_def Let_def send_to_dead_letter_def)

lemma handle_requeue:
  assumes "oc_kind oc = ''retry_later''" "dl_attempts d + 1 < rp_max_attempts (pi_retry p)"
    and "dl_id d \<notin> dl_id ` set (st_queue (us_store s))"
    and "handle_outcome u p d oc now s = (s', r)"
  shows "r = Ok () \<and> us_env s' = us_env s \<and> st_marks (us_store s') = st_marks (us_store s)
    \<and> st_queue (us_store s') = insort_key dl_id (retried p now d) (st_queue (us_store s))
    \<and> st_dead (us_store s') = st_dead (us_store s)"
proof -
  have "dl_id (retried p now d) \<notin> dl_id ` set (st_queue (us_store s))"
    using assms(3) by (simp add: retried_def)
  from requeue_fresh [OF this] show ?thesis
    using assms(1,2,4) by (auto simp: handle_outcome_def Let_def simp flip: retried_def)
qed

lemma wf_requeue_p:
  "wf_store (us_store s) \<Longrightarrow> wf_store (us_store (fst (requeue_p d s)))"
  by (simp add: requeue_p_def wf_requeue split: res.split)

definition wf_rel :: "'e ustate \<Rightarrow> 'e ustate \<Rightarrow> bool" where
  "wf_rel s s' \<longleftrightarrow> (wf_store (us_store s) \<longrightarrow> wf_store (us_store s'))"

interpretation wr: step_relation wf_rel
  by standard (auto simp: wf_rel_def)

lemma wf_steps [simp]:
  "wf_rel s (fst (advance_record u p k c t s))" "wf_rel s (fst (record_p p ts oc n b err s))"
  "wf_rel s (fst (on_store (send_to_dead_letter t q pl e) s))"
  "wf_rel s (fst (requeue_p d s))" "wf_rel s (fst (pop_p q now s))"
  using wf_pop_due [of "us_store s" q now]
  by (auto simp: wf_rel_def wf_dead_letter wf_record_attempt advance_record_store wf_advance
      wf_requeue_p pop_p_def split: prod.splits)

lemma wf_handle_outcome [simp]: "wf_rel s (fst (handle_outcome u p d oc now s))"
  unfolding handle_outcome_def Let_def
  by (auto intro!: wr.step_bind simp del: prog_apply record_p_apply)

text \<open>
  The ledger of a run, from state \<open>s\<close> to \<open>s'\<close>: the rows it \<open>taken\<close> off the queue, each with the answer to
  its replay, and the dead letters it made.  The rows taken are different rows of the queue and of
  this pipeline, and the history grew by exactly their replays; every other row waits unchanged; a
  row answered "later" waits again, one attempt older; and the new dead letters begin with one for
  each row that is given up, in the order of the replays.
\<close>

definition letter_of :: "dead_row \<Rightarrow> string \<times> bytes \<times> string" where
  "letter_of x = (dd_pipeline x, dd_payload x, dd_final_error x)"

fun letters :: "'e pipeline \<Rightarrow> (deliverable \<times> outcome res) list \<Rightarrow> (string \<times> bytes \<times> string) list" where
  "letters p [] = []"
| "letters p ((d, r) # ts) = (case fate_of p d r of
     Buried err \<Rightarrow> (pi_name p, dl_payload d, err) # letters p ts | _ \<Rightarrow> letters p ts)"

definition ledger :: "('e \<Rightarrow> replays) \<Rightarrow> 'e pipeline \<Rightarrow> (deliverable \<times> outcome res) list
    \<Rightarrow> dead_row list \<Rightarrow> 'e ustate \<Rightarrow> 'e ustate \<Rightarrow> bool" where
  "ledger h p taken others s s' \<longleftrightarrow> (let q = set (st_queue (us_store s)); q' = set (st_queue (us_store s')) in
     h (us_env s') = h (us_env s) @ map (\<lambda>(d, r). (dl_payload d, r)) taken
   \<and> distinct (map (dl_id \<circ> fst) taken) \<and> (\<forall>d \<in> fst ` set taken. d \<in> q \<and> dl_pipeline d = pi_name p)
   \<and> (\<forall>d \<in> q. d \<in> fst ` set taken \<or> d \<in> q')
   \<and> (\<forall>(d, r) \<in> set taken. fate_of p d r = Requeued \<longrightarrow> (\<exists>t. retried p t d \<in> q'))
   \<and> (\<exists>new. st_dead (us_store s') = st_dead (us_store s) @ new @ others
       \<and> map letter_of new = letters p taken))"

subsection \<open>Programs that replay nothing\<close>

definition replayless :: "('e \<Rightarrow> replays) \<Rightarrow> ('e, 'a) prog \<Rightarrow> bool" where
  "replayless h m \<longleftrightarrow> (\<forall>s. h (us_env (fst (m s))) = h (us_env s))"

lemma replayless_bind:
  assumes "replayless h m" "\<And>s s' x. m s = (s', Ok x) \<Longrightarrow> replayless h (f x)"
  shows "replayless h (bind_p m f)"
  unfolding replayless_def
proof
  fix s
  obtain s1 r where 1: "m s = (s1, r)" by fastforce
  have "h (us_env s1) = h (us_env s)" using assms(1) 1 unfolding replayless_def by (metis fst_conv)
  then show "h (us_env (fst (bind_p m f s))) = h (us_env s)"
    using 1 assms(2) by (cases r) (auto simp: replayless_def bind_p_def)
qed

lemma keepsD: "keeps h f \<Longrightarrow> f e = (e', r) \<Longrightarrow> h e' = h e"
  unfolding keeps_def by (metis fst_conv)

lemma replayless_env: "keeps h f \<Longrightarrow> replayless h (in_env f)"
  by (auto simp: replayless_def in_env_def dest: keepsD split: prod.split)

lemma replayless_log_record_held [simp]: "us_env (log_record_held u p k c s) = us_env s"
  by (simp add: log_record_held_def split: res.split option.split prod.split)

lemma replayless_steps [simp]:
  "replayless h (ret x)" "replayless h (fail e)" "replayless h (on_store f)" "replayless h (ask_store g)" "replayless h (put_log l)"
  "replayless h (record_p p ts oc n b err)" "replayless h (pop_p q now)" "replayless h (requeue_p d)" "replayless h (count_p p)"
  "replayless h (get_cursor_p k)" "replayless h (advance_record u p k c t)"
  by (simp_all add: replayless_def pop_p_def requeue_p_def count_p_def get_cursor_p_def advance_record_def Let_def
      split: prod.split res.split)

lemma history_keptD:
  assumes "history_kept h u p"
  shows "h (fst (tr_replay (pi_transport p) b e)) = h e @ [(b, snd (tr_replay (pi_transport p) b e))]"
    and "keeps h (tr_ship (pi_transport p) x)" "keeps h (tr_serialize (pi_transport p) x)"
    and "keeps h (so_iter (pi_source p) c l)" "so_iter (pi_source p) c l e = (e', Ok gs) \<Longrightarrow> g \<in> set gs \<Longrightarrow> keeps h g"
    and "keeps h (so_commit (pi_source p) t)" "keeps h (up_on_batch u p x oc)"
    and "h (fst (up_now u e)) = h e" "up_gate u = Some k \<Longrightarrow> keeps h (k p)"
proof -
  show "keeps h g" if "so_iter (pi_source p) c l e = (e', Ok gs)" "g \<in> set gs"
    using assms that unfolding history_kept_def Let_def by (metis snd_conv)
qed (use assms in \<open>auto simp: history_kept_def Let_def keeps_def\<close>)

lemma replayless_may_send: "history_kept h u p \<Longrightarrow> replayless h (may_send u p)"
proof -
  assume h: "history_kept h u p"
  have n: "us_env (note_gate_fault p k s) = us_env s" for k s by (simp add: note_gate_fault_def)
  have "h (us_env (fst (may_send u p s))) = h (us_env s)" for s
  proof (cases "up_gate u")
    case (Some g)
    obtain e r where g: "g p (us_env s) = (e, r)" by fastforce
    then have "h e = h (us_env s)" using keepsD history_keptD(9) [OF h Some] by metis
    then show ?thesis using Some g n by (cases r) (simp_all add: may_send_def in_env_def)
  qed (simp add: may_send_def)
  then show ?thesis by (simp add: replayless_def)
qed

lemma replayless_now:
  assumes "history_kept h u p"
  shows "replayless h (now_of u)"
proof -
  have "h (fst (up_now u e)) = h e" for e by (rule history_keptD(8) [OF assms])
  then show ?thesis unfolding now_of_def
    by (intro replayless_env) (simp add: keeps_def case_prod_beta)
qed

lemma replayless_if: "replayless h m \<Longrightarrow> replayless h m' \<Longrightarrow> replayless h (if c then m else m')"
  by simp

lemma replayless_then: "replayless h m \<Longrightarrow> (\<And>x. replayless h (f x)) \<Longrightarrow> replayless h (bind_p m f)"
  by (rule replayless_bind)

lemma replayless_handle_outcome: "history_kept h u p \<Longrightarrow> replayless h (handle_outcome u p d oc now)"
proof -
  assume h: "history_kept h u p"
  show ?thesis unfolding handle_outcome_def Let_def
    by (intro replayless_if replayless_then replayless_env history_keptD(6) [OF h] replayless_steps)
qed

lemma replayless_first_attempt: "history_kept h u p \<Longrightarrow> replayless h (handle_first_attempt u p b oc now)"
proof -
  assume h: "history_kept h u p"
  show ?thesis unfolding replayless_def
  proof
    fix s0
    let ?s = "fst (in_env (up_on_batch u p b oc) s0)"
    have s: "h (us_env ?s) = h (us_env s0)" using replayless_env [OF history_keptD(7) [OF h]] unfolding replayless_def by blast
    note q = replayless_if replayless_then replayless_env history_keptD(3,6) [OF h] replayless_steps
    show "h (us_env (fst (handle_first_attempt u p b oc now s0))) = h (us_env s0)"
      unfolding handle_first_attempt_def Let_def s [symmetric]
      by (rule replayless_def [THEN iffD1, rule_format]) (intro q)
  qed
qed

lemma replayless_ship: "history_kept h u p \<Longrightarrow> replayless h (ship_one u p b)"
proof -
  assume h: "history_kept h u p"
  show ?thesis unfolding ship_one_def
    by (intro replayless_then replayless_env replayless_now [OF h] replayless_first_attempt [OF h] history_keptD(2) [OF h] replayless_steps)
qed

lemma replayless_ship_batches:
  "history_kept h u p \<Longrightarrow> (\<And>g. g \<in> set gs \<Longrightarrow> keeps h g) \<Longrightarrow> replayless h (ship_batches u p gs shipped any progressed)"
proof (induction gs arbitrary: shipped any progressed)
  case (Cons g gs)
  have IH: "replayless h (ship_batches u p gs sh a pr)" for sh a pr using Cons by simp
  note q = replayless_if replayless_then replayless_env replayless_may_send [OF Cons.prems(1)] replayless_ship [OF Cons.prems(1)] IH replayless_steps
  have g: "keeps h g" using Cons.prems(2) by simp
  show ?case unfolding ship_batches.simps
    by (cases "pi_max_per_pump p"; simp only: option.case; intro q g)
qed simp

lemma replayless_source_pass: "history_kept h u p \<Longrightarrow> replayless h (source_pass u p shipped any)"
proof -
  assume h: "history_kept h u p"
  have "replayless h (ship_batches u p gs shipped any False)"
    if run: "in_env (so_iter (pi_source p) c l) s = (s', Ok gs)" for c l s s' gs
  proof (rule replayless_ship_batches [OF h])
    obtain e' where "so_iter (pi_source p) c l (us_env s) = (e', Ok gs)" using run by (auto simp: in_env_Ok)
    then show "keeps h g" if "g \<in> set gs" for g using history_keptD(5) [OF h] that by blast
  qed
  then have i: "replayless h (bind_p (in_env (so_iter (pi_source p) c l)) (\<lambda>gs. ship_batches u p gs shipped any False))" for c l
    by (rule replayless_bind [OF replayless_env [OF history_keptD(4) [OF h]]])
  show ?thesis unfolding source_pass_def
    by (rule replayless_then [OF replayless_may_send [OF h]], rule replayless_if [OF replayless_steps(1)],
        rule replayless_then [OF replayless_steps(10)], rule i)
qed

lemma replayless_source_loop: "history_kept h u p \<Longrightarrow> h (us_env (fst (source_loop u p shipped any s))) = h (us_env s)"
proof (induction u p shipped any s rule: source_loop.induct)
  case (1 u p shipped any s)
  obtain s' r where t: "source_pass u p shipped any s = (s', r)" by fastforce
  have e: "h (us_env s') = h (us_env s)"
    using replayless_source_pass [OF "1.prems", of shipped any] t unfolding replayless_def by (metis fst_conv)
  show ?case
  proof (cases "under_budget p shipped \<and> (\<exists>n a. r = Ok (More n a))")
    case True
    then obtain n a where r: "r = Ok (More n a)" by auto
    then have "h (us_env (fst (source_loop u p n a s'))) = h (us_env s')" using 1 t True by simp
    then show ?thesis using t r True e by (subst source_loop.simps) simp
  next
    case False
    then show ?thesis using t e by (subst source_loop.simps) (auto split: res.split pass.split)
  qed
qed

subsection \<open>Programs that only add rows and dead letters\<close>

definition only_adds :: "'e ustate \<Rightarrow> 'e ustate \<Rightarrow> bool" where
  "only_adds s s' \<longleftrightarrow> set (st_queue (us_store s)) \<subseteq> set (st_queue (us_store s'))
     \<and> (\<exists>xs. st_dead (us_store s') = st_dead (us_store s) @ xs)"

interpretation oa: step_relation only_adds
  by standard (auto simp: only_adds_def)

lemma only_adds_same:
  "st_queue (us_store s') = st_queue (us_store s) \<Longrightarrow> st_dead (us_store s') = st_dead (us_store s) \<Longrightarrow> only_adds s s'"
  by (simp add: only_adds_def)

lemma only_adds_steps [simp]:
  "only_adds s (fst (advance_record u p k c t s))" "only_adds s (fst (record_p p ts oc n b err s))"
  "only_adds s (fst (on_store (send_to_dead_letter t q pl e) s))"
  "only_adds s (fst (on_store (snd \<circ> enqueue_deliverable d) s))"
  by (auto simp: only_adds_def advance_record_store send_to_dead_letter_def enqueue_deliverable_def split: list.split)

lemma only_adds_ship: "only_adds s (fst (ship_one u p b s))"
proof -
  have "only_adds s3 (fst (handle_first_attempt u p b oc now s3))" for s3 oc now
  proof -
    let ?s = "fst (in_env (up_on_batch u p b oc) s3)"
    have "only_adds ?s (fst (handle_first_attempt u p b oc now s3))"
      unfolding handle_first_attempt_def Let_def
      by (auto intro!: oa.step_bind simp del: prog_apply record_p_apply)
    then show ?thesis by (rule oa.R_trans [rotated]) simp
  qed
  then show ?thesis unfolding ship_one_def by (auto intro!: oa.step_bind simp del: prog_apply)
qed

interpretation oas: ship_relation only_adds u p for u p
  by standard (simp add: only_adds_ship)

subsection \<open>No queued row is lost\<close>

definition same_rows :: "'e ustate \<Rightarrow> 'e ustate \<Rightarrow> bool" where
  "same_rows s s' \<longleftrightarrow> st_queue (us_store s') = st_queue (us_store s) \<and> st_dead (us_store s') = st_dead (us_store s)"

interpretation sr: step_relation same_rows
  by standard (simp_all add: same_rows_def)

lemma same_rows_steps [simp]:
  "same_rows s (fst (advance_record u p k c t s))" "same_rows s (fst (record_p p ts oc n b err s))"
  by (simp_all add: same_rows_def advance_record_store)

lemma settled_rows:
  assumes "fate_of p d (Ok oc) = Settled"
  shows "same_rows s (fst (handle_outcome u p d oc now s))"
proof -
  have "oc_kind oc \<noteq> ''retry_later''" "oc_kind oc \<noteq> ''permanent''"
    using assms by (auto simp: fate_of_def split: if_splits)
  then show ?thesis unfolding handle_outcome_def Let_def
    by (auto intro!: sr.step_bind simp del: prog_apply record_p_apply)
qed

lemma fate_Requeued: "fate_of p d (Ok oc) = Requeued \<longleftrightarrow>
    oc_kind oc = ''retry_later'' \<and> dl_attempts d + 1 < rp_max_attempts (pi_retry p)"
  by (auto simp: fate_of_def)

lemma fate_Buried: "fate_of p d (Ok oc) = Buried err \<longleftrightarrow>
    oc_kind oc = ''retry_later'' \<and> rp_max_attempts (pi_retry p) \<le> dl_attempts d + 1 \<and> err = or_else (oc_reason oc) ''max_attempts''
  \<or> oc_kind oc = ''permanent'' \<and> err = or_else (oc_reason oc) ''permanent_failure''"
  by (auto simp: fate_of_def)

text \<open>What a handled replay leaves of the queue and the dead letters, by the row's fate.\<close>

lemma handled_rows:
  assumes "dl_id d \<notin> dl_id ` set (st_queue (us_store s))" "handle_outcome u p d oc now s = (s', r)"
  shows "set (st_queue (us_store s')) = (if fate_of p d (Ok oc) = Requeued then {retried p now d} else {}) \<union> set (st_queue (us_store s))
    \<and> (\<exists>new. st_dead (us_store s') = st_dead (us_store s) @ new
       \<and> map letter_of new = letters p [(d, Ok oc)])"
proof (cases "fate_of p d (Ok oc)")
  case Settled
  then show ?thesis using settled_rows [OF Settled, of s u now] assms(2) by (simp add: same_rows_def)
next
  case Requeued
  then show ?thesis using handle_requeue [OF _ _ assms] fate_Requeued [of p d oc] by (simp add: set_insort_key)
next
  case (Buried err)
  note b = Buried [unfolded fate_Buried]
  have "oc_kind oc = ''retry_later'' \<and> rp_max_attempts (pi_retry p) \<le> dl_attempts d + 1
      \<and> err = or_else (oc_reason oc) ''max_attempts'' \<or> oc_kind oc = ''permanent'' \<and> err = or_else (oc_reason oc) ''permanent_failure''"
    using b by blast
  from handle_dead [OF this assms(2)] show ?thesis using Buried by (simp add: letter_of_def)
qed

lemma own_id: "dl_id d \<notin> dl_id ` {q \<in> Q. dl_id q \<noteq> dl_id d}"
  by auto

text \<open>One turn of the drain takes at most one row, and a turn that goes on left the others alone.\<close>

lemma ledger_turn:
  assumes hk: "history_kept h u p" and wf: "wf_store (us_store s)" and t: "drain_turn u p now s = (s', r)"
  shows "wf_store (us_store s') \<and> (\<exists>taken. ledger h p taken [] s s'
    \<and> (r = Ok Again \<longrightarrow> set (st_queue (us_store s')) \<subseteq> {q \<in> set (st_queue (us_store s)). dl_id q \<notin> dl_id ` fst ` set taken}
        \<and> (\<forall>(d, a) \<in> set taken. fate_of p d a \<noteq> Requeued)))"
proof -
  obtain s1 ok where 1: "may_send u p s = (s1, Ok ok)" using may_send_Ok by metis
  have s1: "us_store s1 = us_store s" "h (us_env s1) = h (us_env s)"
    using may_send_store [of u p s] replayless_may_send [OF hk] 1 unfolding replayless_def by (metis fst_conv)+
  obtain s2 nd where 2: "pop_p (pi_name p) (iso now) s1 = (s2, Ok nd)"
    by (cases "pop_due (pi_name p) (iso now) (us_store s1)") (simp add: pop_p_def)
  have s2: "h (us_env s2) = h (us_env s)" using 2 s1 by (auto simp: pop_p_def split: prod.splits)
  have pd: "pop_due (pi_name p) (iso now) (us_store s) = (nd, us_store s2)"
    using 2 s1 by (auto simp: pop_p_def split: prod.splits)
  show ?thesis
  proof (cases "ok \<and> nd \<noteq> None")
    case False
    have "us_store s2 = us_store s" if "nd = None" using pd that rq.pop_None wf by metis
    then have "us_store s' = us_store s \<and> h (us_env s') = h (us_env s) \<and> r = Ok Idle"
      using False 1 2 s1 s2 t unfolding drain_turn_def by (cases ok) auto
    then show ?thesis using wf by (intro conjI exI [of _ "[]"]) (simp_all add: ledger_def)
  next
    case True
    then obtain d where d: "nd = Some d" by auto
    note pop = rq.pop_Some [OF _ pd [unfolded d], OF wf]
    have row: "d \<in> set (st_queue (us_store s))" "dl_pipeline d = pi_name p"
      using pop_p_row [OF 2 [unfolded d]] s1 by simp_all
    have "us_store s2 = us_store s\<lparr>st_queue := filter (\<lambda>q. dl_id q \<noteq> dl_id d) (st_queue (us_store s))\<rparr>"
      using pd d by (auto simp: pop_due_def split: option.splits)
    then have q2: "set (st_queue (us_store s2)) = {q \<in> set (st_queue (us_store s)). dl_id q \<noteq> dl_id d}"
      and dead2: "st_dead (us_store s2) = st_dead (us_store s)" by auto
    have same: "q = d" if "q \<in> set (st_queue (us_store s))" "dl_id q = dl_id d" for q
      using that row(1) wf unfolding wf_store_def distinct_map by (blast dest: inj_onD)
    obtain s3 a where 3: "in_env (tr_replay (pi_transport p) (dl_payload d)) s2 = (s3, a)" by fastforce
    have s3: "us_store s3 = us_store s2"
      using in_env_store [of "tr_replay (pi_transport p) (dl_payload d)" s2] 3 by simp
    have h3: "h (us_env s3) = h (us_env s) @ [(dl_payload d, a)]"
      using history_keptD(1) [OF hk, of "dl_payload d" "us_env s2"] 3 s2 by (auto simp: in_env_def split: prod.splits)
    have led: "ledger h p [(d, a)] [] s sx" 
      if "h (us_env sx) = h (us_env s3)" "set (st_queue (us_store s2)) \<subseteq> set (st_queue (us_store sx))"
        "fate_of p d a = Requeued \<Longrightarrow> retried p now d \<in> set (st_queue (us_store sx))"
        "\<exists>new. st_dead (us_store sx) = st_dead (us_store s) @ new
          \<and> map letter_of new = letters p [(d, a)]" for sx
      using that h3 row q2 same unfolding ledger_def Let_def by auto
    show ?thesis
    proof (cases a)
      case (Raise e)
      then have "s' = s3" "r = Raise e" using 1 2 3 True d t unfolding drain_turn_def by simp_all
      moreover have "ledger h p [(d, a)] [] s s3"
        by (rule led) (use Raise s3 dead2 in \<open>simp_all add: fate_of_def\<close>)
      ultimately show ?thesis using pop s3 by auto
    next
      case (Ok oc)
      obtain s4 q where 4: "handle_outcome u p d oc now s3 = (s4, q)" by fastforce
      have fresh: "dl_id d \<notin> dl_id ` set (st_queue (us_store s3))" unfolding s3 q2 by (rule own_id)
      note rows = handled_rows [OF fresh 4]
      have h4: "h (us_env s4) = h (us_env s3)" using replayless_handle_outcome [OF hk] 4 unfolding replayless_def by (metis fst_conv)
      have wf4: "wf_store (us_store s4)" using wf_handle_outcome [of s3 u p d oc now] 4 pop s3 by (simp add: wf_rel_def)
      have turn: "drain_turn u p now s = (case q of Raise e \<Rightarrow> (s4, Raise e) | Ok x \<Rightarrow>
          if oc_kind oc = ''retry_later''
          then (s4\<lparr>us_log := us_log s4 @ [LogDeferring (pi_name p) (oc_reason oc) (deliverable_count (Some (pi_name p)) (us_store s4))]\<rparr>, Ok Stopped)
          else (s4, Ok Again))"
        using 1 2 3 4 True d Ok unfolding drain_turn_def by (cases q) (simp_all add: count_p_def)
      have end4: "us_store s' = us_store s4" "us_env s' = us_env s4"
          "r = Ok Again \<Longrightarrow> oc_kind oc \<noteq> ''retry_later''"
        using turn t by (auto split: res.splits if_splits)
      have "ledger h p [(d, a)] [] s s'"
        by (rule led) (use rows in \<open>simp_all add: end4 h4 s3 dead2 Ok\<close>)
      moreover have "fate_of p d a \<noteq> Requeued" if "r = Ok Again" using end4(3) [OF that] Ok by (simp add: fate_Requeued)
      ultimately show ?thesis using wf4 end4 rows s3 q2 Ok by (intro conjI exI [of _ "[(d, a)]"]) auto
    qed
  qed
qed

lemma letters_append: "letters p (ts @ us) = letters p ts @ letters p us"
  by (induction p ts rule: letters.induct) (simp_all split: fate.split)

text \<open>Ledgers of consecutive runs join, when the first left none of its rows in the queue.\<close>

lemma ledger_append:
  assumes 1: "ledger h p t1 [] a b" and 2: "ledger h p t2 xs b c"
    and left: "set (st_queue (us_store b)) \<subseteq> {q \<in> set (st_queue (us_store a)). dl_id q \<notin> dl_id ` fst ` set t1}"
    and none: "\<forall>(d, r) \<in> set t1. fate_of p d r \<noteq> Requeued"
  shows "ledger h p (t1 @ t2) xs a c"
proof -
  note l = 1 [unfolded ledger_def Let_def] 2 [unfolded ledger_def Let_def]
  have later: "d \<in> set (st_queue (us_store a)) \<and> dl_id d \<notin> dl_id ` fst ` set t1" if "d \<in> fst ` set t2" for d
    using l(2) that left by auto
  have "distinct (map (dl_id \<circ> fst) (t1 @ t2))"
  proof -
    have "dl_id d \<noteq> dl_id e" if "d \<in> fst ` set t1" "e \<in> fst ` set t2" for d e
      using later [OF that(2)] that(1) by (metis imageI)
    then have "set (map (dl_id \<circ> fst) t1) \<inter> set (map (dl_id \<circ> fst) t2) = {}" by fastforce
    then show ?thesis using l by (simp only: map_append distinct_append)
  qed
  moreover obtain n1 where n1: "st_dead (us_store b) = st_dead (us_store a) @ n1 @ []" "map letter_of n1 = letters p t1" using l(1) by blast
  moreover obtain n2 where n2: "st_dead (us_store c) = st_dead (us_store b) @ n2 @ xs" "map letter_of n2 = letters p t2" using l(2) by blast
  moreover have "\<exists>new. st_dead (us_store c) = st_dead (us_store a) @ new @ xs
      \<and> map letter_of new = letters p (t1 @ t2)"
    by (intro exI [of _ "n1 @ n2"]) (simp add: letters_append n1 n2)
  moreover have "\<forall>d \<in> fst ` set (t1 @ t2). d \<in> set (st_queue (us_store a)) \<and> dl_pipeline d = pi_name p"
  proof
    fix d assume "d \<in> fst ` set (t1 @ t2)"
    then have "d \<in> fst ` set t1 \<or> d \<in> fst ` set t2" by (simp only: set_append image_Un Un_iff)
    then show "d \<in> set (st_queue (us_store a)) \<and> dl_pipeline d = pi_name p" using l(1,2) later by blast
  qed
  moreover have "\<forall>d \<in> set (st_queue (us_store a)). d \<in> fst ` set (t1 @ t2) \<or> d \<in> set (st_queue (us_store c))"
  proof
    fix d assume "d \<in> set (st_queue (us_store a))"
    then have "d \<in> fst ` set t1 \<or> d \<in> fst ` set t2 \<or> d \<in> set (st_queue (us_store c))" using l by blast
    then show "d \<in> fst ` set (t1 @ t2) \<or> d \<in> set (st_queue (us_store c))" by (simp only: set_append image_Un Un_iff disj_assoc)
  qed
  moreover have "\<forall>(d, r) \<in> set (t1 @ t2). fate_of p d r = Requeued \<longrightarrow> (\<exists>t. retried p t d \<in> set (st_queue (us_store c)))"
  proof -
    have "\<forall>(d, r) \<in> set t1. fate_of p d r = Requeued \<longrightarrow> (\<exists>t. retried p t d \<in> set (st_queue (us_store c)))"
      using none by fastforce
    moreover have "\<forall>(d, r) \<in> set t2. fate_of p d r = Requeued \<longrightarrow> (\<exists>t. retried p t d \<in> set (st_queue (us_store c)))"
      using l(2) by (elim conjE)
    ultimately show ?thesis unfolding set_append ball_Un ..
  qed
  moreover have "h (us_env c) = h (us_env a) @ map (\<lambda>(d, r). (dl_payload d, r)) (t1 @ t2)" using l by (simp only: map_append append_assoc)
  ultimately show ?thesis unfolding ledger_def Let_def by blast
qed

lemma ledger_drain_loop:
  "history_kept h u p \<Longrightarrow> wf_store (us_store s) \<Longrightarrow> \<exists>taken. ledger h p taken [] s (fst (drain_loop u p now any s))"
proof (induction u p now any s rule: drain_loop.induct)
  case (1 u p now any s)
  obtain s' r where t: "drain_turn u p now s = (s', r)" by fastforce
  obtain t1 where wf: "wf_store (us_store s')" and l: "ledger h p t1 [] s s'" and
    left: "r = Ok Again \<Longrightarrow> set (st_queue (us_store s')) \<subseteq> {q \<in> set (st_queue (us_store s)). dl_id q \<notin> dl_id ` fst ` set t1}"
      "r = Ok Again \<Longrightarrow> \<forall>(d, a) \<in> set t1. fate_of p d a \<noteq> Requeued"
    using ledger_turn [OF "1.prems" t] by blast
  show ?case
  proof (cases "r = Ok Again")
    case True
    then obtain t2 where "ledger h p t2 [] s' (fst (drain_loop u p now True s'))"
      using "1.IH" [OF t [symmetric] True refl] "1.prems"(1) wf by auto
    then have "ledger h p (t1 @ t2) [] s (fst (drain_loop u p now True s'))" by (rule ledger_append [OF l _ left [OF True]])
    then show ?thesis using t True by (subst drain_loop.simps) auto
  next
    case False
    then have "fst (drain_loop u p now any s) = s'" using t by (subst drain_loop.simps) (auto split: res.split drain.split)
    then show ?thesis using l by metis
  qed
qed

lemma ledger_deliverables:
  assumes "history_kept h u p" "wf_store (us_store s)"
  shows "\<exists>taken. ledger h p taken [] s (fst (drain_deliverables u p s))"
proof -
  obtain s1 now where 1: "now_of u s = (s1, Ok now)" by (cases "up_now u (us_env s)") (simp add: now_of_def in_env_def)
  have s1: "us_store s1 = us_store s" using 1 by (auto simp: now_of_def in_env_def split: prod.splits)
  have h1: "h (us_env s1) = h (us_env s)" using replayless_now [OF assms(1)] 1 unfolding replayless_def by (metis fst_conv)
  obtain taken where "ledger h p taken [] s1 (fst (drain_loop u p now False s1))"
    using ledger_drain_loop [OF assms(1), of s1 now False] assms(2) s1 by auto
  then have "ledger h p taken [] s (fst (drain_loop u p now False s1))" by (simp add: ledger_def s1 h1)
  then show ?thesis using 1 by (auto simp: drain_deliverables_def)
qed

text \<open>What adds rows and dead letters and replays nothing extends the ledger.\<close>

lemma ledger_extend:
  assumes "ledger h p taken [] s t" "only_adds t s'" "h (us_env s') = h (us_env t)"
  shows "\<exists>others. ledger h p taken others s s'"
proof -
  obtain xs where xs: "st_dead (us_store s') = st_dead (us_store t) @ xs"
    and q: "set (st_queue (us_store t)) \<subseteq> set (st_queue (us_store s'))" using assms(2) by (auto simp: only_adds_def)
  have "ledger h p taken xs s s'"
    using assms(1,3) xs q unfolding ledger_def Let_def by (auto split: prod.splits) blast+
  then show ?thesis ..
qed

text \<open>C3: no queued delivery is lost.  With a history of the replays kept by the environment, every row
  of the retry queue is, after a pump of its pipeline, untouched in the queue, or it was taken and its
  payload replayed in this very pump, one replay for one row and no other replay; and then the answer
  to its own replay decides: "later" put it back, one attempt older and otherwise the same; "never", or
  "later" at the last attempt, wrote a new dead letter of this payload, one for each such row and in
  their order; only a row that was acknowledged, or whose replay raised and ended the pump, may be gone
  without either.\<close>

theorem no_queued_row_lost:
  assumes "history_kept h u p" "wf_store (us_store s)"
  shows "\<exists>taken others. ledger h p taken others s (fst (pump_one u p s))"
proof -
  obtain s1 ok where 1: "may_send u p s = (s1, Ok ok)" using may_send_Ok by metis
  have s1: "us_store s1 = us_store s" "h (us_env s1) = h (us_env s)"
    using may_send_store [of u p s] replayless_may_send [OF assms(1)] 1 unfolding replayless_def by (metis fst_conv)+
  have start: "ledger h p t xs s s'" if "ledger h p t xs s1 s'" for t xs s' using that by (simp add: ledger_def s1)
  obtain s2 r where 2: "drain_deliverables u p s1 = (s2, r)" by fastforce
  obtain taken where l: "ledger h p taken [] s s2"
    using ledger_deliverables [OF assms(1), of s1] assms(2) s1(1) 2 start by auto
  have ext: "\<exists>others. ledger h p taken others s s'" if "only_adds s2 s'" "h (us_env s') = h (us_env s2)" for s'
    using ledger_extend [OF l that] .
  have src: "only_adds s2 (fst (drain_source u p s2))" "h (us_env (fst (drain_source u p s2))) = h (us_env s2)"
    using oas.rel_source_loop replayless_source_loop [OF assms(1)] by (simp_all add: drain_source_def)
  have "fst (pump_one u p s) \<in> {s1, s2, fst (drain_source u p s2)}"
    using 1 2 by (cases r) (auto simp: pump_one_def bind_p_def count_p_def split: prod.splits res.splits)
  moreover have "ledger h p [] [] s s1" by (simp add: ledger_def s1)
  ultimately show ?thesis using l ext [OF src] by (elim insertE) (blast | simp)+
qed

end
