(* ===== verification/PumpEquiv.thy ===== *)
theory PumpEquiv
  imports PumpRetry
begin

text \<open>
  First attempts, retries and what they amount to: a failed attempt parks the batch and moves no
  send record; the acknowledgement of the retry then does what the first attempt's would have
  done; a failing destination is probed once per pump; the attempts of a row are bounded.
\<close>

subsection \<open>A failed first attempt\<close>

lemma enqueue_new:
  assumes "\<forall>q \<in> set (st_queue st). dl_pipeline q = dl_pipeline d \<longrightarrow> dl_cursor_after q \<noteq> dl_cursor_after d"
  shows "enqueue_deliverable d st = (st_next_id st,
       st\<lparr>st_queue := st_queue st @ [d\<lparr>dl_id := st_next_id st, dl_attempts := 0\<rparr>],
          st_next_id := st_next_id st + 1\<rparr>)"
proof -
  have "filter (\<lambda>r. dl_pipeline r = dl_pipeline d \<and> dl_cursor_after r = dl_cursor_after d) (st_queue st) = []"
    using assms by (auto simp: filter_empty_conv)
  then show ?thesis by (simp add: enqueue_deliverable_def)
qed

definition parked_row :: "'e pipeline \<Rightarrow> batch \<Rightarrow> bytes \<Rightarrow> rat \<Rightarrow> nat \<Rightarrow> deliverable" where
  "parked_row p b payload now i = (queued_row p b payload now)\<lparr>dl_id := i\<rparr>"

lemma handle_first_retry_later:
  assumes "oc_kind oc = ''retry_later''"
    and "\<forall>e. \<exists>e'. tr_serialize (pi_transport p) b e = (e', Ok payload)"
    and "\<forall>q \<in> set (st_queue (us_store s)). dl_pipeline q = pi_name p \<longrightarrow> dl_cursor_after q \<noteq> bt_cursor_after b"
    and "handle_first_attempt u p b oc now s = (s', r)"
  shows "r = Ok () \<and> st_marks (us_store s') = st_marks (us_store s)
    \<and> st_queue (us_store s') = st_queue (us_store s)
        @ [parked_row p b payload now (st_next_id (us_store s))]
    \<and> st_next_id (us_store s') = st_next_id (us_store s) + 1
    \<and> st_dead (us_store s') = st_dead (us_store s) \<and> st_in_txn (us_store s') = st_in_txn (us_store s)"
proof -
  obtain s1 where 1: "fst (in_env (up_on_batch u p b oc) s) = s1" "us_store s1 = us_store s"
    using in_env_store by blast
  obtain e' where "tr_serialize (pi_transport p) b (us_env s1) = (e', Ok payload)"
    using assms(2) by blast
  then have 2: "in_env (tr_serialize (pi_transport p) b) s1 = (s1\<lparr>us_env := e'\<rparr>, Ok payload)"
    by (simp add: in_env_def)
  have 3: "enqueue_deliverable (queued_row p b payload now) (us_store s) =
      (st_next_id (us_store s), us_store s\<lparr>st_queue := st_queue (us_store s)
          @ [parked_row p b payload now (st_next_id (us_store s))],
        st_next_id := st_next_id (us_store s) + 1\<rparr>)"
    using assms(3) by (subst enqueue_new) (simp_all add: queued_row_def parked_row_def)
  show ?thesis
    using assms(1,4) by (auto simp: handle_first_attempt_def Let_def 1 2 3)
qed

text \<open>A failed first attempt parks the batch.  When the transport answers "later", no send
  record moves and nothing is dead-lettered; the queue gains exactly one row, due after the
  first backoff, which carries what an acknowledgement will need (the batch's cursor, its
  commit token and the payload to replay).\<close>

theorem failed_first_attempt_parks:
  assumes "\<forall>e. \<exists>e'. tr_serialize (pi_transport p) b e = (e', Ok payload)"
    and "\<forall>q \<in> set (st_queue (us_store s)). dl_pipeline q = pi_name p \<longrightarrow> dl_cursor_after q \<noteq> bt_cursor_after b"
  shows "let (s', r) = handle_first_attempt u p b (retry_later reason) now s; st = us_store s; st' = us_store s' in
    r = Ok () \<and> st_marks st' = st_marks st \<and> st_dead st' = st_dead st
    \<and> (\<exists>row. st_queue st' = st_queue st @ [row] \<and> dl_payload row = payload \<and> dl_attempts row = 0
        \<and> dl_cursor_after row = bt_cursor_after b \<and> dl_commit_token row = bt_commit_token b
        \<and> dl_next_attempt_at row = iso (now + delay_for (pi_retry p) 0)
        \<and> deliverable_key p row = pipe_key p)"
proof -
  obtain s' r where h: "handle_first_attempt u p b (retry_later reason) now s = (s', r)" by fastforce
  note q = handle_first_retry_later [OF _ assms h]
  show ?thesis
    using q unfolding h Let_def prod.case
    by (auto simp: retry_later_def parked_row_def queued_row_def deliverable_key_def pipe_key_def or_else_def)
qed

subsection \<open>The acknowledgement of a retry\<close>

lemma advance_stored_cong:
  assumes "st_marks st = st_marks st2" "st_in_txn st = st_in_txn st2"
  shows "stored_cursor (fst (advance_cursor k c t f tick st)) k'
    = stored_cursor (fst (advance_cursor k c t2 f tick2 st2)) k'"
proof -
  have m: "find_mark st k'' = find_mark st2 k''" and sc: "stored_cursor st k'' = stored_cursor st2 k''" for k''
    using assms(1) by (simp_all add: find_mark_def stored_cursor_def)
  show ?thesis
    using m sc assms(2)
    by (simp add: advance_cursor_def advance_in_txn_def split: option.split res.split prod.split)
qed

lemma record_stored [simp]: "stored_cursor (record_attempt a l st) k = stored_cursor st k"
  by (rule stored_cursor_marks) simp

lemma acked_first_cursor:
  assumes "oc_kind oc = ''acked''"
  shows "stored_cursor (us_store (fst (handle_first_attempt u p b oc now s))) k
    = stored_cursor (fst (advance_cursor (pipe_key p) (bt_cursor_after b) (iso now)
        (is_after_for (pi_source p)) (Raise e) (us_store s))) k"
    and "st_queue (us_store (fst (handle_first_attempt u p b oc now s))) = st_queue (us_store s)"
proof -
  let ?s = "fst (in_env (up_on_batch u p b oc) s)"
  obtain s1 r1 where 1: "advance_record u p (pipe_key p) (bt_cursor_after b) (iso now) ?s = (s1, r1)" by fastforce
  have c1: "stored_cursor (us_store s1) k = stored_cursor (fst (advance_cursor (pipe_key p) (bt_cursor_after b)
      (iso now) (is_after_for (pi_source p)) (Raise e) (us_store s))) k"
    using advance_record_store [of u p "pipe_key p" "bt_cursor_after b" "iso now" ?s] 1
    by (simp add: advance_stored_cong [of "us_store s" "us_store s"])
  have q1: "st_queue (us_store s1) = st_queue (us_store s)"
    using advance_record_queue [of u p "pipe_key p" "bt_cursor_after b" "iso now" ?s] 1 by simp
  obtain s2 r2 where 2: "in_env (so_commit (pi_source p) (bt_commit_token b)) s1 = (s2, r2)" by fastforce
  have 3: "us_store s2 = us_store s1"
    using in_env_store [of "so_commit (pi_source p) (bt_commit_token b)" s1] 2 by simp
  show "stored_cursor (us_store (fst (handle_first_attempt u p b oc now s))) k
    = stored_cursor (fst (advance_cursor (pipe_key p) (bt_cursor_after b) (iso now)
        (is_after_for (pi_source p)) (Raise e) (us_store s))) k"
    and "st_queue (us_store (fst (handle_first_attempt u p b oc now s))) = st_queue (us_store s)"
    using assms 1 2 3 c1 q1 by (cases r1; cases r2; simp add: handle_first_attempt_def Let_def)+
qed

lemma acked_replay_cursor:
  assumes "oc_kind oc = ''acked''" "dl_cursor_after d \<noteq> []"
  shows "stored_cursor (us_store (fst (handle_outcome u p d oc now s))) k
    = stored_cursor (fst (advance_cursor (deliverable_key p d) (dl_cursor_after d) (iso now)
        (is_after_for (pi_source p)) (Raise e) (us_store s))) k"
    and "st_queue (us_store (fst (handle_outcome u p d oc now s))) = st_queue (us_store s)"
proof -
  obtain s1 r1 where 1: "advance_record u p (deliverable_key p d) (dl_cursor_after d) (iso now) s = (s1, r1)"
    by fastforce
  have c1: "stored_cursor (us_store s1) k = stored_cursor (fst (advance_cursor (deliverable_key p d)
      (dl_cursor_after d) (iso now) (is_after_for (pi_source p)) (Raise e) (us_store s))) k"
    using advance_record_store [of u p "deliverable_key p d" "dl_cursor_after d" "iso now" s] 1
    by (simp add: advance_stored_cong [of "us_store s" "us_store s"])
  obtain s2 r2 where 2: "in_env (so_commit (pi_source p) (dl_commit_token d)) s1 = (s2, r2)" by fastforce
  have 3: "us_store s2 = us_store s1"
    using in_env_store [of "so_commit (pi_source p) (dl_commit_token d)" s1] 2 by simp
  show "stored_cursor (us_store (fst (handle_outcome u p d oc now s))) k
    = stored_cursor (fst (advance_cursor (deliverable_key p d) (dl_cursor_after d) (iso now)
        (is_after_for (pi_source p)) (Raise e) (us_store s))) k"
    using assms 1 2 3 c1 by (cases r1; cases r2; simp add: handle_outcome_def Let_def)
  show "st_queue (us_store (fst (handle_outcome u p d oc now s))) = st_queue (us_store s)"
    using handle_outcome_queue [of oc s u p d now] assms(1) by (simp add: same_queue_def)
qed

lemma min_by_singleton: "min_by k [x] = Some x"
  by simp

text \<open>C2: an acknowledgement that comes on the retry is worth one that comes at once.  Take a
  pipeline with nothing queued and a batch.  Ship it and let the transport acknowledge; or let it
  fail, wait until the retry is due, and let the replay be acknowledged.  The second way the
  popped row is the batch's (its payload and commit token), every send record of the store holds
  the same cursor as the first way, and the queue is as it was before.\<close>

theorem retry_ack_as_first_ack:
  assumes "wf_store (us_store s)" and "\<forall>q \<in> set (st_queue (us_store s)). dl_pipeline q \<noteq> pi_name p"
    and "\<forall>e. \<exists>e'. tr_serialize (pi_transport p) b e = (e', Ok payload)"
    and "bt_cursor_after b \<noteq> []" and "iso (now + delay_for (pi_retry p) 0) \<le> iso later"
    and "first = fst (handle_first_attempt u p b acked now s)"
    and "failed = fst (handle_first_attempt u p b (retry_later reason) now s)"
  shows "\<exists>d popped. pop_p (pi_name p) (iso later) failed = (popped, Ok (Some d))
    \<and> dl_payload d = payload \<and> dl_commit_token d = bt_commit_token b
    \<and> (let retried = fst (handle_outcome u p d acked later popped) in
        (\<forall>k. stored_cursor (us_store retried) k = stored_cursor (us_store first) k)
        \<and> st_queue (us_store retried) = st_queue (us_store s))"
proof -
  let ?d = "parked_row p b payload now (st_next_id (us_store s))"
  obtain r where h: "handle_first_attempt u p b (retry_later reason) now s = (failed, r)"
    using assms(7) by (metis prod.collapse)
  have fq: "\<forall>q \<in> set (st_queue (us_store s)). dl_pipeline q = pi_name p \<longrightarrow> dl_cursor_after q \<noteq> bt_cursor_after b"
    using assms(2) by blast
  have "oc_kind (retry_later reason) = ''retry_later''" by (simp add: retry_later_def)
  note f = handle_first_retry_later [OF this assms(3) fq h]
  have "filter (\<lambda>q. dl_pipeline q = pi_name p \<and> dl_next_attempt_at q \<le> iso later) (st_queue (us_store s)) = []"
    using assms(2) by (auto simp: filter_empty_conv)
  then have due: "due_rows (pi_name p) (iso later) (us_store failed) = [?d]"
    using f assms(5) by (simp add: due_rows_def parked_row_def queued_row_def)
  have keep: "filter (\<lambda>q. dl_id q \<noteq> st_next_id (us_store s)) (st_queue (us_store s)) = st_queue (us_store s)"
    using assms(1) by (intro filter_True) (auto simp: wf_store_def)
  define popped where "popped = failed\<lparr>us_store := (us_store failed)\<lparr>st_queue := st_queue (us_store s)\<rparr>\<rparr>"
  have pop: "pop_p (pi_name p) (iso later) failed = (popped, Ok (Some ?d))"
    using f keep by (simp add: pop_p_def pop_due_def due popped_def parked_row_def)
  have kind: "oc_kind acked = ''acked''" by (simp add: acked_def)
  have key: "deliverable_key p ?d = pipe_key p" and cur: "dl_cursor_after ?d = bt_cursor_after b"
    by (simp_all add: parked_row_def queued_row_def deliverable_key_def pipe_key_def or_else_def)
  have "stored_cursor (us_store (fst (handle_outcome u p ?d acked later popped))) k
      = stored_cursor (us_store first) k" for k
  proof -
    have "stored_cursor (us_store (fst (handle_outcome u p ?d acked later popped))) k
        = stored_cursor (fst (advance_cursor (pipe_key p) (bt_cursor_after b) (iso later)
            (is_after_for (pi_source p)) (Raise undefined) (us_store popped))) k"
      using acked_replay_cursor(1) [OF kind, of ?d u p later popped k undefined] assms(4)
      unfolding key cur by simp
    also have "\<dots> = stored_cursor (fst (advance_cursor (pipe_key p) (bt_cursor_after b) (iso now)
            (is_after_for (pi_source p)) (Raise undefined) (us_store s))) k"
      using f by (intro advance_stored_cong) (simp_all add: popped_def)
    also have "\<dots> = stored_cursor (us_store first) k"
      unfolding assms(6) by (rule acked_first_cursor(1) [OF kind, symmetric])
    finally show ?thesis .
  qed
  moreover have "st_queue (us_store (fst (handle_outcome u p ?d acked later popped))) = st_queue (us_store s)"
    using acked_replay_cursor(2) [OF kind, of ?d u p later popped] assms(4) cur by (simp add: popped_def)
  ultimately show ?thesis
    using pop by (intro exI [of _ ?d] exI [of _ popped])
      (simp add: Let_def parked_row_def queued_row_def)
qed

subsection \<open>Attempts are bounded\<close>

definition attempts_below :: "'e pipeline \<Rightarrow> store \<Rightarrow> bool" where
  "attempts_below p st \<longleftrightarrow> (\<forall>d \<in> set (st_queue st). dl_pipeline d = pi_name p
     \<longrightarrow> dl_attempts d < rp_max_attempts (pi_retry p))"

definition bound_rel :: "'e pipeline \<Rightarrow> 'e ustate \<Rightarrow> 'e ustate \<Rightarrow> bool" where
  "bound_rel p s s' \<longleftrightarrow> (attempts_below p (us_store s) \<longrightarrow> attempts_below p (us_store s'))"

interpretation br: step_relation "bound_rel p" for p
  by standard (auto simp: bound_rel_def)

lemma bound_queue:
  "set (st_queue (us_store s')) \<subseteq> set (st_queue (us_store s)) \<Longrightarrow> bound_rel p s s'"
  by (auto simp: bound_rel_def attempts_below_def)

lemma bound_steps [simp]:
  "bound_rel p s (fst (advance_record u p' k c t s))" "bound_rel p s (fst (record_p p' ts oc n b err s))"
  "bound_rel p s (fst (on_store (send_to_dead_letter t q pl e) s))" "bound_rel p s (fst (pop_p q now s))"
  by (auto intro!: bound_queue simp: pop_p_def pop_due_def split: prod.splits option.splits)

lemma bound_requeue:
  "dl_attempts d < rp_max_attempts (pi_retry p) \<Longrightarrow> bound_rel p s (fst (requeue_p d s))"
  by (auto simp: bound_rel_def attempts_below_def requeue_p_def requeue_deliverable_def set_insort_key
      split: res.split)

lemma bound_enqueue:
  "0 < rp_max_attempts (pi_retry p) \<Longrightarrow> bound_rel p s (fst (on_store (snd \<circ> enqueue_deliverable d) s))"
  by (auto simp: bound_rel_def attempts_below_def enqueue_deliverable_def split: list.split)

lemma bound_turn: "bound_rel p s (fst (drain_turn u p now s))"
proof -
  have "bound_rel p s (fst (handle_outcome u p d oc now s))" for d oc s
    unfolding handle_outcome_def Let_def
    by (auto intro!: br.step_bind bound_requeue simp del: prog_apply record_p_apply)
  then show ?thesis
    unfolding drain_turn_def
    by (auto intro!: br.step_bind split: option.split simp del: prog_apply)
qed

lemma bound_ship:
  assumes "0 < rp_max_attempts (pi_retry p)"
  shows "bound_rel p s (fst (ship_one u p b s))"
proof -
  have "bound_rel p s3 (fst (handle_first_attempt u p b oc now s3))" for s3 oc now
  proof -
    let ?s = "fst (in_env (up_on_batch u p b oc) s3)"
    have "bound_rel p ?s (fst (handle_first_attempt u p b oc now s3))"
      unfolding handle_first_attempt_def Let_def
      by (auto intro!: br.step_bind bound_enqueue assms simp del: prog_apply record_p_apply)
    then show ?thesis by (rule br.R_trans [rotated]) simp
  qed
  then show ?thesis
    unfolding ship_one_def by (auto intro!: br.step_bind simp del: prog_apply)
qed

text \<open>C6: no row is retried for ever.  With a positive attempt limit, a queue whose rows of this
  pipeline are all below the limit stays so over any number of pumps: the failing replay that
  would reach the limit makes the row a dead letter instead.\<close>

theorem attempts_stay_below_limit:
  assumes "0 < rp_max_attempts (pi_retry p)" "attempts_below p (us_store s)"
  shows "attempts_below p (us_store (fst (pump_until_idle u inl [p] n k s)))"
proof -
  have "pump_relation (bound_rel p) u p"
    by standard (simp_all add: bound_turn bound_ship [OF assms(1)])
  then have "bound_rel p s (fst (pump_until_idle u inl [p] n k s))"
    by (intro br.rel_pump_until_idle) (auto intro: pump_relation.rel_pump_one)
  then show ?thesis using assms(2) by (simp add: bound_rel_def)
qed

subsection \<open>One probe of a failing destination\<close>

text \<open>The transport's replays all fail: each answers "later", or raises.\<close>

definition failing :: "'e pipeline \<Rightarrow> bool" where
  "failing p \<longleftrightarrow> (\<forall>payload e. case snd (tr_replay (pi_transport p) payload e) of
     Raise _ \<Rightarrow> True | Ok oc \<Rightarrow> oc_kind oc = ''retry_later'')"

lemma failing_turn:
  assumes "failing p" "drain_turn u p now s = (s', Ok r)"
  shows "r \<noteq> Again"
proof
  assume r: "r = Again"
  from assms(2) [unfolded r] have "\<exists>s2 (d :: deliverable) s3 oc.
      in_env (tr_replay (pi_transport p) (dl_payload d)) s2 = (s3, Ok oc) \<and> oc_kind oc \<noteq> ''retry_later''"
    unfolding drain_turn_def
    by (auto simp: bind_p_Ok count_p_def split: if_splits option.splits)
  then obtain s2 s3 oc and d :: deliverable where
    "in_env (tr_replay (pi_transport p) (dl_payload d)) s2 = (s3, Ok oc)" and
    k: "oc_kind oc \<noteq> ''retry_later''" by blast
  then obtain e where "tr_replay (pi_transport p) (dl_payload d) (us_env s2) = (e, Ok oc)"
    by (auto simp: in_env_Ok)
  moreover have "case snd (tr_replay (pi_transport p) (dl_payload d) (us_env s2)) of
      Raise _ \<Rightarrow> True | Ok oc \<Rightarrow> oc_kind oc = ''retry_later''"
    using assms(1) unfolding failing_def by blast
  ultimately show False using k by simp
qed

lemma failing_loop:
  assumes "failing p"
  shows "fst (drain_loop u p now any s) = fst (drain_turn u p now s)"
proof -
  obtain s' r where t: "drain_turn u p now s = (s', r)" by fastforce
  then have "r \<noteq> Ok Again" using failing_turn [OF assms, of u now s s'] by auto
  then show ?thesis
    using t by (subst drain_loop.simps) (auto split: res.split drain.split)
qed

text \<open>The rows of the queue before that are not in the queue after, as they were.\<close>

definition rows_touched :: "store \<Rightarrow> store \<Rightarrow> nat" where
  "rows_touched st st' = size (mset (st_queue st) - mset (st_queue st'))"

definition grow_rel :: "'e ustate \<Rightarrow> 'e ustate \<Rightarrow> bool" where
  "grow_rel s s' \<longleftrightarrow> mset (st_queue (us_store s)) \<subseteq># mset (st_queue (us_store s'))"

interpretation gq: step_relation grow_rel
  by standard (auto simp: grow_rel_def intro: subset_mset.order_trans)

lemma grow_steps [simp]:
  "grow_rel s (fst (advance_record u p k c t s))" "grow_rel s (fst (record_p p ts oc n b err s))"
  "grow_rel s (fst (on_store (send_to_dead_letter t q pl e) s))" "grow_rel s (fst (requeue_p d s))"
  "grow_rel s (fst (on_store (snd \<circ> enqueue_deliverable d) s))"
  by (auto simp: grow_rel_def requeue_p_def requeue_deliverable_def enqueue_deliverable_def
      split: res.split list.split)

lemma grow_handle_outcome [simp]: "grow_rel s (fst (handle_outcome u p d oc now s))"
  unfolding handle_outcome_def Let_def
  by (auto intro!: gq.step_bind simp del: prog_apply record_p_apply)

lemma grow_ship: "grow_rel s (fst (ship_one u p b s))"
proof -
  have "grow_rel s3 (fst (handle_first_attempt u p b oc now s3))" for s3 oc now
  proof -
    let ?s = "fst (in_env (up_on_batch u p b oc) s3)"
    have "grow_rel ?s (fst (handle_first_attempt u p b oc now s3))"
      unfolding handle_first_attempt_def Let_def
      by (auto intro!: gq.step_bind simp del: prog_apply record_p_apply)
    then show ?thesis by (rule gq.R_trans [rotated]) simp
  qed
  then show ?thesis
    unfolding ship_one_def by (auto intro!: gq.step_bind simp del: prog_apply)
qed

interpretation gqs: ship_relation grow_rel u p for u p
  by standard (rule grow_ship)

lemma turn_touches_one:
  assumes "wf_store (us_store s)"
  shows "rows_touched (us_store s) (us_store (fst (drain_turn u p now s))) \<le> 1"
proof -
  obtain s1 ok where 1: "may_send u p s = (s1, Ok ok)" using may_send_Ok by metis
  have s1: "us_store s1 = us_store s" using may_send_store [of u p s] 1 by simp
  obtain s2 nd where 2: "pop_p (pi_name p) (iso now) s1 = (s2, Ok nd)"
    by (cases "pop_due (pi_name p) (iso now) (us_store s1)") (simp add: pop_p_def)
  have pd: "pop_due (pi_name p) (iso now) (us_store s) = (nd, us_store s2)"
    using 2 s1 by (auto simp: pop_p_def split: prod.splits)
  show ?thesis
  proof (cases "ok \<and> nd \<noteq> None")
    case False
    have "us_store s2 = us_store s" if "nd = None" using pd that rq.pop_None assms by metis
    then have "us_store (fst (drain_turn u p now s)) = us_store s"
      using False 1 2 s1 unfolding drain_turn_def by (cases ok) auto
    then show ?thesis by (simp add: rows_touched_def)
  next
    case True
    then obtain d where d: "nd = Some d" by auto
    have q: "mset (st_queue (us_store s2)) = mset (st_queue (us_store s)) - {#d#}"
        "d \<in># mset (st_queue (us_store s))"
      using rq.pop_Some [OF assms pd [unfolded d]] by simp_all
    have "grow_rel s2 (fst (drain_turn u p now s))"
      using 1 2 d True unfolding drain_turn_def
      by (auto intro!: gq.step_bind simp del: prog_apply)
    then have "mset (st_queue (us_store s)) - mset (st_queue (us_store (fst (drain_turn u p now s))))
        \<subseteq># {#d#}"
      using q by (metis grow_rel_def subset_eq_diff_conv insert_DiffM2 mset_subset_eq_mono_add_right_cancel
          subset_mset.add_mono subset_mset.order_refl union_commute)
    then show ?thesis unfolding rows_touched_def by (metis size_mset_mono size_single)
  qed
qed

text \<open>C5: a failing destination is probed once per pump.  When every replay of the transport
  fails, a whole pump of the pipeline changes or removes at most one row of the retry queue,
  however many are due.\<close>

theorem one_probe_per_pump:
  assumes "failing p" "wf_store (us_store s)"
  shows "rows_touched (us_store s) (us_store (fst (pump_one u p s))) \<le> 1"
proof -
  have shrink: "rows_touched (us_store a) (us_store c) \<le> rows_touched (us_store a) (us_store b)"
    if "grow_rel b c" for a b c :: "'a ustate"
    using that unfolding rows_touched_def grow_rel_def
    by (intro size_mset_mono mset_subset_eqI)
       (simp add: mset_subset_eq_count diff_le_mono2)
  obtain s1 ok where 1: "may_send u p s = (s1, Ok ok)" using may_send_Ok by metis
  have s1: "us_store s1 = us_store s" using may_send_store [of u p s] 1 by simp
  show ?thesis
  proof (cases ok)
    case False
    then show ?thesis using 1 s1 by (simp add: pump_one_def rows_touched_def)
  next
    case True
    obtain s2 now where 2: "now_of u s1 = (s2, Ok now)"
      by (cases "up_now u (us_env s1)") (simp add: now_of_def in_env_def)
    have s2: "us_store s2 = us_store s"
      using in_env_store [of "\<lambda>e. case up_now u e of (e', t) \<Rightarrow> (e', Ok t)" s1] s1
      by (simp add: 2 [unfolded now_of_def])
    obtain s3 r where 3: "drain_loop u p now False s2 = (s3, r)" by fastforce
    have "rows_touched (us_store s2) (us_store s3) \<le> 1"
      using failing_loop [OF assms(1), of u now False s2] turn_touches_one [of s2 u p now] 3 assms(2) s2
      by simp
    moreover have "grow_rel s3 (fst (pump_one u p s))"
      using 1 2 3 True unfolding pump_one_def drain_source_def drain_deliverables_def
      by (cases r) (auto intro!: gq.step_bind gqs.rel_source_loop simp del: prog_apply)
    ultimately show ?thesis using shrink [of s3 _ s2] s2 by (metis order_trans)
  qed
qed

subsection \<open>A failing first attempt stops the drain\<close>

definition rows :: "'e ustate \<Rightarrow> nat" where "rows s = length (st_queue (us_store s))"

definition more_rel :: "'e ustate \<Rightarrow> 'e ustate \<Rightarrow> bool" where
  "more_rel s s' \<longleftrightarrow> rows s' = rows s"

lemma rows_env [simp]: "rows (fst (in_env f s)) = rows s"
  by (simp add: rows_def)

lemma rows_may_send: "may_send u p s = (s', r) \<Longrightarrow> rows s' = rows s"
  using may_send_store [of u p s] by (simp add: rows_def)

lemma rows_in_env: "in_env f s = (s', r) \<Longrightarrow> rows s' = rows s"
  using in_env_store [of f s] by (simp add: rows_def)

lemma enqueue_rows: "length (st_queue (snd (enqueue_deliverable d st))) \<le> length (st_queue st) + 1"
  by (simp add: enqueue_deliverable_def split: list.split)

lemma first_attempt_rows:
  "rows (fst (handle_first_attempt u p b oc now s)) \<le> rows s + 1
   \<and> (oc_kind oc \<noteq> ''retry_later'' \<longrightarrow> rows (fst (handle_first_attempt u p b oc now s)) = rows s)"
proof -
  let ?s = "fst (in_env (up_on_batch u p b oc) s)"
  have same: "same_queue ?s (fst (handle_first_attempt u p b oc now s))" if "oc_kind oc \<noteq> ''retry_later''"
    using that unfolding handle_first_attempt_def Let_def
    by (auto intro!: sq.step_bind simp del: prog_apply record_p_apply)
  have eq: "rows (fst (handle_first_attempt u p b oc now s)) = rows s" if "oc_kind oc \<noteq> ''retry_later''"
    using same [OF that] by (simp add: same_queue_def rows_def)
  show ?thesis
  proof (cases "oc_kind oc = ''retry_later''")
    case True
    obtain s2 r where 2: "in_env (tr_serialize (pi_transport p) b) ?s = (s2, r)" by fastforce
    have s2: "us_store s2 = us_store s"
      using in_env_store [of "tr_serialize (pi_transport p) b" ?s] by (simp add: 2)
    show ?thesis
      using True 2 s2 enqueue_rows [of _ "us_store s"]
      by (cases r) (simp_all add: handle_first_attempt_def Let_def rows_def)
  qed (simp add: eq)
qed

lemma ship_one_rows:
  assumes "ship_one u p b s = (s', r)"
  shows "rows s' \<le> rows s + 1 \<and> (\<forall>oc. r = Ok oc \<longrightarrow> succeeded oc \<longrightarrow> rows s' = rows s)"
proof -
  obtain s1 r1 where 1: "in_env (tr_ship (pi_transport p) b) s = (s1, r1)" by fastforce
  show ?thesis
  proof (cases r1)
    case (Ok oc)
    obtain s2 r2 where 2: "now_of u s1 = (s2, r2)" by fastforce
    have e: "rows s2 = rows s"
      using rows_in_env [OF 1] rows_in_env [OF 2 [unfolded now_of_def]] by simp
    show ?thesis
    proof (cases r2)
      case (Ok now)
      obtain s3 r3 where 3: "handle_first_attempt u p b oc now s2 = (s3, r3)" by fastforce
      have "succeeded oc \<Longrightarrow> oc_kind oc \<noteq> ''retry_later''" by (auto simp: succeeded_def)
      then show ?thesis
        using first_attempt_rows [of u p b oc now s2] assms 1 2 3 e \<open>r1 = Ok oc\<close> Ok
        unfolding ship_one_def by (cases r3) auto
    qed (use assms 1 2 e \<open>r1 = Ok oc\<close> in \<open>auto simp: ship_one_def\<close>)
  qed (use assms 1 rows_in_env [OF 1] in \<open>auto simp: ship_one_def\<close>)
qed

lemma ship_batches_rows:
  "ship_batches u p gs shipped any progressed s = (s', r)
    \<Longrightarrow> rows s' \<le> rows s + 1 \<and> (\<forall>n a. r = Ok (More n a) \<longrightarrow> rows s' = rows s)"
proof (induction gs arbitrary: shipped any progressed s)
  case (Cons g gs)
  obtain s1 r1 where 1: "in_env g s = (s1, r1)" by fastforce
  show ?case
  proof (cases r1)
    case (Raise e)
    then show ?thesis using Cons.prems 1 rows_in_env [OF 1] by auto
  next
    case r1: (Ok b)
    obtain s2 ok where 2: "may_send u p s1 = (s2, Ok ok)" using may_send_Ok by metis
    obtain s3 r3 where 3: "ship_one u p b s2 = (s3, r3)" by fastforce
    have e: "rows s1 = rows s" "rows s2 = rows s"
      using rows_in_env [OF 1] rows_may_send [OF 2] by simp_all
    note sh = ship_one_rows [OF 3] and IH = Cons.IH
    show ?thesis
    proof (cases "bt_records b = [] \<or> \<not> ok")
      case True
      then show ?thesis
        using Cons.prems 1 r1 2 e IH [of shipped any progressed s1]
        by (cases "bt_records b = []") auto
    next
      case False
      then show ?thesis
        using Cons.prems 1 r1 2 3 e sh IH [of "shipped + batch_len b" True True s3]
        by (cases r3) (auto split: if_splits option.splits)
    qed
  qed
qed auto

lemma source_pass_rows:
  assumes "source_pass u p shipped any s = (s', r)"
  shows "rows s' \<le> rows s + 1 \<and> (\<forall>n a. r = Ok (More n a) \<longrightarrow> rows s' = rows s)"
proof -
  obtain s1 ok where 1: "may_send u p s = (s1, Ok ok)" using may_send_Ok by metis
  have e1: "rows s1 = rows s" using rows_may_send [OF 1] .
  show ?thesis
  proof (cases "ok \<and> is_ok (get_cursor (us_store s1) (pipe_key p))")
    case True
    then obtain c where c: "get_cursor (us_store s1) (pipe_key p) = Ok c"
      by (cases "get_cursor (us_store s1) (pipe_key p)") auto
    obtain s2 r2 where 2: "in_env (so_iter (pi_source p) c (fetch_limit p)) s1 = (s2, r2)" by fastforce
    show ?thesis
    proof (cases r2)
      case (Ok gs)
      then have "ship_batches u p gs shipped any False s2 = (s', r)"
        using assms True 1 2 c by (simp add: source_pass_def get_cursor_p_def bind_p_def)
      from ship_batches_rows [OF this] rows_in_env [OF 2] e1 show ?thesis by simp
    qed (use assms True 1 2 c e1 rows_in_env [OF 2] in
        \<open>auto simp: source_pass_def get_cursor_p_def bind_p_def\<close>)
  next
    case False
    then show ?thesis
      using assms 1 e1 unfolding source_pass_def
      by (cases ok; cases "get_cursor (us_store s1) (pipe_key p)")
         (auto simp: get_cursor_p_def bind_p_def)
  qed
qed

lemma source_loop_rows: "rows (fst (source_loop u p shipped any s)) \<le> rows s + 1"
proof (induction u p shipped any s rule: source_loop.induct)
  case (1 u p shipped any s)
  obtain s' r where t: "source_pass u p shipped any s = (s', r)" by fastforce
  note sp = source_pass_rows [OF t]
  show ?case
  proof (cases "under_budget p shipped \<and> (\<exists>n a. r = Ok (More n a))")
    case True
    then obtain n a where r: "r = Ok (More n a)" by auto
    then have "rows (fst (source_loop u p n a s')) \<le> rows s' + 1" using 1 t True by simp
    moreover have "rows s' = rows s" using sp r by blast
    ultimately show ?thesis using t r True by (subst source_loop.simps) simp
  next
    case False
    then show ?thesis using t sp by (subst source_loop.simps) (auto split: res.split pass.split)
  qed
qed

text \<open>The drain cannot storm the queue.  However many batches a source offers and however
  large the pipeline's record budget, draining it once adds at most one row to the retry queue:
  the first attempt that fails ends the drain.\<close>

theorem drain_queues_at_most_one:
  "length (st_queue (us_store (fst (drain_source u p s)))) \<le> length (st_queue (us_store s)) + 1"
  using source_loop_rows [of u p 0 False s] by (simp add: drain_source_def rows_def)

subsection \<open>All pipelines\<close>

lemma pump_all_eq:
  "pump_all u ps s = (fold (\<lambda>p s. fst (pump_one u p s)) ps s, snd (pump_all u ps s))
    \<and> length (snd (pump_all u ps s)) = length ps"
  by (induction ps arbitrary: s) (auto simp: Let_def split: prod.split, metis fst_conv, metis snd_conv)

text \<open>One pipeline's exception does not cost another its pump.  On the executors the state
  after a pump is that of every pipeline having pumped, in order, whatever raised; and the pump
  returns a value only if none raised.\<close>

theorem pump_runs_every_pipeline:
  "fst (pump u False ps s) = fold (\<lambda>p s. fst (pump_one u p s)) ps s
    \<and> (is_ok (snd (pump u False ps s)) \<longleftrightarrow> list_all is_ok (snd (pump_all u ps s)))"
proof -
  obtain s' rs where a: "pump_all u ps s = (s', rs)" by fastforce
  have ok: "is_ok (map_res f (mapM_res (\<lambda>r. r) rs)) = list_all is_ok rs" for f :: "bool list \<Rightarrow> bool"
  proof -
    have "is_ok (map_res f r) = is_ok r" for r by (cases r) auto
    moreover have "is_ok (mapM_res (\<lambda>r. r) rs) = list_all is_ok rs"
    proof (induction rs)
      case (Cons r rs)
      then show ?case by (cases r; cases "mapM_res (\<lambda>r. r) rs") auto
    qed simp
    ultimately show ?thesis by simp
  qed
  show ?thesis using pump_all_eq [of u ps s] a ok by (auto simp: pump_def Let_def)
qed

subsection \<open>A partial acknowledgement of a replay\<close>

text \<open>A replay that is partly acknowledged is logged as acknowledged and forgotten.  The code
  says it treats one as acked, but its branch moves no send record and commits nothing to the
  source: the row is gone from the queue and the attempt log says "acked", while every send
  record stands where it stood and the environment is untouched.\<close>

theorem partial_replay_moves_nothing:
  "let (s', r) = handle_outcome u p d (partial_ack c rejected reason) now s in
     r = Ok () \<and> us_env s' = us_env s \<and> st_marks (us_store s') = st_marks (us_store s)
     \<and> st_queue (us_store s') = st_queue (us_store s)
     \<and> at_outcome (last (st_attempts (us_store s'))) = ''acked''"
  by (simp add: handle_outcome_def Let_def partial_ack_def record_attempt_def trim_ring_def
      attempt_row_def attempts_ring_size_def)

end
