(* ===== verification/PumpWitnesses.thy ===== *)
theory PumpWitnesses
  imports PumpForward PumpEquiv
begin

text \<open>
  The pump's properties at work: a small environment (the list of the calls it saw), one
  pipeline over it whose transport gives a fixed answer, and a store with one queued row.
\<close>

type_synonym calls = "string list"

definition demo_batch :: batch where
  "demo_batch = \<lparr>bt_records = [\<lparr>rec_table = ''psk.spots'', rec_time = 0, rec_columns = [],
     rec_dedup_key = None, rec_payload_path = None\<rparr>], bt_cursor_after = ''11'', bt_commit_token = ''11''\<rparr>"

definition demo_after :: comparator where "demo_after a b = Ok (length b < length a)"

definition demo_source :: "calls source" where
  "demo_source = \<lparr>so_id = ''sqlite:psk.spots'',
     so_iter = (\<lambda>c l e. (e @ [''iter''], Ok [\<lambda>e. (e, Ok demo_batch)])),
     so_commit = (\<lambda>t e. (e @ [''commit''], Ok ())), so_is_after = Some demo_after\<rparr>"

definition demo_transport :: "outcome \<Rightarrow> calls transport" where
  "demo_transport oc = \<lparr>tr_name = ''psk'', tr_primary_table = ''psk.spots'',
     tr_policy = default_batch_policy, tr_ships = True,
     tr_ship = (\<lambda>b e. (e @ [''ship''], Ok oc)), tr_serialize = (\<lambda>b e. (e, Ok ''payload'')),
     tr_replay = (\<lambda>b e. (e @ [''replay''], Ok oc))\<rparr>"

definition demo_pipe :: "outcome \<Rightarrow> calls pipeline" where
  "demo_pipe oc = \<lparr>pi_name = ''psk'', pi_source = demo_source, pi_transport = demo_transport oc,
     pi_retry = default_retry_policy, pi_batch_limit = 1000, pi_max_per_pump = None,
     pi_client = ''psk-recorder'', pi_governed = True, pi_origin = ''legacy''\<rparr>"

definition demo_up :: "(calls pipeline \<Rightarrow> (calls, bool) effect) option \<Rightarrow> calls uploader" where
  "demo_up gate = \<lparr>up_now = (\<lambda>e. (e, 0)), up_clock = (\<lambda>e. Ok 0), up_gate = gate,
     up_on_batch = (\<lambda>p b oc e. (e, Ok ()))\<rparr>"

definition demo_row :: deliverable where
  "demo_row = \<lparr>dl_id = 7, dl_pipeline = ''psk'', dl_payload = ''payload'', dl_enqueued_at = iso 0,
     dl_attempts = 0, dl_next_attempt_at = iso 0, dl_source_id = ''sqlite:psk.spots'',
     dl_dest_id = ''psk'', dl_table = ''psk.spots'', dl_cursor_after = ''11'', dl_commit_token = ''11''\<rparr>"

definition demo_key :: send_key where "demo_key = (''sqlite:psk.spots'', ''psk'', ''psk.spots'')"

definition demo_store :: "deliverable list \<Rightarrow> store" where
  "demo_store q = upsert demo_key ''5'' (iso 0) ((open_store empty_file)\<lparr>st_queue := q, st_next_id := 8\<rparr>)"

definition demo_state :: "deliverable list \<Rightarrow> calls ustate" where
  "demo_state q = \<lparr>us_env = [], us_store = demo_store q, us_gate_faults = [], us_faults_full = False,
     us_held_windows = [], us_log = []\<rparr>"

lemmas demo_defs = demo_batch_def demo_source_def demo_transport_def demo_pipe_def demo_up_def
  demo_row_def demo_key_def demo_state_def default_retry_policy_def exponential_def

lemma demo_wf: "wf_store (demo_store [])" "wf_store (demo_store [demo_row])"
  by (simp_all add: demo_store_def wf_store_def upsert_def open_store_def empty_file_def
      init_schema_def refresh_schema_version_def demo_row_def)

lemma demo_queue [simp]: "st_queue (us_store (demo_state q)) = q"
  by (simp add: demo_state_def demo_store_def)

theorem pump_never_rewinds_witness:
  "not_behind (\<lambda>_. True) length (us_store (demo_state [demo_row]))
     (us_store (fst (pump_one (demo_up None) (demo_pipe acked) (demo_state [demo_row]))))"
  by (rule pump_never_rewinds [where readable = "\<lambda>_. True"])
     (simp_all add: is_after_for_def demo_defs demo_after_def ports_read_def queue_reads_def)

theorem held_pipeline_untouched_witness:
  "\<exists>s1. pump_one (demo_up (Some (\<lambda>p e. (e @ [''gate''], Ok False)))) (demo_pipe acked) (demo_state [demo_row])
       = (s1, Ok False) \<and> us_store s1 = us_store (demo_state [demo_row]) \<and> us_env s1 = [''gate'']"
  by (rule held_pipeline_untouched [where r = "Ok False" and g = "\<lambda>p e. (e @ [''gate''], Ok False)"])
     (simp_all add: demo_up_def demo_state_def)

theorem gate_fault_lines_bounded_witness:
  "gate_notes (us_log (fst (pump_until_idle (demo_up (Some (\<lambda>p e. (e, Raise (Exn ''OSError'' ''x'')))))
     True [demo_pipe acked] 5 0 (demo_state [])))) \<le> 65"
  by (rule gate_fault_lines_bounded) (simp_all add: demo_state_def)

definition watched_demo :: "deliverable list \<Rightarrow> (calls \<times> replays) ustate" where
  "watched_demo q = \<lparr>us_env = ([], []), us_store = demo_store q, us_gate_faults = [], us_faults_full = False,
     us_held_windows = [], us_log = []\<rparr>"

theorem no_queued_row_lost_witness:
  "\<exists>taken others. ledger snd (watched_pipe (demo_pipe (retry_later ''down''))) taken others (watched_demo [demo_row])
     (fst (pump_one (watched_up (demo_up None) (demo_pipe (retry_later ''down'')))
       (watched_pipe (demo_pipe (retry_later ''down''))) (watched_demo [demo_row])))"
  by (rule no_queued_row_lost [OF watched_history]) (simp add: watched_demo_def demo_wf(2))

theorem failed_first_attempt_parks_witness:
  "let (s', r) = handle_first_attempt (demo_up None) (demo_pipe acked) demo_batch (retry_later ''down'') 0
       (demo_state []); st' = us_store s' in
     r = Ok () \<and> (\<exists>row. st_queue st' = [row] \<and> dl_cursor_after row = ''11'')"
  using failed_first_attempt_parks [of "demo_pipe acked" demo_batch "''payload''" "demo_state []"
      "demo_up None" "''down''" 0]
  by (auto simp: demo_pipe_def demo_transport_def demo_batch_def Let_def split: prod.splits)

theorem retry_ack_as_first_ack_witness:
  "\<exists>d popped. pop_p ''psk'' (iso 2) (fst (handle_first_attempt (demo_up None) (demo_pipe acked) demo_batch
        (retry_later ''down'') 0 (demo_state []))) = (popped, Ok (Some d))
    \<and> dl_payload d = ''payload'' \<and> dl_commit_token d = ''11''
    \<and> (let retried = fst (handle_outcome (demo_up None) (demo_pipe acked) d acked 2 popped) in
        (\<forall>k. stored_cursor (us_store retried) k = stored_cursor (us_store (fst (handle_first_attempt
           (demo_up None) (demo_pipe acked) demo_batch acked 0 (demo_state [])))) k)
        \<and> st_queue (us_store retried) = [])"
proof -
  have due: "iso (0 + delay_for (pi_retry (demo_pipe acked)) 0) \<le> iso 2"
    by (simp add: demo_defs delay_for_def iso_def iso_utc_le_iff in_calendar_def)
  have wf: "wf_store (us_store (demo_state []))" using demo_wf(1) by (simp add: demo_state_def)
  show ?thesis
    using retry_ack_as_first_ack [of "demo_state []" "demo_pipe acked" demo_batch "''payload''" 0 2,
        OF wf _ _ _ due refl refl, of "demo_up None" "''down''"]
    by (simp add: demo_pipe_def demo_transport_def demo_batch_def)
qed

theorem attempts_stay_below_limit_witness:
  "attempts_below (demo_pipe (retry_later ''down'')) (us_store (fst (pump_until_idle (demo_up None) True
     [demo_pipe (retry_later ''down'')] 5 0 (demo_state [demo_row]))))"
  by (rule attempts_stay_below_limit)
     (simp_all add: attempts_below_def demo_row_def, simp_all add: demo_defs)

theorem one_probe_per_pump_witness:
  "rows_touched (us_store (demo_state [demo_row])) (us_store (fst (pump_one (demo_up None)
     (demo_pipe (retry_later ''down'')) (demo_state [demo_row])))) \<le> 1"
  by (rule one_probe_per_pump)
     (use demo_wf(2) in \<open>simp_all add: failing_def demo_pipe_def demo_transport_def retry_later_def demo_state_def\<close>)

end
