(* ===== verification/SinkSwitch.thy ===== *)
theory SinkSwitch
  imports Prelude
begin

text \<open>
  Sink switch files (\<open>sinkswitch.py\<close>): the names a client may have, reading a switch with its
  cache, the effective state of a client, writing a switch file, and the carry-over marker.

  The file system is a parameter: what \<open>stat\<close> and \<open>read_bytes\<close> answer for a path.  So are
  \<open>tomllib.loads\<close> (on the decoded text) and \<open>repr\<close> of a float, both of the standard library.
\<close>

subsection \<open>Client names and states\<close>

definition client_first :: "char \<Rightarrow> bool" where
  "client_first c \<longleftrightarrow> is_lower_ascii c \<or> is_digit c"

definition client_char :: "char \<Rightarrow> bool" where
  "client_char c \<longleftrightarrow> is_lower_ascii c \<or> is_digit c \<or> c = CHR ''-''"

definition site :: string where "site = ''site''"

definition valid_client_name :: "string \<Rightarrow> bool" where
  "valid_client_name name \<longleftrightarrow> (case name of
     [] \<Rightarrow> False
   | c # cs \<Rightarrow> client_first c \<and> list_all client_char cs) \<and> name \<noteq> site"

text \<open>The states, strictest first; the order of \<open>STATES\<close> is the order of the type.\<close>

datatype sink_state = Off | Fill | Upload

fun strictness :: "sink_state \<Rightarrow> nat" where
  "strictness Off = 0" | "strictness Fill = 1" | "strictness Upload = 2"

lemma strictness_inj: "strictness a = strictness b \<Longrightarrow> a = b"
  by (cases a; cases b) auto

instantiation sink_state :: linorder
begin

definition less_eq_sink_state :: "sink_state \<Rightarrow> sink_state \<Rightarrow> bool" where
  "less_eq_sink_state a b \<longleftrightarrow> strictness a \<le> strictness b"

definition less_sink_state :: "sink_state \<Rightarrow> sink_state \<Rightarrow> bool" where
  "less_sink_state a b \<longleftrightarrow> strictness a < strictness b"

instance
  by standard (auto simp: less_eq_sink_state_def less_sink_state_def intro: strictness_inj)

end

definition state_of :: "pyval \<Rightarrow> sink_state option" where
  "state_of v = (if v = PStr ''off'' then Some Off else if v = PStr ''fill'' then Some Fill
     else if v = PStr ''upload'' then Some Upload else None)"

fun state_name :: "sink_state \<Rightarrow> string" where
  "state_name Off = ''off''" | "state_name Fill = ''fill''" | "state_name Upload = ''upload''"

lemma state_of_name [simp]: "state_of (PStr (state_name st)) = Some st"
  by (cases st) (simp_all add: state_of_def)

subsection \<open>The file system and the parsed switch\<close>

type_synonym signature = "int \<times> int \<times> int"

datatype stat_result = NoFile | StatFails string | Stat signature

datatype read_result = Gone | ReadFails string | Content bytes

record files =
  fs_stat :: "string \<Rightarrow> stat_result"
  fs_read :: "string \<Rightarrow> read_result"

record switch_read =
  sr_state :: "sink_state option"
  sr_missing :: bool
  sr_error :: string
  sr_data :: pydict
  sr_failed :: bool

definition missing_switch :: switch_read where
  "missing_switch = \<lparr>sr_state = None, sr_missing = True, sr_error = [], sr_data = [], sr_failed = False\<rparr>"

definition failed_switch :: "string \<Rightarrow> switch_read" where
  "failed_switch err = \<lparr>sr_state = None, sr_missing = False, sr_error = err, sr_data = [], sr_failed = True\<rparr>"

text \<open>\<open>loads\<close>: \<open>tomllib.loads(raw.decode("utf-8"))\<close>; a failure carries its text.  The message for a bad
  state leaves out the value itself.\<close>

type_synonym toml_loads = "bytes \<Rightarrow> pydict res"

definition parse_switch :: "toml_loads \<Rightarrow> files \<Rightarrow> string \<Rightarrow> switch_read" where
  "parse_switch loads fs path = (case fs_read fs path of
     Gone \<Rightarrow> missing_switch
   | ReadFails e \<Rightarrow> failed_switch (path @ '': unreadable: '' @ e)
   | Content raw \<Rightarrow> (case loads raw of
       Raise e \<Rightarrow> failed_switch (path @ '': parse error: '' @ exn_text e)
     | Ok data \<Rightarrow> (case state_of (py_get data ''state'') of
         None \<Rightarrow> \<lparr>sr_state = None, sr_missing = False,
           sr_error = path @ '': state is not one of off/fill/upload'', sr_data = data, sr_failed = False\<rparr>
       | Some st \<Rightarrow> \<lparr>sr_state = Some st, sr_missing = False, sr_error = [], sr_data = data, sr_failed = False\<rparr>)))"

subsection \<open>The module's memory: the cache, and what it has logged\<close>

datatype note_key = NoteCap | NoteFile string signature | NoteName string | NoteMarker string string

record switch_mem =
  sm_cache :: "(string \<times> (signature \<times> switch_read)) list"
  sm_logged :: "note_key list"
  sm_log :: "note_key list"

definition logged_cap :: nat where "logged_cap = 1024"

text \<open>\<open>_note\<close>, with the line its caller logs when it answers True.\<close>

definition note_once :: "note_key \<Rightarrow> switch_mem \<Rightarrow> switch_mem" where
  "note_once k m = (if k \<in> set (sm_logged m) then m
     else if logged_cap \<le> length (sm_logged m) then
       (if NoteCap \<in> set (sm_logged m) then m
        else m\<lparr>sm_logged := sm_logged m @ [NoteCap], sm_log := sm_log m @ [NoteCap]\<rparr>)
     else m\<lparr>sm_logged := sm_logged m @ [k], sm_log := sm_log m @ [k]\<rparr>)"

definition read_switch :: "toml_loads \<Rightarrow> files \<Rightarrow> bool \<Rightarrow> string \<Rightarrow> switch_mem \<Rightarrow> switch_read \<times> switch_mem" where
  "read_switch loads fs use_cache path m = (case fs_stat fs path of
     NoFile \<Rightarrow> (missing_switch, m\<lparr>sm_cache := dict_del path (sm_cache m)\<rparr>)
   | StatFails e \<Rightarrow> (failed_switch (path @ '': unreadable: '' @ e), m)
   | Stat sig \<Rightarrow>
       (case (if use_cache then map_of (sm_cache m) path else None) of
          Some (sig', r) \<Rightarrow> if sig' = sig then (r, m)
            else (let r' = parse_switch loads fs path; m' = m\<lparr>sm_cache := dict_set path (sig, r') (sm_cache m)\<rparr>
              in (r', if sr_error r' = [] then m' else note_once (NoteFile path sig) m'))
        | None \<Rightarrow> (let r' = parse_switch loads fs path; m' = m\<lparr>sm_cache := dict_set path (sig, r') (sm_cache m)\<rparr>
              in (r', if sr_error r' = [] then m' else note_once (NoteFile path sig) m'))))"

record effective =
  ef_state :: sink_state
  ef_client_state :: "sink_state option"
  ef_site_state :: "sink_state option"
  ef_errors :: "string list"
  ef_client_missing :: bool
  ef_client_error :: string
  ef_site_error :: string

definition switch_file :: "string \<Rightarrow> string \<Rightarrow> string" where
  "switch_file dir name = dir @ ''/'' @ name @ ''.toml''"

text \<open>The stricter of the client's file and the site's.\<close>

definition stricter :: "switch_read \<Rightarrow> switch_read \<Rightarrow> sink_state" where
  "stricter c s = (if sr_missing c \<or> sr_error c \<noteq> [] \<or> sr_error s \<noteq> [] then Off
     else if sr_missing s then (case sr_state c of Some st \<Rightarrow> st | None \<Rightarrow> Off)
     else (case (sr_state c, sr_state s) of (Some a, Some b) \<Rightarrow> min a b | _ \<Rightarrow> Off))"

definition effective_state :: "toml_loads \<Rightarrow> files \<Rightarrow> string \<Rightarrow> string \<Rightarrow> switch_mem \<Rightarrow> effective \<times> switch_mem" where
  "effective_state loads fs dir client m = (if \<not> valid_client_name client
     then (let msg = ''bad client name '' @ client @ '': reading as off'' in
       (\<lparr>ef_state = Off, ef_client_state = None, ef_site_state = None, ef_errors = [msg],
          ef_client_missing = False, ef_client_error = msg, ef_site_error = []\<rparr>,
        note_once (NoteName client) m))
     else (let (c, m1) = read_switch loads fs True (switch_file dir client) m;
               (s, m2) = read_switch loads fs True (switch_file dir site) m1 in
       (\<lparr>ef_state = stricter c s, ef_client_state = sr_state c, ef_site_state = sr_state s,
          ef_errors = filter (\<lambda>e. e \<noteq> []) [sr_error c, sr_error s],
          ef_client_missing = sr_missing c, ef_client_error = sr_error c,
          ef_site_error = sr_error s\<rparr>, m2)))"

text \<open>\<open>marker_stands\<close>: only "no such file" reads absent.\<close>

datatype lstat_result = Stands | LNoEnt | LNotDir | LError string

definition marker_stands :: "(string \<Rightarrow> lstat_result) \<Rightarrow> string \<Rightarrow> switch_mem \<Rightarrow> bool \<times> switch_mem" where
  "marker_stands lstat path m = (case lstat path of
     LNoEnt \<Rightarrow> (False, m) | LNotDir \<Rightarrow> (False, m) | Stands \<Rightarrow> (True, m)
   | LError e \<Rightarrow> (True, note_once (NoteMarker path e) m))"

subsection \<open>Writing TOML\<close>

definition hex_char :: "nat \<Rightarrow> char" where
  "hex_char d = (if d < 10 then char_of (48 + d) else char_of (87 + d))"

definition toml_esc :: "char \<Rightarrow> string" where
  "toml_esc c = (let k = (of_char c :: nat) in
     if k = 92 then [CHR 0x5C, CHR 0x5C] else if k = 34 then [CHR 0x5C, CHR 0x22]
     else if k = 8 then [CHR 0x5C, CHR ''b''] else if k = 9 then [CHR 0x5C, CHR ''t'']
     else if k = 10 then [CHR 0x5C, CHR ''n''] else if k = 12 then [CHR 0x5C, CHR ''f'']
     else if k = 13 then [CHR 0x5C, CHR ''r'']
     else if k < 32 \<or> k = 127
       then [CHR 0x5C, CHR ''u'', CHR ''0'', CHR ''0'', hex_char (k div 16), hex_char (k mod 16)]
     else [c])"

definition toml_str :: "string \<Rightarrow> string" where
  "toml_str v = [CHR 0x22] @ concat (map toml_esc v) @ [CHR 0x22]"

definition bare_char :: "char \<Rightarrow> bool" where
  "bare_char c \<longleftrightarrow> is_lower_ascii c \<or> is_upper_ascii c \<or> is_digit c \<or> c = CHR ''_'' \<or> c = CHR ''-''"

text \<open>\<open>_BARE_KEY.match(k)\<close>: the pattern ends in \<open>$\<close>, which also matches before a last newline.\<close>

definition bare_key :: "string \<Rightarrow> bool" where
  "bare_key k \<longleftrightarrow> (let core = (if k \<noteq> [] \<and> last k = CHR 0x0A then butlast k else k)
     in core \<noteq> [] \<and> list_all bare_char core)"

definition type_error :: "string \<Rightarrow> exn" where "type_error t = Exn ''TypeError'' t"

definition toml_key :: "string \<Rightarrow> string res" where
  "toml_key k = (if k = [] then Raise (type_error ''TOML key must be a non-empty string'')
     else Ok (if bare_key k then k else toml_str k))"

text \<open>\<open>_scalar\<close>; \<open>frepr\<close> is \<open>repr\<close> of a finite float.\<close>

fun toml_scalar :: "(rat \<Rightarrow> string) \<Rightarrow> pyval \<Rightarrow> string res" where
  "toml_scalar frepr (PBool b) = Ok (if b then ''true'' else ''false'')"
| "toml_scalar frepr (PInt i) = Ok (str_of_int i)"
| "toml_scalar frepr (PFloat r) = Ok (frepr r)"
| "toml_scalar frepr (PInf pos) = Ok (if pos then ''inf'' else ''-inf'')"
| "toml_scalar frepr PNaN = Ok ''nan''"
| "toml_scalar frepr (PStr v) = Ok (toml_str v)"
| "toml_scalar frepr (POther t) = Raise (type_error (''cannot write '' @ t @ '' as a TOML value''))"
| "toml_scalar frepr PNone = Raise (type_error ''cannot write NoneType as a TOML value'')"
| "toml_scalar frepr (PList _) = Raise (type_error ''cannot write list as a TOML value'')"
| "toml_scalar frepr (PDict _) = Raise (type_error ''cannot write dict as a TOML value'')"

fun is_dict :: "pyval \<Rightarrow> bool" where
  "is_dict (PDict _) = True" | "is_dict _ = False"

fun is_nested :: "pyval \<Rightarrow> bool" where
  "is_nested (PDict _) = True" | "is_nested (PList xs) = (xs \<noteq> [])" | "is_nested _ = False"

text \<open>The first loop of \<open>_emit\<close>: one line per key that holds a scalar or an empty list.\<close>

fun emit_scalars :: "(rat \<Rightarrow> string) \<Rightarrow> pydict \<Rightarrow> string list res" where
  "emit_scalars frepr [] = Ok []"
| "emit_scalars frepr ((k, v) # kvs) = (if is_nested v then emit_scalars frepr kvs
     else bind_res (toml_key k) (\<lambda>k'.
       bind_res (if v = PList [] then Ok ''[]'' else toml_scalar frepr v) (\<lambda>v'.
       map_res (\<lambda>ls. (k' @ '' = '' @ v') # ls) (emit_scalars frepr kvs))))"

text \<open>The second loop: sub-tables and arrays of tables, each after its header.\<close>

fun emit_subs :: "(rat \<Rightarrow> string) \<Rightarrow> pydict \<Rightarrow> string list \<Rightarrow> string list res"
  and emit_items :: "(rat \<Rightarrow> string) \<Rightarrow> pyval list \<Rightarrow> string list \<Rightarrow> string list res" where
  "emit_subs frepr [] path = Ok []"
| "emit_subs frepr ((k, v) # kvs) path = (if \<not> is_nested v then emit_subs frepr kvs path
     else bind_res (toml_key k) (\<lambda>k'. let here = path @ [k'] in
       bind_res (case v of
           PDict d \<Rightarrow> bind_res (emit_scalars frepr d) (\<lambda>a.
             map_res (\<lambda>b. [[], ''['' @ join ''.'' here @ '']''] @ a @ b) (emit_subs frepr d here))
         | PList xs \<Rightarrow> if list_all is_dict xs then emit_items frepr xs here
             else Raise (type_error ''only arrays of tables are supported'')
         | _ \<Rightarrow> Ok []) (\<lambda>ls.
       map_res (\<lambda>rest. ls @ rest) (emit_subs frepr kvs path))))"
| "emit_items frepr [] here = Ok []"
| "emit_items frepr (x # xs) here = bind_res (case x of
       PDict d \<Rightarrow> bind_res (emit_scalars frepr d) (\<lambda>a.
         map_res (\<lambda>b. [[], ''[['' @ join ''.'' here @ '']]''] @ a @ b) (emit_subs frepr d here))
     | _ \<Rightarrow> Ok []) (\<lambda>ls. map_res (\<lambda>rest. ls @ rest) (emit_items frepr xs here))"

definition strip_newlines :: "string \<Rightarrow> string" where
  "strip_newlines s = dropWhile (\<lambda>c. c = CHR 0x0A) s"

definition dumps_toml :: "(rat \<Rightarrow> string) \<Rightarrow> pydict \<Rightarrow> string res" where
  "dumps_toml frepr data = bind_res (emit_scalars frepr data) (\<lambda>a.
     map_res (\<lambda>b. strip_newlines (join [CHR 0x0A] (a @ b)) @ [CHR 0x0A]) (emit_subs frepr data []))"

subsection \<open>Writing a switch\<close>

text \<open>\<open>_check_path\<close>, on a path given as its directory and its file name.\<close>

definition value_error :: "string \<Rightarrow> exn" where "value_error t = Exn ''ValueError'' t"

definition check_path :: "string \<Rightarrow> string \<Rightarrow> string res" where
  "check_path dir fname = (let name = take (length fname - 5) fname in
     if ''..'' \<in> set (split_on CHR ''/'' dir) \<or> fname = ''..'' \<or> \<not> ends_with fname ''.toml'' \<or> name = []
     then Raise (value_error (''not a switch file path: '' @ dir @ ''/'' @ fname))
     else if name \<noteq> site \<and> \<not> valid_client_name name
     then Raise (value_error (''not a switch file path: '' @ dir @ ''/'' @ fname))
     else Ok name)"

record switch_change =
  ch_state :: pyval
  ch_reason :: pyval
  ch_set_by :: pyval
  ch_set_at :: string
  ch_grant :: pydict
  ch_identity :: pydict

text \<open>\<open>list(v)\<close> and \<open>{**v}\<close> of the values a file may hold under \<open>history\<close> and \<open>grant\<close>; an absent key
  (\<open>PNone\<close>, which TOML cannot write) is the empty one.\<close>

definition as_list :: "pyval \<Rightarrow> pyval list res" where
  "as_list v = (case v of PNone \<Rightarrow> Ok [] | PList xs \<Rightarrow> Ok xs | PStr s \<Rightarrow> Ok (map (\<lambda>c. PStr [c]) s)
     | PDict d \<Rightarrow> Ok (map (\<lambda>(k, _). PStr k) d) | _ \<Rightarrow> Raise (type_error ''object is not iterable''))"

definition as_mapping :: "pyval \<Rightarrow> pydict res" where
  "as_mapping v = (case v of PNone \<Rightarrow> Ok [] | PDict d \<Rightarrow> Ok d
     | _ \<Rightarrow> Raise (type_error ''object is not a mapping''))"

definition history_entry :: "string \<Rightarrow> switch_read \<Rightarrow> switch_change \<Rightarrow> string \<Rightarrow> pydict" where
  "history_entry stamp cur ch name = [(''at'', PStr stamp),
     (''from'', PStr (case sr_state cur of Some st \<Rightarrow> state_name st | None \<Rightarrow> ''off'')),
     (''to'', ch_state ch), (''by'', ch_set_by ch), (''reason'', ch_reason ch)]
     @ (if name \<noteq> site \<and> ch_identity ch \<noteq> [] then [(''identity'', PDict (ch_identity ch))] else [])"

definition merge_dicts :: "pydict \<Rightarrow> pydict \<Rightarrow> pydict" where
  "merge_dicts a b = fold (\<lambda>(k, v). dict_set k v) b a"

definition order_data :: "string \<Rightarrow> switch_read \<Rightarrow> switch_change \<Rightarrow> string \<Rightarrow> pydict" where
  "order_data stamp cur ch name = dict_set ''set_at'' (PStr stamp) (dict_set ''set_by'' (ch_set_by ch)
     (dict_set ''reason'' (ch_reason ch) (dict_set ''state'' (ch_state ch)
       (if name \<noteq> site then dict_set ''client'' (PStr name) (sr_data cur) else sr_data cur))))"

definition changed_data :: "string \<Rightarrow> switch_read \<Rightarrow> switch_change \<Rightarrow> string \<Rightarrow> pydict res" where
  "changed_data stamp cur ch name = (let d = order_data stamp cur ch name in
     bind_res (if ch_grant ch = [] then Ok d
       else map_res (\<lambda>g. dict_set ''grant'' (PDict (merge_dicts g (ch_grant ch))) d)
              (as_mapping (py_get d ''grant''))) (\<lambda>d'.
     map_res (\<lambda>h. dict_set ''history'' (PList (h @ [PDict (history_entry stamp cur ch name)])) d')
       (as_list (py_get d' ''history''))))"

text \<open>
  \<open>write_switch\<close>, after the directory and the lock: \<open>locked\<close> says whether the lock came in time,
  \<open>now\<close> is the stamp for a change that brings none.  The answer is the text to write and what the
  file said before; \<open>_atomic_write\<close> puts the text in place or leaves the file alone.
\<close>

definition said_before :: "switch_read \<Rightarrow> string" where
  "said_before cur = (case sr_state cur of Some st \<Rightarrow> state_name st
     | None \<Rightarrow> if sr_missing cur then ''missing'' else ''invalid'')"

definition write_switch ::
  "toml_loads \<Rightarrow> (rat \<Rightarrow> string) \<Rightarrow> files \<Rightarrow> bool \<Rightarrow> string \<Rightarrow> string \<Rightarrow> string \<Rightarrow> switch_change
    \<Rightarrow> switch_mem \<Rightarrow> (string \<times> string) res \<times> switch_mem" where
  "write_switch loads frepr fs locked now dir fname ch m = (case check_path dir fname of
     Raise e \<Rightarrow> (Raise e, m)
   | Ok name \<Rightarrow> (if state_of (ch_state ch) = None
       then (Raise (value_error ''state is not one of off/fill/upload''), m)
     else if \<not> locked then (Raise (Exn ''TimeoutError'' ''could not take the switch lock; nothing written''), m)
     else (let (cur, m') = read_switch loads fs False (dir @ ''/'' @ fname) m in
       if sr_failed cur then (Raise (value_error (''refusing to rewrite a broken switch file: '' @ sr_error cur)), m')
       else (case changed_data (if ch_set_at ch = [] then now else ch_set_at ch) cur ch name of
           Raise e \<Rightarrow> (Raise e, m')
         | Ok data \<Rightarrow> (case dumps_toml frepr data of
             Raise e \<Rightarrow> (Raise (value_error (''cannot re-emit this file ('' @ exn_text e @ '')'')), m')
           | Ok text \<Rightarrow> (Ok (text, said_before cur), m'))))))"

subsection \<open>Reading a switch directly\<close>

text \<open>What the two files say, without the cache: the meaning \<open>effective_state\<close> is to have.\<close>

definition direct_switch :: "toml_loads \<Rightarrow> files \<Rightarrow> string \<Rightarrow> switch_read" where
  "direct_switch loads fs path = (case fs_stat fs path of
     NoFile \<Rightarrow> missing_switch
   | StatFails e \<Rightarrow> failed_switch (path @ '': unreadable: '' @ e)
   | Stat _ \<Rightarrow> parse_switch loads fs path)"

definition declared :: "toml_loads \<Rightarrow> files \<Rightarrow> string \<Rightarrow> sink_state option" where
  "declared loads fs path = (case (fs_stat fs path, fs_read fs path) of
     (Stat _, Content raw) \<Rightarrow> (case loads raw of Ok data \<Rightarrow> state_of (py_get data ''state'') | Raise _ \<Rightarrow> None)
   | _ \<Rightarrow> None)"

definition no_file :: "files \<Rightarrow> string \<Rightarrow> bool" where
  "no_file fs path \<longleftrightarrow> fs_stat fs path = NoFile
     \<or> (\<exists>sig. fs_stat fs path = Stat sig \<and> fs_read fs path = Gone)"

definition cache_fresh :: "toml_loads \<Rightarrow> files \<Rightarrow> switch_mem \<Rightarrow> bool" where
  "cache_fresh loads fs m \<longleftrightarrow> (\<forall>path sig r. map_of (sm_cache m) path = Some (sig, r)
     \<longrightarrow> fs_stat fs path = Stat sig \<longrightarrow> r = parse_switch loads fs path)"

lemma note_once_cache [simp]: "sm_cache (note_once k m) = sm_cache m"
  by (simp add: note_once_def)

lemma read_switch_direct:
  assumes "cache_fresh loads fs m"
  shows "fst (read_switch loads fs c path m) = direct_switch loads fs path
    \<and> cache_fresh loads fs (snd (read_switch loads fs c path m))"
proof -
  have fresh: "cache_fresh loads fs (m\<lparr>sm_cache := dict_set path (sig, parse_switch loads fs path) (sm_cache m)\<rparr>)" for sig
    unfolding cache_fresh_def
  proof (intro allI impI)
    fix path' sig' r
    assume "map_of (sm_cache (m\<lparr>sm_cache := dict_set path (sig, parse_switch loads fs path) (sm_cache m)\<rparr>)) path'
        = Some (sig', r)" and st: "fs_stat fs path' = Stat sig'"
    then have "path' = path \<and> r = parse_switch loads fs path \<or> map_of (sm_cache m) path' = Some (sig', r)"
      by (simp split: if_splits)
    then show "r = parse_switch loads fs path'"
    proof (elim disjE conjE)
      assume "map_of (sm_cache m) path' = Some (sig', r)"
      from assms [unfolded cache_fresh_def, rule_format, OF this st] show ?thesis .
    qed simp
  qed
  then have noted: "cache_fresh loads fs (note_once k
      (m\<lparr>sm_cache := dict_set path (sig, parse_switch loads fs path) (sm_cache m)\<rparr>))" for sig k
    unfolding cache_fresh_def note_once_cache .
  have gone: "cache_fresh loads fs (m\<lparr>sm_cache := dict_del path (sm_cache m)\<rparr>)"
    unfolding cache_fresh_def
  proof (intro allI impI)
    fix path' sig' r
    assume "map_of (sm_cache (m\<lparr>sm_cache := dict_del path (sm_cache m)\<rparr>)) path' = Some (sig', r)"
      and st: "fs_stat fs path' = Stat sig'"
    then have "map_of (sm_cache m) path' = Some (sig', r)" by (simp split: if_splits)
    from assms [unfolded cache_fresh_def, rule_format, OF this st] show "r = parse_switch loads fs path'" .
  qed
  show ?thesis
  proof (cases "fs_stat fs path")
    case (Stat sig)
    consider "(if c then map_of (sm_cache m) path else None) = Some (sig, parse_switch loads fs path)"
      | "fst (read_switch loads fs c path m) = parse_switch loads fs path
          \<and> cache_fresh loads fs (snd (read_switch loads fs c path m))"
    proof (cases "if c then map_of (sm_cache m) path else None")
      case None
      then show ?thesis
        using that Stat fresh [of sig] noted [of _ sig] by (simp add: read_switch_def Let_def)
    next
      case (Some e)
      obtain sig' q where e: "e = (sig', q)" by fastforce
      have m: "map_of (sm_cache m) path = Some (sig', q)" using Some e by (simp split: if_splits)
      show ?thesis
      proof (cases "sig' = sig")
        case True
        then have "q = parse_switch loads fs path"
          using assms [unfolded cache_fresh_def, rule_format, OF m] Stat by simp
        then show ?thesis using that Some e True by simp
      next
        case False
        then show ?thesis
          using that Some e Stat fresh [of sig] noted [of _ sig] by (simp add: read_switch_def Let_def)
      qed
    qed
    then show ?thesis
      by cases (use Stat assms in \<open>simp_all add: read_switch_def direct_switch_def\<close>)
  qed (use assms gone in \<open>simp_all add: read_switch_def direct_switch_def\<close>)
qed

lemma direct_switch_cases:
  "direct_switch loads fs path = r \<Longrightarrow>
     (sr_missing r \<longleftrightarrow> no_file fs path) \<and> (sr_missing r \<longrightarrow> sr_error r = [])
     \<and> (sr_error r = [] \<and> \<not> sr_missing r \<longleftrightarrow> declared loads fs path \<noteq> None)
     \<and> sr_state r = declared loads fs path"
  by (auto simp: direct_switch_def parse_switch_def no_file_def declared_def missing_switch_def
      failed_switch_def split: stat_result.splits read_result.splits res.splits option.splits)

lemma effective_state_reads:
  assumes "cache_fresh loads fs m"
  shows "ef_state (fst (effective_state loads fs dir client m)) =
    (if \<not> valid_client_name client then Off
     else case declared loads fs (switch_file dir client) of
       None \<Rightarrow> Off
     | Some c \<Rightarrow> if no_file fs (switch_file dir site) then c
         else (case declared loads fs (switch_file dir site) of None \<Rightarrow> Off | Some s \<Rightarrow> min c s))
    \<and> cache_fresh loads fs (snd (effective_state loads fs dir client m))"
proof -
  define pc ps where "pc = switch_file dir client" and "ps = switch_file dir site"
  obtain c m1 where 1: "read_switch loads fs True pc m = (c, m1)" by fastforce
  obtain s m2 where 2: "read_switch loads fs True ps m1 = (s, m2)" by fastforce
  note r1 = read_switch_direct [OF assms, of True pc, unfolded 1]
  note r2 = read_switch_direct [of loads fs m1 True ps, unfolded 2]
  have c: "direct_switch loads fs pc = c" and f1: "cache_fresh loads fs m1" using r1 by simp_all
  have s: "direct_switch loads fs ps = s" and f2: "cache_fresh loads fs m2" using r2 f1 by simp_all
  have st: "stricter c s = (case declared loads fs pc of None \<Rightarrow> Off
     | Some a \<Rightarrow> if no_file fs ps then a
         else (case declared loads fs ps of None \<Rightarrow> Off | Some b \<Rightarrow> min a b))"
    using direct_switch_cases [OF c] direct_switch_cases [OF s]
    by (auto simp: stricter_def split: option.split)
  show ?thesis
  proof (cases "valid_client_name client")
    case True
    then show ?thesis
      using 1 2 st [unfolded pc_def ps_def] f2 by (simp add: effective_state_def Let_def pc_def ps_def)
  next
    case False
    have "cache_fresh loads fs (note_once k m)" for k
      using assms unfolding cache_fresh_def note_once_cache .
    then show ?thesis using False by (simp add: effective_state_def Let_def)
  qed
qed

text \<open>C8: a client's state is the strictest thing said, and silence is off.  With a cache that
  holds no stale entry, a client reads \<open>upload\<close> (or \<open>fill\<close>) only when its own file exists, parses
  and says so and the site's file is absent or says at least that much; a bad name, a missing or
  broken client file, or a broken site file reads \<open>off\<close>.  The cache stays so.\<close>

theorem effective_state_strictest:
  assumes "cache_fresh loads fs m"
  shows "ef_state (fst (effective_state loads fs dir client m)) =
    (if \<not> valid_client_name client then Off
     else case declared loads fs (switch_file dir client) of
       None \<Rightarrow> Off
     | Some c \<Rightarrow> if no_file fs (switch_file dir site) then c
         else (case declared loads fs (switch_file dir site) of None \<Rightarrow> Off | Some s \<Rightarrow> min c s))
    \<and> cache_fresh loads fs (snd (effective_state loads fs dir client m))"
  by (rule effective_state_reads [OF assms])

theorem effective_state_strictest_witness:
  "let fs = \<lparr>fs_stat = (\<lambda>p. Stat (1, 2, 3)), fs_read = (\<lambda>p. Content p)\<rparr>;
       loads = (\<lambda>raw. Ok [(''state'', PStr (if ends_with raw ''site.toml'' then ''fill'' else ''upload''))]);
       m = \<lparr>sm_cache = [], sm_logged = [], sm_log = []\<rparr>
   in ef_state (fst (effective_state loads fs ''sinks'' ''psk-recorder'' m)) = Fill"
proof -
  define fs where "fs = \<lparr>fs_stat = (\<lambda>p :: string. Stat (1, 2, 3)), fs_read = (\<lambda>p. Content p)\<rparr>"
  define loads :: toml_loads where
    "loads = (\<lambda>raw. Ok [(''state'', PStr (if ends_with raw ''site.toml'' then ''fill'' else ''upload''))])"
  define m where "m = \<lparr>sm_cache = [], sm_logged = [], sm_log = []\<rparr>"
  have "cache_fresh loads fs m" by (simp add: cache_fresh_def m_def)
  from effective_state_strictest [OF this, of "''sinks''" "''psk-recorder''"]
  have "ef_state (fst (effective_state loads fs ''sinks'' ''psk-recorder'' m)) = Fill"
    by (simp add: declared_def no_file_def fs_def loads_def py_get_def state_of_def switch_file_def site_def
        ends_with_def valid_client_name_def client_first_def client_char_def is_lower_ascii_def is_digit_def
        less_eq_sink_state_def min_def)
  then show ?thesis by (simp add: fs_def loads_def m_def)
qed

subsection \<open>What a write keeps\<close>

lemma py_get_set: "py_get (dict_set k v d) k' = (if k' = k then v else py_get d k')"
  by (simp add: py_get_def)

lemma changed_data_Ok:
  assumes "changed_data stamp cur ch name = Ok data"
  shows "\<exists>old. as_list (py_get (sr_data cur) ''history'') = Ok old
    \<and> py_get data ''history'' = PList (old @ [PDict (history_entry stamp cur ch name)])
    \<and> py_get data ''state'' = ch_state ch
    \<and> (\<forall>k. k \<notin> {''client'', ''state'', ''reason'', ''set_by'', ''set_at'', ''grant'', ''history''}
         \<longrightarrow> py_get data k = py_get (sr_data cur) k)"
  using assms
  by (auto simp: changed_data_def order_data_def Let_def py_get_set split: if_splits)

text \<open>A switch file only grows its history.  When \<open>write_switch\<close> answers a text, that text is
  the file's own data with the new state, with exactly one entry appended to its history, and
  with every key the order does not set left as it was; the file parsed, and its path named
  \<open>site\<close> or a valid client.  A broken file, a bad state, a bad path or a lock that does not come
  answers an error instead, and no text.\<close>

theorem write_switch_appends_history:
  assumes "write_switch loads frepr fs locked now dir fname ch m = (Ok (out, before), m')"
  shows "locked \<and> (\<exists>name st cur data old. check_path dir fname = Ok name
    \<and> (name = site \<or> valid_client_name name) \<and> state_of (ch_state ch) = Some st
    \<and> cur = fst (read_switch loads fs False (dir @ ''/'' @ fname) m) \<and> \<not> sr_failed cur
    \<and> dumps_toml frepr data = Ok out \<and> before = said_before cur
    \<and> as_list (py_get (sr_data cur) ''history'') = Ok old
    \<and> py_get data ''history'' = PList (old @ [PDict (history_entry
         (if ch_set_at ch = [] then now else ch_set_at ch) cur ch name)])
    \<and> py_get data ''state'' = PStr (state_name st)
    \<and> (\<forall>k. k \<notin> {''client'', ''state'', ''reason'', ''set_by'', ''set_at'', ''grant'', ''history''}
         \<longrightarrow> py_get data k = py_get (sr_data cur) k))"
proof -
  obtain name where n: "check_path dir fname = Ok name"
    using assms by (cases "check_path dir fname") (auto simp: write_switch_def)
  have vn: "name = site \<or> valid_client_name name"
    using n by (auto simp: check_path_def Let_def split: if_splits)
  obtain st where st: "state_of (ch_state ch) = Some st"
    using assms n by (cases "state_of (ch_state ch)") (auto simp: write_switch_def)
  have name: "ch_state ch = PStr (state_name st)"
    using st by (auto simp: state_of_def split: if_splits)
  obtain cur m1 where r: "read_switch loads fs False (dir @ ''/'' @ fname) m = (cur, m1)" by fastforce
  let ?stamp = "if ch_set_at ch = [] then now else ch_set_at ch"
  from assms n st r have l: locked and nf: "\<not> sr_failed cur"
    by (auto simp: write_switch_def Let_def split: if_splits)
  from assms n st r l nf obtain data where d: "changed_data ?stamp cur ch name = Ok data"
    by (cases "changed_data ?stamp cur ch name") (simp_all add: write_switch_def Let_def)
  from assms n st r l nf d have t: "dumps_toml frepr data = Ok out" "before = said_before cur"
    by (simp_all add: write_switch_def Let_def split: res.splits)
  obtain old where o: "as_list (py_get (sr_data cur) ''history'') = Ok old"
      "py_get data ''history'' = PList (old @ [PDict (history_entry ?stamp cur ch name)])"
      "py_get data ''state'' = ch_state ch"
      "\<forall>k. k \<notin> {''client'', ''state'', ''reason'', ''set_by'', ''set_at'', ''grant'', ''history''}
         \<longrightarrow> py_get data k = py_get (sr_data cur) k"
    using changed_data_Ok [OF d] by blast
  have c: "cur = fst (read_switch loads fs False (dir @ ''/'' @ fname) m)" using r by simp
  show ?thesis
    by (intro conjI exI [of _ name] exI [of _ st] exI [of _ cur] exI [of _ data] exI [of _ old])
       (fact l n vn st c nf t o(1,2,4) | simp only: o(3) name)+
qed

definition demo_files :: files where
  "demo_files = \<lparr>fs_stat = (\<lambda>_. Stat (1, 2, 3)), fs_read = (\<lambda>_. Content [])\<rparr>"

definition demo_change :: switch_change where
  "demo_change = \<lparr>ch_state = PStr ''upload'', ch_reason = PStr [], ch_set_by = PStr ''op'',
     ch_set_at = ''2026-01-01T00:00:00Z'', ch_grant = [], ch_identity = []\<rparr>"

lemma demo_write:
  "\<exists>out m'. write_switch (\<lambda>_. Ok [(''state'', PStr ''off'')]) (\<lambda>_. ''1.0'') demo_files True [] ''sinks''
     ''site.toml'' demo_change \<lparr>sm_cache = [], sm_logged = [], sm_log = []\<rparr> = (Ok (out, ''off''), m')"
  by (simp add: write_switch_def check_path_def Let_def ends_with_def site_def demo_change_def
      state_of_def read_switch_def demo_files_def parse_switch_def py_get_def changed_data_def order_data_def
      as_list_def history_entry_def dumps_toml_def toml_key_def said_before_def)

theorem write_switch_appends_history_witness:
  "\<exists>out m' data. write_switch (\<lambda>_. Ok [(''state'', PStr ''off'')]) (\<lambda>_. ''1.0'') demo_files True [] ''sinks''
     ''site.toml'' demo_change \<lparr>sm_cache = [], sm_logged = [], sm_log = []\<rparr> = (Ok (out, ''off''), m')
   \<and> dumps_toml (\<lambda>_. ''1.0'') data = Ok out \<and> py_get data ''state'' = PStr ''upload''"
proof -
  obtain out m' where w: "write_switch (\<lambda>_. Ok [(''state'', PStr ''off'')]) (\<lambda>_. ''1.0'') demo_files True []
     ''sinks'' ''site.toml'' demo_change \<lparr>sm_cache = [], sm_logged = [], sm_log = []\<rparr> = (Ok (out, ''off''), m')"
    using demo_write by blast
  from write_switch_appends_history [OF w] w show ?thesis
    by (auto simp: demo_change_def state_of_def)
qed

subsection \<open>Basic strings\<close>

text \<open>A reader of TOML's basic strings, as the TOML format defines them: it takes the characters after the
  opening quote and answers the value and what follows the closing quote.\<close>

definition hex_val :: "char \<Rightarrow> nat option" where
  "hex_val c = (let k = (of_char c :: nat) in
     if 48 \<le> k \<and> k \<le> 57 then Some (k - 48) else if 97 \<le> k \<and> k \<le> 102 then Some (k - 87)
     else if 65 \<le> k \<and> k \<le> 70 then Some (k - 55) else None)"

definition simple_escape :: "char \<Rightarrow> char option" where
  "simple_escape c = map_of [(CHR 0x5C, CHR 0x5C), (CHR 0x22, CHR 0x22), (CHR ''b'', CHR 0x08),
     (CHR ''t'', CHR 0x09), (CHR ''n'', CHR 0x0A), (CHR ''f'', CHR 0x0C), (CHR ''r'', CHR 0x0D)] c"

fun read_basic :: "string \<Rightarrow> (string \<times> string) option" where
  "read_basic [] = None"
| "read_basic (c # cs) = (if c = CHR 0x22 then Some ([], cs)
     else if c = CHR 0x5C then (case cs of
         [] \<Rightarrow> None
       | e # cs' \<Rightarrow> if e = CHR ''u'' then (case cs' of
             h1 # h2 # h3 # h4 # cs'' \<Rightarrow>
               (case (hex_val h1, hex_val h2, hex_val h3, hex_val h4) of
                  (Some 0, Some 0, Some a, Some b) \<Rightarrow>
                    map_option (\<lambda>(v, r). (char_of (16 * a + b) # v, r)) (read_basic cs'')
                | _ \<Rightarrow> None)
           | _ \<Rightarrow> None)
         else (case simple_escape e of
             Some x \<Rightarrow> map_option (\<lambda>(v, r). (x # v, r)) (read_basic cs')
           | None \<Rightarrow> None))
     else if (of_char c :: nat) < 32 \<or> (of_char c :: nat) = 127 then None
     else map_option (\<lambda>(v, r). (c # v, r)) (read_basic cs))"

lemma char_eqI: "(of_char c :: nat) = k \<Longrightarrow> c = char_of k"
  by (metis char_of_char)

lemma hex_round: "d < 16 \<Longrightarrow> hex_val (hex_char d) = Some d"
  by (cases "d < 10") (simp_all add: hex_char_def hex_val_def Let_def)

lemma read_basic_esc: "read_basic (toml_esc c @ t) = map_option (\<lambda>(v, r). (c # v, r)) (read_basic t)"
proof -
  define k where "k = (of_char c :: nat)"
  have c: "c = char_of k" by (simp add: k_def)
  have k256: "k < 256" by (simp add: k_def)
  consider "k \<in> {92, 34, 8, 9, 10, 12, 13}" | "k \<notin> {92, 34, 8, 9, 10, 12, 13}" "k < 32 \<or> k = 127"
    | "k \<notin> {92, 34}" "\<not> (k < 32 \<or> k = 127)" by auto
  then show ?thesis
  proof cases
    case 1
    then have "c \<in> {CHR 0x5C, CHR 0x22, CHR 0x08, CHR 0x09, CHR 0x0A, CHR 0x0C, CHR 0x0D}"
      unfolding insert_iff empty_iff of_char_eq_iff [where ?'a = nat, symmetric] k_def [symmetric]
      by simp
    then show ?thesis by (elim insertE) (simp_all add: toml_esc_def Let_def simple_escape_def)
  next
    case 2
    have e: "toml_esc c = [CHR 0x5C, CHR ''u'', CHR ''0'', CHR ''0'', hex_char (k div 16), hex_char (k mod 16)]"
      using 2 by (auto simp: toml_esc_def Let_def simp flip: k_def)
    have h0: "hex_val CHR ''0'' = Some 0" by (simp add: hex_val_def)
    have "k div 16 < 16" "k mod 16 < 16" using k256 by simp_all
    then have "hex_val (hex_char (k div 16)) = Some (k div 16)" "hex_val (hex_char (k mod 16)) = Some (k mod 16)"
      by (simp_all add: hex_round)
    moreover have "char_of (16 * (k div 16) + k mod 16) = c" by (simp add: c)
    ultimately show ?thesis unfolding e by (simp add: h0)
  next
    case 3
    have "toml_esc c = [c]" using 3 by (auto simp: toml_esc_def Let_def simp flip: k_def)
    moreover have "c \<noteq> CHR 0x22" "c \<noteq> CHR 0x5C" using 3(1) by (auto simp: k_def)
    ultimately show ?thesis using 3(2) by (auto simp flip: k_def)
  qed
qed

text \<open>No string breaks out of its quotes.  Every value \<open>_str\<close> writes, whatever characters it
  holds, reads back as itself under TOML's rules for basic strings, and leaves what follows it.\<close>

theorem toml_str_round_trip:
  "\<exists>body. toml_str v @ rest = CHR 0x22 # body \<and> read_basic body = Some (v, rest)"
proof -
  have "read_basic (concat (map toml_esc v) @ CHR 0x22 # rest) = Some (v, rest)"
    by (induction v) (simp_all add: read_basic_esc)
  then show ?thesis by (simp add: toml_str_def)
qed

text \<open>A key that ends in a newline is written bare.  \<open>_BARE_KEY\<close> ends in \<open>$\<close>, which matches before
  a final newline too, so such a key is not quoted and its newline goes into the file, where it
  splits the line.\<close>

theorem newline_key_written_bare:
  "toml_key (k @ [CHR 0x0A]) = Ok (k @ [CHR 0x0A]) \<longleftrightarrow> k \<noteq> [] \<and> list_all bare_char k"
proof -
  have "toml_str x \<noteq> y @ [CHR 0x0A]" for x y
    by (simp add: toml_str_def)
  then show ?thesis by (auto simp: toml_key_def bare_key_def Let_def)
qed

end
