(* ===== verification/Gate.thy ===== *)
theory Gate
  imports SinkSwitch
begin

text \<open>
  The sink gate (\<open>gate.py\<close>): may a pipeline send?  Five rules in order, the transition lines,
  and the throttled fault lines.  The world it reads is a parameter: the switch files, the
  carry-over marker, whether \<open>sinks/\<close> is a directory (which may raise), and the clock.
\<close>

subsection \<open>What the gate reads of a pipeline, and of the world\<close>

datatype transport_kind = Heartbeat | DiscardOf transport_kind | OtherTransport

fun is_heartbeat_transport :: "transport_kind \<Rightarrow> bool" where
  "is_heartbeat_transport Heartbeat = True"
| "is_heartbeat_transport (DiscardOf t) = is_heartbeat_transport t"
| "is_heartbeat_transport OtherTransport = False"

record gate_pipe =
  gp_name :: string
  gp_origin :: string
  gp_client :: string
  gp_governed :: bool
  gp_transport :: transport_kind

type_synonym pipe_id = "string \<times> string"

definition pipe_id :: "gate_pipe \<Rightarrow> pipe_id" where "pipe_id p = (gp_origin p, gp_name p)"

record gate_world =
  gw_loads :: toml_loads
  gw_files :: files
  gw_lstat :: "string \<Rightarrow> lstat_result"
  gw_sinks_dir :: string
  gw_marker :: string
  gw_is_dir :: "bool res"
  gw_now :: rat

definition sink_gate_origin :: string where "sink_gate_origin = ''pipelines.d/sigmond.toml''"

definition heartbeat_client :: string where "heartbeat_client = ''sigmond''"

definition legacy :: string where "legacy = ''legacy''"

definition said_cap :: nat where "said_cap = 1024"

definition remind_s :: rat where "remind_s = 21600"

record decision =
  dc_send :: bool
  dc_rule :: nat
  dc_reason :: string

subsection \<open>The gate's memory\<close>

datatype gate_key =
    Ungoverned pipe_id
  | NoClient pipe_id
  | ExcFault pipe_id string
  | ClientFault string
  | SiteFault
  | NoSinks

datatype gate_line =
    SaysUngoverned string
  | NamesNoClient string
  | Transition string bool string
  | GateFailed string string bool
  | Recovered string bool
  | SwitchFault string bool
  | SinksMissing bool
  | TooManyLines
  | TooManyPipes

record gate =
  ga_said :: "gate_key list"
  ga_capped :: bool
  ga_last :: "(pipe_id \<times> bool) list"
  ga_fault_at :: "(gate_key \<times> rat) list"
  ga_exc_keys :: "(pipe_id \<times> gate_key list) list"
  ga_cleared :: "gate_key list"
  ga_owed :: "pipe_id list"
  ga_last_capped :: bool
  ga_mem :: switch_mem
  ga_log :: "gate_line list"

definition say :: "gate_line \<Rightarrow> gate \<Rightarrow> gate" where
  "say l g = g\<lparr>ga_log := ga_log g @ [l]\<rparr>"

text \<open>\<open>_first\<close>: True the first time a key is seen, within the cap.\<close>

definition first_time :: "gate_key \<Rightarrow> gate \<Rightarrow> bool \<times> gate" where
  "first_time k g = (if k \<in> set (ga_said g) then (False, g)
     else if said_cap \<le> length (ga_said g) then
       (False, if ga_capped g then g else say TooManyLines (g\<lparr>ga_capped := True\<rparr>))
     else (True, g\<lparr>ga_said := ga_said g @ [k]\<rparr>))"

datatype sighting = First | Remind | Silent

definition fault :: "rat \<Rightarrow> gate_key \<Rightarrow> bool \<Rightarrow> gate \<Rightarrow> sighting \<times> gate" where
  "fault now k first_logs g = (case map_of (ga_fault_at g) k of
     Some t \<Rightarrow> if now - t < remind_s then (Silent, g)
       else (Remind, g\<lparr>ga_fault_at := dict_set k now (ga_fault_at g)\<rparr>)
   | None \<Rightarrow> (case first_time k g of
       (False, g') \<Rightarrow> (Silent, g')
     | (True, g') \<Rightarrow> (if first_logs then First else Silent,
         g'\<lparr>ga_fault_at := dict_set k now (ga_fault_at g')\<rparr>)))"

definition clear_fault :: "gate_key \<Rightarrow> gate \<Rightarrow> gate" where
  "clear_fault k g = (if map_of (ga_fault_at g) k = None then g
     else g\<lparr>ga_fault_at := dict_del k (ga_fault_at g), ga_said := filter (\<lambda>x. x \<noteq> k) (ga_said g)\<rparr>)"

definition recur :: "rat \<Rightarrow> gate_key \<Rightarrow> gate \<Rightarrow> sighting option \<times> gate" where
  "recur now k g = (if k \<notin> set (ga_cleared g) then (None, g)
     else (let g' = g\<lparr>ga_cleared := filter (\<lambda>x. x \<noteq> k) (ga_cleared g)\<rparr>;
               t = (case map_of (ga_fault_at g') k of Some t \<Rightarrow> t | None \<Rightarrow> now - remind_s) in
       if now - t < remind_s then (Some Silent, g')
       else (Some First, g'\<lparr>ga_fault_at := dict_set k now (ga_fault_at g')\<rparr>)))"

subsection \<open>The rules\<close>

definition exempt_rule :: "gate_pipe \<Rightarrow> nat" where
  "exempt_rule p = (if \<not> gp_governed p \<and> gp_origin p = sink_gate_origin then 1
     else if gp_origin p = legacy \<and> (gp_client p = heartbeat_client \<or> is_heartbeat_transport (gp_transport p))
     then 2 else 0)"

definition order_by :: "effective \<Rightarrow> string" where
  "order_by eff = (case (ef_site_state eff, ef_client_state eff) of
     (Some s, Some c) \<Rightarrow> if s \<le> c then ''site'' else ''client'' | _ \<Rightarrow> ''client'')"

fun verb :: "sink_state \<Rightarrow> string" where
  "verb Off = ''off''" | "verb Fill = ''filling''" | "verb Upload = ''uploading''"

definition why :: "string \<Rightarrow> effective \<Rightarrow> string" where
  "why client eff = (if \<not> valid_client_name client then ''bad client name''
     else if ef_client_missing eff then ''no switch file (client)''
     else if ef_client_error eff \<noteq> [] then ''switch unreadable (client)''
     else if ef_site_error eff \<noteq> [] then ''switch unreadable (site)''
     else ''sink '' @ verb (ef_state eff) @ '' ('' @ order_by eff @ '')'')"

definition held_by :: "string \<Rightarrow> effective \<Rightarrow> string option" where
  "held_by client eff = (if ef_state eff = Upload then None
     else if \<not> valid_client_name client \<or> ef_client_missing eff \<or> ef_client_error eff \<noteq> []
       \<or> ef_site_error eff \<noteq> [] then Some ''fault''
     else Some (order_by eff))"

text \<open>One fault of \<open>_file_faults\<close>: present or not, and whether its first sight logs here.\<close>

definition one_fault :: "rat \<Rightarrow> gate_key \<Rightarrow> bool \<Rightarrow> bool \<Rightarrow> string \<Rightarrow> gate \<Rightarrow> gate" where
  "one_fault now k present first_logs err g = (if \<not> present then clear_fault k g
     else (case fault now k first_logs g of
         (Silent, g') \<Rightarrow> g'
       | (s, g') \<Rightarrow> say (if k = NoSinks then SinksMissing (s = Remind) else SwitchFault err (s = Remind)) g'))"

definition file_faults :: "gate_world \<Rightarrow> string \<Rightarrow> effective \<Rightarrow> gate \<Rightarrow> gate \<times> unit res" where
  "file_faults w client eff g = (let now = gw_now w;
       c = one_fault now (ClientFault client) (ef_client_error eff \<noteq> []) False (ef_client_error eff) in
     if \<not> valid_client_name client then (c g, Ok ())
     else (case (if ef_client_missing eff then map_res (\<lambda>d. \<not> d) (gw_is_dir w) else Ok False) of
         Raise e \<Rightarrow> (g, Raise e)
       | Ok no_sinks \<Rightarrow> (one_fault now NoSinks no_sinks True []
           (one_fault now SiteFault (ef_site_error eff \<noteq> []) False (ef_site_error eff) (c g)), Ok ())))"

definition send_by :: "nat \<Rightarrow> string \<Rightarrow> decision" where
  "send_by rule reason = \<lparr>dc_send = True, dc_rule = rule, dc_reason = reason\<rparr>"

definition judge :: "gate_world \<Rightarrow> gate_pipe \<Rightarrow> gate \<Rightarrow> gate \<times> decision res" where
  "judge w p g = (if exempt_rule p = 1 then (g, Ok (send_by 1 ''ungoverned''))
   else (let g1 = (if gp_governed p then g else (case first_time (Ungoverned (pipe_id p)) g of
             (True, g') \<Rightarrow> say (SaysUngoverned (gp_name p)) g' | (False, g') \<Rightarrow> g')) in
     if exempt_rule p = 2 then (g1, Ok (send_by 2 ''legacy heartbeat''))
     else (case marker_stands (gw_lstat w) (gw_marker w) (ga_mem g1) of (stands, m) \<Rightarrow>
       let g2 = g1\<lparr>ga_mem := m\<rparr> in
       if \<not> stands then (g2, Ok (send_by 3 ''no carry-over marker''))
       else if gp_client p = [] then
         (case first_time (NoClient (pipe_id p)) g2 of
            (True, g') \<Rightarrow> (say (NamesNoClient (gp_name p)) g', Ok (send_by 4 ''no client''))
          | (False, g') \<Rightarrow> (g', Ok (send_by 4 ''no client'')))
       else (case effective_state (gw_loads w) (gw_files w) (gw_sinks_dir w) (gp_client p) (ga_mem g2) of
         (eff, m') \<Rightarrow> (case file_faults w (gp_client p) eff (g2\<lparr>ga_mem := m'\<rparr>) of
           (g3, Raise e) \<Rightarrow> (g3, Raise e)
         | (g3, Ok _) \<Rightarrow> (g3, Ok (if ef_state eff = Upload then send_by 5 ''sink uploading''
             else \<lparr>dc_send = False, dc_rule = 5, dc_reason = why (gp_client p) eff\<rparr>)))))))"

subsection \<open>A decision\<close>

definition transition :: "gate_pipe \<Rightarrow> decision \<Rightarrow> gate \<Rightarrow> gate" where
  "transition p d g = (if dc_rule d = 0 then g
     else (case map_of (ga_last g) (pipe_id p) of
         None \<Rightarrow> if said_cap \<le> length (ga_last g)
           then (if ga_last_capped g then g else say TooManyPipes (g\<lparr>ga_last_capped := True\<rparr>))
           else (let g' = g\<lparr>ga_last := dict_set (pipe_id p) (dc_send d) (ga_last g)\<rparr> in
             if dc_send d then g' else say (Transition (gp_name p) False (dc_reason d)) g')
       | Some prev \<Rightarrow> (let g' = g\<lparr>ga_last := dict_set (pipe_id p) (dc_send d) (ga_last g)\<rparr> in
           if prev = dc_send d then g' else say (Transition (gp_name p) (dc_send d) (dc_reason d)) g')))"

definition clear_exceptions :: "gate_pipe \<Rightarrow> decision \<Rightarrow> gate \<Rightarrow> gate" where
  "clear_exceptions p d g = (let k = pipe_id p;
       keys = (case map_of (ga_exc_keys g) k of Some ks \<Rightarrow> ks | None \<Rightarrow> []);
       g' = g\<lparr>ga_exc_keys := dict_del k (ga_exc_keys g),
              ga_cleared := ga_cleared g @ filter (\<lambda>x. x \<notin> set (ga_cleared g)) keys,
              ga_owed := filter (\<lambda>x. x \<noteq> k) (ga_owed g)\<rparr>
     in if k \<in> set (ga_owed g) then say (Recovered (gp_name p) (dc_send d)) g' else g')"

definition note_exception :: "gate_world \<Rightarrow> gate_pipe \<Rightarrow> exn \<Rightarrow> gate \<Rightarrow> gate" where
  "note_exception w p e g = (let k = pipe_id p; fk = ExcFault k (exn_type e);
       (r, g1) = recur (gw_now w) fk g;
       (s, g2) = (case r of Some s \<Rightarrow> (s, g1) | None \<Rightarrow> fault (gw_now w) fk True g1);
       g3 = (if map_of (ga_fault_at g2) fk = None then g2
         else (let ks = (case map_of (ga_exc_keys g2) k of Some ks \<Rightarrow> ks | None \<Rightarrow> []) in
           g2\<lparr>ga_exc_keys := dict_set k (if fk \<in> set ks then ks else ks @ [fk]) (ga_exc_keys g2)\<rparr>));
       g4 = (if s \<noteq> Silent \<and> length (ga_owed g3) < said_cap \<and> k \<notin> set (ga_owed g3)
         then g3\<lparr>ga_owed := ga_owed g3 @ [k]\<rparr> else g3)
     in if s = Silent then g4 else say (GateFailed (gp_name p) (exn_type e) (s = Remind)) g4)"

definition decide :: "gate_world \<Rightarrow> gate_pipe \<Rightarrow> gate \<Rightarrow> decision \<times> gate" where
  "decide w p g = (let (d, g') = (case judge w p g of
       (g1, Ok d) \<Rightarrow> (d, clear_exceptions p d g1)
     | (g1, Raise e) \<Rightarrow> (\<lparr>dc_send = False, dc_rule = 0,
         dc_reason = ''gate fault: '' @ exn_type e @ '': '' @ exn_text e\<rparr>, note_exception w p e g1))
   in (d, transition p d g'))"

definition gate_may_send :: "gate_world \<Rightarrow> gate_pipe \<Rightarrow> gate \<Rightarrow> bool \<times> gate" where
  "gate_may_send w p g = (let (d, g') = decide w p g in (dc_send d, g'))"

fun fault_pipe :: "gate_key \<Rightarrow> pipe_id option" where
  "fault_pipe (Ungoverned k) = Some k" | "fault_pipe (NoClient k) = Some k"
| "fault_pipe (ExcFault k _) = Some k" | "fault_pipe _ = None"

definition of_gone_pipe :: "pipe_id set \<Rightarrow> gate_key \<Rightarrow> bool" where
  "of_gone_pipe keep f = (case fault_pipe f of Some k \<Rightarrow> k \<notin> keep | None \<Rightarrow> True)"

text \<open>\<open>forget\<close>: the state of every pipeline that no longer runs goes.\<close>

definition forget :: "gate_pipe list \<Rightarrow> gate \<Rightarrow> gate" where
  "forget pipes g = (let keep = pipe_id ` set pipes;
       gone = concat (map snd (filter (\<lambda>(k, _). k \<notin> keep) (ga_exc_keys g)))
         @ filter (of_gone_pipe keep) (ga_cleared g)
     in g\<lparr>ga_last := filter (\<lambda>(k, _). k \<in> keep) (ga_last g),
          ga_owed := filter (\<lambda>k. k \<in> keep) (ga_owed g),
          ga_exc_keys := filter (\<lambda>(k, _). k \<in> keep) (ga_exc_keys g),
          ga_cleared := filter (\<lambda>f. \<not> of_gone_pipe keep f) (ga_cleared g),
          ga_fault_at := filter (\<lambda>(f, _). f \<notin> set gone) (ga_fault_at g),
          ga_said := filter (\<lambda>f. f \<notin> set gone) (ga_said g)\<rparr>)"

subsection \<open>What sends\<close>

text \<open>The state a client's files declare, site included: the reference \<open>effective_state\<close> follows.\<close>

definition declared_state :: "gate_world \<Rightarrow> string \<Rightarrow> sink_state" where
  "declared_state w client = (if \<not> valid_client_name client then Off
     else case declared (gw_loads w) (gw_files w) (switch_file (gw_sinks_dir w) client) of
       None \<Rightarrow> Off
     | Some c \<Rightarrow> if no_file (gw_files w) (switch_file (gw_sinks_dir w) site) then c
         else (case declared (gw_loads w) (gw_files w) (switch_file (gw_sinks_dir w) site) of
           None \<Rightarrow> Off | Some s \<Rightarrow> min c s))"

definition marker_absent :: "gate_world \<Rightarrow> bool" where
  "marker_absent w \<longleftrightarrow> gw_lstat w (gw_marker w) \<in> {LNoEnt, LNotDir}"

definition gate_fresh :: "gate_world \<Rightarrow> gate \<Rightarrow> bool" where
  "gate_fresh w g \<longleftrightarrow> cache_fresh (gw_loads w) (gw_files w) (ga_mem g)"

lemma first_time_mem [simp]: "ga_mem (snd (first_time k g)) = ga_mem g"
  by (simp add: first_time_def say_def)

lemma say_mem [simp]: "ga_mem (say l g) = ga_mem g"
  by (simp add: say_def)

lemma marker_stands_fresh:
  "cache_fresh l f m \<Longrightarrow> cache_fresh l f (snd (marker_stands ls p m))"
  unfolding marker_stands_def by (cases "ls p") (simp_all add: cache_fresh_def)

lemma marker_stands_iff:
  "fst (marker_stands ls p m) \<longleftrightarrow> ls p \<notin> {LNoEnt, LNotDir}"
  by (simp add: marker_stands_def split: lstat_result.split)

lemma upload_not_missing:
  assumes "effective_state l f dir client m = (eff, m')" "ef_state eff = Upload"
  shows "\<not> ef_client_missing eff"
proof
  assume "ef_client_missing eff"
  moreover have "valid_client_name client" using assms by (auto simp: effective_state_def Let_def split: if_splits)
  ultimately have "ef_state eff = Off"
    using assms(1) by (auto simp: effective_state_def Let_def stricter_def split: prod.splits)
  then show False using assms(2) by simp
qed

text \<open>C7: the gate sends exactly what the rules allow.  A decision sends if and only if the pipeline is
  exempt (ungoverned by sigmond's own file, or the legacy heartbeat), or no carry-over marker
  stands, or it names no client, or the client's files (the stricter of its own and the site's)
  declare \<open>upload\<close>.  What the gate has logged before, and a failure inside the decision, never
  make it send.\<close>

theorem gate_sends_iff:
  assumes "gate_fresh w g"
  shows "dc_send (fst (decide w p g)) \<longleftrightarrow>
    exempt_rule p \<noteq> 0 \<or> marker_absent w \<or> gp_client p = [] \<or> declared_state w (gp_client p) = Upload"
proof -
  define g1 where "g1 = (if gp_governed p then g else (case first_time (Ungoverned (pipe_id p)) g of
             (True, g') \<Rightarrow> say (SaysUngoverned (gp_name p)) g' | (False, g') \<Rightarrow> g'))"
  have m1: "ga_mem g1 = ga_mem g"
    using first_time_mem [of "Ungoverned (pipe_id p)" g]
    by (cases "first_time (Ungoverned (pipe_id p)) g") (auto simp: g1_def split: bool.split)
  obtain st m where ms: "marker_stands (gw_lstat w) (gw_marker w) (ga_mem g1) = (st, m)" by fastforce
  have st: "st \<longleftrightarrow> \<not> marker_absent w"
    using marker_stands_iff [of "gw_lstat w" "gw_marker w" "ga_mem g1"] ms by (simp add: marker_absent_def)
  have fm: "cache_fresh (gw_loads w) (gw_files w) m"
    using marker_stands_fresh [of "gw_loads w" "gw_files w" "ga_mem g1" "gw_lstat w" "gw_marker w"]
      assms ms m1 by (simp add: gate_fresh_def)
  obtain eff m' where ef: "effective_state (gw_loads w) (gw_files w) (gw_sinks_dir w) (gp_client p) m = (eff, m')"
    by fastforce
  have es: "ef_state eff = declared_state w (gp_client p)"
    using effective_state_strictest [OF fm, of "gw_sinks_dir w" "gp_client p"] ef
    by (simp add: declared_state_def)
  obtain g3 r where ff: "file_faults w (gp_client p) eff (g1\<lparr>ga_mem := m, ga_mem := m'\<rparr>) = (g3, r)" by fastforce
  have ok: "\<exists>u. r = Ok u" if "ef_state eff = Upload"
    using ff upload_not_missing [OF ef that]
    by (auto simp: file_faults_def Let_def split: if_splits)
  have rule2: "exempt_rule p \<in> {0, 1, 2}" by (simp add: exempt_rule_def)
  have j: "snd (judge w p g) = (if exempt_rule p = 1 then Ok (send_by 1 ''ungoverned'')
      else if exempt_rule p = 2 then Ok (send_by 2 ''legacy heartbeat'')
      else if \<not> st then Ok (send_by 3 ''no carry-over marker'')
      else if gp_client p = [] then Ok (send_by 4 ''no client'')
      else (case r of Raise e \<Rightarrow> Raise e | Ok _ \<Rightarrow> Ok (if ef_state eff = Upload then send_by 5 ''sink uploading''
             else \<lparr>dc_send = False, dc_rule = 5, dc_reason = why (gp_client p) eff\<rparr>)))"
    using ms ef ff unfolding judge_def g1_def [symmetric] Let_def
    by (simp split: prod.split bool.split res.split)
  have d: "dc_send (fst (decide w p g)) = (case snd (judge w p g) of Ok d \<Rightarrow> dc_send d | Raise _ \<Rightarrow> False)"
    by (simp add: decide_def Let_def split: prod.split res.split)
  show ?thesis
    using rule2 ok es st unfolding d j
    by (auto simp: send_by_def split: res.split)
qed

definition demo_gate :: gate where
  "demo_gate = \<lparr>ga_said = [], ga_capped = False, ga_last = [], ga_fault_at = [], ga_exc_keys = [],
     ga_cleared = [], ga_owed = [], ga_last_capped = False,
     ga_mem = \<lparr>sm_cache = [], sm_logged = [], sm_log = []\<rparr>, ga_log = []\<rparr>"

definition demo_world :: "lstat_result \<Rightarrow> gate_world" where
  "demo_world mark = \<lparr>gw_loads = (\<lambda>_. Ok [(''state'', PStr ''fill'')]), gw_files = demo_files,
     gw_lstat = (\<lambda>_. mark), gw_sinks_dir = ''sinks'', gw_marker = ''carry-over-v1.done'',
     gw_is_dir = Ok True, gw_now = 0\<rparr>"

definition demo_gate_pipe :: gate_pipe where
  "demo_gate_pipe = \<lparr>gp_name = ''psk'', gp_origin = ''pipelines.d/psk.toml'', gp_client = ''psk-recorder'',
     gp_governed = True, gp_transport = OtherTransport\<rparr>"

theorem gate_sends_iff_witness:
  "\<not> dc_send (fst (decide (demo_world Stands) demo_gate_pipe demo_gate))
   \<and> dc_send (fst (decide (demo_world LNoEnt) demo_gate_pipe demo_gate))"
proof -
  have f: "gate_fresh (demo_world mk) demo_gate" for mk
    by (simp add: gate_fresh_def cache_fresh_def demo_gate_def)
  show ?thesis
    using gate_sends_iff [OF f [of Stands], of demo_gate_pipe] gate_sends_iff [OF f [of LNoEnt], of demo_gate_pipe]
    by (simp add: demo_gate_pipe_def demo_world_def marker_absent_def declared_state_def declared_def
        demo_files_def no_file_def py_get_def state_of_def exempt_rule_def legacy_def sink_gate_origin_def min_def)
qed

subsection \<open>Transition lines\<close>

fun is_transition :: "gate_line \<Rightarrow> bool" where
  "is_transition (Transition _ _ _) = True" | "is_transition _ = False"

definition told :: "gate \<Rightarrow> (pipe_id \<times> bool) list \<times> gate_line list" where
  "told g = (ga_last g, filter is_transition (ga_log g))"

lemma told_say [simp]: "\<not> is_transition l \<Longrightarrow> told (say l g) = told g"
  by (simp add: told_def say_def)

lemma told_first_time: "first_time k g = (b, g') \<Longrightarrow> told g' = told g"
  by (auto simp: first_time_def told_def say_def split: if_splits)

lemma told_fault: "fault now k l g = (s, g') \<Longrightarrow> told g' = told g"
  by (auto simp: fault_def told_def dest!: told_first_time split: option.splits if_splits prod.splits bool.splits)

lemma told_clear [simp]: "told (clear_fault k g) = told g"
  by (simp add: clear_fault_def told_def)

lemma told_recur: "recur now k g = (r, g') \<Longrightarrow> told g' = told g"
  by (auto simp: recur_def Let_def told_def split: if_splits)

lemma told_one_fault [simp]: "told (one_fault now k pr l err g) = told g"
  using told_fault [of now k l g]
  by (simp add: one_fault_def split: prod.split sighting.split)

lemma told_file_faults: "file_faults w c eff g = (g', r) \<Longrightarrow> told g' = told g"
  by (auto simp: file_faults_def Let_def split: if_splits res.splits)

lemma told_mem [simp]: "told (g\<lparr>ga_mem := m\<rparr>) = told g"
  by (simp add: told_def)

lemma told_judge: "judge w p g = (g', r) \<Longrightarrow> told g' = told g"
  by (auto simp: judge_def Let_def dest!: told_file_faults told_first_time
      split: if_splits prod.splits bool.splits res.splits)

lemma told_clear_exceptions [simp]: "told (clear_exceptions p d g) = told g"
  by (simp add: clear_exceptions_def Let_def) (simp add: told_def)

lemma told_note_exception [simp]: "told (note_exception w p e g) = told g"
proof -
  obtain r g1 where r: "recur (gw_now w) (ExcFault (pipe_id p) (exn_type e)) g = (r, g1)" by fastforce
  obtain s g2 where s: "(case r of Some s \<Rightarrow> (s, g1)
      | None \<Rightarrow> fault (gw_now w) (ExcFault (pipe_id p) (exn_type e)) True g1) = (s, g2)" by fastforce
  have "told g2 = told g1" using s by (auto dest: told_fault split: option.splits)
  then have "told g2 = told g" using told_recur [OF r] by simp
  then show ?thesis by (simp add: note_exception_def Let_def r s) (auto simp: told_def)
qed

text \<open>A pipeline held for a week logs nothing more.  When two decisions in a row on a pipeline
  come out the same and neither is a fault of the gate, the second one logs no transition line,
  whatever else changed in the world between them.\<close>

theorem steady_pipeline_is_silent:
  assumes "decide w p g = (d, g1)" "decide w' p g1 = (d', g2)"
    and "dc_rule d \<noteq> 0" "dc_send d' = dc_send d"
  shows "filter is_transition (ga_log g2) = filter is_transition (ga_log g1)"
proof -
  have step: "\<exists>h. told h = told a \<and> b = transition p x h" if "decide v p a = (x, b)" for v a x b
  proof -
    obtain j q where j: "judge v p a = (j, q)" by fastforce
    note tj = told_judge [OF j]
    show ?thesis
    proof (cases q)
      case (Ok y)
      then show ?thesis using that j tj
        by (intro exI [of _ "clear_exceptions p y j"]) (auto simp: decide_def Let_def)
    next
      case (Raise e)
      then show ?thesis using that j tj
        by (intro exI [of _ "note_exception v p e j"]) (auto simp: decide_def Let_def)
    qed
  qed
  from step [OF assms(1)] obtain h where h: "told h = told g" "g1 = transition p d h" by blast
  from step [OF assms(2)] obtain h' where h': "told h' = told g1" "g2 = transition p d' h'" by blast
  have last': "ga_last h' = ga_last g1" "filter is_transition (ga_log h') = filter is_transition (ga_log g1)"
    using h'(1) by (simp_all add: told_def)
  consider "map_of (ga_last g1) (pipe_id p) = Some (dc_send d)"
    | "map_of (ga_last g1) (pipe_id p) = None" "said_cap \<le> length (ga_last g1)"
    using h(2) assms(3) by (auto simp: transition_def Let_def say_def split: option.splits if_splits)
  then have "filter is_transition (ga_log g2) = filter is_transition (ga_log h')"
    by cases (use assms(4) h'(2) last' in \<open>auto simp: transition_def Let_def say_def split: option.splits\<close>)
  then show ?thesis using last' by simp
qed

theorem steady_pipeline_is_silent_witness:
  "\<exists>d g1 d' g2. decide (demo_world Stands) demo_gate_pipe demo_gate = (d, g1)
    \<and> decide (demo_world Stands) demo_gate_pipe g1 = (d', g2)
    \<and> ga_log g1 = [Transition ''psk'' False ''sink filling (site)'']
    \<and> filter is_transition (ga_log g2) = filter is_transition (ga_log g1)"
proof -
  obtain d g1 where 1: "decide (demo_world Stands) demo_gate_pipe demo_gate = (d, g1)" by fastforce
  obtain d' g2 where 2: "decide (demo_world Stands) demo_gate_pipe g1 = (d', g2)" by fastforce
  have "(fst (decide (demo_world Stands) demo_gate_pipe demo_gate), ga_log (snd (decide (demo_world Stands) demo_gate_pipe demo_gate)))
      = (\<lparr>dc_send = False, dc_rule = 5, dc_reason = ''sink filling (site)''\<rparr>, [Transition ''psk'' False ''sink filling (site)''])"
    and "\<not> dc_send (fst (decide (demo_world Stands) demo_gate_pipe (snd (decide (demo_world Stands) demo_gate_pipe demo_gate))))"
    by code_simp+
  then show ?thesis
    using 1 2 steady_pipeline_is_silent [OF 1 2] by auto
qed

end
