(* ===== verification/Sink.thy ===== *)
theory Sink
  imports SinkSwitch
begin

text \<open>
  The local sink: the \<open>pending_uploads\<close> queue, and the writer that fills it (\<open>sink/writer.py\<close>).

  A payload is the JSON value \<open>json.loads\<close> reads back from the stored text, or \<open>Corrupt\<close> when it
  does not parse.  A row the producer hands the writer is a value whose dates and byte strings
  are already the texts \<open>_json_default\<close> makes of them; a value of another type (\<open>POther\<close>) makes
  \<open>json.dumps\<close> raise.  Failures of SQLite come in as flags.
\<close>

subsection \<open>The queue\<close>

datatype payload = Doc pyval | Corrupt

record qrow =
  qr_id :: nat
  qr_db :: string
  qr_table :: string
  qr_version :: int
  qr_payload :: payload
  qr_queued_at :: string
  qr_producer :: string
  qr_local :: bool

record sinkdb =
  sd_has_table :: bool
  sd_has_producer :: bool
  sd_has_local :: bool
  sd_rows :: "qrow list"
  sd_next_id :: nat

definition wf_sink :: "sinkdb \<Rightarrow> bool" where
  "wf_sink db \<longleftrightarrow> sorted_wrt (<) (map qr_id (sd_rows db)) \<and> (\<forall>r \<in> set (sd_rows db). qr_id r < sd_next_id db)"

text \<open>\<open>ensure_columns\<close>: the names it added, in order.  A column's default answers for every old row.\<close>

definition ensure_columns :: "sinkdb \<Rightarrow> string list \<times> sinkdb" where
  "ensure_columns db = (if \<not> sd_has_table db then ([], db)
     else (let p = \<not> sd_has_producer db; l = \<not> sd_has_local db in
       ((if p then [''producer''] else []) @ (if l then [''local''] else []),
        db\<lparr>sd_has_producer := True, sd_has_local := True,
           sd_rows := map (\<lambda>r. r\<lparr>qr_producer := if p then [] else qr_producer r,
             qr_local := if l then False else qr_local r\<rparr>) (sd_rows db)\<rparr>)))"

definition init_queue :: "sinkdb \<Rightarrow> sinkdb" where
  "init_queue db = snd (ensure_columns (if sd_has_table db then db
     else db\<lparr>sd_has_table := True, sd_has_producer := True, sd_has_local := True\<rparr>))"

subsection \<open>Whose row it is (D12)\<close>

definition producer_by_db :: "(string \<times> string) list" where
  "producer_by_db = [(''wspr'', ''wspr-recorder''), (''codar'', ''codar-sounder''),
     (''superdarn'', ''superdarn-sounder''), (''hfdl'', ''hfdl-recorder''), (''timestd'', ''hf-timestd'')]"

definition row_mode :: "pyval \<Rightarrow> pyval" where
  "row_mode row = (case row of PDict d \<Rightarrow> py_get d ''mode'' | _ \<Rightarrow> PNone)"

definition infer_producer :: "string \<Rightarrow> pyval \<Rightarrow> string" where
  "infer_producer target_db row = (if target_db = ''psk'' then
       (case row_mode row of
          PStr mode \<Rightarrow> if py_lower (py_strip mode) = ''msk144'' then ''meteor-scatter'' else ''psk-recorder''
        | _ \<Rightarrow> ''psk-recorder'')
     else (case map_of producer_by_db target_db of Some c \<Rightarrow> c | None \<Rightarrow> []))"

subsection \<open>Where the sink is\<close>

text \<open>The environment, the config file's \<open>path\<close> (already read), and the questions asked of the disk.\<close>

record sink_env =
  se_env :: "string \<Rightarrow> string option"
  se_config_path :: "string option"
  se_exists :: "string \<Rightarrow> bool"
  se_usable :: "string \<Rightarrow> bool"

definition legacy_sink_path :: string where "legacy_sink_path = ''/var/lib/sigmond/sink.db''"

definition env_text :: "sink_env \<Rightarrow> string \<Rightarrow> string" where
  "env_text e k = (case se_env e k of None \<Rightarrow> [] | Some v \<Rightarrow> py_strip v)"

text \<open>\<open>os.path.join(base, "sink.db")\<close>.\<close>

definition join_path :: "string \<Rightarrow> string \<Rightarrow> string" where
  "join_path base name = (if base = [] then name
     else if last base = CHR ''/'' then base @ name else base @ ''/'' @ name)"

definition sink_choice :: "sink_env \<Rightarrow> string option \<Rightarrow> string option \<times> string" where
  "sink_choice e state_dir =
    (if env_text e ''HAMSCI_SINK_PATH'' \<noteq> [] then (Some (env_text e ''HAMSCI_SINK_PATH''), ''env'')
     else if env_text e ''SIGMOND_SQLITE_PATH'' \<noteq> [] then (Some (env_text e ''SIGMOND_SQLITE_PATH''), ''env'')
     else case se_config_path e of Some p \<Rightarrow> (Some p, ''config'')
     | None \<Rightarrow> if se_exists e legacy_sink_path then (Some legacy_sink_path, ''legacy'')
       else (let given = (case state_dir of Some d \<Rightarrow> d | None \<Rightarrow> []);
                 base = (if given \<noteq> [] then given
                   else if env_text e ''HS_UPLOADER_STATE_DIR'' \<noteq> [] then env_text e ''HS_UPLOADER_STATE_DIR''
                   else ''/var/lib/hs-uploader'');
                 candidate = join_path base ''sink.db''
         in if se_usable e candidate then (Some candidate, ''state'') else (None, ''none'')))"

definition sink_path :: "sink_env \<Rightarrow> string option \<Rightarrow> string option" where
  "sink_path e state_dir = fst (sink_choice e state_dir)"

text \<open>\<open>_config_path\<close>: the file's bytes (or how they failed), and the parsed \<open>path\<close>.\<close>

definition config_path :: "toml_loads \<Rightarrow> read_result \<Rightarrow> string option \<times> bool" where
  "config_path loads rd = (case rd of
     Gone \<Rightarrow> (None, False)
   | ReadFails _ \<Rightarrow> (None, True)
   | Content raw \<Rightarrow> (case loads raw of
       Raise _ \<Rightarrow> (None, True)
     | Ok data \<Rightarrow> (case py_get data ''path'' of
         PStr v \<Rightarrow> if py_strip v \<noteq> [] then (Some (py_strip v), False) else (None, True)
       | _ \<Rightarrow> (None, True))))"

text \<open>\<open>Writer.from_env\<close>'s own rule: an implicit path that is not writable is no sink.\<close>

definition writer_sink :: "sink_env \<Rightarrow> string option" where
  "writer_sink e = (case sink_choice e None of
     (Some p, step) \<Rightarrow> if step \<in> {''legacy'', ''state''} \<and> \<not> se_usable e p then None else Some p
   | (None, _) \<Rightarrow> None)"

subsection \<open>The writer\<close>

datatype health = HOk | HUnreachable | HDegraded | HNoop

datatype writer_line = StoringNothing string | StoringAgain string | CheckFailed string | TooManyProducers

record writer =
  wr_database :: string
  wr_table :: string
  wr_schema_version :: int
  wr_producer :: string
  wr_local :: bool
  wr_batch_rows :: nat
  wr_auto_flush :: rat
  wr_noop :: bool
  wr_buffer :: "pyval list"
  wr_schema_initialized :: bool
  wr_health :: health
  wr_last_flush :: rat
  wr_dropped :: "(string \<times> nat) list"
  wr_dropping :: "(string \<times> bool) list"
  wr_cap_said :: bool
  wr_check_failed :: "(string \<times> rat) list"
  wr_mem :: switch_mem
  wr_log :: "writer_line list"

text \<open>What the writer meets: the switch library and its files, the clocks, and SQLite's mood.\<close>

record writer_world =
  ww_api :: bool
  ww_loads :: toml_loads
  ww_files :: files
  ww_lstat :: "string \<Rightarrow> lstat_result"
  ww_sinks_dir :: string
  ww_marker :: string
  ww_check_raises :: "exn option"
  ww_now :: rat
  ww_now_iso :: string
  ww_connect_fails :: bool
  ww_insert_fails :: bool

definition producer_cap :: nat where "producer_cap = 1024"

definition producer_of :: "writer \<Rightarrow> pyval \<Rightarrow> string" where
  "producer_of w row = (if wr_producer w \<noteq> [] then wr_producer w else infer_producer (wr_database w) row)"

definition reads_off :: "writer_world \<Rightarrow> string \<Rightarrow> switch_mem \<Rightarrow> bool \<times> switch_mem" where
  "reads_off ww producer m = (if producer = [] \<or> \<not> valid_client_name producer then (False, m)
     else (case effective_state (ww_loads ww) (ww_files ww) (ww_sinks_dir ww) producer m of
       (eff, m') \<Rightarrow> (\<not> ef_client_missing eff \<and> ef_state eff = Off, m')))"

definition note_verdict :: "string \<Rightarrow> bool \<Rightarrow> writer \<Rightarrow> writer" where
  "note_verdict producer drop_it w = (let known = map_of (wr_dropping w) producer in
     if (case known of Some b \<Rightarrow> b | None \<Rightarrow> False) = drop_it then w
     else if known = None \<and> producer_cap \<le> length (wr_dropping w) then
       (if wr_cap_said w then w else w\<lparr>wr_cap_said := True, wr_log := wr_log w @ [TooManyProducers]\<rparr>)
     else w\<lparr>wr_dropping := dict_set producer drop_it (wr_dropping w),
            wr_log := wr_log w @ [if drop_it then StoringNothing producer else StoringAgain producer]\<rparr>)"

text \<open>The loop of \<open>_judge\<close>: one verdict per producer, the rows kept, the rows dropped per producer.\<close>

fun judge_rows :: "writer_world \<Rightarrow> writer \<Rightarrow> bool \<Rightarrow> pyval list \<Rightarrow> (string \<times> bool) list \<Rightarrow> switch_mem
    \<Rightarrow> pyval list \<times> (string \<times> bool) list \<times> switch_mem" where
  "judge_rows ww w enforced [] verdict m = ([], verdict, m)"
| "judge_rows ww w enforced (row # rows) verdict m = (let p = producer_of w row;
     (d, verdict', m') = (case map_of verdict p of
        Some d \<Rightarrow> (d, verdict, m)
      | None \<Rightarrow> (let (d, m') = (if enforced then reads_off ww p m else (False, m)) in (d, dict_set p d verdict, m')));
     (kept, verdict'', m'') = judge_rows ww w enforced rows verdict' m'
   in (if d then kept else row # kept, verdict'', m''))"

definition count_drops :: "writer \<Rightarrow> pyval list \<Rightarrow> (string \<times> bool) list \<Rightarrow> (string \<times> nat) list" where
  "count_drops w rows verdict = fold (\<lambda>row ds. let p = producer_of w row in
     if map_of verdict p = Some True then dict_set p ((case map_of ds p of Some n \<Rightarrow> n | None \<Rightarrow> 0) + 1) ds else ds) rows []"

definition add_drops :: "(string \<times> nat) list \<Rightarrow> writer \<Rightarrow> writer" where
  "add_drops ds w = w\<lparr>wr_dropped := fold (\<lambda>(p, n) acc. if map_of (wr_dropping w) p = None then acc
     else dict_set p ((case map_of acc p of Some k \<Rightarrow> k | None \<Rightarrow> 0) + n) acc) ds (wr_dropped w)\<rparr>"

definition note_check_failed :: "exn \<Rightarrow> rat \<Rightarrow> writer \<Rightarrow> writer" where
  "note_check_failed e now w = (let kind = exn_type e; prev = map_of (wr_check_failed w) kind in
     if (prev = None \<and> length (wr_check_failed w) < producer_cap)
       \<or> (case prev of Some t \<Rightarrow> 21600 \<le> now - t | None \<Rightarrow> False)
     then w\<lparr>wr_check_failed := dict_set kind now (wr_check_failed w), wr_log := wr_log w @ [CheckFailed kind]\<rparr>
     else w)"

definition judge_batch :: "writer_world \<Rightarrow> pyval list \<Rightarrow> writer \<Rightarrow> pyval list \<times> writer" where
  "judge_batch ww rows w = (if wr_local w \<or> \<not> ww_api ww then (rows, w)
     else (case ww_check_raises ww of
       Some e \<Rightarrow> (rows, note_check_failed e (ww_now ww) w)
     | None \<Rightarrow> (let (enforced, m) = marker_stands (ww_lstat ww) (ww_marker ww) (wr_mem w) in
         if \<not> enforced \<and> \<not> list_ex snd (wr_dropping w) then (rows, w\<lparr>wr_mem := m\<rparr>)
         else (let (kept, verdict, m') = judge_rows ww w enforced rows [] m;
                   w' = fold (\<lambda>(p, d). note_verdict p d) verdict (w\<lparr>wr_mem := m'\<rparr>)
           in (kept, add_drops (count_drops w rows verdict) w')))))"

text \<open>\<open>json.dumps\<close> then \<open>json.loads\<close>: the value, or \<open>TypeError\<close>.\<close>

fun json_value :: "pyval \<Rightarrow> pyval res" where
  "json_value (POther t) = Raise (Exn ''TypeError'' (t @ '' not JSON-serializable''))"
| "json_value (PList xs) = map_res PList (mapM_res json_value xs)"
| "json_value (PDict d) = map_res PDict (mapM_res (\<lambda>(k, v). map_res (Pair k) (json_value v)) d)"
| "json_value v = Ok v"

definition queue_rows :: "writer \<Rightarrow> string \<Rightarrow> nat \<Rightarrow> (pyval \<times> pyval) list \<Rightarrow> qrow list" where
  "queue_rows w now_iso first rows = map (\<lambda>(i, row, doc). \<lparr>qr_id = first + i, qr_db = wr_database w,
     qr_table = wr_table w, qr_version = wr_schema_version w, qr_payload = Doc doc,
     qr_queued_at = now_iso, qr_producer = producer_of w row, qr_local = wr_local w\<rparr>) (enumerate 0 rows)"

definition flush_failed :: "writer \<Rightarrow> writer" where
  "flush_failed w = w\<lparr>wr_schema_initialized := False,
     wr_health := if wr_health w = HDegraded then HDegraded else HUnreachable\<rparr>"

definition flush :: "writer_world \<Rightarrow> writer \<Rightarrow> sinkdb \<Rightarrow> writer \<times> sinkdb" where
  "flush ww w db = (if wr_noop w \<or> wr_buffer w = [] then (w, db)
     else if ww_connect_fails ww then (flush_failed w, db)
     else (let db1 = (if wr_schema_initialized w then db else init_queue db) in
       case mapM_res json_value (wr_buffer w) of
         Raise _ \<Rightarrow> (flush_failed w, db1)
       | Ok docs \<Rightarrow> if ww_insert_fails ww then (flush_failed w, db1)
           else (w\<lparr>wr_schema_initialized := True, wr_buffer := [], wr_last_flush := ww_now ww, wr_health := HOk\<rparr>,
             db1\<lparr>sd_rows := sd_rows db1 @ queue_rows w (ww_now_iso ww) (sd_next_id db1) (zip (wr_buffer w) docs),
                 sd_next_id := sd_next_id db1 + length docs\<rparr>)))"

definition insert_rows :: "writer_world \<Rightarrow> pyval list \<Rightarrow> writer \<Rightarrow> sinkdb \<Rightarrow> writer \<times> sinkdb \<times> unit res" where
  "insert_rows ww rows w db = (if wr_noop w \<or> rows = [] then (w, db, Ok ())
     else (let (kept, w1) = judge_batch ww rows w; buf = wr_buffer w1 @ kept; w2 = w1\<lparr>wr_buffer := buf\<rparr> in
       if 2 * wr_batch_rows w < length buf
       then (w2\<lparr>wr_health := HDegraded, wr_buffer := take (2 * wr_batch_rows w) buf\<rparr>, db,
             Raise (Exn ''BufferFull'' ''hamsci_sink buffer overflow''))
       else if wr_batch_rows w \<le> length buf
         \<or> (0 < wr_auto_flush w \<and> buf \<noteq> [] \<and> wr_auto_flush w \<le> ww_now ww - wr_last_flush w2)
       then (let (w3, db') = flush ww w2 db in (w3, db', Ok ()))
       else (w2, db, Ok ())))"

text \<open>\<open>Writer.__init__\<close>; no sink configured makes the writer a no-op.\<close>

definition new_writer :: "string \<Rightarrow> string \<Rightarrow> int \<Rightarrow> string option \<Rightarrow> bool \<Rightarrow> nat \<Rightarrow> rat \<Rightarrow> string option \<Rightarrow> rat
    \<Rightarrow> writer" where
  "new_writer db tbl version who loc batch auto config now = \<lparr>wr_database = db, wr_table = tbl,
     wr_schema_version = version, wr_producer = (case who of Some p \<Rightarrow> p | None \<Rightarrow> []), wr_local = loc,
     wr_batch_rows = batch, wr_auto_flush = auto, wr_noop = (config = None), wr_buffer = [],
     wr_schema_initialized = False, wr_health = (if config = None then HNoop else HOk), wr_last_flush = now,
     wr_dropped = [], wr_dropping = [], wr_cap_said = False, wr_check_failed = [],
     wr_mem = \<lparr>sm_cache = [], sm_logged = [], sm_log = []\<rparr>, wr_log = []\<rparr>"

text \<open>\<open>_resolve_db_alias\<close>, for a mode in ASCII.\<close>

definition ascii_upper :: "string \<Rightarrow> string" where
  "ascii_upper = map (\<lambda>c. if is_lower_ascii c then char_of (of_char c - 32 :: nat) else c)"

definition resolve_db_alias :: "sink_env \<Rightarrow> string \<Rightarrow> string" where
  "resolve_db_alias e mode = (case se_env e (''SIGMOND_SQLITE_DB_'' @ ascii_upper mode) of
     Some v \<Rightarrow> v | None \<Rightarrow> mode)"

definition writer_from_env :: "sink_env \<Rightarrow> string \<Rightarrow> string \<Rightarrow> string option \<Rightarrow> int \<Rightarrow> string option \<Rightarrow> bool \<Rightarrow> nat
    \<Rightarrow> rat \<Rightarrow> rat \<Rightarrow> writer" where
  "writer_from_env e tbl mode db version who loc batch auto now = new_writer
     (case db of Some (c # cs) \<Rightarrow> c # cs | _ \<Rightarrow> resolve_db_alias e mode) tbl version who loc batch auto (writer_sink e) now"

subsection \<open>What the writer drops\<close>

text \<open>The switch files say off for a producer: its own file stands, and the stricter state is off.\<close>

definition switched_off :: "writer_world \<Rightarrow> string \<Rightarrow> bool" where
  "switched_off ww p \<longleftrightarrow> p \<noteq> [] \<and> valid_client_name p
     \<and> \<not> no_file (ww_files ww) (switch_file (ww_sinks_dir ww) p)
     \<and> (case declared (ww_loads ww) (ww_files ww) (switch_file (ww_sinks_dir ww) p) of
          None \<Rightarrow> True
        | Some c \<Rightarrow> if no_file (ww_files ww) (switch_file (ww_sinks_dir ww) site) then c = Off
            else (case declared (ww_loads ww) (ww_files ww) (switch_file (ww_sinks_dir ww) site) of
               None \<Rightarrow> True | Some s \<Rightarrow> min c s = Off))"

lemma effective_client_missing:
  assumes "cache_fresh loads fs m" "valid_client_name client"
  shows "ef_client_missing (fst (effective_state loads fs dir client m)) \<longleftrightarrow> no_file fs (switch_file dir client)"
proof -
  obtain c m1 where 1: "read_switch loads fs True (switch_file dir client) m = (c, m1)" by fastforce
  have "direct_switch loads fs (switch_file dir client) = c"
    using read_switch_direct [OF assms(1), of True "switch_file dir client", unfolded 1] by simp
  from direct_switch_cases [OF this] show ?thesis
    using assms(2) 1 by (simp add: effective_state_def Let_def split: prod.split)
qed

lemma reads_off_iff:
  assumes "cache_fresh (ww_loads ww) (ww_files ww) m"
  shows "fst (reads_off ww p m) = switched_off ww p
    \<and> cache_fresh (ww_loads ww) (ww_files ww) (snd (reads_off ww p m))"
proof (cases "p = [] \<or> \<not> valid_client_name p")
  case True
  then show ?thesis using assms by (auto simp: reads_off_def switched_off_def)
next
  case False
  obtain eff m' where e: "effective_state (ww_loads ww) (ww_files ww) (ww_sinks_dir ww) p m = (eff, m')" by fastforce
  define cd where "cd = declared (ww_loads ww) (ww_files ww) (switch_file (ww_sinks_dir ww) p)"
  define sd where "sd = declared (ww_loads ww) (ww_files ww) (switch_file (ww_sinks_dir ww) site)"
  define sm where "sm \<longleftrightarrow> no_file (ww_files ww) (switch_file (ww_sinks_dir ww) site)"
  have p: "p \<noteq> []" "valid_client_name p" using False by simp_all
  have st: "ef_state eff = (case cd of None \<Rightarrow> Off | Some c \<Rightarrow> if sm then c
      else (case sd of None \<Rightarrow> Off | Some s \<Rightarrow> min c s))"
    using effective_state_reads [OF assms, of "ww_sinks_dir ww" p, unfolded e fst_conv snd_conv, THEN conjunct1] p
    unfolding cd_def sd_def sm_def by simp
  have cf: "cache_fresh (ww_loads ww) (ww_files ww) m'"
    using effective_state_reads [OF assms, of "ww_sinks_dir ww" p, unfolded e fst_conv snd_conv, THEN conjunct2] .
  have ms: "ef_client_missing eff \<longleftrightarrow> no_file (ww_files ww) (switch_file (ww_sinks_dir ww) p)"
    using effective_client_missing [OF assms p(2), of "ww_sinks_dir ww"] e by simp
  have "switched_off ww p \<longleftrightarrow> \<not> ef_client_missing eff \<and> ef_state eff = Off"
    unfolding switched_off_def ms st cd_def [symmetric] sd_def [symmetric] sm_def [symmetric]
    using p by (simp split: option.split)
  then show ?thesis using p e cf by (simp add: reads_off_def)
qed

lemma judge_rows_filter:
  assumes "cache_fresh (ww_loads ww) (ww_files ww) m"
    and "\<And>p d. map_of verdict p = Some d \<Longrightarrow> d = (enforced \<and> switched_off ww p)"
  shows "fst (judge_rows ww w enforced rows verdict m)
    = filter (\<lambda>row. \<not> (enforced \<and> switched_off ww (producer_of w row))) rows"
  using assms
proof (induction rows arbitrary: verdict m)
  case (Cons row rows)
  define p where "p = producer_of w row"
  obtain d v' m' where s: "(case map_of verdict p of
        Some d \<Rightarrow> (d, verdict, m)
      | None \<Rightarrow> (let (d, m') = (if enforced then reads_off ww p m else (False, m)) in (d, dict_set p d verdict, m')))
      = (d, v', m')" by (rule prod_cases3)
  have d: "d = (enforced \<and> switched_off ww p)" and f: "cache_fresh (ww_loads ww) (ww_files ww) m'"
    and v': "\<And>q b. map_of v' q = Some b \<Longrightarrow> b = (enforced \<and> switched_off ww q)"
  proof -
    have "d = (enforced \<and> switched_off ww p) \<and> cache_fresh (ww_loads ww) (ww_files ww) m'
      \<and> (\<forall>q b. map_of v' q = Some b \<longrightarrow> b = (enforced \<and> switched_off ww q))"
    proof (cases "map_of verdict p")
      case (Some b)
      then show ?thesis using s Cons.prems by auto
    next
      case None
      then show ?thesis
        using s Cons.prems reads_off_iff [OF Cons.prems(1), of p]
        by (cases enforced) (auto simp: Let_def dest: Cons.prems(2) split: prod.splits if_splits)
    qed
    then show "d = (enforced \<and> switched_off ww p)" "cache_fresh (ww_loads ww) (ww_files ww) m'"
      "\<And>q b. map_of v' q = Some b \<Longrightarrow> b = (enforced \<and> switched_off ww q)" by blast+
  qed
  obtain k v'' m'' where r: "judge_rows ww w enforced rows v' m' = (k, v'', m'')" by (rule prod_cases3)
  have "k = filter (\<lambda>row. \<not> (enforced \<and> switched_off ww (producer_of w row))) rows"
    using Cons.IH [OF f, of v', OF v', unfolded r] by (simp only: fst_conv)
  then show ?case
    using s r d by (simp add: p_def [symmetric] Let_def)
qed simp

definition enforcing :: "writer_world \<Rightarrow> writer \<Rightarrow> bool" where
  "enforcing ww w \<longleftrightarrow> \<not> wr_local w \<and> ww_api ww \<and> ww_check_raises ww = None
     \<and> ww_lstat ww (ww_marker ww) \<notin> {LNoEnt, LNotDir}"

text \<open>C9: the writer drops a row for one reason only.  Of the rows handed to an insert the writer
  keeps, in order, all but those whose producer's switch reads \<open>off\<close> (its own file stands, and
  the stricter of it and the site's file is off), and it drops those only when it is not a local
  writer, the switch library is there, the check did not fail and the carry-over marker stands.
  A missing switch file, an unknown producer or a failing check stores the row.\<close>

theorem writer_keeps_unless_off:
  assumes "cache_fresh (ww_loads ww) (ww_files ww) (wr_mem w)"
  shows "fst (judge_batch ww rows w)
    = filter (\<lambda>row. \<not> (enforcing ww w \<and> switched_off ww (producer_of w row))) rows"
proof (cases "wr_local w \<or> \<not> ww_api ww \<or> ww_check_raises ww \<noteq> None")
  case True
  then show ?thesis by (auto simp: judge_batch_def enforcing_def split: option.split)
next
  case False
  obtain en m where ms: "marker_stands (ww_lstat ww) (ww_marker ww) (wr_mem w) = (en, m)" by fastforce
  have en: "en \<longleftrightarrow> enforcing ww w"
    using ms False by (auto simp: marker_stands_def enforcing_def split: lstat_result.splits)
  have "cache_fresh (ww_loads ww) (ww_files ww) m"
    using assms ms unfolding marker_stands_def cache_fresh_def
    by (cases "ww_lstat ww (ww_marker ww)") auto
  from judge_rows_filter [OF this, of "[]" en w rows]
  have j: "fst (judge_rows ww w en rows [] m) = filter (\<lambda>row. \<not> (en \<and> switched_off ww (producer_of w row))) rows"
    by simp
  show ?thesis
    using False ms j en by (cases en) (auto simp: judge_batch_def Let_def split: prod.split)
qed

definition demo_writer_world :: "writer_world" where
  "demo_writer_world = \<lparr>ww_api = True, ww_loads = (\<lambda>raw. Ok [(''state'', PStr ''off'')]),
     ww_files = \<lparr>fs_stat = (\<lambda>p. Stat (1, 2, 3)), fs_read = (\<lambda>p. Content p)\<rparr>, ww_lstat = (\<lambda>p. Stands),
     ww_sinks_dir = ''sinks'', ww_marker = ''done'', ww_check_raises = None, ww_now = 0, ww_now_iso = [],
     ww_connect_fails = False, ww_insert_fails = False\<rparr>"

definition demo_writer :: "writer" where
  "demo_writer = \<lparr>wr_database = ''psk'', wr_table = ''spots'', wr_schema_version = 1, wr_producer = [],
     wr_local = False, wr_batch_rows = 2, wr_auto_flush = 0, wr_noop = False, wr_buffer = [],
     wr_schema_initialized = False, wr_health = HOk, wr_last_flush = 0, wr_dropped = [], wr_dropping = [],
     wr_cap_said = False, wr_check_failed = [], wr_mem = \<lparr>sm_cache = [], sm_logged = [], sm_log = []\<rparr>, wr_log = []\<rparr>"

theorem writer_keeps_unless_off_witness:
  "fst (judge_batch demo_writer_world [PDict [(''mode'', PStr ''FT8'')]] demo_writer) = []
   \<and> fst (judge_batch (demo_writer_world\<lparr>ww_check_raises := Some (Exn ''OSError'' [])\<rparr>) [PNone] demo_writer) = [PNone]"
proof -
  have c: "cache_fresh (ww_loads x) (ww_files x) (wr_mem demo_writer)" for x
    by (simp add: cache_fresh_def demo_writer_def)
  have m: "py_lower (py_strip ''FT8'') = ''ft8''" by code_simp
  show ?thesis
    using writer_keeps_unless_off [OF c, of demo_writer_world "[PDict [(''mode'', PStr ''FT8'')]]"]
      writer_keeps_unless_off [OF c, of "demo_writer_world\<lparr>ww_check_raises := Some (Exn ''OSError'' [])\<rparr>" "[PNone]"]
    by (simp add: demo_writer_world_def demo_writer_def enforcing_def switched_off_def producer_of_def infer_producer_def
        row_mode_def py_get_def m site_def declared_def no_file_def state_of_def
        valid_client_name_def client_first_def client_char_def is_lower_ascii_def is_digit_def)
qed

subsection \<open>What the writer keeps\<close>

lemma json_value_same: "json_value v = Ok v' \<Longrightarrow> v' = v"
proof (induction v arbitrary: v' rule: json_value.induct)
  case (2 xs)
  then obtain ys where y: "mapM_res json_value xs = Ok ys" "v' = PList ys" by auto
  have "ys = xs"
  proof (rule nth_equalityI)
    fix i assume "i < length ys"
    then have "i < length xs" using mapM_res_length [OF y(1)] by simp
    then show "ys ! i = xs ! i" using 2 (1) [of "xs ! i" "ys ! i"] mapM_res_nth [OF y(1)] by simp
  qed (simp add: mapM_res_length [OF y(1)])
  then show ?case using y by simp
next
  case (3 d)
  then obtain ys where y: "mapM_res (\<lambda>(k, v). map_res (Pair k) (json_value v)) d = Ok ys" "v' = PDict ys" by auto
  have "ys = d"
  proof (rule nth_equalityI)
    fix i assume "i < length ys"
    then have i: "i < length d" using mapM_res_length [OF y(1)] by simp
    obtain k v where kv: "d ! i = (k, v)" by fastforce
    from mapM_res_nth [OF y(1) i] kv obtain x where x: "json_value v = Ok x" "ys ! i = (k, x)" by auto
    have "(k, v) \<in> set d" using i kv by (metis nth_mem)
    then have "x = v" using 3 (1) [of "(k, v)" k v x] x(1) by simp
    then show "ys ! i = d ! i" using x kv by simp
  qed (simp add: mapM_res_length [OF y(1)])
  then show ?case using y by simp
qed auto

lemma json_values_same: "mapM_res json_value xs = Ok ys \<Longrightarrow> ys = xs"
  using json_value_same [of "PList xs" "PList ys"] by simp

lemma judge_batch_frames:
  "wr_buffer (snd (judge_batch ww rows w)) = wr_buffer w"
proof -
  have n: "wr_buffer (fold (\<lambda>(p, d). note_verdict p d) vs x) = wr_buffer x" for vs x
    by (induction vs arbitrary: x) (auto simp: note_verdict_def Let_def)
  show ?thesis
    by (simp add: judge_batch_def note_check_failed_def add_drops_def Let_def n split: option.split prod.split)
qed

definition payloads :: "sinkdb \<Rightarrow> payload list" where "payloads db = map qr_payload (sd_rows db)"

lemma payloads_init [simp]: "payloads (init_queue db) = payloads db"
  by (simp add: payloads_def init_queue_def ensure_columns_def Let_def comp_def)

lemma payload_queue_rows:
  "length docs = length rows \<Longrightarrow> map qr_payload (queue_rows w t n (zip rows docs)) = map Doc docs"
  by (rule nth_equalityI) (auto simp: queue_rows_def nth_enumerate_eq)

lemma flush_conserves:
  "payloads (snd (flush ww w db)) @ map Doc (wr_buffer (fst (flush ww w db)))
     = payloads db @ map Doc (wr_buffer w)"
proof (cases "mapM_res json_value (wr_buffer w)")
  case (Ok docs)
  have d: "docs = wr_buffer w" using json_values_same [OF Ok] .
  then show ?thesis
    using payloads_init [of db] payload_queue_rows [of docs "wr_buffer w" w]
    by (auto simp: flush_def Let_def flush_failed_def Ok payloads_def)
qed (auto simp: flush_def Let_def flush_failed_def)

text \<open>C13: nothing the writer keeps is lost or doubled.  After an insert that returns, the queue's
  payloads followed by the buffer are the old payloads, the old buffer and the kept rows, in
  that order, each once: whether the flush ran, failed or was not due.  An insert that raises
  \<open>BufferFull\<close> leaves the queue alone and the first \<open>2 * batch_rows\<close> of those rows in the buffer.\<close>

theorem insert_conserves_rows:
  "(case insert_rows ww rows w db of (w', db', r) \<Rightarrow>
     let all_rows = wr_buffer w @ (if wr_noop w then [] else fst (judge_batch ww rows w)) in
     case r of Ok _ \<Rightarrow> payloads db' @ map Doc (wr_buffer w') = payloads db @ map Doc all_rows
     | Raise e \<Rightarrow> exn_type e = ''BufferFull'' \<and> db' = db
         \<and> wr_buffer w' = take (2 * wr_batch_rows w) all_rows \<and> 2 * wr_batch_rows w < length all_rows)"
proof -
  obtain kept w1 where j: "judge_batch ww rows w = (kept, w1)" by fastforce
  have b: "wr_buffer w1 = wr_buffer w" using judge_batch_frames [of ww rows w] j by simp
  have n: "wr_batch_rows (fold (\<lambda>(p, d). note_verdict p d) vs x) = wr_batch_rows x" for vs x
    by (induction vs arbitrary: x) (auto simp: note_verdict_def Let_def)
  have br: "wr_batch_rows w1 = wr_batch_rows w"
    using j by (auto simp: judge_batch_def note_check_failed_def add_drops_def Let_def n
        split: option.splits prod.splits if_splits)
  define w2 where "w2 = w1\<lparr>wr_buffer := wr_buffer w @ kept\<rparr>"
  have fl: "payloads (snd (flush ww w2 db)) @ map Doc (wr_buffer (fst (flush ww w2 db)))
      = payloads db @ map Doc (wr_buffer w @ kept)"
    using flush_conserves [of ww w2 db] by (simp add: w2_def)
  have e: "fst (judge_batch ww [] w) = []"
    by (simp add: judge_batch_def Let_def split: option.split prod.split)
  show ?thesis
  proof (cases "wr_noop w \<or> rows = []")
    case True
    then show ?thesis using e by (auto simp: insert_rows_def)
  next
    case False
    have wb: "wr_buffer w2 = wr_buffer w @ kept" by (simp add: w2_def)
    obtain w3 db3 where f3: "flush ww w2 db = (w3, db3)" by fastforce
    show ?thesis
      using False j b br fl f3 wb by (simp add: insert_rows_def Let_def w2_def [symmetric])
  qed
qed

end
