(* ===== verification/SqliteSource.thy ===== *)
theory SqliteSource
  imports Sink PumpLaws
begin

text \<open>
  The queue's reader, \<open>sources/sqlite.py\<close> with \<open>sources/_local_rows.py\<close>: the source a pipeline
  drains \<open>pending_uploads\<close> through.

  A statement is modelled by what it selects: its clauses are tested in order on the rows in id
  order, and a clause that reads a payload SQLite cannot parse raises, as \<open>json_extract\<close> does.
  Not modelled: the log lines, and a second writer between a statement and the next one of the
  same call.  \<open>datetime.fromisoformat\<close>, SQLite's text of a JSON array or object and its reading
  of a text as a number are functions of the world; nothing proved depends on them.
\<close>

subsection \<open>SQL values\<close>

datatype sqlval = SNull | SInt int | SReal rat | SInf bool | SText string

text \<open>SQLite's order of values: NULL, then numbers, then texts (BINARY collation).\<close>

fun sql_key :: "sqlval \<Rightarrow> nat \<times> (int \<times> rat) \<times> string" where
  "sql_key SNull = (0, (0, 0), [])"
| "sql_key (SInt i) = (1, (0, of_int i), [])"
| "sql_key (SReal r) = (1, (0, r), [])"
| "sql_key (SInf p) = (1, (if p then 1 else - 1, 0), [])"
| "sql_key (SText t) = (2, (0, 0), t)"

text \<open>A comparison in SQL's three values; \<open>None\<close> is NULL.\<close>

definition sql_op :: "string \<Rightarrow> sqlval \<Rightarrow> sqlval \<Rightarrow> bool option" where
  "sql_op op a b = (if a = SNull \<or> b = SNull then None
     else (let x = sql_key a; y = sql_key b in Some (
       if op = ''='' then x = y else if op = ''!='' then x \<noteq> y
       else if op = ''<'' then x < y else if op = ''>'' then y < x
       else if op = ''<='' then x \<le> y else y \<le> x)))"

definition sql_in :: "sqlval \<Rightarrow> sqlval list \<Rightarrow> bool option" where
  "sql_in a vs = (if a = SNull then None
     else if sql_key a \<in> sql_key ` set vs then Some True
     else if SNull \<in> set vs then None else Some False)"

text \<open>The value \<open>json_extract\<close> finds; the first argument writes what
  follows the opening bracket of an array's or object's text.\<close>

fun sql_value :: "(pyval \<Rightarrow> string) \<Rightarrow> pyval \<Rightarrow> sqlval" where
  "sql_value jt PNone = SNull"
| "sql_value jt (PBool b) = SInt (if b then 1 else 0)"
| "sql_value jt (PInt i) = SInt i"
| "sql_value jt (PFloat r) = SReal r"
| "sql_value jt (PInf b) = SInf b"
| "sql_value jt PNaN = SNull"
| "sql_value jt (PStr s) = SText s"
| "sql_value jt (PList xs) = SText (CHR ''['' # jt (PList xs))"
| "sql_value jt (PDict d) = SText (CHR ''{'' # jt (PDict d))"
| "sql_value jt (POther t) = SNull"

text \<open>\<open>json_extract(payload_json, '$.f')\<close>.\<close>

definition json_extract :: "(pyval \<Rightarrow> string) \<Rightarrow> string \<Rightarrow> qrow \<Rightarrow> sqlval res" where
  "json_extract jt f r = (case qr_payload r of
     Corrupt \<Rightarrow> Raise (Exn ''OperationalError'' ''malformed JSON'')
   | Doc (PDict d) \<Rightarrow> Ok (sql_value jt (py_get d f))
   | Doc _ \<Rightarrow> Ok SNull)"

text \<open>Binding a Python value to a statement's parameter.\<close>

definition bind_param :: "pyval \<Rightarrow> sqlval res" where
  "bind_param v = (case v of
     PInt i \<Rightarrow> if - (2 ^ 63) \<le> i \<and> i < 2 ^ 63 then Ok (SInt i)
       else Raise (Exn ''OverflowError'' ''Python int too large to convert to SQLite INTEGER'')
   | PList _ \<Rightarrow> Raise (Exn ''ProgrammingError'' ''type is not supported'')
   | PDict _ \<Rightarrow> Raise (Exn ''ProgrammingError'' ''type is not supported'')
   | POther _ \<Rightarrow> Raise (Exn ''ProgrammingError'' ''type is not supported'')
   | _ \<Rightarrow> Ok (sql_value (\<lambda>_. []) v))"

text \<open>SQL's \<open>trim\<close> takes spaces off both ends, \<open>lower\<close> the ASCII capitals down.\<close>

definition sql_trim :: "string \<Rightarrow> string" where
  "sql_trim s = rev (dropWhile (\<lambda>c. c = CHR '' '') (rev (dropWhile (\<lambda>c. c = CHR '' '') s)))"

definition sql_lower :: "string \<Rightarrow> string" where
  "sql_lower = map (\<lambda>c. if is_upper_ascii c then char_of (of_char c + 32 :: nat) else c)"

subsection \<open>Clauses\<close>

type_synonym clause = "qrow \<Rightarrow> bool option res"

fun where_holds :: "clause list \<Rightarrow> qrow \<Rightarrow> bool res" where
  "where_holds [] r = Ok True"
| "where_holds (c # cs) r = bind_res (c r) (\<lambda>b. if b = Some True then where_holds cs r else Ok False)"

text \<open>\<open>... ORDER BY id LIMIT n\<close> on rows in id order: the scan stops at the n-th match.\<close>

fun scan :: "nat \<Rightarrow> (qrow \<Rightarrow> bool res) \<Rightarrow> qrow list \<Rightarrow> qrow list res" where
  "scan 0 p rs = Ok []"
| "scan (Suc n) p [] = Ok []"
| "scan (Suc n) p (r # rs) = bind_res (p r) (\<lambda>b.
     if b then map_res (Cons r) (scan n p rs) else scan (Suc n) p rs)"

text \<open>\<open>_D12_MODE = 'msk144'\<close>: only a text can equal it (a number's text never does).\<close>

definition d12_is_msk :: "sqlval \<Rightarrow> bool" where
  "d12_is_msk v = (case v of SText t \<Rightarrow> sql_lower (sql_trim t) = ''msk144'' | _ \<Rightarrow> False)"

definition d12_by_producer :: "string \<Rightarrow> (bool \<Rightarrow> bool) option" where
  "d12_by_producer p = (if p = ''meteor-scatter'' then Some (\<lambda>msk. msk)
     else if p = ''psk-recorder'' then Some Not else None)"

definition d12_clause :: "(pyval \<Rightarrow> string) \<Rightarrow> (bool \<Rightarrow> bool) \<Rightarrow> clause" where
  "d12_clause jt f r = map_res (\<lambda>v. Some (f (d12_is_msk v))) (json_extract jt ''mode'' r)"

subsection \<open>The source's configuration\<close>

record sq_conf =
  sq_database :: string
  sq_table :: string
  sq_accepted :: "int list"
  sq_select :: "string list"
  sq_extra :: "(string \<times> string \<times> pyval) list"
  sq_start_at :: bool
  sq_delete :: bool
  sq_dedup_by :: "string list"
  sq_dedup_desc :: string
  sq_ceiling_column :: "string option"
  sq_ceiling :: "(sinkdb \<Rightarrow> string option res) option"
  sq_producer :: "string option"
  sq_radiod :: "string option"

definition allowed_ops :: "string list" where
  "allowed_ops = [''='', ''!='', ''<'', ''>'', ''<='', ''>='', ''IN'', ''NOT IN'']"

text \<open>\<open>str.isalnum()\<close> on the code points up to 255.\<close>

definition alnum_char :: "char \<Rightarrow> bool" where
  "alnum_char c \<longleftrightarrow> (let k = (of_char c :: nat) in (48 \<le> k \<and> k \<le> 57) \<or> (65 \<le> k \<and> k \<le> 90)
     \<or> (97 \<le> k \<and> k \<le> 122) \<or> k \<in> {170, 178, 179, 181, 185, 186, 188, 189, 190}
     \<or> (192 \<le> k \<and> k \<noteq> 215 \<and> k \<noteq> 247))"

definition field_ok :: "string \<Rightarrow> bool" where
  "field_ok f \<longleftrightarrow> (let g = filter (\<lambda>c. c \<noteq> CHR ''_'') f in g \<noteq> [] \<and> list_all alnum_char g)"

text \<open>\<open>SqliteSource.__init__\<close>: an empty producer or instance counts as unset; the checks in order.\<close>

definition unset_empty :: "string option \<Rightarrow> string option" where
  "unset_empty v = (if v = Some [] then None else v)"

definition key_part_ok :: "string option \<Rightarrow> bool" where
  "key_part_ok v = (case v of None \<Rightarrow> True | Some s \<Rightarrow> CHR ''/'' \<notin> set s \<and> CHR ''@'' \<notin> set s)"

definition new_source :: "sq_conf \<Rightarrow> sq_conf res" where
  "new_source c0 = (let c = c0\<lparr>sq_producer := unset_empty (sq_producer c0), sq_radiod := unset_empty (sq_radiod c0)\<rparr>;
     bad = (\<lambda>m. Raise (Exn ''ValueError'' m)) in
     if sq_radiod c \<noteq> None \<and> sq_producer c = None then bad ''radiod_id needs a producer''
     else if \<not> key_part_ok (sq_producer c) \<or> \<not> key_part_ok (sq_radiod c) then bad ''must not contain / or @''
     else if (sq_ceiling_column c \<noteq> None) \<noteq> (sq_ceiling c \<noteq> None) then bad ''ceiling set by half''
     else if (case sq_ceiling_column c of Some (x # xs) \<Rightarrow> \<not> field_ok (x # xs) | _ \<Rightarrow> False) then bad ''ceiling_column''
     else if (sq_dedup_by c \<noteq> []) \<noteq> (sq_dedup_desc c \<noteq> []) then bad ''dedup set by half''
     else if \<not> list_all field_ok (sq_dedup_by c) then bad ''dedup_partition_by''
     else if sq_dedup_desc c \<noteq> [] \<and> \<not> field_ok (sq_dedup_desc c) then bad ''dedup_order_by_desc''
     else if \<not> list_all (\<lambda>(col, op, _). op \<in> set allowed_ops \<and> field_ok col) (sq_extra c) then bad ''extra_where''
     else Ok c)"

definition sq_source_id :: "sq_conf \<Rightarrow> string" where
  "sq_source_id c = ''sqlite:'' @ sq_database c @ ''.'' @ sq_table c @ (case sq_producer c of
     None \<Rightarrow> [] | Some p \<Rightarrow> ''@'' @ p @ (case sq_radiod c of None \<Rightarrow> [] | Some i \<Rightarrow> ''/'' @ i))"

subsection \<open>State and world\<close>

text \<open>What the source remembers: whether its connection is open, the two column probes of that
  connection, whether the table was seen, the cached anchor, the health.\<close>

datatype sq_health = HealthOk | HealthUnreachable | HealthStaleSchema | HealthNoop

record sq_state =
  ss_conn :: bool
  ss_producer_column :: "bool option"
  ss_local_column :: "bool option"
  ss_schema_checked :: bool
  ss_start_cursor :: "int option"
  ss_health :: sq_health

record sq_world =
  sw_configured :: bool
  sw_connect :: "exn option"
  sw_exec :: "exn option"
  sw_default_factory :: bool
  sw_exists :: bool
  sw_json_text :: "pyval \<Rightarrow> string"
  sw_text_real :: "string \<Rightarrow> rat"
  sw_fromiso :: "string \<Rightarrow> int option"
  sw_now :: int

definition fresh_source :: "sq_world \<Rightarrow> sq_state" where
  "fresh_source w = \<lparr>ss_conn = False, ss_producer_column = None, ss_local_column = None,
     ss_schema_checked = False, ss_start_cursor = None,
     ss_health = (if sw_configured w then HealthOk else HealthNoop)\<rparr>"

text \<open>\<open>_ConnectionConfig.from_env\<close>: a path the environment does not name must exist.\<close>

definition source_path :: "sink_env \<Rightarrow> string option" where
  "source_path e = (case sink_path e None of None \<Rightarrow> None
   | Some p \<Rightarrow> if p \<noteq> [] \<and> (env_text e ''HAMSCI_SINK_PATH'' \<noteq> [] \<or> env_text e ''SIGMOND_SQLITE_PATH'' \<noteq> []
       \<or> se_exists e p) then Some p else None)"

text \<open>\<open>_Cursor.from_bytes\<close> and \<open>to_bytes\<close>.\<close>

definition cursor_id :: "bytes \<Rightarrow> int res" where
  "cursor_id blob = (if blob = [] then Ok 0
     else if \<not> is_ascii blob then Raise (Exn ''ValueError'' blob)
     else (case py_int blob of Some i \<Rightarrow> Ok i | None \<Rightarrow> Raise (Exn ''ValueError'' blob)))"

definition cursor_bytes :: "int \<Rightarrow> bytes" where "cursor_bytes i = str_of_int i"

lemma cursor_id_bytes [simp]: "cursor_id (cursor_bytes i) = Ok i"
  by (simp add: cursor_id_def cursor_bytes_def)

subsection \<open>What a statement selects\<close>

text \<open>The connection's two probes: each asks the table once, then answers from memory.\<close>

definition connect :: "sq_world \<Rightarrow> sq_state \<Rightarrow> sq_state \<times> unit res" where
  "connect w st = (if ss_conn st then (st, Ok ())
     else (case sw_connect w of Some e \<Rightarrow> (st, Raise e)
     | None \<Rightarrow> (st\<lparr>ss_conn := True, ss_producer_column := None, ss_local_column := None\<rparr>, Ok ())))"

definition probe_producer :: "sinkdb \<Rightarrow> sq_state \<Rightarrow> sq_state" where
  "probe_producer db st = (case ss_producer_column st of Some _ \<Rightarrow> st
     | None \<Rightarrow> st\<lparr>ss_producer_column := Some (sd_has_table db \<and> sd_has_producer db)\<rparr>)"

definition probe_local :: "sinkdb \<Rightarrow> sq_state \<Rightarrow> sq_state" where
  "probe_local db st = (case ss_local_column st of Some _ \<Rightarrow> st
     | None \<Rightarrow> st\<lparr>ss_local_column := Some (sd_has_table db \<and> sd_has_local db)\<rparr>)"

text \<open>\<open>_scope_clauses\<close> for a producer, once the probe has answered.\<close>

definition scope_clauses :: "sq_conf \<Rightarrow> sq_world \<Rightarrow> sq_state \<Rightarrow> clause list" where
  "scope_clauses c w st = (case sq_producer c of None \<Rightarrow> []
   | Some p \<Rightarrow>
      (let d12 = d12_by_producer p; jt = sw_json_text w in
       (if ss_producer_column st = Some True then (case d12 of
            Some f \<Rightarrow> (\<lambda>r. if qr_producer r = p then Ok (Some True)
              else if qr_producer r = [] then d12_clause jt f r else Ok (Some False))
          | None \<Rightarrow> (\<lambda>r. Ok (Some (qr_producer r = p))))
        else (case d12 of Some f \<Rightarrow> d12_clause jt f | None \<Rightarrow> (\<lambda>r. Ok (Some False))))
       # (case sq_radiod c of None \<Rightarrow> []
          | Some i \<Rightarrow> [\<lambda>r. map_res (\<lambda>v. sql_op ''='' v (SText i)) (json_extract jt ''radiod_id'' r)])))"

definition local_clauses :: "sq_state \<Rightarrow> clause list" where
  "local_clauses st = (if ss_local_column st = Some True then [\<lambda>r. Ok (Some (\<not> qr_local r))] else [])"

definition target_clause :: "sq_conf \<Rightarrow> clause" where
  "target_clause c r = Ok (Some (qr_db r = sq_database c \<and> qr_table r = sq_table c))"

definition version_clauses :: "sq_conf \<Rightarrow> clause list" where
  "version_clauses c = (if sq_accepted c = [] then []
     else [\<lambda>r. Ok (Some (qr_version r \<in> set (sq_accepted c)))])"

definition ceiling_clauses :: "sq_conf \<Rightarrow> sq_world \<Rightarrow> string option \<Rightarrow> clause list" where
  "ceiling_clauses c w hold = (case (sq_ceiling_column c, hold) of
     (Some col, Some hi) \<Rightarrow> [\<lambda>r. map_res (\<lambda>v. sql_op ''<='' v (SText hi)) (json_extract (sw_json_text w) col r)]
   | _ \<Rightarrow> [])"

text \<open>The clauses of \<open>extra_where\<close>: a list operator needs a list with an element, every value a
  type SQLite binds.\<close>

definition extra_clause :: "sq_world \<Rightarrow> string \<times> string \<times> pyval \<Rightarrow> clause res" where
  "extra_clause w x = (case x of (col, op, v) \<Rightarrow>
     if op = ''IN'' \<or> op = ''NOT IN'' then (case v of
         PList (y # ys) \<Rightarrow> map_res (\<lambda>vs r. map_res (\<lambda>a.
             if op = ''IN'' then sql_in a vs else map_option Not (sql_in a vs))
           (json_extract (sw_json_text w) col r)) (mapM_res bind_param (y # ys))
       | _ \<Rightarrow> Raise (Exn ''ValueError'' ''needs a non-empty list/tuple''))
     else map_res (\<lambda>b r. map_res (\<lambda>a. sql_op op a b) (json_extract (sw_json_text w) col r)) (bind_param v))"

text \<open>Everything but the cursor clause, in the order \<open>_build_query\<close> writes it.\<close>

definition base_clauses :: "sq_conf \<Rightarrow> sq_world \<Rightarrow> sq_state \<Rightarrow> string option \<Rightarrow> clause list res" where
  "base_clauses c w st hold = map_res (\<lambda>extra. [target_clause c] @ scope_clauses c w st @ local_clauses st
     @ version_clauses c @ ceiling_clauses c w hold @ extra) (mapM_res (extra_clause w) (sq_extra c))"

definition simple_query :: "clause list \<Rightarrow> int \<Rightarrow> nat \<Rightarrow> sinkdb \<Rightarrow> qrow list res" where
  "simple_query cs cur limit db =
     scan limit (where_holds ((\<lambda>r. Ok (Some (cur < int (qr_id r)))) # cs)) (sd_rows db)"

text \<open>\<open>_build_dedup_query\<close>.  A ranked row keeps its partition and its order value
  (\<open>CAST(... AS REAL)\<close>; a text reads as a number, NULL stays last).\<close>

record ranked =
  rk_row :: qrow
  rk_part :: "(nat \<times> (int \<times> rat) \<times> string) list"
  rk_order :: "nat \<times> (int \<times> rat)"

definition cast_real :: "(string \<Rightarrow> rat) \<Rightarrow> sqlval \<Rightarrow> nat \<times> (int \<times> rat)" where
  "cast_real tr v = (case v of SNull \<Rightarrow> (0, (0, 0)) | SInt i \<Rightarrow> (1, (0, of_int i)) | SReal r \<Rightarrow> (1, (0, r))
     | SInf p \<Rightarrow> (1, (if p then 1 else - 1, 0)) | SText t \<Rightarrow> (1, (0, tr t)))"

definition rank_row :: "sq_conf \<Rightarrow> sq_world \<Rightarrow> qrow \<Rightarrow> ranked res" where
  "rank_row c w r = bind_res (mapM_res (\<lambda>f. map_res sql_key (json_extract (sw_json_text w) f r)) (sq_dedup_by c))
     (\<lambda>ks. map_res (\<lambda>v. \<lparr>rk_row = r, rk_part = ks, rk_order = cast_real (sw_text_real w) v\<rparr>)
        (json_extract (sw_json_text w) (sq_dedup_desc c) r))"

definition outranks :: "ranked \<Rightarrow> ranked \<Rightarrow> bool" where
  "outranks a b \<longleftrightarrow> rk_order b < rk_order a
     \<or> (rk_order a = rk_order b \<and> qr_id (rk_row a) < qr_id (rk_row b))"

definition winner :: "ranked list \<Rightarrow> ranked \<Rightarrow> bool" where
  "winner rs a \<longleftrightarrow> list_all (\<lambda>b. rk_part b = rk_part a \<longrightarrow> \<not> outranks b a) rs"

definition visited :: "int \<Rightarrow> ranked list \<Rightarrow> ranked \<Rightarrow> bool" where
  "visited cur rs a \<longleftrightarrow> list_ex (\<lambda>b. rk_part b = rk_part a \<and> int (qr_id (rk_row b)) \<le> cur) rs"

fun keep_rows :: "(qrow \<Rightarrow> bool res) \<Rightarrow> qrow list \<Rightarrow> qrow list res" where
  "keep_rows p [] = Ok []"
| "keep_rows p (r # rs) = bind_res (p r) (\<lambda>b. map_res (\<lambda>ks. if b then r # ks else ks) (keep_rows p rs))"

definition dedup_query :: "sq_conf \<Rightarrow> sq_world \<Rightarrow> clause list \<Rightarrow> int \<Rightarrow> nat \<Rightarrow> sinkdb \<Rightarrow> qrow list res" where
  "dedup_query c w cs cur limit db = bind_res (keep_rows (where_holds cs) (sd_rows db)) (\<lambda>rows.
     map_res (\<lambda>rs. take limit (map rk_row (filter (\<lambda>a. winner rs a \<and> cur < int (qr_id (rk_row a))
       \<and> \<not> visited cur rs a) rs))) (mapM_res (rank_row c w) rows))"

definition run_query :: "sq_conf \<Rightarrow> sq_world \<Rightarrow> sq_state \<Rightarrow> string option \<Rightarrow> int \<Rightarrow> nat \<Rightarrow> sinkdb \<Rightarrow> qrow list res" where
  "run_query c w st hold cur limit db = bind_res (base_clauses c w st hold) (\<lambda>cs.
     bind_res (bind_param (PInt cur)) (\<lambda>_. case sw_exec w of Some e \<Rightarrow> Raise e
     | None \<Rightarrow> if sq_dedup_by c \<noteq> [] \<and> sq_dedup_desc c \<noteq> [] then dedup_query c w cs cur limit db
         else simple_query cs cur limit db))"

subsection \<open>Rows to records\<close>

text \<open>\<open>_parse_iso\<close>: \<open>fromisoformat\<close> after the \<open>Z\<close> is spelt out.\<close>

definition parse_iso :: "sq_world \<Rightarrow> string \<Rightarrow> int option" where
  "parse_iso w t = sw_fromiso w (if ends_with t ''Z'' then butlast t @ ''+00:00'' else t)"

fun first_iso :: "sq_world \<Rightarrow> pydict \<Rightarrow> string list \<Rightarrow> int option" where
  "first_iso w d [] = None"
| "first_iso w d (k # ks) = (case py_get d k of
     PStr s \<Rightarrow> (case parse_iso w s of Some t \<Rightarrow> Some t | None \<Rightarrow> first_iso w d ks)
   | _ \<Rightarrow> first_iso w d ks)"

definition record_time :: "sq_world \<Rightarrow> pydict \<Rightarrow> string \<Rightarrow> int" where
  "record_time w d queued_at = (case first_iso w d [''time'', ''decode_time'', ''utc''] of
     Some t \<Rightarrow> t | None \<Rightarrow> (case parse_iso w queued_at of Some t \<Rightarrow> t | None \<Rightarrow> sw_now w))"

definition project_columns :: "sq_conf \<Rightarrow> pydict \<Rightarrow> pydict" where
  "project_columns c d = (if sq_select c = [] then d
     else fold (\<lambda>k acc. dict_set k (py_get d k) acc) (sq_select c) [])"

definition record_of :: "sq_conf \<Rightarrow> sq_world \<Rightarrow> pydict \<Rightarrow> qrow \<Rightarrow> urecord" where
  "record_of c w d r = \<lparr>rec_table = sq_database c @ ''.'' @ sq_table c, rec_time = record_time w d (qr_queued_at r),
     rec_columns = project_columns c d, rec_dedup_key = None, rec_payload_path = None\<rparr>"

text \<open>The loop over the rows: a corrupt payload is skipped, one that is no object raises.\<close>

fun records_of :: "sq_conf \<Rightarrow> sq_world \<Rightarrow> qrow list \<Rightarrow> urecord list res" where
  "records_of c w [] = Ok []"
| "records_of c w (r # rs) = (case qr_payload r of
     Corrupt \<Rightarrow> records_of c w rs
   | Doc (PDict d) \<Rightarrow> map_res (Cons (record_of c w d r)) (records_of c w rs)
   | Doc _ \<Rightarrow> Raise (Exn ''AttributeError'' ''object has no attribute get''))"

subsection \<open>The operations\<close>

definition stale_row :: "sq_conf \<Rightarrow> sq_world \<Rightarrow> sq_state \<Rightarrow> sinkdb \<Rightarrow> bool res" where
  "stale_row c w st db = map_res (\<lambda>rs. rs \<noteq> []) (scan 1 (where_holds ([target_clause c]
     @ scope_clauses c w st @ [\<lambda>r. Ok (Some (qr_version r \<notin> set (sq_accepted c)))])) (sd_rows db))"

definition check_stale_schema :: "sq_conf \<Rightarrow> sq_world \<Rightarrow> sinkdb \<Rightarrow> sq_state \<Rightarrow> sq_state \<times> unit res" where
  "check_stale_schema c w db st = (if sq_accepted c = [] then (st, Ok ())
     else (case stale_row c w st db of Raise e \<Rightarrow> (st, Raise e)
     | Ok stale \<Rightarrow> (if stale then st\<lparr>ss_health := HealthStaleSchema\<rparr> else st, Ok ())))"

definition probe_scope :: "sq_conf \<Rightarrow> sinkdb \<Rightarrow> sq_state \<Rightarrow> sq_state" where
  "probe_scope c db st = (if sq_producer c = None then st else probe_producer db st)"

definition iter_one_batch :: "sq_conf \<Rightarrow> sq_world \<Rightarrow> int \<Rightarrow> nat \<Rightarrow> sinkdb \<Rightarrow> sq_state \<Rightarrow> sq_state \<times> batch list res" where
  "iter_one_batch c w cur limit db st0 = (case connect w st0 of (st, Raise e) \<Rightarrow> (st, Raise e)
   | (st, Ok _) \<Rightarrow>
    (case (case sq_ceiling c of None \<Rightarrow> Ok (Some None)
       | Some f \<Rightarrow> map_res (\<lambda>top. case top of None \<Rightarrow> None | Some t \<Rightarrow> Some (Some t)) (f db)) of
       Raise e \<Rightarrow> (st, Raise e)
     | Ok None \<Rightarrow> (st, Ok [])
     | Ok (Some hold) \<Rightarrow> (let st1 = probe_local db (probe_scope c db st) in
         (case run_query c w st1 hold cur limit db of
            Raise e \<Rightarrow> (st1, Raise e)
          | Ok [] \<Rightarrow> (case check_stale_schema c w db st1 of (st2, r) \<Rightarrow> (st2, map_res (\<lambda>_. []) r))
          | Ok (r # rs) \<Rightarrow> (st1, map_res (\<lambda>recs. [\<lparr>bt_records = recs,
              bt_cursor_after = cursor_bytes (int (qr_id (last (r # rs)))),
              bt_commit_token = cursor_bytes (int (qr_id (last (r # rs))))\<rparr>]) (records_of c w (r # rs)))))))"

definition ensure_ready :: "sq_world \<Rightarrow> sinkdb \<Rightarrow> sq_state \<Rightarrow> sq_state \<times> bool res" where
  "ensure_ready w db st = (if ss_schema_checked st then (st, Ok True)
     else (case connect w st of (st1, Raise e) \<Rightarrow> (st1, Raise e)
     | (st1, Ok _) \<Rightarrow> (case sw_exec w of Some e \<Rightarrow> (st1, Raise e)
       | None \<Rightarrow> if sd_has_table db then (st1\<lparr>ss_schema_checked := True\<rparr>, Ok True) else (st1, Ok False))))"

text \<open>\<open>_present_position\<close>: the highest id in scope, 0 when there is none.\<close>

definition present_position :: "sq_conf \<Rightarrow> sq_world \<Rightarrow> sinkdb \<Rightarrow> sq_state \<Rightarrow> sq_state \<times> int res" where
  "present_position c w db st = (let st1 = probe_local db (probe_scope c db st) in
     (st1, case sw_exec w of Some e \<Rightarrow> Raise e
       | None \<Rightarrow> map_res (\<lambda>rs. Max (insert 0 (set (map (\<lambda>r. int (qr_id r)) rs))))
           (keep_rows (where_holds ([target_clause c] @ scope_clauses c w st1 @ local_clauses st1)) (sd_rows db))))"

definition cursor_from_start_at :: "sq_conf \<Rightarrow> sq_world \<Rightarrow> sinkdb \<Rightarrow> sq_state \<Rightarrow> sq_state \<times> int res" where
  "cursor_from_start_at c w db st = (case ss_start_cursor st of Some i \<Rightarrow> (st, Ok i)
     | None \<Rightarrow> (case connect w st of (st1, Raise e) \<Rightarrow> (st1, Raise e)
       | (st1, Ok _) \<Rightarrow> (case present_position c w db st1 of
           (st2, Raise e) \<Rightarrow> (st2, Raise e)
         | (st2, Ok i) \<Rightarrow> (st2\<lparr>ss_start_cursor := Some i\<rparr>, Ok i))))"

definition iter_batches :: "sq_conf \<Rightarrow> sq_world \<Rightarrow> bytes \<Rightarrow> nat \<Rightarrow> sinkdb \<Rightarrow> sq_state \<Rightarrow> sq_state \<times> batch list res" where
  "iter_batches c w cursor limit db st = (if \<not> sw_configured w then (st, Ok [])
     else (case ensure_ready w db st of
       (st1, Raise _) \<Rightarrow> (st1\<lparr>ss_health := HealthUnreachable\<rparr>, Ok [])
     | (st1, Ok False) \<Rightarrow> (st1\<lparr>ss_health := HealthUnreachable\<rparr>, Ok [])
     | (st1, Ok True) \<Rightarrow> (let st2 = st1\<lparr>ss_health := HealthOk\<rparr> in
         (case cursor_id cursor of Raise e \<Rightarrow> (st2, Raise e)
          | Ok i \<Rightarrow> (case (if cursor = [] \<and> sq_start_at c then cursor_from_start_at c w db st2 else (st2, Ok i)) of
               (st3, Raise e) \<Rightarrow> (st3, Raise e)
             | (st3, Ok cur) \<Rightarrow> iter_one_batch c w cur limit db st3)))))"

text \<open>\<open>commit\<close>: the rows its DELETE takes; a failure is logged and swallowed, the rows then stay.\<close>

definition doomed_rows :: "sq_conf \<Rightarrow> sq_world \<Rightarrow> sq_state \<Rightarrow> int \<Rightarrow> sinkdb \<Rightarrow> qrow list res" where
  "doomed_rows c w st n db = bind_res (bind_param (PInt n)) (\<lambda>_. case sw_exec w of Some e \<Rightarrow> Raise e
     | None \<Rightarrow> keep_rows (where_holds ((\<lambda>r. Ok (Some (int (qr_id r) \<le> n)))
         # ([target_clause c] @ scope_clauses c w st @ local_clauses st))) (sd_rows db))"

definition commit :: "sq_conf \<Rightarrow> sq_world \<Rightarrow> bytes \<Rightarrow> sinkdb \<Rightarrow> sq_state \<Rightarrow> sq_state \<times> sinkdb" where
  "commit c w token db st = (if \<not> sw_configured w \<or> token = [] \<or> \<not> sq_delete c then (st, db)
     else (case cursor_id token of Raise _ \<Rightarrow> (st, db)
     | Ok last_id \<Rightarrow> (case connect w st of (st1, Raise _) \<Rightarrow> (st1, db)
       | (st1, Ok _) \<Rightarrow> (let st2 = probe_local db (probe_scope c db st1) in
           (case doomed_rows c w st2 last_id db of
              Raise _ \<Rightarrow> (st2, db)
            | Ok gone \<Rightarrow> (st2, db\<lparr>sd_rows := filter (\<lambda>r. r \<notin> set gone) (sd_rows db)\<rparr>))))))"

definition cursor_is_after :: comparator where
  "cursor_is_after new stored = (if stored = [] then Ok True
     else (case (cursor_id new, cursor_id stored) of (Ok a, Ok b) \<Rightarrow> Ok (b < a) | _ \<Rightarrow> Ok True))"

definition close_source :: "sq_state \<Rightarrow> sq_state" where
  "close_source st = (if ss_conn st then st\<lparr>ss_conn := False, ss_producer_column := None, ss_schema_checked := False\<rparr> else st)"

text \<open>\<open>initial_cursor\<close>, over a connection of its own; the producer probe is the source's.\<close>

definition initial_cursor :: "sq_conf \<Rightarrow> sq_world \<Rightarrow> sinkdb \<Rightarrow> sq_state \<Rightarrow> sq_state \<times> bytes option res" where
  "initial_cursor c w db st = (if \<not> sw_configured w \<or> \<not> sq_start_at c then (st, Ok None)
     else (case ss_start_cursor st of Some i \<Rightarrow> (st, Ok (Some (cursor_bytes i)))
     | None \<Rightarrow> if sw_default_factory w \<and> \<not> sw_exists w then (st, Ok (Some (cursor_bytes 0)))
       else (case sw_connect w of Some e \<Rightarrow> (st, Raise e)
       | None \<Rightarrow> (case sw_exec w of Some e \<Rightarrow> (st, Raise e)
         | None \<Rightarrow> if \<not> sd_has_table db then (st, Ok (Some (cursor_bytes 0)))
           else (case present_position c w db (st\<lparr>ss_local_column := None\<rparr>) of
             (st1, r) \<Rightarrow> (st1\<lparr>ss_local_column := ss_local_column st\<rparr>, map_res (\<lambda>i. Some (cursor_bytes i)) r))))))"

end
