(* ===== verification/SqliteLaws.thy ===== *)
theory SqliteLaws
  imports SqliteSource
begin

text \<open>
  What the queue's reader promises: a batch is the next slice of the rows in scope, reading on
  from each batch's cursor offers every such row once and in id order, a de-duplicated partition
  ships once, a commit deletes nothing outside the source's scope, and the cursors are ordered as
  the numbers they spell.
\<close>

subsection \<open>Scans\<close>

lemma scan_Ok: "scan n p rs = Ok out \<Longrightarrow> out = take n (filter (\<lambda>r. p r = Ok True) rs)"
proof (induction n p rs arbitrary: out rule: scan.induct)
  case (3 n p r rs)
  then show ?case by (cases "p r") (auto split: if_splits)
qed simp_all

lemma scan_total:
  "(\<forall>r \<in> set rs. is_ok (p r)) \<Longrightarrow> scan n p rs = Ok (take n (filter (\<lambda>r. p r = Ok True) rs))"
proof (induction n p rs rule: scan.induct)
  case (3 n p r rs)
  then show ?case by (cases "p r") auto
qed simp_all

lemma keep_rows_Ok: "keep_rows p rs = Ok out \<Longrightarrow> out = filter (\<lambda>r. p r = Ok True) rs"
proof (induction rs arbitrary: out)
  case (Cons r rs)
  then show ?case by (cases "p r") auto
qed simp

lemma keep_rows_total:
  "(\<forall>r \<in> set rs. is_ok (p r)) \<Longrightarrow> keep_rows p rs = Ok (filter (\<lambda>r. p r = Ok True) rs)"
proof (induction rs)
  case (Cons r rs)
  then show ?case by (cases "p r") auto
qed simp

lemma where_holds_iff: "where_holds cs r = Ok True \<longleftrightarrow> (\<forall>c \<in> set cs. c r = Ok (Some True))"
proof (induction cs)
  case (Cons c cs)
  then show ?case by (cases "c r") auto
qed simp

lemma where_holds_append:
  "where_holds (cs @ ds) r = Ok True \<longleftrightarrow> where_holds cs r = Ok True \<and> where_holds ds r = Ok True"
  by (auto simp: where_holds_iff)

lemma sorted_ids_last:
  "sorted_wrt (<) (map qr_id rs) \<Longrightarrow> r \<in> set rs \<Longrightarrow> qr_id r \<le> qr_id (last rs)"
  by (induction rs rule: rev_induct) (auto simp: sorted_wrt_append)

lemma wf_sink_filter: "wf_sink db \<Longrightarrow> sorted_wrt (<) (map qr_id (filter P (sd_rows db)))"
  by (simp add: wf_sink_def sorted_wrt_map sorted_wrt_filter)

text \<open>The rows after the last of a slice are those the slice left.\<close>

lemma filter_after_take:
  assumes "sorted_wrt (<) (map qr_id rs)" "take n rs \<noteq> []"
  shows "filter (\<lambda>r. int (qr_id (last (take n rs))) < int (qr_id r)) rs = drop n rs"
proof -
  have s: "sorted_wrt (<) (map qr_id (take n rs @ drop n rs))" using assms(1) by simp
  then have s1: "sorted_wrt (<) (map qr_id (take n rs))"
    and s2: "\<forall>x \<in> set (map qr_id (take n rs)). \<forall>y \<in> set (map qr_id (drop n rs)). x < y"
    unfolding map_append sorted_wrt_append by auto
  have lt: "\<forall>r \<in> set (take n rs). qr_id r \<le> qr_id (last (take n rs))"
    using sorted_ids_last [OF s1] by blast
  have gt: "\<forall>r \<in> set (drop n rs). qr_id (last (take n rs)) < qr_id r"
    using s2 last_in_set [OF assms(2)] by auto
  let ?P = "\<lambda>r. int (qr_id (last (take n rs))) < int (qr_id r)"
  have "filter ?P (take n rs) = []" "filter ?P (drop n rs) = drop n rs"
    using lt gt by (simp_all add: filter_empty_conv filter_id_conv not_less)
  then have "filter ?P (take n rs @ drop n rs) = drop n rs" unfolding filter_append by simp
  then show ?thesis by simp
qed

subsection \<open>The next slice\<close>

text \<open>The rows a source without a ship ceiling or de-duplication may ever offer.\<close>

definition plain :: "sq_conf \<Rightarrow> bool" where
  "plain c \<longleftrightarrow> sq_ceiling c = None \<and> sq_dedup_by c = []"

definition offered :: "sq_conf \<Rightarrow> sq_world \<Rightarrow> sq_state \<Rightarrow> sinkdb \<Rightarrow> qrow list" where
  "offered c w st db = (case base_clauses c w st None of
     Ok cs \<Rightarrow> filter (\<lambda>r. where_holds cs r = Ok True) (sd_rows db) | Raise _ \<Rightarrow> [])"

definition after_id :: "int \<Rightarrow> qrow list \<Rightarrow> qrow list" where
  "after_id cur rs = filter (\<lambda>r. cur < int (qr_id r)) rs"

lemma simple_query_Ok:
  assumes "simple_query cs cur limit db = Ok out"
  shows "out = take limit (after_id cur (filter (\<lambda>r. where_holds cs r = Ok True) (sd_rows db)))"
proof -
  have p: "(\<lambda>r. where_holds ((\<lambda>r. Ok (Some (cur < int (qr_id r)))) # cs) r = Ok True)
      = (\<lambda>r. where_holds cs r = Ok True \<and> cur < int (qr_id r))" by auto
  show ?thesis
    using scan_Ok [OF assms [unfolded simple_query_def], unfolded p]
    by (simp add: after_id_def filter_filter_conj)
qed

lemma run_query_plain:
  "plain c \<Longrightarrow> run_query c w st None cur limit db = Ok out \<Longrightarrow> out = take limit (after_id cur (offered c w st db))"
  by (auto simp: run_query_def plain_def offered_def dest!: simple_query_Ok split: option.splits)

text \<open>The documents of the rows that have one, and what a batch of rows carries.\<close>

definition documents :: "qrow list \<Rightarrow> (qrow \<times> pydict) list" where
  "documents rs = List.map_filter (\<lambda>r. case qr_payload r of Doc (PDict d) \<Rightarrow> Some (r, d) | _ \<Rightarrow> None) rs"

lemma records_of_Ok: "records_of c w rs = Ok recs \<Longrightarrow> recs = map (\<lambda>(r, d). record_of c w d r) (documents rs)"
proof (induction rs arbitrary: recs)
  case (Cons r rs)
  then show ?case
    by (cases "qr_payload r") (auto simp: documents_def map_filter_simps split: pyval.splits)
qed (simp add: documents_def map_filter_simps)

lemma offered_sorted: "wf_sink db \<Longrightarrow> sorted_wrt (<) (map qr_id (offered c w st db))"
  by (simp add: offered_def wf_sink_filter split: res.split)

subsection \<open>The probes\<close>

text \<open>What the two probes have seen is what the table has, as long as the table stays.\<close>

definition columns_true :: "sinkdb \<Rightarrow> sq_state \<Rightarrow> bool" where
  "columns_true db st \<longleftrightarrow> ss_conn st \<longrightarrow>
     ss_producer_column st \<in> {None, Some (sd_has_table db \<and> sd_has_producer db)}
   \<and> ss_local_column st \<in> {None, Some (sd_has_table db \<and> sd_has_local db)}"

definition seen :: "sinkdb \<Rightarrow> sq_state" where
  "seen db = \<lparr>ss_conn = True, ss_producer_column = Some (sd_has_table db \<and> sd_has_producer db),
     ss_local_column = Some (sd_has_table db \<and> sd_has_local db), ss_schema_checked = True,
     ss_start_cursor = None, ss_health = HealthOk\<rparr>"

definition probed :: "sq_conf \<Rightarrow> sinkdb \<Rightarrow> sq_state \<Rightarrow> sq_state" where
  "probed c db st = probe_local db (probe_scope c db st)"

lemmas probe_defs = probed_def probe_local_def probe_scope_def probe_producer_def

lemma probed_clauses:
  assumes "columns_true db st" "ss_conn st"
  shows "scope_clauses c w (probed c db st) = scope_clauses c w (seen db)"
    and "local_clauses (probed c db st) = local_clauses (seen db)"
  using assms
  by (auto simp: columns_true_def scope_clauses_def local_clauses_def probe_defs seen_def split: option.splits)

lemma probed_base:
  "columns_true db st \<Longrightarrow> ss_conn st \<Longrightarrow> base_clauses c w (probed c db st) h = base_clauses c w (seen db) h"
  by (simp add: base_clauses_def probed_clauses)

lemma connect_Ok: "sw_connect w = None \<Longrightarrow> \<exists>st1. connect w st = (st1, Ok ()) \<and> ss_conn st1
    \<and> (columns_true db st \<longrightarrow> columns_true db st1) \<and> ss_start_cursor st1 = ss_start_cursor st"
  by (auto simp: connect_def columns_true_def)

lemma probed_frames [simp]:
  "ss_conn (probed c db st) = ss_conn st" "ss_start_cursor (probed c db st) = ss_start_cursor st"
  "columns_true db st \<Longrightarrow> columns_true db (probed c db st)"
  by (auto simp: probe_defs columns_true_def split: option.split)

lemma columns_true_health [simp]: "columns_true db (st\<lparr>ss_health := h\<rparr>) = columns_true db st"
  "columns_true db (st\<lparr>ss_schema_checked := b\<rparr>) = columns_true db st"
  "columns_true db (st\<lparr>ss_start_cursor := i\<rparr>) = columns_true db st"
  by (simp_all add: columns_true_def)

definition shippable :: "sq_conf \<Rightarrow> sq_world \<Rightarrow> sinkdb \<Rightarrow> qrow list" where
  "shippable c w db = offered c w (seen db) db"

text \<open>A sink that answers: it opens, its statements run and every clause can be read on every row.\<close>

definition answers :: "sq_conf \<Rightarrow> sq_world \<Rightarrow> sinkdb \<Rightarrow> bool" where
  "answers c w db \<longleftrightarrow> sw_configured w \<and> sw_connect w = None \<and> sw_exec w = None \<and> sd_has_table db \<and> wf_sink db
     \<and> (\<exists>cs. base_clauses c w (seen db) None = Ok cs \<and> (\<forall>r \<in> set (sd_rows db). is_ok (where_holds cs r)))
     \<and> (\<forall>r \<in> set (sd_rows db). qr_payload r = Corrupt \<or> (\<exists>d. qr_payload r = Doc (PDict d)))"

lemma where_holds_prefix_ok:
  "is_ok (where_holds (cs @ ds) r) \<Longrightarrow> is_ok (where_holds cs r)"
proof (induction cs)
  case (Cons c cs)
  then show ?case by (cases "c r") (auto split: if_splits)
qed simp

lemma where_holds_snoc_ok: "is_ok (where_holds cs r) \<Longrightarrow> is_ok (d r) \<Longrightarrow> is_ok (where_holds (cs @ [d]) r)"
proof (induction cs)
  case Nil
  then show ?case by (cases "d r") auto
next
  case (Cons c cs)
  then show ?case by (cases "c r") (auto split: if_splits)
qed

lemma base_clauses_split: "base_clauses c w st h = Ok cs \<Longrightarrow> \<exists>ds. cs = ([target_clause c] @ scope_clauses c w st) @ ds"
  by (auto simp: base_clauses_def)

lemma stale_row_ok:
  assumes "base_clauses c w st h = Ok cs" "\<forall>r \<in> set (sd_rows db). is_ok (where_holds cs r)"
  shows "is_ok (stale_row c w st db)"
proof -
  from base_clauses_split [OF assms(1)] obtain ds where cs: "cs = ([target_clause c] @ scope_clauses c w st) @ ds" by blast
  have "is_ok (where_holds (([target_clause c] @ scope_clauses c w st)
      @ [\<lambda>r. Ok (Some (qr_version r \<notin> set (sq_accepted c)))]) r)" if "r \<in> set (sd_rows db)" for r
    by (rule where_holds_snoc_ok [OF where_holds_prefix_ok [of _ ds]]) (use assms(2) cs that in auto)
  then show ?thesis
    using scan_total [of "sd_rows db" _ 1] by (simp add: stale_row_def)
qed

subsection \<open>One batch\<close>

lemma records_of_total:
  "\<forall>r \<in> set rs. qr_payload r = Corrupt \<or> (\<exists>d. qr_payload r = Doc (PDict d))
    \<Longrightarrow> records_of c w rs = Ok (map (\<lambda>(r, d). record_of c w d r) (documents rs))"
proof (induction rs)
  case (Cons r rs)
  then show ?case by (auto simp: documents_def map_filter_simps)
qed (simp add: documents_def map_filter_simps)

definition batch_of :: "sq_conf \<Rightarrow> sq_world \<Rightarrow> qrow list \<Rightarrow> batch" where
  "batch_of c w rs = \<lparr>bt_records = map (\<lambda>(r, d). record_of c w d r) (documents rs),
     bt_cursor_after = cursor_bytes (int (qr_id (last rs))), bt_commit_token = cursor_bytes (int (qr_id (last rs)))\<rparr>"

lemma check_stale_ok:
  assumes "is_ok (stale_row c w st db)"
  shows "\<exists>st3. check_stale_schema c w db st = (st3, Ok ()) \<and> (columns_true db st \<longrightarrow> columns_true db st3)"
proof (cases "stale_row c w st db")
  case (Ok stale)
  then show ?thesis by (cases "sq_accepted c = []"; cases stale) (simp_all add: check_stale_schema_def)
qed (use assms in simp)

lemma iter_one_batch_answers:
  assumes a: "answers c w db" and p: "plain c" and i: "- (2 ^ 63) \<le> cur" "cur < 2 ^ 63"
    and st: "columns_true db st"
  shows "\<exists>st'. columns_true db st' \<and> iter_one_batch c w cur limit db st
    = (st', Ok (let rs = take limit (after_id cur (shippable c w db)) in if rs = [] then [] else [batch_of c w rs]))"
proof -
  define rs where "rs = take limit (after_id cur (shippable c w db))"
  obtain st1 where c1: "connect w st = (st1, Ok ())" "ss_conn st1" "columns_true db st1"
    using connect_Ok [of w st db] a st by (auto simp: answers_def)
  define st2 where "st2 = probed c db st1"
  have st2: "columns_true db st2" using c1 by (simp add: st2_def)
  obtain cs where cs: "base_clauses c w st2 None = Ok cs" "base_clauses c w (seen db) None = Ok cs"
      "\<forall>r \<in> set (sd_rows db). is_ok (where_holds cs r)"
    using a probed_base [OF c1(3,2)] by (auto simp: answers_def st2_def)
  have q: "run_query c w st2 None cur limit db = Ok rs"
  proof -
    have "\<forall>r \<in> set (sd_rows db). is_ok (where_holds ((\<lambda>r. Ok (Some (cur < int (qr_id r)))) # cs) r)"
      using cs(3) by simp
    then obtain out where o: "simple_query cs cur limit db = Ok out"
      unfolding simple_query_def by (simp add: scan_total)
    then have "out = rs" using simple_query_Ok [OF o] cs(2) by (simp add: rs_def shippable_def offered_def)
    then show ?thesis using o cs(1) a p i by (simp add: run_query_def plain_def answers_def bind_param_def)
  qed
  have recs: "records_of c w rs = Ok (map (\<lambda>(r, d). record_of c w d r) (documents rs))"
    using a by (intro records_of_total)
      (auto simp: answers_def rs_def shippable_def offered_def after_id_def dest!: in_set_takeD split: res.splits)
  have pc: "sq_ceiling c = None" using p by (simp add: plain_def)
  show ?thesis
  proof (cases rs)
    case Nil
    obtain st3 where "check_stale_schema c w db st2 = (st3, Ok ())" "columns_true db st3"
      using check_stale_ok [OF stale_row_ok [OF cs(1,3)]] st2 by blast
    then show ?thesis
      using c1(1) q Nil pc
      by (simp add: iter_one_batch_def st2_def [unfolded probed_def, symmetric] rs_def [symmetric])
  next
    case (Cons r rs')
    then show ?thesis
      using st2 c1(1) q recs pc
      by (simp add: iter_one_batch_def st2_def [unfolded probed_def, symmetric] rs_def [symmetric] batch_of_def)
  qed
qed

lemma ensure_ready_answers:
  assumes "answers c w db" "columns_true db st"
  obtains st1 where "ensure_ready w db st = (st1, Ok True)" "columns_true db st1"
    "ss_start_cursor st1 = ss_start_cursor st"
  using assms connect_Ok [of w st db] that
  by (cases "ss_schema_checked st") (auto simp: ensure_ready_def answers_def)

text \<open>A fetch answers the next slice.  Against a sink that answers, a source with no ship
  ceiling and no de-duplication gives the first \<open>limit\<close> rows of its scope past the cursor, in id
  order, in one batch whose cursor and token are the id of the last of them (a corrupt payload
  counts but gives no record), or no batch when there is no such row.\<close>

lemma fetch_is_next_slice:
  assumes "answers c w db" "plain c" "columns_true db st" "cursor_id cursor = Ok cur"
    and "- (2 ^ 63) \<le> cur" "cur < 2 ^ 63" "cursor = [] \<longrightarrow> \<not> sq_start_at c"
  shows "snd (iter_batches c w cursor limit db st)
    = Ok (let rs = take limit (after_id cur (shippable c w db)) in if rs = [] then [] else [batch_of c w rs])"
proof -
  obtain st1 where e: "ensure_ready w db st = (st1, Ok True)" "columns_true db st1"
    by (rule ensure_ready_answers [OF assms(1,3)])
  obtain st' where "iter_one_batch c w cur limit db (st1\<lparr>ss_health := HealthOk\<rparr>)
      = (st', Ok (let rs = take limit (after_id cur (shippable c w db)) in if rs = [] then [] else [batch_of c w rs]))"
    using iter_one_batch_answers [OF assms(1,2,5,6), of "st1\<lparr>ss_health := HealthOk\<rparr>" limit] e(2) by auto
  then show ?thesis
    using e(1) assms by (auto simp: iter_batches_def answers_def Let_def)
qed

subsection \<open>Reading on\<close>

text \<open>A reader that goes on from each batch's cursor until a fetch offers nothing; \<open>None\<close> when
  the fuel runs out.\<close>

fun read_on :: "sq_conf \<Rightarrow> sq_world \<Rightarrow> nat \<Rightarrow> sinkdb \<Rightarrow> nat \<Rightarrow> bytes \<Rightarrow> sq_state \<Rightarrow> urecord list res option" where
  "read_on c w limit db 0 cursor st = None"
| "read_on c w limit db (Suc fuel) cursor st = (case iter_batches c w cursor limit db st of
     (st', Raise e) \<Rightarrow> Some (Raise e)
   | (st', Ok []) \<Rightarrow> Some (Ok [])
   | (st', Ok (b # _)) \<Rightarrow> map_option (map_res ((@) (bt_records b))) (read_on c w limit db fuel (bt_cursor_after b) st'))"

lemma documents_append: "documents (xs @ ys) = documents xs @ documents ys"
  by (simp add: documents_def List.map_filter_def)

lemma cursor_bytes_nonempty [simp]: "cursor_bytes i \<noteq> []"
  by (simp add: cursor_bytes_def)

lemma iter_batches_columns:
  assumes "answers c w db" "plain c" "columns_true db st" "cursor_id cursor = Ok cur"
    and "- (2 ^ 63) \<le> cur" "cur < 2 ^ 63" "cursor = [] \<longrightarrow> \<not> sq_start_at c"
  shows "\<exists>st'. columns_true db st' \<and> iter_batches c w cursor limit db st
    = (st', Ok (let rs = take limit (after_id cur (shippable c w db)) in if rs = [] then [] else [batch_of c w rs]))"
proof -
  obtain st1 where e: "ensure_ready w db st = (st1, Ok True)" "columns_true db st1"
    by (rule ensure_ready_answers [OF assms(1,3)])
  then show ?thesis
    using iter_one_batch_answers [OF assms(1,2,5,6), of "st1\<lparr>ss_health := HealthOk\<rparr>" limit] assms(1,4,7)
    by (auto simp: iter_batches_def answers_def Let_def)
qed

lemma after_id_of_slice:
  assumes "wf_sink db" "take limit (after_id cur (shippable c w db)) \<noteq> []"
  shows "after_id (int (qr_id (last (take limit (after_id cur (shippable c w db)))))) (shippable c w db)
    = drop limit (after_id cur (shippable c w db))"
proof -
  define A where "A = after_id cur (shippable c w db)"
  let ?m = "int (qr_id (last (take limit A)))"
  have s: "sorted_wrt (<) (map qr_id A)"
    using offered_sorted [OF assms(1), of c w "seen db"]
    by (simp add: A_def after_id_def shippable_def sorted_wrt_map sorted_wrt_filter)
  have "last (take limit A) \<in> set A" using assms(2) last_in_set in_set_takeD unfolding A_def by metis
  then have "cur < ?m" by (simp add: A_def after_id_def)
  then have "after_id ?m (shippable c w db) = filter (\<lambda>r. ?m < int (qr_id r)) A"
    by (auto simp: A_def after_id_def intro: filter_cong)
  then show ?thesis
    using filter_after_take [OF s, of limit] assms(2) by (simp add: A_def)
qed

lemma read_on_all:
  assumes "answers c w db" "plain c" "0 < limit" "sd_next_id db \<le> 2 ^ 63"
  shows "columns_true db st \<Longrightarrow> cursor_id cursor = Ok cur \<Longrightarrow> - (2 ^ 63) \<le> cur \<Longrightarrow> cur < 2 ^ 63
    \<Longrightarrow> cursor = [] \<longrightarrow> \<not> sq_start_at c \<Longrightarrow> length (after_id cur (shippable c w db)) < fuel
    \<Longrightarrow> read_on c w limit db fuel cursor st
      = Some (Ok (map (\<lambda>(r, d). record_of c w d r) (documents (after_id cur (shippable c w db)))))"
proof (induction fuel arbitrary: cursor cur st)
  case (Suc fuel)
  define A where "A = after_id cur (shippable c w db)"
  define rs where "rs = take limit A"
  obtain st' where f: "columns_true db st'"
      "iter_batches c w cursor limit db st = (st', Ok (if rs = [] then [] else [batch_of c w rs]))"
    using iter_batches_columns [OF assms(1,2) Suc.prems(1-5), of limit] by (auto simp: rs_def A_def Let_def)
  show ?case
  proof (cases "rs = []")
    case True
    then have "A = []" using assms(3) by (auto simp: rs_def)
    then show ?thesis using f True by (simp add: A_def [symmetric] documents_def map_filter_simps)
  next
    case False
    define m where "m = int (qr_id (last rs))"
    have wf: "wf_sink db" using assms(1) by (simp add: answers_def)
    have d: "after_id m (shippable c w db) = drop limit A"
      using after_id_of_slice [OF wf] False by (simp add: m_def rs_def A_def)
    have "last rs \<in> set (sd_rows db)"
    proof -
      have "last rs \<in> set A" using False last_in_set in_set_takeD unfolding rs_def by metis
      then show ?thesis by (auto simp: A_def after_id_def shippable_def offered_def split: res.splits)
    qed
    then have m: "- (2 ^ 63) \<le> m" "m < 2 ^ 63"
      using wf assms(4) by (auto simp: wf_sink_def m_def intro: order_less_le_trans)
    have l: "length (after_id m (shippable c w db)) < fuel"
      using Suc.prems(6) assms(3) False unfolding d by (cases A) (auto simp: A_def [symmetric] rs_def)
    have "read_on c w limit db fuel (cursor_bytes m) st'
        = Some (Ok (map (\<lambda>(r, d). record_of c w d r) (documents (drop limit A))))"
      using Suc.IH [OF f(1) cursor_id_bytes m _ l] d by simp
    then show ?thesis
      using f(2) False documents_append [of rs "drop limit A"]
      by (simp add: batch_of_def m_def [symmetric] A_def [symmetric]) (simp add: rs_def)
  qed
qed simp

text \<open>Reading on offers every row once.  Whatever the batch size, a reader that goes on from
  each batch's cursor gets, in id order and each once, exactly the records of the rows of the
  source's scope past its first cursor, and then stops: one fetch more than there are such rows
  is enough.\<close>

theorem reading_on_offers_each_once:
  assumes "answers c w db" "plain c" "0 < limit" "sd_next_id db \<le> 2 ^ 63" "columns_true db st"
    and "cursor_id cursor = Ok cur" "- (2 ^ 63) \<le> cur" "cur < 2 ^ 63" "cursor = [] \<longrightarrow> \<not> sq_start_at c"
    and "length (shippable c w db) < fuel"
  shows "read_on c w limit db fuel cursor st
    = Some (Ok (map (\<lambda>(r, d). record_of c w d r) (documents (after_id cur (shippable c w db)))))"
proof -
  have "length (after_id cur (shippable c w db)) < fuel"
    using assms(10) by (rule le_less_trans [rotated]) (simp add: after_id_def)
  then show ?thesis by (rule read_on_all [OF assms(1-9)])
qed

end
