(* ===== verification/SqliteCommit.thy ===== *)
theory SqliteCommit
  imports SqliteLaws
begin

text \<open>
  What a commit deletes, whose row a row without a producer is, the \<open>start_at\<close> anchor, the
  de-duplicated query and the order of the cursors.
\<close>

subsection \<open>Commit\<close>

lemma clause_id_le: "where_holds ((\<lambda>r. Ok (Some (int (qr_id r) \<le> n))) # cs) r = Ok True
    \<longleftrightarrow> int (qr_id r) \<le> n \<and> where_holds cs r = Ok True"
  by auto

text \<open>The rows a commit may delete, whatever their version or \<open>extra_where\<close> say.\<close>

definition in_scope :: "sq_conf \<Rightarrow> sq_world \<Rightarrow> sinkdb \<Rightarrow> qrow \<Rightarrow> bool" where
  "in_scope c w db r \<longleftrightarrow> where_holds ([target_clause c] @ scope_clauses c w (seen db) @ local_clauses (seen db)) r = Ok True"

lemma doomed_probed:
  assumes "columns_true db st" "ss_conn st"
  shows "doomed_rows c w (probe_local db (probe_scope c db st)) n db = doomed_rows c w (seen db) n db"
  unfolding doomed_rows_def probed_clauses [OF assms, unfolded probed_def] ..

lemma doomed_rows_Ok:
  assumes "doomed_rows c w (seen db) n db = Ok gone"
  shows "gone = filter (\<lambda>r. int (qr_id r) \<le> n \<and> in_scope c w db r) (sd_rows db)"
proof -
  define cs where "cs = [target_clause c] @ scope_clauses c w (seen db) @ local_clauses (seen db)"
  have "keep_rows (where_holds ((\<lambda>r. Ok (Some (int (qr_id r) \<le> n))) # cs)) (sd_rows db) = Ok gone"
    using assms unfolding doomed_rows_def cs_def [symmetric] by (auto split: option.splits)
  from keep_rows_Ok [OF this] show ?thesis unfolding clause_id_le in_scope_def cs_def .
qed

lemma commit_gone:
  assumes "columns_true db st" "cursor_id token = Ok n" "commit c w token db st = (st', db')"
  shows "db' = db \<or> sq_delete c \<and> db' = db\<lparr>sd_rows := filter (\<lambda>r. \<not> (int (qr_id r) \<le> n \<and> in_scope c w db r)) (sd_rows db)\<rparr>"
proof (cases "\<not> sw_configured w \<or> token = [] \<or> \<not> sq_delete c")
  case False
  obtain st1 x where c1: "connect w st = (st1, x)" by fastforce
  show ?thesis
  proof (cases x)
    case (Ok u)
    then have t: "columns_true db st1" "ss_conn st1"
      using c1 assms(1) by (auto simp: connect_def columns_true_def split: if_splits option.splits)
    note d = doomed_probed [OF t, of c w n]
    show ?thesis
    proof (cases "doomed_rows c w (seen db) n db")
      case (Ok gone)
      have "filter (\<lambda>r. r \<notin> set gone) (sd_rows db)
          = filter (\<lambda>r. \<not> (int (qr_id r) \<le> n \<and> in_scope c w db r)) (sd_rows db)"
        by (rule filter_cong) (auto simp: doomed_rows_Ok [OF Ok])
      then show ?thesis
        using assms(2,3) False c1 \<open>x = Ok u\<close> Ok d by (simp add: commit_def Let_def)
    next
      case (Raise e)
      then show ?thesis
        using assms(2,3) False c1 \<open>x = Ok u\<close> d by (simp add: commit_def Let_def)
    qed
  qed (use assms False c1 in \<open>simp add: commit_def\<close>)
qed (use assms(3) in \<open>auto simp: commit_def\<close>)

text \<open>
  Whose an unlabelled row is (D12): MSK144 belongs to \<open>meteor-scatter\<close>, every other mode to
  \<open>psk-recorder\<close>, and no row to anybody else.  The mode is the text in the payload, trimmed and in lower
  case; a mode that is no text is no MSK144.
\<close>

definition assigned_to :: "string \<Rightarrow> (pyval \<Rightarrow> string) \<Rightarrow> qrow \<Rightarrow> bool" where
  "assigned_to p jt r \<longleftrightarrow> (\<exists>v. json_extract jt ''mode'' r = Ok v
     \<and> (if \<exists>t. v = SText t \<and> sql_lower (sql_trim t) = ''msk144'' then p = ''meteor-scatter'' else p = ''psk-recorder''))"

lemma d12_assigned: "d12_by_producer p = Some f \<Longrightarrow> d12_clause jt f r = Ok (Some True) \<Longrightarrow> assigned_to p jt r"
  by (auto simp: d12_by_producer_def d12_clause_def assigned_to_def d12_is_msk_def split: if_splits sqlval.splits)

lemma scope_producer:
  assumes "where_holds (scope_clauses c w (seen db)) r = Ok True" "sq_producer c = Some p"
  shows "if sd_has_table db \<and> sd_has_producer db
      then qr_producer r = p \<or> qr_producer r = [] \<and> assigned_to p (sw_json_text w) r
      else assigned_to p (sw_json_text w) r"
proof (cases "d12_by_producer p")
  case None
  then show ?thesis using assms by (auto simp: scope_clauses_def Let_def seen_def split: if_splits)
next
  case (Some f)
  have a: "assigned_to p (sw_json_text w) r" if "d12_clause (sw_json_text w) f r = Ok (Some True)"
    using d12_assigned [OF Some that] .
  show ?thesis using assms Some by (auto simp: scope_clauses_def Let_def seen_def split: if_splits intro: a)
qed

lemma scope_radiod:
  assumes "where_holds (scope_clauses c w (seen db)) r = Ok True" "sq_producer c = Some p" "sq_radiod c = Some i"
  shows "map_res (\<lambda>v. sql_op ''='' v (SText i)) (json_extract (sw_json_text w) ''radiod_id'' r) = Ok (Some True)"
proof -
  obtain cl where "scope_clauses c w (seen db)
      = [cl, \<lambda>r. map_res (\<lambda>v. sql_op ''='' v (SText i)) (json_extract (sw_json_text w) ''radiod_id'' r)]"
    using assms(2,3) by (simp add: scope_clauses_def Let_def)
  with assms(1) show ?thesis by (simp only: where_holds_iff list.set ball_simps) 
qed

text \<open>C16: a commit stays inside its scope.  While what the source's probes of the columns have seen is what the
  file has, a row that a commit removes has an id at most the token's and is addressed to the source's
  database and table; it is not marked local, when the file has that column; and when the source names
  a producer, the row names that producer or, naming none (or in a file without the column), has the mode
  that D12 assigns to this producer and no other, and it is of the source's radiod, if there is one.  The
  id counter and the other rows stay as they are.\<close>

theorem commit_stays_in_scope:
  assumes "columns_true db st" "cursor_id token = Ok n" "commit c w token db st = (st', db')"
    and "r \<in> set (sd_rows db)" "r \<notin> set (sd_rows db')"
  shows "int (qr_id r) \<le> n \<and> qr_db r = sq_database c \<and> qr_table r = sq_table c
    \<and> (sd_has_table db \<and> sd_has_local db \<longrightarrow> \<not> qr_local r)
    \<and> (\<forall>p. sq_producer c = Some p \<longrightarrow>
         (if sd_has_table db \<and> sd_has_producer db
          then qr_producer r = p \<or> qr_producer r = [] \<and> assigned_to p (sw_json_text w) r
          else assigned_to p (sw_json_text w) r)
       \<and> (\<forall>i. sq_radiod c = Some i \<longrightarrow>
           map_res (\<lambda>v. sql_op ''='' v (SText i)) (json_extract (sw_json_text w) ''radiod_id'' r) = Ok (Some True)))
    \<and> sd_next_id db' = sd_next_id db \<and> set (sd_rows db') \<subseteq> set (sd_rows db)"
proof -
  from commit_gone [OF assms(1-3)] assms(4,5)
  have d: "db' = db\<lparr>sd_rows := filter (\<lambda>r. \<not> (int (qr_id r) \<le> n \<and> in_scope c w db r)) (sd_rows db)\<rparr>"
    and n: "int (qr_id r) \<le> n" and s: "in_scope c w db r" by auto
  from s have t: "target_clause c r = Ok (Some True)"
    and p: "where_holds (scope_clauses c w (seen db)) r = Ok True"
    and l: "where_holds (local_clauses (seen db)) r = Ok True"
    unfolding in_scope_def where_holds_append by (auto simp: where_holds_iff [of "[target_clause c]"] simp del: where_holds.simps)
  have "sd_has_table db \<and> sd_has_local db \<longrightarrow> \<not> qr_local r" using l by (auto simp: local_clauses_def seen_def split: if_splits)
  moreover have "qr_db r = sq_database c \<and> qr_table r = sq_table c" using t by (simp add: target_clause_def)
  moreover have "sd_next_id db' = sd_next_id db \<and> set (sd_rows db') \<subseteq> set (sd_rows db)" unfolding d by auto
  ultimately show ?thesis using n scope_producer [OF p] scope_radiod [OF p] by blast
qed

text \<open>A commit may delete what was never offered.  The DELETE applies the scope but not the
  accepted versions, so a row of another schema version below the token is removed, although no
  fetch of this source ever gives its record.\<close>

theorem unaccepted_row_deleted_unshipped:
  assumes "sw_configured w" "sw_connect w = None" "sw_exec w = None" "columns_true db st"
    and "sq_delete c" "sq_producer c = None" "sq_accepted c \<noteq> []"
    and "r \<in> set (sd_rows db)" "qr_db r = sq_database c" "qr_table r = sq_table c" "\<not> qr_local r"
    and "qr_version r \<notin> set (sq_accepted c)" "int (qr_id r) \<le> n" "n < 2 ^ 63"
  shows "r \<notin> set (sd_rows (snd (commit c w (cursor_bytes n) db st))) \<and> r \<notin> set (shippable c w db)"
proof
  obtain st1 where c1: "connect w st = (st1, Ok ())" "ss_conn st1" "columns_true db st1"
    using connect_Ok [of w st db] assms(2,4) by auto
  have i: "in_scope c w db r"
    using assms(6,9-11) by (simp add: in_scope_def scope_clauses_def target_clause_def local_clauses_def)
  have "\<forall>x \<in> set (sd_rows db). is_ok (where_holds ((\<lambda>r. Ok (Some (int (qr_id r) \<le> n)))
      # ([target_clause c] @ scope_clauses c w (seen db) @ local_clauses (seen db))) x)"
    using assms(6) by (auto simp: scope_clauses_def target_clause_def local_clauses_def)
  moreover have "- (2 ^ 63) \<le> n" using assms(13) by (rule order_trans [rotated]) simp
  ultimately obtain gone where g: "doomed_rows c w (seen db) n db = Ok gone"
    using assms(3,14) by (simp add: doomed_rows_def bind_param_def keep_rows_total)
  then show "r \<notin> set (sd_rows (snd (commit c w (cursor_bytes n) db st)))"
    using assms(1,5,8,13) i c1 doomed_rows_Ok [OF g] doomed_probed [OF c1(3,2), of c w n]
    by (simp add: commit_def Let_def)
next
  show "r \<notin> set (shippable c w db)"
  proof
    assume "r \<in> set (shippable c w db)"
    then obtain cs where cs: "base_clauses c w (seen db) None = Ok cs" "where_holds cs r = Ok True"
      by (cases "base_clauses c w (seen db) None") (auto simp: shippable_def offered_def)
    then have "set (version_clauses c) \<subseteq> set cs" by (auto simp: base_clauses_def)
    then show False using cs(2) assms(7,12) by (auto simp: where_holds_iff version_clauses_def)
  qed
qed

text \<open>C15: a fetch and its commit lose nothing.  For a source without version list, \<open>extra_where\<close>,
  ship ceiling and de-duplication, committing a batch removes from the rows past the cursor only
  rows that this batch carried; and when the DELETE works it removes every one of them.\<close>

theorem commit_after_fetch_loses_nothing:
  assumes "wf_sink db" "columns_true db st" "sq_accepted c = []" "sq_extra c = []" "plain c"
    and "rs = take limit (after_id cur (shippable c w db))" "rs \<noteq> []"
    and "commit c w (bt_commit_token (batch_of c w rs)) db st = (st', db')"
  shows "(\<forall>r \<in> set (sd_rows db). r \<notin> set (sd_rows db') \<longrightarrow> cur < int (qr_id r) \<longrightarrow> r \<in> set rs)
    \<and> (db' \<noteq> db \<longrightarrow> set rs \<inter> set (sd_rows db') = {})"
proof -
  let ?n = "int (qr_id (last rs))"
  define S where "S = shippable c w db"
  have S: "S = filter (in_scope c w db) (sd_rows db)"
    using assms(3,4)
    by (cases "sq_ceiling_column c") (simp_all add: S_def shippable_def offered_def base_clauses_def
        version_clauses_def ceiling_clauses_def in_scope_def [abs_def])
  have g: "db' = db \<or> db' = db\<lparr>sd_rows := filter (\<lambda>r. \<not> (int (qr_id r) \<le> ?n \<and> in_scope c w db r)) (sd_rows db)\<rparr>"
    using commit_gone [OF assms(2) _ assms(8)] by (auto simp: batch_of_def)
  have d: "after_id ?n S = drop limit (after_id cur S)"
    using after_id_of_slice [OF assms(1), of limit cur c w] assms(6,7) by (simp add: S_def)
  have "r \<in> set rs" if "r \<in> set S" "cur < int (qr_id r)" "int (qr_id r) \<le> ?n" for r
  proof -
    have "r \<in> set (after_id cur S)" using that by (simp add: after_id_def)
    then have "r \<in> set rs \<or> r \<in> set (drop limit (after_id cur S))"
      using assms(6) by (metis S_def UnE append_take_drop_id set_append)
    then show ?thesis using that(3) unfolding d [symmetric] by (auto simp: after_id_def)
  qed
  moreover have "in_scope c w db r \<and> int (qr_id r) \<le> ?n" if "r \<in> set rs" for r
  proof -
    have s: "sorted_wrt (<) (map qr_id rs)"
      using wf_sink_filter [OF assms(1)] S assms(6)
      by (simp add: S_def after_id_def sorted_wrt_map sorted_wrt_filter sorted_wrt_take)
    have "r \<in> set S" using that assms(6) by (auto simp: after_id_def S_def dest: in_set_takeD)
    then show ?thesis using sorted_ids_last [OF s that] S by simp
  qed
  ultimately have k: "\<forall>r \<in> set S. cur < int (qr_id r) \<longrightarrow> int (qr_id r) \<le> ?n \<longrightarrow> r \<in> set rs"
    and q: "\<forall>r \<in> set rs. in_scope c w db r \<and> int (qr_id r) \<le> ?n" by blast+
  show ?thesis
  proof (cases "db' = db")
    case False
    then have "set (sd_rows db') = {r \<in> set (sd_rows db). \<not> (int (qr_id r) \<le> ?n \<and> in_scope c w db r)}"
      using g by auto
    moreover have "set S = {r \<in> set (sd_rows db). in_scope c w db r}" unfolding S by simp
    ultimately show ?thesis using k q by blast
  qed simp
qed

subsection \<open>The order of the cursors\<close>

definition id_of :: "bytes \<Rightarrow> int" where
  "id_of b = (case cursor_id b of Ok i \<Rightarrow> i | Raise _ \<Rightarrow> 0)"

definition id_cursor :: "bytes \<Rightarrow> bool" where "id_cursor b \<longleftrightarrow> b \<noteq> [] \<and> is_ok (cursor_id b)"

interpretation sq: cursor_order cursor_is_after id_cursor id_of
proof
  fix a b assume "id_cursor a" "id_cursor b"
  then show "cursor_is_after a b = Ok (id_of b < id_of a)"
    by (cases "cursor_id a"; cases "cursor_id b") (simp_all add: cursor_is_after_def id_cursor_def id_of_def)
qed

lemma id_cursor_bytes [simp]: "id_cursor (cursor_bytes i)" "id_of (cursor_bytes i) = i"
  by (simp_all add: id_cursor_def id_of_def)

text \<open>The send record ends at the furthest acknowledged id.  From a record that reads as an id,
  acknowledgements of batch cursors in any order, repeats included, leave a record that spells the
  greatest of the ids, compared as numbers (so \<open>1000\<close> lies after \<open>999\<close>).\<close>

theorem acks_in_any_order_end_at_the_greatest:
  assumes "stored_cursor st k = Some (cursor_bytes i)" "\<not> st_in_txn st"
  shows "\<exists>s. stored_cursor (advance_all k (map (\<lambda>(n, t). (cursor_bytes n, t)) acks) cursor_is_after tick st) k = Some s
    \<and> cursor_id s = Ok (Max (insert i (set (map fst acks))))"
proof -
  have r: "id_cursor c" if "(c, t) \<in> set (map (\<lambda>(n, t). (cursor_bytes n, t)) acks)" for c t using that by auto
  have im: "id_of ` fst ` set (map (\<lambda>(n, t). (cursor_bytes n, t)) acks) = set (map fst acks)"
    by (simp add: image_image case_prod_beta)
  define as where "as = map (\<lambda>(n, t). (cursor_bytes n, t)) acks"
  have ra: "\<And>c t. (c, t) \<in> set as \<Longrightarrow> id_cursor c" using r unfolding as_def .
  have "\<exists>s. stored_cursor (advance_all k as cursor_is_after tick st) k = Some s
      \<and> id_cursor s \<and> id_of s = Max (insert (id_of (cursor_bytes i)) (id_of ` fst ` set as))"
    by (rule sq.advance_all_max [OF assms(1) id_cursor_bytes(1) assms(2)]) (rule ra)
  then obtain s where s: "stored_cursor (advance_all k as cursor_is_after tick st) k = Some s"
      "id_cursor s" "id_of s = Max (insert (id_of (cursor_bytes i)) (id_of ` fst ` set as))" by blast
  then have "id_of s = Max (insert i (set (map fst acks)))" using im unfolding as_def by simp
  then have "cursor_id s = Ok (Max (insert i (set (map fst acks))))"
    using s(2) by (cases "cursor_id s") (simp_all add: id_cursor_def id_of_def)
  then show ?thesis using s(1) unfolding as_def by blast
qed

end
