(* ===== verification/SqliteScope.thy ===== *)
theory SqliteScope
  imports SqliteCommit
begin

text \<open>
  Whose row a row without a producer is (D12 in SQL against D12 in Python), the \<open>start_at\<close>
  anchor and \<open>initial_cursor\<close>, the de-duplicated query, and what a column probe that outlives a
  migration lets through.  The concrete source of the witnesses stands at the end.
\<close>

subsection \<open>D12\<close>

definition plain_mode :: "pyval \<Rightarrow> bool" where
  "plain_mode v = (case v of PStr s \<Rightarrow> is_ascii s \<and> list_all (\<lambda>c. is_ws c \<longrightarrow> c = CHR '' '') s | _ \<Rightarrow> True)"

lemma dropWhile_cong_set: "(\<And>x. x \<in> set xs \<Longrightarrow> P x = Q x) \<Longrightarrow> dropWhile P xs = dropWhile Q xs"
  by (induction xs) auto

lemma space_is_ws [simp]: "is_ws CHR '' ''"
  by (simp add: is_ws_def)

lemma sql_trim_strip:
  assumes "list_all (\<lambda>c. is_ws c \<longrightarrow> c = CHR '' '') s"
  shows "sql_trim s = py_strip s"
proof -
  have e: "is_ws c = (c = CHR '' '')" if "c \<in> set s" for c using assms that by (auto simp: list_all_iff)
  have l: "dropWhile (\<lambda>c. c = CHR '' '') s = lstrip s"
    unfolding lstrip_def by (rule dropWhile_cong_set) (simp add: e)
  have "set (lstrip s) \<subseteq> set s" by (auto simp: lstrip_def dest: set_dropWhileD)
  then have "dropWhile (\<lambda>c. c = CHR '' '') (rev (lstrip s)) = dropWhile is_ws (rev (lstrip s))"
    by (intro dropWhile_cong_set) (auto simp: e)
  then show ?thesis by (simp add: sql_trim_def py_strip_def rstrip_def l)
qed

lemma sql_lower_ascii: "is_ascii s \<Longrightarrow> sql_lower s = py_lower s"
  by (auto simp: sql_lower_def py_lower_def is_ascii_def list_all_iff is_upper_ascii_def Let_def add.commute)

lemma is_ascii_strip: "is_ascii s \<Longrightarrow> is_ascii (py_strip s)"
  by (auto simp: is_ascii_def list_all_iff py_strip_def rstrip_def lstrip_def dest!: set_dropWhileD)

lemma bracket_not_msk:
  assumes "b \<in> {CHR ''['', CHR ''{''}"
  shows "\<not> d12_is_msk (SText (b # t))"
proof -
  have ns: "b \<noteq> CHR '' ''" using assms by auto
  let ?D = "dropWhile (\<lambda>c. c = CHR '' '')"
  have "?D (rev t @ [b]) \<noteq> [] \<and> last (?D (rev t @ [b])) = b"
    using ns by (induction "rev t" arbitrary: t) (simp_all add: dropWhile_append)
  then obtain u where u: "sql_trim (b # t) = b # u"
    using ns by (cases "rev (?D (rev t @ [b]))") (auto simp: sql_trim_def last_rev [symmetric] hd_rev)
  have "\<not> is_upper_ascii b" "b \<noteq> CHR ''m''" using assms by (auto simp: is_upper_ascii_def)
  then have "sql_lower (b # u) = b # sql_lower u" by (simp add: sql_lower_def)
  then show ?thesis using u \<open>b \<noteq> CHR ''m''\<close> by (simp add: d12_is_msk_def)
qed

text \<open>The source and the writer agree on a row without a producer.  On a \<open>psk\<close> row whose mode
  is absent, not a text, or an ASCII text with no white space but blanks, the SQL rule of either
  client's source takes the row exactly when \<open>infer_producer\<close> names that client.\<close>

theorem d12_scope_agrees:
  assumes "qr_payload r = Doc (PDict d)" "plain_mode (py_get d ''mode'')" "d12_by_producer p = Some f"
  shows "d12_clause jt f r = Ok (Some (infer_producer ''psk'' (PDict d) = p))"
proof -
  have "d12_is_msk (sql_value jt (py_get d ''mode'')) \<longleftrightarrow> infer_producer ''psk'' (PDict d) = ''meteor-scatter''"
  proof (cases "py_get d ''mode''")
    case (PStr s)
    then have s: "is_ascii s" "list_all (\<lambda>c. is_ws c \<longrightarrow> c = CHR '' '') s"
      using assms(2) by (simp_all add: plain_mode_def)
    show ?thesis
      using PStr sql_trim_strip [OF s(2)] sql_lower_ascii [OF is_ascii_strip [OF s(1)]]
      by (simp add: d12_is_msk_def infer_producer_def row_mode_def)
  qed (simp_all add: bracket_not_msk, simp_all add: d12_is_msk_def infer_producer_def row_mode_def)
  moreover have "infer_producer ''psk'' (PDict d) \<in> {''meteor-scatter'', ''psk-recorder''}"
    by (simp add: infer_producer_def split: pyval.split)
  ultimately show ?thesis
    using assms(1,3) by (auto simp: d12_clause_def json_extract_def d12_by_producer_def split: if_splits)
qed

text \<open>They do not agree on every row.  A mode that ends in a tab is meteor-scatter's to the
  writer, whose \<open>strip\<close> takes any white space, and psk-recorder's to the source, whose \<open>trim\<close>
  takes blanks only.\<close>

theorem d12_scope_differs_on_a_tab:
  "let d = [(''mode'', PStr (''MSK144'' @ [CHR 0x09]))];
       r = \<lparr>qr_id = 1, qr_db = ''psk'', qr_table = ''spots'', qr_version = 1, qr_payload = Doc (PDict d),
            qr_queued_at = [], qr_producer = [], qr_local = False\<rparr>
   in infer_producer ''psk'' (PDict d) = ''meteor-scatter''
     \<and> map_option (\<lambda>f. d12_clause (\<lambda>_. []) f r) (d12_by_producer ''psk-recorder'') = Some (Ok (Some True))"
  by code_simp

subsection \<open>The anchor\<close>

definition anchor :: "sq_conf \<Rightarrow> sq_world \<Rightarrow> sinkdb \<Rightarrow> int" where
  "anchor c w db = Max (insert 0 (set (map (\<lambda>r. int (qr_id r)) (filter (in_scope c w db) (sd_rows db)))))"

lemma anchor_bounds:
  "0 \<le> anchor c w db" "r \<in> set (sd_rows db) \<Longrightarrow> in_scope c w db r \<Longrightarrow> int (qr_id r) \<le> anchor c w db"
  "(\<forall>r \<in> set (sd_rows db). int (qr_id r) < n) \<Longrightarrow> 0 < n \<Longrightarrow> anchor c w db < n"
  by (auto simp: anchor_def intro!: Max_ge)

lemma in_scope_ok:
  assumes "answers c w db" "r \<in> set (sd_rows db)"
  shows "is_ok (where_holds ([target_clause c] @ scope_clauses c w (seen db) @ local_clauses (seen db)) r)"
proof -
  obtain cs where cs: "base_clauses c w (seen db) None = Ok cs" "is_ok (where_holds cs r)"
    using assms by (auto simp: answers_def)
  then obtain ds where "cs = ([target_clause c] @ scope_clauses c w (seen db) @ local_clauses (seen db)) @ ds"
    by (auto simp: base_clauses_def)
  then show ?thesis using cs(2) where_holds_prefix_ok by metis
qed

lemma probed_clauses_own:
  assumes "columns_true db (st\<lparr>ss_conn := True\<rparr>)"
  shows "scope_clauses c w (probed c db st) = scope_clauses c w (seen db)"
    and "local_clauses (probed c db st) = local_clauses (seen db)"
  using assms
  by (auto simp: columns_true_def scope_clauses_def local_clauses_def probe_defs seen_def split: option.splits)

lemma columns_conn: "ss_conn st \<Longrightarrow> columns_true db (st\<lparr>ss_conn := True\<rparr>) = columns_true db st"
  by (simp add: columns_true_def)

lemma present_position_answers:
  assumes "answers c w db" "columns_true db (st\<lparr>ss_conn := True\<rparr>)"
  shows "present_position c w db st = (probed c db st, Ok (anchor c w db))"
proof -
  have "keep_rows (where_holds ([target_clause c] @ scope_clauses c w (seen db) @ local_clauses (seen db))) (sd_rows db)
      = Ok (filter (in_scope c w db) (sd_rows db))"
    using in_scope_ok [OF assms(1)] by (subst keep_rows_total) (auto simp: in_scope_def [abs_def])
  then show ?thesis
    using assms(1) probed_clauses_own [OF assms(2), unfolded probed_def]
    by (simp add: present_position_def Let_def answers_def anchor_def probed_def del: where_holds.simps)
qed

text \<open>The id a fetch starts past.\<close>

definition from_cursor :: "sq_conf \<Rightarrow> sq_world \<Rightarrow> sinkdb \<Rightarrow> sq_state \<Rightarrow> int" where
  "from_cursor c w db st = (case ss_start_cursor st of Some i \<Rightarrow> i | None \<Rightarrow> anchor c w db)"

lemma probe_start [simp]:
  "ss_start_cursor (probe_local db st) = ss_start_cursor st" "ss_start_cursor (probe_scope c db st) = ss_start_cursor st"
  by (simp_all add: probe_defs split: option.split)

lemma iter_one_batch_start: "ss_start_cursor (fst (iter_one_batch c w cur limit db st)) = ss_start_cursor st"
proof -
  have c: "ss_start_cursor (fst (connect w x)) = ss_start_cursor x" for x
    by (simp add: connect_def split: option.split)
  have k: "ss_start_cursor (fst (check_stale_schema c w db x)) = ss_start_cursor x" for x
    by (simp add: check_stale_schema_def split: res.split)
  show ?thesis
    using c [of st] k
    by (auto simp: iter_one_batch_def Let_def split: prod.split res.split option.split list.split)
       (metis fst_conv probe_start)+
qed

lemma fetch_empty:
  assumes "answers c w db" "plain c" "columns_true db st" "sq_start_at c"
    and "- (2 ^ 63) \<le> from_cursor c w db st" "from_cursor c w db st < 2 ^ 63"
  shows "\<exists>st'. columns_true db st' \<and> ss_start_cursor st' = Some (from_cursor c w db st)
    \<and> iter_batches c w [] limit db st = (st', Ok (let rs = take limit (after_id (from_cursor c w db st) (shippable c w db))
        in if rs = [] then [] else [batch_of c w rs]))"
proof -
  define n where "n = from_cursor c w db st"
  obtain st1 where e: "ensure_ready w db st = (st1, Ok True)" "columns_true db st1" "ss_start_cursor st1 = ss_start_cursor st"
    by (rule ensure_ready_answers [OF assms(1,3)])
  define st2 where "st2 = st1\<lparr>ss_health := HealthOk\<rparr>"
  have st2: "columns_true db st2" "ss_start_cursor st2 = ss_start_cursor st" using e by (simp_all add: st2_def)
  obtain st3 where s3: "cursor_from_start_at c w db st2 = (st3, Ok n)" "columns_true db st3" "ss_start_cursor st3 = Some n"
  proof (cases "ss_start_cursor st")
    case None
    obtain x where x: "connect w st2 = (x, Ok ())" "ss_conn x" "columns_true db x"
      using connect_Ok [of w st2 db] st2 assms(1) by (auto simp: answers_def)
    show ?thesis
      using that None st2 x columns_conn [OF x(2)] present_position_answers [OF assms(1), of x] 
      by (simp add: cursor_from_start_at_def n_def from_cursor_def)
  next
    case (Some i)
    then show ?thesis using that st2 by (simp add: cursor_from_start_at_def n_def from_cursor_def)
  qed
  from iter_one_batch_answers [OF assms(1,2), of n st3 limit] assms(5,6) s3(2)
  obtain st' where i: "columns_true db st'" "iter_one_batch c w n limit db st3
      = (st', Ok (let rs = take limit (after_id n (shippable c w db)) in if rs = [] then [] else [batch_of c w rs]))"
    unfolding n_def [symmetric] by blast
  have "ss_start_cursor st' = Some n" using iter_one_batch_start [of c w n limit db st3] i(2) s3(3) by simp
  moreover have "iter_batches c w [] limit db st = iter_one_batch c w n limit db st3"
    using e(1) s3(1) assms(1,4) by (simp add: iter_batches_def st2_def [symmetric] cursor_id_def answers_def Let_def)
  ultimately show ?thesis using i unfolding n_def [symmetric] by auto
qed

text \<open>The anchor of \<open>start_at\<close> does not drift.  The first fetch with no send record starts past
  the highest id then in scope, and a later fetch with none, on the sink as it is by then, starts
  past the same id: a row stored between the two polls is offered.\<close>

theorem anchor_does_not_drift:
  assumes "answers c w db" "plain c" "columns_true db st" "sq_start_at c" "ss_start_cursor st = None"
    and "sd_next_id db \<le> 2 ^ 63" "iter_batches c w [] l1 db st = (st1, r)"
    and "answers c w db2" "columns_true db2 st1"
  shows "snd (iter_batches c w [] l2 db2 st1)
    = Ok (let rs = take l2 (after_id (anchor c w db) (shippable c w db2)) in if rs = [] then [] else [batch_of c w rs])"
proof -
  have lt: "anchor c w db < 2 ^ 63"
    using assms(1,6) by (intro anchor_bounds(3)) (auto simp: answers_def wf_sink_def intro: order_less_le_trans)
  have ge: "- (2 ^ 63) \<le> anchor c w db" using anchor_bounds(1) [of c w db] by (rule order_trans [rotated]) simp
  have f: "from_cursor c w db st = anchor c w db" using assms(5) by (simp add: from_cursor_def)
  have s1: "ss_start_cursor st1 = Some (anchor c w db)"
    using fetch_empty [OF assms(1-4), of l1] assms(7) f lt ge by auto
  then have "from_cursor c w db2 st1 = anchor c w db" by (simp add: from_cursor_def)
  then show ?thesis using fetch_empty [OF assms(8,2,9,4), of l2] lt ge by auto
qed

text \<open>\<open>initial_cursor\<close> tells what the first pump would do.  When it answers a cursor, a fetch
  with that cursor gives what a fetch with no send record gives.\<close>

theorem initial_cursor_is_the_first_anchor:
  assumes "answers c w db" "plain c" "columns_true db st" "sq_start_at c" "sd_next_id db \<le> 2 ^ 63" "sw_exists w"
    and "ss_start_cursor st = None" "ss_producer_column st = None"
  shows "\<exists>k. snd (initial_cursor c w db st) = Ok (Some k)
    \<and> snd (iter_batches c w k limit db st) = snd (iter_batches c w [] limit db st)"
proof -
  define st' where "st' = st\<lparr>ss_local_column := None\<rparr>"
  have lt: "anchor c w db < 2 ^ 63"
    using assms(1,5) by (intro anchor_bounds(3)) (auto simp: answers_def wf_sink_def intro: order_less_le_trans)
  have ge: "- (2 ^ 63) \<le> anchor c w db" using anchor_bounds(1) [of c w db] by (rule order_trans [rotated]) simp
  have "columns_true db (st'\<lparr>ss_conn := True\<rparr>)" using assms(8) by (simp add: st'_def columns_true_def)
  note p = present_position_answers [OF assms(1) this]
  then have "snd (initial_cursor c w db st) = Ok (Some (cursor_bytes (anchor c w db)))"
    using assms(1,4,6,7) by (simp add: initial_cursor_def answers_def st'_def)
  moreover have "snd (iter_batches c w (cursor_bytes (anchor c w db)) limit db st) = snd (iter_batches c w [] limit db st)"
    using fetch_empty [OF assms(1-4), of limit] fetch_is_next_slice [OF assms(1-3) cursor_id_bytes, of "anchor c w db" limit]
      assms(7) lt ge by (auto simp: from_cursor_def)
  ultimately show ?thesis by blast
qed

subsection \<open>De-duplication\<close>

lemma mapM_res_mem:
  assumes "mapM_res f xs = Ok ys"
  shows "y \<in> set ys \<Longrightarrow> \<exists>x \<in> set xs. f x = Ok y" and "x \<in> set xs \<Longrightarrow> \<exists>y \<in> set ys. f x = Ok y"
  using mapM_res_nth [OF assms] mapM_res_length [OF assms] by (metis in_set_conv_nth)+

definition partition_key :: "sq_conf \<Rightarrow> sq_world \<Rightarrow> qrow \<Rightarrow> (nat \<times> (int \<times> rat) \<times> string) list res" where
  "partition_key c w r = map_res rk_part (rank_row c w r)"

lemma rank_row_row: "rank_row c w r = Ok a \<Longrightarrow> rk_row a = r \<and> partition_key c w r = Ok (rk_part a)"
  by (auto simp: rank_row_def partition_key_def)

lemma dedup_queryE:
  assumes "dedup_query c w cs cur limit db = Ok out" "r \<in> set out"
  obtains rs a where "mapM_res (rank_row c w) (filter (\<lambda>r. where_holds cs r = Ok True) (sd_rows db)) = Ok rs"
    "a \<in> set rs" "rank_row c w r = Ok a" "winner rs a" "\<not> visited cur rs a" "cur < int (qr_id r)"
    "r \<in> set (sd_rows db)" "where_holds cs r = Ok True"
proof -
  obtain rs where rs: "mapM_res (rank_row c w) (filter (\<lambda>r. where_holds cs r = Ok True) (sd_rows db)) = Ok rs"
    and out: "out = take limit (map rk_row (filter (\<lambda>a. winner rs a \<and> cur < int (qr_id (rk_row a)) \<and> \<not> visited cur rs a) rs))"
    using assms(1) by (auto simp: dedup_query_def dest!: keep_rows_Ok)
  from assms(2) obtain a where a: "a \<in> set rs" "rk_row a = r" "winner rs a" "\<not> visited cur rs a" "cur < int (qr_id r)"
    unfolding out by (auto dest!: in_set_takeD)
  obtain x where x: "x \<in> set (filter (\<lambda>r. where_holds cs r = Ok True) (sd_rows db))" "rank_row c w x = Ok a"
    using mapM_res_mem(1) [OF rs a(1)] by blast
  then show ?thesis using that [OF rs a(1) _ a(3-5)] rank_row_row [OF x(2)] a(2) by auto
qed

text \<open>C24: de-duplication offers a spot once, and the best copy.  Of the selected rows that share a
  partition a fetch offers at most one, which none of the others outranks; and a later fetch, over
  a sink that kept the rows, whose cursor has passed it, offers none of that partition, however
  good a copy has arrived since.\<close>

theorem partition_ships_once:
  assumes "dedup_query c w cs cur limit db = Ok out" "r \<in> set out" "wf_sink db"
  shows "(\<forall>q \<in> set (sd_rows db). where_holds cs q = Ok True \<longrightarrow> partition_key c w q = partition_key c w r
       \<longrightarrow> (\<forall>a b. rank_row c w r = Ok a \<longrightarrow> rank_row c w q = Ok b \<longrightarrow> \<not> outranks b a))
    \<and> (\<forall>q \<in> set out. partition_key c w q = partition_key c w r \<longrightarrow> q = r)
    \<and> (\<forall>cs2 cur2 limit2 db2 out2. dedup_query c w cs2 cur2 limit2 db2 = Ok out2 \<longrightarrow> set (sd_rows db) \<subseteq> set (sd_rows db2)
       \<longrightarrow> (\<forall>x. where_holds cs x = Ok True \<longrightarrow> where_holds cs2 x = Ok True) \<longrightarrow> int (qr_id r) \<le> cur2
       \<longrightarrow> (\<forall>q \<in> set out2. partition_key c w q \<noteq> partition_key c w r))"
proof (intro conjI ballI allI impI)
  obtain rs a where e: "mapM_res (rank_row c w) (filter (\<lambda>r. where_holds cs r = Ok True) (sd_rows db)) = Ok rs"
    "a \<in> set rs" "rank_row c w r = Ok a" "winner rs a" "r \<in> set (sd_rows db)" "where_holds cs r = Ok True"
    by (rule dedup_queryE [OF assms(1,2)])
  note ra = rank_row_row [OF e(3)]
  show "\<not> outranks b a'" if h: "q \<in> set (sd_rows db)" "where_holds cs q = Ok True"
    "partition_key c w q = partition_key c w r" "rank_row c w r = Ok a'" "rank_row c w q = Ok b" for q a' b
  proof -
    obtain b' where "b' \<in> set rs" "rank_row c w q = Ok b'" using mapM_res_mem(2) [OF e(1), of q] h by auto
    then show ?thesis
      using e(3,4) h ra rank_row_row [OF h(5)] by (auto simp: winner_def list_all_iff)
  qed
  show "q = r" if q: "q \<in> set out" "partition_key c w q = partition_key c w r" for q
  proof -
    obtain rs' b where f: "mapM_res (rank_row c w) (filter (\<lambda>r. where_holds cs r = Ok True) (sd_rows db)) = Ok rs'"
      "b \<in> set rs'" "rank_row c w q = Ok b" "winner rs' b" "q \<in> set (sd_rows db)" "where_holds cs q = Ok True"
      by (rule dedup_queryE [OF assms(1) q(1)])
    have rs': "rs' = rs" using e(1) f(1) by simp
    note rb = rank_row_row [OF f(3)]
    have "\<not> outranks a b" "\<not> outranks b a"
      using e(2,4) f(2,4) rs' q(2) ra rb by (auto simp: winner_def list_all_iff)
    then have "qr_id q = qr_id r" using ra rb by (auto simp: outranks_def)
    then show ?thesis
      using assms(3) e(5) f(5) by (simp add: wf_sink_def strict_sorted_iff distinct_map inj_on_def)
  qed
  show "partition_key c w q \<noteq> partition_key c w r"
    if h: "dedup_query c w cs2 cur2 limit2 db2 = Ok out2" "set (sd_rows db) \<subseteq> set (sd_rows db2)"
      "\<forall>x. where_holds cs x = Ok True \<longrightarrow> where_holds cs2 x = Ok True" "int (qr_id r) \<le> cur2" "q \<in> set out2"
    for cs2 cur2 limit2 db2 out2 q
  proof
    assume p: "partition_key c w q = partition_key c w r"
    obtain rs2 b where f: "mapM_res (rank_row c w) (filter (\<lambda>r. where_holds cs2 r = Ok True) (sd_rows db2)) = Ok rs2"
      "b \<in> set rs2" "rank_row c w q = Ok b" "\<not> visited cur2 rs2 b"
      by (rule dedup_queryE [OF h(1,5)])
    have "r \<in> set (filter (\<lambda>r. where_holds cs2 r = Ok True) (sd_rows db2))" using e(5,6) h(2,3) by auto
    then obtain d where d: "d \<in> set rs2" "rank_row c w r = Ok d" using mapM_res_mem(2) [OF f(1)] by blast
    then have "rk_part d = rk_part b" "rk_row d = r" using rank_row_row [OF d(2)] rank_row_row [OF f(3)] p by simp_all
    then show False using f(4) d(1) h(4) by (auto simp: visited_def list_ex_iff)
  qed
qed

end
