(* ===== verification/SqlitePump.thy ===== *)
theory SqlitePump
  imports SqliteScope
begin

text \<open>
  The pump over the queue: \<open>SqliteSource\<close> plugged into a pipeline of \<open>Uploader\<close>.  With a transport
  that takes every batch, pumping until idle delivers each row in scope once and in order; and a
  run of corrupt payloads as long as a batch stops the pipeline for good.
\<close>

subsection \<open>The source's port\<close>

record sq_env =
  en_state :: sq_state
  en_db :: sinkdb
  en_world :: sq_world

definition sqlite_iter :: "sq_conf \<Rightarrow> bytes \<Rightarrow> nat
    \<Rightarrow> ('x sq_env_scheme, ('x sq_env_scheme, batch) effect list) effect" where
  "sqlite_iter c cursor limit e = (case iter_batches c (en_world e) cursor limit (en_db e) (en_state e) of
     (st, r) \<Rightarrow> (e\<lparr>en_state := st\<rparr>, map_res (map (\<lambda>b e. (e, Ok b))) r))"

definition sqlite_commit :: "sq_conf \<Rightarrow> bytes \<Rightarrow> ('x sq_env_scheme, unit) effect" where
  "sqlite_commit c token e = (case commit c (en_world e) token (en_db e) (en_state e) of
     (st, db) \<Rightarrow> (e\<lparr>en_state := st, en_db := db\<rparr>, Ok ()))"

definition sqlite_port :: "sq_conf \<Rightarrow> 'x sq_env_scheme source" where
  "sqlite_port c = \<lparr>so_id = sq_source_id c, so_iter = sqlite_iter c, so_commit = sqlite_commit c,
     so_is_after = Some cursor_is_after\<rparr>"

subsection \<open>An uploader with no gate, and a transport that takes everything\<close>

definition quiet :: "rat \<Rightarrow> 'e uploader" where
  "quiet now = \<lparr>up_now = (\<lambda>e. (e, now)), up_clock = (\<lambda>e. Ok now), up_gate = None,
     up_on_batch = (\<lambda>p b oc e. (e, Ok ()))\<rparr>"

record delivery = sq_env +
  dv_sent :: "urecord list"

definition taking :: "string \<Rightarrow> string \<Rightarrow> batch_policy \<Rightarrow> delivery transport" where
  "taking name table policy = \<lparr>tr_name = name, tr_primary_table = table, tr_policy = policy, tr_ships = True,
     tr_ship = (\<lambda>b e. (e\<lparr>dv_sent := dv_sent e @ bt_records b\<rparr>, Ok acked)),
     tr_serialize = (\<lambda>b e. (e, Ok [])), tr_replay = (\<lambda>p e. (e, Ok acked))\<rparr>"

definition queue_pipe :: "string \<Rightarrow> sq_conf \<Rightarrow> 'x sq_env_scheme transport \<Rightarrow> nat \<Rightarrow> 'x sq_env_scheme pipeline" where
  "queue_pipe name c t limit = \<lparr>pi_name = name, pi_source = sqlite_port c, pi_transport = t,
     pi_retry = default_retry_policy, pi_batch_limit = limit, pi_max_per_pump = None,
     pi_client = [], pi_governed = False, pi_origin = []\<rparr>"

lemma queue_pipe_simps [simp]:
  "pi_name (queue_pipe name c t limit) = name" "pi_source (queue_pipe name c t limit) = sqlite_port c"
  "pi_transport (queue_pipe name c t limit) = t" "pi_max_per_pump (queue_pipe name c t limit) = None"
  "so_iter (sqlite_port c) = sqlite_iter c" "so_commit (sqlite_port c) = sqlite_commit c"
  "is_after_for (sqlite_port c) = cursor_is_after"
  "pipe_key (queue_pipe name c t limit) = (sq_source_id c, tr_name t, tr_primary_table t)"
  "fetch_limit (queue_pipe name c t limit) = min limit (bp_max_records (tr_policy t))"
  by (simp_all add: queue_pipe_def sqlite_port_def is_after_for_def pipe_key_def fetch_limit_def)

lemma quiet_simps [simp]:
  "may_send (quiet now) p s = (s, Ok True)" "now_of (quiet now) s = (s, Ok now)"
  "up_clock (quiet now) e = Ok now" "fst (in_env (up_on_batch (quiet now) p b oc) s) = s"
  by (simp_all add: quiet_def may_send_def now_of_def in_env_def)

lemma no_rows_to_drain:
  assumes "st_queue (us_store s) = []"
  shows "drain_deliverables (quiet now) p s = (s, Ok False)"
proof -
  have t: "drain_turn (quiet now) p now s = (s, Ok Idle)"
    using assms by (simp add: bind_p_def drain_turn_def pop_p_def pop_due_def due_rows_def)
  have "drain_loop (quiet now) p now False s = (s, Ok False)"
    by (subst drain_loop.simps) (simp add: t)
  then show ?thesis by (simp add: drain_deliverables_def bind_p_def)
qed

lemma pump_one_quiet:
  assumes "st_queue (us_store s) = []"
  shows "pump_one (quiet now) p s = drain_source (quiet now) p s"
proof -
  obtain s' r where d: "drain_source (quiet now) p s = (s', r)" by fastforce
  then show ?thesis
    using assms by (cases r) (simp_all add: pump_one_def bind_p_def no_rows_to_drain count_p_def deliverable_count_def)
qed

lemma drain_source_one_pass:
  assumes "source_pass (quiet now) p 0 False s = (s', Ok (Return b))" "pi_max_per_pump p = None"
  shows "drain_source (quiet now) p s = (s', Ok b)"
  using assms by (simp add: drain_source_def source_loop.simps [of _ _ 0] under_budget_def)

subsection \<open>Corrupt payloads\<close>

text \<open>A batch of corrupt payloads stops the pipeline.  When every row of the next slice has a
  corrupt payload, the batch has no records, the pump passes over it without moving the send
  record, and nothing in store or queue changes: the rows behind are never reached, pump after
  pump, although the slice is dropped from no queue and counted nowhere.\<close>

theorem corrupt_slice_stops_the_pipeline:
  assumes "answers c (en_world (us_env s)) (en_db (us_env s))" "plain c"
    and "columns_true (en_db (us_env s)) (en_state (us_env s))"
    and "st_queue (us_store s) = []"
    and "get_cursor (us_store s) (sq_source_id c, tr_name t, tr_primary_table t) = Ok cursor"
    and "cursor_id cursor = Ok cur" "- (2 ^ 63) \<le> cur" "cur < 2 ^ 63" "cursor = [] \<longrightarrow> \<not> sq_start_at c"
    and "documents (take (min limit (bp_max_records (tr_policy t)))
           (after_id cur (shippable c (en_world (us_env s)) (en_db (us_env s))))) = []"
  shows "\<exists>s'. pump_one (quiet now) (queue_pipe name c t limit) s = (s', Ok False)
    \<and> us_store s' = us_store s \<and> en_db (us_env s') = en_db (us_env s)"
proof -
  define p where "p = queue_pipe name c t limit"
  define rs where "rs = take (min limit (bp_max_records (tr_policy t)))
    (after_id cur (shippable c (en_world (us_env s)) (en_db (us_env s))))"
  obtain st' where f: "iter_batches c (en_world (us_env s)) cursor (min limit (bp_max_records (tr_policy t)))
      (en_db (us_env s)) (en_state (us_env s))
    = (st', Ok (if rs = [] then [] else [batch_of c (en_world (us_env s)) rs]))"
    using iter_batches_columns [OF assms(1,2,3,6-9), of "min limit (bp_max_records (tr_policy t))"]
    unfolding Let_def rs_def [symmetric] by blast
  define s1 where "s1 = s\<lparr>us_env := (us_env s)\<lparr>en_state := st'\<rparr>\<rparr>"
  have i: "in_env (sqlite_iter c cursor (min limit (bp_max_records (tr_policy t)))) s
    = (s1, Ok (if rs = [] then [] else [\<lambda>e. (e, Ok (batch_of c (en_world (us_env s)) rs))]))"
    by (simp add: in_env_def sqlite_iter_def f s1_def)
  have e: "bt_records (batch_of c (en_world (us_env s)) rs) = []"
    using assms(10) by (simp add: batch_of_def rs_def)
  have "source_pass (quiet now) p 0 False s = (s1, Ok (Return False))"
    using assms(5) i e by (simp add: source_pass_def bind_p_def get_cursor_p_def p_def) (simp add: in_env_def s1_def)
  then have "pump_one (quiet now) p s = (s1, Ok False)"
    by (simp add: pump_one_quiet [OF assms(4)] drain_source_one_pass p_def)
  then show ?thesis unfolding p_def s1_def by simp
qed

subsection \<open>Delivery\<close>

lemma commit_columns:
  assumes "columns_true db st"
  shows "columns_true db (fst (commit c w token db st))"
proof -
  have x: "columns_true db st1" if "connect w st = (st1, r)" for st1 r
    using that assms by (auto simp: connect_def columns_true_def split: if_splits option.splits)
  have "columns_true db (probe_local db (probe_scope c db st1))" if "columns_true db st1" for st1
    using that probed_frames(3) unfolding probed_def by blast
  then show ?thesis
    using assms x by (auto simp: commit_def Let_def split: res.split prod.split)
qed

lemma fewer_rows:
  assumes "answers c w db" "db' = db\<lparr>sd_rows := filter P (sd_rows db)\<rparr>"
  shows "answers c w db'" "columns_true db' = columns_true db"
    "shippable c w db' = filter P (shippable c w db)"
proof -
  have s: "seen db' = seen db" using assms(2) by (simp add: seen_def)
  have "wf_sink db'" using assms by (auto simp: answers_def wf_sink_def sorted_wrt_map sorted_wrt_filter)
  then show "answers c w db'" using assms s by (auto simp: answers_def)
  show "columns_true db' = columns_true db" using assms(2) by (auto simp: columns_true_def)
  show "shippable c w db' = filter P (shippable c w db)"
    using assms(2) s by (simp add: shippable_def offered_def conj_commute split: res.split)
qed

lemma commit_keeps:
  assumes "answers c w db" "columns_true db st" "commit c w (cursor_bytes m) db st = (st', db')"
  shows "answers c w db' \<and> columns_true db' st' \<and> sd_next_id db' = sd_next_id db
    \<and> set (sd_rows db') \<subseteq> set (sd_rows db) \<and> after_id m (shippable c w db') = after_id m (shippable c w db)"
proof -
  have st': "columns_true db st'" using commit_columns [OF assms(2), of c w "cursor_bytes m"] assms(3) by simp
  from commit_gone [OF assms(2) cursor_id_bytes assms(3)] show ?thesis
  proof (elim disjE conjE)
    assume d: "db' = db\<lparr>sd_rows := filter (\<lambda>r. \<not> (int (qr_id r) \<le> m \<and> in_scope c w db r)) (sd_rows db)\<rparr>"
    have "after_id m (shippable c w db') = after_id m (shippable c w db)"
      unfolding fewer_rows(3) [OF assms(1) d] after_id_def by (auto simp: filter_filter_conj intro: filter_cong)
    then show ?thesis using fewer_rows [OF assms(1) d] st' d by auto
  qed (use assms(1) st' in simp)
qed

definition at_position :: "store \<Rightarrow> send_key \<Rightarrow> int \<Rightarrow> bool" where
  "at_position st k cur \<longleftrightarrow> find_mark st k = None \<and> cur = 0 \<or> stored_cursor st k = Some (cursor_bytes cur)"

definition ready :: "sq_conf \<Rightarrow> sq_world \<Rightarrow> send_key \<Rightarrow> int \<Rightarrow> delivery ustate \<Rightarrow> bool" where
  "ready c w k cur s \<longleftrightarrow> en_world (us_env s) = w \<and> answers c w (en_db (us_env s))
     \<and> columns_true (en_db (us_env s)) (en_state (us_env s)) \<and> sd_next_id (en_db (us_env s)) \<le> 2 ^ 63
     \<and> (\<forall>r \<in> set (sd_rows (en_db (us_env s))). qr_payload r \<noteq> Corrupt)
     \<and> st_queue (us_store s) = [] \<and> \<not> st_in_txn (us_store s) \<and> 0 \<le> cur \<and> cur < 2 ^ 63
     \<and> at_position (us_store s) k cur"

definition pending :: "sq_conf \<Rightarrow> int \<Rightarrow> delivery ustate \<Rightarrow> qrow list" where
  "pending c cur s = after_id cur (shippable c (en_world (us_env s)) (en_db (us_env s)))"

definition records_in :: "sq_conf \<Rightarrow> sq_world \<Rightarrow> qrow list \<Rightarrow> urecord list" where
  "records_in c w rs = map (\<lambda>(r, d). record_of c w d r) (documents rs)"

lemma position_cursor:
  assumes "at_position st k cur"
  shows "\<exists>b. get_cursor st k = Ok b \<and> cursor_id b = Ok cur"
proof (cases "stored_cursor st k = Some (cursor_bytes cur)")
  case True
  then show ?thesis using stored_cursor_get [OF True] by simp
next
  case False
  then have "get_cursor st k = Ok [] \<and> cur = 0" using assms by (simp add: at_position_def get_cursor_def)
  then show ?thesis by (simp add: cursor_id_def)
qed

lemma position_advance:
  assumes "at_position st k cur" "cur < m" "\<not> st_in_txn st"
  shows "\<exists>st' a. advance_cursor k (cursor_bytes m) t cursor_is_after tick st = (st', Ok a)
    \<and> a \<noteq> Refused \<and> at_position st' k m \<and> st_queue st' = st_queue st \<and> \<not> st_in_txn st'"
proof (cases "find_mark st k")
  case None
  then show ?thesis using sq.advance_first [OF None assms(3)] assms(3) by (simp add: at_position_def)
next
  case (Some x)
  then have "stored_cursor st k = Some (cursor_bytes cur)" using assms(1) by (simp add: at_position_def)
  from sq.advance_readable [OF this _ _ assms(3), of "cursor_bytes m"] show ?thesis
    using assms(2,3) by (simp add: at_position_def)
qed

lemma at_position_record [simp]: "at_position (record_attempt a l st) k m = at_position st k m"
  using stored_cursor_marks [of "record_attempt a l st" st k] by (simp add: at_position_def find_mark_def)

lemma documents_nonempty:
  "\<forall>r \<in> set rs. \<exists>d. qr_payload r = Doc (PDict d) \<Longrightarrow> rs \<noteq> [] \<Longrightarrow> documents rs \<noteq> []"
  by (cases rs) (auto simp: documents_def map_filter_simps)

lemma slice_rows:
  assumes "ready c w k cur s" "rs = take limit (pending c cur s)"
  shows "\<forall>r \<in> set rs. \<exists>d. qr_payload r = Doc (PDict d)" "r \<in> set rs \<Longrightarrow> r \<in> set (sd_rows (en_db (us_env s))) \<and> cur < int (qr_id r)"
proof -
  have in_rows: "r \<in> set (sd_rows (en_db (us_env s))) \<and> cur < int (qr_id r)" if "r \<in> set rs" for r
    using that assms(2) by (auto simp: pending_def after_id_def shippable_def offered_def dest!: in_set_takeD split: res.splits)
  show "\<forall>r \<in> set rs. \<exists>d. qr_payload r = Doc (PDict d)"
    using in_rows assms(1) by (fastforce simp: ready_def answers_def)
  show "r \<in> set rs \<Longrightarrow> r \<in> set (sd_rows (en_db (us_env s))) \<and> cur < int (qr_id r)" by (rule in_rows)
qed

text \<open>A batch the transport takes: sent, recorded, committed.\<close>

lemma take_batch:
  fixes s :: "delivery ustate"
  assumes "at_position (us_store s) k cur" "cur < m" "\<not> st_in_txn (us_store s)" "st_queue (us_store s) = []"
    and B: "bt_records B \<noteq> []" "bt_cursor_after B = cursor_bytes m" "bt_commit_token B = cursor_bytes m"
    and P: "pi_source P = sqlite_port c" "pi_transport P = taking name table policy" "pi_max_per_pump P = None" "pipe_key P = k"
    and cm: "commit c (en_world (us_env s)) (cursor_bytes m) (en_db (us_env s)) (en_state (us_env s)) = (st3, db3)"
  shows "\<exists>s'. ship_batches (quiet now) P [\<lambda>e. (e, Ok B)] 0 False False s = (s', Ok (Return True))
    \<and> us_env s' = (us_env s)\<lparr>en_state := st3, en_db := db3, dv_sent := dv_sent (us_env s) @ bt_records B\<rparr>
    \<and> at_position (us_store s') k m \<and> st_queue (us_store s') = [] \<and> \<not> st_in_txn (us_store s')"
proof -
  define s2 where "s2 = s\<lparr>us_env := (us_env s)\<lparr>dv_sent := dv_sent (us_env s) @ bt_records B\<rparr>\<rparr>"
  have t: "in_env (tr_ship (pi_transport P) B) s = (s2, Ok acked)"
    by (simp add: P taking_def in_env_def s2_def)
  have s2: "us_store s2 = us_store s" by (simp add: s2_def)
  obtain st2 a where adv: "advance_cursor k (cursor_bytes m) (iso now) cursor_is_after (Ok now) (us_store s2) = (st2, Ok a)"
    "a \<noteq> Refused" "at_position st2 k m" "st_queue st2 = []" "\<not> st_in_txn st2"
    using position_advance [OF assms(1-3), of "iso now" "Ok now"] assms(4) s2 by auto
  define s3 where "s3 = s2\<lparr>us_store := st2\<rparr>"
  have ar: "advance_record (quiet now) P k (cursor_bytes m) (iso now) s2 = (s3, Ok a)"
    using adv(1,2) by (simp add: advance_record_def P s3_def Let_def)
  define s4 where "s4 = s3\<lparr>us_env := (us_env s3)\<lparr>en_state := st3, en_db := db3\<rparr>\<rparr>"
  have ce: "in_env (so_commit (pi_source P) (cursor_bytes m)) s3 = (s4, Ok ())"
    using cm by (simp add: P in_env_def sqlite_commit_def s4_def s3_def s2_def)
  obtain s5 where rec: "record_p P (iso now) ''acked'' (Some (int (batch_len B))) None None s4 = (s5, Ok ())"
    "us_env s5 = us_env s4" "\<exists>att l. us_store s5 = record_attempt att l (us_store s4)" by auto
  have "handle_first_attempt (quiet now) P B acked now s2 = (s5, Ok ())"
    using ar ce rec(1) B P(4) by (simp add: handle_first_attempt_def Let_def acked_def bind_p_def del: record_p_apply)
  then have "ship_batches (quiet now) P [\<lambda>e. (e, Ok B)] 0 False False s = (s5, Ok (Return True))"
    using t B(1) by (simp add: bind_p_def ship_one_def in_env_def [of "\<lambda>e. (e, Ok B)"] P(3))
  moreover have "at_position (us_store s5) k m" "st_queue (us_store s5) = []" "\<not> st_in_txn (us_store s5)"
    using rec(3) adv(3-5) by (auto simp: s4_def s3_def)
  ultimately show ?thesis by (simp add: rec(2) s4_def s3_def s2_def)
qed

text \<open>One pump: nothing when nothing is pending, else the next slice sent, recorded and committed.\<close>

lemma pump_sends_slice:
  fixes s :: "delivery ustate"
  assumes r: "ready c w (sq_source_id c, name, table) cur s" and p: "plain c" "\<not> sq_start_at c"
    and L: "L = min limit (bp_max_records policy)" "0 < L"
  defines "rs \<equiv> take L (pending c cur s)"
  shows "\<exists>s'. pump_one (quiet now) (queue_pipe pn c (taking name table policy) limit) s = (s', Ok (rs \<noteq> []))
    \<and> dv_sent (us_env s') = dv_sent (us_env s) @ records_in c w rs
    \<and> (\<exists>m. ready c w (sq_source_id c, name, table) m s' \<and> pending c m s' = drop L (pending c cur s))"
proof -
  define P where "P = queue_pipe pn c (taking name table policy) limit"
  define k where "k = (sq_source_id c, name, table)"
  define e where "e = us_env s"
  have e: "en_world e = w" "answers c w (en_db e)" "columns_true (en_db e) (en_state e)" "sd_next_id (en_db e) \<le> 2 ^ 63"
    "\<forall>r \<in> set (sd_rows (en_db e)). qr_payload r \<noteq> Corrupt"
    and q: "st_queue (us_store s) = []" "\<not> st_in_txn (us_store s)" "0 \<le> cur" "cur < 2 ^ 63" "at_position (us_store s) k cur"
    using r by (simp_all add: ready_def e_def k_def)
  obtain b where b: "get_cursor (us_store s) k = Ok b" "cursor_id b = Ok cur" using position_cursor [OF q(5)] by blast
  have lo: "- (2 ^ 63) \<le> cur" using q(3) by (rule order_trans [rotated]) simp
  obtain st' where f: "columns_true (en_db e) st'"
      "iter_batches c w b L (en_db e) (en_state e) = (st', Ok (if rs = [] then [] else [batch_of c w rs]))"
    using iter_batches_columns [OF e(2) p(1) e(3) b(2) lo q(4), of L] p(2) e(1)
    unfolding Let_def rs_def pending_def e_def [symmetric] by auto
  define s1 where "s1 = s\<lparr>us_env := e\<lparr>en_state := st'\<rparr>\<rparr>"
  have i: "in_env (sqlite_iter c b L) s = (s1, Ok (if rs = [] then [] else [\<lambda>e. (e, Ok (batch_of c w rs))]))"
    using f(2) e(1) by (simp add: in_env_def sqlite_iter_def s1_def e_def)
  have P: "pipe_key P = k" "fetch_limit P = L" "pi_source P = sqlite_port c"
    "pi_transport P = taking name table policy" "pi_max_per_pump P = None"
    by (simp_all add: P_def k_def L taking_def)
  have pass: "source_pass (quiet now) P 0 False s
      = ship_batches (quiet now) P (if rs = [] then [] else [\<lambda>e. (e, Ok (batch_of c w rs))]) 0 False False s1"
    using b i by (simp add: source_pass_def bind_p_def get_cursor_p_def P del: ship_batches.simps)
  have pump: "pump_one (quiet now) P s = (s', Ok x)" if "source_pass (quiet now) P 0 False s = (s', Ok (Return x))" for s' x
    using that by (simp add: pump_one_quiet [OF q(1)] drain_source_one_pass P)
  show ?thesis
  proof (cases "rs = []")
    case True
    then have "pump_one (quiet now) P s = (s1, Ok False)" using pump [of s1 False] pass by simp
    moreover have "ready c w k cur s1" using e f(1) q by (simp add: ready_def s1_def)
    moreover have "pending c cur s1 = drop L (pending c cur s)" using True L(2) e(1)
      by (auto simp: rs_def pending_def s1_def e_def)
    ultimately show ?thesis
      using True unfolding P_def [symmetric] k_def [symmetric]
      by (auto simp: s1_def e_def records_in_def documents_def map_filter_simps)
  next
    case False
    define m where "m = int (qr_id (last rs))"
    have "last rs \<in> set rs" using False by simp
    then have lr: "last rs \<in> set (sd_rows (en_db e))" "cur < m"
      using slice_rows(2) [OF r, of rs L "last rs"] by (simp_all add: rs_def e_def m_def)
    have m: "0 \<le> m" "m < 2 ^ 63"
      using lr(1) e(2,4) by (auto simp: m_def answers_def wf_sink_def intro: order_less_le_trans)
    have B: "bt_records (batch_of c w rs) = records_in c w rs" "records_in c w rs \<noteq> []"
        "bt_cursor_after (batch_of c w rs) = cursor_bytes m" "bt_commit_token (batch_of c w rs) = cursor_bytes m"
      using slice_rows(1) [OF r refl, of L] documents_nonempty [of rs] False
      by (auto simp: batch_of_def records_in_def m_def rs_def)
    obtain st3 db3 where cm: "commit c w (cursor_bytes m) (en_db e) st' = (st3, db3)" by fastforce
    note ck = commit_keeps [OF e(2) f(1) cm]
    obtain s5 where s5: "ship_batches (quiet now) P [\<lambda>e. (e, Ok (batch_of c w rs))] 0 False False s1 = (s5, Ok (Return True))"
      "us_env s5 = e\<lparr>en_state := st3, en_db := db3, dv_sent := dv_sent e @ records_in c w rs\<rparr>"
      "at_position (us_store s5) k m" "st_queue (us_store s5) = []" "\<not> st_in_txn (us_store s5)"
      using take_batch [of s1 k cur m "batch_of c w rs" P c name table policy st3 db3 now] q lr(2) B P cm e(1)
      by (auto simp: s1_def)
    have "pump_one (quiet now) P s = (s5, Ok True)" using pump [of s5 True] pass False s5(1) by simp
    moreover have "ready c w k m s5" using ck e m s5 by (auto simp: ready_def)
    moreover have "pending c m s5 = drop L (pending c cur s)"
    proof -
      have "after_id m (shippable c w (en_db e)) = drop L (after_id cur (shippable c w (en_db e)))"
        using after_id_of_slice [of "en_db e" L cur c w] False e(1,2) by (simp add: rs_def pending_def m_def e_def answers_def)
      then show ?thesis using ck e(1) s5(2) by (simp add: pending_def e_def)
    qed
    ultimately show ?thesis using False s5(2) unfolding P_def [symmetric] k_def [symmetric] e_def by auto
  qed
qed

lemma until_idle_sends_all:
  assumes p: "plain c" "\<not> sq_start_at c" and L: "0 < min limit (bp_max_records policy)"
  shows "ready c w (sq_source_id c, name, table) cur s \<Longrightarrow> length (pending c cur s) < left
    \<Longrightarrow> \<exists>s' n m. pump_until_idle (quiet now) True [queue_pipe pn c (taking name table policy) limit] left n0 s = (s', Ok n)
      \<and> dv_sent (us_env s') = dv_sent (us_env s) @ records_in c w (pending c cur s)
      \<and> ready c w (sq_source_id c, name, table) m s' \<and> pending c m s' = []"
proof (induction left arbitrary: cur s n0)
  case (Suc left)
  define L where "L = min limit (bp_max_records policy)"
  define rs where "rs = take L (pending c cur s)"
  define P where "P = queue_pipe pn c (taking name table policy) limit"
  obtain s1 m where s1: "pump_one (quiet now) P s = (s1, Ok (rs \<noteq> []))"
    "dv_sent (us_env s1) = dv_sent (us_env s) @ records_in c w rs"
    "ready c w (sq_source_id c, name, table) m s1" "pending c m s1 = drop L (pending c cur s)"
    using pump_sends_slice [OF Suc.prems(1) p L_def] L unfolding rs_def P_def L_def [symmetric] by blast
  have pump: "pump (quiet now) True [P] s = (s1, Ok (rs \<noteq> []))" by (simp add: pump_def bind_p_def s1(1))
  show ?case
  proof (cases "rs = []")
    case True
    then have "pending c cur s = []" using L by (auto simp: rs_def L_def)
    then show ?thesis
      using s1 pump True unfolding P_def [symmetric]
      by (auto simp: bind_p_def records_in_def documents_def map_filter_simps)
  next
    case False
    have "length (pending c m s1) < left"
      using Suc.prems(2) False L s1(4) by (cases "pending c cur s") (auto simp: rs_def L_def)
    from Suc.IH [OF s1(3) this, of "Suc n0"] obtain s' n m' where
      i: "pump_until_idle (quiet now) True [P] left (Suc n0) s1 = (s', Ok n)"
      "dv_sent (us_env s') = dv_sent (us_env s1) @ records_in c w (drop L (pending c cur s))"
      "ready c w (sq_source_id c, name, table) m' s'" "pending c m' s' = []"
      unfolding P_def s1(4) by blast
    have "records_in c w rs @ records_in c w (drop L (pending c cur s)) = records_in c w (pending c cur s)"
      using documents_append [of rs "drop L (pending c cur s)"] by (simp add: records_in_def rs_def flip: map_append)
    then have "dv_sent (us_env s') = dv_sent (us_env s) @ records_in c w (pending c cur s)" using i(2) s1(2) by simp
    then show ?thesis using i pump False unfolding P_def [symmetric] by (auto simp: bind_p_def)
  qed
qed simp

text \<open>C14: every row in scope is delivered once, on the plain path.  The source has no ship ceiling, no
  de-duplication and no \<open>start_at\<close> (\<open>plain\<close> and the third premise); the sink opens and answers, its column
  probes are true, its ids stay below 2^63 and no payload is corrupt, no retry is queued, no transaction is
  open and the send record reads as a position (\<open>ready\<close>); there is no gate, nothing else writes, the transport
  acknowledges every batch and the batch limit is positive.  Then pumping the pipeline until it is idle ends by
  itself, sends, whatever the batch size, exactly the records of the rows in scope past the send record, in id order and each
  once, and leaves none pending; one pump per row and one more is enough.  A slice of corrupt rows
  does stop a pipeline (\<open>corrupt_slice_stops_the_pipeline\<close>).\<close>

theorem pumping_delivers_every_row_once:
  assumes "ready c w (sq_source_id c, name, table) cur s" "plain c" "\<not> sq_start_at c"
    and "0 < min limit (bp_max_records policy)" "length (pending c cur s) < max_passes"
  shows "\<exists>s' n m. pump_until_idle (quiet now) True [queue_pipe pn c (taking name table policy) limit] max_passes 0 s = (s', Ok n)
    \<and> dv_sent (us_env s') = dv_sent (us_env s) @ records_in c w (pending c cur s) \<and> pending c m s' = []"
  using until_idle_sends_all [OF assms(2-4,1,5), of now pn 0] by blast

end
