(* ===== verification/SqliteWitnesses.thy ===== *)
theory SqliteWitnesses
  imports SqlitePump
begin

text \<open>The queue's properties at work: a small sink, a source of it, and its probes after a migration.\<close>

definition queue_conf :: sq_conf where
  "queue_conf = \<lparr>sq_database = ''psk'', sq_table = ''spots'', sq_accepted = [1], sq_select = [], sq_extra = [],
     sq_start_at = False, sq_delete = True, sq_dedup_by = [], sq_dedup_desc = [], sq_ceiling_column = None,
     sq_ceiling = None, sq_producer = None, sq_radiod = None\<rparr>"

definition queue_world :: sq_world where
  "queue_world = \<lparr>sw_configured = True, sw_connect = None, sw_exec = None, sw_default_factory = True,
     sw_exists = True, sw_json_text = (\<lambda>_. []), sw_text_real = (\<lambda>_. 0), sw_fromiso = (\<lambda>_. None), sw_now = 0\<rparr>"

definition queue_row :: "nat \<Rightarrow> int \<Rightarrow> payload \<Rightarrow> qrow" where
  "queue_row i v p = \<lparr>qr_id = i, qr_db = ''psk'', qr_table = ''spots'', qr_version = v, qr_payload = p,
     qr_queued_at = [], qr_producer = ''psk-recorder'', qr_local = False\<rparr>"

definition queue_db :: "qrow list \<Rightarrow> sinkdb" where
  "queue_db rows = \<lparr>sd_has_table = True, sd_has_producer = True, sd_has_local = True, sd_rows = rows, sd_next_id = 9\<rparr>"

definition spot :: "string \<Rightarrow> payload" where
  "spot mode = Doc (PDict [(''mode'', PStr mode)])"

lemmas queue_defs = queue_conf_def queue_world_def queue_row_def queue_db_def spot_def

definition good_rows :: "qrow list" where
  "good_rows = [queue_row 1 1 (spot ''FT8''), queue_row 2 2 (spot ''FT8''), queue_row 3 1 (spot ''FT4'')]"

lemma queue_plain: "plain queue_conf" "plain (queue_conf\<lparr>sq_start_at := True\<rparr>)"
    "plain (queue_conf\<lparr>sq_accepted := []\<rparr>)"
  by (simp_all add: plain_def queue_conf_def)

lemma queue_base:
  "base_clauses queue_conf queue_world (seen (queue_db rows)) None
     = Ok ([target_clause queue_conf] @ local_clauses (seen (queue_db rows)) @ version_clauses queue_conf)"
  by (simp add: base_clauses_def scope_clauses_def queue_conf_def ceiling_clauses_def)

lemma queue_answers:
  assumes "wf_sink (queue_db rows)" "\<forall>r \<in> set rows. qr_payload r = Corrupt \<or> (\<exists>d. qr_payload r = Doc (PDict d))"
  shows "answers queue_conf queue_world (queue_db rows)"
  using assms
  by (auto simp: answers_def queue_base)
     (auto simp: queue_world_def queue_db_def target_clause_def local_clauses_def version_clauses_def)

lemma fresh_columns [simp]: "columns_true db (fresh_source w)"
  by (simp add: columns_true_def fresh_source_def)

lemma good_answers: "answers queue_conf queue_world (queue_db good_rows)"
  by (rule queue_answers) (simp_all add: wf_sink_def good_rows_def queue_defs)

lemma good_shippable:
  "shippable queue_conf queue_world (queue_db good_rows) = [queue_row 1 1 (spot ''FT8''), queue_row 3 1 (spot ''FT4'')]"
  by (simp add: shippable_def offered_def queue_base)
     (simp add: good_rows_def queue_defs target_clause_def local_clauses_def version_clauses_def seen_def)

theorem reading_on_offers_each_once_witness:
  "read_on queue_conf queue_world 1 (queue_db good_rows) 4 [] (fresh_source queue_world)
    = Some (Ok (map (\<lambda>(r, d). record_of queue_conf queue_world d r)
        [(queue_row 1 1 (spot ''FT8''), [(''mode'', PStr ''FT8'')]), (queue_row 3 1 (spot ''FT4''), [(''mode'', PStr ''FT4'')])]))"
  using reading_on_offers_each_once [OF good_answers queue_plain(1), of 1 "fresh_source queue_world" "[]" 0 4]
  by (simp add: cursor_id_def good_shippable) (simp add: queue_defs after_id_def documents_def map_filter_simps)

definition unlabelled :: qrow where
  "unlabelled = (queue_row 1 1 (spot '' Ft8''))\<lparr>qr_producer := []\<rparr>"

theorem commit_stays_in_scope_witness:
  "let c = queue_conf\<lparr>sq_producer := Some ''psk-recorder''\<rparr> in
     unlabelled \<notin> set (sd_rows (snd (commit c queue_world ''1'' (queue_db [unlabelled]) (fresh_source queue_world))))
   \<and> (qr_producer unlabelled = ''psk-recorder'' \<or> assigned_to ''psk-recorder'' (sw_json_text queue_world) unlabelled)"
proof -
  let ?c = "queue_conf\<lparr>sq_producer := Some ''psk-recorder''\<rparr>"
  obtain st' db' where c: "commit ?c queue_world ''1'' (queue_db [unlabelled]) (fresh_source queue_world) = (st', db')"
    by fastforce
  have "py_int ''1'' = Some 1" by code_simp
  then have i: "cursor_id ''1'' = Ok 1" by (simp add: cursor_id_def is_ascii_def)
  have r: "unlabelled \<in> set (sd_rows (queue_db [unlabelled]))" by (simp add: queue_db_def)
  have rows: "sd_rows (snd (commit ?c queue_world ''1'' (queue_db [unlabelled]) (fresh_source queue_world))) = []" by code_simp
  then have n: "unlabelled \<notin> set (sd_rows db')" using c by simp
  show ?thesis using commit_stays_in_scope [OF fresh_columns i c r n] rows unfolding Let_def
    by (simp add: queue_db_def queue_conf_def) blast
qed

theorem unaccepted_row_deleted_unshipped_witness:
  "queue_row 2 2 (spot ''FT8'') \<in> set good_rows
    \<and> queue_row 2 2 (spot ''FT8'') \<notin> set (sd_rows (snd (commit queue_conf queue_world (cursor_bytes 3) (queue_db good_rows) (fresh_source queue_world))))
    \<and> queue_row 2 2 (spot ''FT8'') \<notin> set (shippable queue_conf queue_world (queue_db good_rows))"
  using unaccepted_row_deleted_unshipped [of queue_world "queue_db good_rows" "fresh_source queue_world" queue_conf
      "queue_row 2 2 (spot ''FT8'')" 3]
  by (simp add: good_rows_def) (simp add: queue_defs)

theorem acks_in_any_order_end_at_the_greatest_witness:
  "\<exists>s. stored_cursor (advance_all (''s'', ''d'', ''t'') (map (\<lambda>(n, t). (cursor_bytes n, t)) [(1000, ''a''), (999, ''b'')])
      cursor_is_after (Ok 0) (upsert (''s'', ''d'', ''t'') (cursor_bytes 7) [] (open_store empty_file))) (''s'', ''d'', ''t'') = Some s
    \<and> cursor_id s = Ok 1000"
proof -
  have "\<not> st_in_txn (upsert (''s'', ''d'', ''t'') (cursor_bytes 7) [] (open_store empty_file))"
    by (simp add: open_store_def empty_file_def init_schema_def refresh_schema_version_def)
  from acks_in_any_order_end_at_the_greatest [OF _ this, of "(''s'', ''d'', ''t'')" 7 "[(1000, ''a''), (999, ''b'')]" "Ok 0"]
  show ?thesis by simp
qed

theorem d12_scope_agrees_witness:
  "d12_clause (\<lambda>_. []) Not (queue_row 1 1 (spot '' Msk144 '')) = Ok (Some False)"
proof -
  have "plain_mode (py_get [(''mode'', PStr '' Msk144 '')] ''mode'')" by code_simp
  moreover have "infer_producer ''psk'' (PDict [(''mode'', PStr '' Msk144 '')]) = ''meteor-scatter''" by code_simp
  ultimately show ?thesis
    using d12_scope_agrees [of "queue_row 1 1 (spot '' Msk144 '')" "[(''mode'', PStr '' Msk144 '')]" "''psk-recorder''" Not "\<lambda>_. []"]
    by (simp add: queue_defs d12_by_producer_def)
qed

definition open_conf :: sq_conf where "open_conf = queue_conf\<lparr>sq_accepted := []\<rparr>"

lemma open_shippable:
  "shippable open_conf queue_world (queue_db good_rows) = good_rows"
  by (simp add: shippable_def offered_def base_clauses_def scope_clauses_def ceiling_clauses_def version_clauses_def
      open_conf_def queue_conf_def)
     (simp add: good_rows_def queue_defs target_clause_def local_clauses_def seen_def)

lemma good_wf: "wf_sink (queue_db good_rows)"
  by (simp add: wf_sink_def good_rows_def queue_defs)

theorem commit_after_fetch_loses_nothing_witness:
  "let rs = take 2 (after_id 0 (shippable open_conf queue_world (queue_db good_rows)));
       db' = snd (commit open_conf queue_world (bt_commit_token (batch_of open_conf queue_world rs)) (queue_db good_rows) (fresh_source queue_world))
   in {r \<in> set good_rows. r \<notin> set (sd_rows db')} \<subseteq> set rs"
proof -
  define rs where "rs = take 2 (after_id 0 (shippable open_conf queue_world (queue_db good_rows)))"
  have ne: "rs \<noteq> []" by (simp add: rs_def open_shippable) (simp add: after_id_def good_rows_def queue_row_def)
  obtain st' db' where c: "commit open_conf queue_world (bt_commit_token (batch_of open_conf queue_world rs)) (queue_db good_rows)
      (fresh_source queue_world) = (st', db')" by fastforce
  have "sq_accepted open_conf = []" "sq_extra open_conf = []" "plain open_conf"
    by (simp_all add: open_conf_def queue_conf_def plain_def)
  from commit_after_fetch_loses_nothing [OF good_wf fresh_columns this rs_def ne c] c show ?thesis
    unfolding Let_def rs_def [symmetric] by (auto simp: good_rows_def queue_row_def queue_db_def)
qed

definition anchored_conf :: sq_conf where "anchored_conf = queue_conf\<lparr>sq_start_at := True\<rparr>"

lemma anchored_base:
  "base_clauses anchored_conf queue_world (seen (queue_db rows)) None
     = Ok ([target_clause anchored_conf] @ local_clauses (seen (queue_db rows)) @ version_clauses anchored_conf)"
  by (simp add: base_clauses_def scope_clauses_def anchored_conf_def queue_conf_def ceiling_clauses_def)

lemma anchored_answers:
  assumes "wf_sink (queue_db rows)" "\<forall>r \<in> set rows. qr_payload r = Corrupt \<or> (\<exists>d. qr_payload r = Doc (PDict d))"
  shows "answers anchored_conf queue_world (queue_db rows)"
  using assms
  by (auto simp: answers_def anchored_base)
     (auto simp: queue_world_def queue_db_def target_clause_def local_clauses_def version_clauses_def)

lemma anchored_good: "answers anchored_conf queue_world (queue_db good_rows)"
  by (rule anchored_answers [OF good_wf]) (simp add: good_rows_def queue_defs)

lemma anchored_simps: "plain anchored_conf" "sq_start_at anchored_conf" "ss_start_cursor (fresh_source queue_world) = None"
    "ss_producer_column (fresh_source queue_world) = None" "sd_next_id (queue_db rows) \<le> 2 ^ 63" "sw_exists queue_world"
  by (simp_all add: anchored_conf_def plain_def queue_defs fresh_source_def)

definition later_rows :: "qrow list" where "later_rows = good_rows @ [queue_row 4 1 (spot ''FT8'')]"

lemma anchor_good: "anchor anchored_conf queue_world (queue_db good_rows) = 3"
  by (simp add: anchor_def in_scope_def [abs_def] good_rows_def queue_defs anchored_conf_def target_clause_def
      scope_clauses_def local_clauses_def seen_def)

theorem anchor_does_not_drift_witness:
  "snd (iter_batches anchored_conf queue_world [] 5 (queue_db later_rows)
      (fst (iter_batches anchored_conf queue_world [] 5 (queue_db good_rows) (fresh_source queue_world))))
    = Ok [batch_of anchored_conf queue_world [queue_row 4 1 (spot ''FT8'')]]"
proof -
  obtain st1 r where f: "iter_batches anchored_conf queue_world [] 5 (queue_db good_rows) (fresh_source queue_world) = (st1, r)"
    by fastforce
  have later: "answers anchored_conf queue_world (queue_db later_rows)"
    by (rule anchored_answers) (simp_all add: wf_sink_def later_rows_def good_rows_def queue_defs)
  have cols: "columns_true (queue_db later_rows) st1"
  proof -
    have "- (2 ^ 63) \<le> (3 :: int)" "(3 :: int) < 2 ^ 63" by simp_all
    then have "columns_true (queue_db good_rows) st1"
      using fetch_empty [OF anchored_good anchored_simps(1) fresh_columns anchored_simps(2), of queue_world 5] f
      by (auto simp: from_cursor_def anchored_simps(3) anchor_good)
    then show ?thesis by (simp add: columns_true_def queue_db_def)
  qed
  have "shippable anchored_conf queue_world (queue_db later_rows)
      = [queue_row 1 1 (spot ''FT8''), queue_row 3 1 (spot ''FT4''), queue_row 4 1 (spot ''FT8'')]"
    by (simp add: shippable_def offered_def anchored_base)
       (simp add: later_rows_def good_rows_def queue_defs anchored_conf_def target_clause_def local_clauses_def version_clauses_def seen_def)
  then have s: "after_id 3 (shippable anchored_conf queue_world (queue_db later_rows)) = [queue_row 4 1 (spot ''FT8'')]"
    by (simp add: after_id_def queue_row_def)
  show ?thesis
    using anchor_does_not_drift [OF anchored_good anchored_simps(1) fresh_columns anchored_simps(2,3,5) f later cols, of 5] f s
    by (simp add: anchor_good)
qed

theorem initial_cursor_is_the_first_anchor_witness:
  "\<exists>k. snd (initial_cursor anchored_conf queue_world (queue_db good_rows) (fresh_source queue_world)) = Ok (Some k)
    \<and> snd (iter_batches anchored_conf queue_world k 5 (queue_db good_rows) (fresh_source queue_world))
      = snd (iter_batches anchored_conf queue_world [] 5 (queue_db good_rows) (fresh_source queue_world))"
  by (rule initial_cursor_is_the_first_anchor [OF anchored_good anchored_simps(1) fresh_columns anchored_simps(2,5,6,3,4)])

definition corrupt_rows :: "qrow list" where "corrupt_rows = [queue_row 1 1 Corrupt, queue_row 2 1 (spot ''FT8'')]"

definition queue_state :: "qrow list \<Rightarrow> delivery ustate" where
  "queue_state rows = \<lparr>us_env = \<lparr>en_state = fresh_source queue_world, en_db = queue_db rows, en_world = queue_world, dv_sent = []\<rparr>,
     us_store = open_store empty_file, us_gate_faults = [], us_faults_full = False, us_held_windows = [], us_log = []\<rparr>"

lemma queue_state_simps [simp]:
  "st_queue (us_store (queue_state rows)) = []" "find_mark (us_store (queue_state rows)) k = None"
  "\<not> st_in_txn (us_store (queue_state rows))"
  "en_world (us_env (queue_state rows)) = queue_world" "en_db (us_env (queue_state rows)) = queue_db rows"
  "en_state (us_env (queue_state rows)) = fresh_source queue_world" "dv_sent (us_env (queue_state rows)) = []"
  by (simp_all add: queue_state_def find_mark_def open_store_def empty_file_def init_schema_def refresh_schema_version_def)

theorem corrupt_slice_stops_the_pipeline_witness:
  "\<exists>s'. pump_one (quiet 0) (queue_pipe ''p'' queue_conf (taking ''psk'' ''t'' default_batch_policy) 1) (queue_state corrupt_rows)
      = (s', Ok False)
    \<and> us_store s' = us_store (queue_state corrupt_rows) \<and> en_db (us_env s') = queue_db corrupt_rows"
proof -
  have a: "answers queue_conf queue_world (queue_db corrupt_rows)"
    by (rule queue_answers) (simp_all add: wf_sink_def corrupt_rows_def queue_defs)
  have sh: "shippable queue_conf queue_world (queue_db corrupt_rows) = corrupt_rows"
    by (simp add: shippable_def offered_def queue_base)
       (simp add: corrupt_rows_def queue_defs target_clause_def local_clauses_def version_clauses_def seen_def)
  have d: "documents (take 1 (after_id 0 corrupt_rows)) = []"
    by (simp add: corrupt_rows_def after_id_def queue_defs documents_def map_filter_simps)
  show ?thesis
    using corrupt_slice_stops_the_pipeline [of queue_conf "queue_state corrupt_rows" "taking ''psk'' ''t'' default_batch_policy" "[]" 0 1 0 "''p''"]
      a queue_plain(1) sh d
    by (simp add: get_cursor_def cursor_id_def taking_def default_batch_policy_def) (simp add: queue_conf_def)
qed

theorem pumping_delivers_every_row_once_witness:
  "\<exists>s' n. pump_until_idle (quiet 0) True [queue_pipe ''p'' queue_conf (taking ''psk'' ''t'' default_batch_policy) 1] 4 0
      (queue_state good_rows) = (s', Ok n)
    \<and> dv_sent (us_env s') = records_in queue_conf queue_world [queue_row 1 1 (spot ''FT8''), queue_row 3 1 (spot ''FT4'')]"
proof -
  have r: "ready queue_conf queue_world (sq_source_id queue_conf, ''psk'', ''t'') 0 (queue_state good_rows)"
    using good_answers by (auto simp: ready_def at_position_def queue_db_def good_rows_def queue_row_def spot_def)
  have p: "pending queue_conf 0 (queue_state good_rows) = [queue_row 1 1 (spot ''FT8''), queue_row 3 1 (spot ''FT4'')]"
    by (simp add: pending_def good_shippable) (simp add: after_id_def queue_row_def)
  show ?thesis
    using pumping_delivers_every_row_once [OF r queue_plain(1), where policy = default_batch_policy and limit = 1
        and max_passes = 4 and now = 0 and pn = "''p''"] p
    by (auto simp: queue_conf_def default_batch_policy_def)
qed

text \<open>A partition of two copies: the stronger one ships.\<close>

definition best_conf :: sq_conf where
  "best_conf = queue_conf\<lparr>sq_dedup_by := [''call''], sq_dedup_desc := ''snr''\<rparr>"

definition copy :: "nat \<Rightarrow> int \<Rightarrow> qrow" where
  "copy i snr = queue_row i 1 (Doc (PDict [(''call'', PStr ''N0CALL''), (''snr'', PInt snr)]))"

theorem partition_ships_once_witness:
  "dedup_query best_conf queue_world [] 0 5 (queue_db [copy 1 3, copy 2 7]) = Ok [copy 2 7]
    \<and> \<not> outranks (the_ok (rank_row best_conf queue_world (copy 1 3))) (the_ok (rank_row best_conf queue_world (copy 2 7)))"
proof -
  have q: "dedup_query best_conf queue_world [] 0 5 (queue_db [copy 1 3, copy 2 7]) = Ok [copy 2 7]" by code_simp
  have w: "wf_sink (queue_db [copy 1 3, copy 2 7])" by (simp add: wf_sink_def copy_def queue_defs)
  have m: "copy 1 3 \<in> set (sd_rows (queue_db [copy 1 3, copy 2 7]))" by (simp add: queue_db_def)
  have k: "partition_key best_conf queue_world (copy 1 3) = partition_key best_conf queue_world (copy 2 7)"
    "is_ok (rank_row best_conf queue_world (copy 1 3))" "is_ok (rank_row best_conf queue_world (copy 2 7))"
    by code_simp+
  have r: "rank_row best_conf queue_world x = Ok (the_ok (rank_row best_conf queue_world x))"
    if "is_ok (rank_row best_conf queue_world x)" for x
    using that by (cases "rank_row best_conf queue_world x") simp_all
  show ?thesis using partition_ships_once [OF q _ w, of "copy 2 7"] q m k r by simp
qed

subsection \<open>A probe that outlives a migration\<close>

text \<open>The sink before the \<open>local\<close> column existed, and after a new writer added the column and stored
  a local row.\<close>

definition old_db :: sinkdb where
  "old_db = \<lparr>sd_has_table = True, sd_has_producer = False, sd_has_local = False, sd_rows = [], sd_next_id = 1\<rparr>"

definition local_row :: qrow where "local_row = (queue_row 1 1 (spot ''FT8''))\<lparr>qr_local := True\<rparr>"

definition migrated_db :: sinkdb where
  "migrated_db = (snd (ensure_columns old_db))\<lparr>sd_rows := [local_row], sd_next_id := 2\<rparr>"

text \<open>A local row can ship.  A source that probed the columns before a writer added \<open>local\<close>
  keeps the answer for as long as its connection is open: it then offers a row marked local, and
  its commit deletes it, where a source that opens the sink afresh offers and deletes nothing.\<close>

theorem stale_probe_ships_local_row:
  "let st1 = fst (iter_batches queue_conf queue_world [] 5 old_db (fresh_source queue_world)) in
     map_res (map bt_cursor_after) (snd (iter_batches queue_conf queue_world [] 5 migrated_db st1)) = Ok [''1'']
   \<and> sd_rows (snd (commit queue_conf queue_world ''1'' migrated_db st1)) = []
   \<and> snd (iter_batches queue_conf queue_world [] 5 migrated_db (fresh_source queue_world)) = Ok []
   \<and> sd_rows (snd (commit queue_conf queue_world ''1'' migrated_db (fresh_source queue_world))) = [local_row]"
  by code_simp

end
