(* ===== verification/PskPayload.thy ===== *)
theory PskPayload
  imports CoreTypes
begin

text \<open>
  PSKReporter's wire format, \<open>payload/psk_pskr.py\<close>: the encoder of a spot, of the receiver and of a
  packet, and the chunking of spots into packets.

  \<open>int.to_bytes\<close> raises \<open>OverflowError\<close> outside its width, which is a branch of every encoder.  A
  text is encoded as UTF-8; the model's texts have code points up to 255, which take one or two
  bytes.
\<close>

subsection \<open>Bytes\<close>

text \<open>\<open>i.to_bytes(w, "big")\<close>.\<close>

fun be_bytes :: "nat \<Rightarrow> nat \<Rightarrow> bytes" where
  "be_bytes 0 n = []"
| "be_bytes (Suc w) n = be_bytes w (n div 256) @ [char_of (n mod 256)]"

definition overflow_error :: exn where
  "overflow_error = Exn ''OverflowError'' ''int too big to convert''"

definition to_bytes :: "nat \<Rightarrow> int \<Rightarrow> bytes res" where
  "to_bytes w i = (if 0 \<le> i \<and> i < 256 ^ w then Ok (be_bytes w (nat i)) else Raise overflow_error)"

text \<open>\<open>int.from_bytes(b, "big")\<close>.\<close>

definition from_bytes :: "bytes \<Rightarrow> nat" where
  "from_bytes b = foldl (\<lambda>n c. 256 * n + of_char c) 0 b"

lemma length_be_bytes [simp]: "length (be_bytes w n) = w"
  by (induction w n rule: be_bytes.induct) auto

lemma from_bytes_snoc: "from_bytes (b @ [c]) = 256 * from_bytes b + of_char c"
  by (simp add: from_bytes_def)

lemma from_be_bytes: "n < 256 ^ w \<Longrightarrow> from_bytes (be_bytes w n) = n"
proof (induction w n rule: be_bytes.induct)
  case (2 w n)
  have "n div 256 < 256 ^ w" using 2(2) by (simp add: div_less_iff_less_mult mult.commute)
  then show ?case using 2(1) by (simp add: from_bytes_snoc)
qed (simp add: from_bytes_def)

lemma to_bytes_Ok: "to_bytes w i = Ok b \<longleftrightarrow> 0 \<le> i \<and> i < 256 ^ w \<and> b = be_bytes w (nat i)"
  by (auto simp: to_bytes_def)

lemma to_bytes_length: "to_bytes w i = Ok b \<Longrightarrow> length b = w"
  by (simp add: to_bytes_Ok)

lemma to_bytes_back: "to_bytes w (int n) = Ok b \<Longrightarrow> from_bytes b = n"
proof -
  assume "to_bytes w (int n) = Ok b"
  then have "int n < int (256 ^ w)" "b = be_bytes w n" by (simp_all add: to_bytes_Ok)
  then show ?thesis by (simp only: of_nat_less_iff) (simp add: from_be_bytes)
qed

text \<open>\<open>s.encode("utf-8")\<close> and \<open>b.decode("utf-8")\<close>; a code point past 255 is no text of the model
  and reads as an error, like a malformed sequence.\<close>

definition utf8_char :: "char \<Rightarrow> bytes" where
  "utf8_char c = (let k = (of_char c :: nat) in
     if k < 128 then [c] else [char_of (192 + k div 64), char_of (128 + k mod 64)])"

definition utf8 :: "string \<Rightarrow> bytes" where "utf8 s = concat (map utf8_char s)"

definition decode_error :: exn where "decode_error = Exn ''UnicodeDecodeError'' ''invalid start byte''"

fun utf8_decode :: "bytes \<Rightarrow> string res" where
  "utf8_decode [] = Ok []"
| "utf8_decode (b # bs) = (let k = (of_char b :: nat) in
     if k < 128 then map_res (Cons b) (utf8_decode bs)
     else (case bs of
         b2 # bs' \<Rightarrow> (let j = (of_char b2 :: nat) in
           if (k = 194 \<or> k = 195) \<and> 128 \<le> j \<and> j < 192
           then map_res (Cons (char_of ((k - 192) * 64 + (j - 128)))) (utf8_decode bs')
           else Raise decode_error)
       | [] \<Rightarrow> Raise decode_error))"

lemma of_char_256: "(of_char c :: nat) < 256"
  by (metis of_char_mod_256 mod_less_divisor zero_less_numeral)

lemma utf8_decode_utf8 [simp]: "utf8_decode (utf8 s) = Ok s"
proof (induction s)
  case (Cons c s)
  define k where "k = (of_char c :: nat)"
  have k: "k < 256" "c = char_of k" by (simp_all add: k_def of_char_256)
  show ?case
  proof (cases "k < 128")
    case True
    then show ?thesis using Cons by (simp add: utf8_def utf8_char_def k_def)
  next
    case False
    have m: "k mod 64 < 64" "k div 64 = 2 \<or> k div 64 = 3" using k(1) False by auto
    have "of_char (char_of (192 + k div 64) :: char) = 192 + k div 64"
      "of_char (char_of (128 + k mod 64) :: char) = 128 + k mod 64"
      using m by auto
    moreover have "(k div 64) * 64 + k mod 64 = k" by (rule div_mult_mod_eq)
    then have "k div 64 = 2 \<Longrightarrow> 128 + k mod 64 = k" "k div 64 = 3 \<Longrightarrow> 192 + k mod 64 = k" by linarith+
    ultimately show ?thesis
      using Cons False m k(2) by (auto simp: utf8_def utf8_char_def k_def [symmetric])
  qed
qed (simp add: utf8_def)

subsection \<open>Spots and receivers\<close>

definition max_packet_len_tcp :: nat where "max_packet_len_tcp = 25000"

text \<open>The message field holds what the row gave: bytes, or something that is not (\<open>None\<close>).\<close>

record psk_spot =
  sp_callsign :: string
  sp_frequency :: int
  sp_snr :: int
  sp_mode :: string
  sp_locator :: string
  sp_timestamp :: int
  sp_message :: "bytes option"

record receiver =
  rx_callsign :: string
  rx_locator :: string
  rx_software :: string
  rx_antenna :: string

definition enc_bytes :: "bytes \<Rightarrow> bytes" where
  "enc_bytes b = char_of (length (take 255 b)) # take 255 b"

definition enc_str :: "string \<Rightarrow> bytes" where "enc_str s = enc_bytes (utf8 s)"

text \<open>\<open>_i8\<close>: clamped, then one byte in two's complement.\<close>

definition i8 :: "int \<Rightarrow> bytes" where
  "i8 n = (let k = max (-128) (min 127 n) in [char_of (nat (k mod 256))])"

definition pad :: "bytes \<Rightarrow> nat \<Rightarrow> bytes" where
  "pad b k = b @ replicate ((k - length b mod k) mod k) (CHR 0x00)"

definition encode_spot :: "psk_spot \<Rightarrow> bytes res" where
  "encode_spot s = bind_res (to_bytes 4 (sp_frequency s)) (\<lambda>freq. bind_res (to_bytes 4 (sp_timestamp s)) (\<lambda>ts.
     case sp_message s of None \<Rightarrow> Raise (Exn ''TypeError'' ''message_bytes'')
     | Some msg \<Rightarrow> Ok (enc_str (sp_callsign s) @ freq @ i8 (sp_snr s) @ enc_str (sp_mode s)
         @ enc_str (sp_locator s) @ [CHR 0x01] @ ts @ enc_bytes msg)))"

definition delim :: "nat \<Rightarrow> bytes" where "delim k = [CHR 0x99, char_of k]"

definition encode_receiver_info :: "receiver \<Rightarrow> bytes res" where
  "encode_receiver_info rx = (let body = pad (enc_str (rx_callsign rx) @ enc_str (rx_locator rx)
       @ enc_str (rx_software rx) @ enc_str (rx_antenna rx)) 4
     in map_res (\<lambda>n. delim 0x92 @ n @ body) (to_bytes 2 (int (length body + 4))))"

text \<open>The two frozen template descriptors: each field is its number, its length and the enterprise
  number \<open>0x768F\<close>.\<close>

definition template_field :: "nat \<Rightarrow> nat \<Rightarrow> nat list" where
  "template_field f len = [0x80, f] @ (if len = 0 then [0xFF, 0xFF] else [0x00, len]) @ [0x00, 0x00, 0x76, 0x8F]"

definition receiver_info_header :: bytes where
  "receiver_info_header = map char_of ([0x00, 0x03, 0x00, 0x2C, 0x99, 0x92, 0x00, 0x04, 0x00, 0x01]
     @ template_field 0x02 0 @ template_field 0x04 0 @ template_field 0x08 0 @ template_field 0x09 0 @ [0x00, 0x00 :: nat])"

definition sender_info_header :: bytes where
  "sender_info_header = map char_of ([0x00, 0x02, 0x00, 0x44, 0x99, 0x94, 0x00, 0x08]
     @ template_field 0x01 0 @ template_field 0x05 4 @ template_field 0x06 1 @ template_field 0x0A 0
     @ template_field 0x03 0 @ template_field 0x0B 1 @ [0x00, 0x96, 0x00, 0x04 :: nat] @ template_field 0x0E 0)"

subsection \<open>Packets\<close>

definition build_packet :: "receiver \<Rightarrow> bytes list \<Rightarrow> int \<Rightarrow> int \<Rightarrow> bytes \<Rightarrow> bytes res" where
  "build_packet rx spots ts sequence sid = (if length sid \<noteq> 4 then Raise (Exn ''ValueError'' ''session_id must be 4 bytes'')
     else bind_res (encode_receiver_info rx) (\<lambda>rx_info.
       let sender = pad (concat spots) 4 in
       bind_res (to_bytes 2 (int (length sender + 4))) (\<lambda>n.
         let body = receiver_info_header @ sender_info_header @ rx_info @ delim 0x94 @ n @ sender in
         bind_res (to_bytes 2 (int (16 + length body))) (\<lambda>total.
         bind_res (to_bytes 4 ts) (\<lambda>t. bind_res (to_bytes 4 sequence) (\<lambda>q.
           Ok ([CHR 0x00, CHR 0x0A] @ total @ t @ q @ sid @ body)))))))"

text \<open>The generator \<open>chunk_spots\<close> as the list of its chunks.\<close>

fun chunks :: "nat \<Rightarrow> bytes list \<Rightarrow> nat \<Rightarrow> bytes list \<Rightarrow> bytes list list" where
  "chunks budget chunk held [] = (if chunk = [] then [] else [chunk])"
| "chunks budget chunk held (sp # sps) =
     (if chunk \<noteq> [] \<and> budget < held + length sp then chunk # chunks budget [sp] (length sp) sps
      else chunks budget (chunk @ [sp]) (held + length sp) sps)"

definition chunk_overhead :: "bytes \<Rightarrow> nat" where
  "chunk_overhead rx_info = 16 + length receiver_info_header + length sender_info_header + length rx_info + 4"

definition chunk_spots :: "bytes list \<Rightarrow> nat \<Rightarrow> receiver \<Rightarrow> bytes list list res" where
  "chunk_spots spots max_len rx = bind_res (encode_receiver_info rx) (\<lambda>rx_info.
     if max_len \<le> chunk_overhead rx_info then Raise (Exn ''ValueError'' ''max_packet_len too small for header overhead'')
     else Ok (chunks (max_len - chunk_overhead rx_info) [] 0 spots))"

subsection \<open>Reading a spot back\<close>

text \<open>The reader the module's format description implies: each field in order, length-prefixed or of
  its width, and the rest of the block.\<close>

definition read_bytes :: "bytes \<Rightarrow> (bytes \<times> bytes) option" where
  "read_bytes b = (case b of [] \<Rightarrow> None | n # r \<Rightarrow>
     let k = (of_char n :: nat) in if length r < k then None else Some (take k r, drop k r))"

definition read_fixed :: "nat \<Rightarrow> bytes \<Rightarrow> (bytes \<times> bytes) option" where
  "read_fixed w b = (if length b < w then None else Some (take w b, drop w b))"

record wire_spot =
  ws_callsign :: bytes
  ws_frequency :: nat
  ws_snr :: int
  ws_mode :: bytes
  ws_locator :: bytes
  ws_timestamp :: nat
  ws_message :: bytes

definition read_i8 :: "bytes \<Rightarrow> int" where
  "read_i8 b = (let k = int (from_bytes b) in if k < 128 then k else k - 256)"

definition read_spot :: "bytes \<Rightarrow> (wire_spot \<times> bytes) option" where
  "read_spot b0 = Option.bind (read_bytes b0) (\<lambda>(call, b1). Option.bind (read_fixed 4 b1) (\<lambda>(freq, b2).
     Option.bind (read_fixed 1 b2) (\<lambda>(snr, b3). Option.bind (read_bytes b3) (\<lambda>(mode, b4).
     Option.bind (read_bytes b4) (\<lambda>(loc, b5). Option.bind (read_fixed 1 b5) (\<lambda>(src, b6).
     if src \<noteq> [CHR 0x01] then None else
     Option.bind (read_fixed 4 b6) (\<lambda>(ts, b7). Option.bind (read_bytes b7) (\<lambda>(msg, b8).
       Some (\<lparr>ws_callsign = call, ws_frequency = from_bytes freq, ws_snr = read_i8 snr, ws_mode = mode,
         ws_locator = loc, ws_timestamp = from_bytes ts, ws_message = msg\<rparr>, b8)))))))))"

text \<open>What a spot says on the wire: texts as UTF-8, cut at 255 bytes, and the SNR clamped.\<close>

definition on_wire :: "psk_spot \<Rightarrow> wire_spot" where
  "on_wire s = \<lparr>ws_callsign = take 255 (utf8 (sp_callsign s)), ws_frequency = nat (sp_frequency s),
     ws_snr = max (-128) (min 127 (sp_snr s)), ws_mode = take 255 (utf8 (sp_mode s)),
     ws_locator = take 255 (utf8 (sp_locator s)), ws_timestamp = nat (sp_timestamp s),
     ws_message = take 255 (case sp_message s of Some m \<Rightarrow> m | None \<Rightarrow> [])\<rparr>"

fun read_spots :: "nat \<Rightarrow> bytes \<Rightarrow> (wire_spot list \<times> bytes) option" where
  "read_spots 0 b = Some ([], b)"
| "read_spots (Suc n) b = Option.bind (read_spot b) (\<lambda>(s, r). map_option (\<lambda>(ss, r'). (s # ss, r')) (read_spots n r))"

lemma read_bytes_prefixed: "length c < 256 \<Longrightarrow> read_bytes (char_of (length c) # c @ r) = Some (c, r)"
  by (simp add: read_bytes_def)

lemma read_enc_bytes [simp]: "read_bytes (enc_bytes b @ r) = Some (take 255 b, r)"
  using read_bytes_prefixed [of "take 255 b" r] unfolding enc_bytes_def append_Cons by simp

lemma read_fixed_append [simp]: "length b = w \<Longrightarrow> read_fixed w (b @ r) = Some (b, r)"
  by (simp add: read_fixed_def)

lemma read_i8_i8 [simp]: "read_i8 (i8 n) = max (-128) (min 127 n)"
proof -
  define k where "k = max (-128) (min 127 n)"
  have k: "-128 \<le> k" "k \<le> 127" by (simp_all add: k_def)
  have "nat (k mod 256) < 256" by (simp add: nat_less_iff)
  then have f: "int (from_bytes (i8 n)) = k mod 256"
    by (simp add: i8_def k_def [symmetric] from_bytes_def Let_def)
  have "k mod 256 = (if 0 \<le> k then k else k + 256)"
  proof (cases "0 \<le> k")
    case False
    then have "(k + 256) mod 256 = k + 256" using k by (intro mod_pos_pos_trivial) simp_all
    then show ?thesis using False by simp
  qed (use k in simp)
  then show ?thesis using k by (simp add: read_i8_def f Let_def k_def [symmetric])
qed

lemma length_i8 [simp]: "length (i8 n) = 1"
  by (simp add: i8_def Let_def)

lemma read_spot_encode:
  assumes "encode_spot s = Ok b"
  shows "read_spot (b @ r) = Some (on_wire s, r)"
proof -
  obtain f t m where 1: "to_bytes 4 (sp_frequency s) = Ok f" "to_bytes 4 (sp_timestamp s) = Ok t" "sp_message s = Some m"
    and b: "b = enc_str (sp_callsign s) @ f @ i8 (sp_snr s) @ enc_str (sp_mode s) @ enc_str (sp_locator s) @ [CHR 0x01] @ t @ enc_bytes m"
    using assms by (auto simp: encode_spot_def split: option.splits)
  have l: "length f = 4" "length t = 4" using 1 to_bytes_length by blast+
  have v: "from_bytes f = nat (sp_frequency s)" "from_bytes t = nat (sp_timestamp s)"
    using 1(1,2) to_bytes_back [of 4 "nat (sp_frequency s)" f] to_bytes_back [of 4 "nat (sp_timestamp s)" t]
    by (simp_all add: to_bytes_Ok)
  have o: "read_fixed 1 (CHR 0x01 # x) = Some ([CHR 0x01], x)" for x by (simp add: read_fixed_def)
  have i: "read_fixed (Suc 0) (i8 n @ x) = Some (i8 n, x)" for n x by simp
  have f4: "read_fixed 4 (f @ x) = Some (f, x)" "read_fixed 4 (t @ x) = Some (t, x)" for x using l by simp_all
  show ?thesis
    using v 1(3) by (simp add: b read_spot_def enc_str_def o [simplified] i f4 on_wire_def)
qed

text \<open>C19: an encoded block of spots reads back.  Whatever spots are encoded one after the other,
  reading as many off the block gives them in order, each with its frequency and time unchanged,
  its SNR clamped to a byte and its texts and message cut at 255 bytes, and leaves what followed.\<close>

theorem spots_read_back:
  assumes "mapM_res encode_spot ss = Ok bs"
  shows "read_spots (length ss) (concat bs @ r) = Some (map on_wire ss, r)"
  using assms
proof (induction ss arbitrary: bs)
  case (Cons s ss)
  then obtain b bs' where "encode_spot s = Ok b" "mapM_res encode_spot ss = Ok bs'" "bs = b # bs'" by auto
  then show ?case using read_spot_encode [of s b] Cons.IH [of bs'] by simp
qed simp

subsection \<open>Chunks\<close>

lemma chunks_concat: "concat (chunks budget chunk held sps) = chunk @ sps"
  by (induction budget chunk held sps rule: chunks.induct) auto

lemma chunks_nonempty: "[] \<notin> set (chunks budget chunk held sps)"
  by (induction budget chunk held sps rule: chunks.induct) auto

lemma chunks_budget:
  "held = length (concat chunk) \<Longrightarrow> held \<le> budget \<Longrightarrow> \<forall>sp \<in> set sps. length sp \<le> budget
    \<Longrightarrow> c \<in> set (chunks budget chunk held sps) \<Longrightarrow> length (concat c) \<le> budget"
proof (induction budget chunk held sps rule: chunks.induct)
  case (2 budget chunk held sp sps)
  show ?case
  proof (cases "chunk \<noteq> [] \<and> budget < held + length sp")
    case True
    show ?thesis
    proof (cases "c = chunk")
      case False
      then have "c \<in> set (chunks budget [sp] (length sp) sps)" using True "2.prems"(4) by simp
      moreover have "length sp = length (concat [sp])" "length sp \<le> budget" "\<forall>x \<in> set sps. length x \<le> budget"
        using "2.prems"(3) by simp_all
      ultimately show ?thesis using "2.IH"(1) [OF True] by blast
    qed (use "2.prems"(1,2) in simp)
  next
    case False
    then have m: "c \<in> set (chunks budget (chunk @ [sp]) (held + length sp) sps)" using "2.prems"(4) by auto
    have "held + length sp = length (concat (chunk @ [sp]))" using "2.prems"(1) by simp
    moreover have "held + length sp \<le> budget" using False "2.prems"(1,3) by (cases "chunk = []") auto
    moreover have "\<forall>x \<in> set sps. length x \<le> budget" using "2.prems"(3) by simp
    ultimately show ?thesis using "2.IH"(2) [OF False] m by blast
  qed
qed (simp split: if_splits)

lemma length_pad: "0 < k \<Longrightarrow> length (pad b k) < length b + k"
  by (simp add: pad_def)

lemma build_packet_length:
  assumes "build_packet rx spots ts q sid = Ok p" "encode_receiver_info rx = Ok rx_info"
  shows "length p = chunk_overhead rx_info + length (pad (concat spots) 4)"
proof -
  define X where "X = pad (concat spots) 4"
  define R where "R = receiver_info_header @ sender_info_header"
  have sid: "length sid = 4" using assms(1) by (cases "length sid = 4") (simp_all add: build_packet_def)
  define body where "body n = R @ rx_info @ delim 0x94 @ n @ X" for n
  have e: "bind_res (to_bytes 2 (int (length X + 4))) (\<lambda>n. bind_res (to_bytes 2 (int (16 + length (body n)))) (\<lambda>total.
      bind_res (to_bytes 4 ts) (\<lambda>t. bind_res (to_bytes 4 q) (\<lambda>q'.
        Ok ([CHR 0x00, CHR 0x0A] @ total @ t @ q' @ sid @ body n))))) = Ok p"
    using assms sid unfolding build_packet_def X_def body_def R_def Let_def append_assoc
    by (simp only: if_False bind_res.simps not_True_eq_False simp_thms)
  then obtain n where n: "to_bytes 2 (int (length X + 4)) = Ok n"
    and e: "bind_res (to_bytes 2 (int (16 + length (body n)))) (\<lambda>total. bind_res (to_bytes 4 ts) (\<lambda>t. bind_res (to_bytes 4 q) (\<lambda>q'.
        Ok ([CHR 0x00, CHR 0x0A] @ total @ t @ q' @ sid @ body n)))) = Ok p"
    unfolding bind_res_Ok by blast
  then obtain total t q' where tot: "to_bytes 2 (int (16 + length (body n))) = Ok total"
    and tq: "to_bytes 4 ts = Ok t" "to_bytes 4 q = Ok q'" and p: "p = [CHR 0x00, CHR 0x0A] @ total @ t @ q' @ sid @ body n"
    unfolding bind_res_Ok by blast
  have l: "length n = 2" "length total = 2" "length t = 4" "length q' = 4" "length (delim 0x94) = 2"
    using n tot tq to_bytes_length by (blast, blast, blast, blast, simp add: delim_def)
  show ?thesis using l sid by (simp add: p body_def chunk_overhead_def R_def X_def)
qed

text \<open>C20: the chunks carry every spot once, in order, and keep the packets within the limit but for
  the padding.  When no spot alone is too long, the chunks are not empty, their concatenation is
  the list of spots, and every packet built of one has at most three bytes more than the limit.\<close>

theorem chunks_cover_and_fit:
  assumes "chunk_spots spots max_len rx = Ok cs" "encode_receiver_info rx = Ok rx_info"
    and "\<forall>sp \<in> set spots. length sp \<le> max_len - chunk_overhead rx_info"
  shows "concat cs = spots \<and> [] \<notin> set cs
    \<and> (\<forall>c \<in> set cs. \<forall>ts q sid p. build_packet rx c ts q sid = Ok p \<longrightarrow> length p \<le> max_len + 3)"
proof -
  define budget where "budget = max_len - chunk_overhead rx_info"
  have b: "chunk_overhead rx_info < max_len" and cs: "cs = chunks budget [] 0 spots"
    using assms(1,2) by (auto simp: chunk_spots_def budget_def split: if_splits)
  have "length p \<le> max_len + 3" if "c \<in> set cs" "build_packet rx c ts q sid = Ok p" for c ts q sid p
  proof -
    have "length (concat c) \<le> budget"
      using chunks_budget [of 0 "[]" budget spots c] assms(3) that(1) cs by (simp add: budget_def)
    then show ?thesis
      using build_packet_length [OF that(2) assms(2)] length_pad [of 4 "concat c"] b by (simp add: budget_def)
  qed
  then show ?thesis using chunks_concat [of budget "[]" 0 spots] chunks_nonempty [of budget "[]" 0 spots] cs by simp
qed

definition small_receiver :: receiver where
  "small_receiver = \<lparr>rx_callsign = [], rx_locator = [], rx_software = [], rx_antenna = []\<rparr>"

definition small_spot :: psk_spot where
  "small_spot = \<lparr>sp_callsign = ''K1A'', sp_frequency = 7, sp_snr = -10, sp_mode = ''FT8'', sp_locator = [],
     sp_timestamp = 9, sp_message = Some []\<rparr>"

lemma small_encodes: "length (the_ok (encode_spot small_spot)) = 20" "is_ok (encode_spot small_spot)"
    "length (the_ok (encode_receiver_info small_receiver)) = 8" "is_ok (encode_receiver_info small_receiver)"
  by code_simp+

theorem spots_read_back_witness:
  "read_spots 2 (the_ok (encode_spot small_spot) @ the_ok (encode_spot small_spot) @ ''rest'')
    = Some ([on_wire small_spot, on_wire small_spot], ''rest'')"
proof -
  obtain b where "encode_spot small_spot = Ok b" using small_encodes(2) by (cases "encode_spot small_spot") auto
  then show ?thesis using spots_read_back [of "[small_spot, small_spot]" "[b, b]" "''rest''"] by (simp add: numeral_2_eq_2)
qed

theorem chunks_cover_and_fit_witness:
  "concat (the_ok (chunk_spots [the_ok (encode_spot small_spot), the_ok (encode_spot small_spot)] 165 small_receiver))
    = [the_ok (encode_spot small_spot), the_ok (encode_spot small_spot)]"
proof -
  obtain rxi where r: "encode_receiver_info small_receiver = Ok rxi" "length rxi = 8"
    using small_encodes(3,4) by (cases "encode_receiver_info small_receiver") auto
  have o: "chunk_overhead rxi = 140" using r(2) by (simp add: chunk_overhead_def receiver_info_header_def sender_info_header_def template_field_def)
  then obtain cs where "chunk_spots [the_ok (encode_spot small_spot), the_ok (encode_spot small_spot)] 165 small_receiver = Ok cs"
    using r(1) by (auto simp: chunk_spots_def)
  from chunks_cover_and_fit [OF this r(1)] o small_encodes(1) this show ?thesis by simp
qed

text \<open>The padding is not in the budget.  A chunk may make a packet longer than the limit it was
  cut for: one spot of 21 bytes under a limit of 161 gives a packet of 164.\<close>

theorem packet_longer_than_the_limit:
  "let spot = the_ok (encode_spot (small_spot\<lparr>sp_callsign := ''K1AB''\<rparr>)) in
     chunk_spots [spot] 161 small_receiver = Ok [[spot]]
   \<and> length (the_ok (build_packet small_receiver [spot] 9 0 ''abcd'')) = 164"
proof -
  have "is_ok (encode_spot (small_spot\<lparr>sp_callsign := ''K1AB''\<rparr>))
      \<and> length (the_ok (encode_spot (small_spot\<lparr>sp_callsign := ''K1AB''\<rparr>))) = 21" by code_simp
  then obtain b where b: "encode_spot (small_spot\<lparr>sp_callsign := ''K1AB''\<rparr>) = Ok b" "length b = 21"
    by (cases "encode_spot (small_spot\<lparr>sp_callsign := ''K1AB''\<rparr>)") auto
  obtain rxi where r: "encode_receiver_info small_receiver = Ok rxi" "length rxi = 8"
    using small_encodes(3,4) by (cases "encode_receiver_info small_receiver") auto
  have h: "length receiver_info_header = 44" "length sender_info_header = 68"
    by (simp_all add: receiver_info_header_def sender_info_header_def template_field_def)
  have d: "length (pad b 4) = 24" using b(2) by (simp add: pad_def)
  have o: "chunk_overhead rxi = 140" using r(2) h by (simp add: chunk_overhead_def)
  have "is_ok (build_packet small_receiver [b] 9 0 ''abcd'')"
    using r h d by (simp add: build_packet_def Let_def to_bytes_def delim_def)
  then obtain p where p: "build_packet small_receiver [b] 9 0 ''abcd'' = Ok p"
    by (cases "build_packet small_receiver [b] 9 0 ''abcd''") auto
  show ?thesis
    using b r(1) o d p build_packet_length [OF p r(1)] by (simp add: chunk_spots_def)
qed

end
