(* ===== verification/PskReporter.thy ===== *)
theory PskReporter
  imports PskPayload
begin

text \<open>
  The PSKReporter transport, \<open>transports/pskreporter.py\<close>: records to spots, the connection with its
  session id and running sequence, sending in packets with reconnects, and the retry blob.

  The socket is a list of what its next calls do: \<open>None\<close> when the call returns, an error's text when
  it raises \<open>OSError\<close>; past the list every call returns.  The k-th \<open>urandom(4)\<close>, the clock and
  Python's \<open>str\<close> of a value that is no text are the world's.
\<close>

subsection \<open>A record to a spot\<close>

record identity =
  id_call :: string
  id_grid :: string

record psk_world =
  pw_str :: "pyval \<Rightarrow> string"
  pw_time :: int
  pw_urandom :: "nat \<Rightarrow> bytes"

record psk_conf =
  pc_software :: string
  pc_antenna :: string
  pc_attempts :: nat
  pc_max_len :: nat

text \<open>\<open>a or b\<close> on values.\<close>

definition py_or :: "pyval \<Rightarrow> pyval \<Rightarrow> pyval" where
  "py_or a b = (if py_truthy a then a else b)"

text \<open>\<open>int(v)\<close>: truncates a float; a text by \<open>int\<close>'s grammar.\<close>

definition trunc_rat :: "rat \<Rightarrow> int" where
  "trunc_rat r = (if 0 \<le> r then \<lfloor>r\<rfloor> else \<lceil>r\<rceil>)"

definition int_of_value :: "pyval \<Rightarrow> int res" where
  "int_of_value v = (case v of
     PBool b \<Rightarrow> Ok (if b then 1 else 0)
   | PInt i \<Rightarrow> Ok i
   | PFloat r \<Rightarrow> Ok (trunc_rat r)
   | PInf _ \<Rightarrow> Raise (Exn ''OverflowError'' ''cannot convert float infinity to integer'')
   | PNaN \<Rightarrow> Raise (Exn ''ValueError'' ''cannot convert float NaN to integer'')
   | PStr s \<Rightarrow> (case py_int s of Some i \<Rightarrow> Ok i | None \<Rightarrow> Raise (Exn ''ValueError'' ''invalid literal for int()''))
   | _ \<Rightarrow> Raise (Exn ''TypeError'' ''int() argument''))"

definition str_of_value :: "psk_world \<Rightarrow> pyval \<Rightarrow> string" where
  "str_of_value w v = (case v of PStr s \<Rightarrow> s | PInt i \<Rightarrow> str_of_int i | _ \<Rightarrow> pw_str w v)"

text \<open>\<open>str.upper()\<close> on the code points up to 255 whose capital is among them; the sharp s has two.\<close>

definition py_upper :: "string \<Rightarrow> string" where
  "py_upper s = concat (map (\<lambda>c. let k = (of_char c :: nat) in
     if (97 \<le> k \<and> k \<le> 122) \<or> (224 \<le> k \<and> k \<le> 254 \<and> k \<noteq> 247) then [char_of (k - 32)]
     else if k = 223 then ''SS'' else [c]) s)"

definition mode_map :: "(string \<times> string) list" where
  "mode_map = [(''ft8'', ''FT8''), (''ft4'', ''FT4''), (''msk144'', ''MSK144''), (''fst4'', ''FST4'')]"

definition mode_for_pskr :: "pyval \<Rightarrow> string res" where
  "mode_for_pskr v = (case v of
     PStr m \<Rightarrow> Ok (case map_of mode_map (py_lower m) of Some u \<Rightarrow> u | None \<Rightarrow> py_upper m)
   | _ \<Rightarrow> Raise (Exn ''AttributeError'' ''object has no attribute lower''))"

text \<open>\<open>bytes.fromhex\<close>: pairs of hex digits, white space between pairs.\<close>

definition hex_digit :: "char \<Rightarrow> nat option" where
  "hex_digit c = (let k = (of_char c :: nat) in
     if 48 \<le> k \<and> k \<le> 57 then Some (k - 48) else if 97 \<le> k \<and> k \<le> 102 then Some (k - 87)
     else if 65 \<le> k \<and> k \<le> 70 then Some (k - 55) else None)"

definition ascii_space :: "char \<Rightarrow> bool" where
  "ascii_space c \<longleftrightarrow> (let k = (of_char c :: nat) in k = 32 \<or> (9 \<le> k \<and> k \<le> 13))"

fun from_hex :: "string \<Rightarrow> bytes option" where
  "from_hex [] = Some []"
| "from_hex (c # cs) = (if ascii_space c then from_hex cs
     else (case cs of [] \<Rightarrow> None
       | d # ds \<Rightarrow> (case (hex_digit c, hex_digit d) of
           (Some a, Some b) \<Rightarrow> map_option (Cons (char_of (16 * a + b))) (from_hex ds)
         | _ \<Rightarrow> None)))"

definition message_of :: "pyval \<Rightarrow> bytes option" where
  "message_of v = (if \<not> py_truthy v then Some []
     else (case v of PStr s \<Rightarrow> Some (case from_hex s of Some b \<Rightarrow> b | None \<Rightarrow> []) | _ \<Rightarrow> None))"

text \<open>\<open>int(snr)\<close> under its \<open>try\<close>: only \<open>TypeError\<close> and \<open>ValueError\<close> give the default.\<close>

definition snr_of :: "pyval \<Rightarrow> int res" where
  "snr_of v = (if v = PNone then Ok (-128) else (case int_of_value v of
     Ok i \<Rightarrow> Ok i
   | Raise e \<Rightarrow> if exn_type e \<in> {''TypeError'', ''ValueError''} then Ok (-128) else Raise e))"

text \<open>\<open>int(record.time.timestamp())\<close>.\<close>

definition epoch_second :: "int \<Rightarrow> int" where
  "epoch_second us = (if 0 \<le> us then us div 1000000 else - ((- us) div 1000000))"

definition dict_default :: "pydict \<Rightarrow> string \<Rightarrow> pyval \<Rightarrow> pyval" where
  "dict_default d k dflt = (case map_of d k of Some v \<Rightarrow> v | None \<Rightarrow> dflt)"

definition record_to_spot :: "psk_world \<Rightarrow> urecord \<Rightarrow> psk_spot option res" where
  "record_to_spot w r = (let cols = rec_columns r;
     call = py_or (py_or (py_get cols ''tx_call'') (py_get cols ''callsign'')) (PStr []);
     freq = py_or (py_or (py_get cols ''frequency'') (py_get cols ''frequency_hz'')) (PInt 0)
   in if \<not> py_truthy call \<or> \<not> py_truthy freq then Ok None
   else bind_res (snr_of (if py_get cols ''snr_db'' \<noteq> PNone then py_get cols ''snr_db''
        else dict_default cols ''score'' (PInt (-128)))) (\<lambda>snr.
     bind_res (mode_for_pskr (py_or (py_get cols ''mode'') (PStr ''FT8''))) (\<lambda>mode.
     bind_res (int_of_value freq) (\<lambda>hz. Ok (Some
       \<lparr>sp_callsign = str_of_value w call, sp_frequency = hz, sp_snr = snr, sp_mode = mode,
        sp_locator = str_of_value w (py_or (py_or (py_get cols ''grid'') (py_get cols ''locator'')) (PStr [])),
        sp_timestamp = epoch_second (rec_time r),
        sp_message = message_of (py_get cols ''message_bytes'')\<rparr>)))))"

definition batch_spots :: "psk_world \<Rightarrow> batch \<Rightarrow> psk_spot list res" where
  "batch_spots w b = map_res (List.map_filter (\<lambda>x. x)) (mapM_res (record_to_spot w) (bt_records b))"

definition receiver_info :: "psk_conf \<Rightarrow> identity \<Rightarrow> receiver" where
  "receiver_info c i = \<lparr>rx_callsign = id_call i, rx_locator = id_grid i, rx_software = pc_software c,
     rx_antenna = pc_antenna c\<rparr>"

subsection \<open>The connection\<close>

record psk_state =
  ps_conn :: "(bytes \<times> int) option"
  ps_sessions :: nat
  ps_faults :: "string option list"
  ps_wire :: "bytes list"

definition socket_call :: "psk_state \<Rightarrow> psk_state \<times> string option" where
  "socket_call s = (case ps_faults s of [] \<Rightarrow> (s, None) | f # fs \<Rightarrow> (s\<lparr>ps_faults := fs\<rparr>, f))"

definition connect_if_needed :: "psk_world \<Rightarrow> psk_state \<Rightarrow> psk_state \<times> string option" where
  "connect_if_needed w s = (case ps_conn s of Some _ \<Rightarrow> (s, None)
   | None \<Rightarrow> (case socket_call s of (s1, Some e) \<Rightarrow> (s1, Some e)
     | (s1, None) \<Rightarrow> (s1\<lparr>ps_conn := Some (pw_urandom w (ps_sessions s1), 0), ps_sessions := ps_sessions s1 + 1\<rparr>, None)))"

definition close_conn :: "psk_state \<Rightarrow> psk_state" where "close_conn s = s\<lparr>ps_conn := None\<rparr>"

definition attempt_failed :: "nat \<Rightarrow> string \<Rightarrow> string" where
  "attempt_failed n e = ''send attempt '' @ str_of_nat n @ '' failed: '' @ e"

text \<open>\<open>_send_one_packet_locked\<close>: \<open>left\<close> attempts remain, \<open>n\<close> were made.  Only socket errors are
  caught; an encoder that raises leaves the method.\<close>

fun send_packet :: "psk_world \<Rightarrow> bytes list \<Rightarrow> receiver \<Rightarrow> nat \<Rightarrow> nat \<Rightarrow> string \<Rightarrow> psk_state
    \<Rightarrow> psk_state \<times> (bool \<times> string) res" where
  "send_packet w chunk rx 0 n err s = (s, Ok (False, err))"
| "send_packet w chunk rx (Suc left) n err s = (case connect_if_needed w s of
     (s1, Some e) \<Rightarrow> send_packet w chunk rx left (n + 1) (attempt_failed (n + 1) e) (close_conn s1)
   | (s1, None) \<Rightarrow> (case ps_conn s1 of None \<Rightarrow> (s1, Raise (Exn ''AssertionError'' []))
     | Some (sid, q) \<Rightarrow> (case build_packet rx chunk (pw_time w) q sid of
         Raise e \<Rightarrow> (s1, Raise e)
       | Ok packet \<Rightarrow> (case socket_call s1 of
           (s2, Some e) \<Rightarrow> send_packet w chunk rx left (n + 1) (attempt_failed (n + 1) e) (close_conn s2)
         | (s2, None) \<Rightarrow> (s2\<lparr>ps_conn := Some (sid, q + int (length chunk)), ps_wire := ps_wire s2 @ [packet]\<rparr>,
             Ok (True, []))))))"

fun send_chunks :: "psk_world \<Rightarrow> psk_conf \<Rightarrow> receiver \<Rightarrow> bytes list list \<Rightarrow> psk_state \<Rightarrow> psk_state \<times> outcome res" where
  "send_chunks w c rx [] s = (s, Ok acked)"
| "send_chunks w c rx (chunk # cs) s =
     (case send_packet w chunk rx (pc_attempts c) 0 ''no attempts made'' s of
        (s1, Raise e) \<Rightarrow> (s1, Raise e)
      | (s1, Ok (True, _)) \<Rightarrow> send_chunks w c rx cs s1
      | (s1, Ok (False, err)) \<Rightarrow> (s1, Ok (retry_later err)))"

definition send_encoded :: "psk_world \<Rightarrow> psk_conf \<Rightarrow> receiver \<Rightarrow> bytes list \<Rightarrow> psk_state \<Rightarrow> psk_state \<times> outcome res" where
  "send_encoded w c rx encoded s = (case chunk_spots encoded (pc_max_len c) rx of
     Raise e \<Rightarrow> (s, Raise e) | Ok cs \<Rightarrow> send_chunks w c rx cs s)"

subsection \<open>The transport's operations\<close>

definition psk_batch_policy :: batch_policy where
  "psk_batch_policy = default_batch_policy\<lparr>bp_max_records := 500\<rparr>"

definition psk_ship :: "psk_world \<Rightarrow> psk_conf \<Rightarrow> identity \<Rightarrow> batch \<Rightarrow> psk_state \<Rightarrow> psk_state \<times> outcome res" where
  "psk_ship w c i b s = (case batch_spots w b of Raise e \<Rightarrow> (s, Raise e)
   | Ok [] \<Rightarrow> (s, Ok acked)
   | Ok (x # xs) \<Rightarrow> (case mapM_res encode_spot (x # xs) of Raise e \<Rightarrow> (s, Raise e)
     | Ok encoded \<Rightarrow> send_encoded w c (receiver_info c i) encoded s))"

text \<open>A text or blob under its 16-bit length.\<close>

definition sized :: "bytes \<Rightarrow> bytes res" where
  "sized b = map_res (\<lambda>n. n @ b) (to_bytes 2 (int (length b)))"

definition receiver_blob :: "receiver \<Rightarrow> bytes res" where
  "receiver_blob rx = map_res concat (mapM_res (\<lambda>s. sized (utf8 s))
     [rx_callsign rx, rx_locator rx, rx_software rx, rx_antenna rx])"

definition serialize_for_retry :: "psk_world \<Rightarrow> psk_conf \<Rightarrow> identity \<Rightarrow> batch \<Rightarrow> bytes res" where
  "serialize_for_retry w c i b = bind_res (receiver_blob (receiver_info c i)) (\<lambda>rx.
     bind_res (batch_spots w b) (\<lambda>spots. bind_res (mapM_res encode_spot spots) (\<lambda>encoded.
     bind_res (sized rx) (\<lambda>head. bind_res (to_bytes 4 (int (length encoded))) (\<lambda>n.
     map_res (\<lambda>blobs. head @ n @ concat blobs) (mapM_res sized encoded))))))"

text \<open>Reading the blob back: a slice past the end is short, and reads as 0.\<close>

fun take_blobs :: "nat \<Rightarrow> bytes \<Rightarrow> bytes list" where
  "take_blobs 0 b = []"
| "take_blobs (Suc n) b = (let k = from_bytes (take 2 b) in take k (drop 2 b) # take_blobs n (drop k (drop 2 b)))"

fun take_fields :: "nat \<Rightarrow> bytes \<Rightarrow> string list res" where
  "take_fields 0 b = Ok []"
| "take_fields (Suc n) b = (if b = [] then Ok []
     else (let k = from_bytes (take 2 b) in
       bind_res (utf8_decode (take k (drop 2 b))) (\<lambda>f. map_res (Cons f) (take_fields n (drop k (drop 2 b))))))"

definition decode_receiver_blob :: "bytes \<Rightarrow> receiver res" where
  "decode_receiver_blob b = map_res (\<lambda>fs0. let fs = fs0 @ replicate (4 - length fs0) [] in
     \<lparr>rx_callsign = fs ! 0, rx_locator = fs ! 1, rx_software = fs ! 2, rx_antenna = fs ! 3\<rparr>) (take_fields 4 b)"

definition decode_retry_blob :: "bytes \<Rightarrow> (receiver \<times> bytes list) res" where
  "decode_retry_blob b = (let k = from_bytes (take 2 b); rest = drop k (drop 2 b) in
     map_res (\<lambda>rx. (rx, take_blobs (from_bytes (take 4 rest)) (drop 4 rest)))
       (decode_receiver_blob (take k (drop 2 b))))"

definition psk_replay :: "psk_world \<Rightarrow> psk_conf \<Rightarrow> bytes \<Rightarrow> psk_state \<Rightarrow> psk_state \<times> outcome res" where
  "psk_replay w c payload s = (case decode_retry_blob payload of
     Raise e \<Rightarrow> (s, Ok (permanent_failure (''could not decode retry blob: '' @ exn_text e)))
   | Ok (rx, []) \<Rightarrow> (s, Ok acked)
   | Ok (rx, x # xs) \<Rightarrow> send_encoded w c rx (x # xs) s)"

subsection \<open>The retry blob reads back\<close>

lemma sized_parts:
  assumes "sized b = Ok x"
  obtains n where "x = n @ b" "length n = 2" "from_bytes n = length b"
  using assms to_bytes_length to_bytes_back by (auto simp: sized_def)

lemma read_sized:
  "length n = 2 \<Longrightarrow> take 2 (n @ r) = n" "length n = 2 \<Longrightarrow> drop 2 (n @ r) = r"
  by simp_all

lemma take_blobs_sized:
  "mapM_res sized bs = Ok xs \<Longrightarrow> take_blobs (length bs) (concat xs @ r) = bs"
proof (induction bs arbitrary: xs)
  case (Cons b bs)
  then obtain x xs' where x: "sized b = Ok x" "mapM_res sized bs = Ok xs'" "xs = x # xs'" by auto
  obtain n where n: "x = n @ b" "length n = 2" "from_bytes n = length b" by (rule sized_parts [OF x(1)])
  have "concat xs @ r = n @ b @ concat xs' @ r" by (simp add: x(3) n(1))
  then show ?case using Cons.IH [OF x(2)] n(3) by (simp only: length_Cons take_blobs.simps read_sized [OF n(2)]) simp
qed simp

lemma take_fields_sized:
  "mapM_res (\<lambda>s. sized (utf8 s)) ts = Ok xs \<Longrightarrow> take_fields (length ts) (concat xs) = Ok ts"
proof (induction ts arbitrary: xs)
  case (Cons t ts)
  then obtain x xs' where x: "sized (utf8 t) = Ok x" "mapM_res (\<lambda>s. sized (utf8 s)) ts = Ok xs'" "xs = x # xs'" by auto
  obtain n where n: "x = n @ utf8 t" "length n = 2" "from_bytes n = length (utf8 t)" by (rule sized_parts [OF x(1)])
  have "concat xs = n @ utf8 t @ concat xs'" "n @ utf8 t @ concat xs' \<noteq> []" using n(2) by (auto simp: x(3) n(1))
  then show ?case using Cons.IH [OF x(2)] n(3)
    by (simp only: length_Cons take_fields.simps read_sized [OF n(2)] if_False) (simp add: Let_def)
qed simp

lemma decode_receiver: "receiver_blob rx = Ok b \<Longrightarrow> decode_receiver_blob b = Ok rx"
proof -
  assume "receiver_blob rx = Ok b"
  then obtain xs where "mapM_res (\<lambda>s. sized (utf8 s)) [rx_callsign rx, rx_locator rx, rx_software rx, rx_antenna rx] = Ok xs"
    "b = concat xs" by (auto simp only: receiver_blob_def map_res_Ok)
  from take_fields_sized [OF this(1)] this(2)
  have "take_fields 4 b = Ok [rx_callsign rx, rx_locator rx, rx_software rx, rx_antenna rx]" by (simp add: numeral_nat)
  then show ?thesis by (simp add: decode_receiver_blob_def)
qed

lemma serialize_decodes:
  assumes "serialize_for_retry w c i b = Ok blob"
  obtains spots encoded where "batch_spots w b = Ok spots" "mapM_res encode_spot spots = Ok encoded"
    "decode_retry_blob blob = Ok (receiver_info c i, encoded)"
proof -
  obtain rx spots encoded head n blobs where 1: "receiver_blob (receiver_info c i) = Ok rx" "batch_spots w b = Ok spots"
    "mapM_res encode_spot spots = Ok encoded" "sized rx = Ok head" "to_bytes 4 (int (length encoded)) = Ok n"
    "mapM_res sized encoded = Ok blobs" "blob = head @ n @ concat blobs"
    using assms unfolding serialize_for_retry_def bind_res_Ok map_res_Ok by blast
  obtain m where m: "head = m @ rx" "length m = 2" "from_bytes m = length rx" by (rule sized_parts [OF 1(4)])
  have l: "length n = 4" "from_bytes n = length encoded" using 1(5) to_bytes_length to_bytes_back by blast+
  have "take_blobs (length encoded) (concat blobs) = encoded" using take_blobs_sized [OF 1(6), of "[]"] by simp
  then have "decode_retry_blob blob = Ok (receiver_info c i, encoded)"
    using decode_receiver [OF 1(1)] m l by (simp add: decode_retry_blob_def 1(7) Let_def)
  then show ?thesis using that 1(2,3) by blast
qed

text \<open>C17: a replay sends what the ship would send.  When a batch can be put away, replaying the blob
  does to the connection exactly what shipping the batch does, packet for packet, and answers the
  same; neither the receiver nor a spot is changed on the way.\<close>

theorem replay_sends_what_ship_sends:
  assumes "serialize_for_retry w c i b = Ok blob"
  shows "psk_replay w c blob s = psk_ship w c i b s"
proof -
  obtain spots encoded where 1: "batch_spots w b = Ok spots" "mapM_res encode_spot spots = Ok encoded"
    "decode_retry_blob blob = Ok (receiver_info c i, encoded)"
    by (rule serialize_decodes [OF assms])
  have l: "length encoded = length spots" using 1(2) by (rule mapM_res_length)
  show ?thesis
    using 1 l by (cases spots; cases encoded) (auto simp: psk_replay_def psk_ship_def)
qed

subsection \<open>What reaches the socket\<close>

text \<open>A packet of a chunk, whatever session and sequence it went under.\<close>

definition packet_of :: "psk_world \<Rightarrow> receiver \<Rightarrow> bytes list \<Rightarrow> bytes \<Rightarrow> bool" where
  "packet_of w rx chunk p \<longleftrightarrow> (\<exists>q sid. build_packet rx chunk (pw_time w) q sid = Ok p)"

lemma socket_call_frames [simp]:
  "ps_wire (fst (socket_call s)) = ps_wire s" "ps_conn (fst (socket_call s)) = ps_conn s"
  by (simp_all add: socket_call_def split: list.split)

lemma close_wire [simp]: "ps_wire (close_conn s) = ps_wire s" by (simp add: close_conn_def)

lemma connect_wire [simp]: "ps_wire (fst (connect_if_needed w s)) = ps_wire s"
proof -
  obtain s1 f where c: "socket_call s = (s1, f)" by fastforce
  have "ps_wire s1 = ps_wire s" using socket_call_frames(1) [of s] c by simp
  then show ?thesis using c by (cases f) (simp_all add: connect_if_needed_def split: option.split)
qed

lemma send_packet_wire:
  "send_packet w chunk rx left n err s = (s', r)
    \<Longrightarrow> (case r of Ok (True, _) \<Rightarrow> \<exists>p. ps_wire s' = ps_wire s @ [p] \<and> packet_of w rx chunk p | _ \<Rightarrow> ps_wire s' = ps_wire s)"
proof (induction w chunk rx left n err s rule: send_packet.induct)
  case (2 w chunk rx left n err s)
  obtain s1 f where c: "connect_if_needed w s = (s1, f)" by fastforce
  have w1: "ps_wire s1 = ps_wire s" using connect_wire [of w s] c by simp
  show ?case
  proof (cases f)
    case (Some e)
    then have "send_packet w chunk rx left (n + 1) (attempt_failed (n + 1) e) (close_conn s1) = (s', r)"
      using "2.prems" c by simp
    from "2.IH"(2) [OF c [unfolded Some, symmetric] refl this]
    show ?thesis unfolding close_wire w1 .
  next
    case None
    show ?thesis
    proof (cases "ps_conn s1")
      case None
      then show ?thesis using "2.prems" c \<open>f = None\<close> w1 by auto
    next
      case (Some sq)
      obtain sid q where sq: "sq = (sid, q)" by fastforce
      show ?thesis
      proof (cases "build_packet rx chunk (pw_time w) q sid")
        case (Raise e)
        then show ?thesis using "2.prems" c \<open>f = None\<close> Some sq w1 by auto
      next
        case (Ok p)
        obtain s2 g where c2: "socket_call s1 = (s2, g)" by fastforce
        have w2: "ps_wire s2 = ps_wire s1" using socket_call_frames(1) [of s1] c2 by simp
        show ?thesis
        proof (cases g)
          case None
          then have "r = Ok (True, [])" "ps_wire s' = ps_wire s @ [p]"
            using "2.prems" c \<open>f = None\<close> Some sq Ok c2 w1 w2 by auto
          moreover have "packet_of w rx chunk p" unfolding packet_of_def using Ok by blast
          ultimately show ?thesis by auto
        next
          case (Some e)
          then have "send_packet w chunk rx left (n + 1) (attempt_failed (n + 1) e) (close_conn s2) = (s', r)"
            using "2.prems" c \<open>f = None\<close> \<open>ps_conn s1 = Some sq\<close> sq Ok c2 by simp
          from "2.IH"(1) [OF c [unfolded \<open>f = None\<close>, symmetric] refl \<open>ps_conn s1 = Some sq\<close> sq [symmetric] Ok c2 [unfolded Some, symmetric] refl this]
          show ?thesis unfolding close_wire w1 w2 .
        qed
      qed
    qed
  qed
qed auto

lemma send_chunks_wire:
  "send_chunks w c rx cs s = (s', Ok oc) \<Longrightarrow> \<exists>k ps. ps_wire s' = ps_wire s @ ps \<and> k \<le> length cs
     \<and> list_all2 (packet_of w rx) (take k cs) ps \<and> (succeeded oc \<longleftrightarrow> k = length cs)
     \<and> (oc = acked \<or> (\<exists>err. oc = retry_later err))"
proof (induction cs arbitrary: s)
  case (Cons chunk cs)
  obtain s1 r where p: "send_packet w chunk rx (pc_attempts c) 0 ''no attempts made'' s = (s1, r)" by fastforce
  note wire = send_packet_wire [OF p]
  show ?case
  proof (cases r)
    case (Ok be)
    obtain ok err where be: "be = (ok, err)" by fastforce
    show ?thesis
    proof (cases ok)
      case True
      then obtain pk where pk: "ps_wire s1 = ps_wire s @ [pk]" "packet_of w rx chunk pk" using wire Ok be by auto
      have "send_chunks w c rx cs s1 = (s', Ok oc)" using Cons.prems p Ok be True by simp
      from Cons.IH [OF this] obtain k ps where k: "ps_wire s' = ps_wire s1 @ ps" "k \<le> length cs"
        "list_all2 (packet_of w rx) (take k cs) ps" "succeeded oc \<longleftrightarrow> k = length cs"
        "oc = acked \<or> (\<exists>err. oc = retry_later err)" by blast
      then show ?thesis using pk by (intro exI [of _ "Suc k"] exI [of _ "pk # ps"]) auto
    next
      case False
      then show ?thesis using Cons.prems p Ok be wire by (intro exI [of _ 0]) auto
    qed
  qed (use Cons.prems p in auto)
qed simp

text \<open>C18: acknowledged means sent.  An answer of the transport is \<open>acked\<close> or \<open>retry_later\<close>; the
  packets it handed to the socket, over however many connections, are those of the first chunks of
  the spots, in order and each once; and they are all of the chunks exactly when it answers \<open>acked\<close>.\<close>

theorem acked_means_every_packet_sent:
  assumes "psk_ship w c i b s = (s', Ok oc)" "batch_spots w b = Ok spots" "spots \<noteq> []" "mapM_res encode_spot spots = Ok encoded"
  shows "\<exists>cs k ps. concat cs = encoded \<and> k \<le> length cs \<and> ps_wire s' = ps_wire s @ ps
    \<and> list_all2 (packet_of w (receiver_info c i)) (take k cs) ps \<and> (succeeded oc \<longleftrightarrow> k = length cs)
    \<and> (oc = acked \<or> (\<exists>err. oc = retry_later err))"
proof -
  have s: "send_encoded w c (receiver_info c i) encoded s = (s', Ok oc)"
    using assms by (cases spots) (auto simp: psk_ship_def)
  then obtain cs where cs: "chunk_spots encoded (pc_max_len c) (receiver_info c i) = Ok cs"
    "send_chunks w c (receiver_info c i) cs s = (s', Ok oc)"
    by (auto simp: send_encoded_def split: res.splits)
  have "concat cs = encoded"
    using cs(1) chunks_concat [of _ "[]" 0 encoded] by (auto simp: chunk_spots_def split: if_splits)
  then show ?thesis using send_chunks_wire [OF cs(2)] by blast
qed

lemma record_frequency:
  assumes "record_to_spot w r = Ok out" "py_get (rec_columns r) ''tx_call'' = PStr (x # xs)"
    and "py_get (rec_columns r) ''frequency'' = PInt f" "f \<noteq> 0"
  shows "\<exists>sp. out = Some sp \<and> sp_frequency sp = f"
  using assms by (auto simp: record_to_spot_def py_or_def int_of_value_def Let_def)

text \<open>One frequency past 32 bits stops a batch.  A row that has a call and whose frequency is
  negative or does not fit makes both the ship and the put-away raise, whatever the other rows
  are, although a row out of specification is meant to be passed over.\<close>

theorem frequency_out_of_range_raises:
  assumes "r \<in> set (bt_records b)" "py_get (rec_columns r) ''tx_call'' = PStr (x # xs)"
    and "py_get (rec_columns r) ''frequency'' = PInt f" "f < 0 \<or> 2 ^ 32 \<le> f"
  shows "(\<exists>e. psk_ship w c i b s = (s, Raise e)) \<and> (\<exists>e. serialize_for_retry w c i b = Raise e)"
proof -
  have f0: "f \<noteq> 0" using assms(4) by auto
  have no: "\<nexists>encoded. mapM_res encode_spot spots = Ok encoded" if b: "batch_spots w b = Ok spots" for spots
  proof
    assume "\<exists>encoded. mapM_res encode_spot spots = Ok encoded"
    then obtain encoded where e: "mapM_res encode_spot spots = Ok encoded" by blast
    obtain os where os: "mapM_res (record_to_spot w) (bt_records b) = Ok os" "spots = List.map_filter (\<lambda>x. x) os"
      using b by (auto simp: batch_spots_def)
    obtain j where j: "j < length (bt_records b)" "bt_records b ! j = r" using assms(1) by (auto simp: in_set_conv_nth)
    have "record_to_spot w r = Ok (os ! j)" using mapM_res_nth [OF os(1) j(1)] j(2) by simp
    then obtain sp where sp: "os ! j = Some sp" "sp_frequency sp = f"
      using record_frequency [OF _ assms(2,3) f0] by blast
    have "os ! j \<in> set os" using j(1) mapM_res_length [OF os(1)] by simp
    then have "sp \<in> set spots" using sp(1) os(2) by (force simp: List.map_filter_def)
    then obtain m where m: "m < length spots" "spots ! m = sp" by (auto simp: in_set_conv_nth)
    have "encode_spot sp = Ok (encoded ! m)" using mapM_res_nth [OF e m(1)] m(2) by simp
    then show False using sp(2) assms(4) by (auto simp: encode_spot_def to_bytes_def)
  qed
  have "\<exists>e. serialize_for_retry w c i b = Raise e"
  proof (cases "serialize_for_retry w c i b")
    case (Ok blob)
    then show ?thesis using no by (metis serialize_decodes)
  qed simp
  moreover have "\<exists>e. psk_ship w c i b s = (s, Raise e)"
  proof (cases "batch_spots w b")
    case (Ok spots)
    have "spots \<noteq> []" using no [OF Ok] by auto
    then obtain y ys where "spots = y # ys" by (cases spots) auto
    moreover obtain e where "mapM_res encode_spot spots = Raise e" using no [OF Ok] by (cases "mapM_res encode_spot spots") auto
    ultimately show ?thesis using Ok by (simp add: psk_ship_def del: mapM_res.simps)
  qed (simp add: psk_ship_def)
  ultimately show ?thesis by blast
qed

subsection \<open>Concrete runs\<close>

definition small_psk_world :: psk_world where
  "small_psk_world = \<lparr>pw_str = (\<lambda>v. []), pw_time = 9, pw_urandom = (\<lambda>n. ''abcd'')\<rparr>"

definition small_psk_conf :: psk_conf where
  "small_psk_conf = \<lparr>pc_software = [], pc_antenna = [], pc_attempts = 2, pc_max_len = 165\<rparr>"

definition small_identity :: identity where "small_identity = \<lparr>id_call = [], id_grid = []\<rparr>"

definition small_psk_record :: "int \<Rightarrow> urecord" where
  "small_psk_record f = \<lparr>rec_table = ''psk.spots'', rec_time = 9000000,
     rec_columns = [(''tx_call'', PStr ''K1A''), (''frequency'', PInt f), (''score'', PInt (-10))],
     rec_dedup_key = None, rec_payload_path = None\<rparr>"

definition small_psk_batch :: "int \<Rightarrow> batch" where
  "small_psk_batch f = \<lparr>bt_records = [small_psk_record f], bt_cursor_after = ''1'', bt_commit_token = ''1''\<rparr>"

text \<open>A socket whose first connect is refused.\<close>

definition refused_once :: psk_state where
  "refused_once = \<lparr>ps_conn = None, ps_sessions = 0, ps_faults = [Some ''refused''], ps_wire = []\<rparr>"

lemma small_batch_spots: "batch_spots small_psk_world (small_psk_batch 7) = Ok [small_spot]"
  by code_simp

theorem replay_sends_what_ship_sends_witness:
  "psk_replay small_psk_world small_psk_conf (the_ok (serialize_for_retry small_psk_world small_psk_conf small_identity (small_psk_batch 7))) refused_once
    = psk_ship small_psk_world small_psk_conf small_identity (small_psk_batch 7) refused_once"
proof -
  have "is_ok (serialize_for_retry small_psk_world small_psk_conf small_identity (small_psk_batch 7))" by code_simp
  then obtain blob where "serialize_for_retry small_psk_world small_psk_conf small_identity (small_psk_batch 7) = Ok blob"
    by (cases "serialize_for_retry small_psk_world small_psk_conf small_identity (small_psk_batch 7)") auto
  then show ?thesis by (simp add: replay_sends_what_ship_sends)
qed

theorem frequency_out_of_range_raises_witness:
  "\<exists>e. psk_ship small_psk_world small_psk_conf small_identity (small_psk_batch (- 1)) refused_once = (refused_once, Raise e)"
proof -
  have "small_psk_record (- 1) \<in> set (bt_records (small_psk_batch (- 1)))" by (simp add: small_psk_batch_def)
  moreover have "py_get (rec_columns (small_psk_record (- 1))) ''tx_call'' = PStr (CHR ''K'' # ''1A'')"
    "py_get (rec_columns (small_psk_record (- 1))) ''frequency'' = PInt (- 1)"
    by (simp_all add: small_psk_record_def py_get_def)
  ultimately show ?thesis using frequency_out_of_range_raises [of _ "small_psk_batch (- 1)" "CHR ''K''" "''1A''" "- 1"] by simp
qed

theorem acked_means_every_packet_sent_witness:
  "\<exists>s' p. psk_ship small_psk_world small_psk_conf small_identity (small_psk_batch 7) refused_once = (s', Ok acked)
    \<and> ps_wire s' = [p] \<and> packet_of small_psk_world small_receiver [the_ok (encode_spot small_spot)] p"
proof -
  have rx: "receiver_info small_psk_conf small_identity = small_receiver" by code_simp
  obtain b where b: "encode_spot small_spot = Ok b" "length b = 20"
    using small_encodes(1,2) by (cases "encode_spot small_spot") auto
  obtain rxi where r: "encode_receiver_info small_receiver = Ok rxi" "length rxi = 8"
    using small_encodes(3,4) by (cases "encode_receiver_info small_receiver") auto
  have h: "length receiver_info_header = 44" "length sender_info_header = 68"
    by (simp_all add: receiver_info_header_def sender_info_header_def template_field_def)
  have "is_ok (build_packet small_receiver [b] 9 0 ''abcd'')"
    using r h b(2) by (simp add: build_packet_def Let_def to_bytes_def delim_def pad_def)
  then obtain p where p: "build_packet small_receiver [b] 9 0 ''abcd'' = Ok p"
    by (cases "build_packet small_receiver [b] 9 0 ''abcd''") auto
  have c: "chunk_spots [b] 165 small_receiver = Ok [[b]]" using r h by (simp add: chunk_spots_def chunk_overhead_def)
  obtain s' where s': "psk_ship small_psk_world small_psk_conf small_identity (small_psk_batch 7) refused_once = (s', Ok acked)"
    "s' = \<lparr>ps_conn = Some (''abcd'', 1), ps_sessions = 1, ps_faults = [], ps_wire = [p]\<rparr>"
    using b(1) c p rx small_batch_spots
    by (simp add: psk_ship_def send_encoded_def small_psk_conf_def numeral_2_eq_2 connect_if_needed_def socket_call_def
        refused_once_def small_psk_world_def close_conn_def)
  have "batch_spots small_psk_world (small_psk_batch 7) = Ok [small_spot]" "[small_spot] \<noteq> []" "mapM_res encode_spot [small_spot] = Ok [b]"
    using b(1) small_batch_spots by simp_all
  from acked_means_every_packet_sent [OF s'(1) this] obtain cs k ps where k: "concat cs = [b]" "k = length cs" "ps_wire s' = ps_wire refused_once @ ps"
    "list_all2 (packet_of small_psk_world (receiver_info small_psk_conf small_identity)) cs ps"
    by auto
  have "ps = [p]" using k(3) s'(2) by (simp add: refused_once_def)
  with k(4) obtain ch where "cs = [ch]" "packet_of small_psk_world small_receiver ch p"
    by (auto simp: list_all2_Cons2 rx)
  moreover have "ch = [b]" using k(1) calculation by simp
  ultimately show ?thesis using s' b(1) by simp
qed

end
