(* ===== verification/WsprNet.thy ===== *)
theory WsprNet
  imports PskReporter
begin

text \<open>
  The wsprnet.org transport, \<open>transports/wsprnet.py\<close>: one record to one MEPT line, the duplicates of
  several receivers, the multipart body, and the two ways to post it.

  A finite float is the rational it denotes.  Parameters: the nearest double of a quotient or product,
  \<open>float\<close> of a text, \<open>str\<close> of a value that is no text and no integer, \<open>json.loads\<close>, the network's
  answers and how long they take.  Record times are in UTC; negative zero is zero.
\<close>

text \<open>
  What \<open>urlopen\<close> does: a response and its decoded body, an \<open>HTTPError\<close> and the body read from it (empty
  when reading fails), a \<open>URLError\<close>, \<open>TimeoutError\<close> or \<open>OSError\<close> by its text, or anything else, with a
  subclass of \<open>ValueError\<close> under that name.
\<close>

datatype reply = Response int string | HttpFailure int string | NetFailure string | Surprise exn

text \<open>\<open>nw_answer\<close> and \<open>nw_takes\<close> (microseconds) go by the number of requests made before; \<open>nw_valid\<close> is
  whether \<open>Request\<close> accepts a URL.\<close>

record net_world =
  nw_round :: "rat \<Rightarrow> rat"
  nw_float :: "string \<Rightarrow> pyval option"
  nw_str :: "pyval \<Rightarrow> string"
  nw_json :: "string \<Rightarrow> pyval option"
  nw_valid :: "string \<Rightarrow> bool"
  nw_answer :: "nat \<Rightarrow> reply"
  nw_takes :: "nat \<Rightarrow> nat"

record net_conf =
  nc_url :: string
  nc_version :: string
  nc_api_base :: string
  nc_max_spots :: int
  nc_interval :: int
  nc_poll_max :: int

definition max_spots_per_upload :: int where "max_spots_per_upload = 999"

definition clamp_spots :: "int \<Rightarrow> int" where
  "clamp_spots n = (if n < 1 then 1 else if n > max_spots_per_upload then max_spots_per_upload else n)"

definition strip_slashes :: "string \<Rightarrow> string" where
  "strip_slashes s = rev (dropWhile (\<lambda>c. c = CHR ''/'') (rev s))"

definition api_base :: "string \<Rightarrow> string" where "api_base s = strip_slashes (py_strip s)"

definition wsprnet_policy :: "net_conf \<Rightarrow> batch_policy" where
  "wsprnet_policy c = default_batch_policy\<lparr>bp_max_records := nat (clamp_spots (nc_max_spots c))\<rparr>"

subsection \<open>Numbers\<close>

definition overflow :: exn where "overflow = Exn ''OverflowError'' ''int too large to convert to float''"

definition float_of :: "net_world \<Rightarrow> pyval \<Rightarrow> pyval res" where
  "float_of w v = (case v of
     PBool b \<Rightarrow> Ok (PFloat (if b then 1 else 0))
   | PInt i \<Rightarrow> if 2 ^ 1024 - 2 ^ 970 \<le> \<bar>i\<bar> then Raise overflow else Ok (PFloat (nw_round w (of_int i)))
   | PFloat r \<Rightarrow> Ok v | PInf _ \<Rightarrow> Ok v | PNaN \<Rightarrow> Ok v
   | PStr s \<Rightarrow> (case nw_float w s of Some x \<Rightarrow> Ok x | None \<Rightarrow> Raise (Exn ''ValueError'' ''could not convert string to float''))
   | _ \<Rightarrow> Raise (Exn ''TypeError'' ''float() argument''))"

definition type_or_value :: "exn \<Rightarrow> bool" where
  "type_or_value e \<longleftrightarrow> exn_type e = ''TypeError'' \<or> exn_type e = ''ValueError''"

definition float_or_zero :: "net_world \<Rightarrow> pyval \<Rightarrow> pyval res" where
  "float_or_zero w v = (if v = PNone then Ok (PFloat 0) else (case float_of w v of
     Ok x \<Rightarrow> Ok x | Raise e \<Rightarrow> if type_or_value e then Ok (PFloat 0) else Raise e))"

definition int_or_zero :: "net_world \<Rightarrow> pyval \<Rightarrow> int res" where
  "int_or_zero w v = (if v = PNone then Ok 0 else (case int_of_value v of Ok i \<Rightarrow> Ok i
   | Raise e \<Rightarrow> if \<not> type_or_value e then Raise e
       else (case bind_res (float_of w v) int_of_value of Ok i \<Rightarrow> Ok i
         | Raise e' \<Rightarrow> if type_or_value e' then Ok 0 else Raise e')))"

text \<open>A float times or over a number, and \<open>a > b\<close> on floats.\<close>

definition scaled :: "net_world \<Rightarrow> rat \<Rightarrow> pyval \<Rightarrow> pyval" where
  "scaled w k v = (case v of PFloat r \<Rightarrow> PFloat (nw_round w (r * k)) | _ \<Rightarrow> v)"

definition float_gt :: "pyval \<Rightarrow> pyval \<Rightarrow> bool" where
  "float_gt a b = (case (a, b) of (PFloat x, PFloat y) \<Rightarrow> y < x | (PFloat _, PInf pos) \<Rightarrow> \<not> pos
     | (PInf pos, PFloat _) \<Rightarrow> pos | (PInf p, PInf q) \<Rightarrow> p \<and> \<not> q | _ \<Rightarrow> False)"

subsection \<open>Columns\<close>

definition stripped :: "pyval \<Rightarrow> string res" where
  "stripped v = (case v of PStr s \<Rightarrow> Ok (py_strip s) | _ \<Rightarrow> Raise (Exn ''AttributeError'' ''object has no attribute strip''))"

definition first_of :: "pydict \<Rightarrow> string list \<Rightarrow> pyval" where
  "first_of cols ks = foldr (\<lambda>k v. py_or (py_get cols k) v) ks (PStr [])"

definition call_of :: "pydict \<Rightarrow> string res" where
  "call_of cols = stripped (first_of cols [''tx_sign'', ''tx_call'', ''callsign''])"

definition either :: "pydict \<Rightarrow> string \<Rightarrow> string \<Rightarrow> pyval" where
  "either cols a b = (if py_get cols a \<noteq> PNone then py_get cols a else py_get cols b)"

text \<open>The frequency in MHz before \<open>float\<close>: none, or what the division of the Hz gives.\<close>

definition freq_mhz :: "net_world \<Rightarrow> pydict \<Rightarrow> pyval option res" where
  "freq_mhz w cols = (if py_get cols ''frequency_mhz'' \<noteq> PNone then Ok (Some (py_get cols ''frequency_mhz''))
     else let hz = py_or (py_get cols ''frequency'') (py_get cols ''frequency_hz'') in
       if \<not> py_truthy hz then Ok None else map_res (\<lambda>x. Some (scaled w (1 / 1000000) x)) (float_of w hz))"

definition utc_date :: "int \<Rightarrow> string" where
  "utc_date us = (let p = date_parts (us div 1000000) in
     fixed_digits 2 (p ! 0 mod 100) @ fixed_digits 2 (p ! 1) @ fixed_digits 2 (p ! 2))"

definition utc_time :: "int \<Rightarrow> string" where
  "utc_time us = (let p = time_parts (us div 1000000) in fixed_digits 2 (p ! 0) @ fixed_digits 2 (p ! 1))"

subsection \<open>Duplicates\<close>

text \<open>\<open>round(x, 4)\<close> as a part of a key: a NaN is equal to no other.\<close>

datatype freq_key = Rounded int | Infinite bool | NotANumber nat

type_synonym spot_key = "string \<times> string \<times> string \<times> freq_key"

definition rounded :: "nat \<Rightarrow> pyval \<Rightarrow> freq_key" where
  "rounded pos v = (case v of PFloat r \<Rightarrow> Rounded (round_half_even (r * 10000)) | PInf p \<Rightarrow> Infinite p | _ \<Rightarrow> NotANumber pos)"

definition spot_key :: "net_world \<Rightarrow> nat \<Rightarrow> urecord \<Rightarrow> spot_key option res" where
  "spot_key w pos r = (let cols = rec_columns r in bind_res (call_of cols) (\<lambda>call.
     if call = [] then Ok None
     else (case bind_res (freq_mhz w cols) (\<lambda>f. case f of None \<Rightarrow> Ok None | Some v \<Rightarrow> map_res Some (float_of w v)) of
       Raise e \<Rightarrow> if type_or_value e then Ok None else Raise e
     | Ok None \<Rightarrow> Ok None
     | Ok (Some v) \<Rightarrow> Ok (Some (utc_date (rec_time r), utc_time (rec_time r), call, rounded pos v)))))"

definition spot_snr :: "net_world \<Rightarrow> urecord \<Rightarrow> pyval res" where
  "spot_snr w r = float_or_zero w (either (rec_columns r) ''snr'' ''snr_db'')"

fun dedup_scan :: "net_world \<Rightarrow> nat \<Rightarrow> (spot_key \<times> nat \<times> urecord \<times> pyval) list \<Rightarrow> (nat \<times> urecord) list \<Rightarrow> urecord list
    \<Rightarrow> ((spot_key \<times> nat \<times> urecord \<times> pyval) list \<times> (nat \<times> urecord) list) res" where
  "dedup_scan w pos best through [] = Ok (best, through)"
| "dedup_scan w pos best through (r # rs) = (case spot_key w pos r of Raise e \<Rightarrow> Raise e
     | Ok None \<Rightarrow> dedup_scan w (Suc pos) best (through @ [(pos, r)]) rs
     | Ok (Some k) \<Rightarrow> (case spot_snr w r of Raise e \<Rightarrow> Raise e
         | Ok snr \<Rightarrow> dedup_scan w (Suc pos) (if (case map_of best k of None \<Rightarrow> True | Some (_, _, s) \<Rightarrow> float_gt snr s)
             then dict_set k (pos, r, snr) best else best) through rs))"

definition dedup_records :: "net_world \<Rightarrow> urecord list \<Rightarrow> urecord list res" where
  "dedup_records w rs = map_res (\<lambda>(best, through). map snd (sort_key fst (map (\<lambda>(k, pos, r, s). (pos, r)) best @ through)))
     (dedup_scan w 0 [] [] rs)"

subsection \<open>A record to a line\<close>

definition pad_left :: "nat \<Rightarrow> string \<Rightarrow> string" where "pad_left n s = replicate (n - length s) CHR '' '' @ s"

definition pad_right :: "nat \<Rightarrow> string \<Rightarrow> string" where "pad_right n s = s @ replicate (n - length s) CHR '' ''"

definition fixed :: "nat \<Rightarrow> rat \<Rightarrow> string" where
  "fixed p r = (let n = round_half_even (\<bar>r\<bar> * 10 ^ p) in (if r < 0 then ''-'' else [])
     @ str_of_int (n div 10 ^ p) @ (if p = 0 then [] else ''.'' @ fixed_digits p (nat (n mod 10 ^ p))))"

definition fmt_float :: "nat \<Rightarrow> nat \<Rightarrow> pyval \<Rightarrow> string" where
  "fmt_float width p v = pad_left width (case v of PFloat r \<Rightarrow> fixed p r | PInf pos \<Rightarrow> if pos then ''inf'' else ''-inf'' | _ \<Rightarrow> ''nan'')"

definition fmt_int :: "nat \<Rightarrow> int \<Rightarrow> string" where "fmt_int width i = pad_left width (str_of_int i)"

text \<open>\<open>round\<close> to a whole number, and the drift in Hz per minute.\<close>

definition round_value :: "pyval \<Rightarrow> int res" where
  "round_value v = (case v of PFloat r \<Rightarrow> Ok (round_half_even r) | _ \<Rightarrow> int_of_value v)"

definition drift_of :: "net_world \<Rightarrow> pydict \<Rightarrow> int res" where
  "drift_of w cols = (if py_get cols ''drift'' \<noteq> PNone then int_or_zero w (py_get cols ''drift'')
     else if py_get cols ''drift_hz_per_s'' \<noteq> PNone
     then bind_res (float_of w (py_or (py_get cols ''drift_hz_per_s'') (PFloat 0))) (\<lambda>x. round_value (scaled w 60 x))
     else Ok 0)"

definition hash_unresolved :: string where "hash_unresolved = ''<...>''"

definition mept_line :: "string \<Rightarrow> string \<Rightarrow> pyval \<Rightarrow> pyval \<Rightarrow> pyval \<Rightarrow> pyval \<Rightarrow> string \<Rightarrow> string \<Rightarrow> int \<Rightarrow> int \<Rightarrow> int \<Rightarrow> bool \<Rightarrow> string res" where
  "mept_line date time sync snr dt freq call grid pwr drift ntype w_mode = (if w_mode
     then map_res (\<lambda>n. join '' '' [pad_right 6 date, pad_left 4 time, fmt_float 5 2 sync, fmt_int 3 n, fmt_float 5 2 dt,
            fmt_float 12 7 freq, pad_right 14 call, pad_right 6 grid, fmt_int 2 pwr, fmt_int 2 drift, fmt_int 4 ntype]) (int_of_value snr)
     else Ok (join '' '' [pad_right 6 date, pad_left 4 time, fmt_float 5 1 sync, fmt_float 3 0 snr, fmt_float 5 2 dt,
            fmt_float 12 7 freq, pad_right 14 call, pad_right 6 grid, fmt_int 2 pwr, '' 0'', fmt_int 4 ntype]))"

definition record_to_mept :: "net_world \<Rightarrow> urecord \<Rightarrow> string option res" where
  "record_to_mept w r = (let cols = rec_columns r in bind_res (call_of cols) (\<lambda>call.
     if call = [] \<or> call = hash_unresolved then Ok None
     else bind_res (freq_mhz w cols) (\<lambda>f. case f of None \<Rightarrow> Ok None | Some v \<Rightarrow>
       (case float_of w v of Raise e \<Rightarrow> if type_or_value e then Ok None else Raise e
        | Ok freq \<Rightarrow>
          bind_res (float_or_zero w (py_get cols ''sync_quality'')) (\<lambda>sync.
          bind_res (spot_snr w r) (\<lambda>snr.
          bind_res (float_or_zero w (py_get cols ''dt'')) (\<lambda>dt.
          bind_res (int_or_zero w (either cols ''power'' ''pwr_dbm'')) (\<lambda>pwr.
          bind_res (drift_of w cols) (\<lambda>drift.
          bind_res (int_or_zero w (either cols ''code'' ''pkt_mode'')) (\<lambda>ntype.
          bind_res (stripped (first_of cols [''tx_loc'', ''grid''])) (\<lambda>grid.
          bind_res (map_res py_upper (stripped (first_of cols [''mode'']))) (\<lambda>mode.
          map_res Some (mept_line (utc_date (rec_time r)) (utc_time (rec_time r)) sync snr dt freq call grid pwr drift ntype
            (if mode \<noteq> [] then starts_with mode ''W'' else ntype = 2))))))))))))))"

subsection \<open>The body\<close>

lemma length_dropWhile_less [termination_simp]: "length (dropWhile P xs) < Suc (length xs)"
  by (simp add: le_imp_less_Suc length_dropWhile_le)

fun py_words :: "string \<Rightarrow> string list" where
  "py_words [] = []"
| "py_words (c # cs) = (if is_ws c then py_words cs
     else (c # takeWhile (\<lambda>x. \<not> is_ws x) cs) # py_words (dropWhile (\<lambda>x. \<not> is_ws x) cs))"

text \<open>The order of a float in a sort key; a NaN, which Python places anywhere, goes last.\<close>

definition float_order :: "pyval \<Rightarrow> nat \<times> rat" where
  "float_order v = (case v of PFloat r \<Rightarrow> (1, r) | PInf pos \<Rightarrow> (if pos then 2 else 0, 0) | _ \<Rightarrow> (3, 0))"

definition mept_sort_key :: "net_world \<Rightarrow> string \<Rightarrow> string \<times> string \<times> nat \<times> rat" where
  "mept_sort_key w line = (let parts = py_words line in
     if length parts < 6 then ([], [], 1, 0)
     else (case nw_float w (parts ! 5) of Some x \<Rightarrow> (parts ! 0, parts ! 1, float_order x) | None \<Rightarrow> ([], [], 1, 0)))"

definition mept_lines :: "net_world \<Rightarrow> urecord list \<Rightarrow> string list res" where
  "mept_lines w rs = bind_res (dedup_records w rs) (\<lambda>ds. map_res (List.map_filter id) (mapM_res (record_to_mept w) ds))"

definition mept_body :: "net_world \<Rightarrow> urecord list \<Rightarrow> bytes res" where
  "mept_body w rs = map_res (\<lambda>ls. if ls = [] then [] else utf8 (join [CHR 0x0A] (sort_key (mept_sort_key w) ls) @ [CHR 0x0A])) (mept_lines w rs)"

subsection \<open>The multipart body\<close>

definition boundary :: bytes where "boundary = ''--------WD4MeptBoundary''"

definition crlf :: bytes where "crlf = [CHR 0x0D, CHR 0x0A]"

definition text_field :: "string \<Rightarrow> string \<Rightarrow> bytes" where
  "text_field name v = ''--'' @ boundary @ crlf @ ''Content-Disposition: form-data; name='' @ [CHR 0x22] @ utf8 name @ [CHR 0x22]
     @ crlf @ crlf @ utf8 v @ crlf"

definition multipart :: "string \<Rightarrow> string \<Rightarrow> string \<Rightarrow> bytes \<Rightarrow> bytes" where
  "multipart version call grid allmept = text_field ''version'' version @ text_field ''call'' call @ text_field ''grid'' grid
     @ ''--'' @ boundary @ crlf @ ''Content-Disposition: form-data; name='' @ [CHR 0x22] @ ''allmept'' @ [CHR 0x22] @ ''; filename=''
     @ [CHR 0x22] @ ''spots.txt'' @ [CHR 0x22] @ crlf @ ''Content-Type: text/plain'' @ crlf @ crlf
     @ allmept @ crlf @ ''--'' @ boundary @ ''--'' @ crlf"

subsection \<open>The network\<close>

text \<open>The requests made, a GET without data, and the monotonic clock in microseconds.\<close>

record net_state =
  ns_sent :: "(string \<times> bytes option) list"
  ns_now :: int

definition open_url :: "net_world \<Rightarrow> string \<Rightarrow> bytes option \<Rightarrow> net_state \<Rightarrow> reply \<times> net_state" where
  "open_url w url data s = (let n = length (ns_sent s) in
     (nw_answer w n, s\<lparr>ns_sent := ns_sent s @ [(url, data)], ns_now := ns_now s + int (nw_takes w n)\<rparr>))"

definition bad_url :: exn where "bad_url = Exn ''ValueError'' ''unknown url type''"

definition acked_as :: "string \<Rightarrow> outcome" where "acked_as reason = acked\<lparr>oc_reason := reason\<rparr>"

definition http_reason :: "int \<Rightarrow> string \<Rightarrow> string" where
  "http_reason code body = ''HTTP '' @ str_of_int code @ '' (no retry): '' @ take 200 body"

text \<open>\<open>re.search\<close> of \<open>(\d+)\s+out\s+of\s+(\d+)\s+spot\<close>, from the left.\<close>

definition digit :: "char \<Rightarrow> bool" where "digit c \<longleftrightarrow> c \<in> set ''0123456789''"

definition spaced :: "string \<Rightarrow> string \<Rightarrow> string option" where
  "spaced word s = (let t = dropWhile is_ws s in
     if s = t \<or> \<not> starts_with t word then None else Some (drop (length word) t))"

definition spots_match :: "string \<Rightarrow> string option" where
  "spots_match s = (let n = takeWhile digit s in if n = [] then None
     else case spaced ''out'' (dropWhile digit s) of None \<Rightarrow> None
     | Some a \<Rightarrow> (case spaced ''of'' a of None \<Rightarrow> None
       | Some b \<Rightarrow> (let t = dropWhile is_ws b; m = takeWhile digit t in
           if b = t \<or> m = [] then None
           else case spaced ''spot'' (dropWhile digit t) of None \<Rightarrow> None | Some _ \<Rightarrow> Some (n @ ''/'' @ m @ '' added''))))"

fun spots_added :: "string \<Rightarrow> string option" where
  "spots_added [] = None"
| "spots_added (c # cs) = (case spots_match (c # cs) of Some r \<Rightarrow> Some r | None \<Rightarrow> spots_added cs)"

definition post_sync :: "net_world \<Rightarrow> net_conf \<Rightarrow> bytes \<Rightarrow> net_state \<Rightarrow> outcome res \<times> net_state" where
  "post_sync w c data s = (case open_url w (nc_url c) (Some data) s of (r, s') \<Rightarrow> (case r of
       HttpFailure code body \<Rightarrow> Ok (acked_as (http_reason code body))
     | NetFailure t \<Rightarrow> Ok (acked_as (''timeout/network error after '' @ fixed 0 (of_int (ns_now s' - ns_now s) / 1000000)
         @ ''s (no retry): '' @ t))
     | Surprise e \<Rightarrow> Raise e
     | Response status body \<Rightarrow> Ok (acked_as (if \<not> (200 \<le> status \<and> status < 300) then http_reason status body
         else case spots_added body of Some r \<Rightarrow> r | None \<Rightarrow> [])), s'))"

subsection \<open>The asynchronous API\<close>

text \<open>\<open>(v or {}).get(k)\<close>.\<close>

definition get_or_empty :: "pyval \<Rightarrow> string \<Rightarrow> pyval res" where
  "get_or_empty v k = (if \<not> py_truthy v then Ok PNone
     else case v of PDict d \<Rightarrow> Ok (py_get d k) | _ \<Rightarrow> Raise (Exn ''AttributeError'' ''object has no attribute get''))"

definition json_or_empty :: "net_world \<Rightarrow> string \<Rightarrow> pyval option" where
  "json_or_empty w t = nw_json w (if t = [] then [CHR 0x7B, CHR 0x7D] else t)"

definition finished :: "pyval \<Rightarrow> bool" where "finished v \<longleftrightarrow> v = PStr ''done'' \<or> v = PStr ''failed''"

definition net_str :: "net_world \<Rightarrow> pyval \<Rightarrow> string" where
  "net_str w v = (case v of PStr s \<Rightarrow> s | PInt i \<Rightarrow> str_of_int i | _ \<Rightarrow> nw_str w v)"

datatype polled = Nothing_yet | Parsed pyval | Escaped exn

definition poll_once :: "net_world \<Rightarrow> string \<Rightarrow> net_state \<Rightarrow> polled \<times> net_state" where
  "poll_once w url s = (if \<not> nw_valid w url then (Nothing_yet, s)
     else case open_url w url None s of (r, s') \<Rightarrow> (case r of
       Response _ t \<Rightarrow> (case json_or_empty w t of Some v \<Rightarrow> Parsed v | None \<Rightarrow> Nothing_yet)
     | Surprise e \<Rightarrow> if exn_type e = ''ValueError'' then Nothing_yet else Escaped e
     | _ \<Rightarrow> Nothing_yet, s'))"

definition slept :: "net_conf \<Rightarrow> net_state \<Rightarrow> net_state" where
  "slept c s = s\<lparr>ns_now := ns_now s + max 50000 (nc_interval c)\<rparr>"

lemma open_url_now: "ns_now (snd (open_url w url d s)) \<ge> ns_now s"
  by (simp add: open_url_def Let_def)

lemma poll_once_now: "poll_once w url s = (p, s') \<Longrightarrow> ns_now s \<le> ns_now s'"
  using open_url_now [of s w url None] by (auto simp: poll_once_def split: if_splits prod.splits)

function poll_status :: "net_world \<Rightarrow> net_conf \<Rightarrow> string \<Rightarrow> int \<Rightarrow> pyval \<Rightarrow> net_state \<Rightarrow> pyval res \<times> net_state" where
  "poll_status w c url deadline result s = (if \<not> ns_now s < deadline then (Ok result, s)
     else case poll_once w url (slept c s) of
       (Nothing_yet, s') \<Rightarrow> poll_status w c url deadline result s'
     | (Escaped e, s') \<Rightarrow> (Raise e, s')
     | (Parsed v, s') \<Rightarrow> (case get_or_empty v ''status'' of Raise e \<Rightarrow> (Raise e, s')
         | Ok st \<Rightarrow> if finished st then (Ok v, s') else poll_status w c url deadline v s'))"
  by pat_completeness auto
termination
  by (relation "measure (\<lambda>(w, c, url, deadline, result, s). nat (deadline - ns_now s))")
    (auto simp: slept_def dest!: poll_once_now [OF sym])

declare poll_status.simps [simp del]

text \<open>\<open>len(rejections)\<close> and the slice of it for the log.\<close>

definition loggable :: "pyval \<Rightarrow> bool" where
  "loggable v \<longleftrightarrow> (case v of PList _ \<Rightarrow> True | PStr _ \<Rightarrow> True | _ \<Rightarrow> \<not> py_truthy v)"

definition async_reason :: "net_world \<Rightarrow> pydict \<Rightarrow> string \<Rightarrow> string res" where
  "async_reason w d st = (let accepted = py_get d ''accepted''; submitted = py_get d ''submitted''; rejected = py_get d ''rejected'' in
     if \<not> loggable (py_get d ''rejections'') then Raise (Exn ''TypeError'' ''rejections'')
     else Ok (if accepted \<noteq> PNone \<and> submitted \<noteq> PNone
       then net_str w accepted @ ''/'' @ net_str w submitted @ '' added''
         @ (if py_truthy rejected then '', '' @ net_str w rejected @ '' rejected'' else [])
       else st))"

definition read_result :: "net_world \<Rightarrow> pyval \<Rightarrow> pyval \<Rightarrow> outcome res" where
  "read_result w nonce result = bind_res (get_or_empty result ''status'') (\<lambda>st.
     if \<not> finished st then Ok (acked_as (''async '' @ (if py_truthy st then net_str w st else ''pending'')
        @ '' (nonce '' @ net_str w nonce @ '')''))
     else case result of PDict d \<Rightarrow> map_res acked_as (async_reason w d (net_str w st)) | _ \<Rightarrow> Ok (acked_as []))"

definition post_async :: "net_world \<Rightarrow> net_conf \<Rightarrow> bytes \<Rightarrow> net_state \<Rightarrow> outcome res \<times> net_state" where
  "post_async w c data s = (let base = api_base (nc_api_base c); upload = base @ ''/upload'' in
     if \<not> nw_valid w upload then (Raise bad_url, s)
     else case open_url w upload (Some data) s of (r, s') \<Rightarrow> (case r of
       HttpFailure code body \<Rightarrow> (Ok (acked_as (http_reason code body)), s')
     | NetFailure t \<Rightarrow> (Ok (acked_as (''timeout/network error (no retry): '' @ t)), s')
     | Surprise e \<Rightarrow> (if exn_type e = ''ValueError'' then Ok (acked_as ''bad submit response'') else Raise e, s')
     | Response _ t \<Rightarrow> (case json_or_empty w t of None \<Rightarrow> (Ok (acked_as ''bad submit response''), s')
        | Some submit \<Rightarrow> (case get_or_empty submit ''nonce'' of Raise e \<Rightarrow> (Raise e, s')
          | Ok nonce \<Rightarrow> if \<not> py_truthy nonce then (Ok (acked_as ''no nonce returned''), s')
              else (case poll_status w c (base @ ''/status/'' @ net_str w nonce) (ns_now s' + max 1000000 (nc_poll_max c)) PNone s' of
                (Raise e, s'') \<Rightarrow> (Raise e, s'')
              | (Ok result, s'') \<Rightarrow> (read_result w nonce result, s''))))))"

subsection \<open>The transport\<close>

definition no_call :: outcome where
  "no_call = permanent_failure ''wsprnet: identity.call is empty: wsprnet rejects anonymous uploads''"

definition post_body :: "net_world \<Rightarrow> net_conf \<Rightarrow> identity \<Rightarrow> bytes \<Rightarrow> net_state \<Rightarrow> outcome res \<times> net_state" where
  "post_body w c ident body s = (let call = py_strip (id_call ident); grid = py_strip (id_grid ident) in
     if call = [] then (Ok no_call, s)
     else let data = multipart (''WD_'' @ nc_version c) call grid body in
       if \<not> nw_valid w (nc_url c) then (Raise bad_url, s)
       else if api_base (nc_api_base c) \<noteq> [] then post_async w c data s else post_sync w c data s)"

definition wsprnet_ship :: "net_world \<Rightarrow> net_conf \<Rightarrow> identity \<Rightarrow> batch \<Rightarrow> net_state \<Rightarrow> outcome res \<times> net_state" where
  "wsprnet_ship w c ident b s = (case mept_body w (bt_records b) of Raise e \<Rightarrow> (Raise e, s)
     | Ok body \<Rightarrow> if body = [] then (Ok acked, s) else post_body w c ident body s)"

definition wsprnet_serialize :: "net_world \<Rightarrow> batch \<Rightarrow> bytes res" where
  "wsprnet_serialize w b = mept_body w (bt_records b)"

definition wsprnet_replay :: "net_world \<Rightarrow> net_conf \<Rightarrow> identity \<Rightarrow> bytes \<Rightarrow> net_state \<Rightarrow> outcome res \<times> net_state" where
  "wsprnet_replay w c ident blob s = (if blob = [] then (Ok acked, s) else post_body w c ident blob s)"

end
