(* ===== verification/WsprNetLaws.thy ===== *)
theory WsprNetLaws
  imports WsprNet "HOL-Library.Multiset"
begin

text \<open>
  What the wsprnet transport promises: one post for a batch and never a retry, a bounded number of status
  requests, a replay that is the ship, and the loudest of the duplicates.
\<close>

subsection \<open>Requests\<close>

definition status_only :: "(string \<times> bytes option) list \<Rightarrow> bool" where
  "status_only reqs \<longleftrightarrow> (\<forall>q \<in> set reqs. snd q = None)"

lemma status_only_simps [simp]:
  "status_only []" "status_only (q # qs) \<longleftrightarrow> snd q = None \<and> status_only qs"
  "status_only (xs @ ys) \<longleftrightarrow> status_only xs \<and> status_only ys"
  by (auto simp: status_only_def)

lemma slept_sent [simp]: "ns_sent (slept c s) = ns_sent s" and slept_now [simp]:
  "ns_now (slept c s) = ns_now s + max 50000 (nc_interval c)"
  by (simp_all add: slept_def)

lemma poll_once_sent:
  assumes "poll_once w url s = (p, s')"
  obtains qs where "ns_sent s' = ns_sent s @ qs" "status_only qs" "length qs \<le> 1"
proof (cases "nw_valid w url")
  case True
  with assms have "ns_sent s' = ns_sent s @ [(url, None)]" by (auto simp: poll_once_def open_url_def Let_def)
  then show ?thesis by (rule that) simp_all
next
  case False
  with assms show ?thesis by (intro that [of "[]"]) (auto simp: poll_once_def)
qed

text \<open>How many more sleeps fit before the deadline.\<close>

definition polls_left :: "net_conf \<Rightarrow> int \<Rightarrow> net_state \<Rightarrow> nat" where
  "polls_left c deadline s = nat ((deadline - ns_now s + max 50000 (nc_interval c) - 1) div max 50000 (nc_interval c))"

lemma polls_left_step:
  assumes "ns_now s < deadline" "ns_now (slept c s) \<le> ns_now s'"
  shows "Suc (polls_left c deadline s') \<le> polls_left c deadline s"
proof -
  let ?i = "max 50000 (nc_interval c)"
  have i: "0 < ?i" "?i \<noteq> 0" by simp_all
  have "deadline - ns_now s' + ?i - 1 + ?i \<le> deadline - ns_now s + ?i - 1" using assms(2) by simp
  from zdiv_mono1 [OF this i(1)]
  have "(deadline - ns_now s' + ?i - 1) div ?i + 1 \<le> (deadline - ns_now s + ?i - 1) div ?i"
    unfolding div_add_self2 [OF i(2)] .
  moreover have "?i \<le> deadline - ns_now s + ?i - 1" using assms(1) by linarith
  from zdiv_mono1 [OF this i(1)] have "1 \<le> (deadline - ns_now s + ?i - 1) div ?i" unfolding div_self [OF i(2)] .
  ultimately show ?thesis unfolding polls_left_def by linarith
qed

lemma poll_status_sent:
  "poll_status w c url deadline result s = (r, s') \<Longrightarrow>
     \<exists>qs. ns_sent s' = ns_sent s @ qs \<and> status_only qs \<and> length qs \<le> polls_left c deadline s"
proof (induction w c url deadline result s rule: poll_status.induct)
  case (1 w c url deadline result s)
  show ?case
  proof (cases "ns_now s < deadline")
    case False
    then show ?thesis using "1.prems" by (simp add: poll_status.simps [of w c url deadline result s])
  next
    case True
    obtain p s1 where p: "poll_once w url (slept c s) = (p, s1)" by (cases "poll_once w url (slept c s)")
    obtain qs where q: "ns_sent s1 = ns_sent s @ qs" "status_only qs" "length qs \<le> 1"
      using poll_once_sent [OF p] by auto
    have left: "Suc (polls_left c deadline s1) \<le> polls_left c deadline s"
      using polls_left_step [OF True poll_once_now [OF p]] .
    have more: "\<exists>qs'. ns_sent s' = ns_sent s1 @ qs' \<and> status_only qs' \<and> length qs' \<le> polls_left c deadline s1"
    proof (cases p)
      case Nothing_yet
      show ?thesis using "1.prems" True p Nothing_yet
        by (intro "1.IH"(1) [OF _ p [symmetric]]) (simp_all add: poll_status.simps [of w c url deadline result s])
    next
      case (Escaped e)
      then show ?thesis using "1.prems" True p by (simp add: poll_status.simps [of w c url deadline result s])
    next
      case (Parsed v)
      show ?thesis
      proof (cases "get_or_empty v ''status''")
        case (Raise e)
        then show ?thesis using "1.prems" True p Parsed by (simp add: poll_status.simps [of w c url deadline result s])
      next
        case (Ok st)
        show ?thesis
        proof (cases "finished st")
          case True
          then show ?thesis using "1.prems" \<open>ns_now s < deadline\<close> p Parsed Ok
            by (simp add: poll_status.simps [of w c url deadline result s])
        next
          case False
          then show ?thesis using "1.prems" True p Parsed Ok
            by (intro "1.IH"(2) [OF _ p [symmetric] Parsed Ok]) (simp_all add: poll_status.simps [of w c url deadline result s])
        qed
      qed
    qed
    then obtain qs' where "ns_sent s' = ns_sent s1 @ qs'" "status_only qs'" "length qs' \<le> polls_left c deadline s1" by blast
    with q left show ?thesis by (intro exI [of _ "qs @ qs'"]) simp
  qed
qed

lemma poll_status_end:
  "poll_status w c url deadline result s = (Ok v, s') \<Longrightarrow>
     deadline \<le> ns_now s' \<or> (\<exists>st. get_or_empty v ''status'' = Ok st \<and> finished st)"
proof (induction w c url deadline result s rule: poll_status.induct)
  case (1 w c url deadline result s)
  note unfold = poll_status.simps [of w c url deadline result s]
  show ?case
  proof (cases "ns_now s < deadline")
    case False
    then show ?thesis using "1.prems" by (simp add: unfold)
  next
    case True
    obtain p s1 where p: "poll_once w url (slept c s) = (p, s1)" by (cases "poll_once w url (slept c s)")
    show ?thesis
    proof (cases p)
      case Nothing_yet
      show ?thesis using "1.prems" True p Nothing_yet by (intro "1.IH"(1) [OF _ p [symmetric]]) (simp_all add: unfold)
    next
      case (Escaped e)
      then show ?thesis using "1.prems" True p by (simp add: unfold)
    next
      case (Parsed x)
      then show ?thesis using "1.prems" True p "1.IH"(2) [OF _ p [symmetric] Parsed]
        by (auto simp: unfold split: res.splits if_splits)
    qed
  qed
qed

text \<open>C28: The status loop of the asynchronous API ends, whatever is answered: after at most the remaining time
  over the interval status requests, with an exception, with a result that is done or failed, or with the
  deadline passed.
\<close>

theorem wsprnet_polling_ends:
  "\<exists>r s' qs. poll_status w c url deadline result s = (r, s') \<and> ns_sent s' = ns_sent s @ qs
     \<and> status_only qs \<and> length qs \<le> polls_left c deadline s
     \<and> (case r of Raise e \<Rightarrow> True | Ok v \<Rightarrow> deadline \<le> ns_now s' \<or> (\<exists>st. get_or_empty v ''status'' = Ok st \<and> finished st))"
proof -
  obtain r s' where p: "poll_status w c url deadline result s = (r, s')" by fastforce
  then obtain qs where "ns_sent s' = ns_sent s @ qs" "status_only qs" "length qs \<le> polls_left c deadline s"
    using poll_status_sent by blast
  then show ?thesis using p poll_status_end [of w c url deadline result s _ s'] by (auto split: res.splits)
qed

subsection \<open>Posting\<close>

text \<open>One post of \<open>data\<close> to \<open>url\<close>, then status requests only.\<close>

definition posted_once :: "string \<Rightarrow> bytes \<Rightarrow> nat \<Rightarrow> net_state \<Rightarrow> net_state \<Rightarrow> bool" where
  "posted_once url data n s s' \<longleftrightarrow>
     (\<exists>qs. ns_sent s' = ns_sent s @ (url, Some data) # qs \<and> status_only qs \<and> length qs \<le> n)"

definition poll_limit :: "net_conf \<Rightarrow> nat" where
  "poll_limit c = nat ((max 1000000 (nc_poll_max c) + max 50000 (nc_interval c) - 1) div max 50000 (nc_interval c))"

definition post_url :: "net_conf \<Rightarrow> string" where
  "post_url c = (if api_base (nc_api_base c) = [] then nc_url c else api_base (nc_api_base c) @ ''/upload'')"

lemma post_sync_once: "post_sync w c data s = (r, s') \<Longrightarrow> posted_once (nc_url c) data n s s'"
  by (auto simp: post_sync_def open_url_def posted_once_def Let_def split: prod.splits)

lemma post_sync_acked: "post_sync w c data s = (Ok oc, s') \<Longrightarrow> oc_kind oc = ''acked''"
  by (auto simp: post_sync_def acked_as_def acked_def split: prod.splits reply.splits)

lemma read_result_acked: "read_result w nonce result = Ok oc \<Longrightarrow> oc_kind oc = ''acked''"
  by (auto simp: read_result_def acked_as_def acked_def split: if_splits pyval.splits)

text \<open>What an asynchronous post comes to once the submission is answered.\<close>

definition async_rest :: "net_world \<Rightarrow> net_conf \<Rightarrow> pyval \<Rightarrow> net_state \<Rightarrow> outcome res \<times> net_state" where
  "async_rest w c nonce s = (case poll_status w c (api_base (nc_api_base c) @ ''/status/'' @ net_str w nonce)
       (ns_now s + max 1000000 (nc_poll_max c)) PNone s of
     (Raise e, s') \<Rightarrow> (Raise e, s') | (Ok result, s') \<Rightarrow> (read_result w nonce result, s'))"

lemma async_rest_sent: "async_rest w c nonce s = (r, s') \<Longrightarrow>
    \<exists>qs. ns_sent s' = ns_sent s @ qs \<and> status_only qs \<and> length qs \<le> poll_limit c"
proof -
  assume a: "async_rest w c nonce s = (r, s')"
  obtain r1 s1 where p: "poll_status w c (api_base (nc_api_base c) @ ''/status/'' @ net_str w nonce)
      (ns_now s + max 1000000 (nc_poll_max c)) PNone s = (r1, s1)" by fastforce
  then have "s' = s1" using a by (cases r1) (simp_all add: async_rest_def)
  moreover have "polls_left c (ns_now s + max 1000000 (nc_poll_max c)) s = poll_limit c"
    by (simp add: polls_left_def poll_limit_def)
  ultimately show ?thesis using poll_status_sent [OF p] by simp
qed

lemma post_async_cases:
  assumes "post_async w c data s = (r, s')" "api_base (nc_api_base c) \<noteq> []"
  obtains "r = Raise bad_url" "s' = s"
  | s1 where "s1 = snd (open_url w (post_url c) (Some data) s)" "s' = s1" "\<And>oc. r = Ok oc \<Longrightarrow> oc_kind oc = ''acked''"
  | s1 nonce where "s1 = snd (open_url w (post_url c) (Some data) s)" "async_rest w c nonce s1 = (r, s')"
proof (cases "nw_valid w (post_url c)")
  case False
  with assms show ?thesis by (intro that(1)) (auto simp: post_async_def post_url_def Let_def)
next
  case True
  obtain a s1 where o: "open_url w (post_url c) (Some data) s = (a, s1)" by fastforce
  show ?thesis
  proof (cases "\<exists>st t v n. a = Response st t \<and> json_or_empty w t = Some v \<and> get_or_empty v ''nonce'' = Ok n \<and> py_truthy n")
    case True
    then obtain n where "async_rest w c n s1 = (r, s')"
      using assms o \<open>nw_valid w (post_url c)\<close> by (auto simp: post_async_def async_rest_def post_url_def Let_def)
    then show ?thesis using o by (intro that(3)) auto
  next
    case False
    have "s' = s1 \<and> (\<forall>oc. r = Ok oc \<longrightarrow> oc_kind oc = ''acked'')"
      using assms o \<open>nw_valid w (post_url c)\<close> False
      by (auto simp: post_async_def post_url_def Let_def acked_as_def acked_def
          split: reply.splits if_splits option.splits res.splits)
    then show ?thesis using o by (intro that(2)) auto
  qed
qed

lemma async_rest_acked: "async_rest w c nonce s = (Ok oc, s') \<Longrightarrow> oc_kind oc = ''acked''"
  by (auto simp: async_rest_def dest: read_result_acked split: prod.splits res.splits)

lemma open_url_sent [simp]: "ns_sent (snd (open_url w url d s)) = ns_sent s @ [(url, d)]"
  by (simp add: open_url_def Let_def)

lemma post_async_once:
  assumes "post_async w c data s = (r, s')" "api_base (nc_api_base c) \<noteq> []"
  shows "(r = Raise bad_url \<and> s' = s \<or> posted_once (post_url c) data (poll_limit c) s s')
    \<and> (\<forall>oc. r = Ok oc \<longrightarrow> oc_kind oc = ''acked'')"
  using assms
proof (cases rule: post_async_cases)
  case 1
  then show ?thesis by simp
next
  case (2 s1)
  then show ?thesis by (simp add: posted_once_def)
next
  case (3 s1 nonce)
  then show ?thesis using async_rest_sent [of w c nonce s1 r s'] async_rest_acked [of w c nonce s1 _ s']
    by (auto simp: posted_once_def)
qed

lemma post_body_once:
  assumes "post_body w c ident body s = (r, s')"
  shows "(s' = s \<and> (r = Ok no_call \<and> py_strip (id_call ident) = [] \<or> r = Raise bad_url)
    \<or> posted_once (post_url c) (multipart (''WD_'' @ nc_version c) (py_strip (id_call ident)) (py_strip (id_grid ident)) body) (poll_limit c) s s')
    \<and> (\<forall>oc. r = Ok oc \<longrightarrow> oc_kind oc = ''acked'' \<or> oc = no_call \<and> py_strip (id_call ident) = [] \<and> s' = s)"
  using assms post_async_once [of w c _ s r s'] post_sync_once [of w c _ s r s'] post_sync_acked [of w c _ s _ s']
  by (auto simp: post_body_def post_url_def Let_def split: if_splits)

text \<open>C27: A batch is offered to wsprnet once.  Either nothing goes out, because there is nothing to say, no
  call, or no usable URL; or there is exactly one request with data, the multipart body of the batch, and
  then only status requests, at most the polling time over the interval.  Whatever the network answers,
  an outcome is an acknowledgement, or the refusal of an empty call: never a retry.
\<close>

theorem wsprnet_posts_a_batch_once:
  assumes "wsprnet_ship w c ident b s = (r, s')"
  shows "(s' = s \<or> (\<exists>body. mept_body w (bt_records b) = Ok body \<and> body \<noteq> [] \<and> posted_once (post_url c)
      (multipart (''WD_'' @ nc_version c) (py_strip (id_call ident)) (py_strip (id_grid ident)) body) (poll_limit c) s s'))
    \<and> (\<forall>oc. r = Ok oc \<longrightarrow> oc_kind oc = ''acked'' \<or> oc = no_call \<and> py_strip (id_call ident) = [] \<and> s' = s)"
proof (cases "mept_body w (bt_records b)")
  case (Raise e)
  then show ?thesis using assms by (auto simp: wsprnet_ship_def)
next
  case (Ok body)
  show ?thesis
  proof (cases "body = []")
    case True
    then show ?thesis using assms Ok by (auto simp: wsprnet_ship_def acked_def)
  next
    case False
    then have p: "post_body w c ident body s = (r, s')" using assms Ok by (simp add: wsprnet_ship_def)
    show ?thesis using post_body_once [OF p] Ok False by blast
  qed
qed

text \<open>
  A replay of the stored bytes does what the ship of the batch does: the same requests, the same
  outcome, from the same state.
\<close>

theorem wsprnet_replay_is_ship:
  assumes "wsprnet_serialize w b = Ok blob"
  shows "wsprnet_replay w c ident blob s = wsprnet_ship w c ident b s"
  using assms by (simp add: wsprnet_serialize_def wsprnet_replay_def wsprnet_ship_def)

subsection \<open>Duplicates\<close>

lemma float_gt_irrefl [simp]: "\<not> float_gt a a"
  by (simp add: float_gt_def split: pyval.splits)

lemma float_gt_trans: "float_gt a b \<Longrightarrow> float_gt b c \<Longrightarrow> float_gt a c"
  by (auto simp: float_gt_def split: pyval.splits)

lemma louder_stays: "\<not> float_gt s old \<Longrightarrow> float_gt new old \<Longrightarrow> \<not> float_gt s new"
  using float_gt_trans by blast

text \<open>What the scan holds of the first \<open>n\<close> records of \<open>rs\<close>: the winner of every key met, the positions
  without a key, and for every record a winner of its key that it does not exceed, and does not equal
  either when the winner came later.\<close>

definition unkeyed :: "net_world \<Rightarrow> urecord list \<Rightarrow> nat \<Rightarrow> nat list" where
  "unkeyed w rs n = filter (\<lambda>i. spot_key w i (rs ! i) = Ok None) [0..<n]"

definition winner :: "net_world \<Rightarrow> urecord list \<Rightarrow> nat \<Rightarrow> spot_key \<Rightarrow> nat \<times> urecord \<times> pyval \<Rightarrow> bool" where
  "winner w rs n k v = (case v of (p, r, s) \<Rightarrow> p < n \<and> r = rs ! p \<and> spot_key w p r = Ok (Some k) \<and> spot_snr w r = Ok s)"

definition beaten :: "net_world \<Rightarrow> urecord \<Rightarrow> nat \<Rightarrow> (spot_key \<rightharpoonup> nat \<times> urecord \<times> pyval) \<Rightarrow> bool" where
  "beaten w r i m \<longleftrightarrow> (\<exists>k s p q s'. spot_key w i r = Ok (Some k) \<and> spot_snr w r = Ok s \<and> m k = Some (p, q, s')
     \<and> \<not> float_gt s s' \<and> (i < p \<longrightarrow> s \<noteq> s'))"

definition scan_ok :: "net_world \<Rightarrow> urecord list \<Rightarrow> nat \<Rightarrow> (spot_key \<times> nat \<times> urecord \<times> pyval) list \<Rightarrow> (nat \<times> urecord) list \<Rightarrow> bool" where
  "scan_ok w rs n best through \<longleftrightarrow> distinct (map fst best) \<and> through = map (\<lambda>i. (i, rs ! i)) (unkeyed w rs n)
     \<and> (\<forall>k v. map_of best k = Some v \<longrightarrow> winner w rs n k v)
     \<and> (\<forall>i < n. spot_key w i (rs ! i) = Ok None \<or> beaten w (rs ! i) i (map_of best))"

lemma winner_Suc: "winner w rs n k v \<Longrightarrow> winner w rs (Suc n) k v"
  by (auto simp: winner_def)

lemma beaten_by_louder:
  assumes "beaten w r i m" "m k = None \<or> (\<exists>p' r' old. m k = Some (p', r', old) \<and> float_gt s old)"
  shows "beaten w r i (m(k \<mapsto> (p, q, s)))"
proof -
  obtain k' t p1 q1 t' where b: "spot_key w i r = Ok (Some k')" "spot_snr w r = Ok t" "m k' = Some (p1, q1, t')" "\<not> float_gt t t'" "i < p1 \<longrightarrow> t \<noteq> t'"
    using assms(1) unfolding beaten_def by blast
  show ?thesis
  proof (cases "k' = k")
    case True
    then have "float_gt s t'" using assms(2) b(3) by auto
    then have "\<not> float_gt t s" "t \<noteq> s" using b(4) louder_stays by blast+
    then show ?thesis unfolding beaten_def using b True by (intro exI [of _ k] exI [of _ t] exI [of _ p] exI [of _ q] exI [of _ s]) simp
  next
    case False
    then show ?thesis unfolding beaten_def using b
      by (intro exI [of _ k'] exI [of _ t] exI [of _ p1] exI [of _ q1] exI [of _ t']) simp
  qed
qed

lemma scan_ok_through:
  assumes "scan_ok w rs n best through" "spot_key w n (rs ! n) = Ok None"
  shows "scan_ok w rs (Suc n) best (through @ [(n, rs ! n)])"
  using assms by (auto simp: scan_ok_def unkeyed_def less_Suc_eq intro: winner_Suc)

lemma scan_ok_kept:
  assumes "scan_ok w rs n best through" "spot_key w n (rs ! n) = Ok (Some k)" "spot_snr w (rs ! n) = Ok snr"
    "map_of best k = Some (p, r, s)" "\<not> float_gt snr s"
  shows "scan_ok w rs (Suc n) best through"
proof -
  have "winner w rs n k (p, r, s)" using assms(1,4) unfolding scan_ok_def by blast
  then have "p < n" by (simp add: winner_def)
  then have "beaten w (rs ! n) n (map_of best)" using assms(2-5) by (auto simp: beaten_def)
  then show ?thesis using assms(1,2) by (auto simp: scan_ok_def unkeyed_def less_Suc_eq intro: winner_Suc)
qed

lemma scan_ok_replaced:
  assumes "scan_ok w rs n best through" "spot_key w n (rs ! n) = Ok (Some k)" "spot_snr w (rs ! n) = Ok snr"
    "map_of best k = None \<or> (\<exists>p r s. map_of best k = Some (p, r, s) \<and> float_gt snr s)"
  shows "scan_ok w rs (Suc n) (dict_set k (n, rs ! n, snr) best) through"
proof -
  have "beaten w (rs ! n) n ((map_of best)(k \<mapsto> (n, rs ! n, snr)))" using assms(2,3) by (auto simp: beaten_def)
  moreover have "winner w rs (Suc n) k (n, rs ! n, snr)" using assms(2,3) by (simp add: winner_def)
  ultimately show ?thesis using assms(1,2) beaten_by_louder [of w _ _ "map_of best" k snr n "rs ! n"] assms(4)
    unfolding scan_ok_def unkeyed_def by (auto simp: less_Suc_eq distinct_dict_set intro: winner_Suc)
qed

lemma dedup_scan_ok:
  "dedup_scan w n best through rs' = Ok (best', through') \<Longrightarrow> rs' = drop n rs \<Longrightarrow> n \<le> length rs \<Longrightarrow>
     scan_ok w rs n best through \<Longrightarrow> scan_ok w rs (length rs) best' through'"
proof (induction w n best through rs' rule: dedup_scan.induct)
  case (1 w pos best through)
  then show ?case by simp
next
  case (2 w pos best through r rs')
  have lt: "pos < length rs" using "2.prems"(2) by (metis drop_all list.distinct(1) not_le)
  have r: "r = rs ! pos" "rs' = drop (Suc pos) rs" using "2.prems"(2) Cons_nth_drop_Suc [OF lt] by (metis list.inject)+
  obtain ko where ko: "spot_key w pos r = Ok ko" using "2.prems"(1) by (cases "spot_key w pos r") simp_all
  show ?case
  proof (cases ko)
    case None
    then show ?thesis using "2.prems" "2.IH"(1) [OF ko None] ko r lt scan_ok_through [of w rs pos best through] by simp
  next
    case (Some k)
    obtain snr where snr: "spot_snr w r = Ok snr" using "2.prems"(1) ko Some by (cases "spot_snr w r") simp_all
    let ?beats = "case map_of best k of None \<Rightarrow> True | Some (_, _, s) \<Rightarrow> float_gt snr s"
    have ok: "scan_ok w rs (Suc pos) (if ?beats then dict_set k (pos, r, snr) best else best) through"
      using "2.prems"(4) ko Some snr r scan_ok_kept [of w rs pos best through k snr] scan_ok_replaced [of w rs pos best through k snr]
      by (auto split: option.splits)
    have "dedup_scan w (Suc pos) (if ?beats then dict_set k (pos, r, snr) best else best) through rs' = Ok (best', through')"
      using "2.prems"(1) ko Some snr by simp
    from "2.IH"(2) [OF ko Some snr this r(2) _ ok] show ?thesis using lt by simp
  qed
qed

lemma scan_positions:
  assumes "scan_ok w rs n best through"
  shows "distinct (map fst (map (\<lambda>(k, pos, r, s). (pos, r)) best @ through))"
    and "\<forall>(p, r) \<in> set (map (\<lambda>(k, pos, r, s). (pos, r)) best @ through). p < n \<and> r = rs ! p"
proof -
  have best: "p < n \<and> r = rs ! p \<and> spot_key w p r = Ok (Some k)" if "(k, p, r, s) \<in> set best" for k p r s
  proof -
    have "map_of best k = Some (p, r, s)" using that assms by (simp add: scan_ok_def)
    then have "winner w rs n k (p, r, s)" using assms unfolding scan_ok_def by blast
    then show ?thesis by (auto simp: winner_def)
  qed
  have "inj_on (\<lambda>(k, p, r, s). p) (set best)"
  proof (rule inj_onI)
    fix x y assume xy: "x \<in> set best" "y \<in> set best" "(case x of (k, p, r, s) \<Rightarrow> p) = (case y of (k, p, r, s) \<Rightarrow> p)"
    obtain k p r s k' r' s' where eq: "x = (k, p, r, s)" "y = (k', p, r', s')" using xy(3) by (cases x, cases y) auto
    then have "k = k'" using best [of k p r s] best [of k' p r' s'] xy by auto
    moreover have "distinct (map fst best)" using assms by (simp add: scan_ok_def)
    ultimately show "x = y" using xy eq by (auto dest: eq_key_imp_eq_value)
  qed
  then have "distinct (map (\<lambda>(k, p, r, s). p) best)" using assms by (auto simp: scan_ok_def distinct_map)
  then show "distinct (map fst (map (\<lambda>(k, pos, r, s). (pos, r)) best @ through))"
    using best assms by (auto simp: scan_ok_def unkeyed_def o_def case_prod_unfold)
  show "\<forall>(p, r) \<in> set (map (\<lambda>(k, pos, r, s). (pos, r)) best @ through). p < n \<and> r = rs ! p"
    using best assms by (auto simp: scan_ok_def unkeyed_def)
qed

lemma scan_choice:
  assumes "scan_ok w rs n best through"
    and P: "P = map (\<lambda>(k, pos, r, s). (pos, r)) best @ through"
  shows "sorted_wrt (<) (map fst (sort_key fst P))" "map snd (sort_key fst P) = map (\<lambda>i. rs ! i) (map fst (sort_key fst P))"
    "set (map fst (sort_key fst P)) = {p. \<exists>k r s. map_of best k = Some (p, r, s)} \<union> set (unkeyed w rs n)"
proof -
  have "mset (map fst (sort_key fst P)) = mset (map fst P)" by (simp only: mset_map mset_sort)
  from mset_eq_imp_distinct_iff [OF this] have "distinct (map fst (sort_key fst P))"
    using scan_positions(1) [OF assms(1)] unfolding P [symmetric] by blast
  then show "sorted_wrt (<) (map fst (sort_key fst P))" by (simp add: strict_sorted_iff)
  show "map snd (sort_key fst P) = map (\<lambda>i. rs ! i) (map fst (sort_key fst P))"
  proof -
    have "snd x = rs ! fst x" if "x \<in> set (sort_key fst P)" for x
    proof -
      have "x \<in> set (map (\<lambda>(k, pos, r, s). (pos, r)) best @ through)" using that unfolding set_sort P .
      with scan_positions(2) [OF assms(1)] have "case x of (p, r) \<Rightarrow> p < n \<and> r = rs ! p" by (rule bspec)
      then show ?thesis by (simp add: case_prod_unfold)
    qed
    then show ?thesis by simp
  qed
  have "distinct (map fst best)" "through = map (\<lambda>i. (i, rs ! i)) (unkeyed w rs n)" using assms(1) by (simp_all add: scan_ok_def)
  then show "set (map fst (sort_key fst P)) = {p. \<exists>k r s. map_of best k = Some (p, r, s)} \<union> set (unkeyed w rs n)"
    by (force simp: P image_Un)
qed

lemma choice_covers:
  assumes "scan_ok w rs n best through" "i < n"
  shows "i \<in> set (unkeyed w rs n) \<or> (\<exists>k j r s t. map_of best k = Some (j, r, t) \<and> spot_key w i (rs ! i) = Ok (Some k)
      \<and> spot_key w j (rs ! j) = Ok (Some k) \<and> spot_snr w (rs ! i) = Ok s \<and> spot_snr w (rs ! j) = Ok t \<and> \<not> float_gt s t
      \<and> (i < j \<longrightarrow> s \<noteq> t))"
proof (cases "spot_key w i (rs ! i) = Ok None")
  case True
  then show ?thesis using assms(2) by (simp add: unkeyed_def)
next
  case False
  then have "beaten w (rs ! i) i (map_of best)" using assms unfolding scan_ok_def by blast
  then obtain k s p q t where b: "spot_key w i (rs ! i) = Ok (Some k)" "spot_snr w (rs ! i) = Ok s"
      "map_of best k = Some (p, q, t)" "\<not> float_gt s t" "i < p \<longrightarrow> s \<noteq> t"
    unfolding beaten_def by blast
  have "winner w rs n k (p, q, t)" using assms(1) b(3) unfolding scan_ok_def by blast
  then have "spot_key w p (rs ! p) = Ok (Some k)" "spot_snr w (rs ! p) = Ok t" by (auto simp: winner_def)
  then show ?thesis using b by blast
qed

lemma choice_keys:
  assumes "scan_ok w rs n best through" "map_of best k = Some (p, r, s) \<or> p \<in> set (unkeyed w rs n)"
    "spot_key w p (rs ! p) = Ok (Some k')"
  shows "\<exists>r s. map_of best k' = Some (p, r, s)"
proof -
  have k: "map_of best k = Some (p, r, s)" using assms(2,3) by (auto simp: unkeyed_def)
  then have "winner w rs n k (p, r, s)" using assms(1) unfolding scan_ok_def by blast
  then show ?thesis using k assms(3) by (auto simp: winner_def)
qed

lemma strict_sorted_distinct: "sorted_wrt (<) idx \<Longrightarrow> distinct (idx :: nat list)"
  by (simp add: strict_sorted_iff)

text \<open>The order of the code: the winners stand where they stood themselves.\<close>

lemma dedup_chooses:
  assumes "dedup_records w rs = Ok ds"
  shows "\<exists>idx. sorted_wrt (<) idx \<and> set idx \<subseteq> {..<length rs} \<and> ds = map (\<lambda>i. rs ! i) idx
    \<and> (\<forall>i < length rs. i \<in> set idx \<or> (\<exists>j \<in> set idx. \<exists>k s t. spot_key w i (rs ! i) = Ok (Some k) \<and> spot_key w j (rs ! j) = Ok (Some k)
        \<and> spot_snr w (rs ! i) = Ok s \<and> spot_snr w (rs ! j) = Ok t \<and> \<not> float_gt s t \<and> (i < j \<longrightarrow> s \<noteq> t)))
    \<and> (\<forall>i \<in> set idx. \<forall>j \<in> set idx. \<forall>k. spot_key w i (rs ! i) = Ok (Some k) \<and> spot_key w j (rs ! j) = Ok (Some k) \<longrightarrow> i = j)"
proof -
  obtain best through where scan: "dedup_scan w 0 [] [] rs = Ok (best, through)"
      and ds: "ds = map snd (sort_key fst (map (\<lambda>(k, pos, r, s). (pos, r)) best @ through))"
    using assms by (auto simp: dedup_records_def map_res_def split: res.splits)
  define P where P: "P = map (\<lambda>(k, pos, r, s). (pos, r)) best @ through"
  have ok: "scan_ok w rs (length rs) best through"
    using dedup_scan_ok [OF scan, of rs] by (simp add: scan_ok_def unkeyed_def)
  note choice = scan_choice [OF ok P]
  have "set (map fst (sort_key fst P)) \<subseteq> {..<length rs}"
    unfolding choice(3) using ok by (auto simp: unkeyed_def scan_ok_def winner_def)
  moreover have "i \<in> set (map fst (sort_key fst P)) \<or> (\<exists>j \<in> set (map fst (sort_key fst P)). \<exists>k s t.
      spot_key w i (rs ! i) = Ok (Some k) \<and> spot_key w j (rs ! j) = Ok (Some k)
      \<and> spot_snr w (rs ! i) = Ok s \<and> spot_snr w (rs ! j) = Ok t \<and> \<not> float_gt s t \<and> (i < j \<longrightarrow> s \<noteq> t))" if "i < length rs" for i
    using choice_covers [OF ok that] unfolding choice(3) by blast
  moreover have "i = j" if "i \<in> set (map fst (sort_key fst P))" "j \<in> set (map fst (sort_key fst P))"
      "spot_key w i (rs ! i) = Ok (Some k)" "spot_key w j (rs ! j) = Ok (Some k)" for i j k
  proof -
    have "\<exists>r s. map_of best k = Some (i, r, s)" "\<exists>r s. map_of best k = Some (j, r, s)"
      using that choice_keys [OF ok] unfolding choice(3) by blast+
    then show ?thesis by auto
  qed
  ultimately show ?thesis using choice(1,2) ds P by (intro exI [of _ "map fst (sort_key fst P)"]) blast
qed

text \<open>C29: The duplicates.  What is kept is a choice of positions, none of them twice, so nothing is invented or
  repeated.  Every record without a key is kept; of the records of one key exactly one is kept, no dropped
  one is louder, and of equally loud ones it is the earliest; and the records without duplicates keep their
  order.  (Where the one kept stands among the others, when a louder copy comes later, is no part of this:
  the code puts it where the louder copy stood, its documentation where the first copy stood.)\<close>

theorem dedup_keeps_the_loudest:
  assumes "dedup_records w rs = Ok ds"
  shows "\<exists>idx. distinct idx \<and> set idx \<subseteq> {..<length rs} \<and> ds = map (\<lambda>i. rs ! i) idx
    \<and> (\<forall>i < length rs. i \<in> set idx \<or> (\<exists>j \<in> set idx. \<exists>k s t. spot_key w i (rs ! i) = Ok (Some k) \<and> spot_key w j (rs ! j) = Ok (Some k)
        \<and> spot_snr w (rs ! i) = Ok s \<and> spot_snr w (rs ! j) = Ok t \<and> \<not> float_gt s t \<and> (i < j \<longrightarrow> s \<noteq> t)))
    \<and> (\<forall>i \<in> set idx. \<forall>j \<in> set idx. \<forall>k. spot_key w i (rs ! i) = Ok (Some k) \<and> spot_key w j (rs ! j) = Ok (Some k) \<longrightarrow> i = j)
    \<and> sorted_wrt (<) (filter (\<lambda>i. \<forall>j < length rs. \<forall>k. spot_key w i (rs ! i) = Ok (Some k) \<and> spot_key w j (rs ! j) = Ok (Some k) \<longrightarrow> j = i) idx)"
  using dedup_chooses [OF assms] by (elim exE conjE) (intro exI conjI, rule strict_sorted_distinct, assumption+, rule sorted_wrt_filter)

subsection \<open>A small network\<close>

definition small_net :: net_world where
  "small_net = \<lparr>nw_round = id, nw_float = (\<lambda>_. None), nw_str = (\<lambda>_. []),
     nw_json = (\<lambda>t. if t = ''N'' then Some (PDict [(''nonce'', PStr ''n1'')])
       else if t = ''D'' then Some (PDict [(''status'', PStr ''done''), (''accepted'', PInt 1), (''submitted'', PInt 2)]) else None),
     nw_valid = (\<lambda>_. True), nw_answer = (\<lambda>n. if n = 0 then Response 200 ''N'' else if n = 1 then NetFailure ''reset'' else Response 200 ''D''),
     nw_takes = (\<lambda>_. 2)\<rparr>"

definition small_net_conf :: net_conf where
  "small_net_conf = \<lparr>nc_url = ''http://w/m.php'', nc_version = ''hs'', nc_api_base = ''http://w/api/'', nc_max_spots = 999,
     nc_interval = 5000000, nc_poll_max = 60000000\<rparr>"

definition small_reporter :: identity where "small_reporter = \<lparr>id_call = ''K1A'', id_grid = ''FN42''\<rparr>"

definition small_spot_row :: "string \<Rightarrow> int \<Rightarrow> urecord" where
  "small_spot_row call snr = \<lparr>rec_table = ''wspr.spots'', rec_time = 9000000,
     rec_columns = [(''callsign'', PStr call), (''frequency_mhz'', PFloat 14), (''snr_db'', PInt snr)], rec_dedup_key = None, rec_payload_path = None\<rparr>"

definition small_net_batch :: batch where
  "small_net_batch = \<lparr>bt_records = [small_spot_row ''K1B'' (- 20), small_spot_row [] 0, small_spot_row ''K1B'' (- 10)],
     bt_cursor_after = ''1'', bt_commit_token = ''1''\<rparr>"

definition small_ship :: "outcome res \<times> net_state" where
  "small_ship = wsprnet_ship small_net small_net_conf small_reporter small_net_batch \<lparr>ns_sent = [], ns_now = 0\<rparr>"

lemma small_ship_outcome: "map_res oc_reason (fst small_ship) = Ok ''1/2 added''"
  by code_simp

lemma small_ship_requests: "length (ns_sent (snd small_ship)) = 3"
  by code_simp

theorem wsprnet_posts_a_batch_once_witness:
  "\<exists>body. body \<noteq> [] \<and> posted_once ''http://w/api/upload'' (multipart ''WD_hs'' ''K1A'' ''FN42'' body) 12
     \<lparr>ns_sent = [], ns_now = 0\<rparr> (snd small_ship)"
proof -
  have "wsprnet_ship small_net small_net_conf small_reporter small_net_batch \<lparr>ns_sent = [], ns_now = 0\<rparr> = (fst small_ship, snd small_ship)"
    by (simp add: small_ship_def)
  from wsprnet_posts_a_batch_once [OF this]
  have "snd small_ship = \<lparr>ns_sent = [], ns_now = 0\<rparr> \<or> (\<exists>body. body \<noteq> [] \<and> posted_once (post_url small_net_conf)
      (multipart (''WD_'' @ nc_version small_net_conf) (py_strip (id_call small_reporter)) (py_strip (id_grid small_reporter)) body)
      (poll_limit small_net_conf) \<lparr>ns_sent = [], ns_now = 0\<rparr> (snd small_ship))" by blast
  moreover have "snd small_ship \<noteq> \<lparr>ns_sent = [], ns_now = 0\<rparr>" using small_ship_requests by auto
  moreover have "post_url small_net_conf = ''http://w/api/upload''" "''WD_'' @ nc_version small_net_conf = ''WD_hs''"
    "py_strip (id_call small_reporter) = ''K1A''" "py_strip (id_grid small_reporter) = ''FN42''" "poll_limit small_net_conf = 12"
    by code_simp+
  ultimately show ?thesis by simp
qed

theorem wsprnet_replay_is_ship_witness:
  "\<exists>blob. wsprnet_serialize small_net small_net_batch = Ok blob \<and>
     map_res oc_reason (fst (wsprnet_replay small_net small_net_conf small_reporter blob \<lparr>ns_sent = [], ns_now = 0\<rparr>)) = Ok ''1/2 added''"
proof -
  have "(case wsprnet_serialize small_net small_net_batch of Ok _ \<Rightarrow> True | Raise _ \<Rightarrow> False)" by code_simp
  then obtain blob where b: "wsprnet_serialize small_net small_net_batch = Ok blob" by (auto split: res.splits)
  show ?thesis using b wsprnet_replay_is_ship [OF b, of small_net_conf small_reporter "\<lparr>ns_sent = [], ns_now = 0\<rparr>"] small_ship_outcome
    by (simp add: small_ship_def)
qed

text \<open>The first of the three records is a weaker copy of the last: the one kept comes last, not first.\<close>

lemma small_dedup: "map_res (map (\<lambda>r. py_get (rec_columns r) ''snr_db'')) (dedup_records small_net (bt_records small_net_batch))
    = Ok [PInt 0, PInt (- 10)]"
  by code_simp

theorem dedup_keeps_the_loudest_witness:
  "\<exists>idx. distinct idx \<and> set idx \<subseteq> {..<3} \<and>
     map (\<lambda>i. py_get (rec_columns (bt_records small_net_batch ! i)) ''snr_db'') idx = [PInt 0, PInt (- 10)]"
proof -
  obtain ds where ds: "dedup_records small_net (bt_records small_net_batch) = Ok ds"
      "map (\<lambda>r. py_get (rec_columns r) ''snr_db'') ds = [PInt 0, PInt (- 10)]"
    using small_dedup by (auto simp: map_res_def split: res.splits)
  have three: "length (bt_records small_net_batch) = 3" by (simp add: small_net_batch_def)
  obtain idx where "distinct idx" "set idx \<subseteq> {..<length (bt_records small_net_batch)}" "ds = map (\<lambda>i. bt_records small_net_batch ! i) idx"
    using dedup_keeps_the_loudest [OF ds(1)] by blast
  then show ?thesis using ds(2) unfolding three by (intro exI [of _ idx]) (simp add: o_def)
qed

end
