(* ===== verification/FileTree.thy ===== *)
theory FileTree
  imports CoreTypes
begin

text \<open>
  The file source, \<open>sources/files.py\<close>: files under a root that match a pattern, oldest first, deleted
  on acknowledgement or kept behind a cursor of modification times.

  A path is the list of its components below \<open>/\<close>; a tree lists its nodes, each path once, and does not
  change while a batch is made.  A file name pattern has \<open>*\<close>, \<open>?\<close> and literal characters (character
  classes and \<open>**\<close> are not modelled).  Parameters: the order in which Python iterates a set, double
  arithmetic on a legacy cursor, and which paths the system refuses to remove.
\<close>

subsection \<open>Paths, nodes, patterns\<close>

type_synonym fpath = "string list"

datatype fkind = Contents bytes | Unreadable | Folder | Special

record fnode =
  fn_path :: fpath
  fn_kind :: fkind
  fn_mtime_ns :: int
  fn_mtime :: rat

type_synonym ftree = "fnode list"

definition node_at :: "ftree \<Rightarrow> fpath \<Rightarrow> fnode option" where
  "node_at t p = find (\<lambda>n. fn_path n = p) t"

definition path_exists :: "ftree \<Rightarrow> fpath \<Rightarrow> bool" where
  "path_exists t p \<longleftrightarrow> node_at t p \<noteq> None"

definition path_text :: "fpath \<Rightarrow> string" where
  "path_text p = CHR ''/'' # join ''/'' p"

definition path_of :: "string \<Rightarrow> fpath" where
  "path_of s = filter (\<lambda>c. c \<noteq> [] \<and> c \<noteq> ''.'') (split_on (CHR ''/'') s)"

text \<open>\<open>root in p.parents\<close>.\<close>

definition below :: "fpath \<Rightarrow> fpath \<Rightarrow> bool" where
  "below r p \<longleftrightarrow> length r < length p \<and> take (length r) p = r"

fun name_match :: "string \<Rightarrow> string \<Rightarrow> bool" where
  "name_match [] [] = True"
| "name_match [] (_ # _) = False"
| "name_match (c # ps) [] = (c = CHR ''*'' \<and> name_match ps [])"
| "name_match (c # ps) (x # xs) = (if c = CHR ''*'' then name_match ps (x # xs) \<or> name_match (c # ps) xs
     else (c = CHR ''?'' \<or> c = x) \<and> name_match ps xs)"

definition pattern_parts :: "string \<Rightarrow> string list" where
  "pattern_parts s = filter (\<lambda>c. c \<noteq> [] \<and> c \<noteq> ''.'') (split_on (CHR ''/'') s)"

text \<open>\<open>path.match(pattern)\<close> matches from the right.\<close>

definition path_match :: "string \<Rightarrow> fpath \<Rightarrow> bool" where
  "path_match pattern p = (let ps = pattern_parts pattern in length ps \<le> length p
     \<and> list_all2 name_match ps (drop (length p - length ps) p))"

subsection \<open>Configuration\<close>

text \<open>A row a parser makes: the instant under \<open>time\<close>, if it is one, and the other columns.  A parser
  returns one row, or an iterable that may raise after its last row, or raises.\<close>

record frow =
  fr_time :: "int option"
  fr_columns :: pydict

datatype parsed = One frow | Many "frow list" "exn option" | ParserRaised

record file_spec =
  fs_pattern :: string
  fs_parser :: "(fpath \<Rightarrow> bytes \<Rightarrow> parsed) option"
  fs_table :: string

record file_conf =
  fc_root :: fpath
  fc_specs :: "file_spec list"
  fc_keep :: bool
  fc_source_id :: "string option"
  fc_prune :: bool
  fc_match_dirs :: bool

definition file_retention :: "string \<Rightarrow> bool res" where
  "file_retention r = (if r = ''keep'' then Ok True else if r = ''delete_on_ack'' then Ok False
     else Raise (Exn ''ValueError'' (''retention must be delete_on_ack or keep'')))"

datatype float_ns = NoFloat | TooBig | Nanos int

record file_world =
  fw_order :: "fpath list \<Rightarrow> fpath list"
  fw_float :: "string \<Rightarrow> float_ns"
  fw_locked :: "fpath \<Rightarrow> bool"

definition file_source_id :: "file_conf \<Rightarrow> string" where
  "file_source_id c = (case fc_source_id c of Some i \<Rightarrow> if i \<noteq> [] then i else ''files:'' @ path_text (fc_root c)
     | None \<Rightarrow> ''files:'' @ path_text (fc_root c))"

definition file_health :: "file_conf \<Rightarrow> ftree \<Rightarrow> string" where
  "file_health c t = (if path_exists t (fc_root c) then ''ok'' else ''unreachable'')"

subsection \<open>Cursors of the keep mode\<close>

definition encode_keep_cursor :: "int \<Rightarrow> bytes" where "encode_keep_cursor n = str_of_int n"

definition decode_keep_cursor :: "file_world \<Rightarrow> bytes \<Rightarrow> int res" where
  "decode_keep_cursor w cursor = (if cursor = [] then Ok 0 else if \<not> is_ascii cursor then Ok 0
     else (case py_int cursor of Some n \<Rightarrow> Ok n
       | None \<Rightarrow> (case fw_float w cursor of NoFloat \<Rightarrow> Ok 0 | Nanos n \<Rightarrow> Ok n
         | TooBig \<Rightarrow> Raise (Exn ''OverflowError'' ''cannot convert float infinity to integer''))))"

definition keep_cursor_decodes :: "file_world \<Rightarrow> bytes \<Rightarrow> bool" where
  "keep_cursor_decodes w cursor = (is_ascii cursor \<and> (py_int cursor \<noteq> None
     \<or> (case fw_float w cursor of Nanos _ \<Rightarrow> True | _ \<Rightarrow> False)))"

definition file_is_after :: "file_conf \<Rightarrow> file_world \<Rightarrow> comparator" where
  "file_is_after c w new stored = (if \<not> fc_keep c then Ok True
     else if stored = [] then Ok True
     else if \<not> (keep_cursor_decodes w new \<and> keep_cursor_decodes w stored) then Ok True
     else bind_res (decode_keep_cursor w new) (\<lambda>a. map_res (\<lambda>b. b < a) (decode_keep_cursor w stored)))"

subsection \<open>Commit tokens\<close>

text \<open>\<open>json.dumps\<close> of a list of strings, and \<open>json.loads\<close> of an array of strings; another document
  under a token is not modelled.\<close>

definition hex_digit :: "nat \<Rightarrow> char" where
  "hex_digit d = (if d < 10 then digit_char d else char_of (87 + d))"

definition json_char :: "char \<Rightarrow> string" where
  "json_char c = (let k = (of_char c :: nat) in
     if k = 34 then [CHR 0x5C, CHR 0x22] else if k = 92 then [CHR 0x5C, CHR 0x5C]
     else if k = 10 then [CHR 0x5C, CHR ''n''] else if k = 13 then [CHR 0x5C, CHR ''r'']
     else if k = 9 then [CHR 0x5C, CHR ''t''] else if k = 12 then [CHR 0x5C, CHR ''f'']
     else if k = 8 then [CHR 0x5C, CHR ''b'']
     else if 32 \<le> k \<and> k \<le> 126 then [c]
     else [CHR 0x5C, CHR ''u'', CHR ''0'', CHR ''0'', hex_digit (k div 16), hex_digit (k mod 16)])"

definition json_string :: "string \<Rightarrow> string" where
  "json_string s = CHR 0x22 # concat (map json_char s) @ [CHR 0x22]"

definition json_strings :: "string list \<Rightarrow> bytes" where
  "json_strings xs = ''['' @ join '', '' (map json_string xs) @ '']''"

definition hex_val :: "char \<Rightarrow> nat option" where
  "hex_val c = (let k = (of_char c :: nat) in if 48 \<le> k \<and> k \<le> 57 then Some (k - 48)
     else if 97 \<le> k \<and> k \<le> 102 then Some (k - 87) else if 65 \<le> k \<and> k \<le> 70 then Some (k - 55) else None)"

text \<open>What follows a backslash: a character and the rest.  Code points past 255 are not modelled.\<close>

definition json_escape :: "string \<Rightarrow> (char \<times> string) option" where
  "json_escape s = (case s of [] \<Rightarrow> None | e # r \<Rightarrow>
     if e = CHR 0x22 \<or> e = CHR 0x5C \<or> e = CHR ''/'' then Some (e, r)
     else if e = CHR ''n'' then Some (CHR 0x0A, r) else if e = CHR ''r'' then Some (CHR 0x0D, r)
     else if e = CHR ''t'' then Some (CHR 0x09, r) else if e = CHR ''f'' then Some (CHR 0x0C, r)
     else if e = CHR ''b'' then Some (CHR 0x08, r)
     else if e = CHR ''u'' then (case map hex_val (take 4 r) of
         [Some 0, Some 0, Some a, Some b] \<Rightarrow> Some (char_of (16 * a + b), drop 4 r)
       | _ \<Rightarrow> None)
     else None)"

lemma json_escape_shorter: "json_escape s = Some (c, r) \<Longrightarrow> length r < length s"
  by (cases s) (auto simp: json_escape_def split: if_splits list.splits option.splits nat.splits)

text \<open>The characters up to the closing quote, and the rest.\<close>

function (sequential) json_unquote :: "string \<Rightarrow> (string \<times> string) option" where
  "json_unquote [] = None"
| "json_unquote (c # s) = (if c = CHR 0x22 then Some ([], s)
     else if c = CHR 0x5C then (case json_escape s of None \<Rightarrow> None
       | Some (x, r) \<Rightarrow> map_option (\<lambda>(xs, q). (x # xs, q)) (json_unquote r))
     else if (of_char c :: nat) < 32 then None
     else map_option (\<lambda>(xs, q). (c # xs, q)) (json_unquote s))"
  by pat_completeness auto
termination
  by (relation "measure length") (auto dest!: json_escape_shorter)

definition json_ws :: "char \<Rightarrow> bool" where
  "json_ws c \<longleftrightarrow> c \<in> {CHR '' '', CHR 0x09, CHR 0x0A, CHR 0x0D}"

lemma json_unquote_shorter: "json_unquote s = Some (x, r) \<Longrightarrow> length r < length s"
proof (induction s arbitrary: x r rule: json_unquote.induct)
  case (2 c s)
  then show ?case
    by (auto split: if_splits option.splits dest!: json_escape_shorter) fastforce+
qed simp

text \<open>The elements after \<open>[\<close> or a comma.\<close>

function (sequential) json_elements :: "string \<Rightarrow> (string list \<times> string) option" where
  "json_elements s = (case dropWhile json_ws s of [] \<Rightarrow> None | c # s1 \<Rightarrow>
     if c \<noteq> CHR 0x22 then None else (case json_unquote s1 of None \<Rightarrow> None
       | Some (x, s2) \<Rightarrow> (case dropWhile json_ws s2 of [] \<Rightarrow> None | d # s3 \<Rightarrow>
           if d = CHR '']'' then Some ([x], s3)
           else if d = CHR '','' then map_option (\<lambda>(xs, q). (x # xs, q)) (json_elements s3)
           else None)))"
  by pat_completeness auto
termination
proof (relation "measure length")
  fix s s2 s3 :: string and c s1 x0 x d
  assume a: "dropWhile json_ws s = c # s1" "json_unquote s1 = Some x0" "(x, s2) = x0" "dropWhile json_ws s2 = d # s3"
  have "length (c # s1) \<le> length s" "length (d # s3) \<le> length s2" using a(1,4) length_dropWhile_le by metis+
  moreover have "length s2 < length s1" using a(2,3) json_unquote_shorter by blast
  ultimately show "(s3, s) \<in> measure length" by simp
qed simp

declare json_elements.simps [simp del]

definition json_read_strings :: "bytes \<Rightarrow> string list option" where
  "json_read_strings b = (case dropWhile json_ws b of [] \<Rightarrow> None | c # s \<Rightarrow>
     if c \<noteq> CHR ''['' then None
     else (case dropWhile json_ws s of [] \<Rightarrow> None | d # s1 \<Rightarrow>
       if d = CHR '']'' then (if dropWhile json_ws s1 = [] then Some [] else None)
       else (case json_elements s of Some (xs, r) \<Rightarrow> if dropWhile json_ws r = [] then Some xs else None | None \<Rightarrow> None)))"

subsection \<open>A batch\<close>

definition is_file :: "fkind \<Rightarrow> bool" where
  "is_file k = (case k of Contents _ \<Rightarrow> True | Unreadable \<Rightarrow> True | _ \<Rightarrow> False)"

definition found :: "file_conf \<Rightarrow> ftree \<Rightarrow> fpath list" where
  "found c t = map fn_path (filter (\<lambda>n. below (fc_root c) (fn_path n)
     \<and> list_ex (\<lambda>sp. path_match (fs_pattern sp) (drop (length (fc_root c)) (fn_path n))) (fc_specs c)
     \<and> (is_file (fn_kind n) \<or> fc_match_dirs c \<and> fn_kind n = Folder)) t)"

definition mtime_of :: "ftree \<Rightarrow> fpath \<Rightarrow> int" where
  "mtime_of t p = (case node_at t p of Some n \<Rightarrow> fn_mtime_ns n | None \<Rightarrow> 0)"

text \<open>\<open>_collect_files\<close>: a set, sorted by modification time.\<close>

definition collect_files :: "file_conf \<Rightarrow> file_world \<Rightarrow> ftree \<Rightarrow> fpath list" where
  "collect_files c w t = sort_key (mtime_of t) (fw_order w (found c t))"

definition spec_for :: "file_conf \<Rightarrow> fpath \<Rightarrow> file_spec option" where
  "spec_for c p = find (\<lambda>sp. path_match (fs_pattern sp) p) (fc_specs c)"

text \<open>\<open>datetime.fromtimestamp(st_mtime)\<close>, in microseconds.\<close>

definition mtime_us :: "fnode \<Rightarrow> int" where "mtime_us n = round_half_even (fn_mtime n * 1000000)"

definition row_record :: "file_spec \<Rightarrow> fnode \<Rightarrow> frow \<Rightarrow> urecord" where
  "row_record sp n row = \<lparr>rec_table = fs_table sp, rec_time = (case fr_time row of Some u \<Rightarrow> u | None \<Rightarrow> mtime_us n),
     rec_columns = fr_columns row, rec_dedup_key = None, rec_payload_path = Some (path_text (fn_path n))\<rparr>"

definition node_records :: "file_conf \<Rightarrow> fnode \<Rightarrow> urecord list res" where
  "node_records c n = (case spec_for c (fn_path n) of None \<Rightarrow> Ok []
     | Some sp \<Rightarrow> (case fs_parser sp of
         None \<Rightarrow> Ok [row_record sp n \<lparr>fr_time = None, fr_columns = [(''path'', PStr (path_text (fn_path n)))]\<rparr>]
       | Some f \<Rightarrow> (case fn_kind n of
           Contents b \<Rightarrow> (case f (fn_path n) b of
               ParserRaised \<Rightarrow> Ok []
             | One row \<Rightarrow> Ok [row_record sp n row]
             | Many rows None \<Rightarrow> Ok (map (row_record sp n) rows)
             | Many rows (Some e) \<Rightarrow> Raise e)
         | _ \<Rightarrow> Ok [])))"

definition path_records :: "file_conf \<Rightarrow> ftree \<Rightarrow> fpath \<Rightarrow> urecord list res" where
  "path_records c t p = (case node_at t p of None \<Rightarrow> Ok [] | Some n \<Rightarrow> node_records c n)"

definition payload_paths :: "urecord list \<Rightarrow> string list" where
  "payload_paths rs = rev (remdups (rev (List.map_filter rec_payload_path rs)))"

definition latest_mtime :: "ftree \<Rightarrow> urecord list \<Rightarrow> int" where
  "latest_mtime t rs = Max ((\<lambda>s. mtime_of t (path_of s)) ` set (payload_paths rs))"

definition file_batch :: "file_conf \<Rightarrow> ftree \<Rightarrow> urecord list \<Rightarrow> batch" where
  "file_batch c t rs = (if fc_keep c
     then \<lparr>bt_records = rs, bt_cursor_after = encode_keep_cursor (latest_mtime t rs), bt_commit_token = []\<rparr>
     else \<lparr>bt_records = rs, bt_cursor_after = ''<delete-on-ack>'', bt_commit_token = json_strings (payload_paths rs)\<rparr>)"

text \<open>The files past the cursor, oldest first.\<close>

definition pending_files :: "file_conf \<Rightarrow> file_world \<Rightarrow> bytes \<Rightarrow> ftree \<Rightarrow> fpath list res" where
  "pending_files c w cursor t = (let fs = collect_files c w t in
     if \<not> fc_keep c \<or> fs = [] then Ok fs
     else map_res (\<lambda>past. filter (\<lambda>p. past < mtime_of t p) fs) (decode_keep_cursor w cursor))"

definition file_batches :: "file_conf \<Rightarrow> file_world \<Rightarrow> bytes \<Rightarrow> nat \<Rightarrow> ftree \<Rightarrow> batch option res" where
  "file_batches c w cursor limit t = (if \<not> path_exists t (fc_root c) then Ok None
     else bind_res (pending_files c w cursor t) (\<lambda>fs.
       map_res (\<lambda>rss. if concat rss = [] then None else Some (file_batch c t (concat rss)))
         (mapM_res (path_records c t) (take limit fs))))"

subsection \<open>Commit\<close>

text \<open>\<open>unlink(missing_ok=True)\<close>: a folder or a locked path is refused.\<close>

definition unlink :: "file_world \<Rightarrow> fpath \<Rightarrow> ftree \<Rightarrow> ftree option" where
  "unlink w p t = (case node_at t p of None \<Rightarrow> Some t
     | Some n \<Rightarrow> if fn_kind n = Folder \<or> fw_locked w p then None else Some (filter (\<lambda>m. fn_path m \<noteq> p) t))"

fun unlink_all :: "file_world \<Rightarrow> fpath list \<Rightarrow> ftree \<Rightarrow> ftree \<times> fpath list" where
  "unlink_all w [] t = (t, [])"
| "unlink_all w (p # ps) t = (case unlink w p t of
     None \<Rightarrow> unlink_all w ps t
   | Some t1 \<Rightarrow> (let (t2, ds) = unlink_all w ps t1 in (t2, List.insert (butlast p) ds)))"

definition is_empty_dir :: "ftree \<Rightarrow> fpath \<Rightarrow> bool" where
  "is_empty_dir t d \<longleftrightarrow> (case node_at t d of Some n \<Rightarrow> fn_kind n = Folder | None \<Rightarrow> False)
     \<and> list_all (\<lambda>m. \<not> below d (fn_path m)) t"

definition rmdir :: "file_world \<Rightarrow> fpath \<Rightarrow> ftree \<Rightarrow> ftree option" where
  "rmdir w d t = (if is_empty_dir t d \<and> \<not> fw_locked w d then Some (filter (\<lambda>m. fn_path m \<noteq> d) t) else None)"

lemma rmdir_shorter: "rmdir w d t = Some t' \<Longrightarrow> length t' < length t"
  unfolding rmdir_def is_empty_dir_def node_at_def
  by (auto split: if_splits option.splits simp: find_Some_iff intro!: length_filter_less)

text \<open>The loop that prunes: a removed folder sends its parent to the end of the queue.\<close>

function prune :: "file_world \<Rightarrow> fpath \<Rightarrow> fpath list \<Rightarrow> ftree \<Rightarrow> ftree" where
  "prune w r [] t = t"
| "prune w r (d # ds) t = (if d = r \<or> \<not> below r d then prune w r ds t
     else (case rmdir w d t of None \<Rightarrow> prune w r ds t
       | Some t1 \<Rightarrow> prune w r (if butlast d \<noteq> r then ds @ [butlast d] else ds) t1))"
  by pat_completeness auto
termination
  by (relation "measure (\<lambda>(w, r, ds, t). 2 * length t + length ds)") (auto dest!: rmdir_shorter)

definition file_commit :: "file_conf \<Rightarrow> file_world \<Rightarrow> bytes \<Rightarrow> ftree \<Rightarrow> ftree" where
  "file_commit c w token t = (if fc_keep c \<or> token = [] then t
     else (case json_read_strings token of None \<Rightarrow> t
       | Some ss \<Rightarrow> (let (t1, ds) = unlink_all w (map path_of ss) t in
           if fc_prune c then prune w (fc_root c) (sort_key (\<lambda>d. - int (length d)) (fw_order w ds)) t1 else t1)))"

end
