(* ===== verification/TarRows.thy ===== *)
theory TarRows
  imports WsprNet FileTree
begin

text \<open>
  The tar of a wsprdaemon shipment, \<open>transports/wsprdaemon.py\<close>: the rows of a batch filed by receiver,
  band, mode and cycle, the lines of each file, the routing table, and the files of a spool.

  Parameters, beside those of \<open>WsprNet\<close>: \<open>datetime.fromisoformat\<close> as the fields of the time it reads
  (years of four digits), the functions of \<open>math\<close> on doubles, \<open>json.dumps\<close>, \<open>tarfile\<close>, the codecs and
  whether \<open>zstandard\<close> is there, and which spool files \<open>tarfile\<close> can add.
\<close>

type_synonym stamp6 = "nat \<times> nat \<times> nat \<times> nat \<times> nat \<times> nat"

datatype tar_entry = Data string bytes | Disk string fpath

record tar_world = net_world +
  tw_iso :: "string \<Rightarrow> stamp6 option"
  tw_sin :: "rat \<Rightarrow> rat"
  tw_cos :: "rat \<Rightarrow> rat"
  tw_atan2 :: "rat \<Rightarrow> rat \<Rightarrow> rat"
  tw_sqrt :: "rat \<Rightarrow> rat"
  tw_acos :: "rat \<Rightarrow> rat option"
  tw_radians :: "rat \<Rightarrow> rat"
  tw_degrees :: "rat \<Rightarrow> rat"
  tw_dumps :: "pyval \<Rightarrow> string"
  tw_tar :: "tar_entry list \<Rightarrow> int \<Rightarrow> bytes"
  tw_compress :: "string \<Rightarrow> int \<Rightarrow> bytes \<Rightarrow> bytes"
  tw_has_zstd :: bool
  tw_addable :: "fpath \<Rightarrow> bool"

subsection \<open>Small parts\<close>

function replace_all :: "string \<Rightarrow> string \<Rightarrow> string \<Rightarrow> string" where
  "replace_all old new s = (case s of [] \<Rightarrow> []
     | c # cs \<Rightarrow> if old \<noteq> [] \<and> starts_with s old then new @ replace_all old new (drop (length old) s)
         else c # replace_all old new cs)"
  by pat_completeness auto
termination by (relation "measure (\<lambda>(old, new, s). length s)") auto

declare replace_all.simps [simp del]

definition build_rx_site :: "string \<Rightarrow> string \<Rightarrow> string" where
  "build_rx_site call grid = (let base = replace_all ''/'' ''='' call in if grid = [] then base else base @ ''_'' @ grid)"

definition text_lines :: "string list \<Rightarrow> bytes" where
  "text_lines ls = utf8 (join [CHR 0x0A] ls) @ [CHR 0x0A]"

definition config_bytes :: "string \<Rightarrow> bytes" where
  "config_bytes version = text_lines [''CLIENT_VERSION='' @ version, ''UPLOADS_WSPRNET_LINE_FORMAT_VERSION=1'',
     ''UPLOADS_WSPRDAEMON_SPOT_LINE_FORMAT_VERSION=3'', ''SIGNAL_LEVEL_UPLOAD=yes'']"

definition client_info_bytes :: "string \<Rightarrow> string \<Rightarrow> bytes" where
  "client_info_bytes reporter pubkey = text_lines [''reporter_id='' @ reporter, ''ssh_public_key='' @ pubkey]"

definition compress_tar :: "'a tar_world_scheme \<Rightarrow> string \<Rightarrow> int \<Rightarrow> bytes \<Rightarrow> bytes" where
  "compress_tar w codec level raw = (if codec = ''zstd'' \<and> tw_has_zstd w then tw_compress w ''zstd'' level raw
     else tw_compress w ''bz2'' (if codec = ''zstd'' then 9 else max 1 (min 9 level)) raw)"

definition key_error :: "string \<Rightarrow> exn" where "key_error k = Exn ''KeyError'' k"

definition no_attribute :: exn where "no_attribute = Exn ''AttributeError'' ''object has no attribute''"

definition wrong_type :: exn where "wrong_type = Exn ''TypeError'' ''wrong type''"

definition col :: "pydict \<Rightarrow> string \<Rightarrow> pyval res" where
  "col cols k = (case map_of cols k of Some v \<Rightarrow> Ok v | None \<Rightarrow> Raise (key_error k))"

text \<open>A number as a double, in arithmetic and under \<open>%f\<close>: no text is read.\<close>

definition number :: "'a net_world_scheme \<Rightarrow> pyval \<Rightarrow> pyval res" where
  "number w v = (case v of PStr _ \<Rightarrow> Raise wrong_type | _ \<Rightarrow> float_of (net_world.truncate w) v)"

definition or_float :: "pydict \<Rightarrow> string \<Rightarrow> pyval" where "or_float cols k = py_or (py_get cols k) (PFloat 0)"

definition or_int :: "pydict \<Rightarrow> string \<Rightarrow> int \<Rightarrow> int res" where
  "or_int cols k dflt = int_of_value (py_or (py_get cols k) (PInt dflt))"

definition f_fmt :: "'a net_world_scheme \<Rightarrow> nat \<Rightarrow> nat \<Rightarrow> pyval \<Rightarrow> string res" where
  "f_fmt w width p v = map_res (fmt_float width p) (number w v)"

definition d_fmt :: "nat \<Rightarrow> int res \<Rightarrow> string res" where "d_fmt width i = map_res (fmt_int width) i"

definition scaled_int :: "'a net_world_scheme \<Rightarrow> rat \<Rightarrow> pyval \<Rightarrow> int res" where
  "scaled_int w k v = bind_res (number w v) (\<lambda>x. round_value (scaled (net_world.truncate w) k x))"

definition line_of :: "string res list \<Rightarrow> string res" where
  "line_of parts = map_res (join '' '') (mapM_res (\<lambda>x. x) parts)"

subsection \<open>Times, bands, positions\<close>

definition iso_stamp :: "'a tar_world_scheme \<Rightarrow> pyval \<Rightarrow> stamp6 res" where
  "iso_stamp w v = (case v of PStr s \<Rightarrow>
       (case tw_iso w (if ends_with s ''Z'' then replace_all ''Z'' ''+00:00'' s else s) of
          Some t \<Rightarrow> Ok t | None \<Rightarrow> Raise (Exn ''ValueError'' ''Invalid isoformat string''))
     | _ \<Rightarrow> Raise no_attribute)"

text \<open>\<open>_ts_from_iso\<close>: date, time of day, file name stamp.\<close>

definition ts_from_iso :: "'a tar_world_scheme \<Rightarrow> pyval \<Rightarrow> (string \<times> string \<times> string) res" where
  "ts_from_iso w v = (case iso_stamp w v of Raise e \<Rightarrow> Raise e | Ok (y, mo, d, h, mi, s) \<Rightarrow> Ok
     (fixed_digits 2 (y mod 100) @ fixed_digits 2 mo @ fixed_digits 2 d, fixed_digits 2 h @ fixed_digits 2 mi,
      fixed_digits 4 y @ fixed_digits 2 mo @ fixed_digits 2 d @ ''_'' @ fixed_digits 2 h @ fixed_digits 2 mi @ fixed_digits 2 s))"

definition psk_cycle_key :: "'a tar_world_scheme \<Rightarrow> pyval \<Rightarrow> string" where
  "psk_cycle_key w v = (case v of PStr s \<Rightarrow> (case tw_iso w (replace_all ''Z'' ''+00:00'' s) of
       Some (y, mo, d, h, mi, _) \<Rightarrow> fixed_digits 2 (y mod 100) @ fixed_digits 2 mo @ fixed_digits 2 d @ ''_''
         @ fixed_digits 2 h @ fixed_digits 2 (mi div 2 * 2)
     | None \<Rightarrow> ''000000_0000'')
   | _ \<Rightarrow> ''000000_0000'')"

definition band_table :: "(int \<times> int) list" where
  "band_table = [(1, 2200), (4, 630), (18, 160), (35, 80), (52, 60), (53, 60), (70, 40), (101, 30), (140, 20), (181, 17),
     (210, 15), (249, 12), (281, 10), (502, 6), (700, 4), (1444, 2), (4323, 70), (12965, 23)]"

definition freq_to_band :: "'a net_world_scheme \<Rightarrow> pyval \<Rightarrow> int res" where
  "freq_to_band w mhz = map_res (\<lambda>f. case map_of band_table f of Some b \<Rightarrow> b | None \<Rightarrow> 9999)
     (int_of_value (scaled (net_world.truncate w) 10 mhz))"

definition absent :: rat where "absent = - 999"

definition loc_to_lat_lon :: "'a net_world_scheme \<Rightarrow> string \<Rightarrow> (rat \<times> rat) option" where
  "loc_to_lat_lon w locator = (let d = py_strip locator; o1 = (\<lambda>i. of_int (int (of_char (d ! i))) :: rat); r = nw_round w;
       lat = (o1 1 - 65) * 10 + (o1 3 - 48) + 1 / 2 - 90; lon = (o1 0 - 65) * 20 + (o1 2 - 48) * 2 + 1 - 180;
       base = (if o1 4 > 88 then 96 else 64) in
     if length d < 4 then None
     else if length d = 6 then Some (r (r (lat - 1 / 2 + r ((o1 5 - base) / 24)) - r (1 / 48)),
         r (r (lon - 1 + r ((o1 4 - base) / 12)) - r (1 / 24)))
     else Some (lat, lon))"

definition mod_360 :: "'a net_world_scheme \<Rightarrow> rat \<Rightarrow> rat" where
  "mod_360 w x = nw_round w (x - 360 * of_int \<lfloor>x / 360\<rfloor>)"

text \<open>The distance and azimuths, after \<open>band\<close>: km, rx azimuth, latitude and longitude, the same of tx, and
  the vertex.\<close>

definition great_circle :: "'a tar_world_scheme \<Rightarrow> rat \<times> rat \<Rightarrow> rat \<times> rat \<Rightarrow> rat list" where
  "great_circle w tx rx = (let r = nw_round w; mul = (\<lambda>a b. r (a * b)); (tx_lat, tx_lon) = tx; (rx_lat, rx_lon) = rx;
       phi_tx = tw_radians w tx_lat; lam_tx = tw_radians w tx_lon; phi_rx = tw_radians w rx_lat; lam_rx = tw_radians w rx_lon;
       d_phi = r (phi_tx - phi_rx); d_lam = r (lam_tx - lam_rx);
       y = mul (tw_sin w d_lam) (tw_cos w phi_tx);
       x = r (mul (tw_cos w phi_rx) (tw_sin w phi_tx) - mul (mul (tw_sin w phi_rx) (tw_cos w phi_tx)) (tw_cos w d_lam));
       rx_az = mod_360 w (tw_degrees w (tw_atan2 w y x));
       y2 = mul (tw_sin w (- d_lam)) (tw_cos w phi_rx);
       x2 = r (mul (tw_cos w phi_tx) (tw_sin w phi_rx) - mul (mul (tw_sin w phi_tx) (tw_cos w phi_rx)) (tw_cos w (- d_lam)));
       tx_az = mod_360 w (tw_degrees w (tw_atan2 w y2 x2));
       sp = tw_sin w (r (d_phi / 2)); sl = tw_sin w (r (d_lam / 2));
       a = r (mul sp sp + mul (mul (tw_cos w phi_rx) (tw_cos w phi_tx)) (mul sl sl));
       c = r (2 * tw_atan2 w (tw_sqrt w (max 0 a)) (tw_sqrt w (max 0 (r (1 - a)))));
       km = mul 6371 c; sc = tw_sin w (r (c / 2));
       v = (if c > r (1 / 1000000000)
         then if sc = 0 then None else tw_acos w (r (mul (mul (tw_cos w phi_rx) (tw_cos w phi_tx)) \<bar>sl\<bar> / sc)) else Some phi_rx) in
     [km, rx_az, rx_lat, rx_lon, tx_az, tx_lat, tx_lon]
       @ (case v of None \<Rightarrow> [absent, absent]
          | Some vr \<Rightarrow> [tw_degrees w vr * (if tx_lat > rx_lat then 1 else - 1), r (r (tx_lon + rx_lon) / 2)]))"

definition derive_geo :: "'a tar_world_scheme \<Rightarrow> pyval \<Rightarrow> string \<Rightarrow> rat list res" where
  "derive_geo w tx_grid rx_grid = (case tx_grid of PStr g \<Rightarrow> Ok (
       if py_lower g = ''none'' \<or> length (py_strip g) < 4 then replicate 9 absent
       else (case (loc_to_lat_lon w g, loc_to_lat_lon w rx_grid) of
          (Some tx, Some rx) \<Rightarrow> great_circle w tx rx | _ \<Rightarrow> replicate 9 absent))
     | _ \<Rightarrow> Raise no_attribute)"

subsection \<open>Lines\<close>

definition extended_line :: "'a tar_world_scheme \<Rightarrow> pydict \<Rightarrow> string \<Rightarrow> string \<Rightarrow> bool \<Rightarrow> string res" where
  "extended_line w cols rx_call rx_grid proxy =
     bind_res (bind_res (col cols ''time'') (ts_from_iso w)) (\<lambda>(date, hhmm, _).
     bind_res (bind_res (bind_res (col cols ''frequency_hz'') (number w)) (\<lambda>x. Ok (scaled (net_world.truncate w) (1 / 1000000) x))) (\<lambda>mhz.
     let grid = py_or (py_get cols ''grid'') (PStr ''none'') in
     bind_res (scaled_int w 60 (or_float cols ''drift_hz_per_s'')) (\<lambda>drift.
     bind_res (scaled_int w 1000 (or_float cols ''metric'')) (\<lambda>metric.
     bind_res (freq_to_band w mhz) (\<lambda>band.
     bind_res (derive_geo w grid rx_grid) (\<lambda>geo.
     line_of ([Ok (pad_left 6 date), Ok (pad_left 4 hhmm), f_fmt w 5 2 (or_float cols ''sync_quality''),
        bind_res (col cols ''snr_db'') (\<lambda>v. map_res (fmt_float 6 2) (float_of (net_world.truncate w) v)),
        f_fmt w 5 2 (or_float cols ''dt''), f_fmt w 12 7 mhz,
        map_res (\<lambda>v. pad_right 14 (net_str (net_world.truncate w) v)) (col cols ''callsign''),
        Ok (pad_right 6 (net_str (net_world.truncate w) grid)),
        d_fmt 2 (bind_res (col cols ''pwr_dbm'') int_of_value), Ok (fmt_int 2 drift),
        d_fmt 4 (or_int cols ''cycles'' 0), d_fmt 4 (or_int cols ''jitter'' 0), d_fmt 4 (or_int cols ''blocksize'' 0), Ok (fmt_int 4 metric),
        d_fmt 2 (or_int cols ''decodetype'' 0), d_fmt 3 (or_int cols ''ipass'' 0), d_fmt 3 (or_int cols ''nhardmin'' 0),
        d_fmt 2 (or_int cols ''pkt_mode'' 2), Ok (fmt_float 6 1 (PFloat 0)), Ok (fmt_float 6 1 (PFloat 0)), Ok (fmt_int 4 band),
        Ok (pad_left 6 rx_grid), Ok (pad_left 12 rx_call), Ok (fmt_int 5 (round_half_even (geo ! 0)))]
       @ map (\<lambda>x. Ok (fmt_float 6 1 (PFloat x))) (tl geo)
       @ [Ok (fmt_int 4 0), Ok (fmt_int 4 (if proxy then 1 else 0))])))))))"

definition noise_line :: "'a tar_world_scheme \<Rightarrow> pydict \<Rightarrow> string res" where
  "noise_line w cols = line_of (replicate 12 (Ok (fmt_float 5 2 (PFloat 0)))
     @ [map_res (fmt_float 5 2) (float_of (net_world.truncate w) (or_float cols ''rms_noise_dbm'')),
        map_res (fmt_float 5 2) (float_of (net_world.truncate w) (or_float cols ''fft_noise_dbm'')),
        map_res str_of_int (or_int cols ''overload_count'' 0)])"

definition short_line :: "'a tar_world_scheme \<Rightarrow> pydict \<Rightarrow> bool \<Rightarrow> string res" where
  "short_line w cols w_mode =
     bind_res (bind_res (col cols ''time'') (ts_from_iso w)) (\<lambda>(date, hhmm, _).
     bind_res (bind_res (bind_res (col cols ''frequency_hz'') (number w)) (\<lambda>x. Ok (scaled (net_world.truncate w) (1 / 1000000) x))) (\<lambda>mhz.
     line_of ([Ok (pad_right 6 date), Ok (pad_left 4 hhmm), f_fmt w 5 (if w_mode then 2 else 1) (or_float cols ''sync_quality''),
        bind_res (col cols ''snr_db'') (\<lambda>v. if w_mode then d_fmt 3 (int_of_value v)
          else map_res (fmt_float 3 0) (float_of (net_world.truncate w) v)),
        f_fmt w 5 2 (or_float cols ''dt''), f_fmt w 12 7 mhz,
        map_res (\<lambda>v. pad_right 14 (net_str (net_world.truncate w) v)) (col cols ''callsign''),
        Ok (pad_right 6 (net_str (net_world.truncate w) (py_or (py_get cols ''grid'') (PStr [])))),
        d_fmt 2 (bind_res (col cols ''pwr_dbm'') int_of_value)]
       @ (if w_mode then [d_fmt 2 (scaled_int w 60 (or_float cols ''drift_hz_per_s'')), d_fmt 4 (or_int cols ''pkt_mode'' 2)]
          else [Ok '' 0'', d_fmt 4 (or_int cols ''pkt_mode'' 3)]))))"

subsection \<open>Routing\<close>

type_synonym route = "string \<times> pydict"

definition pref :: "string \<Rightarrow> string \<times> string \<Rightarrow> pydict" where
  "pref k who = (if fst who = [] then [] else [(k, PDict [(''call'', PStr (fst who)), (''grid'', PStr (snd who))])])"

definition forwarding :: "bool \<Rightarrow> pydict" where "forwarding b = [(''forward_to_pskreporter'', PBool b)]"

text \<open>The majority of the receivers is the default; the others are named, in order.\<close>

definition majority :: "(string \<times> bool) list \<Rightarrow> bool" where
  "majority rf = (length rf \<le> 2 * length (filter snd rf))"

definition forward_routes :: "(string \<times> bool) list \<Rightarrow> route list" where
  "forward_routes rf = (if rf = [] then [(''default'', forwarding True)]
     else if card (set (map snd rf)) = 1 then [(''default'', forwarding (snd (hd rf)))]
     else (''default'', forwarding (majority rf))
       # map (\<lambda>(k, b). (k, forwarding b)) (filter (\<lambda>(k, b). b \<noteq> majority rf) (sort_key fst rf)))"

definition routing_obj :: "(string \<times> bool) list \<Rightarrow> bool option \<Rightarrow> (string \<times> string) option \<Rightarrow> (string \<times> string) option \<Rightarrow> route list" where
  "routing_obj rf fwd wsprnet psk = (let routes = forward_routes rf;
     extra = (case fwd of None \<Rightarrow> [] | Some b \<Rightarrow> [(''forward_to_wsprnet'', PBool b)])
       @ (case wsprnet of None \<Rightarrow> [] | Some who \<Rightarrow> pref ''wsprnet_reporter'' who)
       @ (case psk of None \<Rightarrow> [] | Some who \<Rightarrow> pref ''psk_reporter'' who) in
     (fst (hd routes), snd (hd routes) @ extra) # tl routes)"

definition routing_json :: "'a tar_world_scheme \<Rightarrow> route list \<Rightarrow> bytes" where
  "routing_json w routes = utf8 (tw_dumps w (PDict (map (\<lambda>(k, d). (k, PDict d)) routes))) @ [CHR 0x0A]"

subsection \<open>Filing the rows\<close>

record tar_args =
  ta_rx_call :: string
  ta_rx_grid :: string
  ta_receiver :: string
  ta_rx_site :: string
  ta_version :: string
  ta_client_info :: "(string \<times> string) option"
  ta_codec :: string
  ta_level :: int
  ta_tar_root :: string
  ta_to_wsprnet :: "bool option"
  ta_wsprnet_reporter :: "(string \<times> string) option"
  ta_psk_reporter :: "(string \<times> string) option"

text \<open>A part of a dict key: numbers that are equal are one key, and a container is none.  Two NaN count as one.\<close>

definition hashed :: "pyval \<Rightarrow> pyval" where
  "hashed v = (case v of PBool b \<Rightarrow> PInt (if b then 1 else 0) | PFloat r \<Rightarrow> if of_int \<lfloor>r\<rfloor> = r then PInt \<lfloor>r\<rfloor> else v | _ \<Rightarrow> v)"

definition hashable :: "pyval \<Rightarrow> bool" where
  "hashable v \<longleftrightarrow> (case v of PList _ \<Rightarrow> False | PDict _ \<Rightarrow> False | _ \<Rightarrow> True)"

record rx_id =
  rx_call :: string
  rx_grid :: string
  rx_recv :: string
  rx_site :: string

record tar_key =
  tk_rx :: rx_id
  tk_band :: pyval
  tk_mode :: pyval
  tk_cycle :: string

definition same_key :: "tar_key \<Rightarrow> tar_key \<Rightarrow> bool" where
  "same_key a b \<longleftrightarrow> tk_rx a = tk_rx b \<and> hashed (tk_band a) = hashed (tk_band b) \<and> hashed (tk_mode a) = hashed (tk_mode b)
     \<and> tk_cycle a = tk_cycle b"

type_synonym groups = "(tar_key \<times> pydict list) list"

text \<open>\<open>groups.setdefault(key, []).append(row)\<close>, and \<open>groups[key] = row\<close>.\<close>

fun file_row :: "tar_key \<Rightarrow> pydict \<Rightarrow> groups \<Rightarrow> groups" where
  "file_row k row [] = [(k, [row])]"
| "file_row k row ((k', rows) # gs) = (if same_key k' k then (k', rows @ [row]) # gs else (k', rows) # file_row k row gs)"

fun set_row :: "tar_key \<Rightarrow> pydict \<Rightarrow> groups \<Rightarrow> groups" where
  "set_row k row [] = [(k, [row])]"
| "set_row k row ((k', rows) # gs) = (if same_key k' k then (k', [row]) # gs else (k', rows) # set_row k row gs)"

record filed =
  fd_spots :: groups
  fd_noise :: groups
  fd_psk :: groups
  fd_forward :: "(string \<times> bool) list"

definition recv_of :: "tar_args \<Rightarrow> pydict \<Rightarrow> string res" where
  "recv_of a cols = (case py_or (py_or (py_or (py_get cols ''radiod_id'') (py_get cols ''rx_source'')) (PStr (ta_receiver a))) (PStr ''rx'') of
     PStr s \<Rightarrow> (let r = replace_all ''-status.local'' [] (replace_all ''radiod:'' [] s) in
       Ok (if r \<noteq> [] then r else if ta_receiver a \<noteq> [] then ta_receiver a else ''rx''))
   | _ \<Rightarrow> Raise no_attribute)"

definition rx_of :: "tar_args \<Rightarrow> pydict \<Rightarrow> string list \<Rightarrow> string \<Rightarrow> rx_id res" where
  "rx_of a cols call_keys grid_key =
     bind_res (stripped (py_or (foldr (\<lambda>k v. py_or (py_get cols k) v) call_keys (PStr (ta_rx_call a))) (PStr []))) (\<lambda>call.
     bind_res (stripped (py_or (py_or (py_get cols grid_key) (PStr (ta_rx_grid a))) (PStr []))) (\<lambda>grid.
     map_res (\<lambda>recv. \<lparr>rx_call = call, rx_grid = grid, rx_recv = recv,
       rx_site = (if call \<noteq> [] then build_rx_site call grid else ta_rx_site a)\<rparr>) (recv_of a cols)))"

definition row_key :: "rx_id \<Rightarrow> pyval \<Rightarrow> pyval \<Rightarrow> string \<Rightarrow> tar_key res" where
  "row_key rx band mode cycle = (if hashable band \<and> hashable mode
     then Ok \<lparr>tk_rx = rx, tk_band = band, tk_mode = mode, tk_cycle = cycle\<rparr> else Raise wrong_type)"

definition psk_band :: "'a tar_world_scheme \<Rightarrow> pydict \<Rightarrow> pyval res" where
  "psk_band w cols = (if py_truthy (py_get cols ''band'') then Ok (py_get cols ''band'')
     else bind_res (or_int cols ''frequency'' 0) (\<lambda>hz. if hz = 0 then Ok (PInt 0)
       else bind_res (float_of (net_world.truncate w) (PInt hz)) (\<lambda>x. map_res PInt (freq_to_band w (scaled (net_world.truncate w) (1 / 1000000) x)))))"

definition psk_modes :: "string list" where "psk_modes = [''ft8'', ''ft4'', ''msk144'']"

definition get_dflt :: "pydict \<Rightarrow> string \<Rightarrow> pyval \<Rightarrow> pyval" where
  "get_dflt cols k d = (case map_of cols k of Some v \<Rightarrow> v | None \<Rightarrow> d)"

definition psk_key :: "'a tar_world_scheme \<Rightarrow> tar_args \<Rightarrow> pydict \<Rightarrow> tar_key option res" where
  "psk_key w a cols = bind_res (case py_or (py_get cols ''mode'') (PStr []) of PStr m \<Rightarrow> Ok (py_lower m) | _ \<Rightarrow> Raise no_attribute) (\<lambda>mode.
     if mode \<notin> set psk_modes then Ok None
     else bind_res (psk_band w cols) (\<lambda>band.
       bind_res (rx_of a cols [''reporter_id'', ''host_call''] ''host_grid'') (\<lambda>rx.
       map_res Some (row_key (rx\<lparr>rx_call := [], rx_grid := []\<rparr>) band (PStr mode) (psk_cycle_key w (get_dflt cols ''time'' (PStr []))))))) "

definition receiver_key :: "tar_key \<Rightarrow> string" where
  "receiver_key k = rx_site (tk_rx k) @ ''/'' @ rx_recv (tk_rx k)"

definition wants_forward :: "pydict \<Rightarrow> bool" where
  "wants_forward cols = py_truthy (get_dflt cols ''forward_to_pskreporter'' (PBool True))"

definition note_forward :: "string \<Rightarrow> bool \<Rightarrow> (string \<times> bool) list \<Rightarrow> (string \<times> bool) list" where
  "note_forward k b rf = dict_set k ((case map_of rf k of Some old \<Rightarrow> old | None \<Rightarrow> True) \<and> b) rf"

text \<open>Band and file stamp of a WSPR row; none is a row that is skipped with a warning.\<close>

definition band_and_stamp :: "'a tar_world_scheme \<Rightarrow> pydict \<Rightarrow> (pyval \<times> string) option res" where
  "band_and_stamp w cols = (case bind_res (col cols ''band'') (\<lambda>band. bind_res (col cols ''time'') (\<lambda>t.
       map_res (\<lambda>(_, _, ts). (band, ts)) (ts_from_iso w t))) of
     Ok x \<Rightarrow> Ok (Some x)
   | Raise e \<Rightarrow> if exn_type e \<in> {''KeyError'', ''ValueError''} then Ok None else Raise e)"

datatype place = Skipped | Spot tar_key | Noise tar_key | Psk tar_key

definition place_of :: "'a tar_world_scheme \<Rightarrow> tar_args \<Rightarrow> urecord \<Rightarrow> place res" where
  "place_of w a r = (let cols = rec_columns r in
     if cols = [] then Ok Skipped
     else if rec_table r = ''psk.spots''
     then map_res (\<lambda>k. case k of None \<Rightarrow> Skipped | Some key \<Rightarrow> Psk key) (psk_key w a cols)
     else bind_res (band_and_stamp w cols) (\<lambda>bt. case bt of None \<Rightarrow> Ok Skipped | Some (band, ts) \<Rightarrow>
       bind_res (rx_of a cols [''rx_call''] ''rx_grid'') (\<lambda>rx.
       if rec_table r = ''wspr.noise'' then map_res Noise (row_key rx band PNone ts)
       else (case map_of cols ''mode'' of None \<Rightarrow> Ok Skipped | Some mode \<Rightarrow> map_res Spot (row_key rx band mode ts)))))"

definition put_row :: "place \<Rightarrow> pydict \<Rightarrow> filed \<Rightarrow> filed" where
  "put_row p cols f = (case p of Skipped \<Rightarrow> f
     | Spot k \<Rightarrow> f\<lparr>fd_spots := file_row k cols (fd_spots f)\<rparr>
     | Noise k \<Rightarrow> f\<lparr>fd_noise := set_row k cols (fd_noise f)\<rparr>
     | Psk k \<Rightarrow> f\<lparr>fd_psk := file_row k cols (fd_psk f), fd_forward := note_forward (receiver_key k) (wants_forward cols) (fd_forward f)\<rparr>)"

fun file_rows :: "'a tar_world_scheme \<Rightarrow> tar_args \<Rightarrow> urecord list \<Rightarrow> filed \<Rightarrow> filed res" where
  "file_rows w a [] f = Ok f"
| "file_rows w a (r # rs) f = (case place_of w a r of Raise e \<Rightarrow> Raise e | Ok p \<Rightarrow> file_rows w a rs (put_row p (rec_columns r) f))"

definition nothing_filed :: filed where
  "nothing_filed = \<lparr>fd_spots = [], fd_noise = [], fd_psk = [], fd_forward = []\<rparr>"

subsection \<open>The files of a tar\<close>

abbreviation text_v :: "'a net_world_scheme \<Rightarrow> pyval \<Rightarrow> string" where "text_v w \<equiv> net_str (net_world.truncate w)"

definition below_dir :: "string list \<Rightarrow> string" where "below_dir parts = join ''/'' parts"

definition spot_line :: "'a tar_world_scheme \<Rightarrow> tar_args \<Rightarrow> rx_id \<Rightarrow> string \<Rightarrow> pydict \<Rightarrow> string res" where
  "spot_line w a rx mode r = (if starts_with mode ''W''
     then extended_line w r (rx_call rx) (rx_grid rx) (ta_to_wsprnet a = Some True) else short_line w r False)"

definition spot_entry :: "'a tar_world_scheme \<Rightarrow> tar_args \<Rightarrow> tar_key \<times> pydict list \<Rightarrow> tar_entry res" where
  "spot_entry w a g = (case g of (k, rows) \<Rightarrow> (case tk_mode k of
       PStr mode \<Rightarrow> (let rx = tk_rx k in
         map_res (\<lambda>ls. Data (below_dir [ta_tar_root a, ''spots'', rx_site rx, rx_recv rx, text_v w (tk_band k),
             rx_recv rx @ ''_'' @ text_v w (tk_band k) @ ''_'' @ mode @ ''_'' @ tk_cycle k @ (if starts_with mode ''W'' then ''_wd_spots.txt'' else ''_spots.txt'')])
             (text_lines ls))
           (mapM_res (spot_line w a rx mode) rows))
     | _ \<Rightarrow> Raise no_attribute))"

definition noise_entry :: "'a tar_world_scheme \<Rightarrow> tar_args \<Rightarrow> tar_key \<times> pydict list \<Rightarrow> tar_entry res" where
  "noise_entry w a g = (case g of (k, rows) \<Rightarrow> (let rx = tk_rx k in
     map_res (\<lambda>ls. Data (below_dir [ta_tar_root a, ''noise'', rx_site rx, rx_recv rx, text_v w (tk_band k),
         rx_recv rx @ ''_'' @ text_v w (tk_band k) @ ''_'' @ tk_cycle k @ ''_noise.txt'']) (text_lines ls))
       (mapM_res (noise_line w) rows)))"

text \<open>
  The order of the psk rows of a file: time, then frequency.  Rows whose values do not compare raise, which
  Python does when its sort comes to compare them.
\<close>

definition is_number :: "pyval \<Rightarrow> bool" where
  "is_number v \<longleftrightarrow> (case v of PBool _ \<Rightarrow> True | PInt _ \<Rightarrow> True | PFloat _ \<Rightarrow> True | PInf _ \<Rightarrow> True | PNaN \<Rightarrow> True | _ \<Rightarrow> False)"

definition is_text :: "pyval \<Rightarrow> bool" where "is_text v \<longleftrightarrow> (case v of PStr _ \<Rightarrow> True | _ \<Rightarrow> False)"

definition ordered :: "pyval \<Rightarrow> pyval \<Rightarrow> bool" where
  "ordered a b \<longleftrightarrow> hashed a = hashed b \<or> is_number a \<and> is_number b \<or> is_text a \<and> is_text b"

definition value_rank :: "pyval \<Rightarrow> string \<times> nat \<times> rat" where
  "value_rank v = (case hashed v of PStr s \<Rightarrow> (s, 0, 0) | PInt i \<Rightarrow> ([], float_order (PFloat (of_int i))) | x \<Rightarrow> ([], float_order x))"

definition psk_rank :: "pydict \<Rightarrow> pyval \<times> pyval" where
  "psk_rank cols = (get_dflt cols ''time'' (PStr []), get_dflt cols ''frequency'' (PInt 0))"

definition comparable :: "pydict \<Rightarrow> pydict \<Rightarrow> bool" where
  "comparable a b \<longleftrightarrow> (if hashed (fst (psk_rank a)) = hashed (fst (psk_rank b)) then ordered (snd (psk_rank a)) (snd (psk_rank b))
     else ordered (fst (psk_rank a)) (fst (psk_rank b)))"

definition sort_psk :: "pydict list \<Rightarrow> pydict list res" where
  "sort_psk rows = (if list_all (\<lambda>a. list_all (comparable a) rows) rows
     then Ok (sort_key (\<lambda>r. (value_rank (fst (psk_rank r)), value_rank (snd (psk_rank r)))) rows) else Raise wrong_type)"

definition psk_entry :: "'a tar_world_scheme \<Rightarrow> tar_key \<times> pydict list \<Rightarrow> tar_entry res" where
  "psk_entry w g = (case g of (k, rows) \<Rightarrow> (let rx = tk_rx k; mode = text_v w (tk_mode k) in
     map_res (\<lambda>rs. Data (below_dir [mode, rx_site rx, rx_recv rx, text_v w (tk_band k), tk_cycle k @ ''_'' @ mode @ ''.jsonl''])
         (text_lines (map (\<lambda>c. tw_dumps w (PDict c)) rs)))
       (sort_psk rows)))"

definition info_entries :: "tar_args \<Rightarrow> tar_entry list" where
  "info_entries a = Data ''uploads_config.txt'' (config_bytes (ta_version a))
     # (case ta_client_info a of None \<Rightarrow> [] | Some (who, key) \<Rightarrow> [Data ''client_upload_info.txt'' (client_info_bytes who key)])"

definition needs_routing :: "tar_args \<Rightarrow> filed \<Rightarrow> bool" where
  "needs_routing a f \<longleftrightarrow> fd_psk f \<noteq> [] \<or> ta_to_wsprnet a \<noteq> None \<or> ta_wsprnet_reporter a \<noteq> None \<or> ta_psk_reporter a \<noteq> None"

definition routing_entries :: "'a tar_world_scheme \<Rightarrow> tar_args \<Rightarrow> filed \<Rightarrow> tar_entry list" where
  "routing_entries w a f = (if needs_routing a f
     then [Data ''routing.json'' (routing_json w (routing_obj (fd_forward f) (ta_to_wsprnet a) (ta_wsprnet_reporter a) (ta_psk_reporter a)))]
     else [])"

definition record_entries :: "'a tar_world_scheme \<Rightarrow> tar_args \<Rightarrow> urecord list \<Rightarrow> tar_entry list res" where
  "record_entries w a rs = (case file_rows w a rs nothing_filed of Raise e \<Rightarrow> Raise e | Ok f \<Rightarrow>
     (case mapM_res (spot_entry w a) (fd_spots f) of Raise e \<Rightarrow> Raise e | Ok spots \<Rightarrow>
     (case mapM_res (noise_entry w a) (fd_noise f) of Raise e \<Rightarrow> Raise e | Ok noise \<Rightarrow>
     (case mapM_res (psk_entry w) (fd_psk f) of Raise e \<Rightarrow> Raise e | Ok psk \<Rightarrow>
        Ok (info_entries a @ routing_entries w a f @ spots @ noise @ psk)))))"

definition tar_from_records :: "'a tar_world_scheme \<Rightarrow> tar_args \<Rightarrow> int \<Rightarrow> urecord list \<Rightarrow> bytes res" where
  "tar_from_records w a now rs = map_res (\<lambda>es. compress_tar w (ta_codec a) (ta_level a) (tw_tar w es now)) (record_entries w a rs)"

subsection \<open>The files of a spool\<close>

definition path_name :: "fpath \<Rightarrow> string" where "path_name p = (if p = [] then [] else last p)"

text \<open>\<open>YYYYMMDD_HHMMSS_noise.txt\<close> at the end of a name, as \<open>YYMMDD_HHMM_noise.txt\<close>.\<close>

definition noise_name :: "string \<Rightarrow> string" where
  "noise_name name = (let stem = take (length name - length ''_noise.txt'') name; t = drop (length stem - 15) stem in
     if length t = 15 \<and> t ! 8 = CHR ''_'' \<and> list_all digit (take 8 t) \<and> list_all digit (drop 9 t)
     then take 6 (drop 2 t) @ ''_'' @ take 4 (drop 9 t) @ ''_noise.txt'' else name)"

definition arcname_for :: "fpath \<Rightarrow> fpath \<Rightarrow> string \<Rightarrow> string \<Rightarrow> string" where
  "arcname_for path base site tar_root = (let rel = drop (length base) path; is_noise = ends_with (path_name path) ''_noise.txt'' in
     if take (length base) path \<noteq> base then below_dir [tar_root, path_name path]
     else if is_noise \<and> 4 \<le> length rel then below_dir [tar_root, ''noise'', site, rel ! 0, rel ! 1, noise_name (path_name path)]
     else if \<not> is_noise \<and> 3 \<le> length rel then below_dir [tar_root, ''spots'', site, rel ! 0, rel ! 1, path_name path]
     else below_dir [tar_root, if rel = [] then ''.'' else join ''/'' rel])"

definition spool_entries :: "'a tar_world_scheme \<Rightarrow> tar_args \<Rightarrow> fpath \<Rightarrow> fpath list \<Rightarrow> tar_entry list" where
  "spool_entries w a base paths = info_entries a
     @ map (\<lambda>p. Disk (arcname_for p base (ta_rx_site a) (ta_tar_root a)) p) (filter (tw_addable w) paths)"

definition tar_from_spool :: "'a tar_world_scheme \<Rightarrow> tar_args \<Rightarrow> int \<Rightarrow> fpath \<Rightarrow> fpath list \<Rightarrow> bytes" where
  "tar_from_spool w a now base paths = compress_tar w (ta_codec a) (ta_level a) (tw_tar w (spool_entries w a base paths) now)"

end
