(* ===== verification/SftpRun.thy ===== *)
theory SftpRun
  imports PskReporter
begin

text \<open>
  What the file transports share: subprocesses and temporary files, the station's ssh key
  (\<open>config.py\<close>), the text of a changed host key, and trying one server after the other.

  Parameters: what each subprocess answers, in the order they are run, the names of temporary files,
  whether the key directory can be made and the public key \<open>ssh-keygen\<close> writes.  There is one key file
  for a station; a temporary file can always be removed.
\<close>

record host_identity = identity +
  hi_station_id :: string
  hi_key_file :: string
  hi_radiod_id :: string

datatype sub_answer = Exited int string | Timed_out | Broke exn

record sub_run =
  sr_cmd :: "string list"
  sr_input :: "bytes option"
  sr_files :: "(string \<times> bytes) list"

record host_world =
  hw_run :: "nat \<Rightarrow> sub_answer"
  hw_tmp :: "nat \<Rightarrow> string"
  hw_mkdir :: "exn option"
  hw_public :: string
  hw_repr :: "string list \<Rightarrow> string"
  hw_now :: int

text \<open>The runs so far with the temporary files each could read, the temporary files and how many were
  made, whether the key is there, and the public key file.\<close>

record host =
  ho_runs :: "sub_run list"
  ho_tmp :: "(string \<times> bytes) list"
  ho_made :: nat
  ho_key :: bool
  ho_public :: "string option"

definition run_sub :: "host_world \<Rightarrow> string list \<Rightarrow> bytes option \<Rightarrow> host \<Rightarrow> sub_answer \<times> host" where
  "run_sub w cmd input h = (hw_run w (length (ho_runs h)),
     h\<lparr>ho_runs := ho_runs h @ [\<lparr>sr_cmd = cmd, sr_input = input, sr_files = ho_tmp h\<rparr>]\<rparr>)"

definition make_tmp :: "host_world \<Rightarrow> bytes \<Rightarrow> host \<Rightarrow> string \<times> host" where
  "make_tmp w data h = (let name = hw_tmp w (ho_made h) in
     (name, h\<lparr>ho_tmp := ho_tmp h @ [(name, data)], ho_made := Suc (ho_made h)\<rparr>))"

definition drop_tmp :: "string list \<Rightarrow> host \<Rightarrow> host" where
  "drop_tmp names h = h\<lparr>ho_tmp := filter (\<lambda>f. fst f \<notin> set names) (ho_tmp h)\<rparr>"

subsection \<open>The key of the station\<close>

definition keygen_cmd :: "'a host_identity_scheme \<Rightarrow> string list" where
  "keygen_cmd ident = [''ssh-keygen'', ''-q'', ''-t'', ''ed25519'', ''-f'', hi_key_file ident, ''-N'', [], ''-C'',
     ''hs-uploader@'' @ (if hi_radiod_id ident \<noteq> [] then hi_radiod_id ident
       else if id_call ident \<noteq> [] then id_call ident else ''unknown'')]"

definition ensure_ssh_key :: "host_world \<Rightarrow> 'a host_identity_scheme \<Rightarrow> host \<Rightarrow> unit res \<times> host" where
  "ensure_ssh_key w ident h = (if ho_key h then (Ok (), h)
     else case hw_mkdir w of Some e \<Rightarrow> (Raise e, h)
     | None \<Rightarrow> (case run_sub w (keygen_cmd ident) None h of
         (Exited rc _, h') \<Rightarrow> if rc = 0 then (Ok (), h'\<lparr>ho_key := True, ho_public := Some (hw_public w)\<rparr>)
           else (Raise (Exn ''CalledProcessError'' ''ssh-keygen''), h')
       | (Timed_out, h') \<Rightarrow> (Raise (Exn ''CalledProcessError'' ''ssh-keygen''), h')
       | (Broke e, h') \<Rightarrow> (Raise e, h')))"

text \<open>\<open>_ensure_identity_key\<close>: a failure is only logged.\<close>

definition ensure_identity_key :: "host_world \<Rightarrow> 'a host_identity_scheme \<Rightarrow> host \<Rightarrow> host" where
  "ensure_identity_key w ident h = snd (ensure_ssh_key w ident h)"

definition public_key :: "host \<Rightarrow> string" where
  "public_key h = (case ho_public h of Some s \<Rightarrow> py_strip s | None \<Rightarrow> [])"

subsection \<open>One sftp\<close>

definition sftp_answer :: "string \<Rightarrow> sub_answer \<Rightarrow> (int \<times> string) res" where
  "sftp_answer late a = (case a of Exited rc out \<Rightarrow> Ok (rc, out) | Timed_out \<Rightarrow> Ok (1, late) | Broke e \<Rightarrow> Raise e)"

definition options :: "string list \<Rightarrow> string list" where "options opts = concat (map (\<lambda>x. [''-o'', x]) opts)"

text \<open>\<open>_HOST_KEY_ERR.search(out)\<close>, whatever the case of the letters.\<close>

fun contains :: "string \<Rightarrow> string \<Rightarrow> bool" where
  "contains [] p = (p = [])"
| "contains (c # s) p = (starts_with (c # s) p \<or> contains s p)"

fun contains_then :: "string \<Rightarrow> string \<Rightarrow> string \<Rightarrow> bool" where
  "contains_then [] p q = False"
| "contains_then (c # s) p q = (starts_with (c # s) p \<and> contains (takeWhile (\<lambda>x. x \<noteq> CHR 0x0A) (drop (length p) (c # s))) q
     \<or> contains_then s p q)"

definition host_key_changed :: "string \<Rightarrow> bool" where
  "host_key_changed out = (let t = py_lower out in contains t ''remote host identification has changed''
     \<or> contains t ''host key verification failed'' \<or> contains_then t ''host key'' ''has changed'')"

definition forget_host_cmd :: "string \<Rightarrow> string \<Rightarrow> string list" where
  "forget_host_cmd known_hosts server = [''ssh-keygen'', ''-f'', known_hosts, ''-R'', server]"

text \<open>A run whose result is not looked at; only what it raises counts.\<close>

definition run_blind :: "host_world \<Rightarrow> string list \<Rightarrow> host \<Rightarrow> unit res \<times> host" where
  "run_blind w cmd h = (case run_sub w cmd None h of (Broke e, h') \<Rightarrow> (Raise e, h') | (_, h') \<Rightarrow> (Ok (), h'))"

definition default_known_hosts :: "(string \<Rightarrow> string option) \<Rightarrow> string" where
  "default_known_hosts env = (case env ''HS_UPLOADER_STATE_DIR'' of Some d \<Rightarrow> d | None \<Rightarrow> ''/var/lib/hs-uploader'') @ ''/known_hosts''"

subsection \<open>One server after the other\<close>

text \<open>\<open>attempt server s\<close> gives \<open>Ok None\<close> when it delivered, \<open>Ok (Some err)\<close> when the next server is tried.
  The result is the server, or the last error.\<close>

fun first_success :: "('k \<Rightarrow> 's \<Rightarrow> string option res \<times> 's) \<Rightarrow> 'k list \<Rightarrow> string \<Rightarrow> 's \<Rightarrow> ('k + string) res \<times> 's" where
  "first_success attempt [] err s = (Ok (Inr err), s)"
| "first_success attempt (k # ks) err s = (case attempt k s of
     (Raise e, s') \<Rightarrow> (Raise e, s')
   | (Ok None, s') \<Rightarrow> (Ok (Inl k), s')
   | (Ok (Some e), s') \<Rightarrow> first_success attempt ks e s')"

text \<open>The servers of a list refuse, one after the other.\<close>

fun refusals :: "('k \<Rightarrow> 's \<Rightarrow> 's \<Rightarrow> bool) \<Rightarrow> 'k list \<Rightarrow> 's \<Rightarrow> 's \<Rightarrow> bool" where
  "refusals refused [] s s' = (s' = s)"
| "refusals refused (k # ks) s s' = (\<exists>t. refused k s t \<and> refusals refused ks t s')"

text \<open>
  What a client of \<open>first_success\<close> may rely on, when an attempt that delivers is a \<open>delivers\<close> step and one
  that does not is a \<open>refused\<close> step: the servers before the one that took the delivery refused it, in
  order, and the ones after it were not asked.
\<close>

locale server_attempts =
  fixes attempt :: "'k \<Rightarrow> 's \<Rightarrow> string option res \<times> 's"
    and delivers :: "'k \<Rightarrow> 's \<Rightarrow> 's \<Rightarrow> bool"
    and refused :: "'k \<Rightarrow> 's \<Rightarrow> 's \<Rightarrow> bool"
  assumes attempt_delivers: "attempt k s = (Ok None, s') \<Longrightarrow> delivers k s s'"
    and attempt_refused: "attempt k s = (Ok (Some e), s') \<Longrightarrow> refused k s s'"
begin

lemma delivered:
  "first_success attempt ks err s = (Ok (Inl k), s') \<Longrightarrow>
     \<exists>pre post t. ks = pre @ k # post \<and> refusals refused pre s t \<and> delivers k t s'"
proof (induction ks arbitrary: err s)
  case (Cons k0 ks)
  obtain r t where a: "attempt k0 s = (r, t)" by fastforce
  show ?case
  proof (cases "r = Ok None")
    case True
    then show ?thesis using Cons.prems a attempt_delivers by (intro exI [of _ "[]"] exI [of _ ks] exI [of _ s]) auto
  next
    case False
    then obtain e where r: "r = Ok (Some e)" using Cons.prems a by (cases r) auto
    then have "first_success attempt ks e t = (Ok (Inl k), s')" using Cons.prems a by simp
    then obtain pre post u where "ks = pre @ k # post" "refusals refused pre t u" "delivers k u s'" using Cons.IH by blast
    moreover have "refused k0 s t" using a r attempt_refused by simp
    ultimately show ?thesis by (intro exI [of _ "k0 # pre"] exI [of _ post] exI [of _ u]) auto
  qed
qed simp

lemma nobody:
  "first_success attempt ks err s = (Ok (Inr e), s') \<Longrightarrow> refusals refused ks s s'"
proof (induction ks arbitrary: err s)
  case (Cons k0 ks)
  obtain r t where a: "attempt k0 s = (r, t)" by fastforce
  then obtain e0 where r: "r = Ok (Some e0)" using Cons.prems by (cases r) (auto split: option.splits)
  then have "first_success attempt ks e0 t = (Ok (Inr e), s')" using Cons.prems a by simp
  moreover have "refused k0 s t" using a r attempt_refused by simp
  ultimately show ?case using Cons.IH by auto
qed simp

end

end
