(* ===== verification/TarShip.thy ===== *)
theory TarShip
  imports TarRows SftpRun
begin

text \<open>
  The two wsprdaemon transports, \<open>transports/wsprdaemon.py\<close>: sftp to the first gateway that takes the tar,
  with one more try after a changed host key, and the ftp fallback.

  Parameters, beside those of \<open>TarRows\<close> and \<open>SftpRun\<close>: what a whole ftp session with a gateway comes to,
  and the ftp password file.  Texts of paths are in Python's normal form.
\<close>

subsection \<open>A persistent connection\<close>

definition control_persist :: string where "control_persist = ''10m''"

definition alive_interval :: string where "alive_interval = ''30''"

definition alive_count :: string where "alive_count = ''3''"

definition control_path_max :: nat where "control_path_max = 100"

text \<open>\<open>_ssh_control_dir\<close>: \<open>usable\<close> is whether the directory can be made and written.\<close>

definition ssh_control_dir :: "(string \<Rightarrow> string option) \<Rightarrow> (string \<Rightarrow> bool) \<Rightarrow> string option" where
  "ssh_control_dir env usable = (let flag = py_strip (case env ''HS_UPLOADER_SSH_MULTIPLEX'' of Some v \<Rightarrow> v | None \<Rightarrow> ''1'');
       base = (case env ''HS_UPLOADER_SSH_CONTROL_DIR'' of Some d \<Rightarrow> d | None \<Rightarrow> ''/run/hs-uploader'') in
     if flag \<in> {''0'', ''no'', ''false''} then None else if usable base then Some base else None)"

definition ssh_control_path :: "string option \<Rightarrow> string list \<Rightarrow> string \<Rightarrow> string option" where
  "ssh_control_path base servers user = (case base of None \<Rightarrow> None | Some d \<Rightarrow>
     (let host = (if servers = [] then 32 else Max (set (map length servers)));
          who = (if user = [] then 24 else length user);
          expanded = length (d @ ''/cm-'') + who + 1 + host + 1 + length ''65535'' in
      if expanded \<le> control_path_max then Some (d @ ''/cm-%r@%h:%p'') else None))"

subsection \<open>Configuration\<close>

record tar_conf =
  tc_servers :: "string list"
  tc_spool :: "fpath option"
  tc_remote :: string
  tc_version :: string
  tc_upload_id :: "string option"
  tc_receiver :: "string option"
  tc_codec :: string
  tc_level :: int
  tc_tar_root :: string
  tc_to_wsprnet :: "bool option"
  tc_wsprnet_reporter :: "(string \<times> string) option"
  tc_psk_reporter :: "(string \<times> string) option"

record ftp_conf = tar_conf +
  fc_password_file :: "string option"
  fc_password :: "string option"

record sftp_conf = tar_conf +
  sc_user :: "string option"
  sc_known_hosts :: string
  sc_control_path :: "string option"
  sc_connect_timeout :: int
  sc_table :: string
  sc_fallback :: "ftp_conf option"

definition tar_policy :: batch_policy where "tar_policy = default_batch_policy\<lparr>bp_max_records := 10000\<rparr>"

definition login_of :: "'a host_identity_scheme \<Rightarrow> string" where
  "login_of ident = (if id_call ident = [] then ''wsprdaemon'' else replace_all ''/'' ''_'' (id_call ident))"

definition truthy_text :: "string option \<Rightarrow> bool" where "truthy_text t \<longleftrightarrow> t \<noteq> None \<and> t \<noteq> Some []"

definition sftp_user :: "sftp_conf \<Rightarrow> 'a host_identity_scheme \<Rightarrow> string" where
  "sftp_user c ident = (if truthy_text (sc_user c) then the (sc_user c) else login_of ident)"

text \<open>The name of a tar: the time of the first record, or the present second when there is none.\<close>

definition tar_name :: "'c tar_conf_scheme \<Rightarrow> 'a host_identity_scheme \<Rightarrow> int \<Rightarrow> urecord list \<Rightarrow> string" where
  "tar_name c ident now rs = (if truthy_text (tc_upload_id c) then the (tc_upload_id c) else login_of ident) @ ''_''
     @ (case rs of r # _ \<Rightarrow> utc_date (rec_time r) @ ''_'' @ utc_time (rec_time r)
        | [] \<Rightarrow> (let t = time_parts (now div 1000000) in utc_date now @ ''_'' @ utc_time now @ ''_'' @ fixed_digits 2 (t ! 2))) @ ''.tbz''"

subsection \<open>Building\<close>

definition args_of :: "'c tar_conf_scheme \<Rightarrow> 'a host_identity_scheme \<Rightarrow> (string \<times> string) option \<Rightarrow> tar_args" where
  "args_of c ident info = \<lparr>ta_rx_call = id_call ident, ta_rx_grid = id_grid ident,
     ta_receiver = (case tc_receiver c of Some r \<Rightarrow> r | None \<Rightarrow> []), ta_rx_site = build_rx_site (id_call ident) (id_grid ident),
     ta_version = tc_version c, ta_client_info = info, ta_codec = tc_codec c, ta_level = tc_level c, ta_tar_root = tc_tar_root c,
     ta_to_wsprnet = tc_to_wsprnet c, ta_wsprnet_reporter = tc_wsprnet_reporter c, ta_psk_reporter = tc_psk_reporter c\<rparr>"

definition has_path :: "urecord \<Rightarrow> bool" where "has_path r \<longleftrightarrow> truthy_text (rec_payload_path r)"

definition build_tar :: "'w tar_world_scheme \<Rightarrow> int \<Rightarrow> 'c tar_conf_scheme \<Rightarrow> 'a host_identity_scheme \<Rightarrow> (string \<times> string) option
    \<Rightarrow> urecord list \<Rightarrow> bytes option res" where
  "build_tar w now c ident info rs = (let a = args_of c ident info; paths = filter has_path rs;
       rows = filter (\<lambda>r. rec_columns r \<noteq> [] \<and> \<not> has_path r) rs in
     if paths \<noteq> [] \<and> tc_spool c \<noteq> None
     then Ok (Some (tar_from_spool w a now (the (tc_spool c)) (map (\<lambda>r. path_of (the (rec_payload_path r))) paths)))
     else if rows \<noteq> []
     then if truthy_text (tc_receiver c) then map_res Some (tar_from_records w a now rows)
       else Raise (Exn ''ValueError'' ''SqliteSource records require receiver='')
     else Ok None)"

subsection \<open>Sftp\<close>

definition put_cmd :: "string \<Rightarrow> string \<Rightarrow> string \<Rightarrow> bytes" where
  "put_cmd remote local name = (let part = remote @ ''/'' @ name @ ''.part''; dest = remote @ ''/'' @ name in
     utf8 (''put '' @ local @ '' '' @ part @ [CHR 0x0A] @ ''rename '' @ part @ '' '' @ dest @ [CHR 0x0A]))"

definition control_options :: "string \<Rightarrow> string list" where
  "control_options path = options [''ControlMaster=auto'', ''ControlPath='' @ path, ''ControlPersist='' @ control_persist,
     ''ServerAliveInterval='' @ alive_interval, ''ServerAliveCountMax='' @ alive_count]"

definition sftp_cmd :: "sftp_conf \<Rightarrow> 'a host_identity_scheme \<Rightarrow> string \<Rightarrow> string list \<Rightarrow> bool \<Rightarrow> string list" where
  "sftp_cmd c ident server extra multiplex = [''sftp'', ''-b'', ''-'']
     @ options [''BatchMode=yes'', ''ConnectTimeout='' @ str_of_int (sc_connect_timeout c), ''UserKnownHostsFile='' @ sc_known_hosts c,
         ''GlobalKnownHostsFile=/dev/null'', ''StrictHostKeyChecking=accept-new'']
     @ (if multiplex \<and> truthy_text (sc_control_path c) then control_options (the (sc_control_path c)) else [])
     @ (if hi_key_file ident = [] then [] else [''-i'', hi_key_file ident])
     @ options extra @ [sftp_user c ident @ ''@'' @ server]"

definition run_sftp :: "host_world \<Rightarrow> sftp_conf \<Rightarrow> 'a host_identity_scheme \<Rightarrow> string \<Rightarrow> bytes \<Rightarrow> string list \<Rightarrow> bool \<Rightarrow> host
    \<Rightarrow> (int \<times> string) res \<times> host" where
  "run_sftp w c ident server batch extra multiplex h =
     (case run_sub w (sftp_cmd c ident server extra multiplex) (Some batch) h of (a, h') \<Rightarrow> (sftp_answer ''sftp timed out'' a, h'))"

definition close_master_cmd :: "sftp_conf \<Rightarrow> 'a host_identity_scheme \<Rightarrow> string \<Rightarrow> string list" where
  "close_master_cmd c ident server = [''ssh'', ''-O'', ''exit'', ''-o'', ''ControlPath='' @ the (sc_control_path c), sftp_user c ident @ ''@'' @ server]"

definition close_control_master :: "host_world \<Rightarrow> sftp_conf \<Rightarrow> 'a host_identity_scheme \<Rightarrow> string \<Rightarrow> host \<Rightarrow> unit res \<times> host" where
  "close_control_master w c ident server h = (if truthy_text (sc_control_path c) then run_blind w (close_master_cmd c ident server) h
     else (Ok (), h))"

text \<open>After a changed host key: forget the key, close the master, and try once without multiplexing.\<close>

definition put_again :: "host_world \<Rightarrow> sftp_conf \<Rightarrow> 'a host_identity_scheme \<Rightarrow> string \<Rightarrow> bytes \<Rightarrow> host \<Rightarrow> string option res \<times> host" where
  "put_again w c ident server batch h = (case run_blind w (forget_host_cmd (sc_known_hosts c) server) h of
     (Raise e, h1) \<Rightarrow> (Raise e, h1)
   | (Ok _, h1) \<Rightarrow> (case close_control_master w c ident server h1 of
       (Raise e, h2) \<Rightarrow> (Raise e, h2)
     | (Ok _, h2) \<Rightarrow> (case run_sftp w c ident server batch [''StrictHostKeyChecking=accept-new''] False h2 of
         (Raise e, h3) \<Rightarrow> (Raise e, h3)
       | (Ok (rc, out), h3) \<Rightarrow> (Ok (if rc = 0 then None else Some out), h3))))"

definition sftp_put :: "host_world \<Rightarrow> sftp_conf \<Rightarrow> 'a host_identity_scheme \<Rightarrow> bytes \<Rightarrow> string \<Rightarrow> host \<Rightarrow> string option res \<times> host" where
  "sftp_put w c ident batch server h = (case run_sftp w c ident server batch [] True h of
     (Raise e, h1) \<Rightarrow> (Raise e, h1)
   | (Ok (rc, out), h1) \<Rightarrow> if rc = 0 then (Ok None, h1)
       else if host_key_changed out then put_again w c ident server batch h1
       else (Ok (Some out), h1))"

definition upload_tar :: "host_world \<Rightarrow> sftp_conf \<Rightarrow> 'a host_identity_scheme \<Rightarrow> bytes \<Rightarrow> string \<Rightarrow> host \<Rightarrow> outcome res \<times> host" where
  "upload_tar w c ident data name h = (case make_tmp w data (ensure_identity_key w ident h) of (path, h1) \<Rightarrow>
     (case first_success (sftp_put w c ident (put_cmd (tc_remote c) path name)) (tc_servers c) [] h1 of
        (Raise e, h2) \<Rightarrow> (Raise e, drop_tmp [path] h2)
      | (Ok (Inl server), h2) \<Rightarrow> (Ok acked, drop_tmp [path] h2)
      | (Ok (Inr _), h2) \<Rightarrow> (Ok (retry_later (''all sftp servers failed: '' @ hw_repr w (tc_servers c))), drop_tmp [path] h2)))"

subsection \<open>Ftp\<close>

text \<open>A session with a gateway, from connecting to storing: it stores, fails with an error the code
  catches, or raises something else (an \<open>EOFError\<close>).\<close>

datatype ftp_answer = Stored | Ftp_failed string | Ftp_raised exn

record ftp_session =
  fs_server :: string
  fs_password :: string
  fs_target :: string
  fs_data :: bytes

record ftp_world =
  fw_answer :: "nat \<Rightarrow> ftp_answer"
  fw_password_file :: "string \<Rightarrow> string option"

definition bootstrap_password :: string where "bootstrap_password = ''xahFie6g''"

definition ftp_password :: "ftp_world \<Rightarrow> ftp_conf \<Rightarrow> string" where
  "ftp_password fw c = (case (if truthy_text (fc_password_file c) then fw_password_file fw (the (fc_password_file c)) else None) of
     Some t \<Rightarrow> py_strip t | None \<Rightarrow> if truthy_text (fc_password c) then the (fc_password c) else bootstrap_password)"

definition ftp_put :: "ftp_world \<Rightarrow> ftp_conf \<Rightarrow> bytes \<Rightarrow> string \<Rightarrow> string \<Rightarrow> ftp_session list \<Rightarrow> string option res \<times> ftp_session list" where
  "ftp_put fw c data name server ses = (case fw_answer fw (length ses) of Stored \<Rightarrow> Ok None
       | Ftp_failed t \<Rightarrow> Ok (Some (server @ '': '' @ t)) | Ftp_raised e \<Rightarrow> Raise e,
     ses @ [\<lparr>fs_server = server, fs_password = ftp_password fw c, fs_target = tc_remote c @ ''/'' @ name, fs_data = data\<rparr>])"

definition ftp_upload :: "ftp_world \<Rightarrow> ftp_conf \<Rightarrow> bytes \<Rightarrow> string \<Rightarrow> ftp_session list \<Rightarrow> outcome res \<times> ftp_session list" where
  "ftp_upload fw c data name ses = (case first_success (ftp_put fw c data name) (tc_servers c) ''no servers configured'' ses of
     (Raise e, l) \<Rightarrow> (Raise e, l)
   | (Ok (Inl _), l) \<Rightarrow> (Ok acked, l)
   | (Ok (Inr err), l) \<Rightarrow> (Ok (retry_later (''all ftp servers failed: '' @ err)), l))"

text \<open>The ftp tar names the login the gateway shall make, and the station's public key.\<close>

definition ftp_tar :: "'w tar_world_scheme \<Rightarrow> host_world \<Rightarrow> ftp_conf \<Rightarrow> 'a host_identity_scheme \<Rightarrow> urecord list \<Rightarrow> host
    \<Rightarrow> bytes option res \<times> host" where
  "ftp_tar w hw c ident rs h = (let h1 = ensure_identity_key hw ident h in
     (build_tar w (hw_now hw) c ident (Some (login_of ident, public_key h1)) rs, h1))"

definition build_failed :: "exn \<Rightarrow> outcome" where "build_failed e = permanent_failure (''tar build failed: '' @ exn_text e)"

definition ftp_ship :: "'w tar_world_scheme \<Rightarrow> host_world \<Rightarrow> ftp_world \<Rightarrow> ftp_conf \<Rightarrow> 'a host_identity_scheme \<Rightarrow> batch
    \<Rightarrow> host \<Rightarrow> ftp_session list \<Rightarrow> outcome res \<times> host \<times> ftp_session list" where
  "ftp_ship w hw fw c ident b h ses = (case ftp_tar w hw c ident (bt_records b) h of
     (Raise e, h1) \<Rightarrow> (Ok (build_failed e), h1, ses)
   | (Ok None, h1) \<Rightarrow> (Ok acked, h1, ses)
   | (Ok (Some data), h1) \<Rightarrow> (case ftp_upload fw c data (tar_name c ident (hw_now hw) (bt_records b)) ses of (r, l) \<Rightarrow> (r, h1, l)))"

definition ftp_serialize :: "'w tar_world_scheme \<Rightarrow> host_world \<Rightarrow> ftp_conf \<Rightarrow> 'a host_identity_scheme \<Rightarrow> batch \<Rightarrow> host \<Rightarrow> bytes res \<times> host" where
  "ftp_serialize w hw c ident b h = (case ftp_tar w hw c ident (bt_records b) h of
     (r, h1) \<Rightarrow> (map_res (\<lambda>d. case d of Some x \<Rightarrow> x | None \<Rightarrow> []) r, h1))"

definition ftp_replay :: "host_world \<Rightarrow> ftp_world \<Rightarrow> ftp_conf \<Rightarrow> 'a host_identity_scheme \<Rightarrow> bytes \<Rightarrow> ftp_session list
    \<Rightarrow> outcome res \<times> ftp_session list" where
  "ftp_replay hw fw c ident blob ses = ftp_upload fw c blob (tar_name c ident (hw_now hw) []) ses"

subsection \<open>The sftp transport with its fallback\<close>

definition tar_ship :: "'w tar_world_scheme \<Rightarrow> host_world \<Rightarrow> ftp_world \<Rightarrow> sftp_conf \<Rightarrow> 'a host_identity_scheme \<Rightarrow> batch
    \<Rightarrow> host \<Rightarrow> ftp_session list \<Rightarrow> outcome res \<times> host \<times> ftp_session list" where
  "tar_ship w hw fw c ident b h ses = (case build_tar w (hw_now hw) c ident None (bt_records b) of
     Raise e \<Rightarrow> (Ok (build_failed e), h, ses)
   | Ok None \<Rightarrow> (Ok acked, h, ses)
   | Ok (Some data) \<Rightarrow> (case upload_tar hw c ident data (tar_name c ident (hw_now hw) (bt_records b)) h of
       (Raise e, h1) \<Rightarrow> (Raise e, h1, ses)
     | (Ok oc, h1) \<Rightarrow> if oc_kind oc = ''retry_later'' \<and> sc_fallback c \<noteq> None
         then ftp_ship w hw fw (the (sc_fallback c)) ident b h1 ses
         else (Ok (if succeeded oc then oc\<lparr>oc_n_bytes := int (length data)\<rparr> else oc), h1, ses)))"

definition tar_serialize :: "'w tar_world_scheme \<Rightarrow> host_world \<Rightarrow> sftp_conf \<Rightarrow> 'a host_identity_scheme \<Rightarrow> batch \<Rightarrow> bytes res" where
  "tar_serialize w hw c ident b = map_res (\<lambda>d. case d of Some x \<Rightarrow> x | None \<Rightarrow> []) (build_tar w (hw_now hw) c ident None (bt_records b))"

definition tar_replay :: "host_world \<Rightarrow> sftp_conf \<Rightarrow> 'a host_identity_scheme \<Rightarrow> bytes \<Rightarrow> host \<Rightarrow> outcome res \<times> host" where
  "tar_replay hw c ident blob h = upload_tar hw c ident blob (tar_name c ident (hw_now hw) []) h"

end
