(* ===== verification/TarLaws.thy ===== *)
theory TarLaws
  imports TarRows "HOL-Library.Multiset"
begin

text \<open>
  What a tar promises: every row in the file of its own receiver, with one line, and every receiver
  forwarded exactly when all of its rows ask for it.
\<close>

lemma mapM_res_member: "mapM_res f xs = Ok ys \<Longrightarrow> x \<in> set xs \<Longrightarrow> \<exists>y \<in> set ys. f x = Ok y"
  by (induction xs arbitrary: ys) auto

subsection \<open>Groups\<close>

lemma same_key_refl [simp]: "same_key k k" by (simp add: same_key_def)

lemma same_key_sym: "same_key a b \<Longrightarrow> same_key b a" by (simp add: same_key_def)

lemma same_key_trans: "same_key a b \<Longrightarrow> same_key b c \<Longrightarrow> same_key a c" by (simp add: same_key_def)

lemma same_key_cong: "same_key a b \<Longrightarrow> same_key a c \<longleftrightarrow> same_key b c" by (auto simp: same_key_def)

definition apart :: "groups \<Rightarrow> bool" where
  "apart gs \<longleftrightarrow> sorted_wrt (\<lambda>g h. \<not> same_key (fst g) (fst h)) gs"

definition rows_of :: "tar_key \<Rightarrow> groups \<Rightarrow> pydict list" where
  "rows_of k gs = concat (map snd (filter (\<lambda>g. same_key (fst g) k) gs))"

lemma rows_of_simps [simp]:
  "rows_of k [] = []" "rows_of k (g # gs) = (if same_key (fst g) k then snd g else []) @ rows_of k gs"
  by (simp_all add: rows_of_def)

lemma rows_of_none: "(\<And>g. g \<in> set gs \<Longrightarrow> \<not> same_key (fst g) k) \<Longrightarrow> rows_of k gs = []"
  by (simp add: rows_of_def filter_empty_conv)

lemma keys_file_row: "same_key (fst g) k \<or> g \<in> set gs \<or> (\<exists>h \<in> set gs. fst h = fst g)" if "g \<in> set (file_row k row gs)"
  using that by (induction k row gs rule: file_row.induct) (auto split: if_splits)

lemma apart_file_row: "apart gs \<Longrightarrow> apart (file_row k row gs)"
proof (induction k row gs rule: file_row.induct)
  case (2 k row k' rows gs)
  show ?case
  proof (cases "same_key k' k")
    case False
    have "\<not> same_key k' (fst g)" if g: "g \<in> set (file_row k row gs)" for g
      using keys_file_row [OF g] "2.prems" False by (auto simp: apart_def dest: same_key_sym same_key_trans)
    then show ?thesis using 2 False by (simp add: apart_def)
  qed (use "2.prems" in \<open>simp add: apart_def\<close>)
qed (simp add: apart_def)

lemma rows_of_file_row:
  "apart gs \<Longrightarrow> rows_of k (file_row k0 row gs) = rows_of k gs @ (if same_key k0 k then [row] else [])"
proof (induction k0 row gs rule: file_row.induct)
  case (1 k0 row)
  then show ?case by simp
next
  case (2 k0 row k' rows gs)
  show ?case
  proof (cases "same_key k' k0")
    case True
    have "rows_of k gs = []" if "same_key k' k"
      using "2.prems" that by (intro rows_of_none) (auto simp: apart_def dest: same_key_sym same_key_trans)
    then show ?thesis using True same_key_cong [OF True, of k] by simp
  next
    case False
    then show ?thesis using 2 by (simp add: apart_def)
  qed
qed

lemma rows_of_member: "apart gs \<Longrightarrow> (k, rows) \<in> set gs \<Longrightarrow> rows_of k gs = rows"
proof (induction gs)
  case (Cons g gs)
  show ?case
  proof (cases "g = (k, rows)")
    case True
    have "rows_of k gs = []" using Cons.prems True by (intro rows_of_none) (auto simp: apart_def dest: same_key_sym)
    then show ?thesis using True by simp
  next
    case False
    then have "\<not> same_key (fst g) k" "rows_of k gs = rows" using Cons by (auto simp: apart_def)
    then show ?thesis by simp
  qed
qed simp

lemma rows_of_group:
  assumes "apart gs" "rows_of k gs \<noteq> []"
  obtains k' where "same_key k' k" "(k', rows_of k gs) \<in> set gs"
proof -
  obtain g where g: "g \<in> set gs" "same_key (fst g) k" using assms(2) rows_of_none [of gs k] by blast
  have "rows_of k gs = rows_of (fst g) gs" unfolding rows_of_def using same_key_cong [OF g(2)]
    by (metis same_key_sym same_key_trans g(2))
  also have "\<dots> = snd g" using rows_of_member [OF assms(1), of "fst g" "snd g"] g(1) by simp
  finally show ?thesis using that [of "fst g"] g by simp
qed

text \<open>The rows of a key among the records, in order; \<open>sel\<close> says which place is meant.\<close>

definition rows_at :: "'a tar_world_scheme \<Rightarrow> tar_args \<Rightarrow> (place \<Rightarrow> tar_key option) \<Rightarrow> tar_key \<Rightarrow> urecord list \<Rightarrow> pydict list" where
  "rows_at w a sel k rs = map rec_columns (filter (\<lambda>r. case place_of w a r of
     Ok p \<Rightarrow> (case sel p of Some k' \<Rightarrow> same_key k' k | None \<Rightarrow> False) | Raise _ \<Rightarrow> False) rs)"

definition spot_place :: "place \<Rightarrow> tar_key option" where "spot_place p = (case p of Spot k \<Rightarrow> Some k | _ \<Rightarrow> None)"

definition psk_place :: "place \<Rightarrow> tar_key option" where "psk_place p = (case p of Psk k \<Rightarrow> Some k | _ \<Rightarrow> None)"

lemma put_row_spots: "fd_spots (put_row p cols f) = (case spot_place p of Some k \<Rightarrow> file_row k cols (fd_spots f) | None \<Rightarrow> fd_spots f)"
  and put_row_psk: "fd_psk (put_row p cols f) = (case psk_place p of Some k \<Rightarrow> file_row k cols (fd_psk f) | None \<Rightarrow> fd_psk f)"
  by (simp_all add: put_row_def spot_place_def psk_place_def split: place.split)

lemma file_rows_groups:
  assumes put: "\<And>p cols f. field (put_row p cols f) = (case sel p of Some k \<Rightarrow> file_row k cols (field f) | None \<Rightarrow> field f)"
  shows "file_rows w a rs f = Ok f' \<Longrightarrow> apart (field f) \<Longrightarrow>
     apart (field f') \<and> (\<forall>k. rows_of k (field f') = rows_of k (field f) @ rows_at w a sel k rs)"
proof (induction rs arbitrary: f)
  case Nil
  then show ?case by (simp add: rows_at_def)
next
  case (Cons r rs)
  obtain p where p: "place_of w a r = Ok p" "file_rows w a rs (put_row p (rec_columns r) f) = Ok f'" using Cons.prems(1) by (auto split: res.splits)
  have "apart (field (put_row p (rec_columns r) f))" using Cons.prems(2) by (simp add: put apart_file_row split: option.split)
  from Cons.IH [OF p(2) this] show ?case using Cons.prems(2) p(1)
    by (simp add: put rows_of_file_row rows_at_def split: option.splits)
qed

lemmas spots_filed = file_rows_groups [where field = fd_spots and sel = spot_place, OF put_row_spots]
lemmas psk_filed = file_rows_groups [where field = fd_psk and sel = psk_place, OF put_row_psk]

lemma nothing_filed_groups [simp]: "fd_spots nothing_filed = []" "fd_psk nothing_filed = []" "fd_noise nothing_filed = []"
  "fd_forward nothing_filed = []"
  by (simp_all add: nothing_filed_def)

lemma apart_Nil [simp]: "apart []" by (simp add: apart_def)

subsection \<open>Lines\<close>

lemma hashed_text: "hashed v = hashed (PStr s) \<longleftrightarrow> v = PStr s"
  by (auto simp: hashed_def split: pyval.splits if_splits)

lemma record_entries_Ok:
  assumes "record_entries w a rs = Ok es"
  obtains f spots noise psk where "file_rows w a rs nothing_filed = Ok f" "mapM_res (spot_entry w a) (fd_spots f) = Ok spots"
    "mapM_res (noise_entry w a) (fd_noise f) = Ok noise" "mapM_res (psk_entry w) (fd_psk f) = Ok psk"
    "es = info_entries a @ routing_entries w a f @ spots @ noise @ psk"
  using assms by (auto simp: record_entries_def split: res.splits)

subsection \<open>Whose a spot is\<close>

text \<open>
  What a spot row says of itself, and what the uploader's own identity is used for.  A column counts when it is
  there and not empty; a column that counts and is no text would have raised.
\<close>

definition own_text :: "pydict \<Rightarrow> string \<Rightarrow> string \<Rightarrow> string \<Rightarrow> bool" where
  "own_text cols k dflt s \<longleftrightarrow> (if py_truthy (py_get cols k) then \<exists>t. py_get cols k = PStr t \<and> s = py_strip t
     else s = py_strip dflt)"

definition fallback_receiver :: "tar_args \<Rightarrow> string" where
  "fallback_receiver a = (if ta_receiver a = [] then ''rx'' else ta_receiver a)"

definition own_receiver :: "tar_args \<Rightarrow> pydict \<Rightarrow> string \<Rightarrow> bool" where
  "own_receiver a cols s \<longleftrightarrow> (\<exists>t. (if py_truthy (py_get cols ''radiod_id'') then py_get cols ''radiod_id'' = PStr t
       else if py_truthy (py_get cols ''rx_source'') then py_get cols ''rx_source'' = PStr t
       else t = fallback_receiver a)
     \<and> (let bare = replace_all ''-status.local'' [] (replace_all ''radiod:'' [] t) in
         s = (if bare = [] then fallback_receiver a else bare)))"

text \<open>The row \<open>r\<close> is a spot (no psk spot and no noise row), and its columns put it under \<open>k\<close>.\<close>

definition spot_at :: "'a tar_world_scheme \<Rightarrow> tar_args \<Rightarrow> urecord \<Rightarrow> tar_key \<Rightarrow> bool" where
  "spot_at w a r k \<longleftrightarrow> (let cols = rec_columns r; rx = tk_rx k in
     rec_table r \<notin> {''psk.spots'', ''wspr.noise''}
   \<and> map_of cols ''band'' = Some (tk_band k) \<and> map_of cols ''mode'' = Some (tk_mode k)
   \<and> (\<exists>t date hhmm. map_of cols ''time'' = Some t \<and> ts_from_iso w t = Ok (date, hhmm, tk_cycle k))
   \<and> own_text cols ''rx_call'' (ta_rx_call a) (rx_call rx) \<and> own_text cols ''rx_grid'' (ta_rx_grid a) (rx_grid rx)
   \<and> own_receiver a cols (rx_recv rx)
   \<and> rx_site rx = (if rx_call rx = [] then ta_rx_site a else build_rx_site (rx_call rx) (rx_grid rx)))"

lemma stripped_Ok: "stripped v = Ok s \<longleftrightarrow> (\<exists>t. v = PStr t \<and> s = py_strip t)"
  by (auto simp: stripped_def split: pyval.splits)

lemma own_text_iff: "stripped (py_or (py_or (py_get cols k) (PStr dflt)) (PStr [])) = Ok s \<longleftrightarrow> own_text cols k dflt s"
  by (auto simp: stripped_Ok own_text_def py_or_def)

lemma fallback_or: "py_or (PStr (ta_receiver a)) (PStr ''rx'') = PStr (fallback_receiver a)"
  by (simp add: py_or_def fallback_receiver_def)

lemma recv_of_text: "recv_of a cols = (case py_or (py_get cols ''radiod_id'') (py_or (py_get cols ''rx_source'') (PStr (fallback_receiver a))) of
     PStr t \<Rightarrow> (let bare = replace_all ''-status.local'' [] (replace_all ''radiod:'' [] t) in
       Ok (if bare = [] then fallback_receiver a else bare))
   | _ \<Rightarrow> Raise no_attribute)"
proof -
  have assoc: "py_or (py_or x y) z = py_or x (py_or y z)" for x y z by (simp add: py_or_def)
  define v where "v = py_or (py_get cols ''radiod_id'') (py_or (py_get cols ''rx_source'') (PStr (fallback_receiver a)))"
  show ?thesis unfolding recv_of_def assoc fallback_or v_def [symmetric] Let_def
    by (cases v) (auto simp: fallback_receiver_def)
qed

lemma own_receiver_iff: "recv_of a cols = Ok s \<longleftrightarrow> own_receiver a cols s"
proof -
  define v where "v = py_or (py_get cols ''radiod_id'') (py_or (py_get cols ''rx_source'') (PStr (fallback_receiver a)))"
  have v: "v = PStr t \<longleftrightarrow> (if py_truthy (py_get cols ''radiod_id'') then py_get cols ''radiod_id'' = PStr t
       else if py_truthy (py_get cols ''rx_source'') then py_get cols ''rx_source'' = PStr t
       else t = fallback_receiver a)" for t
    by (auto simp: v_def py_or_def)
  show ?thesis unfolding recv_of_text own_receiver_def v [symmetric] v_def [symmetric] Let_def
    by (cases v) auto
qed

lemma rx_of_iff: "rx_of a cols [c] g = Ok rx \<longleftrightarrow> own_text cols c (ta_rx_call a) (rx_call rx)
    \<and> own_text cols g (ta_rx_grid a) (rx_grid rx) \<and> own_receiver a cols (rx_recv rx)
    \<and> rx_site rx = (if rx_call rx = [] then ta_rx_site a else build_rx_site (rx_call rx) (rx_grid rx))"
proof -
  have "rx_of a cols [c] g = Ok rx \<longleftrightarrow> (\<exists>call grid recv. own_text cols c (ta_rx_call a) call \<and> own_text cols g (ta_rx_grid a) grid
      \<and> own_receiver a cols recv \<and> rx = \<lparr>rx_call = call, rx_grid = grid, rx_recv = recv,
          rx_site = (if call \<noteq> [] then build_rx_site call grid else ta_rx_site a)\<rparr>)"
    by (auto simp: rx_of_def own_text_iff own_receiver_iff)
  then show ?thesis by (cases rx) auto
qed

lemma row_key_Ok: "row_key rx band mode cycle = Ok k \<longleftrightarrow> hashable band \<and> hashable mode
    \<and> k = \<lparr>tk_rx = rx, tk_band = band, tk_mode = mode, tk_cycle = cycle\<rparr>"
  by (auto simp: row_key_def)

text \<open>A spot with band, mode and a readable time is filed, and under the key its columns give; a row filed
  as a spot is one of these.\<close>

lemma band_and_stamp_Ok: "band_and_stamp w cols = Ok (Some (band, ts)) \<longleftrightarrow> map_of cols ''band'' = Some band
    \<and> (\<exists>t date hhmm. map_of cols ''time'' = Some t \<and> ts_from_iso w t = Ok (date, hhmm, ts))"
  by (cases "map_of cols ''band''"; cases "map_of cols ''time''"; cases "ts_from_iso w (the (map_of cols ''time''))")
     (auto simp: band_and_stamp_def col_def)

lemma spot_is_at:
  assumes "place_of w a r = Ok (Spot k)"
  shows "spot_at w a r k"
proof -
  let ?cols = "rec_columns r"
  have n: "?cols \<noteq> []" "rec_table r \<noteq> ''psk.spots''"
    using assms by (auto simp: place_of_def Let_def split: if_splits option.splits)
  obtain band ts rx mode where b: "band_and_stamp w ?cols = Ok (Some (band, ts))" and rx: "rx_of a ?cols [''rx_call''] ''rx_grid'' = Ok rx"
    and m: "map_of ?cols ''mode'' = Some mode" "row_key rx band mode ts = Ok k" and t: "rec_table r \<noteq> ''wspr.noise''"
    using assms n by (auto simp: place_of_def Let_def split: if_splits option.splits)
  show ?thesis using n t m rx b unfolding spot_at_def Let_def row_key_Ok band_and_stamp_Ok rx_of_iff by auto
qed

lemma spot_is_filed:
  assumes "place_of w a r = Ok p" "rec_table r \<notin> {''psk.spots'', ''wspr.noise''}" "map_of (rec_columns r) ''band'' = Some band"
    "map_of (rec_columns r) ''mode'' = Some mode" "map_of (rec_columns r) ''time'' = Some t" "ts_from_iso w t = Ok (date, hhmm, ts)"
  shows "\<exists>k. p = Spot k \<and> tk_band k = band \<and> tk_mode k = mode \<and> tk_cycle k = ts"
proof -
  have n: "rec_columns r \<noteq> []" using assms(3) by auto
  have b: "band_and_stamp w (rec_columns r) = Ok (Some (band, ts))" using assms(3,5,6) unfolding band_and_stamp_Ok by blast
  show ?thesis using assms(1,2,4) n b by (auto simp: place_of_def Let_def row_key_Ok)
qed

lemma own_text_unique: "own_text cols k d s \<Longrightarrow> own_text cols k d s' \<Longrightarrow> s = s'"
  by (auto simp: own_text_def split: if_splits)

lemma own_receiver_unique: "own_receiver a cols s \<Longrightarrow> own_receiver a cols s' \<Longrightarrow> s = s'"
  unfolding own_receiver_iff [symmetric] by simp

lemma spot_at_unique:
  assumes "spot_at w a r k" "spot_at w a r k'"
  shows "k = k'"
proof -
  note d = assms [unfolded spot_at_def Let_def]
  have "rx_call (tk_rx k) = rx_call (tk_rx k')" "rx_grid (tk_rx k) = rx_grid (tk_rx k')" using d own_text_unique by blast+
  moreover have "rx_recv (tk_rx k) = rx_recv (tk_rx k')" using d own_receiver_unique by blast
  moreover have "rx_site (tk_rx k) = rx_site (tk_rx k')" using d calculation by presburger
  ultimately have "tk_rx k = tk_rx k'" by (simp add: rx_id.equality)
  moreover have "tk_band k = tk_band k'" "tk_mode k = tk_mode k'" "tk_cycle k = tk_cycle k'" using d by (metis option.inject, metis option.inject, auto)
  ultimately show ?thesis by (cases k; cases k') simp
qed

lemma spot_place_iff:
  assumes "place_of w a r = Ok p"
  shows "spot_place p = Some k \<longleftrightarrow> spot_at w a r k"
proof
  assume "spot_place p = Some k"
  then show "spot_at w a r k" using assms spot_is_at by (auto simp: spot_place_def split: place.splits)
next
  assume k: "spot_at w a r k"
  then obtain k' where p: "p = Spot k'" using spot_is_filed [OF assms] unfolding spot_at_def Let_def by blast
  then have "k = k'" using spot_at_unique [OF k] spot_is_at assms by blast
  then show "spot_place p = Some k" using p by (simp add: spot_place_def)
qed

lemma file_rows_places: "file_rows w a rs f = Ok f' \<Longrightarrow> r \<in> set rs \<Longrightarrow> \<exists>p. place_of w a r = Ok p"
  by (induction rs arbitrary: f) (auto split: res.splits)

text \<open>Call and grid of the receiver stand in a long line.\<close>

lemma mapM_res_append: "mapM_res f (xs @ ys) = Ok zs \<Longrightarrow> \<exists>us vs. mapM_res f xs = Ok us \<and> mapM_res f ys = Ok vs \<and> zs = us @ vs"
  by (induction xs arbitrary: zs) fastforce+

lemma join_Cons: "xs \<noteq> [] \<Longrightarrow> join sep (x # xs) = x @ sep @ join sep xs"
  by (cases xs) simp_all

lemma join_append: "xs \<noteq> [] \<Longrightarrow> ys \<noteq> [] \<Longrightarrow> join sep (xs @ ys) = join sep xs @ sep @ join sep ys"
proof (induction sep xs rule: join.induct)
  case (2 sep x)
  then show ?case by (simp add: join_Cons)
qed auto

lemma line_fields:
  assumes "line_of (xs @ [Ok u, Ok v] @ ys) = Ok line" "xs \<noteq> []" "ys \<noteq> []"
  shows "\<exists>pre post. line = pre @ '' '' @ u @ '' '' @ v @ '' '' @ post"
proof -
  obtain rest where r: "mapM_res (\<lambda>x. x) (xs @ [Ok u, Ok v] @ ys) = Ok rest" "line = join '' '' rest"
    using assms(1) by (auto simp: line_of_def)
  obtain us vs where u: "mapM_res (\<lambda>x. x) xs = Ok us" "mapM_res (\<lambda>x. x) ([Ok u, Ok v] @ ys) = Ok vs" "rest = us @ vs"
    using mapM_res_append [OF r(1)] by blast
  obtain zs where z: "mapM_res (\<lambda>x. x) ys = Ok zs" "vs = u # v # zs" using u(2) by auto
  have "us \<noteq> []" "zs \<noteq> []" using u(1) z(1) assms(2,3) by (auto dest!: mapM_res_length)
  then have "line = join '' '' us @ '' '' @ u @ '' '' @ v @ '' '' @ join '' '' zs"
    unfolding r(2) u(3) z(2) by (simp add: join_append join_Cons)
  then show ?thesis by blast
qed

lemma long_line_receiver:
  assumes "extended_line w cols call grid proxy = Ok line"
  shows "\<exists>pre post. line = pre @ '' '' @ pad_left 6 grid @ '' '' @ pad_left 12 call @ '' '' @ post"
proof -
  obtain xs ys where "line_of (xs @ [Ok (pad_left 6 grid), Ok (pad_left 12 call)] @ ys) = Ok line" "xs \<noteq> []" "ys \<noteq> []"
  proof -
    obtain x0 x1 x2 x3 x4 x5 x6 x7 x8 x9 x10 x11 x12 x13 x14 x15 x16 x17 x18 x19 x20 y ys where
      "line_of ([x0, x1, x2, x3, x4, x5, x6, x7, x8, x9, x10, x11, x12, x13, x14, x15, x16, x17, x18, x19, x20,
          Ok (pad_left 6 grid), Ok (pad_left 12 call), y] @ ys) = Ok line"
      using assms unfolding extended_line_def Let_def bind_res_Ok prod.case_eq_if append.append_Cons by (elim exE conjE) (rule that, simp only: append_assoc append.simps)
    then show thesis using that [of "[x0, x1, x2, x3, x4, x5, x6, x7, x8, x9, x10, x11, x12, x13, x14, x15, x16, x17, x18, x19, x20]" "y # ys"] by simp
  qed
  then show ?thesis by (rule line_fields)
qed

lemma spot_entry_name:
  assumes "spot_entry w a (k, rows) = Ok e"
  shows "\<exists>mode ls. tk_mode k = PStr mode \<and> mapM_res (spot_line w a (tk_rx k) mode) rows = Ok ls
    \<and> e = Data (below_dir [ta_tar_root a, ''spots'', rx_site (tk_rx k), rx_recv (tk_rx k), text_v w (tk_band k),
         rx_recv (tk_rx k) @ ''_'' @ text_v w (tk_band k) @ ''_'' @ mode @ ''_'' @ tk_cycle k
           @ (if starts_with mode ''W'' then ''_wd_spots.txt'' else ''_spots.txt'')]) (text_lines ls)"
  using assms by (auto simp: spot_entry_def Let_def split: pyval.splits)

text \<open>C30: Every spot of a batch has its line in the tar.  Once the tar is built, each row of the batch that is neither a
  psk spot nor a noise row and has a band, a mode and a readable time stands in the file of its own receiver:
  \<open>spots/SITE/RECEIVER/BAND/RECEIVER_BAND_MODE_TIME\<close>, where the receiver is the row's \<open>radiod_id\<close> or
  \<open>rx_source\<close> without prefix and suffix, the site is made of the row's \<open>rx_call\<close> and \<open>rx_grid\<close>, and the uploader's
  identity stands in only for a column that is missing or empty.  The file has one line for each row of that receiver, band,
  mode and time and no other, in the order of the batch, and a line of a WSPR mode carries that grid and call.
  (The rows left out, without band, mode or readable time, are those the code skips with a warning.)\<close>

theorem every_spot_has_its_line:
  assumes "record_entries w a rs = Ok es" "r \<in> set rs" "rec_table r \<notin> {''psk.spots'', ''wspr.noise''}"
    and "map_of (rec_columns r) ''band'' = Some band" "map_of (rec_columns r) ''mode'' = Some mode"
    and "map_of (rec_columns r) ''time'' = Some t" "ts_from_iso w t = Ok (date, hhmm, ts)"
  shows "\<exists>k m band' ls line. spot_at w a r k \<and> mode = PStr m \<and> hashed band' = hashed band
    \<and> Data (below_dir [ta_tar_root a, ''spots'', rx_site (tk_rx k), rx_recv (tk_rx k), text_v w band',
         rx_recv (tk_rx k) @ ''_'' @ text_v w band' @ ''_'' @ m @ ''_'' @ ts
           @ (if starts_with m ''W'' then ''_wd_spots.txt'' else ''_spots.txt'')]) (text_lines ls) \<in> set es
    \<and> mapM_res (spot_line w a (tk_rx k) m) (map rec_columns (filter (\<lambda>r'. \<exists>k'. spot_at w a r' k' \<and> tk_rx k' = tk_rx k
         \<and> hashed (tk_band k') = hashed band \<and> tk_mode k' = PStr m \<and> tk_cycle k' = ts) rs)) = Ok ls
    \<and> line \<in> set ls \<and> spot_line w a (tk_rx k) m (rec_columns r) = Ok line
    \<and> (starts_with m ''W'' \<longrightarrow> (\<exists>pre post. line = pre @ '' '' @ pad_left 6 (rx_grid (tk_rx k)) @ '' ''
         @ pad_left 12 (rx_call (tk_rx k)) @ '' '' @ post))"
proof -
  obtain f spots where f: "file_rows w a rs nothing_filed = Ok f" "mapM_res (spot_entry w a) (fd_spots f) = Ok spots" "set spots \<subseteq> set es"
    by (rule record_entries_Ok [OF assms(1)]) auto
  have placed: "\<exists>p. place_of w a r' = Ok p" if "r' \<in> set rs" for r' using file_rows_places [OF f(1) that] .
  obtain k where k: "place_of w a r = Ok (Spot k)" "tk_band k = band" "tk_mode k = mode" "tk_cycle k = ts"
    using placed [OF assms(2)] spot_is_filed [OF _ assms(3-7)] by blast
  have filed: "apart (fd_spots f)" "rows_of k (fd_spots f) = rows_at w a spot_place k rs"
    using spots_filed [OF f(1)] by simp_all
  have own: "rec_columns r \<in> set (rows_at w a spot_place k rs)"
    using assms(2) k(1) by (auto simp: rows_at_def spot_place_def)
  then have "rows_of k (fd_spots f) \<noteq> []" using filed(2) by auto
  then obtain k' where k': "same_key k' k" "(k', rows_at w a spot_place k rs) \<in> set (fd_spots f)"
    using rows_of_group [OF filed(1)] filed(2) by metis
  obtain e where e: "e \<in> set spots" "spot_entry w a (k', rows_at w a spot_place k rs) = Ok e"
    using mapM_res_member [OF f(2) k'(2)] by blast
  obtain m ls where m: "tk_mode k' = PStr m" "mapM_res (spot_line w a (tk_rx k') m) (rows_at w a spot_place k rs) = Ok ls"
    "e = Data (below_dir [ta_tar_root a, ''spots'', rx_site (tk_rx k'), rx_recv (tk_rx k'), text_v w (tk_band k'),
         rx_recv (tk_rx k') @ ''_'' @ text_v w (tk_band k') @ ''_'' @ m @ ''_'' @ tk_cycle k'
           @ (if starts_with m ''W'' then ''_wd_spots.txt'' else ''_spots.txt'')]) (text_lines ls)"
    using spot_entry_name [OF e(2)] by blast
  have same: "tk_rx k' = tk_rx k" "hashed (tk_band k') = hashed band" "tk_cycle k' = ts" "mode = PStr m"
    using k'(1) m(1) k(2-4) unfolding same_key_def by (simp_all flip: hashed_text)
  obtain line where l: "line \<in> set ls" "spot_line w a (tk_rx k) m (rec_columns r) = Ok line"
    using mapM_res_member [OF m(2) own] same(1) by auto
  have rows: "rows_at w a spot_place k rs = map rec_columns (filter (\<lambda>r'. \<exists>k'. spot_at w a r' k' \<and> tk_rx k' = tk_rx k
       \<and> hashed (tk_band k') = hashed band \<and> tk_mode k' = PStr m \<and> tk_cycle k' = ts) rs)"
  proof -
    have "(case place_of w a r' of Ok p \<Rightarrow> (case spot_place p of Some k2 \<Rightarrow> same_key k2 k | None \<Rightarrow> False) | Raise _ \<Rightarrow> False)
        \<longleftrightarrow> (\<exists>k2. spot_at w a r' k2 \<and> tk_rx k2 = tk_rx k \<and> hashed (tk_band k2) = hashed band \<and> tk_mode k2 = PStr m \<and> tk_cycle k2 = ts)"
      if r': "r' \<in> set rs" for r'
    proof -
      obtain p where p: "place_of w a r' = Ok p" using placed [OF r'] by blast
      have "same_key k2 k \<longleftrightarrow> tk_rx k2 = tk_rx k \<and> hashed (tk_band k2) = hashed band \<and> tk_mode k2 = PStr m \<and> tk_cycle k2 = ts" for k2
        using k(2-4) same(4) by (auto simp: same_key_def hashed_text)
      then show ?thesis using p by (auto simp flip: spot_place_iff [OF p] split: option.split)
    qed
    then show ?thesis unfolding rows_at_def by (intro arg_cong [where f = "map rec_columns"] filter_cong) auto
  qed
  have "\<exists>pre post. line = pre @ '' '' @ pad_left 6 (rx_grid (tk_rx k)) @ '' '' @ pad_left 12 (rx_call (tk_rx k)) @ '' '' @ post"
    if "starts_with m ''W''" using l(2) that long_line_receiver unfolding spot_line_def by simp
  moreover have "e \<in> set es" using e(1) f(3) by blast
  ultimately show ?thesis using spot_is_at [OF k(1)] same m(2) l rows unfolding m(3)
    by (intro exI [of _ k] exI [of _ m] exI [of _ "tk_band k'"] exI [of _ ls] exI [of _ line]) simp
qed

subsection \<open>Forwarding\<close>

text \<open>What a reader of \<open>routing.json\<close> finds for a receiver: its own entry, or the default.\<close>

definition route_of :: "route list \<Rightarrow> string \<Rightarrow> pydict" where
  "route_of routes k = (case map_of routes k of Some d \<Rightarrow> d | None \<Rightarrow> (case map_of routes ''default'' of Some d \<Rightarrow> d | None \<Rightarrow> []))"

definition forwards :: "route list \<Rightarrow> string \<Rightarrow> bool" where
  "forwards routes k \<longleftrightarrow> py_get (route_of routes k) ''forward_to_pskreporter'' = PBool True"

lemma default_first: "\<exists>d rest. forward_routes rf = (''default'', d) # rest"
  by (simp add: forward_routes_def)

lemma py_get_forwarding [simp]: "py_get (forwarding b @ extra) ''forward_to_pskreporter'' = PBool b" "py_get (forwarding b) ''forward_to_pskreporter'' = PBool b"
  by (simp_all add: py_get_def forwarding_def)

lemma one_flag: "card (set (map snd rf)) = 1 \<Longrightarrow> (k, b) \<in> set rf \<Longrightarrow> snd (hd rf) = b"
  by (cases rf) (auto simp: card_1_singleton_iff)

lemma map_of_overrides:
  assumes "distinct (map fst rf)" "(k, b) \<in> set rf"
  shows "map_of (map (\<lambda>(k, b). (k, forwarding b)) (filter (\<lambda>(k, b). b \<noteq> m) (sort_key fst rf))) k
    = (if b = m then None else Some (forwarding b))"
proof -
  let ?xs = "filter (\<lambda>(k, b). b \<noteq> m) (sort_key fst rf)"
  have only: "b' = b" if "(k, b') \<in> set rf" for b' using that assms eq_key_imp_eq_value by metis
  show ?thesis
  proof (cases "b = m")
    case True
    then have "k \<notin> fst ` set ?xs" using only by force
    then have "k \<notin> fst ` set (map (\<lambda>(k, b). (k, forwarding b)) ?xs)" by force
    then show ?thesis using True by (simp add: map_of_eq_None_iff)
  next
    case False
    have "mset (map fst (sort_key fst rf)) = mset (map fst rf)" by (simp only: mset_map mset_sort)
    from mset_eq_imp_distinct_iff [OF this] have "distinct (map fst ?xs)" using assms(1) by (simp add: distinct_map_filter)
    then have "map_of ?xs k = Some b" using assms(2) False by (intro map_of_is_SomeI) auto
    then show ?thesis using False by (simp add: map_of_map)
  qed
qed

lemma routing_obj_head:
  assumes "forward_routes rf = (''default'', d) # rest"
  obtains extra where "routing_obj rf fwd wsprnet psk = (''default'', d @ extra) # rest"
  using assms by (simp add: routing_obj_def)

lemma forwards_routing:
  assumes "distinct (map fst rf)" "(k, b) \<in> set rf" "k \<noteq> ''default''"
  shows "forwards (routing_obj rf fwd wsprnet psk) k \<longleftrightarrow> b"
proof (cases "card (set (map snd rf)) = 1")
  case True
  have "forward_routes rf = (''default'', forwarding b) # []"
    using True assms(2) one_flag [OF True assms(2)] by (auto simp: forward_routes_def)
  then obtain extra where "routing_obj rf fwd wsprnet psk = (''default'', forwarding b @ extra) # []" by (rule routing_obj_head)
  then show ?thesis using assms(3) by (simp add: forwards_def route_of_def)
next
  case False
  define overrides where "overrides = map (\<lambda>(k, b). (k, forwarding b)) (filter (\<lambda>(k, b). b \<noteq> majority rf) (sort_key fst rf))"
  have "forward_routes rf = (''default'', forwarding (majority rf)) # overrides"
    using False assms(2) by (auto simp: forward_routes_def overrides_def)
  then obtain extra where "routing_obj rf fwd wsprnet psk = (''default'', forwarding (majority rf) @ extra) # overrides"
    by (rule routing_obj_head)
  moreover have "map_of overrides k = (if b = majority rf then None else Some (forwarding b))"
    using map_of_overrides [OF assms(1,2)] by (simp add: overrides_def)
  ultimately show ?thesis using assms(3) by (simp add: forwards_def route_of_def)
qed

text \<open>The wishes of the psk rows of a receiver, in order.\<close>

definition wishes :: "'a tar_world_scheme \<Rightarrow> tar_args \<Rightarrow> string \<Rightarrow> urecord list \<Rightarrow> bool list" where
  "wishes w a kk rs = map (\<lambda>r. wants_forward (rec_columns r)) (filter (\<lambda>r. case place_of w a r of
     Ok (Psk k) \<Rightarrow> receiver_key k = kk | _ \<Rightarrow> False) rs)"

definition flag_after :: "bool option \<Rightarrow> bool list \<Rightarrow> bool option" where
  "flag_after old flags = (if flags = [] then old else Some ((case old of Some b \<Rightarrow> b | None \<Rightarrow> True) \<and> list_all (\<lambda>b. b) flags))"

lemma put_row_forward: "fd_forward (put_row p cols f) = (case psk_place p of
    Some k \<Rightarrow> note_forward (receiver_key k) (wants_forward cols) (fd_forward f) | None \<Rightarrow> fd_forward f)"
  by (simp add: put_row_def psk_place_def split: place.split)

lemma note_forward_facts: "distinct (map fst rf) \<Longrightarrow> distinct (map fst (note_forward k b rf))"
  "map_of (note_forward k b rf) kk = (if kk = k then flag_after (map_of rf k) [b] else map_of rf kk)"
  by (auto simp: note_forward_def distinct_dict_set flag_after_def)

lemma wishes_Cons: "place_of w a r = Ok p \<Longrightarrow> wishes w a kk (r # rs) =
    (case psk_place p of Some k \<Rightarrow> if receiver_key k = kk then wants_forward (rec_columns r) # wishes w a kk rs else wishes w a kk rs
     | None \<Rightarrow> wishes w a kk rs)"
  by (simp add: wishes_def psk_place_def split: place.split)

lemma flag_after_step: "flag_after (flag_after old [b]) flags = flag_after old (b # flags)"
  by (auto simp: flag_after_def split: option.split)

lemma file_rows_forward:
  "file_rows w a rs f = Ok f' \<Longrightarrow> distinct (map fst (fd_forward f)) \<Longrightarrow>
     distinct (map fst (fd_forward f')) \<and> (\<forall>kk. map_of (fd_forward f') kk = flag_after (map_of (fd_forward f) kk) (wishes w a kk rs))"
proof (induction rs arbitrary: f)
  case Nil
  then show ?case by (simp add: wishes_def flag_after_def)
next
  case (Cons r rs)
  obtain p where p: "place_of w a r = Ok p" "file_rows w a rs (put_row p (rec_columns r) f) = Ok f'" using Cons.prems(1) by (auto split: res.splits)
  have "distinct (map fst (fd_forward (put_row p (rec_columns r) f)))"
    using Cons.prems(2) by (simp add: put_row_forward note_forward_facts(1) split: option.split)
  from Cons.IH [OF p(2) this] show ?case
    by (auto simp: put_row_forward note_forward_facts(2) wishes_Cons [OF p(1)] flag_after_step split: option.splits)
qed

lemma receiver_key_not_default: "receiver_key k \<noteq> ''default''"
proof
  assume "receiver_key k = ''default''"
  then have "CHR ''/'' \<in> set ''default''" by (metis receiver_key_def in_set_conv_decomp append_Cons append_Nil)
  then show False by simp
qed

text \<open>C31: The tar of a batch with psk rows carries a routing table, and that table forwards a receiver's spots to
  PSKReporter exactly when every psk row of the receiver in the batch asks for it: one row that opts
  out stops its receiver, and no other.\<close>

theorem routing_follows_every_row:
  assumes "record_entries w a rs = Ok es" "r \<in> set rs" "place_of w a r = Ok (Psk k)"
  shows "\<exists>routes. Data ''routing.json'' (routing_json w routes) \<in> set es
    \<and> (forwards routes (receiver_key k) \<longleftrightarrow> (\<forall>r' \<in> set rs. \<forall>k'. place_of w a r' = Ok (Psk k') \<and> receiver_key k' = receiver_key k
         \<longrightarrow> wants_forward (rec_columns r')))"
proof -
  obtain f where f: "file_rows w a rs nothing_filed = Ok f" "set (routing_entries w a f) \<subseteq> set es"
    by (rule record_entries_Ok [OF assms(1)]) auto
  have "wishes w a (receiver_key k) rs \<noteq> []" using assms(2,3) by (force simp: wishes_def filter_empty_conv)
  then have flag: "map_of (fd_forward f) (receiver_key k) = Some (list_all (\<lambda>b. b) (wishes w a (receiver_key k) rs))"
    "distinct (map fst (fd_forward f))"
    using file_rows_forward [OF f(1)] by (simp_all add: flag_after_def)
  have all: "list_all (\<lambda>b. b) (wishes w a (receiver_key k) rs) \<longleftrightarrow> (\<forall>r' \<in> set rs. \<forall>k'. place_of w a r' = Ok (Psk k')
      \<and> receiver_key k' = receiver_key k \<longrightarrow> wants_forward (rec_columns r'))"
    by (auto simp: wishes_def list_all_iff split: res.splits place.splits)
  have "rec_columns r \<in> set (rows_of k (fd_psk f))"
    using psk_filed [OF f(1)] assms(2,3) by (auto simp: rows_at_def psk_place_def)
  then have "needs_routing a f" by (auto simp: needs_routing_def)
  then have "Data ''routing.json'' (routing_json w (routing_obj (fd_forward f) (ta_to_wsprnet a) (ta_wsprnet_reporter a) (ta_psk_reporter a))) \<in> set es"
    using f(2) by (auto simp: routing_entries_def)
  moreover have "forwards (routing_obj (fd_forward f) (ta_to_wsprnet a) (ta_wsprnet_reporter a) (ta_psk_reporter a)) (receiver_key k)
      \<longleftrightarrow> list_all (\<lambda>b. b) (wishes w a (receiver_key k) rs)"
    by (rule forwards_routing [OF flag(2) map_of_SomeD [OF flag(1)] receiver_key_not_default])
  ultimately show ?thesis unfolding all by blast
qed

end
