(* ===== verification/TarShipLaws.thy ===== *)
theory TarShipLaws
  imports TarShip TarLaws
begin

text \<open>
  What an acknowledgement of the wsprdaemon transport means, and how a changed host key is handled.
\<close>

subsection \<open>Runs of one gateway\<close>

definition is_put :: "sftp_conf \<Rightarrow> 'a host_identity_scheme \<Rightarrow> bytes \<Rightarrow> string \<Rightarrow> sub_run \<Rightarrow> bool" where
  "is_put c ident batch server r \<longleftrightarrow> (\<exists>extra m. sr_cmd r = sftp_cmd c ident server extra m) \<and> sr_input r = Some batch"

definition done_well :: "host_world \<Rightarrow> nat \<Rightarrow> bool" where
  "done_well w i \<longleftrightarrow> (case hw_run w i of Exited rc _ \<Rightarrow> rc = 0 | _ \<Rightarrow> False)"

text \<open>The last run is a put of the batch that ended with 0; or there are runs, and the last is a put that did not.\<close>

definition put_ends :: "bool \<Rightarrow> host_world \<Rightarrow> sftp_conf \<Rightarrow> 'a host_identity_scheme \<Rightarrow> bytes \<Rightarrow> string \<Rightarrow> host \<Rightarrow> host \<Rightarrow> bool" where
  "put_ends ok w c ident batch server h h' \<longleftrightarrow> ho_tmp h' = ho_tmp h \<and> (\<exists>before r. ho_runs h' = ho_runs h @ before @ [r]
     \<and> is_put c ident batch server r \<and> sr_files r = ho_tmp h \<and> done_well w (length (ho_runs h @ before)) = ok)"

lemma run_sub_facts:
  "run_sub w cmd input h = (a, h') \<Longrightarrow> ho_tmp h' = ho_tmp h \<and> a = hw_run w (length (ho_runs h))
     \<and> ho_runs h' = ho_runs h @ [\<lparr>sr_cmd = cmd, sr_input = input, sr_files = ho_tmp h\<rparr>]"
  by (auto simp: run_sub_def)

lemma run_blind_facts: "run_blind w cmd h = (r, h') \<Longrightarrow>
    ho_tmp h' = ho_tmp h \<and> ho_runs h' = ho_runs h @ [\<lparr>sr_cmd = cmd, sr_input = None, sr_files = ho_tmp h\<rparr>]"
  by (auto simp: run_blind_def run_sub_def split: sub_answer.splits)

lemma close_facts: "close_control_master w c ident server h = (r, h') \<Longrightarrow> ho_tmp h' = ho_tmp h
    \<and> ho_runs h' = ho_runs h @ (if truthy_text (sc_control_path c)
        then [\<lparr>sr_cmd = close_master_cmd c ident server, sr_input = None, sr_files = ho_tmp h\<rparr>] else [])"
  by (auto simp: close_control_master_def dest: run_blind_facts split: if_splits)

lemma run_sftp_facts:
  assumes "run_sftp w c ident server batch extra m h = (r, h')"
  shows "ho_tmp h' = ho_tmp h"
    and "ho_runs h' = ho_runs h @ [\<lparr>sr_cmd = sftp_cmd c ident server extra m, sr_input = Some batch, sr_files = ho_tmp h\<rparr>]"
    and "r = Ok (rc, out) \<Longrightarrow> done_well w (length (ho_runs h)) \<longleftrightarrow> rc = 0"
  using assms by (auto simp: run_sftp_def run_sub_def sftp_answer_def done_well_def split: sub_answer.splits)

lemma is_put_self [simp]:
  "is_put c ident batch server \<lparr>sr_cmd = sftp_cmd c ident server extra m, sr_input = Some batch, sr_files = fs\<rparr>"
  unfolding is_put_def by auto

lemma run_sftp_ends:
  assumes "run_sftp w c ident server batch extra m h = (Ok (rc, out), h')"
  shows "put_ends (rc = 0) w c ident batch server h h'"
  using run_sftp_facts(1,2) [OF assms] run_sftp_facts(3) [OF assms refl] unfolding put_ends_def
  by (intro conjI exI [of _ "[]"] exI [of _ "\<lparr>sr_cmd = sftp_cmd c ident server extra m, sr_input = Some batch, sr_files = ho_tmp h\<rparr>"]) simp_all

lemma put_ends_later:
  assumes "put_ends ok w c ident batch server h1 h'" "ho_tmp h1 = ho_tmp h" "ho_runs h1 = ho_runs h @ rs"
  shows "put_ends ok w c ident batch server h h'"
  using assms unfolding put_ends_def by (metis append.assoc)

lemma put_again_ends:
  assumes "put_again w c ident server batch h = (Ok e, h')"
  shows "put_ends (e = None) w c ident batch server h h'"
proof -
  obtain h1 where f: "run_blind w (forget_host_cmd (sc_known_hosts c) server) h = (Ok (), h1)"
    using assms by (auto simp: put_again_def split: prod.splits res.splits)
  obtain h2 where g: "close_control_master w c ident server h1 = (Ok (), h2)"
    using assms f by (auto simp: put_again_def split: prod.splits res.splits)
  obtain rc out where p: "run_sftp w c ident server batch [''StrictHostKeyChecking=accept-new''] False h2 = (Ok (rc, out), h')"
      "e = None \<longleftrightarrow> rc = 0"
    using assms f g by (auto simp: put_again_def split: prod.splits res.splits)
  have "put_ends (e = None) w c ident batch server h2 h'" using run_sftp_ends [OF p(1)] p(2) by simp
  then show ?thesis using run_blind_facts [OF f] close_facts [OF g] by (auto intro: put_ends_later)
qed

lemma sftp_put_ends:
  assumes "sftp_put w c ident batch server h = (Ok e, h')"
  shows "put_ends (e = None) w c ident batch server h h'"
proof -
  obtain rc out h1 where p: "run_sftp w c ident server batch [] True h = (Ok (rc, out), h1)"
    using assms by (auto simp: sftp_put_def split: prod.splits res.splits)
  show ?thesis
  proof (cases "rc \<noteq> 0 \<and> host_key_changed out")
    case True
    then have "put_again w c ident server batch h1 = (Ok e, h')" using assms p by (simp add: sftp_put_def)
    then show ?thesis using run_sftp_facts(1,2) [OF p] by (auto intro: put_ends_later put_again_ends)
  next
    case False
    then have "h' = h1" "e = None \<longleftrightarrow> rc = 0" using assms p by (auto simp: sftp_put_def split: if_splits)
    then show ?thesis using run_sftp_ends [OF p] by simp
  qed
qed

interpretation sftp: server_attempts "sftp_put w c ident batch" "put_ends True w c ident batch" "put_ends False w c ident batch"
  for w c ident batch
  by unfold_locales (auto dest: sftp_put_ends)

subsection \<open>Ftp sessions\<close>

definition ftp_ends :: "bool \<Rightarrow> ftp_world \<Rightarrow> bytes \<Rightarrow> string \<Rightarrow> ftp_session list \<Rightarrow> ftp_session list \<Rightarrow> bool" where
  "ftp_ends ok fw data server ses ses' \<longleftrightarrow> (\<exists>x. ses' = ses @ [x] \<and> fs_server x = server \<and> fs_data x = data
     \<and> (fw_answer fw (length ses) = Stored) = ok)"

interpretation ftp: server_attempts "ftp_put fw c data name" "ftp_ends True fw data" "ftp_ends False fw data" for fw c data name
  by unfold_locales (auto simp: ftp_put_def ftp_ends_def split: ftp_answer.splits)

subsection \<open>Uploads\<close>

lemma refusals_tmp: "refusals (put_ends False w c ident batch) ks s t \<Longrightarrow> ho_tmp t = ho_tmp s"
  by (induction ks arbitrary: s) (auto simp: put_ends_def)

text \<open>The host when the gateways are tried: the key is made, the tar is in a temporary file.\<close>

definition ready :: "host_world \<Rightarrow> 'a host_identity_scheme \<Rightarrow> bytes \<Rightarrow> host \<Rightarrow> host" where
  "ready w ident data h = snd (make_tmp w data (ensure_identity_key w ident h))"

definition tar_path :: "host_world \<Rightarrow> 'a host_identity_scheme \<Rightarrow> host \<Rightarrow> string" where
  "tar_path w ident h = hw_tmp w (ho_made (ensure_identity_key w ident h))"

lemma ready_tmp: "(tar_path w ident h, data) \<in> set (ho_tmp (ready w ident data h))"
  by (simp add: ready_def tar_path_def make_tmp_def Let_def)

lemma upload_tar_alt: "upload_tar w c ident data name h = (let path = tar_path w ident h in
    case first_success (sftp_put w c ident (put_cmd (tc_remote c) path name)) (tc_servers c) [] (ready w ident data h) of
      (Raise e, h2) \<Rightarrow> (Raise e, drop_tmp [path] h2)
    | (Ok (Inl server), h2) \<Rightarrow> (Ok acked, drop_tmp [path] h2)
    | (Ok (Inr _), h2) \<Rightarrow> (Ok (retry_later (''all sftp servers failed: '' @ hw_repr w (tc_servers c))), drop_tmp [path] h2))"
  by (simp add: upload_tar_def ready_def tar_path_def make_tmp_def Let_def)

text \<open>C32: What the sftp upload of a tar answers.  It is acknowledged exactly when one gateway, after all those before
  it had failed, ran the put and the rename of a file with the bytes of the tar to the end with code 0, and
  no later gateway was asked; otherwise every gateway has failed, in order, and it asks for a retry.  The
  temporary file is gone.\<close>

theorem uploaded_tar_is_stored:
  assumes "upload_tar w c ident data name h = (Ok oc, h')"
  shows "(tar_path w ident h \<notin> fst ` set (ho_tmp h'))
    \<and> (let put = put_cmd (tc_remote c) (tar_path w ident h) name; start = ready w ident data h in
       (oc = acked \<and> (\<exists>before server after t u. tc_servers c = before @ server # after
          \<and> refusals (put_ends False w c ident put) before start t
          \<and> put_ends True w c ident put server t u \<and> (tar_path w ident h, data) \<in> set (ho_tmp t) \<and> ho_runs h' = ho_runs u))
     \<or> (oc_kind oc = ''retry_later'' \<and> (\<exists>u. refusals (put_ends False w c ident put) (tc_servers c) start u \<and> ho_runs h' = ho_runs u)))"
proof -
  define put where "put = put_cmd (tc_remote c) (tar_path w ident h) name"
  define start where "start = ready w ident data h"
  obtain r u where f: "first_success (sftp_put w c ident put) (tc_servers c) [] start = (r, u)" by fastforce
  have up: "upload_tar w c ident data name h = (case r of Raise e \<Rightarrow> (Raise e, drop_tmp [tar_path w ident h] u)
      | Ok (Inl server) \<Rightarrow> (Ok acked, drop_tmp [tar_path w ident h] u)
      | Ok (Inr _) \<Rightarrow> (Ok (retry_later (''all sftp servers failed: '' @ hw_repr w (tc_servers c))), drop_tmp [tar_path w ident h] u))"
    using f by (simp add: upload_tar_alt put_def start_def Let_def split: res.split sum.split)
  then have h': "h' = drop_tmp [tar_path w ident h] u" using assms by (auto split: res.splits sum.splits)
  have gone: "tar_path w ident h \<notin> fst ` set (ho_tmp h')" "ho_runs h' = ho_runs u" unfolding h' by (auto simp: drop_tmp_def)
  consider (ok) server where "r = Ok (Inl server)" "oc = acked"
    | (no) e where "r = Ok (Inr e)" "oc_kind oc = ''retry_later''"
    using up assms by (auto simp: retry_later_def split: res.splits sum.splits)
  then show ?thesis
  proof cases
    case ok
    obtain before after t where d: "tc_servers c = before @ server # after" "refusals (put_ends False w c ident put) before start t"
        "put_ends True w c ident put server t u"
      using sftp.delivered [OF f [unfolded ok(1)]] by blast
    have "(tar_path w ident h, data) \<in> set (ho_tmp t)" using refusals_tmp [OF d(2)] ready_tmp by (simp add: start_def)
    with d ok(2) gone show ?thesis unfolding put_def [symmetric] start_def [symmetric] Let_def by blast
  next
    case no
    have "refusals (put_ends False w c ident put) (tc_servers c) start u" using sftp.nobody [OF f [unfolded no(1)]] .
    with no(2) gone show ?thesis unfolding put_def [symmetric] start_def [symmetric] Let_def by blast
  qed
qed

lemma upload_refused:
  assumes "upload_tar w c ident data name h = (Ok oc, h')" "oc_kind oc = ''retry_later''"
  shows "\<exists>u. refusals (put_ends False w c ident (put_cmd (tc_remote c) (tar_path w ident h) name)) (tc_servers c) (ready w ident data h) u"
proof -
  obtain r u where f: "first_success (sftp_put w c ident (put_cmd (tc_remote c) (tar_path w ident h) name)) (tc_servers c) []
      (ready w ident data h) = (r, u)" by fastforce
  then obtain e where "r = Ok (Inr e)" using assms by (auto simp: upload_tar_alt Let_def acked_def split: res.splits sum.splits)
  then show ?thesis using sftp.nobody f by blast
qed

lemma ftp_upload_cases:
  assumes "ftp_upload fw c data name ses = (Ok oc, ses')"
  shows "(oc = acked \<and> (\<exists>before server after l. tc_servers c = before @ server # after \<and> refusals (ftp_ends False fw data) before ses l
      \<and> ftp_ends True fw data server l ses'))
    \<or> (oc_kind oc = ''retry_later'' \<and> refusals (ftp_ends False fw data) (tc_servers c) ses ses')"
proof -
  obtain r l where f: "first_success (ftp_put fw c data name) (tc_servers c) ''no servers configured'' ses = (r, l)" by fastforce
  consider (ok) server where "r = Ok (Inl server)" "oc = acked" "ses' = l"
    | (no) e where "r = Ok (Inr e)" "oc_kind oc = ''retry_later''" "ses' = l"
    using assms f by (auto simp: ftp_upload_def retry_later_def split: res.splits sum.splits)
  then show ?thesis
  proof cases
    case ok
    then show ?thesis using ftp.delivered [OF f [unfolded ok(1)]] by blast
  next
    case no
    then show ?thesis using ftp.nobody [OF f [unfolded no(1)]] by blast
  qed
qed

text \<open>When the ftp gateways are used.  A ship talks to them only when a fallback is configured and every sftp gateway
  has failed; what it stores there is the tar built with the login and the public key of the station,
  and an acknowledgement means that one of them, after those before it failed, stored it.\<close>

theorem fallback_after_every_refusal:
  assumes "tar_ship w hw fw c ident b h ses = (Ok oc, h', ses')" "ses' \<noteq> ses"
  shows "\<exists>fc raw key data. sc_fallback c = Some fc \<and> build_tar w (hw_now hw) c ident None (bt_records b) = Ok (Some raw)
    \<and> (\<exists>u. refusals (put_ends False hw c ident (put_cmd (tc_remote c) (tar_path hw ident h) (tar_name c ident (hw_now hw) (bt_records b))))
         (tc_servers c) (ready hw ident raw h) u)
    \<and> build_tar w (hw_now hw) fc ident (Some (login_of ident, key)) (bt_records b) = Ok (Some data)
    \<and> ((oc = acked \<and> (\<exists>before server after l. tc_servers fc = before @ server # after
           \<and> refusals (ftp_ends False fw data) before ses l \<and> ftp_ends True fw data server l ses'))
       \<or> (oc_kind oc = ''retry_later'' \<and> refusals (ftp_ends False fw data) (tc_servers fc) ses ses'))"
proof -
  obtain raw where raw: "build_tar w (hw_now hw) c ident None (bt_records b) = Ok (Some raw)"
    using assms by (auto simp: tar_ship_def split: res.splits option.splits)
  obtain oc1 h1 where up: "upload_tar hw c ident raw (tar_name c ident (hw_now hw) (bt_records b)) h = (Ok oc1, h1)"
    using assms raw by (auto simp: tar_ship_def split: res.splits prod.splits)
  obtain fc where fc: "sc_fallback c = Some fc" "oc_kind oc1 = ''retry_later''"
      "ftp_ship w hw fw fc ident b h1 ses = (Ok oc, h', ses')"
    using assms raw up by (auto simp: tar_ship_def split: if_splits)
  obtain data h2 where d: "ftp_tar w hw fc ident (bt_records b) h1 = (Ok (Some data), h2)"
    using fc(3) assms(2) by (auto simp: ftp_ship_def split: prod.splits res.splits option.splits)
  have "ftp_upload fw fc data (tar_name fc ident (hw_now hw) (bt_records b)) ses = (Ok oc, ses')"
    using fc(3) d by (auto simp: ftp_ship_def split: prod.splits)
  from ftp_upload_cases [OF this] upload_refused [OF up fc(2)] d raw fc(1) show ?thesis
    unfolding ftp_tar_def Let_def by blast
qed

subsection \<open>A changed host key\<close>

definition rekey_cmds :: "sftp_conf \<Rightarrow> 'a host_identity_scheme \<Rightarrow> string \<Rightarrow> string list list" where
  "rekey_cmds c ident server = [sftp_cmd c ident server [] True, forget_host_cmd (sc_known_hosts c) server]
     @ (if truthy_text (sc_control_path c) then [close_master_cmd c ident server] else [])
     @ [sftp_cmd c ident server [''StrictHostKeyChecking=accept-new''] False]"

lemma put_again_cmds:
  assumes "put_again w c ident server batch h = (r, h')"
  shows "\<exists>n rs. ho_runs h' = ho_runs h @ rs \<and> map sr_cmd rs = take (Suc n) (tl (rekey_cmds c ident server))"
proof -
  let ?close = "if truthy_text (sc_control_path c) then [close_master_cmd c ident server] else []"
  obtain r1 h1 where f: "run_blind w (forget_host_cmd (sc_known_hosts c) server) h = (r1, h1)" by fastforce
  obtain r2 h2 where g: "close_control_master w c ident server h1 = (r2, h2)" by fastforce
  obtain r3 h3 where p: "run_sftp w c ident server batch [''StrictHostKeyChecking=accept-new''] False h2 = (r3, h3)" by fastforce
  note runs = run_blind_facts [OF f] close_facts [OF g] run_sftp_facts(2) [OF p]
  show ?thesis
  proof (cases "r1 = Ok ()")
    case False
    then have "h' = h1" using assms f by (cases r1) (auto simp: put_again_def)
    then show ?thesis using runs(1) by (intro exI [of _ 0]) (simp add: rekey_cmds_def)
  next
    case 1: True
    show ?thesis
    proof (cases "r2 = Ok ()")
      case False
      then have "h' = h2" using assms f g 1 by (cases r2) (auto simp: put_again_def)
      then show ?thesis using runs(1,2) by (intro exI [of _ "length ?close"]) (simp add: rekey_cmds_def)
    next
      case True
      then have "h' = h3" using assms f g p 1 by (auto simp: put_again_def split: res.splits)
      then show ?thesis using runs by (intro exI [of _ "length ?close + 1"]) (simp add: rekey_cmds_def)
    qed
  qed
qed

lemma late_is_no_rekey: "\<not> host_key_changed ''sftp timed out''"
  by code_simp

text \<open>One gateway is tried with one sftp, over the shared connection.  Only when that fails and says that
  the host key has changed does more happen: the old key is removed, the shared connection closed, and
  one more sftp made that does not share it; what is run is a beginning of this list.\<close>

theorem rekeyed_put_is_fresh:
  assumes "sftp_put w c ident batch server h = (r, h')"
  shows "\<exists>n rs. ho_runs h' = ho_runs h @ rs \<and> map sr_cmd rs = take (Suc n) (rekey_cmds c ident server)
    \<and> (n = 0 \<or> (\<exists>rc out. hw_run w (length (ho_runs h)) = Exited rc out \<and> rc \<noteq> 0 \<and> host_key_changed out))"
proof -
  obtain a h1 where p: "run_sftp w c ident server batch [] True h = (a, h1)" by fastforce
  have first: "ho_runs h1 = ho_runs h @ [\<lparr>sr_cmd = sftp_cmd c ident server [] True, sr_input = Some batch, sr_files = ho_tmp h\<rparr>]"
    using run_sftp_facts(2) [OF p] .
  have once: ?thesis if "h' = h1" using that first by (intro exI [of _ 0]) (simp add: rekey_cmds_def)
  show ?thesis
  proof (cases "\<exists>rc out. a = Ok (rc, out) \<and> rc \<noteq> 0 \<and> host_key_changed out")
    case False
    then have "h' = h1" using assms p by (auto simp: sftp_put_def split: res.splits if_splits)
    then show ?thesis by (rule once)
  next
    case True
    then obtain rc out where a: "a = Ok (rc, out)" "rc \<noteq> 0" "host_key_changed out" by blast
    then have "hw_run w (length (ho_runs h)) = Exited rc out"
      using p late_is_no_rekey by (auto simp: run_sftp_def run_sub_def sftp_answer_def split: sub_answer.splits)
    moreover have "put_again w c ident server batch h1 = (r, h')" using assms p a by (simp add: sftp_put_def)
    then obtain n rs where "ho_runs h' = ho_runs h1 @ rs" "map sr_cmd rs = take (Suc n) (tl (rekey_cmds c ident server))"
      using put_again_cmds by blast
    moreover have "rekey_cmds c ident server = sftp_cmd c ident server [] True # tl (rekey_cmds c ident server)"
      by (simp add: rekey_cmds_def)
    ultimately show ?thesis using a(2,3) first
      by (intro exI [of _ "Suc n"] exI [of _ "\<lparr>sr_cmd = sftp_cmd c ident server [] True, sr_input = Some batch, sr_files = ho_tmp h\<rparr> # rs"])
        (metis append.assoc append_Cons append_Nil list.simps(9) sub_run.select_convs(1) take_Suc_Cons)
  qed
qed

end
