(* ===== verification/TarWitnesses.thy ===== *)
theory TarWitnesses
  imports TarShipLaws
begin

text \<open>The properties of the wsprdaemon transports at concrete inputs.\<close>

definition tiny_world :: tar_world where
  "tiny_world = \<lparr>nw_round = id, nw_float = (\<lambda>_. None), nw_str = (\<lambda>_. []), nw_json = (\<lambda>_. None), nw_valid = (\<lambda>_. True),
     nw_answer = (\<lambda>_. NetFailure []), nw_takes = (\<lambda>_. 0), tw_iso = (\<lambda>_. Some (1, 1, 1, 1, 0, 0)), tw_sin = id, tw_cos = id,
     tw_atan2 = (\<lambda>a b. a), tw_sqrt = id, tw_acos = Some, tw_radians = id, tw_degrees = id, tw_dumps = (\<lambda>_. ''{}''),
     tw_tar = (\<lambda>es now. replicate (length es) CHR ''t''), tw_compress = (\<lambda>_ _ b. b), tw_has_zstd = False, tw_addable = (\<lambda>_. True)\<rparr>"

definition tiny_station :: host_identity where
  "tiny_station = \<lparr>id_call = ''K1A'', id_grid = ''FN42'', hi_station_id = [], hi_key_file = ''/k'', hi_radiod_id = []\<rparr>"

definition tiny_ftp :: ftp_conf where
  "tiny_ftp = \<lparr>tc_servers = [''f1''], tc_spool = None, tc_remote = ''up'', tc_version = ''4'', tc_upload_id = None, tc_receiver = Some ''rx'',
     tc_codec = ''bz2'', tc_level = 9, tc_tar_root = ''wspr'', tc_to_wsprnet = None, tc_wsprnet_reporter = None, tc_psk_reporter = None,
     fc_password_file = None, fc_password = None\<rparr>"

definition tiny_sftp :: sftp_conf where
  "tiny_sftp = \<lparr>tc_servers = [''g1'', ''g2''], tc_spool = None, tc_remote = ''up'', tc_version = ''4'', tc_upload_id = None, tc_receiver = Some ''rx'',
     tc_codec = ''bz2'', tc_level = 9, tc_tar_root = ''wspr'', tc_to_wsprnet = None, tc_wsprnet_reporter = None, tc_psk_reporter = None,
     sc_user = None, sc_known_hosts = ''/h'', sc_control_path = Some ''/c'', sc_connect_timeout = 9, sc_table = ''wspr.spots'',
     sc_fallback = Some tiny_ftp\<rparr>"

definition tiny_args :: tar_args where "tiny_args = args_of tiny_sftp tiny_station None"

definition tiny_row :: "string \<Rightarrow> string \<Rightarrow> pydict \<Rightarrow> urecord" where
  "tiny_row tab call more_cols = \<lparr>rec_table = tab, rec_time = 9000000, rec_columns = more_cols @ [(''band'', PStr ''20''), (''time'', PStr ''t''),
       (''rx_call'', PStr call), (''radiod_id'', PStr (''radiod:'' @ call)), (''frequency_hz'', PInt 14), (''snr_db'', PInt 1), (''pwr_dbm'', PInt 3),
       (''callsign'', PStr ''K9X'')], rec_dedup_key = None, rec_payload_path = None\<rparr>"

definition tiny_spot :: urecord where "tiny_spot = tiny_row ''wspr.spots'' ''A'' [(''mode'', PStr ''F2'')]"

definition tiny_key :: "string \<Rightarrow> string \<Rightarrow> pyval \<Rightarrow> string \<Rightarrow> tar_key" where
  "tiny_key call grid mode cycle = \<lparr>tk_rx = \<lparr>rx_call = call, rx_grid = grid, rx_recv = ''A'', rx_site = ''A_FN42''\<rparr>, tk_band = PStr ''20'',
     tk_mode = mode, tk_cycle = cycle\<rparr>"

lemma tiny_spot_place: "place_of tiny_world tiny_args tiny_spot = Ok (Spot (tiny_key ''A'' ''FN42'' (PStr ''F2'') ''00010101_010000''))"
  by code_simp

lemma tiny_spot_entries: "(case record_entries tiny_world tiny_args [tiny_spot] of Ok es \<Rightarrow> length es | Raise _ \<Rightarrow> 0) = 2"
  by code_simp

lemma tiny_spot_parts: "rec_table tiny_spot \<notin> {''psk.spots'', ''wspr.noise''}" "map_of (rec_columns tiny_spot) ''band'' = Some (PStr ''20'')"
    "map_of (rec_columns tiny_spot) ''mode'' = Some (PStr ''F2'')" "map_of (rec_columns tiny_spot) ''time'' = Some (PStr ''t'')"
    "ts_from_iso tiny_world (PStr ''t'') = Ok (''010101'', ''0100'', ''00010101_010000'')"
  by code_simp+

theorem every_spot_has_its_line_witness:
  "\<exists>es band' fname ls. record_entries tiny_world tiny_args [tiny_spot] = Ok es
     \<and> Data (below_dir [''wspr'', ''spots'', ''A_FN42'', ''A'', band', fname]) (text_lines ls) \<in> set es \<and> ls \<noteq> []"
proof -
  obtain es where es: "record_entries tiny_world tiny_args [tiny_spot] = Ok es" using tiny_spot_entries by (auto split: res.splits)
  have root: "ta_tar_root tiny_args = ''wspr''" by (simp add: tiny_args_def args_of_def tiny_sftp_def)
  have "spot_at tiny_world tiny_args tiny_spot k \<Longrightarrow> k = tiny_key ''A'' ''FN42'' (PStr ''F2'') ''00010101_010000''" for k
    using spot_at_unique [OF spot_is_at [OF tiny_spot_place]] by blast
  then have rx: "spot_at tiny_world tiny_args tiny_spot k \<Longrightarrow> rx_site (tk_rx k) = ''A_FN42'' \<and> rx_recv (tk_rx k) = ''A''" for k
    by (fastforce simp: tiny_key_def)
  have "\<exists>band' fname ls. Data (below_dir [''wspr'', ''spots'', ''A_FN42'', ''A'', band', fname]) (text_lines ls) \<in> set es \<and> ls \<noteq> []"
  proof -
    from every_spot_has_its_line [OF es list.set_intros(1) tiny_spot_parts] obtain k band' fname ls line where
      "spot_at tiny_world tiny_args tiny_spot k" "line \<in> set ls"
      "Data (below_dir [ta_tar_root tiny_args, ''spots'', rx_site (tk_rx k), rx_recv (tk_rx k), band', fname]) (text_lines ls) \<in> set es"
      by blast
    then show ?thesis using rx [of k] unfolding root by (intro exI [of _ band'] exI [of _ fname] exI [of _ ls]) auto
  qed
  with es show ?thesis by blast
qed

definition tiny_psk :: "bool \<Rightarrow> urecord" where
  "tiny_psk f = tiny_row ''psk.spots'' ''A'' [(''mode'', PStr ''FT8''), (''reporter_id'', PStr ''A''), (''forward_to_pskreporter'', PBool f)]"

lemma tiny_psk_place: "place_of tiny_world tiny_args (tiny_psk f) = Ok (Psk (tiny_key [] [] (PStr ''ft8'') ''010101_0100''))"
  by code_simp

lemma tiny_psk_entries: "(case record_entries tiny_world tiny_args [tiny_psk True, tiny_psk False] of Ok es \<Rightarrow> length es | Raise _ \<Rightarrow> 0) = 3"
  by code_simp

theorem routing_follows_every_row_witness:
  "\<exists>es routes. record_entries tiny_world tiny_args [tiny_psk True, tiny_psk False] = Ok es
     \<and> Data ''routing.json'' (routing_json tiny_world routes) \<in> set es \<and> \<not> forwards routes ''A_FN42/A''"
proof -
  obtain es where es: "record_entries tiny_world tiny_args [tiny_psk True, tiny_psk False] = Ok es"
    using tiny_psk_entries by (auto split: res.splits)
  have rk: "receiver_key (tiny_key [] [] (PStr ''ft8'') ''010101_0100'') = ''A_FN42/A''" by (simp add: receiver_key_def tiny_key_def)
  have "\<not> wants_forward (rec_columns (tiny_psk False))" by code_simp
  with routing_follows_every_row [OF es _ tiny_psk_place [of True]] tiny_psk_place [of False]
  have "\<exists>routes. Data ''routing.json'' (routing_json tiny_world routes) \<in> set es \<and> \<not> forwards routes ''A_FN42/A''"
    using rk by auto
  with es show ?thesis by blast
qed

subsection \<open>Gateways\<close>

definition tiny_host :: "(nat \<Rightarrow> sub_answer) \<Rightarrow> host_world" where
  "tiny_host f = \<lparr>hw_run = f, hw_tmp = (\<lambda>_. ''/t''), hw_mkdir = None, hw_public = ''pk'', hw_repr = join '','', hw_now = 0\<rparr>"

definition idle_host :: host where "idle_host = \<lparr>ho_runs = [], ho_tmp = [], ho_made = 0, ho_key = True, ho_public = Some ''pk''\<rparr>"

definition second_takes :: "nat \<Rightarrow> sub_answer" where "second_takes i = (if i = 0 then Exited 255 ''closed'' else Exited 0 [])"

lemma second_takes_acked: "fst (upload_tar (tiny_host second_takes) tiny_sftp tiny_station ''tt'' ''n'' idle_host) = Ok acked"
  by code_simp

theorem uploaded_tar_is_stored_witness:
  "\<exists>before server after t u. [''g1'', ''g2''] = before @ server # after
     \<and> put_ends True (tiny_host second_takes) tiny_sftp tiny_station (put_cmd ''up'' ''/t'' ''n'') server t u \<and> (''/t'', ''tt'') \<in> set (ho_tmp t)"
proof -
  have "upload_tar (tiny_host second_takes) tiny_sftp tiny_station ''tt'' ''n'' idle_host
      = (Ok acked, snd (upload_tar (tiny_host second_takes) tiny_sftp tiny_station ''tt'' ''n'' idle_host))"
    using second_takes_acked by (metis prod.collapse)
  note stored = uploaded_tar_is_stored [OF this]
  have env: "tc_remote tiny_sftp = ''up''" "tc_servers tiny_sftp = [''g1'', ''g2'']" "tar_path (tiny_host second_takes) tiny_station idle_host = ''/t''"
    by (simp_all add: tiny_sftp_def tar_path_def tiny_host_def)
  show ?thesis using stored unfolding env Let_def by (auto simp: acked_def)
qed

theorem rekeyed_put_is_fresh_witness:
  "\<exists>n rs. ho_runs (snd (sftp_put (tiny_host (\<lambda>i. if i = 0 then Exited 255 ''Host key verification failed.'' else Exited 0 []))
       tiny_sftp tiny_station ''b'' ''g1'' idle_host)) = rs \<and> map sr_cmd rs = take (Suc n) (rekey_cmds tiny_sftp tiny_station ''g1'') \<and> 0 < n"
proof -
  let ?w = "tiny_host (\<lambda>i. if i = 0 then Exited 255 ''Host key verification failed.'' else Exited 0 [])"
  let ?p = "sftp_put ?w tiny_sftp tiny_station ''b'' ''g1'' idle_host"
  have four: "length (ho_runs (snd ?p)) = 4" by code_simp
  obtain n rs where r: "ho_runs (snd ?p) = ho_runs idle_host @ rs" "map sr_cmd rs = take (Suc n) (rekey_cmds tiny_sftp tiny_station ''g1'')"
    using rekeyed_put_is_fresh [OF prod.collapse [symmetric]] by blast
  have runs: "ho_runs (snd ?p) = rs" using r(1) by (simp add: idle_host_def)
  have "length rs \<le> Suc n" using arg_cong [OF r(2), of length] by simp
  then have "0 < n" using four unfolding runs by simp
  with runs r(2) show ?thesis by blast
qed

definition first_ftp_stores :: ftp_world where "first_ftp_stores = \<lparr>fw_answer = (\<lambda>_. Stored), fw_password_file = (\<lambda>_. None)\<rparr>"

definition tiny_batch :: batch where "tiny_batch = \<lparr>bt_records = [tiny_psk True], bt_cursor_after = ''1'', bt_commit_token = ''1''\<rparr>"

definition tiny_fallback :: "outcome res \<times> host \<times> ftp_session list" where
  "tiny_fallback = tar_ship tiny_world (tiny_host (\<lambda>_. Timed_out)) first_ftp_stores tiny_sftp tiny_station tiny_batch idle_host []"

lemma tiny_fallback_result: "map_res oc_kind (fst tiny_fallback) = Ok ''acked''" 
  by code_simp

lemma tiny_fallback_sessions: "length (snd (snd tiny_fallback)) = 1" 
  by code_simp

theorem fallback_after_every_refusal_witness:
  "\<exists>fc before server after l data. sc_fallback tiny_sftp = Some fc \<and> tc_servers fc = before @ server # after
     \<and> ftp_ends True first_ftp_stores data server l (snd (snd tiny_fallback))"
proof -
  obtain oc h' ses' where t: "tiny_fallback = (oc, h', ses')" by (cases tiny_fallback)
  have "map_res oc_kind oc = Ok ''acked''" using tiny_fallback_result unfolding t by simp
  then obtain o1 where o1: "oc = Ok o1" "oc_kind o1 = ''acked''" by (cases oc) auto
  have "ses' \<noteq> []" using tiny_fallback_sessions unfolding t by auto
  from fallback_after_every_refusal [OF t [unfolded tiny_fallback_def o1(1)] this] o1(2)
  show ?thesis unfolding t snd_conv by (elim exE conjE disjE) (blast, simp)
qed

end
