(* ===== verification/Dataset.thy ===== *)
theory Dataset
  imports SftpRun TarRows
begin

text \<open>
  The PSWS transport, \<open>transports/psws_magnetometer.py\<close>: a data set, which is a file or a folder, and
  the trigger folder that makes the server take it, in one sftp batch.

  The tree does not change while a data set is uploaded and has no symbolic links.  Beside the
  parameters of \<open>SftpRun\<close>, \<open>listable\<close> says which folders the system lets the transport read.
\<close>

subsection \<open>Configuration\<close>

record psws_conf =
  pd_instrument :: string
  pd_host :: string
  pd_user :: "string option"
  pd_key :: "string option"
  pd_remote :: string
  pd_trigger_path :: "string option"
  pd_prefix :: string
  pd_colons :: bool
  pd_connect_timeout :: int
  pd_xfer_timeout :: int
  pd_limit_kbps :: "int option"
  pd_dry_run :: bool

definition data_dir :: "psws_conf \<Rightarrow> string" where "data_dir c = strip_slashes (pd_remote c)"

definition trigger_dir :: "psws_conf \<Rightarrow> string" where
  "trigger_dir c = (case pd_trigger_path c of None \<Rightarrow> data_dir c | Some p \<Rightarrow> strip_slashes p)"

definition psws_policy :: batch_policy where "psws_policy = default_batch_policy\<lparr>bp_max_records := 1\<rparr>"

definition psws_user :: "psws_conf \<Rightarrow> 'a host_identity_scheme \<Rightarrow> string res" where
  "psws_user c ident = (case pd_user c of Some (u # us) \<Rightarrow> Ok (u # us)
   | _ \<Rightarrow> if py_strip (hi_station_id ident) \<noteq> [] then Ok (py_strip (hi_station_id ident))
       else Raise (Exn ''ValueError'' ''PswsMagnetometerSftp: no sftp_user and identity.station_id is empty''))"

definition psws_key :: "psws_conf \<Rightarrow> 'a host_identity_scheme \<Rightarrow> string" where
  "psws_key c ident = (case pd_key c of Some (k # ks) \<Rightarrow> k # ks | _ \<Rightarrow> hi_key_file ident)"

subsection \<open>Names\<close>

text \<open>\<open>Path.stem\<close>: without the last suffix, unless the dot is the first or the last character.\<close>

definition path_stem :: "fpath \<Rightarrow> string" where
  "path_stem p = (let name = path_name p; suffix = takeWhile (\<lambda>c. c \<noteq> CHR ''.'') (rev name);
       i = length name - length suffix - 1 in
     if CHR ''.'' \<in> set name \<and> 0 < i \<and> suffix \<noteq> [] then take i name else name)"

definition under_dir :: "string \<Rightarrow> string \<Rightarrow> string" where
  "under_dir d leaf = (if d = [] then leaf else d @ ''/'' @ leaf)"

text \<open>The trigger: \<open>now\<close> is in microseconds.\<close>

definition upload_stamp :: "bool \<Rightarrow> int \<Rightarrow> string" where
  "upload_stamp colons now = (let d = date_parts (now div 1000000); t = time_parts (now div 1000000) in
     fixed_digits 4 (d ! 0) @ ''-'' @ fixed_digits 2 (d ! 1) @ ''-'' @ fixed_digits 2 (d ! 2) @ ''T''
     @ fixed_digits 2 (t ! 0) @ (if colons then '':'' else ''-'') @ fixed_digits 2 (t ! 1))"

definition trigger_name :: "psws_conf \<Rightarrow> int \<Rightarrow> string \<Rightarrow> string" where
  "trigger_name c now dataset = pd_prefix c @ dataset @ ''_#'' @ pd_instrument c @ ''_#'' @ upload_stamp (pd_colons c) now"

subsection \<open>The batch\<close>

text \<open>The lines of an sftp batch; an error of a \<open>Mkdir\<close> or \<open>Rm\<close> line, which starts with a dash, is ignored.\<close>

datatype batch_line = Mkdir string | Put string string | Rm string | Rename string string | Quit

definition in_quotes :: "string \<Rightarrow> string" where "in_quotes s = CHR 0x22 # s @ [CHR 0x22]"

fun line_text :: "batch_line \<Rightarrow> string" where
  "line_text (Mkdir d) = ''-mkdir '' @ in_quotes d"
| "line_text (Put local remote) = ''put '' @ in_quotes local @ '' '' @ in_quotes remote"
| "line_text (Rm f) = ''-rm '' @ in_quotes f"
| "line_text (Rename a b) = ''rename '' @ in_quotes a @ '' '' @ in_quotes b"
| "line_text Quit = ''quit''"

definition batch_text :: "batch_line list \<Rightarrow> bytes" where
  "batch_text ls = utf8 (join [CHR 0x0A] (map line_text ls) @ [CHR 0x0A])"

text \<open>\<open>os.os_walk\<close>: a folder with the names of its folders and of its other nodes, sorted, before what is
  below it.  A folder that cannot be read is left out without an error.\<close>

definition names_in :: "(fkind \<Rightarrow> bool) \<Rightarrow> ftree \<Rightarrow> fpath \<Rightarrow> string list" where
  "names_in want t p = sort (map (\<lambda>n. List.last (fn_path n))
     (filter (\<lambda>n. fn_path n \<noteq> [] \<and> butlast (fn_path n) = p \<and> want (fn_kind n)) t))"

abbreviation folders_in :: "ftree \<Rightarrow> fpath \<Rightarrow> string list" where "folders_in \<equiv> names_in (\<lambda>k. k = Folder)"

abbreviation files_in :: "ftree \<Rightarrow> fpath \<Rightarrow> string list" where "files_in \<equiv> names_in (\<lambda>k. k \<noteq> Folder)"

lemma names_in_node: "d \<in> set (names_in want t p) \<longleftrightarrow> (\<exists>n \<in> set t. fn_path n = p @ [d] \<and> want (fn_kind n))"
  by (force simp: names_in_def)

lemma fewer_below:
  assumes "d \<in> set (names_in want t p)"
  shows "length (filter (\<lambda>n. below (p @ [d]) (fn_path n)) t) < length (filter (\<lambda>n. below p (fn_path n)) t)"
proof -
  obtain n where n: "n \<in> set t" "fn_path n = p @ [d]" using assms unfolding names_in_node by blast
  have "below p (fn_path m)" if "below (p @ [d]) (fn_path m)" for m
    using that by (auto simp: below_def take_Suc_conv_app_nth min_def dest: arg_cong [of _ _ "take (length p)"])
  then have "filter (\<lambda>m. below (p @ [d]) (fn_path m)) t
      = filter (\<lambda>m. below (p @ [d]) (fn_path m)) (filter (\<lambda>m. below p (fn_path m)) t)"
    by (auto simp: filter_filter intro: filter_cong)
  also have "length \<dots> < length (filter (\<lambda>m. below p (fn_path m)) t)"
    by (rule length_filter_less [of n]) (use n in \<open>auto simp: below_def\<close>)
  finally show ?thesis .
qed

function os_walk :: "(fpath \<Rightarrow> bool) \<Rightarrow> ftree \<Rightarrow> fpath \<Rightarrow> (fpath \<times> string list \<times> string list) list" where
  "os_walk listable t p = (if listable p
     then (p, folders_in t p, files_in t p) # concat (map (\<lambda>d. os_walk listable t (p @ [d])) (folders_in t p)) else [])"
  by pat_completeness auto
termination
  by (relation "measure (\<lambda>(listable, t, p). length (filter (\<lambda>n. below p (fn_path n)) t))") (auto intro: fewer_below)

declare os_walk.simps [simp del]

definition remote_at :: "string \<Rightarrow> fpath \<Rightarrow> fpath \<Rightarrow> string" where
  "remote_at base p q = (let rel = drop (length p) q in if rel = [] then base else base @ ''/'' @ join ''/'' rel)"

definition folder_lines :: "string \<Rightarrow> fpath \<Rightarrow> fpath \<times> string list \<times> string list \<Rightarrow> batch_line list" where
  "folder_lines base p entry = (case entry of (q, ds, fs) \<Rightarrow> let remote = remote_at base p q in
     map (\<lambda>d. Mkdir (remote @ ''/'' @ d)) ds @ map (\<lambda>f. Put (path_text (q @ [f])) (remote @ ''/'' @ f)) fs)"

definition dir_put_lines :: "psws_conf \<Rightarrow> (fpath \<Rightarrow> bool) \<Rightarrow> ftree \<Rightarrow> fpath \<Rightarrow> string \<Rightarrow> batch_line list" where
  "dir_put_lines c listable t p name = (let base = under_dir (data_dir c) name in
     Mkdir base # concat (map (folder_lines base p) (os_walk listable t p)))"

definition file_put_lines :: "psws_conf \<Rightarrow> fpath \<Rightarrow> batch_line list" where
  "file_put_lines c p = (let zip = under_dir (data_dir c) (path_name p); part = zip @ ''.part'' in
     [Put (path_text p) part, Rm zip, Rename part zip])"

definition is_folder :: "ftree \<Rightarrow> fpath \<Rightarrow> bool" where
  "is_folder t p \<longleftrightarrow> (case node_at t p of Some n \<Rightarrow> fn_kind n = Folder | None \<Rightarrow> False)"

definition dataset_name :: "ftree \<Rightarrow> fpath \<Rightarrow> string" where
  "dataset_name t p = (if is_folder t p then path_name p else path_stem p)"

definition upload_lines :: "psws_conf \<Rightarrow> (fpath \<Rightarrow> bool) \<Rightarrow> ftree \<Rightarrow> int \<Rightarrow> fpath \<Rightarrow> batch_line list" where
  "upload_lines c listable t now p = (if data_dir c = [] then [] else [Mkdir (data_dir c)])
     @ (if is_folder t p then dir_put_lines c listable t p (dataset_name t p) else file_put_lines c p)
     @ [Mkdir (under_dir (trigger_dir c) (trigger_name c now (dataset_name t p))), Quit]"

subsection \<open>Why an sftp failed\<close>

definition sftp_diagnostics :: "string list" where
  "sftp_diagnostics = [''permission denied'', ''host key verification failed'', ''remote host identification has changed'',
     ''no such file or directory'', ''connection refused'', ''connection closed'', ''connection timed out'',
     ''could not resolve hostname'', ''disk quota exceeded'', ''no space left on device'', ''too many authentication failures'',
     ''operation not permitted'', ''broken pipe'', ''timed out'', ''not found on path'']"

text \<open>The characters at which \<open>str.splitlines\<close> breaks, among the code points up to 255; the empty line
  it does not see inside a carriage return and line feed is dropped with the other empty lines.\<close>

definition line_break :: "char \<Rightarrow> bool" where
  "line_break c \<longleftrightarrow> (let k = (of_char c :: nat) in (10 \<le> k \<and> k \<le> 13) \<or> (28 \<le> k \<and> k \<le> 30) \<or> k = 133)"

fun break_lines :: "string \<Rightarrow> string list" where
  "break_lines [] = [[]]"
| "break_lines (c # s) = (if line_break c then [] # break_lines s
     else (case break_lines s of [] \<Rightarrow> [[c]] | l # ls \<Rightarrow> (c # l) # ls))"

definition output_lines :: "string \<Rightarrow> string list" where
  "output_lines out = filter (\<lambda>l. l \<noteq> []) (map py_strip (break_lines out))"

definition tells_why :: "string \<Rightarrow> bool" where
  "tells_why line \<longleftrightarrow> list_ex (contains (py_lower line)) sftp_diagnostics"

definition keep_end :: "nat \<Rightarrow> string \<Rightarrow> string" where "keep_end n s = drop (length s - n) s"

definition diagnose :: "string \<Rightarrow> string" where
  "diagnose out = (let ls = output_lines out in case find tells_why ls of Some l \<Rightarrow> take 300 l
     | None \<Rightarrow> if ls \<noteq> [] then keep_end 300 (join '' | '' ls) else ''(no output from sftp)'')"

subsection \<open>Uploading\<close>

definition psws_cmd :: "psws_conf \<Rightarrow> string \<Rightarrow> string \<Rightarrow> string list" where
  "psws_cmd c user key = [''sftp'', ''-b'', ''-'']
     @ options [''LogLevel=ERROR'', ''BatchMode=yes'', ''ConnectTimeout='' @ str_of_int (pd_connect_timeout c),
         ''StrictHostKeyChecking=accept-new'']
     @ (if key = [] then [] else [''-i'', key])
     @ (case pd_limit_kbps c of None \<Rightarrow> [] | Some n \<Rightarrow> [''-l'', str_of_int n])
     @ [user @ ''@'' @ pd_host c]"

definition psws_run :: "host_world \<Rightarrow> psws_conf \<Rightarrow> string \<Rightarrow> string \<Rightarrow> bytes \<Rightarrow> host \<Rightarrow> (int \<times> string) res \<times> host" where
  "psws_run w c user key batch h = (case run_sub w (psws_cmd c user key) (Some batch) h of
     (Broke e, h') \<Rightarrow> (if exn_type e = ''FileNotFoundError'' then Ok (1, ''sftp binary not found on PATH'') else Raise e, h')
   | (a, h') \<Rightarrow> (sftp_answer (''sftp timed out after '' @ str_of_int (pd_xfer_timeout c) @ ''s'') a, h'))"

definition upload_dataset :: "host_world \<Rightarrow> psws_conf \<Rightarrow> 'a host_identity_scheme \<Rightarrow> (fpath \<Rightarrow> bool) \<Rightarrow> ftree \<Rightarrow> fpath \<Rightarrow> host
    \<Rightarrow> outcome res \<times> host" where
  "upload_dataset w c ident listable t p h = (if \<not> path_exists t p
     then (Ok (permanent_failure (''dataset vanished before upload: '' @ path_text p)), h)
     else case psws_user c ident of Raise e \<Rightarrow> (Ok (permanent_failure (exn_text e)), h)
     | Ok user \<Rightarrow> if pd_dry_run c then (Ok acked, h)
       else (case psws_run w c user (psws_key c ident) (batch_text (upload_lines c listable t (hw_now w) p)) h of
         (Raise e, h') \<Rightarrow> (Raise e, h')
       | (Ok (rc, out), h') \<Rightarrow> (Ok (if rc = 0 then acked
           else retry_later (''sftp rc='' @ str_of_int rc @ '': '' @ diagnose out)), h')))"

definition dataset_paths :: "urecord list \<Rightarrow> string list" where
  "dataset_paths rs = filter (\<lambda>p. p \<noteq> []) (List.map_filter rec_payload_path rs)"

fun upload_each :: "host_world \<Rightarrow> psws_conf \<Rightarrow> 'a host_identity_scheme \<Rightarrow> (fpath \<Rightarrow> bool) \<Rightarrow> ftree \<Rightarrow> string list \<Rightarrow> host
    \<Rightarrow> outcome res \<times> host" where
  "upload_each w c ident listable t [] h = (Ok acked, h)"
| "upload_each w c ident listable t (p # ps) h = (case upload_dataset w c ident listable t (path_of p) h of
     (Raise e, h') \<Rightarrow> (Raise e, h')
   | (Ok oc, h') \<Rightarrow> if succeeded oc then upload_each w c ident listable t ps h' else (Ok oc, h'))"

definition psws_ship :: "host_world \<Rightarrow> psws_conf \<Rightarrow> 'a host_identity_scheme \<Rightarrow> (fpath \<Rightarrow> bool) \<Rightarrow> ftree \<Rightarrow> batch \<Rightarrow> host
    \<Rightarrow> outcome res \<times> host" where
  "psws_ship w c ident listable t b h = upload_each w c ident listable t (dataset_paths (bt_records b)) h"

definition psws_serialize :: "batch \<Rightarrow> bytes" where
  "psws_serialize b = (case dataset_paths (bt_records b) of p # _ \<Rightarrow> utf8 p | [] \<Rightarrow> [])"

definition no_path_in_blob :: string where
  "no_path_in_blob = ''no dataset path in retry blob (deliverable predates the path-carrying build); the source will re-ship if the dataset is still queued''"

definition psws_replay :: "host_world \<Rightarrow> psws_conf \<Rightarrow> 'a host_identity_scheme \<Rightarrow> (fpath \<Rightarrow> bool) \<Rightarrow> ftree \<Rightarrow> bytes \<Rightarrow> host
    \<Rightarrow> outcome res \<times> host" where
  "psws_replay w c ident listable t blob h = (if blob = [] then (Ok (permanent_failure no_path_in_blob), h)
     else case utf8_decode blob of Raise e \<Rightarrow> (Raise e, h)
     | Ok s \<Rightarrow> upload_dataset w c ident listable t (path_of s) h)"

end
