(* ===== verification/Heartbeat.thy ===== *)
theory Heartbeat
  imports Dataset
begin

text \<open>
  The heartbeat transport, \<open>transports/heartbeat_sftp.py\<close>: small files, in one sftp batch, with one more
  try after a changed host key; the retry blob carries the contents of the files.

  Parameters, beside those of \<open>SftpRun\<close>: the size the system gives for a node that is not a readable
  file.  A retry blob that is a JSON document, but not an array of objects with string values, is not
  modelled.
\<close>

subsection \<open>Base 64\<close>

definition b64_char :: "nat \<Rightarrow> char" where
  "b64_char k = (if k < 26 then char_of (65 + k) else if k < 52 then char_of (71 + k) else if k < 62 then char_of (k - 4)
     else if k = 62 then CHR ''+'' else CHR ''/'')"

definition b64_value :: "char \<Rightarrow> nat option" where
  "b64_value c = (let k = (of_char c :: nat) in if 65 \<le> k \<and> k \<le> 90 then Some (k - 65)
     else if 97 \<le> k \<and> k \<le> 122 then Some (k - 71) else if 48 \<le> k \<and> k \<le> 57 then Some (k + 4)
     else if k = 43 then Some 62 else if k = 47 then Some 63 else None)"

fun b64_encode :: "bytes \<Rightarrow> string" where
  "b64_encode [] = []"
| "b64_encode [a] = (let x = of_char a in [b64_char (x div 4), b64_char (x mod 4 * 16), CHR ''='', CHR ''=''])"
| "b64_encode [a, b] = (let x = of_char a; y = of_char b in
     [b64_char (x div 4), b64_char (x mod 4 * 16 + y div 16), b64_char (y mod 16 * 4), CHR ''=''])"
| "b64_encode (a # b # c # s) = (let x = of_char a; y = of_char b; z = of_char c in
     [b64_char (x div 4), b64_char (x mod 4 * 16 + y div 16), b64_char (y mod 16 * 4 + z div 64), b64_char (z mod 64)]
     @ b64_encode s)"

text \<open>\<open>binascii.a2b_base64\<close>, not strict: \<open>place\<close> counts the characters of the present group, \<open>bits\<close> are
  those a character has left, \<open>pads\<close> the padding since the last one.  Other characters are passed over.\<close>

definition b64_error :: exn where "b64_error = Exn ''Error'' ''Incorrect padding''"

fun b64_read :: "string \<Rightarrow> nat \<Rightarrow> nat \<Rightarrow> nat \<Rightarrow> bytes res" where
  "b64_read [] place bits pads = (if place = 0 then Ok [] else Raise b64_error)"
| "b64_read (c # s) place bits pads = (if c = CHR ''='' then
       if 2 \<le> place then if 4 \<le> place + Suc pads then Ok [] else b64_read s place bits (Suc pads) else b64_read s place bits pads
     else case b64_value c of None \<Rightarrow> b64_read s place bits pads
     | Some v \<Rightarrow> if place = 0 then b64_read s 1 v 0
       else if place = 1 then map_res (Cons (char_of (bits * 4 + v div 16))) (b64_read s 2 (v mod 16) 0)
       else if place = 2 then map_res (Cons (char_of (bits * 16 + v div 4))) (b64_read s 3 (v mod 4) 0)
       else map_res (Cons (char_of (bits * 64 + v))) (b64_read s 0 0 0))"

definition b64_decode :: "string \<Rightarrow> bytes res" where
  "b64_decode s = (if is_ascii s then b64_read s 0 0 0
     else Raise (Exn ''ValueError'' ''string argument should contain only ASCII characters''))"

subsection \<open>The retry blob\<close>

type_synonym hb_item = "(string \<times> string) list"

definition json_member :: "string \<times> string \<Rightarrow> string" where
  "json_member kv = json_string (fst kv) @ '': '' @ json_string (snd kv)"

definition json_object :: "hb_item \<Rightarrow> string" where
  "json_object ms = ''{'' @ join '', '' (map json_member ms) @ ''}''"

definition json_objects :: "hb_item list \<Rightarrow> string" where
  "json_objects xs = ''['' @ join '', '' (map json_object xs) @ '']''"

text \<open>A string, after white space; a character that must come next; a sequence up to its closing bracket.\<close>

definition read_string :: "string \<Rightarrow> (string \<times> string) option" where
  "read_string s = (case dropWhile json_ws s of c # r \<Rightarrow> if c = CHR 0x22 then json_unquote r else None | [] \<Rightarrow> None)"

definition read_char :: "char \<Rightarrow> string \<Rightarrow> string option" where
  "read_char c s = (case dropWhile json_ws s of d # r \<Rightarrow> if d = c then Some r else None | [] \<Rightarrow> None)"

definition read_member :: "string \<Rightarrow> ((string \<times> string) \<times> string) option" where
  "read_member s = (case read_string s of None \<Rightarrow> None | Some (k, s1) \<Rightarrow> (case read_char CHR '':'' s1 of None \<Rightarrow> None
     | Some s2 \<Rightarrow> map_option (\<lambda>(v, s3). ((k, v), s3)) (read_string s2)))"

text \<open>Each element takes a character at least, so the length of the text is fuel enough.\<close>

fun read_more :: "(string \<Rightarrow> ('a \<times> string) option) \<Rightarrow> char \<Rightarrow> nat \<Rightarrow> string \<Rightarrow> ('a list \<times> string) option" where
  "read_more elem close 0 s = None"
| "read_more elem close (Suc n) s = (case elem s of None \<Rightarrow> None | Some (x, s1) \<Rightarrow>
     (case read_char close s1 of Some r \<Rightarrow> Some ([x], r)
      | None \<Rightarrow> (case read_char CHR '','' s1 of None \<Rightarrow> None
         | Some s2 \<Rightarrow> map_option (\<lambda>(xs, r). (x # xs, r)) (read_more elem close n s2))))"

definition read_seq :: "(string \<Rightarrow> ('a \<times> string) option) \<Rightarrow> char \<Rightarrow> char \<Rightarrow> string \<Rightarrow> ('a list \<times> string) option" where
  "read_seq elem opening close s = (case read_char opening s of None \<Rightarrow> None
     | Some s1 \<Rightarrow> (case read_char close s1 of Some r \<Rightarrow> Some ([], r) | None \<Rightarrow> read_more elem close (length s1) s1))"

definition read_object :: "string \<Rightarrow> (hb_item \<times> string) option" where
  "read_object = read_seq read_member CHR ''{'' CHR ''}''"

definition read_objects :: "string \<Rightarrow> hb_item list option" where
  "read_objects s = (case read_seq read_object CHR ''['' CHR '']'' s of
     Some (xs, r) \<Rightarrow> if dropWhile json_ws r = [] then Some xs else None | None \<Rightarrow> None)"

text \<open>\<open>item[key]\<close>: the last member of that name.\<close>

definition item_get :: "hb_item \<Rightarrow> string \<Rightarrow> string res" where
  "item_get m k = (case map_of (rev m) k of Some v \<Rightarrow> Ok v | None \<Rightarrow> Raise (Exn ''KeyError'' k))"

subsection \<open>Configuration and commands\<close>

record hb_conf =
  hb_host :: string
  hb_port :: int
  hb_user :: string
  hb_remote :: string
  hb_connect_timeout :: int
  hb_known_hosts :: string

definition hb_policy :: batch_policy where "hb_policy = default_batch_policy\<lparr>bp_max_records := 8\<rparr>"

definition hb_part :: "hb_conf \<Rightarrow> string \<Rightarrow> string" where "hb_part c name = hb_remote c @ ''/'' @ name @ ''.part''"

definition hb_batch :: "hb_conf \<Rightarrow> (string \<times> string) list \<Rightarrow> bytes" where
  "hb_batch c files = utf8 (join [CHR 0x0A] (map (\<lambda>(local, name). ''put '' @ local @ '' '' @ hb_part c name) files
     @ map (\<lambda>(local, name). ''rename '' @ hb_part c name @ '' '' @ hb_remote c @ ''/'' @ name) files) @ [CHR 0x0A])"

definition hb_cmd :: "hb_conf \<Rightarrow> 'a host_identity_scheme \<Rightarrow> string list \<Rightarrow> string list" where
  "hb_cmd c ident extra = [''sftp'', ''-b'', ''-'']
     @ options [''BatchMode=yes'', ''ConnectTimeout='' @ str_of_int (hb_connect_timeout c), ''UserKnownHostsFile='' @ hb_known_hosts c,
         ''GlobalKnownHostsFile=/dev/null'', ''StrictHostKeyChecking=accept-new'']
     @ (if hi_key_file ident = [] then [] else [''-i'', hi_key_file ident])
     @ options extra @ [''-P'', str_of_int (hb_port c), hb_user c @ ''@'' @ hb_host c]"

definition hb_run :: "host_world \<Rightarrow> hb_conf \<Rightarrow> 'a host_identity_scheme \<Rightarrow> bytes \<Rightarrow> string list \<Rightarrow> host \<Rightarrow> (int \<times> string) res \<times> host" where
  "hb_run w c ident batch extra h = (case run_sub w (hb_cmd c ident extra) (Some batch) h of
     (a, h') \<Rightarrow> (sftp_answer ''sftp timed out'' a, h'))"

definition hb_run_with_retry :: "host_world \<Rightarrow> hb_conf \<Rightarrow> 'a host_identity_scheme \<Rightarrow> bytes \<Rightarrow> host \<Rightarrow> (int \<times> string) res \<times> host" where
  "hb_run_with_retry w c ident batch h = (case hb_run w c ident batch [] h of
     (Raise e, h1) \<Rightarrow> (Raise e, h1)
   | (Ok (rc, out), h1) \<Rightarrow> if rc \<noteq> 0 \<and> host_key_changed out
       then (case run_blind w (forget_host_cmd (hb_known_hosts c) (hb_host c)) h1 of
         (Raise e, h2) \<Rightarrow> (Raise e, h2)
       | (Ok _, h2) \<Rightarrow> hb_run w c ident batch [''StrictHostKeyChecking=accept-new''] h2)
       else (Ok (rc, out), h1))"

definition hb_outcome :: "int \<Rightarrow> int \<Rightarrow> string \<Rightarrow> outcome" where
  "hb_outcome n rc out = (if rc = 0 then acked\<lparr>oc_n_bytes := n\<rparr>
     else retry_later (''sftp rc='' @ str_of_int rc @ '': '' @ py_strip (keep_end 200 out)))"

subsection \<open>Operations\<close>

definition stat_size :: "(fpath \<Rightarrow> int) \<Rightarrow> ftree \<Rightarrow> fpath \<Rightarrow> int option" where
  "stat_size other t p = map_option (\<lambda>n. case fn_kind n of Contents b \<Rightarrow> int (length b) | _ \<Rightarrow> other p) (node_at t p)"

fun stat_sizes :: "(fpath \<Rightarrow> int) \<Rightarrow> ftree \<Rightarrow> fpath list \<Rightarrow> fpath + int list" where
  "stat_sizes other t [] = Inr []"
| "stat_sizes other t (p # ps) = (case stat_size other t p of None \<Rightarrow> Inl p
     | Some n \<Rightarrow> (case stat_sizes other t ps of Inl q \<Rightarrow> Inl q | Inr ns \<Rightarrow> Inr (n # ns)))"

definition hb_paths :: "batch \<Rightarrow> fpath list" where "hb_paths b = map path_of (dataset_paths (bt_records b))"

definition hb_ship :: "host_world \<Rightarrow> hb_conf \<Rightarrow> 'a host_identity_scheme \<Rightarrow> (fpath \<Rightarrow> int) \<Rightarrow> ftree \<Rightarrow> batch \<Rightarrow> host
    \<Rightarrow> outcome res \<times> host" where
  "hb_ship w c ident other t b h = (if hb_paths b = [] then (Ok acked, h)
     else case stat_sizes other t (hb_paths b) of
       Inl p \<Rightarrow> (Ok (retry_later (''file vanished before upload: '' @ path_text p)), h)
     | Inr sizes \<Rightarrow> (case hb_run_with_retry w c ident (hb_batch c (map (\<lambda>p. (path_text p, path_name p)) (hb_paths b)))
           (ensure_identity_key w ident h) of
         (Raise e, h1) \<Rightarrow> (Raise e, h1)
       | (Ok (rc, out), h1) \<Rightarrow> (Ok (hb_outcome (sum_list sizes) rc out), h1)))"

definition hb_item_of :: "string \<Rightarrow> bytes \<Rightarrow> hb_item" where
  "hb_item_of name data = [(''basename'', name), (''b64'', b64_encode data)]"

text \<open>The files that can be read, with their names.\<close>

definition hb_contents :: "ftree \<Rightarrow> fpath list \<Rightarrow> (string \<times> bytes) list" where
  "hb_contents t ps = List.map_filter (\<lambda>p. case map_option fn_kind (node_at t p) of
     Some (Contents d) \<Rightarrow> Some (path_name p, d) | _ \<Rightarrow> None) ps"

definition hb_serialize :: "ftree \<Rightarrow> batch \<Rightarrow> bytes" where
  "hb_serialize t b = utf8 (json_objects (map (\<lambda>(name, d). hb_item_of name d) (hb_contents t (hb_paths b))))"

definition read_blob :: "bytes \<Rightarrow> hb_item list option" where
  "read_blob blob = (if blob = [] then Some [] else case utf8_decode blob of Raise e \<Rightarrow> None | Ok s \<Rightarrow> read_objects s)"

text \<open>Writing the files of a blob: the names of all temporary files made, and, unless an item is bad, the
  files to send and their size.\<close>

fun stage_items :: "host_world \<Rightarrow> hb_item list \<Rightarrow> string list \<Rightarrow> (string \<times> string) list \<Rightarrow> int \<Rightarrow> host
    \<Rightarrow> ((string \<times> string) list \<times> int) res \<times> string list \<times> host" where
  "stage_items w [] tmps files n h = (Ok (files, n), tmps, h)"
| "stage_items w (m # ms) tmps files n h = (case item_get m ''b64'' of Raise e \<Rightarrow> (Raise e, tmps, h)
     | Ok s \<Rightarrow> (case b64_decode s of Raise e \<Rightarrow> (Raise e, tmps, h)
       | Ok d \<Rightarrow> (case make_tmp w d h of (path, h1) \<Rightarrow> (case item_get m ''basename'' of
             Raise e \<Rightarrow> (Raise e, tmps @ [path], h1)
           | Ok name \<Rightarrow> stage_items w ms (tmps @ [path]) (files @ [(path, name)]) (n + int (length d)) h1))))"

definition hb_replay :: "host_world \<Rightarrow> hb_conf \<Rightarrow> 'a host_identity_scheme \<Rightarrow> (bytes \<Rightarrow> string) \<Rightarrow> bytes \<Rightarrow> host \<Rightarrow> outcome res \<times> host" where
  "hb_replay w c ident why blob h = (case read_blob blob of
     None \<Rightarrow> (Ok (retry_later (''corrupt replay blob: '' @ why blob)), h)
   | Some [] \<Rightarrow> (Ok acked, h)
   | Some (m # ms) \<Rightarrow> (case stage_items w (m # ms) [] [] 0 (ensure_identity_key w ident h) of
       (Raise e, tmps, h1) \<Rightarrow> (Raise e, drop_tmp tmps h1)
     | (Ok (files, n), tmps, h1) \<Rightarrow> (case hb_run_with_retry w c ident (hb_batch c files) h1 of
         (Raise e, h2) \<Rightarrow> (Raise e, drop_tmp tmps h2)
       | (Ok (rc, out), h2) \<Rightarrow> (Ok (hb_outcome n rc out), drop_tmp tmps h2))))"

end
