(* ===== verification/FileLaws.thy ===== *)
theory FileLaws
  imports FileTree
begin

text \<open>
  The properties of the file source: tokens and paths read back, what a commit removes, and what the
  keep mode offers.
\<close>

subsection \<open>Tokens read back\<close>

lemma hex_val_digit [simp]: "d < 16 \<Longrightarrow> hex_val (hex_digit d) = Some d"
  by (auto simp: hex_val_def hex_digit_def of_char_digit_char Let_def)

lemma char_is: "(of_char c :: nat) = k \<Longrightarrow> c = char_of k"
  by auto

lemma json_unquote_char [simp]:
  "json_unquote (json_char c @ r) = map_option (\<lambda>(xs, q). (c # xs, q)) (json_unquote r)"
proof -
  define k where "k = (of_char c :: nat)"
  have c: "c = char_of k" by (simp add: k_def)
  have k: "k < 256" by (simp add: k_def)
  consider (esc) "k \<in> {34, 92, 10, 13, 9, 12, 8}" | (plain) "32 \<le> k" "k \<le> 126" "k \<noteq> 34" "k \<noteq> 92"
    | (hex) "k < 32 \<or> 126 < k" "k \<notin> {34, 92, 10, 13, 9, 12, 8}" by force
  then show ?thesis
  proof cases
    case esc
    then have "c \<in> char_of ` {34, 92, 10, 13, 9, 12, 8 :: nat}" using c by blast
    then have "c \<in> {CHR 0x22, CHR 0x5C, CHR 0x0A, CHR 0x0D, CHR 0x09, CHR 0x0C, CHR 0x08}" by (simp add: char_of_def bit_0)
    then show ?thesis by (auto simp: json_char_def json_escape_def)
  next
    case plain
    then have "c \<noteq> CHR 0x22" "c \<noteq> CHR 0x5C" "\<not> k < 32" by (auto simp: k_def)
    then show ?thesis using plain by (simp add: json_char_def k_def [symmetric])
  next
    case hex
    have h: "k div 16 < 16" using k by simp
    have "json_escape (CHR ''u'' # CHR ''0'' # CHR ''0'' # hex_digit (k div 16) # hex_digit (k mod 16) # r) = Some (c, r)"
    proof -
      have "hex_val CHR ''0'' = Some 0" by (simp add: hex_val_def)
      then show ?thesis using h by (simp add: json_escape_def c)
    qed
    moreover have "json_char c = [CHR 0x5C, CHR ''u'', CHR ''0'', CHR ''0'', hex_digit (k div 16), hex_digit (k mod 16)]"
      using hex by (auto simp: json_char_def Let_def k_def [symmetric])
    ultimately show ?thesis by simp
  qed
qed

lemma json_unquote_string: "json_unquote (concat (map json_char s) @ CHR 0x22 # r) = Some (s, r)"
  by (induction s) simp_all

lemma json_elements_strings:
  "xs \<noteq> [] \<Longrightarrow> json_elements (join '', '' (map json_string xs) @ CHR '']'' # r) = Some (xs, r)
    \<and> json_elements (CHR '' '' # join '', '' (map json_string xs) @ CHR '']'' # r) = Some (xs, r)"
proof (induction xs)
  case (Cons x xs)
  have w: "\<not> json_ws CHR 0x22" "json_ws CHR '' ''" "\<not> json_ws CHR '']''" "\<not> json_ws CHR '',''"
    by (simp_all add: json_ws_def)
  show ?case
  proof (cases xs)
    case Nil
    then show ?thesis by (simp add: json_elements.simps json_string_def json_unquote_string w)
  next
    case (Cons y ys)
    have ih: "json_elements (CHR '' '' # join '', '' (map json_string xs) @ CHR '']'' # r) = Some (xs, r)"
      using Cons.IH Cons by simp
    have j: "join '', '' (map json_string (x # xs)) @ CHR '']'' # r
      = json_string x @ CHR '','' # CHR '' '' # join '', '' (map json_string xs) @ CHR '']'' # r"
      using Cons by simp
    have step: "json_elements s = Some (x # xs, r)" if "dropWhile json_ws s = json_string x @ CHR '','' # z" "json_elements z = Some (xs, r)" for s z
      using that by (simp add: json_elements.simps [of s] json_string_def json_unquote_string w)
    show ?thesis unfolding j by (intro conjI step [OF _ ih]) (simp_all add: json_string_def w)
  qed
qed simp

lemma json_strings_read: "json_read_strings (json_strings xs) = Some xs"
proof -
  have w: "\<not> json_ws CHR ''[''" "\<not> json_ws CHR '']''" "\<not> json_ws CHR 0x22" by (simp_all add: json_ws_def)
  show ?thesis
  proof (cases xs)
    case Nil
    then show ?thesis by (simp add: json_read_strings_def json_strings_def w)
  next
    case (Cons x ys)
    have e: "json_elements (join '', '' (map json_string xs) @ '']'') = Some (xs, [])"
      using json_elements_strings [of xs "[]"] Cons by simp
    obtain z where z: "join '', '' (map json_string xs) @ '']'' = CHR 0x22 # z"
      using Cons by (cases ys) (auto simp: json_string_def)
    show ?thesis using e unfolding json_read_strings_def json_strings_def by (simp add: w z)
  qed
qed

lemma token_nonempty [simp]: "json_strings xs \<noteq> []"
  by (simp add: json_strings_def)

definition plain_path :: "fpath \<Rightarrow> bool" where
  "plain_path p \<longleftrightarrow> p \<noteq> [] \<and> list_all (\<lambda>c. c \<noteq> [] \<and> c \<noteq> ''.'' \<and> CHR ''/'' \<notin> set c) p"

lemma split_none: "ch \<notin> set c \<Longrightarrow> split_on ch c = [c]"
  by (induction c) auto

lemma split_first: "ch \<notin> set c \<Longrightarrow> split_on ch (c @ ch # s) = c # split_on ch s"
  by (induction c) auto

lemma split_join: "p \<noteq> [] \<Longrightarrow> list_all (\<lambda>c. ch \<notin> set c) p \<Longrightarrow> split_on ch (join [ch] p) = p"
  by (induction "[ch]" p rule: join.induct) (auto simp: split_none split_first)

lemma path_of_text [simp]: "plain_path p \<Longrightarrow> path_of (path_text p) = p"
proof -
  assume p: "plain_path p"
  then have "split_on CHR ''/'' (join ''/'' p) = p"
    by (intro split_join) (auto simp: plain_path_def list_all_iff)
  then show ?thesis using p by (auto simp: path_of_def path_text_def plain_path_def list_all_iff filter_id_conv)
qed

lemma path_text_inj: "plain_path p \<Longrightarrow> plain_path q \<Longrightarrow> path_text p = path_text q \<longleftrightarrow> p = q"
  by (metis path_of_text)

subsection \<open>Trees\<close>

text \<open>Each path once, and every folder on the way to a node is a node.\<close>

definition wf_tree :: "ftree \<Rightarrow> bool" where
  "wf_tree t \<longleftrightarrow> distinct (map fn_path t) \<and> (\<forall>n \<in> set t. plain_path (fn_path n)
     \<and> (butlast (fn_path n) \<noteq> [] \<longrightarrow> (\<exists>m \<in> set t. fn_path m = butlast (fn_path n) \<and> fn_kind m = Folder)))"

definition set_like :: "file_world \<Rightarrow> bool" where
  "set_like w \<longleftrightarrow> (\<forall>xs. set (fw_order w xs) = set xs \<and> distinct (fw_order w xs))"

lemma node_at_Some: "distinct (map fn_path t) \<Longrightarrow> node_at t p = Some n \<longleftrightarrow> n \<in> set t \<and> fn_path n = p"
  by (induction t) (auto simp: node_at_def)

lemma node_at_None: "node_at t p = None \<longleftrightarrow> (\<forall>n \<in> set t. fn_path n \<noteq> p)"
  by (auto simp: node_at_def find_None_iff)

lemma node_at_filter: "node_at (filter (\<lambda>m. P (fn_path m)) t) p = (if P p then node_at t p else None)"
  by (induction t) (auto simp: node_at_def)

lemma below_iff: "below r p \<longleftrightarrow> (\<exists>q. q \<noteq> [] \<and> p = r @ q)"
proof
  assume b: "below r p"
  have "p = take (length r) p @ drop (length r) p" by simp
  then have "p = r @ drop (length r) p" using b unfolding below_def by metis
  moreover have "drop (length r) p \<noteq> []" using b by (simp add: below_def)
  ultimately show "\<exists>q. q \<noteq> [] \<and> p = r @ q" by blast
qed (auto simp: below_def)

lemma below_parent: "below e d \<Longrightarrow> butlast d = e \<or> below e (butlast d)"
  by (auto simp: below_iff butlast_append)

lemma below_self_parent: "p \<noteq> [] \<Longrightarrow> below (butlast p) p"
  by (metis append_butlast_last_id below_iff list.distinct(1))

lemma empty_dir_iff:
  "distinct (map fn_path t) \<Longrightarrow> is_empty_dir t d
    \<longleftrightarrow> (\<exists>n \<in> set t. fn_path n = d \<and> fn_kind n = Folder) \<and> (\<forall>m \<in> set t. \<not> below d (fn_path m))"
proof -
  assume d: "distinct (map fn_path t)"
  have "(case node_at t d of Some n \<Rightarrow> fn_kind n = Folder | None \<Rightarrow> False) \<longleftrightarrow> (\<exists>n. node_at t d = Some n \<and> fn_kind n = Folder)"
    by (simp split: option.split)
  then show ?thesis unfolding is_empty_dir_def list_all_iff node_at_Some [OF d] by blast
qed

subsection \<open>Unlinking\<close>

lemma unlink_all_files:
  assumes "\<forall>p \<in> set ps. \<not> fw_locked w p \<and> (\<forall>n. node_at t p = Some n \<longrightarrow> fn_kind n \<noteq> Folder)"
  shows "fst (unlink_all w ps t) = filter (\<lambda>m. fn_path m \<notin> set ps) t \<and> set (snd (unlink_all w ps t)) = butlast ` set ps"
  using assms
proof (induction ps arbitrary: t)
  case (Cons p ps)
  have u: "unlink w p t = Some (filter (\<lambda>m. fn_path m \<noteq> p) t)"
  proof (cases "node_at t p")
    case None
    then have "filter (\<lambda>m. fn_path m \<noteq> p) t = t" by (simp add: node_at_None filter_id_conv)
    then show ?thesis using None by (simp add: unlink_def)
  next
    case (Some n)
    then show ?thesis using Cons.prems by (simp add: unlink_def)
  qed
  have "\<forall>q \<in> set ps. \<not> fw_locked w q \<and> (\<forall>n. node_at (filter (\<lambda>m. fn_path m \<noteq> p) t) q = Some n \<longrightarrow> fn_kind n \<noteq> Folder)"
    using Cons.prems node_at_filter [of "\<lambda>q. q \<noteq> p" t] by simp
  from Cons.IH [OF this] show ?case
    by (simp add: u case_prod_beta Let_def filter_filter_conj)
qed simp

subsection \<open>Pruning\<close>

lemma rmdir_Some:
  "distinct (map fn_path t) \<Longrightarrow> rmdir w d t = Some t1 \<Longrightarrow> t1 = filter (\<lambda>m. fn_path m \<noteq> d) t \<and> is_empty_dir t d"
  by (simp add: rmdir_def split: if_splits)

lemma rmdir_wf: "wf_tree t \<Longrightarrow> rmdir w d t = Some t1 \<Longrightarrow> wf_tree t1"
proof -
  assume t: "wf_tree t" and r: "rmdir w d t = Some t1"
  have t1: "t1 = filter (\<lambda>m. fn_path m \<noteq> d) t" and e: "is_empty_dir t d" using rmdir_Some [OF _ r] t by (auto simp: wf_tree_def)
  have nb: "\<forall>m \<in> set t. \<not> below d (fn_path m)" using e empty_dir_iff t by (auto simp: wf_tree_def)
  have "butlast (fn_path n) \<noteq> d" if "n \<in> set t" for n
    using nb that t below_self_parent [of "fn_path n"] by (auto simp: wf_tree_def plain_path_def)
  then show "wf_tree t1" using t unfolding wf_tree_def t1 by (fastforce simp: distinct_map_filter)
qed

lemma prune_removes:
  "wf_tree t \<Longrightarrow> set (prune w r ds t) \<subseteq> set t \<and> (\<forall>n \<in> set t - set (prune w r ds t).
     fn_kind n = Folder \<and> below r (fn_path n) \<and> (\<forall>m \<in> set (prune w r ds t). \<not> below (fn_path n) (fn_path m)))"
proof (induction w r ds t rule: prune.induct)
  case (2 w r d ds t)
  show ?case
  proof (cases "d = r \<or> \<not> below r d")
    case True
    then show ?thesis using 2 by simp
  next
    case False
    show ?thesis
    proof (cases "rmdir w d t")
      case None
      then show ?thesis using 2 False by simp
    next
      case (Some t1)
      define rest where "rest = prune w r (if butlast d \<noteq> r then ds @ [butlast d] else ds) t1"
      have p: "prune w r (d # ds) t = rest" using False Some by (simp add: rest_def)
      have ih: "set rest \<subseteq> set t1" "\<forall>n \<in> set t1 - set rest. fn_kind n = Folder \<and> below r (fn_path n) \<and> (\<forall>m \<in> set rest. \<not> below (fn_path n) (fn_path m))"
        using "2.IH"(3) [OF False Some rmdir_wf [OF "2.prems" Some]] unfolding rest_def by blast+
      have d: "distinct (map fn_path t)" using "2.prems" by (simp add: wf_tree_def)
      have t1: "t1 = filter (\<lambda>m. fn_path m \<noteq> d) t" and e: "is_empty_dir t d" using rmdir_Some [OF d Some] by blast+
      have ef: "\<exists>n \<in> set t. fn_path n = d \<and> fn_kind n = Folder" "\<forall>m \<in> set t. \<not> below d (fn_path m)"
        using e empty_dir_iff [OF d] by blast+
      have one: "fn_kind n = Folder" if "n \<in> set t" "fn_path n = d" for n
        using ef(1) that d by (metis eq_key_imp_eq_value distinct_map inj_on_def)
      have "fn_kind n = Folder \<and> below r (fn_path n) \<and> (\<forall>m \<in> set rest. \<not> below (fn_path n) (fn_path m))"
        if "n \<in> set t - set rest" for n
      proof (cases "fn_path n = d")
        case True
        then show ?thesis using one that ef(2) ih(1) t1 False by auto
      next
        case x: False
        then have "n \<in> set t1 - set rest" using that t1 by simp
        then show ?thesis using ih(2) by blast
      qed
      then show ?thesis using ih(1) t1 unfolding p by auto
    qed
  qed
qed simp

lemma prune_empties:
  "wf_tree t \<Longrightarrow> \<forall>d. \<not> fw_locked w d \<Longrightarrow> \<forall>d. is_empty_dir t d \<and> below r d \<longrightarrow> d \<in> set ds \<or> Q d
    \<Longrightarrow> is_empty_dir (prune w r ds t) e \<Longrightarrow> below r e \<Longrightarrow> Q e"
proof (induction w r ds t rule: prune.induct)
  case (2 w r d ds t)
  show ?case
  proof (cases "d = r \<or> \<not> below r d")
    case True
    then have "\<forall>x. is_empty_dir t x \<and> below r x \<longrightarrow> x \<in> set ds \<or> Q x"
      using "2.prems"(3) by (auto simp: below_def)
    then show ?thesis using "2.IH"(1) [OF True] "2.prems" True by simp
  next
    case False
    show ?thesis
    proof (cases "rmdir w d t")
      case None
      then have "\<not> is_empty_dir t d" using "2.prems"(2) by (auto simp: rmdir_def)
      then have "\<forall>x. is_empty_dir t x \<and> below r x \<longrightarrow> x \<in> set ds \<or> Q x" using "2.prems"(3) by auto
      then show ?thesis using "2.IH"(2) [OF False None] "2.prems" False None by simp
    next
      case (Some t1)
      have dt: "distinct (map fn_path t)" using "2.prems"(1) by (simp add: wf_tree_def)
      have t1: "t1 = filter (\<lambda>m. fn_path m \<noteq> d) t" and ed: "is_empty_dir t d" using rmdir_Some [OF dt Some] by blast+
      have d1: "distinct (map fn_path t1)" using dt t1 by (simp add: distinct_map_filter)
      let ?ds = "if butlast d \<noteq> r then ds @ [butlast d] else ds"
      have "x \<in> set ?ds \<or> Q x" if x: "is_empty_dir t1 x" "below r x" for x
      proof (cases "is_empty_dir t x")
        case True
        have "x \<noteq> d" using x(1) t1 unfolding empty_dir_iff [OF d1] by auto
        then show ?thesis using True x(2) "2.prems"(3) by auto
      next
        case n: False
        then obtain m where m: "m \<in> set t" "below x (fn_path m)" "m \<notin> set t1"
          using x(1) t1 unfolding empty_dir_iff [OF d1] empty_dir_iff [OF dt] by auto
        then have "below x d" using t1 by auto
        have "butlast d = x"
        proof (rule ccontr)
          assume ne: "butlast d \<noteq> x"
          then have b: "below x (butlast d)" using below_parent \<open>below x d\<close> by blast
          then have "butlast d \<noteq> []" unfolding below_iff by auto
          then obtain k where k: "k \<in> set t" "fn_path k = butlast d"
            using "2.prems"(1) ed unfolding empty_dir_iff [OF dt] wf_tree_def by blast
          have "d \<noteq> []" using \<open>below x d\<close> by (auto simp: below_def)
          then have "butlast d \<noteq> d" by (metis length_butlast diff_less length_greater_0_conv less_irrefl zero_less_one)
          then have "k \<in> set t1" using k t1 by simp
          then show False using x(1) b k(2) unfolding empty_dir_iff [OF d1] by metis
        qed
        moreover have "x \<noteq> r" using x(2) by (auto simp: below_def)
        ultimately show ?thesis by simp
      qed
      then have "\<forall>x. is_empty_dir t1 x \<and> below r x \<longrightarrow> x \<in> set ?ds \<or> Q x" by blast
      then show ?thesis
        using "2.IH"(3) [OF False Some rmdir_wf [OF "2.prems"(1) Some] "2.prems"(2)] "2.prems"(4,5) False Some by simp
    qed
  qed
qed simp

subsection \<open>What a batch names\<close>

lemma record_path: "path_records c t p = Ok rs \<Longrightarrow> r \<in> set rs \<Longrightarrow> rec_payload_path r = Some (path_text p)"
  by (auto simp: path_records_def node_records_def row_record_def node_at_def find_Some_iff
      split: option.splits fkind.splits parsed.splits)

lemma payload_paths_set: "s \<in> set (payload_paths rs) \<longleftrightarrow> (\<exists>r \<in> set rs. rec_payload_path r = Some s)"
  by (force simp: payload_paths_def map_filter_def)

lemma mapM_paths:
  "mapM_res (path_records c t) ps = Ok rss \<Longrightarrow> s \<in> set (payload_paths (concat rss)) \<Longrightarrow> \<exists>p \<in> set ps. s = path_text p"
proof (induction ps arbitrary: rss)
  case (Cons p ps)
  obtain rs rss' where r: "path_records c t p = Ok rs" "mapM_res (path_records c t) ps = Ok rss'" "rss = rs # rss'"
    using Cons.prems(1) by auto
  obtain x where x: "x \<in> set rs \<or> x \<in> set (concat rss')" "rec_payload_path x = Some s"
    using Cons.prems(2) r(3) by (auto simp: payload_paths_set)
  then show ?case using record_path [OF r(1)] Cons.IH [OF r(2)] payload_paths_set by fastforce
qed (simp add: payload_paths_def map_filter_def)

lemma file_batch_parts:
  assumes "file_batches c w cur limit t = Ok (Some b)"
  obtains fs rss where "pending_files c w cur t = Ok fs" "mapM_res (path_records c t) (take limit fs) = Ok rss"
    "bt_records b = concat rss" "b = file_batch c t (concat rss)"
proof -
  obtain fs rss where "pending_files c w cur t = Ok fs" "mapM_res (path_records c t) (take limit fs) = Ok rss" "b = file_batch c t (concat rss)"
    using assms by (auto simp: file_batches_def split: if_splits)
  then show thesis by (intro that [of fs rss]) (simp_all add: file_batch_def)
qed

lemma pending_sub: "set_like w \<Longrightarrow> pending_files c w cur t = Ok fs \<Longrightarrow> set fs \<subseteq> set (found c t)"
  by (auto simp: pending_files_def collect_files_def set_like_def Let_def split: if_splits)

lemma found_node: "p \<in> set (found c t) \<Longrightarrow> \<exists>n \<in> set t. fn_path n = p \<and> below (fc_root c) p \<and> (is_file (fn_kind n) \<or> fc_match_dirs c)"
  by (auto simp: found_def)

lemma shipped_nodes:
  assumes "file_batches c w cur limit t = Ok (Some b)" "set_like w" "s \<in> set (payload_paths (bt_records b))"
  shows "\<exists>n \<in> set t. s = path_text (fn_path n) \<and> below (fc_root c) (fn_path n) \<and> (is_file (fn_kind n) \<or> fc_match_dirs c)"
proof -
  obtain fs rss where f: "pending_files c w cur t = Ok fs" "mapM_res (path_records c t) (take limit fs) = Ok rss" "bt_records b = concat rss"
    using file_batch_parts [OF assms(1)] by metis
  obtain p where "p \<in> set fs" "s = path_text p" using mapM_paths [OF f(2)] assms(3) f(3) by (metis in_set_takeD)
  then show ?thesis using found_node pending_sub [OF assms(2) f(1)] by fastforce
qed

subsection \<open>What a commit removes\<close>

text \<open>C33: a commit removes what was shipped and the folders that leaves empty.  After the batch of a
  delete-on-ack source is committed, the files left are exactly those no record of it came from;
  nothing is added; a folder is removed only below the root and only when nothing is in it; and with
  pruning every folder that is empty then was empty before the batch.\<close>

theorem commit_removes_what_shipped:
  assumes "file_batches c w cur limit t = Ok (Some b)" "\<not> fc_keep c" "\<not> fc_match_dirs c" "wf_tree t" "set_like w" "\<forall>p. \<not> fw_locked w p"
    and "t' = file_commit c w (bt_commit_token b) t"
  shows "(\<forall>n. n \<in> set t' \<and> fn_kind n \<noteq> Folder \<longleftrightarrow> n \<in> set t \<and> fn_kind n \<noteq> Folder \<and> path_text (fn_path n) \<notin> set (payload_paths (bt_records b)))
    \<and> set t' \<subseteq> set t
    \<and> (\<forall>n \<in> set t - set t'. fn_kind n = Folder \<longrightarrow> below (fc_root c) (fn_path n) \<and> (\<forall>m \<in> set t'. \<not> below (fn_path n) (fn_path m)))
    \<and> (\<forall>d. fc_prune c \<and> below (fc_root c) d \<and> is_empty_dir t' d \<longrightarrow> is_empty_dir t d)"
proof -
  define ss where "ss = payload_paths (bt_records b)"
  define ps where "ps = map path_of ss"
  have dt: "distinct (map fn_path t)" and pl: "\<forall>n \<in> set t. plain_path (fn_path n)" using assms(4) by (auto simp: wf_tree_def)
  have nodes: "\<exists>n \<in> set t. s = path_text (fn_path n) \<and> path_of s = fn_path n \<and> fn_kind n \<noteq> Folder" if s: "s \<in> set ss" for s
    using shipped_nodes [OF assms(1,5)] s assms(3) pl unfolding ss_def by (fastforce simp: is_file_def)
  have named: "fn_path n \<in> set ps \<longleftrightarrow> path_text (fn_path n) \<in> set ss" if n: "n \<in> set t" for n
  proof
    assume "fn_path n \<in> set ps"
    then obtain s where s: "s \<in> set ss" "path_of s = fn_path n" by (auto simp: ps_def)
    then show "path_text (fn_path n) \<in> set ss" using nodes by metis
  next
    assume "path_text (fn_path n) \<in> set ss"
    then show "fn_path n \<in> set ps" using pl n by (force simp: ps_def)
  qed
  have files: "fn_kind n \<noteq> Folder" if "n \<in> set t" "fn_path n \<in> set ps" for n
  proof -
    have "path_text (fn_path n) \<in> set ss" using named that by blast
    then obtain m where m: "m \<in> set t" "path_text (fn_path n) = path_text (fn_path m)" "fn_kind m \<noteq> Folder" using nodes by blast
    then have "fn_path n = fn_path m" using pl that(1) path_text_inj by blast
    then have "n = m" using dt that(1) m(1) by (auto simp: distinct_map dest: inj_onD)
    then show ?thesis using m(3) by simp
  qed
  define t1 where "t1 = filter (\<lambda>m. fn_path m \<notin> set ps) t"
  have u: "fst (unlink_all w ps t) = t1" "set (snd (unlink_all w ps t)) = butlast ` set ps"
    using unlink_all_files [of ps w t] files assms(6) by (auto simp: t1_def node_at_Some [OF dt])
  define ds where "ds = sort_key (\<lambda>d. - int (length d)) (fw_order w (snd (unlink_all w ps t)))"
  have ds: "set ds = butlast ` set ps" using u(2) assms(5) by (simp add: ds_def set_like_def)
  have t': "t' = (if fc_prune c then prune w (fc_root c) ds t1 else t1)"
    using assms(1,2,7) u(1) by (auto simp: file_batches_def file_commit_def file_batch_def json_strings_read ss_def ps_def ds_def
        case_prod_beta Let_def split: if_splits)
  have w1: "wf_tree t1"
  proof -
    have "\<exists>m \<in> set t1. fn_path m = butlast (fn_path n) \<and> fn_kind m = Folder" if n: "n \<in> set t" "butlast (fn_path n) \<noteq> []" for n
      using assms(4) n files unfolding wf_tree_def t1_def by fastforce
    then show ?thesis using assms(4) unfolding wf_tree_def t1_def by (simp add: distinct_map_filter)
  qed
  have pr: "set t' \<subseteq> set t1" "\<forall>n \<in> set t1 - set t'. fn_kind n = Folder \<and> below (fc_root c) (fn_path n) \<and> (\<forall>m \<in> set t'. \<not> below (fn_path n) (fn_path m))"
    using prune_removes [OF w1, of w "fc_root c" ds] unfolding t' by auto
  have keep: "n \<in> set t1 \<longleftrightarrow> n \<in> set t \<and> path_text (fn_path n) \<notin> set ss" for n
    using named by (auto simp: t1_def)
  have a: "\<forall>n. n \<in> set t' \<and> fn_kind n \<noteq> Folder \<longleftrightarrow> n \<in> set t \<and> fn_kind n \<noteq> Folder \<and> path_text (fn_path n) \<notin> set ss"
    using pr keep by blast
  have c: "below (fc_root c) (fn_path n) \<and> (\<forall>m \<in> set t'. \<not> below (fn_path n) (fn_path m))"
    if n: "n \<in> set t - set t'" "fn_kind n = Folder" for n
    using pr(2) n files by (auto simp: t1_def)
  have e: "is_empty_dir t d" if d: "fc_prune c" "below (fc_root c) d" "is_empty_dir t' d" for d
  proof -
    have d1: "distinct (map fn_path t1)" using w1 by (simp add: wf_tree_def)
    have start: "\<forall>d. is_empty_dir t1 d \<and> below (fc_root c) d \<longrightarrow> d \<in> set ds \<or> is_empty_dir t d"
    proof (intro allI impI)
      fix d assume d: "is_empty_dir t1 d \<and> below (fc_root c) d"
      show "d \<in> set ds \<or> is_empty_dir t d"
      proof (cases "is_empty_dir t d")
        case False
        then obtain m where m: "m \<in> set t" "below d (fn_path m)" "fn_path m \<in> set ps"
          using d unfolding empty_dir_iff [OF d1] empty_dir_iff [OF dt] by (auto simp: t1_def)
        have "butlast (fn_path m) = d"
        proof (rule ccontr)
          assume "butlast (fn_path m) \<noteq> d"
          then have b: "below d (butlast (fn_path m))" using below_parent [OF m(2)] by blast
          then have "butlast (fn_path m) \<noteq> []" unfolding below_iff by auto
          then obtain k where "k \<in> set t" "fn_path k = butlast (fn_path m)" "fn_kind k = Folder"
            using assms(4) m(1) unfolding wf_tree_def by blast
          then have "k \<in> set t1" "below d (fn_path k)" using files b by (auto simp: t1_def)
          then show False using d unfolding empty_dir_iff [OF d1] by blast
        qed
        then show ?thesis using m(3) ds by blast
      qed simp
    qed
    show ?thesis using prune_empties [OF w1 assms(6) start _ d(2)] d(1,3) t' by simp
  qed
  show ?thesis using a pr(1) keep c e unfolding ss_def [symmetric] by blast
qed

subsection \<open>Reading on in the keep mode\<close>

lemma decode_encode [simp]: "decode_keep_cursor w (encode_keep_cursor n) = Ok n"
  by (simp add: decode_keep_cursor_def encode_keep_cursor_def)

lemma decode_empty [simp]: "decode_keep_cursor w [] = Ok 0"
  by (simp add: decode_keep_cursor_def)

interpretation kcur: cursor_order "file_is_after (c\<lparr>fc_keep := True\<rparr>) w" "\<lambda>b. b \<noteq> [] \<and> keep_cursor_decodes w b"
    "\<lambda>b. the_ok (decode_keep_cursor w b)"
proof
  fix a b assume r: "a \<noteq> [] \<and> keep_cursor_decodes w a" "b \<noteq> [] \<and> keep_cursor_decodes w b"
  have "decode_keep_cursor w x = Ok (the_ok (decode_keep_cursor w x))" if "keep_cursor_decodes w x" for x
    using that by (auto simp: keep_cursor_decodes_def decode_keep_cursor_def split: option.split float_ns.splits)
  then obtain m n where "decode_keep_cursor w a = Ok m" "decode_keep_cursor w b = Ok n" using r by metis
  then show "file_is_after (c\<lparr>fc_keep := True\<rparr>) w a b = Ok (the_ok (decode_keep_cursor w b) < the_ok (decode_keep_cursor w a))"
    using r by (simp add: file_is_after_def)
qed

lemma match_below: "path_match pattern (drop k p) \<Longrightarrow> path_match pattern p"
proof -
  assume m: "path_match pattern (drop k p)"
  let ?n = "length (pattern_parts pattern)"
  have n: "?n \<le> length p - k" using m by (simp add: path_match_def Let_def)
  have "drop (length p - k - ?n + k) p = drop (length p - ?n) p" using n by (cases "k \<le> length p") auto
  then have "drop (length (drop k p) - ?n) (drop k p) = drop (length p - ?n) p" by simp
  then show ?thesis using m by (auto simp: path_match_def Let_def)
qed

text \<open>A source without parsers, as the daemon's factory builds it: one record for each file.\<close>

definition bare :: "file_conf \<Rightarrow> bool" where
  "bare c \<longleftrightarrow> (\<forall>sp \<in> set (fc_specs c). fs_parser sp = None)"

lemma bare_records:
  assumes "bare c" "p \<in> set (found c t)" "distinct (map fn_path t)"
  shows "\<exists>r. path_records c t p = Ok [r] \<and> rec_payload_path r = Some (path_text p)"
proof -
  obtain n sp where n: "n \<in> set t" "fn_path n = p" "sp \<in> set (fc_specs c)" "path_match (fs_pattern sp) (drop (length (fc_root c)) p)"
    using assms(2) by (auto simp: found_def list_ex_iff)
  then have "find (\<lambda>sp. path_match (fs_pattern sp) p) (fc_specs c) \<noteq> None" using match_below by (auto simp: find_None_iff)
  then obtain sp' where s: "spec_for c p = Some sp'" by (auto simp: spec_for_def)
  then have "fs_parser sp' = None" using assms(1) by (auto simp: spec_for_def bare_def find_Some_iff)
  moreover have "node_at t p = Some n" using n node_at_Some [OF assms(3)] by blast
  ultimately show ?thesis using s n(2) by (simp add: path_records_def node_records_def row_record_def)
qed

lemma bare_batch:
  assumes "bare c" "set ps \<subseteq> set (found c t)" "distinct (map fn_path t)"
  shows "\<exists>rss. mapM_res (path_records c t) ps = Ok rss \<and> List.map_filter rec_payload_path (concat rss) = map path_text ps"
  using assms(2)
proof (induction ps)
  case (Cons p ps)
  obtain r where "path_records c t p = Ok [r]" "rec_payload_path r = Some (path_text p)"
    using bare_records [OF assms(1) _ assms(3)] Cons.prems by auto
  then show ?case using Cons by (auto simp: map_filter_simps)
qed (simp add: map_filter_simps)

lemma collected:
  assumes "set_like w"
  shows "set (collect_files c w t) = set (found c t)" "distinct (collect_files c w t)" "sorted (map (mtime_of t) (collect_files c w t))"
  using assms by (simp_all add: collect_files_def set_like_def)

text \<open>Fetching on from each batch's cursor, at most \<open>n\<close> times.\<close>

fun keep_on :: "file_conf \<Rightarrow> file_world \<Rightarrow> nat \<Rightarrow> ftree \<Rightarrow> nat \<Rightarrow> bytes \<Rightarrow> batch list" where
  "keep_on c w limit t 0 cursor = []"
| "keep_on c w limit t (Suc n) cursor = (case file_batches c w cursor limit t of
     Ok (Some b) \<Rightarrow> b # keep_on c w limit t n (bt_cursor_after b)
   | _ \<Rightarrow> [])"

lemma strictly_sorted:
  assumes "sorted (map f xs)" "distinct xs" "inj_on f (set xs)"
  shows "sorted_wrt (\<lambda>x y. f x < (f y :: int)) xs"
proof -
  have "distinct (map f xs)" using assms(2,3) by (simp add: distinct_map)
  then have "sorted_wrt (<) (map f xs)" using assms(1) by (simp add: strict_sorted_iff)
  then show ?thesis by (simp add: sorted_wrt_map)
qed

lemma take_last_filter:
  assumes "sorted_wrt (\<lambda>x y. f x < (f y :: int)) xs" "0 < k" "xs \<noteq> []"
  shows "filter (\<lambda>x. f (last (take k xs)) < f x) xs = drop k xs" "x \<in> set (take k xs) \<Longrightarrow> f x \<le> f (last (take k xs))"
proof -
  let ?l = "last (take k xs)"
  have ne: "take k xs \<noteq> []" using assms(2,3) by simp
  have s: "sorted_wrt (\<lambda>x y. f x < f y) (take k xs @ drop k xs)" using assms(1) by simp
  have up: "f x \<le> f ?l" if "x \<in> set (take k xs)" for x
  proof -
    have e: "take k xs = butlast (take k xs) @ [?l]" using ne by simp
    have "sorted_wrt (\<lambda>x y. f x < f y) (butlast (take k xs) @ [?l])" using s unfolding e [symmetric] by (simp only: sorted_wrt_append)
    moreover have "x \<in> set (butlast (take k xs) @ [?l])" using that unfolding e [symmetric] .
    ultimately show ?thesis by (auto simp: sorted_wrt_append less_imp_le)
  qed
  then show "x \<in> set (take k xs) \<Longrightarrow> f x \<le> f ?l" .
  have "filter (\<lambda>x. f ?l < f x) (take k xs) = []" using up by (fastforce simp: filter_empty_conv)
  moreover have "f ?l < f x" if "x \<in> set (drop k xs)" for x
    using s that last_in_set [OF ne] unfolding sorted_wrt_append by blast
  then have "filter (\<lambda>x. f ?l < f x) (drop k xs) = drop k xs" by (simp add: filter_id_conv)
  ultimately show "filter (\<lambda>x. f ?l < f x) xs = drop k xs" by (metis append_take_drop_id append_Nil filter_append)
qed

lemma payload_paths_distinct: "List.map_filter rec_payload_path rs = ss \<Longrightarrow> distinct ss \<Longrightarrow> payload_paths rs = ss"
  by (simp add: payload_paths_def distinct_remdups_id)

lemma pending_keep:
  "fc_keep c \<Longrightarrow> decode_keep_cursor w cursor = Ok m
    \<Longrightarrow> pending_files c w cursor t = Ok (filter (\<lambda>p. m < mtime_of t p) (collect_files c w t))"
  by (simp add: pending_files_def Let_def)

lemma keep_step:
  assumes c: "fc_keep c" "bare c" "wf_tree t" "set_like w" "path_exists t (fc_root c)" "0 < limit"
    and i: "inj_on (mtime_of t) (set (found c t))" and cur: "decode_keep_cursor w cursor = Ok m"
    and p: "pending = filter (\<lambda>p. m < mtime_of t p) (collect_files c w t)" "pending \<noteq> []"
  shows "\<exists>b. file_batches c w cursor limit t = Ok (Some b) \<and> payload_paths (bt_records b) = map path_text (take limit pending)
    \<and> bt_cursor_after b = encode_keep_cursor (mtime_of t (last (take limit pending)))
    \<and> filter (\<lambda>p. mtime_of t (last (take limit pending)) < mtime_of t p) (collect_files c w t) = drop limit pending"
proof -
  let ?chunk = "take limit pending" and ?f = "mtime_of t"
  note col = collected [OF c(4), where c = c and t = t]
  have dt: "distinct (map fn_path t)" and pl: "\<forall>n \<in> set t. plain_path (fn_path n)" using c(3) by (auto simp: wf_tree_def)
  have sub: "set pending \<subseteq> set (found c t)" using p(1) col(1) by auto
  have srt: "sorted_wrt (\<lambda>x y. ?f x < ?f y) (collect_files c w t)" using strictly_sorted [OF col(3,2)] i col(1) by simp
  then have srtp: "sorted_wrt (\<lambda>x y. ?f x < ?f y) pending" unfolding p(1) by (rule sorted_wrt_filter)
  have plain: "plain_path q" if "q \<in> set (found c t)" for q using found_node [OF that] pl by auto
  have "set ?chunk \<subseteq> set (found c t)" using sub by (meson in_set_takeD subset_iff)
  then obtain rss where r: "mapM_res (path_records c t) ?chunk = Ok rss" "List.map_filter rec_payload_path (concat rss) = map path_text ?chunk"
    using bare_batch [OF c(2) _ dt] by blast
  have plch: "plain_path q" if "q \<in> set ?chunk" for q using plain [OF subsetD [OF sub in_set_takeD [OF that]]] .
  have "inj_on path_text (set ?chunk)" by (intro inj_onI) (simp only: path_text_inj plch)
  moreover have "distinct ?chunk" using p(1) col(2) by simp
  ultimately have "distinct (map path_text ?chunk)" by (simp add: distinct_map)
  then have pp: "payload_paths (concat rss) = map path_text ?chunk" by (rule payload_paths_distinct [OF r(2)])
  have ne: "?chunk \<noteq> []" using p(2) c(6) by simp
  have "concat rss \<noteq> []"
  proof
    assume "concat rss = []"
    then have "map path_text ?chunk = []" using r(2) by (simp only: map_filter_simps)
    then show False using ne by (simp only: list.map_disc_iff)
  qed
  then have fb: "file_batches c w cursor limit t = Ok (Some (file_batch c t (concat rss)))"
    using c(5) pending_keep [OF c(1) cur] r(1) by (simp add: file_batches_def p(1))
  have "(\<lambda>s. ?f (path_of s)) ` set (payload_paths (concat rss)) = ?f ` set ?chunk"
    unfolding pp list.set_map image_image by (intro image_cong refl) (simp only: path_of_text plch)
  moreover have "Max (?f ` set ?chunk) = ?f (last ?chunk)"
    using take_last_filter(2) [OF srtp c(6) p(2)] last_in_set [OF ne] by (intro Max_eqI) auto
  ultimately have "latest_mtime t (concat rss) = ?f (last ?chunk)" by (simp add: latest_mtime_def)
  moreover have "filter (\<lambda>p. ?f (last ?chunk) < ?f p) (collect_files c w t) = drop limit pending"
  proof -
    have "m < ?f (last ?chunk)" using last_in_set [OF ne] p(1) in_set_takeD by fastforce
    then have "filter (\<lambda>p. ?f (last ?chunk) < ?f p) (collect_files c w t) = filter (\<lambda>p. ?f (last ?chunk) < ?f p) pending"
      unfolding p(1) filter_filter by (intro filter_cong) auto
    then show ?thesis using take_last_filter(1) [OF srtp c(6) p(2)] by simp
  qed
  ultimately show ?thesis using fb pp c(1) by (simp add: file_batch_def)
qed

text \<open>C34: a kept tree is offered once, oldest first.  Without parsers, and with no two files of the same
  modification time, fetching on from each batch's cursor offers every file the source finds exactly
  once in order of time, whatever the batch limit, and then nothing.\<close>

theorem keep_offers_every_file_once:
  assumes "fc_keep c" "bare c" "wf_tree t" "set_like w" "path_exists t (fc_root c)" "0 < limit"
    and "inj_on (mtime_of t) (set (found c t))" "\<forall>p \<in> set (found c t). 0 < mtime_of t p" "length (found c t) \<le> n"
  shows "concat (map (\<lambda>b. payload_paths (bt_records b)) (keep_on c w limit t n [])) = map path_text (collect_files c w t)
    \<and> sorted (map (mtime_of t) (collect_files c w t)) \<and> set (collect_files c w t) = set (found c t)"
proof -
  let ?fs = "collect_files c w t"
  note col = collected [OF assms(4), where c = c and t = t]
  have run: "concat (map (\<lambda>b. payload_paths (bt_records b)) (keep_on c w limit t n cursor)) = map path_text (filter (\<lambda>p. m < mtime_of t p) ?fs)"
    if "decode_keep_cursor w cursor = Ok m" "length (filter (\<lambda>p. m < mtime_of t p) ?fs) \<le> n" for n cursor m
    using that
  proof (induction n arbitrary: cursor m)
    case (Suc n)
    define pending where "pending = filter (\<lambda>p. m < mtime_of t p) ?fs"
    show ?case
    proof (cases "pending = []")
      case True
      then show ?thesis
        using pending_keep [OF assms(1) Suc.prems(1), of t] assms(5) unfolding pending_def by (simp add: file_batches_def)
    next
      case False
      obtain b where b: "file_batches c w cursor limit t = Ok (Some b)" "payload_paths (bt_records b) = map path_text (take limit pending)"
        "bt_cursor_after b = encode_keep_cursor (mtime_of t (last (take limit pending)))"
        "filter (\<lambda>p. mtime_of t (last (take limit pending)) < mtime_of t p) ?fs = drop limit pending"
        using keep_step [OF assms(1-7) Suc.prems(1) pending_def False] by blast
      have "length (drop limit pending) \<le> n" using Suc.prems(2) assms(6) unfolding pending_def by simp
      then have "concat (map (\<lambda>b. payload_paths (bt_records b)) (keep_on c w limit t n (bt_cursor_after b))) = map path_text (drop limit pending)"
        using Suc.IH [of "bt_cursor_after b" "mtime_of t (last (take limit pending))"] b(3,4) by simp
      then show ?thesis using b(1,2) unfolding pending_def [symmetric] by (simp flip: map_append)
    qed
  qed simp
  have "length ?fs \<le> n"
    using col assms(9) by (metis card_length distinct_card order_trans)
  moreover have "filter (\<lambda>p. 0 < mtime_of t p) ?fs = ?fs" using assms(8) col(1) by (simp add: filter_id_conv)
  ultimately show ?thesis using run [OF decode_empty] col by simp
qed

text \<open>A file as old as the last one sent is never sent.  When a kept tree's batch stops between files of
  the same modification time, or a file no newer than the batch's newest comes in later, no batch from
  that batch's cursor, nor from a later one, has a record of the file.\<close>

theorem equal_mtime_is_never_offered:
  assumes "fc_keep c" "set_like w" "file_batches c w cursor limit t = Ok (Some b)" "mtime_of t' p \<le> latest_mtime t (bt_records b)"
    and "decode_keep_cursor w cursor' = Ok m" "latest_mtime t (bt_records b) \<le> m" "wf_tree t'" "plain_path p"
    and "file_batches c w cursor' limit' t' = Ok (Some b')"
  shows "bt_cursor_after b = encode_keep_cursor (latest_mtime t (bt_records b)) \<and> path_text p \<notin> set (payload_paths (bt_records b'))"
proof
  show "bt_cursor_after b = encode_keep_cursor (latest_mtime t (bt_records b))"
    using file_batch_parts [OF assms(3)] assms(1) by (metis batch.select_convs(1,2) file_batch_def)
  obtain fs rss where f: "pending_files c w cursor' t' = Ok fs" "mapM_res (path_records c t') (take limit' fs) = Ok rss" "bt_records b' = concat rss"
    using file_batch_parts [OF assms(9)] by metis
  have fs: "fs = filter (\<lambda>q. m < mtime_of t' q) (collect_files c w t')" using f(1) pending_keep [OF assms(1,5)] by simp
  show "path_text p \<notin> set (payload_paths (bt_records b'))"
  proof
    assume "path_text p \<in> set (payload_paths (bt_records b'))"
    then obtain q where q: "q \<in> set fs" "path_text p = path_text q" using mapM_paths [OF f(2)] f(3) by (metis in_set_takeD)
    then have "q \<in> set (found c t')" using fs collected(1) [OF assms(2)] by auto
    then have "plain_path q" using found_node assms(7) by (fastforce simp: wf_tree_def)
    then have "p = q" using q(2) assms(8) path_text_inj by blast
    then show False using q(1) fs assms(4,6) by simp
  qed
qed

subsection \<open>What stays for ever\<close>

text \<open>A run of files as long as the limit that no parser reads: nothing is offered.\<close>

lemma unread_files_block:
  "pending_files c w cursor t = Ok fs \<Longrightarrow> \<forall>p \<in> set (take limit fs). path_records c t p = Ok []
    \<Longrightarrow> file_batches c w cursor limit t = Ok None"
proof -
  assume f: "pending_files c w cursor t = Ok fs" and e: "\<forall>p \<in> set (take limit fs). path_records c t p = Ok []"
  have "mapM_res (path_records c t) (take limit fs) = Ok (map (\<lambda>_. []) (take limit fs))" using e by (intro mapM_res_all_Ok) simp
  then show ?thesis using f by (simp add: file_batches_def)
qed

text \<open>A folder sent by a delete-on-ack source is still there after its commit.\<close>

lemma folder_outlives_commit:
  "node_at t p = Some n \<Longrightarrow> fn_kind n = Folder \<Longrightarrow> unlink w p t = None"
  by (simp add: unlink_def)

end
