(* ===== verification/DatasetLaws.thy ===== *)
theory DatasetLaws
  imports Dataset FileLaws
begin

text \<open>
  An acknowledged data set is on the server whole, under the names it has here, before its trigger; a
  retry uploads what the first attempt did.
\<close>

subsection \<open>The walk of a tree\<close>

definition all_listable :: "(fpath \<Rightarrow> bool) \<Rightarrow> ftree \<Rightarrow> bool" where
  "all_listable listable t \<longleftrightarrow> (\<forall>n \<in> set t. fn_kind n = Folder \<longrightarrow> listable (fn_path n))"

lemma names_distinct:
  assumes "distinct (map fn_path t)"
  shows "distinct (names_in want t p)"
proof -
  have "inj_on (\<lambda>n. List.last (fn_path n)) (set (filter (\<lambda>n. fn_path n \<noteq> [] \<and> butlast (fn_path n) = p \<and> want (fn_kind n)) t))"
  proof (rule inj_onI)
    fix m n assume a: "m \<in> set (filter (\<lambda>n. fn_path n \<noteq> [] \<and> butlast (fn_path n) = p \<and> want (fn_kind n)) t)"
      "n \<in> set (filter (\<lambda>n. fn_path n \<noteq> [] \<and> butlast (fn_path n) = p \<and> want (fn_kind n)) t)"
      "List.last (fn_path m) = List.last (fn_path n)"
    then have "fn_path m = fn_path n" unfolding set_filter mem_Collect_eq by (metis append_butlast_last_id)
    then show "m = n" using a assms by (auto simp: distinct_map dest: inj_onD)
  qed
  then show ?thesis using assms by (simp add: names_in_def distinct_map)
qed

lemma folder_node: "is_folder t p \<longleftrightarrow> (\<exists>n. node_at t p = Some n \<and> fn_kind n = Folder)"
  by (simp add: is_folder_def split: option.split)

lemma folder_in: "distinct (map fn_path t) \<Longrightarrow> is_folder t (p @ [d]) \<longleftrightarrow> d \<in> set (folders_in t p)"
  by (auto simp: folder_node node_at_Some names_in_node)

lemma listed: "all_listable listable t \<Longrightarrow> is_folder t p \<Longrightarrow> listable p"
  by (auto simp: all_listable_def folder_node node_at_def find_Some_iff)

lemma way_to_node: "wf_tree t \<Longrightarrow> n \<in> set t \<Longrightarrow> fn_path n = p @ q \<Longrightarrow> p \<noteq> [] \<Longrightarrow> q \<noteq> [] \<Longrightarrow> is_folder t p"
proof (induction q arbitrary: n rule: rev_induct)
  case (snoc c q)
  have up: "butlast (fn_path n) = p @ q" using snoc.prems(3) by (simp add: butlast_append)
  then obtain m where m: "m \<in> set t" "fn_path m = p @ q" "fn_kind m = Folder" using snoc.prems(1,2,4) unfolding wf_tree_def by fastforce
  show ?case
  proof (cases "q = []")
    case True
    then show ?thesis using m snoc.prems(1) unfolding folder_node wf_tree_def by (metis append_Nil2 node_at_Some)
  next
    case False
    then show ?thesis using snoc.IH [OF snoc.prems(1) m(1,2) snoc.prems(4)] by simp
  qed
qed simp

text \<open>The nodes of the os_walk, each as a path.\<close>

definition walked :: "(fpath \<times> string list \<times> string list) list \<Rightarrow> fpath list" where
  "walked es = concat (map (\<lambda>(q, ds, fs). map (\<lambda>f. q @ [f]) fs) es)"

lemma walked_simps [simp]: "walked [] = []" "walked ((q, ds, fs) # es) = map (\<lambda>f. q @ [f]) fs @ walked es"
    "walked (es @ es') = walked es @ walked es'" "walked (concat ess) = concat (map walked ess)"
  by (auto simp: walked_def) (induction ess; simp add: walked_def)

lemma walk_entries:
  "(q, ds, fs) \<in> set (os_walk listable t p) \<Longrightarrow> ds = folders_in t q \<and> fs = files_in t q \<and> (\<exists>r. q = p @ r)"
proof (induction listable t p rule: os_walk.induct)
  case (1 listable t p)
  then show ?case by (subst (asm) (2) os_walk.simps) (fastforce split: if_splits)
qed

lemma walked_starts: "q \<in> set (walked (os_walk listable t p)) \<Longrightarrow> \<exists>r. r \<noteq> [] \<and> q = p @ r"
  unfolding walked_def by (auto dest!: walk_entries)

lemma walked_node: "q \<in> set (walked (os_walk listable t p)) \<Longrightarrow> \<exists>n \<in> set t. fn_path n = q \<and> fn_kind n \<noteq> Folder"
  unfolding walked_def by (auto simp: names_in_node dest!: walk_entries)

lemma walk_reaches:
  assumes t: "wf_tree t" "all_listable listable t"
  shows "n \<in> set t \<Longrightarrow> fn_path n = p @ r @ [f] \<Longrightarrow> fn_kind n \<noteq> Folder \<Longrightarrow> is_folder t p
    \<Longrightarrow> fn_path n \<in> set (walked (os_walk listable t p))"
proof (induction r arbitrary: p)
  case Nil
  then have "f \<in> set (files_in t p)" unfolding names_in_node by auto
  then show ?case using Nil listed [OF t(2) Nil.prems(4)] by (subst os_walk.simps) auto
next
  case (Cons d r)
  have way: "is_folder t (p @ [d])" using way_to_node [OF t(1) Cons.prems(1), of "p @ [d]" "r @ [f]"] Cons.prems(2) by simp
  then have "d \<in> set (folders_in t p)" using folder_in t(1) unfolding wf_tree_def by blast
  moreover have "fn_path n \<in> set (walked (os_walk listable t (p @ [d])))" using Cons.IH [of "p @ [d]"] Cons.prems way by simp
  ultimately show ?case using listed [OF t(2) Cons.prems(4)] by (subst os_walk.simps) auto
qed

lemma walked_files:
  assumes "wf_tree t" "all_listable listable t" "is_folder t p"
  shows "set (walked (os_walk listable t p)) = fn_path ` {n \<in> set t. below p (fn_path n) \<and> fn_kind n \<noteq> Folder}"
proof (intro equalityI subsetI)
  fix q assume q: "q \<in> set (walked (os_walk listable t p))"
  show "q \<in> fn_path ` {n \<in> set t. below p (fn_path n) \<and> fn_kind n \<noteq> Folder}"
    using walked_starts [OF q] walked_node [OF q] by (auto simp: below_iff)
next
  fix q assume "q \<in> fn_path ` {n \<in> set t. below p (fn_path n) \<and> fn_kind n \<noteq> Folder}"
  then obtain n r where n: "n \<in> set t" "fn_kind n \<noteq> Folder" "q = fn_path n" "fn_path n = p @ r" "r \<noteq> []" by (auto simp: below_iff)
  then show "q \<in> set (walked (os_walk listable t p))"
    using walk_reaches [OF assms(1,2) n(1) _ n(2) assms(3), of "butlast r" "List.last r"] by simp
qed

lemma distinct_concat_map:
  "distinct xs \<Longrightarrow> (\<And>x. x \<in> set xs \<Longrightarrow> distinct (f x))
    \<Longrightarrow> (\<And>x y. x \<noteq> y \<Longrightarrow> set (f x) \<inter> set (f y) = {}) \<Longrightarrow> distinct (concat (map f xs))"
proof (induction xs)
  case (Cons x xs)
  have "set (f x) \<inter> set (f y) = {}" if "y \<in> set xs" for y using Cons.prems(1) that by (intro Cons.prems(3)) auto
  then show ?case using Cons.IH [OF _ Cons.prems(2,3)] Cons.prems(1,2) by auto
qed simp

lemma walked_distinct:
  assumes "distinct (map fn_path t)"
  shows "distinct (walked (os_walk listable t p))"
  using assms
proof (induction listable t p rule: os_walk.induct)
  case (1 listable t p)
  have "distinct (concat (map (\<lambda>d. walked (os_walk listable t (p @ [d]))) (folders_in t p)))" if "listable p"
  proof (rule distinct_concat_map)
    fix d e :: string assume "d \<noteq> e"
    then show "set (walked (os_walk listable t (p @ [d]))) \<inter> set (walked (os_walk listable t (p @ [e]))) = {}"
      by (auto dest!: walked_starts)
  qed (use 1 that in \<open>simp_all add: names_distinct\<close>)
  moreover have "distinct (map (\<lambda>f. p @ [f]) (files_in t p))" using 1 by (simp add: distinct_map inj_on_def names_distinct)
  moreover have "set (map (\<lambda>f. p @ [f]) (files_in t p)) \<inter> set (concat (map (\<lambda>d. walked (os_walk listable t (p @ [d]))) (folders_in t p))) = {}"
    by (auto dest!: walked_starts)
  ultimately show ?case by (subst os_walk.simps) (simp add: comp_def)
qed

subsection \<open>The lines of a batch\<close>

text \<open>The files a batch puts, with their remote names; and that every folder it uses was made by an
  earlier line, from the folders \<open>made\<close> on.\<close>

definition puts_of :: "batch_line list \<Rightarrow> (string \<times> string) list" where
  "puts_of ls = List.map_filter (\<lambda>l. case l of Put a b \<Rightarrow> Some (a, b) | _ \<Rightarrow> None) ls"

definition made_of :: "batch_line list \<Rightarrow> string set" where "made_of ls = {d. Mkdir d \<in> set ls}"

definition directly_in :: "string set \<Rightarrow> string \<Rightarrow> bool" where
  "directly_in made x \<longleftrightarrow> (\<exists>d leaf. d \<in> made \<and> CHR ''/'' \<notin> set leaf \<and> x = d @ ''/'' @ leaf)"

fun parents_made :: "string set \<Rightarrow> batch_line list \<Rightarrow> bool" where
  "parents_made made [] = True"
| "parents_made made (Mkdir d # ls) = (directly_in made d \<and> parents_made (insert d made) ls)"
| "parents_made made (Put a b # ls) = (directly_in made b \<and> parents_made made ls)"
| "parents_made made (l # ls) = parents_made made ls"

lemma puts_of_simps [simp]: "puts_of [] = []" "puts_of (Mkdir d # ls) = puts_of ls" "puts_of (Put a b # ls) = (a, b) # puts_of ls"
    "puts_of (Rm f # ls) = puts_of ls" "puts_of (Rename a b # ls) = puts_of ls" "puts_of (Quit # ls) = puts_of ls"
    "puts_of (ls @ ls') = puts_of ls @ puts_of ls'"
  by (simp_all add: puts_of_def List.map_filter_def)

lemma puts_of_map [simp]: "puts_of (map (\<lambda>d. Mkdir (m d)) ds) = []"
    "puts_of (map (\<lambda>x. Put (g x) (k x)) xs) = map (\<lambda>x. (g x, k x)) xs"
  by (induct ds) (simp_all add: puts_of_def List.map_filter_def comp_def)

lemma directly_in_mono: "directly_in m x \<Longrightarrow> m \<subseteq> m' \<Longrightarrow> directly_in m' x"
  by (auto simp: directly_in_def)

lemma parents_made_mono: "parents_made m ls \<Longrightarrow> m \<subseteq> m' \<Longrightarrow> parents_made m' ls"
  by (induction m ls arbitrary: m' rule: parents_made.induct) (auto intro: directly_in_mono)

lemma parents_made_append: "parents_made m (xs @ ys) \<longleftrightarrow> parents_made m xs \<and> parents_made (m \<union> made_of xs) ys"
proof (induction m xs rule: parents_made.induct)
  case (2 m d ls)
  have "made_of (Mkdir d # ls) = insert d (made_of ls)" by (auto simp: made_of_def)
  then show ?case using 2 by simp
qed (simp_all add: made_of_def)

lemma join_snoc: "xs \<noteq> [] \<Longrightarrow> join sep (xs @ [x]) = join sep xs @ sep @ x"
  by (induction sep xs rule: join.induct) auto

definition remote_name :: "string \<Rightarrow> fpath \<Rightarrow> fpath \<Rightarrow> string" where
  "remote_name base p q = base @ path_text (drop (length p) q)"

lemma remote_at_child: "remote_at base p (p @ r) @ ''/'' @ f = remote_name base p (p @ r @ [f])"
  by (cases "r = []") (simp_all add: remote_at_def remote_name_def path_text_def join_snoc Let_def)

lemma remote_at_below: "r \<noteq> [] \<Longrightarrow> remote_at base p (p @ r) = remote_name base p (p @ r)"
  by (simp add: remote_at_def remote_name_def path_text_def Let_def)

lemma puts_of_entries:
  assumes "\<forall>(q, ds, fs) \<in> set es. \<exists>r. q = p @ r"
  shows "puts_of (concat (map (folder_lines base p) es)) = map (\<lambda>q. (path_text q, remote_name base p q)) (walked es)"
  using assms
proof (induction es)
  case (Cons e es)
  obtain r ds fs where e: "e = (p @ r, ds, fs)" using Cons.prems by (cases e) auto
  show ?case using Cons by (simp add: e folder_lines_def Let_def comp_def remote_at_child [simplified])
qed simp

lemma walk_puts: "puts_of (dir_put_lines c listable t p name)
    = map (\<lambda>q. (path_text q, remote_name (under_dir (data_dir c) name) p q)) (walked (os_walk listable t p))"
proof -
  have "\<forall>(q, ds, fs) \<in> set (os_walk listable t p). \<exists>r. q = p @ r" using walk_entries by fast
  from puts_of_entries [OF this] show ?thesis by (simp add: dir_put_lines_def Let_def)
qed

lemma parents_made_concat: "(\<And>x. x \<in> set xs \<Longrightarrow> parents_made m (f x)) \<Longrightarrow> parents_made m (concat (map f xs))"
  by (induction xs) (auto simp: parents_made_append intro: parents_made_mono)

lemma concat_map_concat: "concat (map f (concat xss)) = concat (map (\<lambda>xs. concat (map f xs)) xss)"
  by (induction xss) simp_all

lemma parents_made_mkdirs: "(\<And>d. d \<in> set ds \<Longrightarrow> directly_in m (f d)) \<Longrightarrow> parents_made m (map (\<lambda>d. Mkdir (f d)) ds)"
  by (induction ds) (auto intro: parents_made_mono)

lemma parents_made_puts: "(\<And>x. x \<in> set xs \<Longrightarrow> directly_in m (g x)) \<Longrightarrow> parents_made m (map (\<lambda>x. Put (f x) (g x)) xs)"
  by (induction xs) auto

lemma plain_names: "wf_tree t \<Longrightarrow> d \<in> set (names_in want t p) \<Longrightarrow> CHR ''/'' \<notin> set d"
  unfolding names_in_node wf_tree_def plain_path_def list_all_iff by fastforce

lemma entry_parents:
  assumes "wf_tree t" "remote_at base p q \<in> made"
  shows "parents_made made (folder_lines base p (q, folders_in t q, files_in t q))"
proof -
  have "directly_in made (remote_at base p q @ ''/'' @ x)" if "x \<in> set (names_in want t q)" for x want
    using plain_names [OF assms(1) that] assms(2) unfolding directly_in_def by blast
  then show ?thesis unfolding folder_lines_def Let_def prod.case parents_made_append
    by (intro conjI parents_made_mkdirs parents_made_puts directly_in_mono [OF _ Un_upper1]) auto
qed

lemma walk_parents:
  assumes "wf_tree t"
  shows "q = p @ r \<Longrightarrow> remote_at base p q \<in> made \<Longrightarrow> parents_made made (concat (map (folder_lines base p) (os_walk listable t q)))"
proof (induction "length (filter (\<lambda>n. below q (fn_path n)) t)" arbitrary: q r made rule: less_induct)
  case less
  define first where "first = folder_lines base p (q, folders_in t q, files_in t q)"
  have "parents_made (made \<union> made_of first) (concat (map (folder_lines base p) (os_walk listable t (q @ [d]))))"
    if d: "d \<in> set (folders_in t q)" for d
  proof (rule less.hyps [OF fewer_below [OF d]])
    show "q @ [d] = p @ (r @ [d])" using less.prems(1) by simp
    have "remote_at base p (q @ [d]) = remote_at base p q @ ''/'' @ d"
      using remote_at_child [of base p r d] remote_at_below [of "r @ [d]" base p] by (simp add: less.prems(1))
    then show "remote_at base p (q @ [d]) \<in> made \<union> made_of first"
      using d by (auto simp: first_def made_of_def folder_lines_def Let_def)
  qed
  then have "parents_made (made \<union> made_of first)
      (concat (map (\<lambda>d. concat (map (folder_lines base p) (os_walk listable t (q @ [d])))) (folders_in t q)))"
    by (rule parents_made_concat)
  moreover have "parents_made made first" unfolding first_def by (rule entry_parents [OF assms less.prems(2)])
  ultimately show ?case
    by (subst os_walk.simps) (simp add: first_def [symmetric] parents_made_append concat_map_concat comp_def)
qed

subsection \<open>Uploads\<close>

lemma remote_names_differ:
  assumes "wf_tree t"
  shows "distinct (map (remote_name base p) (walked (os_walk listable t p)))"
proof -
  have "inj_on (remote_name base p) (set (walked (os_walk listable t p)))"
  proof (rule inj_onI)
    fix q q' assume a: "q \<in> set (walked (os_walk listable t p))" "q' \<in> set (walked (os_walk listable t p))"
      "remote_name base p q = remote_name base p q'"
    obtain r r' where r: "q = p @ r" "r \<noteq> []" "q' = p @ r'" "r' \<noteq> []" using walked_starts [OF a(1)] walked_starts [OF a(2)] by auto
    have "plain_path q" "plain_path q'" using walked_node a(1,2) assms unfolding wf_tree_def by blast+
    then have "plain_path r" "plain_path r'" using r by (auto simp: plain_path_def)
    then show "q = q'" using a(3) path_text_inj [of r r'] by (simp add: r remote_name_def)
  qed
  then show ?thesis using walked_distinct assms unfolding wf_tree_def distinct_map by blast
qed

lemma local_names_differ:
  assumes "wf_tree t"
  shows "distinct (map path_text (walked (os_walk listable t p)))"
proof -
  have "inj_on path_text (set (walked (os_walk listable t p)))"
    using walked_node assms path_text_inj unfolding wf_tree_def by (intro inj_onI) metis
  then show ?thesis using walked_distinct assms unfolding wf_tree_def distinct_map by blast
qed

lemma upload_acked:
  assumes "upload_dataset w c ident listable t p h = (Ok acked, h')" "\<not> pd_dry_run c"
  shows "\<exists>user out. psws_user c ident = Ok user \<and> hw_run w (length (ho_runs h)) = Exited 0 out
    \<and> ho_runs h' = ho_runs h @ [\<lparr>sr_cmd = psws_cmd c user (psws_key c ident),
        sr_input = Some (batch_text (upload_lines c listable t (hw_now w) p)), sr_files = ho_tmp h\<rparr>]"
  using assms by (auto simp: upload_dataset_def psws_run_def run_sub_def sftp_answer_def outcome_defs
      split: if_splits res.splits sub_answer.splits)

text \<open>C36: An acknowledged folder was sent whole, when it was no dry run (which acknowledges and sends nothing)
  and the folder is a tree of plain names without links in which every folder can be listed (one that cannot is
  left out in silence, \<open>unlisted_is_left_out\<close>).  One sftp ended with 0, and the batch it was
  given makes the data folder, puts every file below the folder exactly once under the name that mirrors
  its path, no two under one name and each after the folder it goes into, and makes the trigger folder
  only after all of them.\<close>

theorem acked_folder_was_sent_whole:
  assumes "upload_dataset w c ident listable t p h = (Ok acked, h')" "\<not> pd_dry_run c"
    and "wf_tree t" "all_listable listable t" "is_folder t p"
  shows "\<exists>r ls out. ho_runs h' = ho_runs h @ [r] \<and> hw_run w (length (ho_runs h)) = Exited 0 out
     \<and> (let base = under_dir (data_dir c) (path_name p);
           home = if data_dir c = [] then [] else [Mkdir (data_dir c)];
           trigger = under_dir (trigger_dir c) (trigger_name c (hw_now w) (path_name p)) in
          sr_input r = Some (batch_text (home @ Mkdir base # ls @ [Mkdir trigger, Quit]))
        \<and> parents_made {base} ls
        \<and> set (puts_of ls) = (\<lambda>q. (path_text q, remote_name base p q)) ` fn_path ` {n \<in> set t. below p (fn_path n) \<and> fn_kind n \<noteq> Folder}
        \<and> distinct (map fst (puts_of ls)) \<and> distinct (map snd (puts_of ls)))"
proof -
  define base where "base = under_dir (data_dir c) (path_name p)"
  define ls where "ls = concat (map (folder_lines base p) (os_walk listable t p))"
  have d: "dataset_name t p = path_name p" using assms(5) by (simp add: dataset_name_def)
  obtain r out where r: "ho_runs h' = ho_runs h @ [r]" "hw_run w (length (ho_runs h)) = Exited 0 out"
      "sr_input r = Some (batch_text (upload_lines c listable t (hw_now w) p))" using upload_acked [OF assms(1,2)] by auto
  have "parents_made {base} ls" using walk_parents [OF assms(3), of p p "[]" base "{base}"] by (simp add: ls_def remote_at_def)
  moreover have lines: "dir_put_lines c listable t p (path_name p) = Mkdir base # ls"
    by (simp add: ls_def dir_put_lines_def base_def Let_def)
  moreover have puts: "puts_of ls = map (\<lambda>q. (path_text q, remote_name base p q)) (walked (os_walk listable t p))"
    using walk_puts [of c listable t p "path_name p"] by (simp add: lines base_def)
  moreover have "set (puts_of ls) = (\<lambda>q. (path_text q, remote_name base p q)) ` fn_path ` {n \<in> set t. below p (fn_path n) \<and> fn_kind n \<noteq> Folder}"
    unfolding puts set_map walked_files [OF assms(3,4,5)] ..
  moreover have "distinct (map fst (puts_of ls))" "distinct (map snd (puts_of ls))"
    using local_names_differ remote_names_differ assms(3) by (simp_all add: puts comp_def)
  ultimately show ?thesis using r assms(5) unfolding base_def [symmetric] Let_def
    by (intro exI [of _ r] exI [of _ ls] exI [of _ out]) (simp add: upload_lines_def d)
qed

text \<open>A folder that cannot be listed is left out, and the upload is acknowledged all the same.\<close>

lemma unlisted_is_left_out: "q \<in> set (walked (os_walk listable t p)) \<Longrightarrow> listable (butlast q)"
proof (induction listable t p rule: os_walk.induct)
  case (1 listable t p)
  then show ?case by (subst (asm) (2) os_walk.simps) (auto split: if_splits)
qed

lemma replay_is_ship:
  assumes "dataset_paths (bt_records b) = [s]"
  shows "psws_replay w c ident listable t (psws_serialize b) h
    = psws_ship w c ident listable t b h"
proof -
  have "s \<noteq> []" using assms by (auto simp: dataset_paths_def filter_eq_Cons_iff)
  then have "utf8 s \<noteq> []" by (cases s) (simp_all add: utf8_def utf8_char_def Let_def)
  then show ?thesis using assms
    by (auto simp: psws_replay_def psws_serialize_def psws_ship_def upload_dataset_def succeeded_def outcome_defs
        split: prod.split res.split)
qed

end
