(* ===== verification/HeartbeatLaws.thy ===== *)
theory HeartbeatLaws
  imports Heartbeat DatasetLaws TarShipLaws
begin

text \<open>
  The retry blob of a heartbeat batch reads back as the names and contents it was made of, and a replay
  sends those.
\<close>

subsection \<open>Base 64\<close>

lemma b64_value_char [simp]: "k < 64 \<Longrightarrow> b64_value (b64_char k) = Some k"
  by (auto simp: b64_char_def b64_value_def Let_def)

lemma b64_char_not_pad [simp]: "k < 64 \<Longrightarrow> b64_char k \<noteq> CHR ''=''"
proof
  assume "k < 64" "b64_char k = CHR ''=''"
  then have "b64_value (CHR ''='') = Some k" using b64_value_char by metis
  then show False by (simp add: b64_value_def)
qed

lemma b64_char_ascii: "k < 64 \<Longrightarrow> (of_char (b64_char k) :: nat) < 128"
  by (auto simp: b64_char_def)

text \<open>The four six-bit groups of three bytes.\<close>

lemma six_bits:
  fixes x y z :: nat
  shows "x < 256 \<Longrightarrow> x div 4 < 64" "y < 256 \<Longrightarrow> x mod 4 * 16 + y div 16 < 64" "z < 256 \<Longrightarrow> y mod 16 * 4 + z div 64 < 64"
    and "z mod 64 < 64" "x mod 4 * 16 < 64" "y mod 16 * 4 < 64"
proof -
  have "x mod 4 < 4" "y mod 16 < 16" by simp_all
  moreover have "y < 256 \<Longrightarrow> y div 16 < 16" "z < 256 \<Longrightarrow> z div 64 < 4" by (auto simp: div_less_iff_less_mult)
  ultimately show "y < 256 \<Longrightarrow> x mod 4 * 16 + y div 16 < 64" "z < 256 \<Longrightarrow> y mod 16 * 4 + z div 64 < 64"
    "x mod 4 * 16 < 64" "y mod 16 * 4 < 64" by linarith+
qed (auto simp: div_less_iff_less_mult)

lemma joined_bits:
  fixes x y z :: nat
  shows "y < 256 \<Longrightarrow> x div 4 * 4 + (x mod 4 * 16 + y div 16) div 16 = x" "x div 4 * 4 + x mod 4 * 16 div 16 = x"
    and "y < 256 \<Longrightarrow> z < 256 \<Longrightarrow> (x mod 4 * 16 + y div 16) mod 16 * 16 + (y mod 16 * 4 + z div 64) div 4 = y"
    and "y < 256 \<Longrightarrow> (x mod 4 * 16 + y div 16) mod 16 * 16 + y mod 16 * 4 div 4 = y"
    and "z < 256 \<Longrightarrow> (y mod 16 * 4 + z div 64) mod 4 * 64 + z mod 64 = z"
proof -
  have b: "y < 256 \<Longrightarrow> y div 16 < 16" "z < 256 \<Longrightarrow> z div 64 < 4" by (auto simp: div_less_iff_less_mult)
  show "y < 256 \<Longrightarrow> x div 4 * 4 + (x mod 4 * 16 + y div 16) div 16 = x" "x div 4 * 4 + x mod 4 * 16 div 16 = x"
    "y < 256 \<Longrightarrow> z < 256 \<Longrightarrow> (x mod 4 * 16 + y div 16) mod 16 * 16 + (y mod 16 * 4 + z div 64) div 4 = y"
    "y < 256 \<Longrightarrow> (x mod 4 * 16 + y div 16) mod 16 * 16 + y mod 16 * 4 div 4 = y"
    "z < 256 \<Longrightarrow> (y mod 16 * 4 + z div 64) mod 4 * 64 + z mod 64 = z" using b by simp_all
qed

lemma b64_read_char:
  assumes "k < 64"
  shows "b64_read (b64_char k # s) 0 bits pads = b64_read s 1 k 0"
    and "b64_read (b64_char k # s) 1 bits pads = map_res (Cons (char_of (bits * 4 + k div 16))) (b64_read s 2 (k mod 16) 0)"
    and "b64_read (b64_char k # s) 2 bits pads = map_res (Cons (char_of (bits * 16 + k div 4))) (b64_read s 3 (k mod 4) 0)"
    and "b64_read (b64_char k # s) 3 bits pads = map_res (Cons (char_of (bits * 64 + k))) (b64_read s 0 0 0)"
  using assms by simp_all

lemma b64_read_pads: "b64_read ''=='' 2 bits 0 = Ok []" "b64_read ''='' 3 bits 0 = Ok []"
  by simp_all

lemma b64_read_encode: "b64_read (b64_encode d) 0 0 0 = Ok d"
proof (induction d rule: b64_encode.induct)
  case (4 a b c s)
  show ?case unfolding b64_encode.simps Let_def append_Cons append_Nil
    by (simp only: b64_read_char six_bits joined_bits of_char_256 4 map_res.simps char_of_char)
next
  case (3 a b)
  show ?case unfolding b64_encode.simps Let_def
    by (simp only: b64_read_char six_bits joined_bits of_char_256 b64_read_pads map_res.simps char_of_char)
next
  case (2 a)
  show ?case unfolding b64_encode.simps Let_def
    by (simp only: b64_read_char six_bits joined_bits of_char_256 b64_read_pads map_res.simps char_of_char)
qed simp

lemma b64_ascii: "is_ascii (b64_encode d)"
proof (induction d rule: b64_encode.induct)
  case (4 a b c s)
  then show ?case by (simp add: is_ascii_def Let_def b64_char_ascii six_bits of_char_256)
qed (simp_all add: is_ascii_def Let_def b64_char_ascii six_bits of_char_256)

lemma b64_decode_encode [simp]: "b64_decode (b64_encode d) = Ok d"
  by (simp add: b64_decode_def b64_ascii b64_read_encode)

subsection \<open>The blob\<close>

lemma json_ws_chars [simp]: "\<not> json_ws CHR 0x22" "\<not> json_ws CHR ''{''" "\<not> json_ws CHR ''}''" "\<not> json_ws CHR '':''"
    "\<not> json_ws CHR '',''" "\<not> json_ws CHR '']''" "\<not> json_ws CHR ''[''" "json_ws CHR '' ''"
  by (simp_all add: json_ws_def)

lemma read_string_json [simp]: "read_string (json_string x @ r) = Some (x, r)" "read_string (CHR '' '' # json_string x @ r) = Some (x, r)"
  by (simp_all add: read_string_def json_string_def json_unquote_string)

lemma read_char_here [simp]: "\<not> json_ws c \<Longrightarrow> read_char c (c # r) = Some r" "\<not> json_ws d \<Longrightarrow> d \<noteq> c \<Longrightarrow> read_char c (d # r) = None"
    "read_char c (CHR '' '' # r) = read_char c r"
  by (simp_all add: read_char_def)

text \<open>A reader of elements reads back what a writer of elements makes, also after a space.\<close>

definition reads_back :: "(string \<Rightarrow> ('a \<times> string) option) \<Rightarrow> ('a \<Rightarrow> string) \<Rightarrow> bool" where
  "reads_back elem out \<longleftrightarrow> (\<forall>x r. elem (out x @ r) = Some (x, r) \<and> elem (CHR '' '' # out x @ r) = Some (x, r)
     \<and> (\<exists>c s. out x = c # s \<and> \<not> json_ws c \<and> c \<notin> {CHR ''}'', CHR '']''}))"

lemma read_back_rest:
  assumes "reads_back elem out" "close = CHR ''}'' \<or> close = CHR '']''"
  shows "xs \<noteq> [] \<Longrightarrow> length xs \<le> n \<Longrightarrow> read_more elem close n (join '', '' (map out xs) @ close # r) = Some (xs, r)
    \<and> read_more elem close n (CHR '' '' # join '', '' (map out xs) @ close # r) = Some (xs, r)"
proof (induction n arbitrary: xs)
  case (Suc n)
  have one: "elem (out x @ q) = Some (x, q)" "elem (CHR '' '' # out x @ q) = Some (x, q)" for x q
    using assms(1) unfolding reads_back_def by blast+
  have ends: "\<not> json_ws close" "CHR '','' \<noteq> close" using assms(2) by auto
  obtain x ys where x: "xs = x # ys" using Suc.prems(1) by (cases xs) auto
  show ?case
  proof (cases ys)
    case Nil
    then show ?thesis using one ends by (simp add: x)
  next
    case (Cons y zs)
    then show ?thesis using Suc.IH [of ys] Suc.prems(2) one ends by (simp add: x)
  qed
qed simp

lemma join_length: "(\<And>x. out x \<noteq> []) \<Longrightarrow> length xs \<le> length (join '', '' (map out xs))"
proof (induction xs rule: induct_list012)
  case (2 x)
  then show ?case by (simp add: Suc_le_eq)
qed simp_all

lemma read_seq_back:
  assumes "reads_back elem out" "close = CHR ''}'' \<or> close = CHR '']''" "\<not> json_ws opening"
  shows "read_seq elem opening close (opening # join '', '' (map out xs) @ close # r) = Some (xs, r)"
proof (cases xs)
  case Nil
  then show ?thesis using assms(2,3) by (auto simp: read_seq_def)
next
  case (Cons x ys)
  obtain c s where c: "out x = c # s" "\<not> json_ws c" "c \<noteq> close" using assms(1,2) unfolding reads_back_def by fastforce
  have first: "\<exists>t. join '', '' (map out xs) @ close # r = c # t" using c(1) by (cases ys) (simp_all add: Cons)
  have "out y \<noteq> []" for y using assms(1) unfolding reads_back_def by (metis list.distinct(1))
  then have "length xs \<le> length (join '', '' (map out xs) @ close # r)" using join_length [of out xs] by simp
  then have "read_more elem close (length (join '', '' (map out xs) @ close # r)) (join '', '' (map out xs) @ close # r) = Some (xs, r)"
    using read_back_rest [OF assms(1,2)] Cons by blast
  moreover have "read_char close (join '', '' (map out xs) @ close # r) = None" using first c(2,3) by auto
  ultimately show ?thesis using assms(3) by (simp add: read_seq_def)
qed

lemma member_reads_back: "reads_back read_member json_member"
  by (auto simp: reads_back_def read_member_def json_member_def) (auto simp: json_string_def)

lemma object_reads_back: "reads_back read_object json_object"
proof -
  have "read_object (json_object x @ r) = Some (x, r)" for x r
    using read_seq_back [OF member_reads_back, of "CHR ''}''" "CHR ''{''" x r] by (simp add: read_object_def json_object_def)
  moreover have "read_object (CHR '' '' # s) = read_object s" for s by (simp add: read_object_def read_seq_def)
  ultimately show ?thesis by (auto simp: reads_back_def) (auto simp: json_object_def)
qed

lemma objects_read_back: "read_objects (json_objects xs) = Some xs"
  using read_seq_back [OF object_reads_back, of "CHR '']''" "CHR ''[''" xs "[]"] by (simp add: read_objects_def json_objects_def)

lemma blob_reads_back: "read_blob (hb_serialize t b) = Some (map (\<lambda>(name, d). hb_item_of name d) (hb_contents t (hb_paths b)))"
proof -
  have "utf8 (json_objects xs) \<noteq> []" for xs by (simp add: json_objects_def utf8_def utf8_char_def)
  then show ?thesis by (simp add: read_blob_def hb_serialize_def objects_read_back)
qed

text \<open>The fuel of a reader of a sequence is enough: more of it reads the same.\<close>

lemma read_char_shorter: "read_char c s = Some r \<Longrightarrow> length r < length s"
  using length_dropWhile_le [of json_ws s] by (auto simp: read_char_def split: list.splits if_splits)

lemma read_more_fuel:
  assumes "\<And>s x r. elem s = Some (x, r) \<Longrightarrow> length r < length s"
  shows "length s \<le> n \<Longrightarrow> read_more elem close (n + k) s = read_more elem close n s"
proof (induction n arbitrary: s)
  case 0
  then have "elem s = None" using assms [of s] by (cases "elem s") auto
  then show ?case by (cases k) simp_all
next
  case (Suc n)
  have "read_more elem close (n + k) s2 = read_more elem close n s2" if "elem s = Some (x, s1)" "read_char CHR '','' s1 = Some s2" for x s1 s2
    using Suc assms [OF that(1)] read_char_shorter [OF that(2)] by simp
  then show ?case by (simp split: option.split)
qed

lemma read_string_shorter: "read_string s = Some (x, r) \<Longrightarrow> length r < length s"
  using length_dropWhile_le [of json_ws s] by (auto simp: read_string_def dest!: json_unquote_shorter split: list.splits if_splits)

lemma read_member_shorter: "read_member s = Some (x, r) \<Longrightarrow> length r < length s"
  by (fastforce simp: read_member_def split: option.splits dest: read_string_shorter read_char_shorter)

lemma read_more_shorter:
  assumes "\<And>s x r. elem s = Some (x, r) \<Longrightarrow> length r < length s"
  shows "read_more elem close n s = Some (xs, r) \<Longrightarrow> length r < length s"
proof (induction n arbitrary: s xs r)
  case (Suc n)
  then show ?case by (fastforce split: option.splits dest: assms read_char_shorter)
qed simp

lemma read_members_shorter: "read_more read_member close n s = Some (xs, r) \<Longrightarrow> length r < length s"
  by (rule read_more_shorter) (rule read_member_shorter)

lemma read_object_shorter: "read_object s = Some (x, r) \<Longrightarrow> length r < length s"
  unfolding read_object_def read_seq_def
  by (auto split: option.splits dest!: read_char_shorter read_members_shorter)

lemma blob_fuel_suffices:
  assumes "length s \<le> n"
  shows "read_more read_member close (n + k) s = read_more read_member close n s"
    and "read_more read_object close (n + k) s = read_more read_object close n s"
  by (rule read_more_fuel [OF _ assms], rule read_member_shorter, assumption)
    (rule read_more_fuel [OF _ assms], rule read_object_shorter, assumption)

subsection \<open>Runs\<close>

text \<open>What the runs from \<open>h\<close> to \<open>h'\<close> are: at least one is an sftp, every sftp is given the batch, all see
  the same temporary files, and the last is an sftp that ended well or not.\<close>

definition hb_runs :: "bool \<Rightarrow> host_world \<Rightarrow> hb_conf \<Rightarrow> 'a host_identity_scheme \<Rightarrow> bytes \<Rightarrow> host \<Rightarrow> host \<Rightarrow> bool" where
  "hb_runs ok w c ident batch h h' \<longleftrightarrow> ho_tmp h' = ho_tmp h \<and> (\<exists>before r. ho_runs h' = ho_runs h @ before @ [r]
     \<and> (\<exists>extra. sr_cmd r = hb_cmd c ident extra) \<and> sr_input r = Some batch \<and> sr_files r = ho_tmp h
     \<and> (\<forall>x \<in> set before. sr_input x \<in> {None, Some batch} \<and> sr_files x = ho_tmp h)
     \<and> done_well w (length (ho_runs h @ before)) = ok)"

lemma hb_run_facts:
  assumes "hb_run w c ident batch extra h = (Ok (rc, out), h')"
  shows "ho_tmp h' = ho_tmp h"
    and "ho_runs h' = ho_runs h @ [\<lparr>sr_cmd = hb_cmd c ident extra, sr_input = Some batch, sr_files = ho_tmp h\<rparr>]"
    and "done_well w (length (ho_runs h)) \<longleftrightarrow> rc = 0"
  using assms by (auto simp: hb_run_def run_sub_def sftp_answer_def done_well_def split: sub_answer.splits)

lemma hb_cmd_self [simp]: "\<exists>e. hb_cmd c ident extra = hb_cmd c ident e"
  by blast

lemma hb_run_ends:
  assumes "hb_run w c ident batch extra h = (Ok (rc, out), h')"
  shows "hb_runs (rc = 0) w c ident batch h h'"
  using hb_run_facts [OF assms] unfolding hb_runs_def
  by (intro conjI exI [of _ "[] :: sub_run list"] exI [of _ "\<lparr>sr_cmd = hb_cmd c ident extra, sr_input = Some batch, sr_files = ho_tmp h\<rparr>"]) simp_all

lemma hb_runs_later:
  assumes "hb_runs ok w c ident batch h1 h'" "ho_tmp h1 = ho_tmp h" "ho_runs h1 = ho_runs h @ rs"
    "\<forall>x \<in> set rs. sr_input x \<in> {None, Some batch} \<and> sr_files x = ho_tmp h"
  shows "hb_runs ok w c ident batch h h'"
proof -
  obtain before r where "ho_runs h' = ho_runs h @ (rs @ before) @ [r]" "\<exists>extra. sr_cmd r = hb_cmd c ident extra"
      "sr_input r = Some batch" "sr_files r = ho_tmp h" "\<forall>x \<in> set before. sr_input x \<in> {None, Some batch} \<and> sr_files x = ho_tmp h"
      "done_well w (length (ho_runs h @ rs @ before)) = ok" "ho_tmp h' = ho_tmp h"
    using assms(1-3) unfolding hb_runs_def by auto
  then show ?thesis using assms(4) unfolding hb_runs_def by (intro conjI exI [of _ "rs @ before"] exI [of _ r]) auto
qed

lemma hb_retry_ends:
  assumes "hb_run_with_retry w c ident batch h = (Ok (rc, out), h')"
  shows "hb_runs (rc = 0) w c ident batch h h'"
proof -
  obtain rc1 out1 h1 where f: "hb_run w c ident batch [] h = (Ok (rc1, out1), h1)"
    using assms by (auto simp: hb_run_with_retry_def split: prod.splits res.splits)
  show ?thesis
  proof (cases "rc1 \<noteq> 0 \<and> host_key_changed out1")
    case True
    then obtain h2 where g: "run_blind w (forget_host_cmd (hb_known_hosts c) (hb_host c)) h1 = (Ok (), h2)"
      "hb_run w c ident batch [''StrictHostKeyChecking=accept-new''] h2 = (Ok (rc, out), h')"
      using assms f by (auto simp: hb_run_with_retry_def split: prod.splits res.splits)
    show ?thesis using hb_run_facts(1,2) [OF f] run_blind_facts [OF g(1)] by (intro hb_runs_later [OF hb_run_ends [OF g(2)]]) auto
  next
    case False
    then show ?thesis using hb_run_ends [OF f] assms f by (auto simp: hb_run_with_retry_def)
  qed
qed

subsection \<open>Staging\<close>

definition tmp_names :: "host_world \<Rightarrow> nat \<Rightarrow> nat \<Rightarrow> string list" where
  "tmp_names w k n = map (\<lambda>i. hw_tmp w (k + i)) [0..<n]"

lemma tmp_names_Suc: "tmp_names w k (Suc n) = hw_tmp w k # tmp_names w (Suc k) n"
  by (simp add: tmp_names_def upt_conv_Cons map_Suc_upt [symmetric] del: upt_Suc)

lemma item_get_simps [simp]: "item_get (hb_item_of name d) ''b64'' = Ok (b64_encode d)" "item_get (hb_item_of name d) ''basename'' = Ok name"
  by (simp_all add: item_get_def hb_item_of_def)

lemma stage_contents:
  "stage_items w (map (\<lambda>(name, d). hb_item_of name d) cs) tmps files n h
    = (let ps = tmp_names w (ho_made h) (length cs) in
       (Ok (files @ zip ps (map fst cs), n + (\<Sum>(name, d) \<leftarrow> cs. int (length d))), tmps @ ps,
        h\<lparr>ho_tmp := ho_tmp h @ zip ps (map snd cs), ho_made := ho_made h + length cs\<rparr>))"
proof (induction cs arbitrary: tmps files n h)
  case Nil
  then show ?case by (simp add: tmp_names_def)
next
  case (Cons x cs)
  then show ?case by (simp add: make_tmp_def Let_def tmp_names_Suc split_beta)
qed

lemma ensure_runs: "\<exists>rs. ho_runs (ensure_identity_key w ident h) = ho_runs h @ rs \<and> (\<forall>x \<in> set rs. sr_input x = None)"
  by (auto simp: ensure_identity_key_def ensure_ssh_key_def run_sub_def split: option.split sub_answer.split)

lemma ensure_tmp: "ho_tmp (ensure_identity_key w ident h) = ho_tmp h" "ho_made (ensure_identity_key w ident h) = ho_made h"
  by (auto simp: ensure_identity_key_def ensure_ssh_key_def run_sub_def split: option.split sub_answer.split)

lemma tmp_names_fresh:
  assumes "inj (hw_tmp w)" "\<And>i. hw_tmp w i \<notin> fst ` set fs"
  shows "distinct (tmp_names w k n)" "set (tmp_names w k n) \<inter> fst ` set fs = {}" "length (tmp_names w k n) = n"
  using assms(2) injD [OF assms(1)] by (auto simp: tmp_names_def distinct_map intro!: inj_onI) (metis add_left_cancel)

lemma staged_files:
  assumes "distinct ps" "length ps = length ds" "set ps \<inter> fst ` set fs = {}"
  shows "map (map_of (fs @ zip ps ds)) ps = map Some ds" "filter (\<lambda>f. fst f \<notin> set ps) (fs @ zip ps ds) = fs"
proof -
  have new: "map_of (fs @ zip ps ds) p = map_of (zip ps ds) p" if "p \<in> set ps" for p
  proof -
    have "map_of fs p = None" using assms(3) that by (auto simp: map_of_eq_None_iff)
    then show ?thesis by (simp add: map_add_def split: option.split)
  qed
  have "map (map_of (zip ps ds)) ps = map Some ds" using assms(1,2)
    by (intro nth_equalityI) (simp_all add: map_of_zip_nth)
  then show "map (map_of (fs @ zip ps ds)) ps = map Some ds" using new by (simp cong: map_cong)
  show "filter (\<lambda>f. fst f \<notin> set ps) (fs @ zip ps ds) = fs"
  proof -
    have "filter (\<lambda>f. fst f \<notin> set ps) fs = fs" using assms(3) by (auto simp: filter_id_conv)
    moreover have "filter (\<lambda>f. fst f \<notin> set ps) (zip ps ds) = []" by (auto simp: filter_empty_conv dest: set_zip_leftD)
    ultimately show ?thesis by simp
  qed
qed

text \<open>C37: What a heartbeat replay sends.  The last run of a replay of a batch's retry blob is an sftp whose
  batch puts temporary files that hold, at that time, the contents of the batch's files when the blob was
  made, under the names of those files; every other sftp was given the same batch.  The replay is
  acknowledged exactly when that run ended with 0, and leaves no temporary file.\<close>

theorem heartbeat_replay_sends_the_contents:
  assumes "hb_replay w c ident why (hb_serialize t b) h = (Ok oc, h')" "hb_contents t (hb_paths b) \<noteq> []"
    and "inj (hw_tmp w)" "\<And>i. hw_tmp w i \<notin> fst ` set (ho_tmp h)"
  shows "let cs = hb_contents t (hb_paths b); ps = tmp_names w (ho_made h) (length cs); batch = hb_batch c (zip ps (map fst cs)) in
     ho_tmp h' = ho_tmp h \<and> (\<exists>before r. ho_runs h' = ho_runs h @ before @ [r] \<and> sr_input r = Some batch
       \<and> map (map_of (sr_files r)) ps = map (Some \<circ> snd) cs
       \<and> (\<forall>x \<in> set before. sr_input x \<in> {None, Some batch})
       \<and> (oc_kind oc = ''acked'') = done_well w (length (ho_runs h @ before)))"
proof -
  define cs where "cs = hb_contents t (hb_paths b)"
  define ps where "ps = tmp_names w (ho_made h) (length cs)"
  define batch where "batch = hb_batch c (zip ps (map fst cs))"
  define n where "n = (\<Sum>(name, d) \<leftarrow> cs. int (length d))"
  define h0 where "h0 = ensure_identity_key w ident h"
  define h1 where "h1 = h0\<lparr>ho_tmp := ho_tmp h0 @ zip ps (map snd cs), ho_made := ho_made h0 + length cs\<rparr>"
  have ps: "distinct ps" "length ps = length cs" "set ps \<inter> fst ` set (ho_tmp h) = {}"
    using tmp_names_fresh [OF assms(3,4)] by (simp_all add: ps_def)
  obtain m ms where items: "map (\<lambda>(name, d). hb_item_of name d) cs = m # ms" using assms(2) by (cases cs) (simp_all add: cs_def)
  have stage: "stage_items w (m # ms) [] [] 0 h0 = (Ok (zip ps (map fst cs), n), ps, h1)"
    unfolding items [symmetric] stage_contents by (simp add: Let_def ps_def n_def h1_def h0_def ensure_tmp)
  have "hb_replay w c ident why (hb_serialize t b) h = (case hb_run_with_retry w c ident batch h1 of
      (Raise e, h2) \<Rightarrow> (Raise e, drop_tmp ps h2) | (Ok (rc, out), h2) \<Rightarrow> (Ok (hb_outcome n rc out), drop_tmp ps h2))"
    using items by (simp add: hb_replay_def blob_reads_back cs_def [symmetric] stage [unfolded h0_def] batch_def del: stage_items.simps)
  then obtain rc out h2 where run: "hb_run_with_retry w c ident batch h1 = (Ok (rc, out), h2)" "oc = hb_outcome n rc out" "h' = drop_tmp ps h2"
    using assms(1) by (auto split: prod.splits res.splits)
  have tmp1: "ho_tmp h1 = ho_tmp h @ zip ps (map snd cs)" by (simp add: h1_def h0_def ensure_tmp)
  obtain rs where rs: "ho_runs h1 = ho_runs h @ rs" "\<forall>x \<in> set rs. sr_input x = None"
    using ensure_runs [of w ident h] by (auto simp: h1_def h0_def)
  obtain before r where b: "ho_tmp h2 = ho_tmp h1" "ho_runs h2 = ho_runs h1 @ before @ [r]" "sr_input r = Some batch" "sr_files r = ho_tmp h1"
      "\<forall>x \<in> set before. sr_input x \<in> {None, Some batch}" "done_well w (length (ho_runs h1 @ before)) = (rc = 0)"
    using hb_retry_ends [OF run(1)] unfolding hb_runs_def by blast
  have files: "map (map_of (sr_files r)) ps = map (Some \<circ> snd) cs" "ho_tmp h' = ho_tmp h" "ho_runs h' = ho_runs h @ (rs @ before) @ [r]"
    using staged_files [of ps "map snd cs" "ho_tmp h"] ps b(1,2,4) rs(1) by (simp_all add: run(3) drop_tmp_def tmp1)
  have "(oc_kind oc = ''acked'') = done_well w (length (ho_runs h @ rs @ before))"
    using b(6) rs(1) by (simp add: run(2) hb_outcome_def outcome_defs)
  then show ?thesis using files b(3,5) rs(2) unfolding Let_def cs_def [symmetric] ps_def [symmetric] batch_def [symmetric]
    by (intro conjI exI [of _ "rs @ before"] exI [of _ r]) auto
qed

end
