(* ===== verification/DatasetWitnesses.thy ===== *)
theory DatasetWitnesses
  imports HeartbeatLaws TarWitnesses
begin

text \<open>Witnesses of the properties of the data set and heartbeat transports.\<close>

definition tiny_psws :: psws_conf where
  "tiny_psws = \<lparr>pd_instrument = ''RM'', pd_host = ''h'', pd_user = Some ''u'', pd_key = None, pd_remote = ''in/'',
     pd_trigger_path = None, pd_prefix = ''c'', pd_colons = False, pd_connect_timeout = 1, pd_xfer_timeout = 1,
     pd_limit_kbps = None, pd_dry_run = False\<rparr>"

definition node :: "fpath \<Rightarrow> fkind \<Rightarrow> fnode" where
  "node p k = \<lparr>fn_path = p, fn_kind = k, fn_mtime_ns = 0, fn_mtime = 0\<rparr>"

definition tiny_tree :: ftree where
  "tiny_tree = [node [''q''] Folder, node [''q'', ''O''] Folder, node [''q'', ''O'', ''b''] (Contents ''2''),
     node [''q'', ''O'', ''a''] Folder, node [''q'', ''O'', ''a'', ''x''] (Contents ''1'')]"

lemma tiny_tree_wf: "wf_tree tiny_tree"
  by (simp add: wf_tree_def tiny_tree_def node_def plain_path_def)

lemma tiny_upload: "fst (upload_dataset (tiny_host (\<lambda>_. Exited 0 [])) tiny_psws tiny_station (\<lambda>_. True) tiny_tree [''q'', ''O''] idle_host) = Ok acked"
  by (simp add: upload_dataset_def psws_run_def run_sub_def sftp_answer_def tiny_host_def psws_user_def tiny_psws_def
      path_exists_def node_at_def tiny_tree_def node_def)

theorem acked_folder_was_sent_whole_witness:
  "\<exists>r ls. ho_runs (snd (upload_dataset (tiny_host (\<lambda>_. Exited 0 [])) tiny_psws tiny_station (\<lambda>_. True) tiny_tree [''q'', ''O''] idle_host)) = [r]
     \<and> set (puts_of ls) = {(''/q/O/b'', ''in/O/b''), (''/q/O/a/x'', ''in/O/a/x'')} \<and> parents_made {''in/O''} ls"
proof -
  let ?u = "upload_dataset (tiny_host (\<lambda>_. Exited 0 [])) tiny_psws tiny_station (\<lambda>_. True) tiny_tree [''q'', ''O''] idle_host"
  have u: "?u = (Ok acked, snd ?u)" using tiny_upload by (metis prod.collapse)
  have base: "under_dir (data_dir tiny_psws) (path_name [''q'', ''O'']) = ''in/O''"
    by (simp add: under_dir_def data_dir_def strip_slashes_def path_name_def tiny_psws_def)
  have "filter (\<lambda>n. below [''q'', ''O''] (fn_path n) \<and> fn_kind n \<noteq> Folder) tiny_tree
      = [node [''q'', ''O'', ''b''] (Contents ''2''), node [''q'', ''O'', ''a'', ''x''] (Contents ''1'')]"
    by (simp add: tiny_tree_def node_def below_def)
  then have sent: "{n \<in> set tiny_tree. below [''q'', ''O''] (fn_path n) \<and> fn_kind n \<noteq> Folder}
      = {node [''q'', ''O'', ''b''] (Contents ''2''), node [''q'', ''O'', ''a'', ''x''] (Contents ''1'')}"
    unfolding set_filter [symmetric] by (simp only: list.set)
  have "is_folder tiny_tree [''q'', ''O'']" by (simp add: is_folder_def node_at_def tiny_tree_def node_def)
  moreover have "\<not> pd_dry_run tiny_psws" "all_listable (\<lambda>_. True) tiny_tree" by (simp_all add: tiny_psws_def all_listable_def)
  ultimately obtain r ls where "ho_runs (snd ?u) = ho_runs idle_host @ [r]" "parents_made {''in/O''} ls"
      "set (puts_of ls) = (\<lambda>q. (path_text q, remote_name ''in/O'' [''q'', ''O''] q)) ` fn_path `
         {n \<in> set tiny_tree. below [''q'', ''O''] (fn_path n) \<and> fn_kind n \<noteq> Folder}"
    using acked_folder_was_sent_whole [OF u _ tiny_tree_wf] unfolding base Let_def by blast
  moreover have "(\<lambda>q. (path_text q, remote_name ''in/O'' [''q'', ''O''] q)) ` fn_path `
         {n \<in> set tiny_tree. below [''q'', ''O''] (fn_path n) \<and> fn_kind n \<noteq> Folder}
      = {(''/q/O/b'', ''in/O/b''), (''/q/O/a/x'', ''in/O/a/x'')}"
    unfolding sent by (simp add: node_def path_text_def remote_name_def)
  ultimately show ?thesis by (intro exI [of _ r] exI [of _ ls]) (simp add: idle_host_def)
qed

definition tiny_hb :: hb_conf where
  "tiny_hb = \<lparr>hb_host = ''h'', hb_port = 22, hb_user = ''u'', hb_remote = ''in'', hb_connect_timeout = 1, hb_known_hosts = ''/k''\<rparr>"

definition tiny_beat :: batch where
  "tiny_beat = \<lparr>bt_records = [\<lparr>rec_table = ''t'', rec_time = 0, rec_columns = [], rec_dedup_key = None, rec_payload_path = Some ''/q/O/b''\<rparr>],
     bt_cursor_after = [], bt_commit_token = []\<rparr>"

definition numbered_tmps :: "(nat \<Rightarrow> sub_answer) \<Rightarrow> host_world" where
  "numbered_tmps f = (tiny_host f)\<lparr>hw_tmp := \<lambda>i. replicate (Suc i) CHR ''t''\<rparr>"

definition tiny_hb_replay :: "outcome res \<times> host" where
  "tiny_hb_replay = hb_replay (numbered_tmps (\<lambda>_. Exited 0 [])) tiny_hb tiny_station (\<lambda>_. []) (hb_serialize tiny_tree tiny_beat) idle_host"

lemma tiny_hb_result: "map_res oc_kind (fst tiny_hb_replay) = Ok ''acked''"
  by code_simp

lemma tiny_hb_contents: "hb_contents tiny_tree (hb_paths tiny_beat) = [(''b'', ''2'')]"
  by code_simp

theorem heartbeat_replay_sends_the_contents_witness:
  "\<exists>before r. ho_runs (snd tiny_hb_replay) = before @ [r] \<and> sr_input r = Some (hb_batch tiny_hb [(''t'', ''b'')])
     \<and> map_of (sr_files r) ''t'' = Some ''2''"
proof -
  obtain oc where "fst tiny_hb_replay = Ok oc" using tiny_hb_result by (cases "fst tiny_hb_replay") auto
  then obtain h' where r: "tiny_hb_replay = (Ok oc, h')" by (metis prod.collapse)
  have "inj (hw_tmp (numbered_tmps (\<lambda>_. Exited 0 [])))"
    by (auto simp: numbered_tmps_def intro!: injI dest: arg_cong [of _ _ length])
  moreover have "ho_tmp idle_host = []" "ho_made idle_host = 0" "ho_runs idle_host = []" by (simp_all add: idle_host_def)
  moreover have "tmp_names (numbered_tmps f) 0 1 = [''t'']" for f by (simp add: tmp_names_def numbered_tmps_def tiny_host_def)
  ultimately show ?thesis
    using heartbeat_replay_sends_the_contents [OF r [unfolded tiny_hb_replay_def]] unfolding tiny_hb_contents r Let_def by simp fastforce
qed

end
