(* ===== verification/Schema.thy ===== *)
theory Schema
  imports SqliteSource
begin

text \<open>
  The migrations of the watermark store, \<open>watermark/schema.py\<close>: the three versions, the fill of a
  missing producer key, the retry pass, \<open>migrate\<close> and its read-only check.

  A file is its tables, the columns of its attempt log and its rows.  Each SQL statement is what it
  does to them; a failure of SQLite inside the transaction is outside the model (it rolls back).
  What other processes write between the first look and the write lock is a parameter.  A report
  line is its constructor, the flag says whether the thing was done or would be.
\<close>

subsection \<open>The file and the report\<close>

record mdb =
  md_tables :: "string list"
  md_attempt_cols :: "string list"
  md_store :: store

text \<open>\<open>MigrateContext\<close>: the sink as its reading finds it, and the pipeline that keeps a retry.\<close>

record migrate_ctx =
  mc_sink :: "sinkdb res option"
  mc_keep :: "string option"

datatype why = NoSink | SinkUnreadable string | NoRowUpTo int | HoldsFrom int | RecordsMatch nat
  | RecordEmpty | NotARowId cell | NoProducerKey "string list"

datatype retry_kind = DeleteIt | MoveTo string string | StayPut

record retry_action =
  ra_id :: nat
  ra_cursor_after :: bytes
  ra_kind :: retry_kind
  ra_why :: why

datatype mline = AddedColumn bool string | CreatedTable bool string
  | CopiedRecord bool send_key mark send_key | KeptRecord bool send_key mark send_key | NothingToCopy
  | FilledRecord bool send_key mark send_key | RetryLine bool retry_action

fun untensed :: "mline \<Rightarrow> mline" where
  "untensed (AddedColumn _ c) = AddedColumn False c"
| "untensed (CreatedTable _ t) = CreatedTable False t"
| "untensed (CopiedRecord _ k m n) = CopiedRecord False k m n"
| "untensed (KeptRecord _ k m n) = KeptRecord False k m n"
| "untensed NothingToCopy = NothingToCopy"
| "untensed (FilledRecord _ k m n) = FilledRecord False k m n"
| "untensed (RetryLine _ a) = RetryLine False a"

record migrate_report =
  mr_from :: int
  mr_to :: int
  mr_applied :: "int list"
  mr_pending :: "int list"
  mr_lines :: "mline list"
  mr_would_write :: bool

definition has_table :: "mdb \<Rightarrow> string \<Rightarrow> bool" where "has_table db t \<longleftrightarrow> t \<in> set (md_tables db)"

definition create_table :: "string \<Rightarrow> mdb \<Rightarrow> mdb" where
  "create_table t db = (if has_table db t then db else db\<lparr>md_tables := md_tables db @ [t]\<rparr>)"

definition on_store :: "(store \<Rightarrow> store) \<Rightarrow> mdb \<Rightarrow> mdb" where
  "on_store f db = db\<lparr>md_store := f (md_store db)\<rparr>"

definition db_mark :: "mdb \<Rightarrow> send_key \<Rightarrow> mark option" where "db_mark db k = find_mark (md_store db) k"

subsection \<open>Version 2: the pskreporter split\<close>

definition old_pipeline :: string where "old_pipeline = ''psk-pskreporter''"

definition old_source :: string where "old_source = ''sqlite:psk.spots''"

definition new_pipelines :: "(string \<times> string) list" where
  "new_pipelines = [(''psk-recorder-pskreporter'', ''sqlite:psk.spots@psk-recorder''),
     (''meteor-scatter-pskreporter'', ''sqlite:psk.spots@meteor-scatter'')]"

text \<open>\<open>dest_id LIKE 'pskreporter%'\<close>, which SQLite folds for ASCII letters.\<close>

definition is_psk_dest :: "string \<Rightarrow> bool" where
  "is_psk_dest d \<longleftrightarrow> starts_with (sql_lower d) ''pskreporter''"

definition old_records :: "mdb \<Rightarrow> (send_key \<times> mark) list" where
  "old_records db = sort_key (\<lambda>r. snd (fst r))
     (filter (\<lambda>((s, d, t), m). s = old_source \<and> is_psk_dest d) (st_marks (md_store db)))"

text \<open>The two nested loops: each old record with each producer's source part.\<close>

definition copy_pairs :: "mdb \<Rightarrow> ((send_key \<times> mark) \<times> string) list" where
  "copy_pairs db = concat (map (\<lambda>r. map (\<lambda>p. (r, snd p)) new_pipelines) (old_records db))"

fun new_key :: "(send_key \<times> mark) \<times> string \<Rightarrow> send_key" where
  "new_key (((s, d, t), m), n) = (n, d, t)"

definition insert_mark :: "send_key \<Rightarrow> mark \<Rightarrow> mdb \<Rightarrow> mdb" where
  "insert_mark k m = on_store (\<lambda>st. st\<lparr>st_marks := dict_set k m (st_marks st)\<rparr>)"

definition supersede :: "send_key \<Rightarrow> send_key \<Rightarrow> string \<Rightarrow> mdb \<Rightarrow> mdb" where
  "supersede old new now = on_store (\<lambda>st. if \<exists>(o', n', ts) \<in> set (st_superseded st). o' = old \<and> n' = new then st
     else st\<lparr>st_superseded := st_superseded st @ [(old, new, now)]\<rparr>)"

fun split_pairs :: "bool \<Rightarrow> string \<Rightarrow> ((send_key \<times> mark) \<times> string) list \<Rightarrow> mdb \<Rightarrow> mdb \<times> mline list" where
  "split_pairs wr now [] db = (db, [])"
| "split_pairs wr now (p # ps) db = (let old = fst (fst p); m = snd (fst p); new = new_key p;
     (db1, line) = (case db_mark db new of
        None \<Rightarrow> (if wr then insert_mark new m db else db, CopiedRecord wr old m new)
      | Some e \<Rightarrow> (db, KeptRecord wr new e old));
     db2 = (if wr then supersede old new now db1 else db1);
     (db3, lines) = split_pairs wr now ps db2
   in (db3, line # lines))"

definition split_pskreporter :: "bool \<Rightarrow> string \<Rightarrow> mdb \<Rightarrow> mdb \<times> mline list" where
  "split_pskreporter wr now db = (let db1 = (if wr then create_table ''superseded_keys'' db else db);
     (db2, lines) = split_pairs wr now (copy_pairs db1) db1
   in (db2, lines @ (if old_records db1 = [] then [NothingToCopy] else [])))"

subsection \<open>Version 3: the send log names its pipeline and client\<close>

definition v3_columns :: "string list" where "v3_columns = [''pipeline'', ''client'']"

definition add_send_log_names :: "bool \<Rightarrow> mdb \<Rightarrow> mdb \<times> mline list" where
  "add_send_log_names wr db = (let missing = filter (\<lambda>c. c \<notin> set (md_attempt_cols db)) v3_columns;
     db1 = (if wr then db\<lparr>md_attempt_cols := md_attempt_cols db @ missing\<rparr> else db);
     db2 = (if wr then create_table ''last_send'' db1 else db1)
   in (db2, map (AddedColumn wr) missing @ (if has_table db1 ''last_send'' then [] else [CreatedTable wr ''last_send''])))"

definition migrations :: "int list" where "migrations = [1, 2, 3]"

text \<open>A migration's \<open>apply\<close>, and its \<open>preview\<close> with the flag false; version 1 has nothing to do.\<close>

definition run_migration :: "int \<Rightarrow> bool \<Rightarrow> string \<Rightarrow> mdb \<Rightarrow> mdb \<times> mline list" where
  "run_migration v wr now db = (if v = 2 then split_pskreporter wr now db
     else if v = 3 then add_send_log_names wr db else (db, []))"

definition latest :: int where "latest = Max (set migrations)"

subsection \<open>The fill of a missing producer key\<close>

fun fill_pairs :: "bool \<Rightarrow> string \<Rightarrow> ((send_key \<times> mark) \<times> string) list \<Rightarrow> mdb \<Rightarrow> mdb \<times> mline list" where
  "fill_pairs wr now [] db = (db, [])"
| "fill_pairs wr now (p # ps) db = (let old = fst (fst p); m = snd (fst p); new = new_key p in
     if db_mark db new \<noteq> None then fill_pairs wr now ps db
     else let db1 = (if wr then supersede old new now (insert_mark new m (create_table ''superseded_keys'' db)) else db);
       (db2, lines) = fill_pairs wr now ps db1
     in (db2, FilledRecord wr old m new # lines))"

definition fill_missing :: "bool \<Rightarrow> string \<Rightarrow> mdb \<Rightarrow> mdb \<times> mline list" where
  "fill_missing wr now db = (if has_table db ''watermarks'' then fill_pairs wr now (copy_pairs db) db else (db, []))"

definition fills :: "int \<Rightarrow> bool" where "fills v \<longleftrightarrow> 2 \<le> v \<and> v \<le> latest"

subsection \<open>The retry pass\<close>

text \<open>\<open>_old_last_id\<close>: the row id the old record names or why none, and the record's destination and table.\<close>

definition old_matches :: "mdb \<Rightarrow> deliverable \<Rightarrow> (send_key \<times> mark) list" where
  "old_matches db d = filter (\<lambda>((s, e, t), m). s = (if dl_source_id d = [] then old_source else dl_source_id d)
     \<and> is_psk_dest e \<and> (dl_dest_id d \<noteq> [] \<longrightarrow> e = dl_dest_id d) \<and> (dl_table d \<noteq> [] \<longrightarrow> t = dl_table d))
     (st_marks (md_store db))"

definition cell_falsy :: "cell \<Rightarrow> bool" where
  "cell_falsy c \<longleftrightarrow> c = CBlob [] \<or> c = CText [] \<or> c = CInt 0"

definition old_last_id :: "mdb \<Rightarrow> deliverable \<Rightarrow> (int + why) \<times> (string \<times> string)" where
  "old_last_id db d = (case old_matches db d of
     [((s, e, t), m)] \<Rightarrow> (if cell_falsy (mk_cursor m) then Inr RecordEmpty
         else (case bind_res (read_cell (mk_cursor m)) cursor_id of
           Ok i \<Rightarrow> Inl i | Raise _ \<Rightarrow> Inr (NotARowId (mk_cursor m))), (e, t))
   | rs \<Rightarrow> (Inr (RecordsMatch (length rs)), ([], [])))"

definition psk_row_upto :: "int \<Rightarrow> qrow \<Rightarrow> bool" where
  "psk_row_upto i r \<longleftrightarrow> qr_db r = ''psk'' \<and> qr_table r = ''spots'' \<and> int (qr_id r) \<le> i"

text \<open>\<open>_sink_holds\<close>: SQLite takes 64-bit integers only.\<close>

definition sink_holds :: "migrate_ctx \<Rightarrow> int \<Rightarrow> (bool \<times> why) res" where
  "sink_holds ctx i = (case mc_sink ctx of
     None \<Rightarrow> Ok (False, NoSink)
   | Some (Raise e) \<Rightarrow> Ok (False, SinkUnreadable (exn_text e))
   | Some (Ok sink) \<Rightarrow> if \<not> sd_has_table sink then Ok (False, SinkUnreadable ''no such table: pending_uploads'')
       else if i < - (2 ^ 63) \<or> 2 ^ 63 \<le> i
         then Raise (Exn ''OverflowError'' ''Python int too large to convert to SQLite INTEGER'')
       else if list_ex (psk_row_upto i) (sd_rows sink) then Ok (True, HoldsFrom i)
       else Ok (False, NoRowUpTo i))"

definition missing_producer_keys :: "mdb \<Rightarrow> string \<times> string \<Rightarrow> string list" where
  "missing_producer_keys db wh = filter (\<lambda>src. db_mark db (src, wh) = None) (map snd new_pipelines)"

definition decide_retry :: "migrate_ctx \<Rightarrow> deliverable \<Rightarrow> bool \<times> why \<Rightarrow> retry_action res" where
  "decide_retry ctx d hw = (let act = \<lambda>k. \<lparr>ra_id = dl_id d, ra_cursor_after = dl_cursor_after d, ra_kind = k, ra_why = snd hw\<rparr> in
     if fst hw then Ok (act DeleteIt)
     else (case mc_keep ctx of
       Some p \<Rightarrow> if p = [] then Ok (act StayPut)
         else (case map_of new_pipelines p of Some s \<Rightarrow> Ok (act (MoveTo p s)) | None \<Rightarrow> Raise (Exn ''KeyError'' p))
     | None \<Rightarrow> Ok (act StayPut)))"

definition plan_retry :: "mdb \<Rightarrow> migrate_ctx \<Rightarrow> bool \<Rightarrow> deliverable \<Rightarrow> retry_action res" where
  "plan_retry db ctx assume_filled d = (case old_last_id db d of
     (Inr w, wh) \<Rightarrow> decide_retry ctx d (False, w)
   | (Inl i, wh) \<Rightarrow> bind_res (sink_holds ctx i) (\<lambda>hw.
       decide_retry ctx d (if fst hw \<and> \<not> assume_filled \<and> missing_producer_keys db wh \<noteq> []
         then (False, NoProducerKey (missing_producer_keys db wh)) else hw)))"

definition old_retries :: "mdb \<Rightarrow> deliverable list" where
  "old_retries db = sort_key dl_id (filter (\<lambda>d. dl_pipeline d = old_pipeline) (st_queue (md_store db)))"

definition plan_retries :: "mdb \<Rightarrow> migrate_ctx \<Rightarrow> bool \<Rightarrow> retry_action list res" where
  "plan_retries db ctx assume_filled = (if has_table db ''deliverables''
     then mapM_res (plan_retry db ctx assume_filled) (old_retries db) else Ok [])"

definition apply_retry :: "retry_action \<Rightarrow> deliverable list \<Rightarrow> deliverable list" where
  "apply_retry a q = (case ra_kind a of
     DeleteIt \<Rightarrow> filter (\<lambda>d. dl_id d \<noteq> ra_id a) q
   | MoveTo p s \<Rightarrow> map (\<lambda>d. if dl_id d = ra_id a then d\<lparr>dl_pipeline := p, dl_source_id := s\<rparr> else d) q
   | StayPut \<Rightarrow> q)"

definition apply_retries :: "retry_action list \<Rightarrow> mdb \<Rightarrow> mdb" where
  "apply_retries plan = on_store (\<lambda>st. st\<lparr>st_queue := fold apply_retry plan (st_queue st)\<rparr>)"

subsection \<open>Migrating\<close>

definition inspect :: "mdb \<Rightarrow> int res" where
  "inspect db = (if has_table db ''watermarks'' then Ok (st_user_version (md_store db))
     else Raise (Exn ''MigrateError'' ''holds no watermarks table, so it is not an hs-uploader watermark store''))"

definition all_stay :: "retry_action list \<Rightarrow> bool" where "all_stay plan \<longleftrightarrow> list_all (\<lambda>a. ra_kind a = StayPut) plan"

definition check_db :: "string \<Rightarrow> migrate_ctx \<Rightarrow> mdb \<Rightarrow> migrate_report res" where
  "check_db now ctx db = bind_res (inspect db) (\<lambda>current.
     let pending = filter (\<lambda>v. current < v) migrations;
       final = Max (set (current # pending));
       fill = (if fills final \<and> 2 \<notin> set pending then snd (fill_missing False now db) else [])
     in map_res (\<lambda>plan. \<lparr>mr_from = current, mr_to = current, mr_applied = [], mr_pending = pending,
          mr_lines = concat (map (\<lambda>v. snd (run_migration v False now db)) pending) @ fill @ map (RetryLine False) plan,
          mr_would_write = (pending \<noteq> [] \<or> fill \<noteq> [] \<or> \<not> all_stay plan)\<rparr>)
        (plan_retries db ctx (fills final)))"

text \<open>The loop over the migrations; the version the file has reached is carried along.\<close>

fun run_migrations :: "string \<Rightarrow> int list \<Rightarrow> int \<Rightarrow> mdb \<Rightarrow> mdb \<times> int \<times> int list \<times> mline list" where
  "run_migrations now [] version db = (db, version, [], [])"
| "run_migrations now (v # vs) version db = (if v \<le> version then run_migrations now vs version db
     else let (db1, lines) = run_migration v True now db;
       (db2, version', applied, lines') = run_migrations now vs v (on_store (st_user_version_update (\<lambda>_. v)) db1)
     in (db2, version', v # applied, lines @ lines'))"

definition locked_part :: "string \<Rightarrow> mdb \<Rightarrow> mdb \<times> int \<times> int list \<times> mline list" where
  "locked_part now db = (let (db1, version, applied, lines) = run_migrations now migrations (st_user_version (md_store db)) db;
     (db2, filled) = (if fills version then fill_missing True now db1 else (db1, []))
   in (db2, version, applied, lines @ filled))"

text \<open>The transaction on the file as the write lock finds it; an exception rolls it back.\<close>

definition migrate_locked :: "string \<Rightarrow> migrate_ctx \<Rightarrow> mdb \<Rightarrow> mdb \<times> migrate_report res" where
  "migrate_locked now ctx db = (let (db1, version, applied, lines) = locked_part now db in
     case plan_retries db1 ctx False of
       Raise e \<Rightarrow> (db, Raise e)
     | Ok plan \<Rightarrow> (apply_retries plan db1, Ok \<lparr>mr_from = st_user_version (md_store db), mr_to = version,
         mr_applied = applied, mr_pending = [], mr_lines = lines @ map (RetryLine True) plan, mr_would_write = False\<rparr>))"

definition migrate_db :: "(mdb \<Rightarrow> mdb) \<Rightarrow> string \<Rightarrow> migrate_ctx \<Rightarrow> mdb \<Rightarrow> mdb \<times> migrate_report res" where
  "migrate_db between now ctx db = (case bind_res (inspect db) (\<lambda>current.
       map_res (\<lambda>plan. (current, plan)) (plan_retries db ctx (fills current))) of
     Raise e \<Rightarrow> (db, Raise e)
   | Ok (current, plan) \<Rightarrow>
       if list_all (\<lambda>v. v \<le> current) migrations \<and> \<not> (fills current \<and> snd (fill_missing False now db) \<noteq> []) \<and> all_stay plan
       then (db, Ok \<lparr>mr_from = current, mr_to = current, mr_applied = [], mr_pending = [],
           mr_lines = map (RetryLine True) plan, mr_would_write = False\<rparr>)
       else migrate_locked now ctx (between db))"

subsection \<open>Files\<close>

text \<open>What stands at the path; a store may have a hot journal, and its contents are then what the
  journal rolls back to.\<close>

datatype store_file = NoFile | ZeroBytes | NotAFile | StoreFile bool mdb

definition new_store_file :: store_file where
  "new_store_file = StoreFile False \<lparr>md_tables = [''watermarks'', ''attempts'', ''deliverables'', ''dead_letter'',
       ''superseded_keys'', ''pipeline_state'', ''last_send''],
     md_attempt_cols = [''rowid'', ''ts'', ''source_id'', ''dest_id'', ''table_name'', ''outcome'', ''records'',
       ''bytes'', ''error'', ''pipeline'', ''client''], md_store = open_store empty_file\<rparr>"

definition validate_ctx :: "migrate_ctx \<Rightarrow> bool" where
  "validate_ctx ctx \<longleftrightarrow> (case mc_keep ctx of None \<Rightarrow> True | Some p \<Rightarrow> p \<in> set (map fst new_pipelines))"

text \<open>A file of no bytes is a database without tables.\<close>

definition no_tables :: mdb where
  "no_tables = \<lparr>md_tables = [], md_attempt_cols = [], md_store = empty_file\<rparr>"

fun file_empty :: "store_file \<Rightarrow> bool" where
  "file_empty NoFile = True" | "file_empty ZeroBytes = True" | "file_empty _ = False"

definition migrate :: "bool \<Rightarrow> bool \<Rightarrow> (mdb \<Rightarrow> mdb) \<Rightarrow> string \<Rightarrow> migrate_ctx \<Rightarrow> store_file \<Rightarrow> store_file \<times> migrate_report res" where
  "migrate as_root check between now ctx f = (if \<not> validate_ctx ctx
     then (f, Raise (Exn ''ValueError'' ''--keep-retry-for'')) else
     if file_empty f \<and> \<not> check \<and> \<not> as_root
     then (new_store_file, Ok \<lparr>mr_from = 0, mr_to = latest, mr_applied = [], mr_pending = [], mr_lines = [],
         mr_would_write = False\<rparr>)
     else (case f of
       NoFile \<Rightarrow> (f, Raise (Exn ''FileNotFoundError'' ''no store file''))
     | NotAFile \<Rightarrow> (f, Raise (Exn ''FileNotFoundError'' ''no store file''))
     | ZeroBytes \<Rightarrow> (f, if check then check_db now ctx no_tables else snd (migrate_db between now ctx no_tables))
     | StoreFile hot db \<Rightarrow> if check
         then (f, if hot then Raise (Exn ''JournalRecoveryNeeded'' ''a crash left a journal to recover'') else check_db now ctx db)
         else (case migrate_db between now ctx db of (db', r) \<Rightarrow> (StoreFile False db', r))))"

end
