(* ===== verification/SchemaLaws.thy ===== *)
theory SchemaLaws
  imports Schema
begin

text \<open>
  What a migration does to the file: it only adds send records, each a copy of an old one under a
  producer's key, and after it no producer key is missing.
\<close>

subsection \<open>Growing\<close>

definition new_sources :: "string list" where "new_sources = map snd new_pipelines"

lemma old_not_new: "old_source \<notin> set new_sources"
  by (simp add: old_source_def new_sources_def new_pipelines_def)

text \<open>The destination part of the key begins with \<open>pskreporter\<close>, in any case of its letters.\<close>

definition psk_part :: "send_key \<Rightarrow> bool" where
  "psk_part k \<longleftrightarrow> take 11 (sql_lower (fst (snd k))) = ''pskreporter''"

lemma starts_with_take: "starts_with s p \<Longrightarrow> take (length p) s = p"
  by (induction s p rule: starts_with.induct) auto

lemma psk_dest_part: "is_psk_dest (fst (snd k)) \<Longrightarrow> psk_part k"
  using starts_with_take [of "sql_lower (fst (snd k))" "''pskreporter''"] by (simp add: is_psk_dest_def psk_part_def numeral_eq_Suc)

text \<open>\<open>db'\<close> has the rows of \<open>db\<close> and new copies under producer keys.\<close>

definition grown :: "mdb \<Rightarrow> mdb \<Rightarrow> bool" where
  "grown db db' \<longleftrightarrow> (\<exists>ex sup v. md_store db' = (md_store db)\<lparr>st_marks := st_marks (md_store db) @ ex, st_superseded := sup, st_user_version := v\<rparr>
       \<and> (\<forall>(k, m) \<in> set ex. fst k \<in> set new_sources \<and> find_mark (md_store db) k = None \<and> psk_part k \<and> ((old_source, snd k), m) \<in> set (st_marks (md_store db))))
     \<and> has_table db' ''watermarks'' = has_table db ''watermarks'' \<and> has_table db' ''deliverables'' = has_table db ''deliverables''"

lemma grown_refl [simp]: "grown db db"
  unfolding grown_def by (intro conjI exI [of _ "[]"] exI [of _ "st_superseded (md_store db)"] exI [of _ "st_user_version (md_store db)"]) simp_all

lemma grown_trans:
  assumes "grown a b" "grown b c"
  shows "grown a c"
proof -
  obtain ex sup v where 1: "md_store b = (md_store a)\<lparr>st_marks := st_marks (md_store a) @ ex, st_superseded := sup, st_user_version := v\<rparr>"
    "\<forall>(k, m) \<in> set ex. fst k \<in> set new_sources \<and> find_mark (md_store a) k = None \<and> psk_part k \<and> ((old_source, snd k), m) \<in> set (st_marks (md_store a))"
    using assms(1) unfolding grown_def by blast
  obtain ex' sup' v' where 2: "md_store c = (md_store b)\<lparr>st_marks := st_marks (md_store b) @ ex', st_superseded := sup', st_user_version := v'\<rparr>"
    "\<forall>(k, m) \<in> set ex'. fst k \<in> set new_sources \<and> find_mark (md_store b) k = None \<and> psk_part k \<and> ((old_source, snd k), m) \<in> set (st_marks (md_store b))"
    using assms(2) unfolding grown_def by blast
  have "fst k \<in> set new_sources \<and> find_mark (md_store a) k = None \<and> psk_part k \<and> ((old_source, snd k), m) \<in> set (st_marks (md_store a))" if "(k, m) \<in> set ex'" for k m
  proof -
    have k: "fst k \<in> set new_sources" "find_mark (md_store b) k = None" "psk_part k" "((old_source, snd k), m) \<in> set (st_marks (md_store a) @ ex)"
      using 2(2) that 1(1) by auto
    moreover have "((old_source, snd k), m) \<notin> set ex" using 1(2) old_not_new by auto
    ultimately show ?thesis using 1(1) by (auto simp: find_mark_def map_add_def split: option.splits)
  qed
  then have e: "\<forall>(k, m) \<in> set (ex @ ex'). fst k \<in> set new_sources \<and> find_mark (md_store a) k = None \<and> psk_part k \<and> ((old_source, snd k), m) \<in> set (st_marks (md_store a))"
    using 1(2) by auto
  have "md_store c = (md_store a)\<lparr>st_marks := st_marks (md_store a) @ ex @ ex', st_superseded := sup', st_user_version := v'\<rparr>"
    using 1(1) 2(1) by simp
  then show ?thesis using assms e unfolding grown_def by blast
qed

lemma dict_set_absent: "map_of d k = None \<Longrightarrow> dict_set k v d = d @ [(k, v)]"
  by (induction k v d rule: dict_set.induct) (auto split: if_splits)

lemma grown_insert:
  "db_mark db k = None \<Longrightarrow> fst k \<in> set new_sources \<Longrightarrow> psk_part k \<Longrightarrow> ((old_source, snd k), m) \<in> set (st_marks (md_store db))
    \<Longrightarrow> grown db (insert_mark k m db)"
  unfolding grown_def
  by (intro conjI exI [of _ "[(k, m)]"] exI [of _ "st_superseded (md_store db)"] exI [of _ "st_user_version (md_store db)"])
    (auto simp: insert_mark_def on_store_def db_mark_def find_mark_def dict_set_absent has_table_def)

lemma grown_superseded: "grown db (supersede o' n now db)"
  unfolding grown_def supersede_def on_store_def
  by (intro conjI exI [of _ "[]"] exI [of _ "st_superseded (md_store (supersede o' n now db))"] exI [of _ "st_user_version (md_store db)"])
    (simp_all add: has_table_def supersede_def on_store_def)

lemma grown_version: "grown db (on_store (st_user_version_update (\<lambda>_. v)) db)"
  unfolding grown_def on_store_def
  by (intro conjI exI [of _ "[]"] exI [of _ "st_superseded (md_store db)"] exI [of _ v]) (simp_all add: has_table_def)

lemma grown_store_same:
  "md_store db' = md_store db \<Longrightarrow> has_table db' ''watermarks'' = has_table db ''watermarks''
    \<Longrightarrow> has_table db' ''deliverables'' = has_table db ''deliverables'' \<Longrightarrow> grown db db'"
  unfolding grown_def
  by (intro conjI exI [of _ "[]"] exI [of _ "st_superseded (md_store db)"] exI [of _ "st_user_version (md_store db)"]) simp_all

lemma grown_create: "t \<notin> {''watermarks'', ''deliverables''} \<Longrightarrow> grown db (create_table t db)"
  by (rule grown_store_same) (auto simp: create_table_def has_table_def)

lemma grown_mark: "grown db db' \<Longrightarrow> db_mark db k = Some m \<Longrightarrow> db_mark db' k = Some m"
  unfolding grown_def db_mark_def by (auto simp: find_mark_def map_add_def split: option.splits)

lemma grown_filter:
  assumes "grown db db'" "\<And>k m. P (k, m) \<Longrightarrow> fst k \<notin> set new_sources"
  shows "filter P (st_marks (md_store db')) = filter P (st_marks (md_store db))"
proof -
  obtain ex where e: "st_marks (md_store db') = st_marks (md_store db) @ ex" "\<forall>(k, m) \<in> set ex. fst k \<in> set new_sources"
    using assms(1) unfolding grown_def by fastforce
  then have "filter P ex = []" using assms(2) by (fastforce simp: filter_empty_conv)
  then show ?thesis using e(1) by simp
qed

lemma grown_old_records: "grown db db' \<Longrightarrow> old_records db' = old_records db"
  unfolding old_records_def by (subst grown_filter) (use old_not_new in auto)

lemma grown_copy_pairs: "grown db db' \<Longrightarrow> copy_pairs db' = copy_pairs db"
  by (simp add: copy_pairs_def grown_old_records)

lemma grown_queue: "grown db db' \<Longrightarrow> st_queue (md_store db') = st_queue (md_store db)"
  unfolding grown_def by auto

lemma grown_tables: "grown db db' \<Longrightarrow> has_table db' ''watermarks'' = has_table db ''watermarks''"
    "grown db db' \<Longrightarrow> has_table db' ''deliverables'' = has_table db ''deliverables''"
  unfolding grown_def by auto

subsection \<open>Copying\<close>

definition pair_ok :: "mdb \<Rightarrow> (send_key \<times> mark) \<times> string \<Rightarrow> bool" where
  "pair_ok db p \<longleftrightarrow> fst (fst (fst p)) = old_source \<and> is_psk_dest (fst (snd (fst (fst p)))) \<and> fst p \<in> set (st_marks (md_store db)) \<and> snd p \<in> set new_sources"

lemma new_key_parts: "new_key p = (snd p, snd (fst (fst p)))"
  by (cases p rule: new_key.cases) auto

lemma copy_pairs_ok: "p \<in> set (copy_pairs db) \<Longrightarrow> pair_ok db p"
  by (force simp: copy_pairs_def pair_ok_def old_records_def new_sources_def image_iff)

lemma grown_pair_ok: "grown db db' \<Longrightarrow> pair_ok db p \<Longrightarrow> pair_ok db' p"
  unfolding grown_def pair_ok_def by auto

lemma grown_copied:
  "pair_ok db p \<Longrightarrow> db_mark db (new_key p) = None \<Longrightarrow> grown db (insert_mark (new_key p) (snd (fst p)) db)"
proof (rule grown_insert)
  assume p: "pair_ok db p" "db_mark db (new_key p) = None"
  have "((old_source, snd (new_key p)), snd (fst p)) = fst p" using p(1) by (simp add: pair_ok_def new_key_parts prod_eq_iff)
  then show "((old_source, snd (new_key p)), snd (fst p)) \<in> set (st_marks (md_store db))" using p(1) by (simp add: pair_ok_def)
  show "psk_part (new_key p)" using p(1) by (simp add: pair_ok_def new_key_parts psk_dest_part)
  show "fst (new_key p) \<in> set new_sources" using p(1) by (simp add: pair_ok_def new_key_parts)
qed

definition filled :: "mdb \<Rightarrow> ((send_key \<times> mark) \<times> string) list \<Rightarrow> bool" where
  "filled db ps \<longleftrightarrow> list_all (\<lambda>p. db_mark db (new_key p) \<noteq> None) ps"

lemma filled_grown: "filled db ps \<Longrightarrow> grown db db' \<Longrightarrow> filled db' ps"
  unfolding filled_def list_all_iff using grown_mark by (metis not_None_eq)

lemma db_mark_insert: "db_mark (insert_mark k m db) k' = (if k' = k then Some m else db_mark db k')"
  by (simp add: db_mark_def insert_mark_def on_store_def find_mark_def)

text \<open>The three steps a copy is made of, as one.\<close>

definition split_step :: "bool \<Rightarrow> string \<Rightarrow> (send_key \<times> mark) \<times> string \<Rightarrow> mdb \<Rightarrow> mdb" where
  "split_step wr now p db = (let db1 = (if wr \<and> db_mark db (new_key p) = None then insert_mark (new_key p) (snd (fst p)) db else db)
     in if wr then supersede (fst (fst p)) (new_key p) now db1 else db1)"

definition split_line :: "bool \<Rightarrow> mdb \<Rightarrow> (send_key \<times> mark) \<times> string \<Rightarrow> mline" where
  "split_line wr db p = (case db_mark db (new_key p) of
     None \<Rightarrow> CopiedRecord wr (fst (fst p)) (snd (fst p)) (new_key p)
   | Some e \<Rightarrow> KeptRecord wr (new_key p) e (fst (fst p)))"

lemma split_pairs_step:
  "split_pairs wr now (p # ps) db
    = (let (db', ls) = split_pairs wr now ps (split_step wr now p db) in (db', split_line wr db p # ls))"
  by (simp add: split_step_def split_line_def Let_def split: option.split)

lemma split_step_grown: "pair_ok db p \<Longrightarrow> grown db (split_step True now p db)"
  unfolding split_step_def Let_def
  using grown_trans [OF grown_copied grown_superseded] grown_superseded by (auto split: if_splits)

lemma db_mark_supersede [simp]: "db_mark (supersede o' n now db) k = db_mark db k"
  by (simp add: db_mark_def supersede_def on_store_def find_mark_def)

lemma split_step_fills: "db_mark (split_step True now p db) (new_key p) \<noteq> None"
proof -
  define db1 where "db1 = (if db_mark db (new_key p) = None then insert_mark (new_key p) (snd (fst p)) db else db)"
  have "db_mark db1 (new_key p) \<noteq> None" by (simp add: db1_def db_mark_insert)
  moreover have "split_step True now p db = supersede (fst (fst p)) (new_key p) now db1" by (simp add: split_step_def db1_def Let_def)
  ultimately show ?thesis by simp
qed

lemma split_step_other: "k \<noteq> new_key p \<Longrightarrow> db_mark (split_step w now p db) k = db_mark db k"
  by (simp add: split_step_def Let_def db_mark_insert)

lemma split_pairs_grown: "(\<forall>p \<in> set ps. pair_ok db p) \<Longrightarrow> grown db (fst (split_pairs True now ps db)) \<and> filled (fst (split_pairs True now ps db)) ps"
proof (induction ps arbitrary: db)
  case (Cons p ps)
  define db1 where "db1 = split_step True now p db"
  have g: "grown db db1" using split_step_grown Cons.prems by (simp add: db1_def)
  have "\<forall>p \<in> set ps. pair_ok db1 p" using Cons.prems grown_pair_ok [OF g] by simp
  from Cons.IH [OF this] have 1: "grown db1 (fst (split_pairs True now ps db1))" "filled (fst (split_pairs True now ps db1)) ps" by simp_all
  have "db_mark (fst (split_pairs True now ps db1)) (new_key p) \<noteq> None"
    using split_step_fills [of now p db] grown_mark [OF 1(1)] by (metis db1_def not_None_eq)
  then show ?case
    using 1 grown_trans [OF g 1(1)] by (simp only: split_pairs_step Let_def db1_def [symmetric] case_prod_beta fst_conv) (simp add: filled_def)
qed (simp add: filled_def)

lemma split_pairs_read: "fst (split_pairs False now ps db) = db"
proof (induction ps arbitrary: db)
  case (Cons p ps)
  then show ?case by (simp only: split_pairs_step Let_def case_prod_beta fst_conv) (simp add: split_step_def Let_def)
qed simp

lemma split_pairs_lines:
  "distinct (map new_key ps) \<or> \<not> wr \<Longrightarrow> snd (split_pairs wr now ps db) = map (split_line wr db) ps"
proof (induction ps arbitrary: db)
  case (Cons p ps)
  have "split_line wr (split_step wr now p db) q = split_line wr db q" if "q \<in> set ps" for q
  proof (cases wr)
    case True
    then have "new_key q \<noteq> new_key p" using Cons.prems that by (metis distinct.simps(2) imageI list.simps(9) set_map)
    then show ?thesis by (simp add: split_line_def split_step_other)
  qed (simp add: split_step_def Let_def)
  moreover have "snd (split_pairs wr now ps (split_step wr now p db)) = map (split_line wr (split_step wr now p db)) ps"
    using Cons.prems by (intro Cons.IH) auto
  ultimately show ?case by (simp only: split_pairs_step Let_def case_prod_beta snd_conv) simp
qed simp

subsection \<open>Filling\<close>

definition fill_step :: "bool \<Rightarrow> string \<Rightarrow> (send_key \<times> mark) \<times> string \<Rightarrow> mdb \<Rightarrow> mdb" where
  "fill_step wr now p db = (if wr then supersede (fst (fst p)) (new_key p) now
     (insert_mark (new_key p) (snd (fst p)) (create_table ''superseded_keys'' db)) else db)"

lemma fill_pairs_step:
  "fill_pairs wr now (p # ps) db = (if db_mark db (new_key p) \<noteq> None then fill_pairs wr now ps db
     else let (db', ls) = fill_pairs wr now ps (fill_step wr now p db)
       in (db', FilledRecord wr (fst (fst p)) (snd (fst p)) (new_key p) # ls))"
  by (simp add: fill_step_def Let_def)

lemma fill_step_grown:
  assumes "pair_ok db p" "db_mark db (new_key p) = None"
  shows "grown db (fill_step True now p db)"
proof -
  let ?c = "create_table ''superseded_keys'' db"
  have c: "grown db ?c" by (rule grown_create) simp
  have "db_mark ?c (new_key p) = None" using assms(2) by (simp add: db_mark_def create_table_def)
  with grown_copied [OF grown_pair_ok [OF c assms(1)]] have "grown ?c (insert_mark (new_key p) (snd (fst p)) ?c)" by simp
  then have "grown db (supersede (fst (fst p)) (new_key p) now (insert_mark (new_key p) (snd (fst p)) ?c))"
    using grown_trans [OF c] grown_trans [OF _ grown_superseded] by blast
  then show ?thesis by (simp add: fill_step_def)
qed

lemma fill_step_mark: "db_mark (fill_step True now p db) k = (if k = new_key p then Some (snd (fst p)) else db_mark db k)"
  by (simp add: fill_step_def db_mark_insert) (simp add: db_mark_def create_table_def)

lemma fill_pairs_grown: "(\<forall>p \<in> set ps. pair_ok db p) \<Longrightarrow> grown db (fst (fill_pairs True now ps db)) \<and> filled (fst (fill_pairs True now ps db)) ps"
proof (induction ps arbitrary: db)
  case (Cons p ps)
  define db1 where "db1 = (if db_mark db (new_key p) \<noteq> None then db else fill_step True now p db)"
  have g: "grown db db1" using fill_step_grown Cons.prems by (auto simp: db1_def)
  have e: "fst (fill_pairs True now (p # ps) db) = fst (fill_pairs True now ps db1)"
    by (simp only: fill_pairs_step db1_def Let_def case_prod_beta) simp
  have "\<forall>p \<in> set ps. pair_ok db1 p" using Cons.prems grown_pair_ok [OF g] by simp
  from Cons.IH [OF this] have 1: "grown db1 (fst (fill_pairs True now ps db1))" "filled (fst (fill_pairs True now ps db1)) ps" by simp_all
  have "db_mark db1 (new_key p) \<noteq> None" by (auto simp: db1_def fill_step_mark)
  then have "db_mark (fst (fill_pairs True now ps db1)) (new_key p) \<noteq> None"
    using grown_mark [OF 1(1)] by (metis not_None_eq)
  then show ?case unfolding e using 1 grown_trans [OF g 1(1)] by (simp add: filled_def)
qed (simp add: filled_def)

lemma fill_pairs_filled: "filled db ps \<Longrightarrow> fill_pairs wr now ps db = (db, [])"
  by (induction ps) (simp_all add: filled_def)

definition unfilled :: "mdb \<Rightarrow> ((send_key \<times> mark) \<times> string) list \<Rightarrow> ((send_key \<times> mark) \<times> string) list" where
  "unfilled db ps = filter (\<lambda>p. db_mark db (new_key p) = None) ps"

lemma fill_pairs_lines:
  "distinct (map new_key ps) \<or> \<not> wr
    \<Longrightarrow> snd (fill_pairs wr now ps db) = map (\<lambda>p. FilledRecord wr (fst (fst p)) (snd (fst p)) (new_key p)) (unfilled db ps)"
proof (induction ps arbitrary: db)
  case (Cons p ps)
  have r: "snd (fill_pairs wr now ps db') = map (\<lambda>p. FilledRecord wr (fst (fst p)) (snd (fst p)) (new_key p)) (unfilled db' ps)" for db'
    using Cons.prems by (intro Cons.IH) auto
  have u: "unfilled (fill_step wr now p db) ps = unfilled db ps"
    if "\<not> wr \<or> new_key p \<notin> set (map new_key ps)"
    unfolding unfilled_def
  proof (intro filter_cong refl)
    fix q assume "q \<in> set ps"
    then have "wr \<Longrightarrow> new_key q \<noteq> new_key p" using that by (metis imageI set_map)
    then show "(db_mark (fill_step wr now p db) (new_key q) = None) = (db_mark db (new_key q) = None)"
      by (cases wr) (simp_all add: fill_step_mark, simp add: fill_step_def)
  qed
  then have u: "unfilled (fill_step wr now p db) ps = unfilled db ps" using Cons.prems by auto
  show ?case by (simp only: fill_pairs_step Let_def case_prod_beta r) (simp add: unfilled_def r u [unfolded unfilled_def])
qed (simp add: unfilled_def)


subsection \<open>The loop over the migrations\<close>

lemma watermarks_kept: "t \<notin> {''watermarks'', ''deliverables''} \<Longrightarrow> grown db (if b then create_table t db else db)"
  by (simp add: grown_create)

lemma split_grown: "grown db (fst (split_pskreporter True now db)) \<and> filled (fst (split_pskreporter True now db)) (copy_pairs db)"
proof -
  let ?c = "create_table ''superseded_keys'' db"
  have c: "grown db ?c" by (rule grown_create) simp
  have "\<forall>p \<in> set (copy_pairs ?c). pair_ok ?c p" using copy_pairs_ok by blast
  from split_pairs_grown [OF this, of now] show ?thesis
    using grown_trans [OF c] grown_copy_pairs [OF c] by (simp add: split_pskreporter_def Let_def case_prod_beta)
qed

lemma add_names_grown: "grown db (fst (add_send_log_names wr db))"
proof -
  have "grown db (db\<lparr>md_attempt_cols := x\<rparr>)" for x by (rule grown_store_same) (simp_all add: has_table_def)
  moreover have "grown b (create_table ''last_send'' b)" for b by (rule grown_create) simp
  ultimately have "grown db (create_table ''last_send'' (db\<lparr>md_attempt_cols := x\<rparr>))" for x using grown_trans by blast
  then show ?thesis by (simp add: add_send_log_names_def Let_def)
qed

lemma run_migration_grown: "grown db (fst (run_migration v True now db))"
  using split_grown add_names_grown by (simp add: run_migration_def)

lemma run_migrations_grown: "grown db (fst (run_migrations now vs v db))"
proof (induction vs arbitrary: v db)
  case (Cons m vs)
  have "grown db (on_store (st_user_version_update (\<lambda>_. m)) (fst (run_migration m True now db)))"
    using grown_trans [OF run_migration_grown grown_version] .
  then have "grown db (fst (run_migrations now vs m (on_store (st_user_version_update (\<lambda>_. m)) (fst (run_migration m True now db)))))"
    using Cons.IH grown_trans by blast
  then show ?case using Cons.IH by (simp add: case_prod_beta Let_def)
qed simp

lemma run_migrations_version: "fst (snd (run_migrations now vs v db)) = foldl max v vs"
proof (induction vs arbitrary: v db)
  case (Cons m vs)
  then show ?case by (simp add: case_prod_beta Let_def max_def)
qed simp

lemma migrations_version: "fst (snd (run_migrations now migrations v db)) = max v 3"
  by (simp add: run_migrations_version) (simp add: migrations_def)

lemma latest_3 [simp]: "latest = 3" by (simp add: latest_def migrations_def)

lemma fill_grown:
  "grown db (fst (fill_missing True now db))"
  "has_table db ''watermarks'' \<Longrightarrow> filled (fst (fill_missing True now db)) (copy_pairs db)"
  using fill_pairs_grown [of "copy_pairs db" db now] copy_pairs_ok [of _ db] by (auto simp: fill_missing_def)

definition stands_filled :: "mdb \<Rightarrow> bool" where "stands_filled db \<longleftrightarrow> filled db (copy_pairs db)"

lemma stands_filledD: "stands_filled db \<Longrightarrow> fill_missing wr now db = (db, [])"
  by (simp add: stands_filled_def fill_missing_def fill_pairs_filled)

lemma locked_part_parts:
  assumes "locked_part now db = (db2, version, applied, lines)"
  shows "grown db db2" "version = max (st_user_version (md_store db)) 3"
    "has_table db ''watermarks'' \<Longrightarrow> fills version \<Longrightarrow> stands_filled db2"
proof -
  obtain db1 v1 ap l1 where r: "run_migrations now migrations (st_user_version (md_store db)) db = (db1, v1, ap, l1)"
    by (metis prod_cases4)
  define ff where "ff = (if fills v1 then fill_missing True now db1 else (db1, []))"
  have e: "db2 = fst ff" "version = v1" using assms r by (auto simp: locked_part_def ff_def split: prod.splits)
  have g1: "grown db db1" using run_migrations_grown [of db now migrations] r by (metis fst_conv)
  have g2: "grown db1 db2" using fill_grown(1) by (simp add: e ff_def)
  show "grown db db2" using grown_trans [OF g1 g2] .
  show "version = max (st_user_version (md_store db)) 3"
    using migrations_version [of now "st_user_version (md_store db)" db] r e(2) by simp
  show "stands_filled db2" if "has_table db ''watermarks''" "fills version"
    using fill_grown(2) [of db1 now] grown_tables(1) [OF g1] that grown_copy_pairs [OF g2]
    by (simp add: stands_filled_def e ff_def)
qed

end
