(* ===== verification/SchemaMigrate.thy ===== *)
theory SchemaMigrate
  imports SchemaLaws
begin

text \<open>
  The properties of \<open>migrate\<close> and of its read-only check: what a migration leaves alone, what it
  guarantees, that running it again does nothing, that the check foretells it, and which retries it
  may delete.
\<close>

subsection \<open>The retry pass\<close>

lemma apply_retries_frames [simp]:
  "db_mark (apply_retries plan db) k = db_mark db k"
  "st_marks (md_store (apply_retries plan db)) = st_marks (md_store db)"
  "st_attempts (md_store (apply_retries plan db)) = st_attempts (md_store db)"
  "st_dead (md_store (apply_retries plan db)) = st_dead (md_store db)"
  "st_last_send (md_store (apply_retries plan db)) = st_last_send (md_store db)"
  "st_user_version (md_store (apply_retries plan db)) = st_user_version (md_store db)"
  "has_table (apply_retries plan db) t = has_table db t"
  "old_records (apply_retries plan db) = old_records db"
  "old_matches (apply_retries plan db) d = old_matches db d"
  "st_queue (md_store (apply_retries plan db)) = fold apply_retry plan (st_queue (md_store db))"
  by (simp_all add: apply_retries_def on_store_def db_mark_def find_mark_def has_table_def old_records_def old_matches_def)

lemma fold_stay: "all_stay plan \<Longrightarrow> fold apply_retry plan q = q"
  by (induction plan arbitrary: q) (simp_all add: all_stay_def apply_retry_def)

lemma apply_all_stay: "all_stay plan \<Longrightarrow> apply_retries plan db = db"
  by (simp add: apply_retries_def on_store_def fold_stay)

lemma fold_other: "\<forall>a \<in> set plan. ra_id a \<noteq> dl_id d \<Longrightarrow> d \<in> set q \<Longrightarrow> d \<in> set (fold apply_retry plan q)"
proof (induction plan arbitrary: q)
  case (Cons a plan)
  have "d \<in> set (apply_retry a q)" using Cons.prems by (auto simp: apply_retry_def image_iff split: retry_kind.split)
  then show ?case using Cons by simp
qed simp

definition moved :: "deliverable \<Rightarrow> string \<Rightarrow> string \<Rightarrow> deliverable" where
  "moved d p s = d\<lparr>dl_pipeline := p, dl_source_id := s\<rparr>"

lemma fold_action:
  assumes "a \<in> set plan" "distinct (map ra_id plan)" "ra_id a = dl_id d" "d \<in> set q"
  shows "case ra_kind a of DeleteIt \<Rightarrow> True | StayPut \<Rightarrow> d \<in> set (fold apply_retry plan q)
    | MoveTo p s \<Rightarrow> moved d p s \<in> set (fold apply_retry plan q)"
proof -
  obtain as bs where plan: "plan = as @ a # bs" using assms(1) by (auto simp: in_set_conv_decomp)
  have o: "\<forall>x \<in> set as. ra_id x \<noteq> dl_id d" "\<forall>x \<in> set bs. ra_id x \<noteq> dl_id d" using assms(2,3) plan by force+
  have 1: "d \<in> set (fold apply_retry as q)" by (rule fold_other [OF o(1) assms(4)])
  show ?thesis
  proof (cases "ra_kind a")
    case StayPut
    then show ?thesis using fold_other [OF o(2)] 1 by (simp add: plan apply_retry_def)
  next
    case (MoveTo p s)
    have "moved d p s \<in> set (apply_retry a (fold apply_retry as q))"
      using 1 MoveTo assms(3) by (force simp: apply_retry_def moved_def)
    moreover have "dl_id (moved d p s) = dl_id d" by (simp add: moved_def)
    ultimately show ?thesis using fold_other [of bs "moved d p s"] o(2) MoveTo by (simp add: plan)
  qed simp
qed

lemma fold_remaining:
  "d \<in> set (fold apply_retry plan q) \<Longrightarrow> dl_pipeline d = old_pipeline
    \<Longrightarrow> \<forall>a \<in> set plan. \<forall>p s. ra_kind a = MoveTo p s \<longrightarrow> p \<noteq> old_pipeline
    \<Longrightarrow> d \<in> set q \<and> (\<forall>a \<in> set plan. ra_id a = dl_id d \<longrightarrow> ra_kind a = StayPut)"
proof (induction plan arbitrary: q)
  case (Cons a plan)
  have "d \<in> set (apply_retry a q) \<and> (\<forall>a \<in> set plan. ra_id a = dl_id d \<longrightarrow> ra_kind a = StayPut)"
    by (rule Cons.IH [of "apply_retry a q"]) (use Cons.prems in simp_all)
  then have 1: "d \<in> set (apply_retry a q)" "\<forall>a \<in> set plan. ra_id a = dl_id d \<longrightarrow> ra_kind a = StayPut" by blast+
  have "d \<in> set q \<and> (ra_id a = dl_id d \<longrightarrow> ra_kind a = StayPut)"
  proof (cases "ra_kind a")
    case (MoveTo p s)
    then have "p \<noteq> old_pipeline" using Cons.prems(3) by simp
    have "d \<in> (\<lambda>d. if dl_id d = ra_id a then d\<lparr>dl_pipeline := p, dl_source_id := s\<rparr> else d) ` set q"
      using 1(1) MoveTo by (simp add: apply_retry_def)
    then obtain d' where "d' \<in> set q" "d = (if dl_id d' = ra_id a then d'\<lparr>dl_pipeline := p, dl_source_id := s\<rparr> else d')"
      by (rule imageE)
    moreover have "dl_id d' \<noteq> ra_id a" using calculation(2) Cons.prems(2) \<open>p \<noteq> old_pipeline\<close> by fastforce
    ultimately show ?thesis by simp
  qed (use 1(1) in \<open>auto simp: apply_retry_def\<close>)
  then show ?case using 1(2) by (simp only: list.set ball_simps) blast
qed simp

lemma decide_id: "decide_retry ctx d hw = Ok a \<Longrightarrow> ra_id a = dl_id d"
  by (auto simp: decide_retry_def split: if_splits option.splits)

lemma decide_kinds: "decide_retry ctx d hw = Ok a
    \<Longrightarrow> (ra_kind a = DeleteIt \<longleftrightarrow> fst hw) \<and> (\<forall>p s. ra_kind a = MoveTo p s \<longrightarrow> mc_keep ctx = Some p \<and> (p, s) \<in> set new_pipelines)"
  by (auto simp: decide_retry_def split: if_splits option.splits dest: map_of_SomeD)

lemma plan_retry_id: "plan_retry db ctx af d = Ok a \<Longrightarrow> ra_id a = dl_id d"
  by (auto simp: plan_retry_def split: prod.splits sum.splits dest: decide_id)

lemma plan_retry_move:
  "plan_retry db ctx af d = Ok a \<Longrightarrow> ra_kind a = MoveTo p s \<Longrightarrow> mc_keep ctx = Some p \<and> (p, s) \<in> set new_pipelines"
  by (auto simp: plan_retry_def split: prod.splits sum.splits dest: decide_kinds)

definition sink_proves :: "mdb \<Rightarrow> migrate_ctx \<Rightarrow> deliverable \<Rightarrow> bool" where
  "sink_proves db ctx d \<longleftrightarrow> (\<exists>s e t m i sink. old_matches db d = [((s, e, t), m)]
     \<and> bind_res (read_cell (mk_cursor m)) cursor_id = Ok i \<and> mc_sink ctx = Some (Ok sink)
     \<and> (\<exists>row \<in> set (sd_rows sink). psk_row_upto i row) \<and> (\<forall>n \<in> set (map snd new_pipelines). db_mark db (n, e, t) \<noteq> None))"

lemma old_last_id_Inl:
  "old_last_id db d = (Inl i, wh) \<Longrightarrow> \<exists>s e t m. old_matches db d = [((s, e, t), m)] \<and> wh = (e, t)
     \<and> bind_res (read_cell (mk_cursor m)) cursor_id = Ok i"
  by (auto simp: old_last_id_def split: list.splits prod.splits if_splits res.splits)

lemma sink_holds_True:
  "sink_holds ctx i = Ok hw \<Longrightarrow> fst hw \<Longrightarrow> \<exists>sink. mc_sink ctx = Some (Ok sink) \<and> (\<exists>row \<in> set (sd_rows sink). psk_row_upto i row)"
  by (auto simp: sink_holds_def list_ex_iff split: option.splits res.splits if_splits)

lemma plan_retry_delete:
  assumes "plan_retry db ctx False d = Ok a" "ra_kind a = DeleteIt"
  shows "sink_proves db ctx d"
proof -
  obtain x wh where o: "old_last_id db d = (x, wh)" by (cases "old_last_id db d") blast
  show ?thesis
  proof (cases x)
    case (Inr w)
    then show ?thesis using assms o by (auto simp: plan_retry_def dest: decide_kinds)
  next
    case (Inl i)
    then obtain hw where hw: "sink_holds ctx i = Ok hw"
      and dr: "decide_retry ctx d (if fst hw \<and> missing_producer_keys db wh \<noteq> [] then (False, NoProducerKey (missing_producer_keys db wh)) else hw) = Ok a"
      using assms(1) o by (auto simp: plan_retry_def)
    have "fst hw" "missing_producer_keys db wh = []" using decide_kinds [OF dr] assms(2) by (auto split: if_splits)
    with hw sink_holds_True old_last_id_Inl [OF o [unfolded Inl]] show ?thesis
      unfolding sink_proves_def missing_producer_keys_def filter_empty_conv by blast
  qed
qed

lemma plan_retries_parts:
  assumes "plan_retries db ctx af = Ok plan" "has_table db ''deliverables''"
  shows "map ra_id plan = map dl_id (old_retries db)"
    and "d \<in> set (st_queue (md_store db)) \<Longrightarrow> dl_pipeline d = old_pipeline \<Longrightarrow> \<exists>a \<in> set plan. plan_retry db ctx af d = Ok a"
    and "a \<in> set plan \<Longrightarrow> \<exists>d \<in> set (st_queue (md_store db)). plan_retry db ctx af d = Ok a \<and> dl_pipeline d = old_pipeline"
proof -
  have m: "mapM_res (plan_retry db ctx af) (old_retries db) = Ok plan" using assms by (simp add: plan_retries_def)
  note l = mapM_res_length [OF m] and n = mapM_res_nth [OF m]
  show "map ra_id plan = map dl_id (old_retries db)" using l plan_retry_id [OF n] by (intro nth_equalityI) auto
  show "\<exists>a \<in> set plan. plan_retry db ctx af d = Ok a" if "d \<in> set (st_queue (md_store db))" "dl_pipeline d = old_pipeline"
  proof -
    have "d \<in> set (old_retries db)" using that by (simp add: old_retries_def)
    then obtain i where "i < length (old_retries db)" "old_retries db ! i = d" by (auto simp: in_set_conv_nth)
    then show ?thesis using n [of i] l by (metis nth_mem)
  qed
  show "\<exists>d \<in> set (st_queue (md_store db)). plan_retry db ctx af d = Ok a \<and> dl_pipeline d = old_pipeline" if "a \<in> set plan"
  proof -
    obtain i where i: "i < length plan" "plan ! i = a" using \<open>a \<in> set plan\<close> by (metis in_set_conv_nth)
    have "old_retries db ! i \<in> set (old_retries db)" using i l by simp
    then show ?thesis using n [of i] i l by (auto simp: old_retries_def)
  qed
qed

subsection \<open>The two ways through \<open>migrate\<close>\<close>

definition nothing_to_do :: "migrate_ctx \<Rightarrow> mdb \<Rightarrow> bool" where
  "nothing_to_do ctx db \<longleftrightarrow> has_table db ''watermarks'' \<and> (let current = st_user_version (md_store db) in 3 \<le> current
     \<and> (fills current \<longrightarrow> snd (fill_missing False [] db) = [])
     \<and> (\<exists>plan. plan_retries db ctx (fills current) = Ok plan \<and> all_stay plan))"

lemma fill_read: "snd (fill_missing False now db) = snd (fill_missing False now' db)"
  by (simp add: fill_missing_def fill_pairs_lines)

lemma migrate_db_planned:
  assumes t: "has_table db ''watermarks''" and p: "plan_retries db ctx (fills (st_user_version (md_store db))) = Ok plan"
  shows "migrate_db between now ctx db = (if nothing_to_do ctx db
    then (db, Ok \<lparr>mr_from = st_user_version (md_store db), mr_to = st_user_version (md_store db), mr_applied = [], mr_pending = [],
      mr_lines = map (RetryLine True) plan, mr_would_write = False\<rparr>)
    else migrate_locked now ctx (between db))"
proof -
  let ?c = "st_user_version (md_store db)"
  have b: "bind_res (inspect db) (\<lambda>current. map_res (\<lambda>plan. (current, plan)) (plan_retries db ctx (fills current))) = Ok (?c, plan)"
    by (simp only: inspect_def t if_True bind_res.simps p map_res.simps)
  have n: "nothing_to_do ctx db \<longleftrightarrow> list_all (\<lambda>v. v \<le> ?c) migrations \<and> \<not> (fills ?c \<and> snd (fill_missing False now db) \<noteq> []) \<and> all_stay plan"
    using t p fill_read [of "[]" db now] by (auto simp: nothing_to_do_def migrations_def Let_def)
  show ?thesis unfolding migrate_db_def b res.case prod.case n ..
qed

lemma nothing_to_do_plan:
  "nothing_to_do ctx db \<Longrightarrow> has_table db ''watermarks''"
  "nothing_to_do ctx db \<Longrightarrow> \<exists>plan. plan_retries db ctx (fills (st_user_version (md_store db))) = Ok plan \<and> all_stay plan"
  unfolding nothing_to_do_def Let_def by blast+

lemma migrate_db_cases:
  assumes "migrate_db between now ctx db = (db', r)"
  obtains (quiet) rep plan where "nothing_to_do ctx db" "db' = db" "r = Ok rep" "mr_applied rep = []"
        "mr_to rep = st_user_version (md_store db)" "mr_lines rep = map (RetryLine True) plan"
        "plan_retries db ctx (fills (st_user_version (md_store db))) = Ok plan"
    | (refused) e where "db' = db" "r = Raise e" "has_table db ''watermarks'' \<Longrightarrow> plan_retries db ctx (fills (st_user_version (md_store db))) = Raise e"
    | (locked) "\<not> nothing_to_do ctx db" "has_table db ''watermarks''" "migrate_locked now ctx (between db) = (db', r)"
proof (cases "has_table db ''watermarks''")
  case False
  then have "\<exists>e. db' = db \<and> r = Raise e" using assms by (auto simp: migrate_db_def inspect_def)
  then show ?thesis using refused False by blast
next
  case True
  show ?thesis
  proof (cases "plan_retries db ctx (fills (st_user_version (md_store db)))")
    case (Raise e)
    then show ?thesis using assms refused [of e] True by (simp add: migrate_db_def inspect_def)
  next
    case (Ok plan)
    note m = migrate_db_planned [OF True Ok, of between now]
    show ?thesis
    proof (cases "nothing_to_do ctx db")
      case nd: True
      show ?thesis using assms unfolding m if_P [OF nd] prod.inject
        by (elim conjE) (rule quiet [OF nd _ _ _ _ _ Ok], auto)
    next
      case False
      show ?thesis using assms unfolding m if_not_P [OF False] by (rule locked [OF False True])
    qed
  qed
qed

lemma quiet_runs:
  assumes "nothing_to_do ctx db"
  shows "\<exists>rep. migrate_db between now ctx db = (db, Ok rep) \<and> mr_applied rep = []"
proof -
  obtain plan where p: "plan_retries db ctx (fills (st_user_version (md_store db))) = Ok plan"
    using nothing_to_do_plan(2) [OF assms] by blast
  show ?thesis unfolding migrate_db_planned [OF nothing_to_do_plan(1) [OF assms] p] if_P [OF assms]
    by (intro exI conjI, rule refl) (rule migrate_report.select_convs)
qed

lemma migrate_locked_cases:
  assumes "migrate_locked now ctx db = (db', r)"
  obtains (rolled_back) e where "db' = db" "r = Raise e"
    | (committed) db1 version applied lines plan where "locked_part now db = (db1, version, applied, lines)"
      "plan_retries db1 ctx False = Ok plan" "db' = apply_retries plan db1"
      "r = Ok \<lparr>mr_from = st_user_version (md_store db), mr_to = version, mr_applied = applied, mr_pending = [],
        mr_lines = lines @ map (RetryLine True) plan, mr_would_write = False\<rparr>"
proof -
  obtain db1 version applied lines where l: "locked_part now db = (db1, version, applied, lines)" by (metis prod_cases4)
  show ?thesis
  proof (cases "plan_retries db1 ctx False")
    case (Ok plan)
    then show ?thesis using assms l committed by (simp add: migrate_locked_def)
  next
    case (Raise e)
    then show ?thesis using assms l rolled_back [of e] by (simp add: migrate_locked_def)
  qed
qed

subsection \<open>What a migration leaves alone\<close>

lemma locked_grown:
  assumes "migrate_locked now ctx db = (db', r)"
  shows "\<exists>db1 plan. grown db db1 \<and> db' = apply_retries plan db1"
proof (cases rule: migrate_locked_cases [OF assms])
  case (1 e)
  have "db = apply_retries [] db" by (rule apply_all_stay [symmetric]) (simp add: all_stay_def)
  then show ?thesis using 1 grown_refl by metis
next
  case (2 db1 version applied lines plan)
  then show ?thesis using locked_part_parts(1) by blast
qed

lemma grown_new_mark:
  assumes "grown db db1" "db_mark db k = None" "db_mark db1 k = Some m"
  shows "fst k \<in> set (map snd new_pipelines) \<and> psk_part k \<and> ((old_source, snd k), m) \<in> set (st_marks (md_store db))"
proof -
  obtain ex where ex: "st_marks (md_store db1) = st_marks (md_store db) @ ex"
    "\<forall>(k, m) \<in> set ex. fst k \<in> set new_sources \<and> find_mark (md_store db) k = None \<and> psk_part k \<and> ((old_source, snd k), m) \<in> set (st_marks (md_store db))"
    using assms(1) unfolding grown_def by fastforce
  have "map_of ex k = Some m" using assms(2,3) ex(1) by (auto simp: db_mark_def find_mark_def map_add_def)
  then have "(k, m) \<in> set ex" by (rule map_of_SomeD)
  then show ?thesis using ex(2) unfolding new_sources_def by auto
qed

text \<open>C21: a migration only adds send records.  Whatever it answers and whatever others wrote before it
  had the write lock, every send record of the file it met is there unchanged, every record it added
  is a copy of a record that stands under the shared source part with a destination that begins with
  \<open>pskreporter\<close>, under one of the two producers' source parts and the same destination and table, and the attempt log, the
  dead letters and the last sends are as they were.\<close>

theorem migrate_only_adds_copies:
  assumes "migrate_db between now ctx db = (db', r)"
  shows "\<exists>base \<in> {db, between db}. (\<forall>k m. db_mark base k = Some m \<longrightarrow> db_mark db' k = Some m)
    \<and> (\<forall>k m. db_mark base k = None \<and> db_mark db' k = Some m
         \<longrightarrow> fst k \<in> {''sqlite:psk.spots@psk-recorder'', ''sqlite:psk.spots@meteor-scatter''}
           \<and> take 11 (sql_lower (fst (snd k))) = ''pskreporter''
           \<and> ((''sqlite:psk.spots'', snd k), m) \<in> set (st_marks (md_store base)))
    \<and> st_attempts (md_store db') = st_attempts (md_store base) \<and> st_dead (md_store db') = st_dead (md_store base)
    \<and> st_last_send (md_store db') = st_last_send (md_store base)"
proof (cases rule: migrate_db_cases [OF assms])
  case 3
  then obtain db1 plan where g: "grown (between db) db1" "db' = apply_retries plan db1" using locked_grown by blast
  have m: "db_mark db' k = db_mark db1 k" for k using g(2) by simp
  have "st_attempts (md_store db') = st_attempts (md_store (between db))" "st_dead (md_store db') = st_dead (md_store (between db))"
    "st_last_send (md_store db') = st_last_send (md_store (between db))"
    using g unfolding grown_def by auto
  moreover have "fst k \<in> {''sqlite:psk.spots@psk-recorder'', ''sqlite:psk.spots@meteor-scatter''}
      \<and> take 11 (sql_lower (fst (snd k))) = ''pskreporter'' \<and> ((''sqlite:psk.spots'', snd k), m) \<in> set (st_marks (md_store (between db)))"
    if "db_mark (between db) k = None" "db_mark db1 k = Some m" for k m
    using grown_new_mark [OF g(1) that] by (simp add: psk_part_def old_source_def new_pipelines_def)
  ultimately show ?thesis unfolding m using grown_mark [OF g(1)] by (intro bexI [of _ "between db"]) simp_all
qed (auto intro!: bexI [of _ db])

text \<open>After a migration no producer key is missing.  When it returns at a version this code knows,
  every old pskreporter record of the file has a record under both producers' source parts, so that
  neither producer starts at an anchor of its own.\<close>

theorem migrate_leaves_no_key_missing:
  assumes "migrate_db between now ctx db = (db', Ok rep)" "fills (mr_to rep)" "has_table (between db) ''watermarks''"
  shows "\<forall>(k, m) \<in> set (old_records db'). \<forall>n \<in> set (map snd new_pipelines). db_mark db' (n, snd k) \<noteq> None"
proof -
  have *: "\<forall>(k, m) \<in> set (old_records db'). \<forall>n \<in> set (map snd new_pipelines). db_mark db' (n, snd k) \<noteq> None" if "stands_filled db'"
  proof -
    have "db_mark db' (n, snd k) \<noteq> None" if a: "(k, m) \<in> set (old_records db')" "n \<in> set (map snd new_pipelines)" for k m n
    proof -
      have "((k, m), n) \<in> set (copy_pairs db')" using a unfolding copy_pairs_def by force
      then show ?thesis using \<open>stands_filled db'\<close> by (fastforce simp: stands_filled_def filled_def list_all_iff new_key_parts)
    qed
    then show ?thesis by blast
  qed
  show ?thesis
  proof (cases rule: migrate_db_cases [OF assms(1)])
    case (1 rep' plan)
    then have "fill_missing False [] db = (db, []) \<or> unfilled db (copy_pairs db) = []"
      using assms(2) by (auto simp: nothing_to_do_def Let_def fill_missing_def fill_pairs_lines)
    moreover have "snd (fill_missing False [] db) = []" "has_table db ''watermarks''"
      using 1 assms(2) by (auto simp: nothing_to_do_def Let_def)
    ultimately have "unfilled db (copy_pairs db) = []" by (auto simp: fill_missing_def fill_pairs_lines)
    then have "stands_filled db" by (auto simp: stands_filled_def filled_def unfilled_def list_all_iff filter_empty_conv)
    then show ?thesis using * 1(2) by blast
  next
    case 3
    show ?thesis
    proof (cases rule: migrate_locked_cases [OF 3(3)])
      case (2 db1 version applied lines plan)
      have "stands_filled db1" using locked_part_parts(3) [OF 2(1)] assms(2,3) 2(4) by simp
      then have "stands_filled db'" by (simp add: stands_filled_def filled_def copy_pairs_def 2(3))
      then show ?thesis by (rule *)
    qed simp
  qed simp
qed

subsection \<open>Which retries may go\<close>

lemma plan_retry_cong:
  "old_matches db1 d = old_matches db2 d \<Longrightarrow> (\<And>k. db_mark db1 k = db_mark db2 k) \<Longrightarrow> plan_retry db1 ctx af d = plan_retry db2 ctx af d"
proof -
  assume m: "old_matches db1 d = old_matches db2 d" and k: "\<And>k. db_mark db1 k = db_mark db2 k"
  have e: "old_last_id db1 d = old_last_id db2 d" "missing_producer_keys db1 = missing_producer_keys db2"
    by (simp_all add: old_last_id_def m missing_producer_keys_def k fun_eq_iff)
  show ?thesis unfolding plan_retry_def e ..
qed

text \<open>C23: only a provably re-readable retry goes.  After a migration every queued retry the write lock
  found is there as it was; or it was under the old shared pipeline and is now the keeper's, unchanged but
  for its pipeline and source part; or it is gone, and then the sink still holds a row at or before the
  one old record it matches and both producers have a record.\<close>

theorem retry_kept_moved_or_proved:
  assumes "migrate_locked now ctx db = (db', r)" "distinct (map dl_id (st_queue (md_store db)))"
    and "has_table db ''deliverables''" "d \<in> set (st_queue (md_store db))"
  shows "d \<in> set (st_queue (md_store db'))
    \<or> dl_pipeline d = old_pipeline \<and> (sink_proves db' ctx d
      \<or> (\<exists>p s. mc_keep ctx = Some p \<and> (p, s) \<in> set new_pipelines \<and> moved d p s \<in> set (st_queue (md_store db'))))"
proof (cases rule: migrate_locked_cases [OF assms(1)])
  case (2 db1 version applied lines plan)
  have g: "grown db db1" by (rule locked_part_parts(1) [OF 2(1)])
  have q: "st_queue (md_store db1) = st_queue (md_store db)" "has_table db1 ''deliverables''"
    using grown_queue [OF g] grown_tables(2) [OF g] assms(3) by simp_all
  note parts = plan_retries_parts [OF 2(2) q(2)]
  have ids: "map ra_id plan = map dl_id (old_retries db1)" by (rule parts(1))
  have "distinct (map dl_id (old_retries db1))"
    using assms(2) q(1) by (simp add: old_retries_def distinct_map inj_on_def)
  then have dis: "distinct (map ra_id plan)" by (simp add: ids)
  show ?thesis
  proof (cases "dl_pipeline d = old_pipeline")
    case True
    obtain a where a: "a \<in> set plan" "plan_retry db1 ctx False d = Ok a" using parts(2) [of d] assms(4) q(1) True by auto
    have ia: "ra_id a = dl_id d" by (rule plan_retry_id [OF a(2)])
    have q': "st_queue (md_store db') = fold apply_retry plan (st_queue (md_store db))" by (simp add: 2(3) q(1))
    have f: "case ra_kind a of DeleteIt \<Rightarrow> True | StayPut \<Rightarrow> d \<in> set (st_queue (md_store db'))
        | MoveTo p s \<Rightarrow> moved d p s \<in> set (st_queue (md_store db'))" 
      unfolding q' by (rule fold_action [OF a(1) dis ia assms(4)])
    show ?thesis
    proof (cases "ra_kind a")
      case DeleteIt
      have "sink_proves db1 ctx d" by (rule plan_retry_delete [OF a(2) DeleteIt])
      then have "sink_proves db' ctx d" by (simp add: sink_proves_def 2(3))
      then show ?thesis using True by blast
    next
      case (MoveTo p s)
      then show ?thesis using f True plan_retry_move [OF a(2) MoveTo] by auto
    qed (use f in simp)
  next
    case False
    have "\<forall>a \<in> set plan. ra_id a \<noteq> dl_id d"
    proof (intro ballI notI)
      fix a assume a: "a \<in> set plan" "ra_id a = dl_id d"
      obtain d' where d': "d' \<in> set (st_queue (md_store db))" "plan_retry db1 ctx False d' = Ok a" "dl_pipeline d' = old_pipeline"
        using parts(3) [OF a(1)] q(1) by auto
      then have "dl_id d' = dl_id d" using plan_retry_id [OF d'(2)] a(2) by simp
      then have "d' = d" using assms(2,4) d'(1) by (simp add: distinct_map inj_on_def)
      then show False using d'(3) False by simp
    qed
    from fold_other [OF this assms(4)] show ?thesis by (simp add: 2(3) q(1))
  qed
qed (use assms(4) in simp)

subsection \<open>Migrating again\<close>

lemma decide_Ok: "decide_retry ctx d hw = Ok a \<Longrightarrow> fst hw' \<or> \<not> fst hw \<and> \<not> fst hw' \<Longrightarrow> \<exists>a'. decide_retry ctx d hw' = Ok a'"
  by (auto simp: decide_retry_def split: if_splits option.splits)

lemma plan_retry_assumed: "plan_retry db ctx False d = Ok a \<Longrightarrow> \<exists>a'. plan_retry db ctx af d = Ok a'"
proof -
  assume p: "plan_retry db ctx False d = Ok a"
  obtain x wh where o: "old_last_id db d = (x, wh)" by (cases "old_last_id db d") blast
  show ?thesis
  proof (cases x)
    case (Inl i)
    then obtain hw where hw: "sink_holds ctx i = Ok hw"
      and dr: "decide_retry ctx d (if fst hw \<and> missing_producer_keys db wh \<noteq> [] then (False, NoProducerKey (missing_producer_keys db wh)) else hw) = Ok a"
      using p o by (auto simp: plan_retry_def)
    from decide_Ok [OF dr, of "if fst hw \<and> \<not> af \<and> missing_producer_keys db wh \<noteq> [] then (False, NoProducerKey (missing_producer_keys db wh)) else hw"]
    show ?thesis using Inl o hw by (auto simp: plan_retry_def)
  qed (use p o in \<open>simp add: plan_retry_def\<close>)
qed

lemma mapM_res_exists: "\<forall>x \<in> set xs. \<exists>y. f x = Ok y \<Longrightarrow> \<exists>ys. mapM_res f xs = Ok ys"
  using mapM_res_Raise_iff [of f xs] by (cases "mapM_res f xs") fastforce+

lemma new_names: "(p, s) \<in> set new_pipelines \<Longrightarrow> p \<noteq> old_pipeline"
  by (auto simp: new_pipelines_def old_pipeline_def)

lemma replanned:
  assumes "plan_retries db ctx False = Ok plan"
  shows "\<exists>plan'. plan_retries (apply_retries plan db) ctx False = Ok plan' \<and> all_stay plan'"
    and "\<exists>plan'. plan_retries (apply_retries plan db) ctx af = Ok plan'"
proof -
  let ?db' = "apply_retries plan db"
  have e: "plan_retry ?db' ctx b d = plan_retry db ctx b d" for b d by (rule plan_retry_cong) simp_all
  have s: "\<exists>a. plan_retry db ctx False d = Ok a \<and> ra_kind a = StayPut" if "has_table db ''deliverables''" "d \<in> set (old_retries ?db')" for d
  proof -
    note parts = plan_retries_parts [OF assms that(1)]
    have d: "d \<in> set (fold apply_retry plan (st_queue (md_store db)))" "dl_pipeline d = old_pipeline"
      using that(2) by (simp_all add: old_retries_def)
    have "\<forall>a \<in> set plan. \<forall>p s. ra_kind a = MoveTo p s \<longrightarrow> p \<noteq> old_pipeline"
      using parts(3) plan_retry_move new_names by blast
    from fold_remaining [OF d this] have r: "d \<in> set (st_queue (md_store db))" "\<forall>a \<in> set plan. ra_id a = dl_id d \<longrightarrow> ra_kind a = StayPut" by auto
    obtain a where "a \<in> set plan" "plan_retry db ctx False d = Ok a" using parts(2) [OF r(1) d(2)] by blast
    then show ?thesis using r(2) plan_retry_id by blast
  qed
  show "\<exists>plan'. plan_retries ?db' ctx False = Ok plan' \<and> all_stay plan'"
  proof (cases "has_table db ''deliverables''")
    case True
    obtain plan' where p: "mapM_res (plan_retry ?db' ctx False) (old_retries ?db') = Ok plan'"
      using mapM_res_exists [of "old_retries ?db'" "plan_retry ?db' ctx False"] s [OF True] e by metis
    have "ra_kind (plan' ! i) = StayPut" if "i < length plan'" for i
      using mapM_res_nth [OF p] mapM_res_length [OF p] that s [OF True] e by (metis nth_mem res.inject(1))
    then have "all_stay plan'" by (simp add: all_stay_def list_all_length)
    then show ?thesis using p True by (simp add: plan_retries_def)
  qed (simp add: plan_retries_def all_stay_def)
  show "\<exists>plan'. plan_retries ?db' ctx af = Ok plan'"
  proof (cases "has_table db ''deliverables''")
    case True
    have "\<forall>d \<in> set (old_retries ?db'). \<exists>a. plan_retry ?db' ctx af d = Ok a"
      using s [OF True] e plan_retry_assumed by metis
    then show ?thesis using True mapM_res_exists by (simp add: plan_retries_def)
  qed (simp add: plan_retries_def)
qed

lemma locked_part_done:
  assumes "3 \<le> st_user_version (md_store db)" "fills (st_user_version (md_store db)) \<Longrightarrow> stands_filled db"
  shows "locked_part now db = (db, st_user_version (md_store db), [], [])"
proof -
  have "run_migrations now migrations (st_user_version (md_store db)) db = (db, st_user_version (md_store db), [], [])"
    using assms(1) by (simp add: migrations_def)
  then show ?thesis using assms(2) stands_filledD by (simp add: locked_part_def)
qed

lemma fill_missing_version: "st_user_version (md_store (fst (fill_missing True now db))) = st_user_version (md_store db)"
proof -
  have "st_user_version (md_store (fst (fill_pairs True now ps db))) = st_user_version (md_store db)" for ps
  proof (induction ps arbitrary: db)
    case (Cons p ps)
    have "st_user_version (md_store (fill_step True now p db)) = st_user_version (md_store db)"
      by (simp add: fill_step_def supersede_def insert_mark_def on_store_def create_table_def)
    then show ?case using Cons by (simp only: fill_pairs_step Let_def case_prod_beta) simp
  qed simp
  then show ?thesis by (simp add: fill_missing_def)
qed

lemma run_migrations_sets:
  "st_user_version (md_store db) = v \<Longrightarrow> st_user_version (md_store (fst (run_migrations now vs v db))) = fst (snd (run_migrations now vs v db))"
proof (induction vs arbitrary: v db)
  case (Cons m vs)
  have "st_user_version (md_store (on_store (st_user_version_update (\<lambda>_. m)) x)) = m" for x by (simp add: on_store_def)
  then show ?case using Cons.IH [OF Cons.prems] Cons.IH [of _ m] by (simp add: case_prod_beta Let_def)
qed simp

lemma locked_part_version:
  "locked_part now db = (db2, version, applied, lines) \<Longrightarrow> st_user_version (md_store db2) = version"
  using run_migrations_sets [of db _ now migrations] fill_missing_version [of now]
  by (auto simp: locked_part_def split: prod.splits if_splits) (metis fst_conv snd_conv)+

text \<open>Migrating twice is migrating once.  After a migration that returned, a second one with the same
  sink and keeper returns, applies nothing and leaves the file as it is.\<close>

theorem migrate_twice_is_once:
  assumes "migrate_db between now ctx db = (db', Ok rep)" "has_table (between db) ''watermarks''"
  shows "\<exists>rep'. migrate_db (\<lambda>x. x) now' ctx db' = (db', Ok rep') \<and> mr_applied rep' = []"
proof (cases rule: migrate_db_cases [OF assms(1)])
  case (1 rep' plan)
  then show ?thesis using quiet_runs by blast
next
  case 3
  show ?thesis
  proof (cases rule: migrate_locked_cases [OF 3(3)])
    case (2 db1 version applied lines plan)
    have g: "grown (between db) db1" and v: "version = max (st_user_version (md_store (between db))) 3"
      and f: "fills version \<Longrightarrow> stands_filled db1"
      using locked_part_parts [OF 2(1)] assms(2) by blast+
    have v': "st_user_version (md_store db') = version" using locked_part_version [OF 2(1)] by (simp add: 2(3))
    have t: "has_table db' ''watermarks''" using grown_tables(1) [OF g] assms(2) by (simp add: 2(3))
    have f': "fills version \<Longrightarrow> stands_filled db'" using f by (simp add: stands_filled_def filled_def copy_pairs_def 2(3))
    obtain plan' where p: "plan_retries db' ctx False = Ok plan'" "all_stay plan'" using replanned(1) [OF 2(2)] 2(3) by blast
    obtain plan2 where p2: "plan_retries db' ctx (fills (st_user_version (md_store db'))) = Ok plan2" using replanned(2) [OF 2(2)] 2(3) by blast
    show ?thesis
    proof (cases "nothing_to_do ctx db'")
      case True
      then show ?thesis by (rule quiet_runs)
    next
      case False
      have "locked_part now' db' = (db', version, [], [])" using locked_part_done [of db' now'] v v' f' by simp
      then have l: "migrate_locked now' ctx db' = (apply_retries plan' db', Ok \<lparr>mr_from = st_user_version (md_store db'), mr_to = version, mr_applied = [], mr_pending = [],
          mr_lines = [] @ map (RetryLine True) plan', mr_would_write = False\<rparr>)"
        using p(1) by (simp add: migrate_locked_def)
      show ?thesis unfolding migrate_db_planned [OF t p2] if_not_P [OF False] l apply_all_stay [OF p(2)]
        by (intro exI conjI, rule refl) (rule migrate_report.select_convs)
    qed
  qed simp
qed simp

end
