(* ===== verification/SchemaCheck.thy ===== *)
theory SchemaCheck
  imports SchemaMigrate
begin

text \<open>
  The read-only check against the migration it foretells, the concrete cases where a retry or a
  report goes wrong, and the witnesses of the migration's properties.
\<close>

subsection \<open>Lines read and lines written\<close>

lemma distinct_copy_keys:
  assumes "distinct (map fst (st_marks (md_store db)))"
  shows "distinct (map new_key (copy_pairs db))"
proof -
  let ?P = "\<lambda>((s, d, t), m). s = old_source \<and> is_psk_dest d"
  have "distinct (map (\<lambda>r. snd (fst r)) (filter ?P xs))" if "distinct (map fst xs)" for xs :: "(send_key \<times> mark) list"
    using that by (induction xs) (force simp: image_iff)+
  then have "distinct (map (\<lambda>r. snd (fst r)) (old_records db))"
    using assms by (simp add: old_records_def distinct_map inj_on_def)
  moreover have "distinct (map new_key (concat (map (\<lambda>r. map (\<lambda>p. (r, snd p)) new_pipelines) rs)))"
    if "distinct (map (\<lambda>r. snd (fst r)) rs)" for rs :: "(send_key \<times> mark) list"
    using that by (induction rs) (auto simp: new_pipelines_def new_key_parts)
  ultimately show ?thesis unfolding copy_pairs_def by blast
qed

lemma untensed_split [simp]: "untensed (split_line wr db p) = split_line False db p"
  by (simp add: split_line_def split: option.split)

lemma split_foretold:
  assumes "distinct (map fst (st_marks (md_store db)))"
  shows "map untensed (snd (split_pskreporter True now db)) = snd (split_pskreporter False now' db)"
proof -
  let ?c = "create_table ''superseded_keys'' db"
  have g: "grown db ?c" by (rule grown_create) simp
  have e: "copy_pairs ?c = copy_pairs db" "old_records ?c = old_records db"
    using grown_copy_pairs [OF g] grown_old_records [OF g] by simp_all
  have l: "split_line wr ?c p = split_line wr db p" for wr p
    by (simp add: split_line_def db_mark_def create_table_def)
  show ?thesis
    using split_pairs_lines [of "copy_pairs db" True now ?c] split_pairs_lines [of "copy_pairs db" False now' db] distinct_copy_keys [OF assms]
    by (auto simp: split_pskreporter_def e case_prod_beta Let_def l)
qed

lemma split_frames:
  "md_attempt_cols (fst (split_pskreporter True now db)) = md_attempt_cols db"
  "has_table (fst (split_pskreporter True now db)) ''last_send'' = has_table db ''last_send''"
proof -
  have p: "md_attempt_cols (fst (split_pairs True now ps db)) = md_attempt_cols db \<and> md_tables (fst (split_pairs True now ps db)) = md_tables db" for ps db
  proof (induction ps arbitrary: db)
    case (Cons p ps)
    have "md_attempt_cols (split_step True now p db) = md_attempt_cols db \<and> md_tables (split_step True now p db) = md_tables db"
      by (simp add: split_step_def supersede_def insert_mark_def on_store_def Let_def)
    then show ?case using Cons by (simp only: split_pairs_step Let_def case_prod_beta fst_conv)
  qed simp
  show "md_attempt_cols (fst (split_pskreporter True now db)) = md_attempt_cols db"
    by (simp add: split_pskreporter_def case_prod_beta Let_def p create_table_def)
  show "has_table (fst (split_pskreporter True now db)) ''last_send'' = has_table db ''last_send''"
    by (simp add: split_pskreporter_def case_prod_beta Let_def p has_table_def create_table_def)
qed

lemma names_foretold:
  assumes "md_attempt_cols db1 = md_attempt_cols db" "has_table db1 ''last_send'' = has_table db ''last_send''"
  shows "map untensed (snd (add_send_log_names True db1)) = snd (add_send_log_names False db)"
  using assms by (simp add: add_send_log_names_def Let_def has_table_def)

lemma fill_foretold:
  assumes "distinct (map fst (st_marks (md_store db)))"
  shows "map untensed (snd (fill_missing True now db)) = snd (fill_missing False now' db)"
  using fill_pairs_lines [of "copy_pairs db" True now db] fill_pairs_lines [of "copy_pairs db" False now' db] distinct_copy_keys [OF assms]
  by (simp add: fill_missing_def)

subsection \<open>The check foretells\<close>

lemma on_store_frames [simp]:
  "md_attempt_cols (on_store f db) = md_attempt_cols db" "has_table (on_store f db) t = has_table db t"
  "md_store (on_store f db) = f (md_store db)"
  by (simp_all add: on_store_def has_table_def)

lemma st_marks_version [simp]: "st_marks (md_store (on_store (st_user_version_update f) db)) = st_marks (md_store db)"
  by (simp add: on_store_def)

lemma split_version_marks:
  "snd (split_pskreporter wr now (on_store (st_user_version_update f) db)) = snd (split_pskreporter wr now db)" for wr now f db
proof -
  let ?v = "on_store (st_user_version_update f)"
  have c: "create_table t (?v db) = ?v (create_table t db)" for t db by (simp add: create_table_def on_store_def has_table_def)
  have m: "db_mark (?v db) k = db_mark db k" for db k by (simp add: db_mark_def find_mark_def on_store_def)
  have o: "old_records (?v db) = old_records db" for db by (simp add: old_records_def on_store_def)
  have s: "split_step wr now p (?v db) = ?v (split_step wr now p db)" for p db
    by (simp add: split_step_def Let_def m) (simp add: supersede_def insert_mark_def on_store_def)
  have p: "snd (split_pairs wr now ps (?v db)) = snd (split_pairs wr now ps db)" for ps db
  proof (induction ps arbitrary: db)
    case (Cons p ps)
    have "split_line wr (?v db) p = split_line wr db p" by (simp add: split_line_def m)
    then show ?case using Cons by (simp only: split_pairs_step Let_def case_prod_beta snd_conv s)
  qed simp
  have b: "(if wr then create_table t (?v db) else ?v db) = ?v (if wr then create_table t db else db)" for t by (simp add: c)
  show ?thesis by (simp only: split_pskreporter_def case_prod_beta Let_def b o copy_pairs_def p snd_conv)
qed

text \<open>The lines the migrations write, from any version, are those their previews read.\<close>

lemma migrations_foretold:
  assumes "distinct (map fst (st_marks (md_store db)))" "st_user_version (md_store db) = c"
    and "run_migrations now migrations c db = (db1, version, applied, lines)"
  shows "applied = filter (\<lambda>v. c < v) migrations"
    and "map untensed lines = concat (map (\<lambda>v. snd (run_migration v False now' db)) (filter (\<lambda>v. c < v) migrations))"
proof -
  let ?v = "\<lambda>n. on_store (st_user_version_update (\<lambda>_. n))"
  have sf: "map untensed (snd (split_pskreporter True now (?v 1 db))) = snd (split_pskreporter False now' db)"
    "map untensed (snd (split_pskreporter True now db)) = snd (split_pskreporter False now' db)"
    using split_foretold [OF assms(1), of now now'] by (simp_all add: split_version_marks)
  have nf: "map untensed (snd (add_send_log_names True (?v 2 (fst (split_pskreporter True now x))))) = snd (add_send_log_names False db)"
    if "x = db \<or> x = ?v 1 db" for x
    using that by (intro names_foretold) (auto simp: split_frames)
  have n2: "map untensed (snd (add_send_log_names True db)) = snd (add_send_log_names False db)"
    by (rule names_foretold) simp_all
  consider "c < 1" | "c = 1" | "c = 2" | "3 \<le> c" by linarith
  then have "applied = filter (\<lambda>v. c < v) migrations \<and> map untensed lines = concat (map (\<lambda>v. snd (run_migration v False now' db)) (filter (\<lambda>v. c < v) migrations))"
  proof cases
    case 1
    then show ?thesis using assms(3) sf nf [of "?v 1 db"] by (auto simp: migrations_def run_migration_def case_prod_beta Let_def)
  next
    case 2
    then show ?thesis using assms(3) sf nf [of db] by (auto simp: migrations_def run_migration_def case_prod_beta Let_def)
  next
    case 3
    then show ?thesis using assms(3) n2 by (auto simp: migrations_def run_migration_def case_prod_beta Let_def)
  next
    case 4
    then show ?thesis using assms(3) by (auto simp: migrations_def)
  qed
  then show "applied = filter (\<lambda>v. c < v) migrations" "map untensed lines = concat (map (\<lambda>v. snd (run_migration v False now' db)) (filter (\<lambda>v. c < v) migrations))"
    by blast+
qed

lemma split_then_filled:
  assumes "c < 2" "run_migrations now migrations c db = (db1, version, applied, lines)"
  shows "stands_filled db1"
proof -
  let ?v = "\<lambda>n. on_store (st_user_version_update (\<lambda>_. n))"
  have f: "stands_filled (?v 3 (fst (add_send_log_names True (?v 2 (fst (split_pskreporter True now x))))))" (is "stands_filled ?y") for x
  proof -
    have g: "grown (fst (split_pskreporter True now x)) ?y"
      using grown_trans [OF grown_trans [OF grown_version add_names_grown] grown_version] .
    have "copy_pairs ?y = copy_pairs x" using grown_copy_pairs [OF grown_trans [OF _ g]] split_grown by blast
    then show ?thesis using filled_grown [OF _ g] split_grown by (simp add: stands_filled_def)
  qed
  consider "c < 1" | "c = 1" using assms(1) by linarith
  then show ?thesis
  proof cases
    case 1
    then show ?thesis using assms(2) f [of "?v 1 db"] by (auto simp: migrations_def run_migration_def case_prod_beta Let_def)
  next
    case 2
    then show ?thesis using assms(2) f [of db] by (auto simp: migrations_def run_migration_def case_prod_beta Let_def)
  qed
qed

lemma names_marks: "md_store (fst (add_send_log_names wr db)) = md_store db" "has_table (fst (add_send_log_names wr db)) ''watermarks'' = has_table db ''watermarks''"
  by (auto simp: add_send_log_names_def Let_def create_table_def has_table_def)

lemma late_migrations_marks:
  assumes "2 \<le> c" "run_migrations now migrations c db = (db1, version, applied, lines)"
  shows "db_mark db1 k = db_mark db k"
  using assms by (auto simp: migrations_def run_migration_def case_prod_beta Let_def db_mark_def find_mark_def names_marks split: if_splits)

lemma fill_lines_same:
  assumes "grown db db1" "\<And>k. db_mark db1 k = db_mark db k" "distinct (map fst (st_marks (md_store db)))"
  shows "map untensed (snd (fill_missing True now db1)) = snd (fill_missing False now' db)"
proof -
  have e: "copy_pairs db1 = copy_pairs db" "has_table db1 ''watermarks'' = has_table db ''watermarks''"
    using grown_copy_pairs [OF assms(1)] grown_tables(1) [OF assms(1)] by simp_all
  show ?thesis
    using fill_pairs_lines [of "copy_pairs db" True now db1] fill_pairs_lines [of "copy_pairs db" False now' db] distinct_copy_keys [OF assms(3)]
    by (simp add: fill_missing_def e unfilled_def assms(2))
qed

text \<open>All lines of the locked part, from any version.\<close>

lemma locked_foretold:
  assumes "distinct (map fst (st_marks (md_store db)))" "st_user_version (md_store db) = c"
    and "locked_part now db = (db2, version, applied, lines)"
  shows "applied = filter (\<lambda>v. c < v) migrations"
    and "map untensed lines = concat (map (\<lambda>v. snd (run_migration v False now' db)) (filter (\<lambda>v. c < v) migrations))
      @ (if fills version \<and> 2 \<notin> set (filter (\<lambda>v. c < v) migrations) then snd (fill_missing False now' db) else [])"
proof -
  obtain db1 v1 ap l1 where r: "run_migrations now migrations c db = (db1, v1, ap, l1)" by (metis prod_cases4)
  have l: "applied = ap" "version = v1" "lines = l1 @ (if fills v1 then snd (fill_missing True now db1) else [])"
    using assms(2,3) r by (auto simp: locked_part_def split: prod.splits if_splits)
  note m = migrations_foretold(1) [OF assms(1,2) r] migrations_foretold(2) [OF assms(1,2) r, of now']
  show "applied = filter (\<lambda>v. c < v) migrations" using m(1) l(1) by simp
  have two: "2 \<in> set (filter (\<lambda>v. c < v) migrations) \<longleftrightarrow> c < 2" by (auto simp: migrations_def)
  have "map untensed (snd (fill_missing True now db1)) = (if c < 2 then [] else snd (fill_missing False now' db))"
  proof (cases "c < 2")
    case True
    then show ?thesis using stands_filledD [OF split_then_filled [OF True r]] by simp
  next
    case False
    have "grown db db1" using run_migrations_grown [of db now migrations c] r by (metis fst_conv)
    then show ?thesis using fill_lines_same [OF _ late_migrations_marks [OF _ r] assms(1)] False by simp
  qed
  then show "map untensed lines = concat (map (\<lambda>v. snd (run_migration v False now' db)) (filter (\<lambda>v. c < v) migrations))
      @ (if fills version \<and> 2 \<notin> set (filter (\<lambda>v. c < v) migrations) then snd (fill_missing False now' db) else [])"
    using m(2) l two by auto
qed

lemma plan_agrees:
  assumes "grown db db1" "stands_filled db1" "dl_source_id d = [] \<or> dl_source_id d = old_source"
  shows "plan_retry db1 ctx False d = plan_retry db ctx True d"
proof -
  have om: "old_matches db1 d = old_matches db d"
    unfolding old_matches_def by (rule grown_filter [OF assms(1)]) (use assms(3) old_not_new in \<open>auto split: if_splits\<close>)
  then have ol: "old_last_id db1 d = old_last_id db d" by (simp add: old_last_id_def)
  obtain x wh where o: "old_last_id db d = (x, wh)" by (cases "old_last_id db d") blast
  show ?thesis
  proof (cases x)
    case (Inl i)
    from old_last_id_Inl [OF o [unfolded Inl]] obtain s e t m where m: "old_matches db d = [((s, e, t), m)]" "wh = (e, t)" by blast
    then have "((s, e, t), m) \<in> set (old_matches db1 d)" using om by simp
    then have "((s, e, t), m) \<in> set (old_records db1)" using assms(3) by (auto simp: old_matches_def old_records_def split: if_splits)
    then have "db_mark db1 (n, wh) \<noteq> None" if "n \<in> set (map snd new_pipelines)" for n
      using assms(2) that m(2) by (fastforce simp: stands_filled_def filled_def list_all_iff copy_pairs_def)
    then have "missing_producer_keys db1 wh = []" by (simp add: missing_producer_keys_def)
    then show ?thesis using Inl o ol by (simp add: plan_retry_def)
  qed (use o ol in \<open>simp add: plan_retry_def\<close>)
qed

lemma decide_total: "validate_ctx ctx \<Longrightarrow> \<exists>a. decide_retry ctx d hw = Ok a"
  by (auto simp: decide_retry_def validate_ctx_def new_pipelines_def Let_def split: option.splits)

lemma plan_flag: "validate_ctx ctx \<Longrightarrow> plan_retry db ctx b d = Ok a \<Longrightarrow> \<exists>a'. plan_retry db ctx b' d = Ok a'"
proof -
  assume v: "validate_ctx ctx" and p: "plan_retry db ctx b d = Ok a"
  obtain x wh where o: "old_last_id db d = (x, wh)" by (cases "old_last_id db d") blast
  show ?thesis
  proof (cases x)
    case (Inl i)
    then obtain hw where "sink_holds ctx i = Ok hw" using p o by (auto simp: plan_retry_def)
    then show ?thesis using Inl o decide_total [OF v] by (simp add: plan_retry_def)
  qed (use o decide_total [OF v] in \<open>simp add: plan_retry_def\<close>)
qed

lemma plans_flag:
  assumes "validate_ctx ctx" "plan_retries db ctx b = Ok plan"
  shows "\<exists>plan'. plan_retries db ctx b' = Ok plan'"
proof (cases "has_table db ''deliverables''")
  case True
  have "\<exists>a. plan_retry db ctx b' d = Ok a" if "d \<in> set (old_retries db)" for d
    using plan_retries_parts(2) [OF assms(2) True, of d] plan_flag [OF assms(1)] that by (auto simp: old_retries_def)
  then have "\<exists>ys. mapM_res (plan_retry db ctx b') (old_retries db) = Ok ys" by (intro mapM_res_exists ballI)
  then show ?thesis using True by (simp add: plan_retries_def)
qed (simp add: plan_retries_def)

lemma version_reached: "Max (set (c # filter (\<lambda>v. c < v) migrations)) = max c 3"
proof -
  consider "c < 1" | "c = 1" | "c = 2" | "3 \<le> c" by linarith
  then show ?thesis by cases (auto simp: migrations_def)
qed

lemma check_db_planned:
  assumes "has_table db ''watermarks''"
  shows "check_db now ctx db = (let c = st_user_version (md_store db); pending = filter (\<lambda>v. c < v) migrations;
      fill = (if fills (max c 3) \<and> 2 \<notin> set pending then snd (fill_missing False now db) else [])
    in map_res (\<lambda>plan. \<lparr>mr_from = c, mr_to = c, mr_applied = [], mr_pending = pending,
          mr_lines = concat (map (\<lambda>v. snd (run_migration v False now db)) pending) @ fill @ map (RetryLine False) plan,
          mr_would_write = (pending \<noteq> [] \<or> fill \<noteq> [] \<or> \<not> all_stay plan)\<rparr>)
        (plan_retries db ctx (fills (max c 3))))"
  unfolding check_db_def inspect_def if_P [OF assms] bind_res.simps Let_def version_reached ..

text \<open>A locked run that leaves the file as it was had nothing to do.\<close>

lemma unchanged_had_nothing:
  assumes l: "locked_part now db = (db2, version, applied, lines)" and pl: "plan_retries db2 ctx False = Ok plan"
    and same: "apply_retries plan db2 = db" and t: "has_table db ''watermarks''"
  shows "3 \<le> st_user_version (md_store db)" "fills (st_user_version (md_store db)) \<Longrightarrow> stands_filled db" "all_stay plan"
proof -
  note parts = locked_part_parts [OF l]
  have v: "version = st_user_version (md_store db)"
    using locked_part_version [OF l] arg_cong [OF same, of "\<lambda>x. st_user_version (md_store x)"] by simp
  then show "3 \<le> st_user_version (md_store db)" using parts(2) by simp
  show "stands_filled db" if "fills (st_user_version (md_store db))"
  proof -
    have "stands_filled db2" using parts(3) t v that by simp
    then have "stands_filled (apply_retries plan db2)" by (simp add: stands_filled_def filled_def copy_pairs_def)
    then show ?thesis by (simp add: same)
  qed
  show "all_stay plan"
  proof (cases "has_table db2 ''deliverables''")
    case True
    have q: "fold apply_retry plan (st_queue (md_store db2)) = st_queue (md_store db2)"
      using arg_cong [OF same, of "\<lambda>x. st_queue (md_store x)"] grown_queue [OF parts(1)] by simp
    note pp = plan_retries_parts [OF pl True]
    have "ra_kind a = StayPut" if a: "a \<in> set plan" for a
    proof -
      obtain d where d: "d \<in> set (st_queue (md_store db2))" "plan_retry db2 ctx False d = Ok a" "dl_pipeline d = old_pipeline"
        using pp(3) [OF a] by blast
      have "\<forall>a \<in> set plan. \<forall>p s. ra_kind a = MoveTo p s \<longrightarrow> p \<noteq> old_pipeline"
        using pp(3) plan_retry_move new_names by blast
      moreover have "d \<in> set (fold apply_retry plan (st_queue (md_store db2)))" unfolding q by (rule d(1))
      ultimately have "\<forall>a \<in> set plan. ra_id a = dl_id d \<longrightarrow> ra_kind a = StayPut"
        using fold_remaining d(3) by blast
      then show ?thesis using a plan_retry_id [OF d(2)] by metis
    qed
    then show ?thesis by (simp add: all_stay_def list_all_iff)
  qed (use pl in \<open>simp add: plan_retries_def all_stay_def\<close>)
qed

text \<open>The plan under the lock is the plan the check made.\<close>

lemma locked_plan_foretold:
  assumes l: "locked_part now db = (db2, version, applied, lines)" and t: "has_table db ''watermarks''"
    and "\<forall>d \<in> set (st_queue (md_store db)). dl_pipeline d = old_pipeline \<longrightarrow> dl_source_id d = [] \<or> dl_source_id d = old_source"
  shows "plan_retries db2 ctx False = plan_retries db ctx (fills (max (st_user_version (md_store db)) 3))"
proof (cases "fills (max (st_user_version (md_store db)) 3)")
  case fl: True
  have g: "grown db db2" "stands_filled db2" using locked_part_parts [OF l] t fl by simp_all
  have r: "old_retries db2 = old_retries db" using grown_queue [OF g(1)] by (simp add: old_retries_def)
  have "plan_retry db2 ctx False d = plan_retry db ctx True d" if "d \<in> set (old_retries db)" for d
    using plan_agrees [OF g] assms(3) that by (simp add: old_retries_def)
  then have "mapM_res (plan_retry db2 ctx False) (old_retries db2) = mapM_res (plan_retry db ctx True) (old_retries db)"
    unfolding r by (intro mapM_res_cong refl)
  then show ?thesis using fl grown_tables(2) [OF g(1)] by (simp add: plan_retries_def)
next
  case nf: False
  then have "3 < st_user_version (md_store db)" by (auto simp: fills_def max_def split: if_splits)
  then have "db2 = db" using l locked_part_done [of db now] nf by (simp add: max_def split: if_splits)
  then show ?thesis using nf by simp
qed

lemma db_foretold:
  assumes ck: "check_db now ctx db = Ok rep" and v: "validate_ctx ctx" and dis: "distinct (map fst (st_marks (md_store db)))"
    and src: "\<forall>d \<in> set (st_queue (md_store db)). dl_pipeline d = old_pipeline \<longrightarrow> dl_source_id d = [] \<or> dl_source_id d = old_source"
  shows "\<exists>db' rep'. migrate_db (\<lambda>x. x) now' ctx db = (db', Ok rep')
    \<and> map untensed (mr_lines rep') = mr_lines rep \<and> mr_applied rep' = mr_pending rep \<and> (mr_would_write rep \<longleftrightarrow> db' \<noteq> db)"
proof -
  define c where "c = st_user_version (md_store db)"
  define pending where "pending = filter (\<lambda>v. c < v) migrations"
  define fill where "fill = (if fills (max c 3) \<and> 2 \<notin> set pending then snd (fill_missing False now db) else [])"
  have t: "has_table db ''watermarks''" using ck by (simp add: check_db_def inspect_def split: if_splits)
  obtain plan where p: "plan_retries db ctx (fills (max c 3)) = Ok plan"
    and rep: "mr_pending rep = pending" "mr_lines rep = concat (map (\<lambda>v. snd (run_migration v False now db)) pending) @ fill @ map (RetryLine False) plan"
      "mr_would_write rep = (pending \<noteq> [] \<or> fill \<noteq> [] \<or> \<not> all_stay plan)"
    using ck unfolding check_db_planned [OF t] Let_def c_def [symmetric] pending_def [symmetric] fill_def [symmetric] map_res_Ok
    by (elim exE conjE) simp
  have n: "nothing_to_do ctx db \<longleftrightarrow> \<not> mr_would_write rep"
  proof (cases "3 \<le> c")
    case True
    then have e: "max c 3 = c" "pending = []" by (simp_all add: pending_def migrations_def)
    have "fill = (if fills c then snd (fill_missing False [] db) else [])" using fill_read [of now db "[]"] by (simp add: fill_def e)
    then show ?thesis using p t True unfolding rep(3) nothing_to_do_def Let_def c_def [symmetric] e by auto
  next
    case False
    then show ?thesis by (auto simp: rep(3) nothing_to_do_def Let_def c_def [symmetric] pending_def migrations_def)
  qed
  show ?thesis
  proof (cases "nothing_to_do ctx db")
    case True
    then have "pending = []" "fill = []" using n rep(3) by auto
    moreover from this have "max c 3 = c" by (simp add: pending_def migrations_def max_def split: if_splits)
    ultimately show ?thesis
      using migrate_db_planned [OF t, of ctx plan "\<lambda>x. x" now'] p True n rep unfolding c_def by simp
  next
    case False
    obtain plan0 where p0: "plan_retries db ctx (fills c) = Ok plan0" using plans_flag [OF v p] by blast
    obtain db2 version applied lines where l: "locked_part now' db = (db2, version, applied, lines)" by (metis prod_cases4)
    have pl: "plan_retries db2 ctx False = Ok plan" using locked_plan_foretold [OF l t src] p c_def by simp
    have m: "migrate_db (\<lambda>x. x) now' ctx db = (apply_retries plan db2, Ok \<lparr>mr_from = c, mr_to = version, mr_applied = applied, mr_pending = [],
        mr_lines = lines @ map (RetryLine True) plan, mr_would_write = False\<rparr>)"
      using migrate_db_planned [OF t p0 [unfolded c_def], of "\<lambda>x. x" now'] False l pl by (simp add: migrate_locked_def c_def)
    have "apply_retries plan db2 \<noteq> db"
    proof
      assume same: "apply_retries plan db2 = db"
      note u = unchanged_had_nothing [OF l pl same t]
      have "pending = []" using u(1) by (simp add: pending_def migrations_def c_def)
      moreover have "fill = []" using u(1,2) stands_filledD by (simp add: fill_def c_def max_def)
      ultimately show False using u(3) n False rep(3) by blast
    qed
    moreover have "map untensed (lines @ map (RetryLine True) plan) = mr_lines rep"
      using locked_foretold(2) [OF dis c_def [symmetric] l, of now] locked_part_parts(2) [OF l] by (simp add: rep(2) pending_def fill_def c_def)
    ultimately show ?thesis using m locked_foretold(1) [OF dis c_def [symmetric] l] rep n False by (simp add: pending_def)
  qed
qed

text \<open>C22: the check foretells the migration.  When every retry under the old name names the old source
  part or none, and the read-only check of a store returns, then a migration right after it returns,
  applies exactly the migrations named as pending, writes exactly the lines the check read but for
  their tense, and changes the file exactly when the check said it would.\<close>

theorem check_foretells_migrate:
  assumes "migrate as_root True between now ctx (StoreFile False db) = (f, Ok rep)"
    and "distinct (map fst (st_marks (md_store db)))"
    and "\<forall>d \<in> set (st_queue (md_store db)). dl_pipeline d = old_pipeline \<longrightarrow> dl_source_id d = [] \<or> dl_source_id d = old_source"
  shows "\<exists>db' rep'. migrate as_root False (\<lambda>x. x) now' ctx (StoreFile False db) = (StoreFile False db', Ok rep')
    \<and> map untensed (mr_lines rep') = mr_lines rep \<and> mr_applied rep' = mr_pending rep
    \<and> (mr_would_write rep \<longleftrightarrow> db' \<noteq> db)"
proof -
  have v: "validate_ctx ctx" using assms(1) by (auto simp: migrate_def split: if_splits)
  have ck: "check_db now ctx db = Ok rep" using assms(1) v by (simp add: migrate_def)
  from db_foretold [OF ck v assms(2,3)] obtain db' rep' where "migrate_db (\<lambda>x. x) now' ctx db = (db', Ok rep')"
    "map untensed (mr_lines rep') = mr_lines rep" "mr_applied rep' = mr_pending rep" "mr_would_write rep \<longleftrightarrow> db' \<noteq> db" by blast
  then show ?thesis using v by (intro exI [of _ db'] exI [of _ rep']) (simp add: migrate_def)
qed

end
