(* ===== verification/SchemaWitnesses.thy ===== *)
theory SchemaWitnesses
  imports SchemaCheck
begin

text \<open>
  Concrete stores: a shared pskreporter record with a queued retry, the cases the retry pass and the
  check get wrong, and the witnesses of the migration's properties.
\<close>

definition shared_key :: send_key where "shared_key = (old_source, ''pskreporter'', ''t'')"

definition mark_at :: "string \<Rightarrow> mark" where "mark_at c = \<lparr>mk_cursor = CBlob c, mk_last_ack = ''z''\<rparr>"

definition old_retry :: "string \<Rightarrow> deliverable" where
  "old_retry src = \<lparr>dl_id = 1, dl_pipeline = old_pipeline, dl_payload = ''p'', dl_enqueued_at = [], dl_attempts = 1, dl_next_attempt_at = [],
     dl_source_id = src, dl_dest_id = [], dl_table = [], dl_cursor_after = ''9'', dl_commit_token = []\<rparr>"

definition store_file_with :: "int \<Rightarrow> (send_key \<times> mark) list \<Rightarrow> deliverable list \<Rightarrow> mdb" where
  "store_file_with v marks q = \<lparr>md_tables = [''watermarks'', ''deliverables'', ''attempts''], md_attempt_cols = [],
     md_store = empty_file\<lparr>st_marks := marks, st_queue := q, st_user_version := v\<rparr>\<rparr>"

definition sink_row :: "nat \<Rightarrow> qrow" where
  "sink_row i = \<lparr>qr_id = i, qr_db = ''psk'', qr_table = ''spots'', qr_version = 2, qr_payload = Corrupt, qr_queued_at = [],
     qr_producer = [], qr_local = False\<rparr>"

definition with_sink :: "nat \<Rightarrow> migrate_ctx" where
  "with_sink i = \<lparr>mc_sink = Some (Ok \<lparr>sd_has_table = True, sd_has_producer = True, sd_has_local = True, sd_rows = [sink_row i], sd_next_id = 99\<rparr>), mc_keep = None\<rparr>"

definition old_store :: mdb where "old_store = store_file_with 1 [(shared_key, mark_at ''5'')] [old_retry []]"

text \<open>A retry goes though both producers stand past it.  The old record stands at row 5, the retry
  carries rows up to 9, both producer keys already stand at row 12, and the sink still holds row 4:
  the retry is deleted, and no pipeline reads its rows again.\<close>

theorem retry_deleted_past_the_producers:
  "let db = store_file_with 3 [(shared_key, mark_at ''5''), ((''sqlite:psk.spots@psk-recorder'', ''pskreporter'', ''t''), mark_at ''12''),
       ((''sqlite:psk.spots@meteor-scatter'', ''pskreporter'', ''t''), mark_at ''12'')] [old_retry []];
     (db', r) = migrate_db (\<lambda>x. x) [] (with_sink 4) db
   in st_queue (md_store db') = [] \<and> st_marks (md_store db') = st_marks (md_store db)"
  by code_simp

text \<open>The check may promise a delete the migration refuses.  A retry under the old name whose source
  part is another one matches a record the fill does not copy: the check says the retry would go, the
  migration leaves the file as it is.\<close>

theorem check_promises_a_delete:
  "let db = store_file_with 3 [((''sqlite:other'', ''pskreporter'', ''t''), mark_at ''5'')] [old_retry ''sqlite:other''] in
     map_res mr_would_write (check_db [] (with_sink 4) db) = Ok True \<and> fst (migrate_db (\<lambda>x. x) [] (with_sink 4) db) = db"
  by code_simp

text \<open>An empty file, checked or met by root, is refused as holding no store.\<close>

lemma empty_file_is_no_store:
  "map_prod id (map_res mr_to) (migrate as_root True between now (with_sink 4) ZeroBytes)
     = (ZeroBytes, Raise (Exn ''MigrateError'' ''holds no watermarks table, so it is not an hs-uploader watermark store''))"
  by (simp add: migrate_def validate_ctx_def with_sink_def check_db_def inspect_def no_tables_def has_table_def)

subsection \<open>Witnesses\<close>

lemma old_store_migrates: "is_ok (snd (migrate_db (\<lambda>x. x) [] (with_sink 4) old_store))"
  by code_simp

lemma old_store_result:
  obtains db' rep where "migrate_db (\<lambda>x. x) [] (with_sink 4) old_store = (db', Ok rep)"
    "mr_to rep = 3" "map fst (st_marks (md_store db')) = [shared_key, (''sqlite:psk.spots@psk-recorder'', ''pskreporter'', ''t''), (''sqlite:psk.spots@meteor-scatter'', ''pskreporter'', ''t'')]"
    "old_records db' = [(shared_key, mark_at ''5'')]" "st_queue (md_store db') = []"
proof -
  obtain db' r where e: "migrate_db (\<lambda>x. x) [] (with_sink 4) old_store = (db', r)" by fastforce
  obtain rep where r: "r = Ok rep" using old_store_migrates e by (cases r) auto
  have 1: "map_res mr_to (snd (migrate_db (\<lambda>x. x) [] (with_sink 4) old_store)) = Ok 3" by code_simp
  have 2: "map fst (st_marks (md_store (fst (migrate_db (\<lambda>x. x) [] (with_sink 4) old_store)))) = [shared_key, (''sqlite:psk.spots@psk-recorder'', ''pskreporter'', ''t''), (''sqlite:psk.spots@meteor-scatter'', ''pskreporter'', ''t'')]"
    by code_simp
  have 3: "old_records (fst (migrate_db (\<lambda>x. x) [] (with_sink 4) old_store)) = [(shared_key, mark_at ''5'')]" by code_simp
  have 4: "st_queue (md_store (fst (migrate_db (\<lambda>x. x) [] (with_sink 4) old_store))) = []" by code_simp
  show ?thesis using that [OF e [unfolded r]] 1 2 3 4 by (simp add: e r)
qed

theorem migrate_only_adds_copies_witness:
  "db_mark (fst (migrate_db (\<lambda>x. x) [] (with_sink 4) old_store)) shared_key = Some (mark_at ''5'')"
proof -
  obtain db' r where e: "migrate_db (\<lambda>x. x) [] (with_sink 4) old_store = (db', r)" by fastforce
  have "db_mark old_store shared_key = Some (mark_at ''5'')" by code_simp
  moreover have "\<forall>k m. db_mark old_store k = Some m \<longrightarrow> db_mark db' k = Some m" using migrate_only_adds_copies [OF e] by simp
  ultimately have "db_mark db' shared_key = Some (mark_at ''5'')" by blast
  then show ?thesis by (simp add: e)
qed

theorem migrate_leaves_no_key_missing_witness:
  "db_mark (fst (migrate_db (\<lambda>x. x) [] (with_sink 4) old_store)) (''sqlite:psk.spots@meteor-scatter'', ''pskreporter'', ''t'') \<noteq> None"
proof (rule old_store_result)
  fix db' rep assume e: "migrate_db (\<lambda>x. x) [] (with_sink 4) old_store = (db', Ok rep)" "mr_to rep = 3" "old_records db' = [(shared_key, mark_at ''5'')]"
  have t: "has_table old_store ''watermarks''" by code_simp
  have "fills (mr_to rep)" by (simp add: e(2) fills_def)
  from migrate_leaves_no_key_missing [OF e(1) this t] e(3) show ?thesis by (simp add: e(1) shared_key_def new_pipelines_def)
qed

theorem migrate_twice_is_once_witness:
  "\<exists>rep. migrate_db (\<lambda>x. x) ''2'' (with_sink 4) (fst (migrate_db (\<lambda>x. x) [] (with_sink 4) old_store))
     = (fst (migrate_db (\<lambda>x. x) [] (with_sink 4) old_store), Ok rep) \<and> mr_applied rep = []"
proof (rule old_store_result)
  fix db' rep assume e: "migrate_db (\<lambda>x. x) [] (with_sink 4) old_store = (db', Ok rep)"
  have t: "has_table old_store ''watermarks''" by code_simp
  from migrate_twice_is_once [OF e t, of "''2''"] show ?thesis by (simp add: e)
qed

theorem retry_kept_moved_or_proved_witness:
  "sink_proves (fst (migrate_locked [] (with_sink 4) old_store)) (with_sink 4) (old_retry [])"
proof -
  obtain db' r where e: "migrate_locked [] (with_sink 4) old_store = (db', r)" by fastforce
  have q: "st_queue (md_store (fst (migrate_locked [] (with_sink 4) old_store))) = []" by code_simp
  have "distinct (map dl_id (st_queue (md_store old_store)))" "has_table old_store ''deliverables''" "old_retry [] \<in> set (st_queue (md_store old_store))"
    by code_simp+
  from retry_kept_moved_or_proved [OF e this] q show ?thesis by (simp add: e)
qed

theorem check_foretells_migrate_witness:
  "\<exists>db' rep'. migrate True False (\<lambda>x. x) [] (with_sink 4) (StoreFile False old_store) = (StoreFile False db', Ok rep') \<and> db' \<noteq> old_store"
proof -
  obtain f r where e: "migrate True True (\<lambda>x. x) [] (with_sink 4) (StoreFile False old_store) = (f, r)" by fastforce
  have c: "map_res mr_would_write (snd (migrate True True (\<lambda>x. x) [] (with_sink 4) (StoreFile False old_store))) = Ok True" by code_simp
  then obtain rep where r: "r = Ok rep" "mr_would_write rep" using e by auto
  have "distinct (map fst (st_marks (md_store old_store)))" by code_simp
  moreover have "\<forall>d \<in> set (st_queue (md_store old_store)). dl_pipeline d = old_pipeline \<longrightarrow> dl_source_id d = [] \<or> dl_source_id d = old_source"
    by code_simp
  ultimately show ?thesis using check_foretells_migrate [OF e [unfolded r(1)], of "[]"] r(2) by blast
qed

end
