(* ===== verification/WsprCompletion.thy ===== *)
theory WsprCompletion
  imports SqliteLaws
begin

text \<open>
  When a WSPR cycle is done across all receivers, \<open>sources/wspr_completion.py\<close>: the completion query,
  the walk over the cycles past the cursor, and the backstop that lets a cycle go whose receivers
  never reported.

  A cycle is the text of its rows' \<open>time\<close>; SQL compares it as text.  \<open>strptime\<close> and
  \<open>fromisoformat\<close> are parameters: the first gives the second of an instant, the second the wall clock
  in microseconds and the offset from it, when there is one.
\<close>

record wspr_world =
  ww_json_text :: "pyval \<Rightarrow> string"
  ww_strptime :: "string \<Rightarrow> int option"
  ww_fromiso :: "string \<Rightarrow> (int \<times> int) option"
  ww_now :: int

definition cycle_seconds :: int where "cycle_seconds = 120"

text \<open>\<open>raw.split(",")\<close>, each token stripped, the empty ones dropped.\<close>

definition parse_expected_reporters :: "string option \<Rightarrow> string list" where
  "parse_expected_reporters raw = (case raw of None \<Rightarrow> [] | Some s \<Rightarrow> if s = [] then []
     else remdups (filter (\<lambda>t. t \<noteq> []) (map py_strip (split_on (CHR '','') s))))"

text \<open>\<open>now\<close> without its seconds, less a minute when the minute is odd; in seconds of the epoch.\<close>

definition current_cycle_floor :: "int \<Rightarrow> int" where
  "current_cycle_floor now_us = (let s = now_us div 1000000; m = s - s mod 60 in m - 60 * (m div 60 mod 60 mod 2))"

text \<open>\<open>strftime("%Y-%m-%dT%H:%M:%SZ")\<close>.\<close>

definition cycle_text :: "int \<Rightarrow> string" where "cycle_text s = Clock.fields (stamp iso_seps s) @ ''Z''"

subsection \<open>The queries\<close>

definition wspr_clause :: "string list \<Rightarrow> clause" where
  "wspr_clause tables r = Ok (Some (qr_db r = ''wspr'' \<and> qr_table r \<in> set tables))"

definition time_clause :: "wspr_world \<Rightarrow> string \<Rightarrow> string \<Rightarrow> clause" where
  "time_clause w op t r = map_res (\<lambda>v. sql_op op v (SText t)) (json_extract (ww_json_text w) ''time'' r)"

text \<open>What a text column of the result holds; any other value reads as no text.\<close>

definition text_of :: "wspr_world \<Rightarrow> string \<Rightarrow> qrow \<Rightarrow> string option" where
  "text_of w f r = (case json_extract (ww_json_text w) f r of Ok (SText t) \<Rightarrow> Some t | _ \<Rightarrow> None)"

definition select :: "clause list \<Rightarrow> sinkdb \<Rightarrow> qrow list res" where
  "select cs db = keep_rows (where_holds cs) (sd_rows db)"

text \<open>\<open>SELECT DISTINCT cycle ... ORDER BY cycle ASC\<close>: a value past a text in SQL's order is a text.\<close>

definition cycles_of :: "wspr_world \<Rightarrow> qrow list \<Rightarrow> string list" where
  "cycles_of w rs = sort (remdups (List.map_filter (text_of w ''time'') rs))"

definition cycle_query :: "wspr_world \<Rightarrow> clause list \<Rightarrow> string \<Rightarrow> string \<Rightarrow> string \<Rightarrow> sinkdb \<Rightarrow> string list res" where
  "cycle_query w extra lo op hi db = map_res (cycles_of w)
     (select (wspr_clause [''spots'', ''noise''] # extra @ [time_clause w ''>'' lo, time_clause w op hi]) db)"

text \<open>\<open>_present_reporters\<close>: the receivers with a noise row for the cycle.\<close>

definition present_reporters :: "wspr_world \<Rightarrow> sinkdb \<Rightarrow> string \<Rightarrow> string list res" where
  "present_reporters w db cycle = map_res (\<lambda>rs. filter (\<lambda>t. t \<noteq> []) (remdups (List.map_filter (text_of w ''rx_call'') rs)))
     (select [wspr_clause [''noise''], time_clause w ''='' cycle] db)"

definition cycle_complete :: "wspr_world \<Rightarrow> sinkdb \<Rightarrow> string \<Rightarrow> string list \<Rightarrow> bool res" where
  "cycle_complete w db cycle expected = (if expected = [] then Ok True
     else map_res (\<lambda>present. list_all (\<lambda>e. e \<in> set present) expected) (present_reporters w db cycle))"

subsection \<open>The walk\<close>

text \<open>\<open>_warn_once\<close>: a bounded first-in first-out memory.\<close>

definition warn_cap :: nat where "warn_cap = 256"

definition warn_once :: "string \<Rightarrow> string list \<Rightarrow> bool \<times> string list" where
  "warn_once cycle warned = (if cycle \<in> set warned then (False, warned)
     else (let ws = warned @ [cycle] in (True, drop (length ws - warn_cap) ws)))"

text \<open>The module's memory and the warnings: the cycle and the receivers missing.\<close>

record wspr_memory =
  wm_warned :: "string list"
  wm_log :: "(string \<times> string list) list"

definition force_warning :: "wspr_world \<Rightarrow> sinkdb \<Rightarrow> string list \<Rightarrow> string \<Rightarrow> wspr_memory \<Rightarrow> wspr_memory res" where
  "force_warning w db expected cycle m = (case warn_once cycle (wm_warned m) of
     (False, _) \<Rightarrow> Ok m
   | (True, ws) \<Rightarrow> map_res (\<lambda>present. m\<lparr>wm_warned := ws, wm_log := wm_log m @ [(cycle, sort (filter (\<lambda>e. e \<notin> set present) expected))]\<rparr>)
       (present_reporters w db cycle))"

definition force_before :: "wspr_world \<Rightarrow> rat \<Rightarrow> int" where
  "force_before w backstop = ww_now w - round_half_even ((of_int cycle_seconds + backstop) * 1000000)"

text \<open>A cycle may go when it is complete, when its text is no time, or past the backstop.\<close>

datatype verdict = Complete | NoTime | Expired | Waiting

definition judge_cycle :: "wspr_world \<Rightarrow> sinkdb \<Rightarrow> string list \<Rightarrow> int \<Rightarrow> string \<Rightarrow> verdict res" where
  "judge_cycle w db expected force cycle = map_res (\<lambda>done. if done then Complete
     else (case ww_strptime w cycle of None \<Rightarrow> NoTime
       | Some s \<Rightarrow> if s * 1000000 < force then Expired else Waiting)) (cycle_complete w db cycle expected)"

fun ceiling_walk :: "wspr_world \<Rightarrow> sinkdb \<Rightarrow> string list \<Rightarrow> int \<Rightarrow> string list \<Rightarrow> string option \<Rightarrow> wspr_memory
    \<Rightarrow> (string option \<times> wspr_memory) res" where
  "ceiling_walk w db expected force [] ceil m = Ok (ceil, m)"
| "ceiling_walk w db expected force (c # cs) ceil m = bind_res (judge_cycle w db expected force c) (\<lambda>v. case v of
     Waiting \<Rightarrow> Ok (ceil, m)
   | Expired \<Rightarrow> bind_res (force_warning w db expected c m) (\<lambda>m'. ceiling_walk w db expected force cs (Some c) m')
   | _ \<Rightarrow> ceiling_walk w db expected force cs (Some c) m)"

definition shippable_ceiling :: "wspr_world \<Rightarrow> sinkdb \<Rightarrow> string \<Rightarrow> string list \<Rightarrow> rat \<Rightarrow> wspr_memory
    \<Rightarrow> (string option \<times> wspr_memory) res" where
  "shippable_ceiling w db cursor expected backstop m =
     bind_res (cycle_query w [] cursor ''<'' (cycle_text (current_cycle_floor (ww_now w))) db) (\<lambda>cycles.
       ceiling_walk w db expected (force_before w backstop) cycles None m)"

subsection \<open>The walk ships a prefix\<close>

lemma current_cycle_floor_eq: "current_cycle_floor now = 120 * (now div 1000000 div 120)"
proof -
  define s where "s = now div 1000000"
  have m: "s - s mod 60 = 60 * (s div 60)" by (simp add: minus_mod_eq_mult_div)
  have "60 * (s div 60) div 60 mod 60 mod 2 = s div 60 mod 2" using mod_mod_cancel [of 2 60 "s div 60"] by simp
  moreover have "60 * (s div 60) - 60 * (s div 60 mod 2) = 120 * (s div 60 div 2)"
    using mult_div_mod_eq [of 2 "s div 60"] by linarith
  moreover have "s div 60 div 2 = s div 120" using zdiv_zmult2_eq [of 2 s 60] by simp
  ultimately show ?thesis by (simp add: current_cycle_floor_def Let_def s_def [symmetric] m)
qed

text \<open>What the walk lets pass.\<close>

definition may_go :: "wspr_world \<Rightarrow> sinkdb \<Rightarrow> string list \<Rightarrow> int \<Rightarrow> string \<Rightarrow> bool" where
  "may_go w db expected force c \<longleftrightarrow> (\<exists>v. judge_cycle w db expected force c = Ok v \<and> v \<noteq> Waiting)"

lemma ceiling_walk_prefix:
  "ceiling_walk w db expected force cs ceil m = Ok (ceil', m')
    \<Longrightarrow> \<exists>n. ceil' = (if n = 0 then ceil else Some (cs ! (n - 1))) \<and> n \<le> length cs
      \<and> (\<forall>c \<in> set (take n cs). may_go w db expected force c)
      \<and> (n < length cs \<longrightarrow> judge_cycle w db expected force (cs ! n) = Ok Waiting)"
proof (induction cs arbitrary: ceil m)
  case (Cons c cs)
  obtain v where v: "judge_cycle w db expected force c = Ok v" using Cons.prems by auto
  show ?case
  proof (cases "v = Waiting")
    case True
    then show ?thesis using Cons.prems v by (intro exI [of _ 0]) auto
  next
    case False
    then obtain m2 where "ceiling_walk w db expected force cs (Some c) m2 = Ok (ceil', m')"
      using Cons.prems v by (cases v) auto
    from Cons.IH [OF this] obtain n where n: "ceil' = (if n = 0 then Some c else Some (cs ! (n - 1)))" "n \<le> length cs"
      "\<forall>c \<in> set (take n cs). may_go w db expected force c" "n < length cs \<longrightarrow> judge_cycle w db expected force (cs ! n) = Ok Waiting" by blast
    have "may_go w db expected force c" using v False by (auto simp: may_go_def)
    then show ?thesis using n by (intro exI [of _ "Suc n"]) (auto simp: nth_Cons split: nat.split)
  qed
qed auto

lemma ceiling_walk_all:
  assumes "\<forall>c \<in> set cs. may_go w db expected force c" "ceiling_walk w db expected force cs ceil m = Ok (ceil', m')" "cs \<noteq> []"
  shows "ceil' = Some (last cs)"
proof -
  obtain n where n: "ceil' = (if n = 0 then ceil else Some (cs ! (n - 1)))" "n \<le> length cs"
    "n < length cs \<longrightarrow> judge_cycle w db expected force (cs ! n) = Ok Waiting"
    using ceiling_walk_prefix [OF assms(2)] by blast
  have "n = length cs"
  proof (rule ccontr)
    assume "n \<noteq> length cs"
    then have "n < length cs" using n(2) by simp
    then have "may_go w db expected force (cs ! n)" using assms(1) nth_mem by blast
    then show False using n(3) \<open>n < length cs\<close> by (simp add: may_go_def)
  qed
  then show ?thesis using n(1) assms(3) by (simp add: last_conv_nth)
qed

end
