(* ===== verification/WsprCycle.thy ===== *)
theory WsprCycle
  imports WsprCompletion
begin

text \<open>
  The cycle source, \<open>sources/wspr_cycle.py\<close>: one batch per WSPR cycle, of its spots and noise rows and,
  when configured, of the psk rows of the same two minutes whose producer's switch reads upload.

  A fetch is modelled whole: the cycles it finds, a batch for each until one raises.  What others write
  to the sink while the batches are consumed is not modelled.
\<close>

subsection \<open>Configuration and state\<close>

record wspr_conf =
  wc_ship_buffer :: int
  wc_start_beginning :: bool
  wc_expected :: "string list"
  wc_backstop :: rat
  wc_include_psk :: bool

text \<open>The switches as the source sees them; \<open>ws_check\<close> is an exception of the check itself.\<close>

record switch_world =
  ws_loads :: toml_loads
  ws_files :: files
  ws_lstat :: "string \<Rightarrow> lstat_result"
  ws_sinks_dir :: string
  ws_marker :: string
  ws_check :: "exn option"
  ws_clock :: rat

datatype rider_line = StaysOut string "sink_state option" | RidesAgain string | RiderCap | CheckFailed string

record rider_state =
  rs_left_out :: "(string \<times> bool) list"
  rs_cap_said :: bool
  rs_check_failed :: "(string \<times> rat) list"
  rs_log :: "rider_line list"
  rs_switch :: switch_mem

record wspr_state =
  wt_conn :: bool
  wt_local_column :: "bool option"
  wt_producer_column :: "bool option"
  wt_anchor :: "string option"
  wt_memory :: wspr_memory
  wt_riders :: rider_state

definition rider_cap :: nat where "rider_cap = 64"

definition rider_remind_s :: rat where "rider_remind_s = 6 * 3600"

definition wspr_source_id :: string where "wspr_source_id = ''sqlite:wspr.cycle''"

subsection \<open>Cursors\<close>

definition decode_error_ascii :: exn where "decode_error_ascii = Exn ''UnicodeDecodeError'' ''ascii''"

definition encode_cursor :: "string \<Rightarrow> bytes res" where
  "encode_cursor t = (if is_ascii t then Ok t else Raise (Exn ''UnicodeEncodeError'' ''ascii''))"

definition wspr_is_after :: comparator where
  "wspr_is_after new stored = Ok (stored = [] \<or> \<not> is_ascii new \<or> \<not> is_ascii stored \<or> stored < new)"

text \<open>\<open>_now_anchor\<close>: the floor, and the cycle before it.\<close>

definition now_anchor :: "int \<Rightarrow> int \<times> string" where
  "now_anchor now_us = (current_cycle_floor now_us, cycle_text (current_cycle_floor now_us - 120))"

definition effective_cursor :: "wspr_conf \<Rightarrow> int \<Rightarrow> bytes \<Rightarrow> wspr_state \<Rightarrow> wspr_state \<times> string res" where
  "effective_cursor c now_us cursor st = (if cursor \<noteq> [] then (st, if is_ascii cursor then Ok cursor else Raise decode_error_ascii)
     else if wc_start_beginning c then (st, Ok [])
     else (case wt_anchor st of Some a \<Rightarrow> (st, Ok a)
       | None \<Rightarrow> (let a = snd (now_anchor now_us) in (st\<lparr>wt_anchor := Some a\<rparr>, Ok a))))"

definition wspr_initial_cursor :: "wspr_conf \<Rightarrow> int \<Rightarrow> wspr_state \<Rightarrow> bytes option res" where
  "wspr_initial_cursor c now_us st = (if wc_start_beginning c then Ok None
     else map_res Some (encode_cursor (case wt_anchor st of Some a \<Rightarrow> a | None \<Rightarrow> snd (now_anchor now_us))))"

definition cycle_floor_iso :: "wspr_conf \<Rightarrow> int \<Rightarrow> string" where
  "cycle_floor_iso c now_us = cycle_text (current_cycle_floor now_us - wc_ship_buffer c)"

subsection \<open>The rider gate\<close>

text \<open>\<open>_note_rider\<close>.\<close>

definition note_rider :: "string \<Rightarrow> bool \<Rightarrow> sink_state option \<Rightarrow> rider_state \<Rightarrow> rider_state" where
  "note_rider producer rides state r = (let left_out = \<not> rides; known = map_of (rs_left_out r) producer in
     if (case known of None \<Rightarrow> False | Some b \<Rightarrow> b) = left_out then r
     else if known = None \<and> rider_cap \<le> length (rs_left_out r)
       then (if rs_cap_said r then r else r\<lparr>rs_cap_said := True, rs_log := rs_log r @ [RiderCap]\<rparr>)
     else r\<lparr>rs_left_out := dict_set producer left_out (rs_left_out r),
            rs_log := rs_log r @ [if left_out then StaysOut producer state else RidesAgain producer]\<rparr>)"

definition rider_producer :: "pyval \<times> string \<Rightarrow> string" where
  "rider_producer p = (if snd p = [] then infer_producer ''psk'' (fst p) else snd p)"

text \<open>The loop over the riders; \<open>verdict\<close> keeps one answer per producer.\<close>

fun judge_loop :: "switch_world \<Rightarrow> bool \<Rightarrow> (string \<times> bool) list \<Rightarrow> (pyval \<times> string) list \<Rightarrow> rider_state \<Rightarrow> rider_state \<times> bool list" where
  "judge_loop sw enforced verdict [] r = (r, [])"
| "judge_loop sw enforced verdict (p # ps) r = (let producer = rider_producer p in
     case map_of verdict producer of
       Some rides \<Rightarrow> (let (r', out) = judge_loop sw enforced verdict ps r in (r', rides # out))
     | None \<Rightarrow>
        (let (state, m) = (if enforced
             then (let (eff, m) = effective_state (ws_loads sw) (ws_files sw) (ws_sinks_dir sw) producer (rs_switch r) in (Some (ef_state eff), m))
             else (None, rs_switch r));
           rides = (state \<in> {None, Some Upload});
           r1 = note_rider producer rides state (r\<lparr>rs_switch := m\<rparr>);
           (r', out) = judge_loop sw enforced (dict_set producer rides verdict) ps r1
         in (r', rides # out)))"

definition check_failed :: "string \<Rightarrow> rat \<Rightarrow> rider_state \<Rightarrow> rider_state" where
  "check_failed kind now r = (let last_said = map_of (rs_check_failed r) kind in
     if (last_said = None \<and> length (rs_check_failed r) < rider_cap)
       \<or> (case last_said of None \<Rightarrow> False | Some t \<Rightarrow> rider_remind_s \<le> now - t)
     then r\<lparr>rs_check_failed := dict_set kind now (rs_check_failed r), rs_log := rs_log r @ [CheckFailed kind]\<rparr>
     else r)"

definition judge_riders :: "switch_world \<Rightarrow> (pyval \<times> string) list \<Rightarrow> rider_state \<Rightarrow> rider_state \<times> bool list" where
  "judge_riders sw riders r = (if riders = [] then (r, [])
     else (case ws_check sw of Some e \<Rightarrow> (check_failed (exn_type e) (ws_clock sw) r, replicate (length riders) False)
     | None \<Rightarrow> (let (enforced, m) = marker_stands (ws_lstat sw) (ws_marker sw) (rs_switch r); r1 = r\<lparr>rs_switch := m\<rparr> in
         if \<not> enforced \<and> \<not> list_ex snd (rs_left_out r) then (r1, replicate (length riders) True)
         else judge_loop sw enforced [] riders r1)))"

subsection \<open>A cycle's batch\<close>

text \<open>\<open>datetime.fromisoformat(text.replace("Z", "+00:00"))\<close>, in microseconds of the epoch.\<close>

definition replace_z :: "string \<Rightarrow> string" where
  "replace_z t = concat (map (\<lambda>c. if c = CHR ''Z'' then ''+00:00'' else [c]) t)"

definition parse_cycle :: "wspr_world \<Rightarrow> string \<Rightarrow> (int \<times> int) res" where
  "parse_cycle w t = (case ww_fromiso w (replace_z t) of Some x \<Rightarrow> Ok x
     | None \<Rightarrow> Raise (Exn ''ValueError'' ''Invalid isoformat string''))"

definition instant :: "int \<times> int \<Rightarrow> int" where "instant x = fst x - snd x"

text \<open>The row's own time, or the cycle's when the row's does not parse.  A time that is no text has no
  \<open>replace\<close>: only the loop over the psk rows catches that too.\<close>

definition row_time :: "wspr_world \<Rightarrow> bool \<Rightarrow> string \<Rightarrow> pydict \<Rightarrow> int res" where
  "row_time w lenient cycle d = (let fallback = map_res instant (parse_cycle w cycle) in case map_of d ''time'' of
     None \<Rightarrow> fallback
   | Some v \<Rightarrow> (case v of
       PStr t \<Rightarrow> (case parse_cycle w t of Ok x \<Rightarrow> Ok (instant x) | Raise _ \<Rightarrow> fallback)
     | _ \<Rightarrow> if lenient then fallback else Raise (Exn ''AttributeError'' ''object has no attribute replace'')))"

definition payload_dict :: "qrow \<Rightarrow> pydict" where
  "payload_dict r = (case qr_payload r of Doc (PDict d) \<Rightarrow> d | _ \<Rightarrow> [])"

definition cycle_record :: "wspr_world \<Rightarrow> bool \<Rightarrow> string \<Rightarrow> string \<Rightarrow> qrow \<Rightarrow> urecord res" where
  "cycle_record w lenient cycle table r = map_res (\<lambda>t. \<lparr>rec_table = table, rec_time = t, rec_columns = payload_dict r,
     rec_dedup_key = None, rec_payload_path = None\<rparr>) (row_time w lenient cycle (payload_dict r))"

definition wspr_local :: "wspr_state \<Rightarrow> clause list" where
  "wspr_local st = (if wt_local_column st = Some True then [\<lambda>r. Ok (Some (\<not> qr_local r))] else [])"

definition psk_clause :: clause where "psk_clause r = Ok (Some (qr_db r = ''psk'' \<and> qr_table r = ''spots''))"

definition next_cycle :: "wspr_world \<Rightarrow> string \<Rightarrow> string" where
  "next_cycle w cycle = (case parse_cycle w cycle of Ok x \<Rightarrow> cycle_text (fst x div 1000000 + 120) | Raise _ \<Rightarrow> cycle)"

definition rider_rows :: "wspr_world \<Rightarrow> sinkdb \<Rightarrow> wspr_state \<Rightarrow> string \<Rightarrow> qrow list res" where
  "rider_rows w db st cycle = select (psk_clause # wspr_local st
     @ [time_clause w ''>='' cycle, time_clause w ''<'' (next_cycle w cycle)]) db"

definition rider_of :: "wspr_state \<Rightarrow> qrow \<Rightarrow> pyval \<times> string" where
  "rider_of st r = (PDict (payload_dict r), if wt_producer_column st = Some True then qr_producer r else [])"

definition probe_riders :: "sinkdb \<Rightarrow> wspr_state \<Rightarrow> wspr_state" where
  "probe_riders db st = (case wt_producer_column st of Some _ \<Rightarrow> st
     | None \<Rightarrow> st\<lparr>wt_producer_column := Some (sd_has_producer db)\<rparr>)"

definition riding_rows :: "wspr_conf \<Rightarrow> wspr_world \<Rightarrow> switch_world \<Rightarrow> sinkdb \<Rightarrow> string \<Rightarrow> wspr_state \<Rightarrow> wspr_state \<times> qrow list res" where
  "riding_rows c w sw db cycle st = (if \<not> wc_include_psk c then (st, Ok [])
     else (let st1 = probe_riders db st in case rider_rows w db st1 cycle of
         Raise e \<Rightarrow> (st1, Raise e)
       | Ok rs \<Rightarrow> (let (r', rides) = judge_riders sw (map (rider_of st1) rs) (wt_riders st1)
           in (st1\<lparr>wt_riders := r'\<rparr>, Ok (map fst (filter snd (zip rs rides)))))))"

definition build_batch :: "wspr_conf \<Rightarrow> wspr_world \<Rightarrow> switch_world \<Rightarrow> sinkdb \<Rightarrow> string \<Rightarrow> wspr_state \<Rightarrow> wspr_state \<times> batch option res" where
  "build_batch c w sw db cycle st = (case bind_res
       (select (wspr_clause [''spots'', ''noise''] # wspr_local st @ [time_clause w ''='' cycle]) db)
       (mapM_res (\<lambda>r. cycle_record w False cycle (''wspr.'' @ qr_table r) r)) of
     Raise e \<Rightarrow> (st, Raise e)
   | Ok wspr \<Rightarrow> (case riding_rows c w sw db cycle st of
       (st1, Raise e) \<Rightarrow> (st1, Raise e)
     | (st1, Ok rs) \<Rightarrow> (st1, bind_res (mapM_res (cycle_record w True cycle ''psk.spots'') rs) (\<lambda>psk.
         if wspr @ psk = [] then Ok None
         else map_res (\<lambda>cur. Some \<lparr>bt_records = wspr @ psk, bt_cursor_after = cur, bt_commit_token = []\<rparr>)
           (encode_cursor cycle)))))"

subsection \<open>A fetch\<close>

definition wspr_connect :: "wspr_state \<Rightarrow> wspr_state" where
  "wspr_connect st = (if wt_conn st then st else st\<lparr>wt_conn := True, wt_local_column := None, wt_producer_column := None\<rparr>)"

definition probe_wspr_local :: "sinkdb \<Rightarrow> wspr_state \<Rightarrow> wspr_state" where
  "probe_wspr_local db st = (case wt_local_column st of Some _ \<Rightarrow> st
     | None \<Rightarrow> st\<lparr>wt_local_column := Some (sd_has_local db)\<rparr>)"

text \<open>The ceiling and whether it is included: the gated one is a cycle to ship, the other the cycle in
  progress.\<close>

definition fetch_ceiling :: "wspr_conf \<Rightarrow> wspr_world \<Rightarrow> sinkdb \<Rightarrow> string \<Rightarrow> wspr_memory \<Rightarrow> (string option \<times> wspr_memory) res" where
  "fetch_ceiling c w db cursor m = (if wc_expected c \<noteq> []
     then shippable_ceiling w db cursor (wc_expected c) (wc_backstop c) m
     else Ok (Some (cycle_floor_iso c (ww_now w)), m))"

definition ceiling_op :: "wspr_conf \<Rightarrow> string" where
  "ceiling_op c = (if wc_expected c \<noteq> [] then ''<='' else ''<'')"

fun build_all :: "wspr_conf \<Rightarrow> wspr_world \<Rightarrow> switch_world \<Rightarrow> sinkdb \<Rightarrow> string list \<Rightarrow> wspr_state \<Rightarrow> wspr_state \<times> batch list \<times> exn option" where
  "build_all c w sw db [] st = (st, [], None)"
| "build_all c w sw db (cycle # cs) st = (case build_batch c w sw db cycle st of
     (st1, Raise e) \<Rightarrow> (st1, [], Some e)
   | (st1, Ok None) \<Rightarrow> build_all c w sw db cs st1
   | (st1, Ok (Some b)) \<Rightarrow> (let (st2, bs, e) = build_all c w sw db cs st1 in (st2, b # bs, e)))"

definition fetch_cycles :: "wspr_conf \<Rightarrow> wspr_world \<Rightarrow> sinkdb \<Rightarrow> string \<Rightarrow> wspr_state \<Rightarrow> wspr_state \<times> string list res" where
  "fetch_cycles c w db cursor st = (case fetch_ceiling c w db cursor (wt_memory st) of
     Raise e \<Rightarrow> (st, Raise e)
   | Ok (None, m) \<Rightarrow> (st\<lparr>wt_memory := m\<rparr>, Ok [])
   | Ok (Some hi, m) \<Rightarrow> (let st1 = probe_wspr_local db (st\<lparr>wt_memory := m\<rparr>)
       in (st1, cycle_query w (wspr_local st1) cursor (ceiling_op c) hi db)))"

definition wspr_batches :: "wspr_conf \<Rightarrow> wspr_world \<Rightarrow> switch_world \<Rightarrow> bytes \<Rightarrow> sinkdb \<Rightarrow> wspr_state
    \<Rightarrow> wspr_state \<times> batch list \<times> exn option" where
  "wspr_batches c w sw cursor db st = (let st1 = wspr_connect st in
     if \<not> sd_has_table db then (st1, [], None)
     else (case effective_cursor c (ww_now w) cursor st1 of
         (st2, Raise e) \<Rightarrow> (st2, [], Some e)
       | (st2, Ok cur) \<Rightarrow> (case fetch_cycles c w db cur st2 of
           (st3, Raise e) \<Rightarrow> (st3, [], Some e)
         | (st3, Ok cycles) \<Rightarrow> build_all c w sw db cycles st3)))"

text \<open>\<open>commit\<close> is a no-op; \<open>close\<close> forgets the connection and with it the probes.\<close>

definition wspr_close :: "wspr_state \<Rightarrow> wspr_state" where "wspr_close st = st\<lparr>wt_conn := False\<rparr>"

end
