(* ===== verification/WsprLaws.thy ===== *)
theory WsprLaws
  imports WsprCycle SqliteCommit
begin

text \<open>
  The properties of the cycle source: what a fetch offers, that the completion gate ships a prefix and
  opens when nothing waits, which psk rows ride, and what stops it.
\<close>

subsection \<open>Queries\<close>

lemma select_Ok: "select cs db = Ok rs \<Longrightarrow> rs = filter (\<lambda>r. where_holds cs r = Ok True) (sd_rows db)"
  unfolding select_def by (rule keep_rows_Ok)

lemma key_order [simp]:
  "sql_op ''>'' (SText a) (SText b) = Some (b < a)" "sql_op ''<'' (SText a) (SText b) = Some (a < b)"
  "sql_op ''<='' (SText a) (SText b) = Some (a \<le> b)" "sql_op ''>='' (SText a) (SText b) = Some (b \<le> a)"
  "sql_op ''='' (SText a) (SText b) = Some (a = b)"
  by (simp_all add: sql_op_def Let_def)

lemma text_of_Some: "text_of w f r = Some t \<longleftrightarrow> json_extract (ww_json_text w) f r = Ok (SText t)"
  by (auto simp: text_of_def split: res.splits sqlval.splits)

lemma time_clause_text [simp]: "text_of w ''time'' r = Some t \<Longrightarrow> time_clause w op x r = Ok (sql_op op (SText t) (SText x))"
  by (simp add: text_of_Some time_clause_def)

lemma past_a_text: "sql_op ''>'' v (SText t) = Some True \<Longrightarrow> \<exists>s. v = SText s"
  by (cases v) (auto simp: sql_op_def Let_def split: if_splits)

lemma equal_a_text: "sql_op ''='' v (SText t) = Some True \<Longrightarrow> v = SText t"
  by (cases v) (auto simp: sql_op_def Let_def split: if_splits)

lemma time_past: "time_clause w ''>'' lo r = Ok (Some True) \<longleftrightarrow> (\<exists>t. text_of w ''time'' r = Some t \<and> lo < t)"
proof
  assume a: "time_clause w ''>'' lo r = Ok (Some True)"
  then obtain v where v: "json_extract (ww_json_text w) ''time'' r = Ok v" "sql_op ''>'' v (SText lo) = Some True"
    by (auto simp: time_clause_def)
  then obtain s where "v = SText s" using past_a_text by blast
  then show "\<exists>t. text_of w ''time'' r = Some t \<and> lo < t" using v by (auto simp: text_of_Some)
qed auto

lemma time_is: "time_clause w ''='' c r = Ok (Some True) \<longleftrightarrow> text_of w ''time'' r = Some c"
proof
  assume "time_clause w ''='' c r = Ok (Some True)"
  then obtain v where v: "json_extract (ww_json_text w) ''time'' r = Ok v" "sql_op ''='' v (SText c) = Some True"
    by (auto simp: time_clause_def)
  then show "text_of w ''time'' r = Some c" using equal_a_text [OF v(2)] by (simp add: text_of_Some)
qed auto

definition in_op :: "string \<Rightarrow> string \<Rightarrow> string \<Rightarrow> bool" where
  "in_op op t hi \<longleftrightarrow> (if op = ''<='' then t \<le> hi else t < hi)"

lemma cycle_query_Ok:
  assumes "cycle_query w extra lo op hi db = Ok cs" "op = ''<'' \<or> op = ''<=''"
  shows "sorted cs" "distinct cs"
    and "t \<in> set cs \<longleftrightarrow> (\<exists>r \<in> set (sd_rows db). wspr_clause [''spots'', ''noise''] r = Ok (Some True) \<and> (\<forall>c \<in> set extra. c r = Ok (Some True))
      \<and> text_of w ''time'' r = Some t \<and> lo < t \<and> in_op op t hi)"
proof -
  obtain rs where rs: "select (wspr_clause [''spots'', ''noise''] # extra @ [time_clause w ''>'' lo, time_clause w op hi]) db = Ok rs"
    and cs: "cs = cycles_of w rs" using assms(1) by (auto simp: cycle_query_def)
  show "sorted cs" "distinct cs" by (simp_all add: cs cycles_of_def)
  have o: "time_clause w op hi r = Ok (Some True) \<longleftrightarrow> in_op op t hi" if "text_of w ''time'' r = Some t" for r t
    using assms(2) that by (auto simp: in_op_def)
  show "t \<in> set cs \<longleftrightarrow> (\<exists>r \<in> set (sd_rows db). wspr_clause [''spots'', ''noise''] r = Ok (Some True) \<and> (\<forall>c \<in> set extra. c r = Ok (Some True))
      \<and> text_of w ''time'' r = Some t \<and> lo < t \<and> in_op op t hi)"
    unfolding cs cycles_of_def select_Ok [OF rs] using o
    by (auto simp: map_filter_def where_holds_iff time_past image_iff)
qed

subsection \<open>What a fetch offers\<close>

lemma wspr_rows_of_cycle:
  assumes "select (wspr_clause [''spots'', ''noise''] # wspr_local st @ [time_clause w ''='' cycle]) db = Ok rs"
  shows "rs = filter (\<lambda>r. qr_db r = ''wspr'' \<and> qr_table r \<in> {''spots'', ''noise''} \<and> (wt_local_column st = Some True \<longrightarrow> \<not> qr_local r)
    \<and> text_of w ''time'' r = Some cycle) (sd_rows db)"
  unfolding select_Ok [OF assms] where_holds_iff
  by (intro filter_cong refl) (auto simp: time_is wspr_clause_def wspr_local_def)

text \<open>The rows of a cycle a batch must carry.\<close>

definition cycle_rows :: "wspr_world \<Rightarrow> wspr_state \<Rightarrow> sinkdb \<Rightarrow> string \<Rightarrow> qrow list" where
  "cycle_rows w st db cycle = filter (\<lambda>r. qr_db r = ''wspr'' \<and> qr_table r \<in> {''spots'', ''noise''} \<and> (wt_local_column st = Some True \<longrightarrow> \<not> qr_local r)
    \<and> text_of w ''time'' r = Some cycle) (sd_rows db)"

lemma riding_rows_local: "riding_rows c w sw db cycle st = (st', r) \<Longrightarrow> wt_local_column st' = wt_local_column st"
proof -
  have "wt_local_column (probe_riders db st) = wt_local_column st" by (simp add: probe_riders_def split: option.split)
  then show "riding_rows c w sw db cycle st = (st', r) \<Longrightarrow> wt_local_column st' = wt_local_column st"
    by (auto simp: riding_rows_def Let_def split: res.splits prod.splits if_splits)
qed

lemma build_batch_local: "build_batch c w sw db cycle st = (st', r) \<Longrightarrow> wt_local_column st' = wt_local_column st"
  unfolding build_batch_def by (auto split: res.splits prod.splits dest: riding_rows_local simp del: bind_res_Ok)

lemma mapM_cycle_columns:
  "mapM_res (\<lambda>r. cycle_record w l cycle (f r) r) rs = Ok recs \<Longrightarrow> map rec_columns recs = map payload_dict rs \<and> map rec_table recs = map f rs"
proof (induction rs arbitrary: recs)
  case (Cons r rs)
  then show ?case by (auto simp: cycle_record_def)
qed simp

lemma build_batch_Some:
  assumes "build_batch c w sw db cycle st = (st', Ok (Some b))"
  shows "\<exists>wspr psk rs. bt_records b = wspr @ psk \<and> bt_cursor_after b = cycle
    \<and> map rec_columns wspr = map payload_dict (cycle_rows w st db cycle)
    \<and> map rec_table wspr = map (\<lambda>r. ''wspr.'' @ qr_table r) (cycle_rows w st db cycle)
    \<and> riding_rows c w sw db cycle st = (st', Ok rs) \<and> map rec_columns psk = map payload_dict rs \<and> set (map rec_table psk) \<subseteq> {''psk.spots''}"
proof -
  obtain rs0 wspr where 1: "select (wspr_clause [''spots'', ''noise''] # wspr_local st @ [time_clause w ''='' cycle]) db = Ok rs0"
    "mapM_res (\<lambda>r. cycle_record w False cycle (''wspr.'' @ qr_table r) r) rs0 = Ok wspr"
    using assms by (auto simp: build_batch_def split: res.splits)
  then obtain rs psk where 2: "riding_rows c w sw db cycle st = (st', Ok rs)" "mapM_res (cycle_record w True cycle ''psk.spots'') rs = Ok psk"
    "b = \<lparr>bt_records = wspr @ psk, bt_cursor_after = cycle, bt_commit_token = []\<rparr>"
    using assms by (auto simp: build_batch_def encode_cursor_def split: res.splits prod.splits if_splits)
  have c: "rs0 = cycle_rows w st db cycle" using wspr_rows_of_cycle [OF 1(1)] by (simp add: cycle_rows_def)
  have p: "map rec_columns psk = map payload_dict rs" "map rec_table psk = map (\<lambda>r. ''psk.spots'') rs"
    using mapM_cycle_columns [of w True cycle "\<lambda>r. ''psk.spots''"] 2(2) by blast+
  then have "set (map rec_table psk) \<subseteq> {''psk.spots''}" by auto
  then show ?thesis using 2 mapM_cycle_columns [OF 1(2)] c p(1) by auto
qed

text \<open>Each of a run of batches was built in a state with whatever the batches before keep.\<close>

lemma build_all_inv:
  assumes step: "\<And>cycle s s' r. P s \<Longrightarrow> build_batch c w sw db cycle s = (s', r) \<Longrightarrow> P s'"
  shows "build_all c w sw db cs st = (st', bs, e) \<Longrightarrow> P st \<Longrightarrow> b \<in> set bs
    \<Longrightarrow> \<exists>cycle st1 st2. cycle \<in> set cs \<and> P st1 \<and> build_batch c w sw db cycle st1 = (st2, Ok (Some b))"
proof (induction cs arbitrary: st st' bs e)
  case (Cons cycle cs)
  obtain st1 r where b1: "build_batch c w sw db cycle st = (st1, r)" by fastforce
  have l: "P st1" by (rule step [OF Cons.prems(2) b1])
  show ?case
  proof (cases r)
    case (Ok ob)
    obtain st2 bs' e' where rest: "build_all c w sw db cs st1 = (st2, bs', e')" by (metis prod_cases3)
    have bs: "bs = (case ob of None \<Rightarrow> bs' | Some b0 \<Rightarrow> b0 # bs')"
      using Cons.prems(1) b1 Ok rest by (auto split: option.splits)
    show ?thesis
    proof (cases "ob = Some b")
      case True
      then show ?thesis using b1 Ok Cons.prems(2) by auto
    next
      case False
      then have "b \<in> set bs'" using Cons.prems(3) bs by (auto split: option.splits)
      from Cons.IH [OF rest l this] show ?thesis by auto
    qed
  qed (use Cons.prems b1 in simp)
qed simp

lemma build_all_each:
  "build_all c w sw db cs st = (st', bs, e) \<Longrightarrow> b \<in> set bs
    \<Longrightarrow> \<exists>cycle st1 st2. cycle \<in> set cs \<and> wt_local_column st1 = wt_local_column st \<and> build_batch c w sw db cycle st1 = (st2, Ok (Some b))"
  by (rule build_all_inv [of "\<lambda>s. wt_local_column s = wt_local_column st"]) (auto dest: build_batch_local)

lemma build_batch_not_None:
  "build_batch c w sw db cycle st = (st', Ok ob) \<Longrightarrow> cycle_rows w st db cycle \<noteq> [] \<Longrightarrow> \<exists>b. ob = Some b \<and> bt_cursor_after b = cycle"
proof -
  assume b: "build_batch c w sw db cycle st = (st', Ok ob)" and n: "cycle_rows w st db cycle \<noteq> []"
  obtain rs wspr where 1: "select (wspr_clause [''spots'', ''noise''] # wspr_local st @ [time_clause w ''='' cycle]) db = Ok rs"
    "mapM_res (\<lambda>r. cycle_record w False cycle (''wspr.'' @ qr_table r) r) rs = Ok wspr"
    using b by (auto simp: build_batch_def split: res.splits)
  have "rs \<noteq> []" using n wspr_rows_of_cycle [OF 1(1)] by (simp add: cycle_rows_def)
  then have "wspr \<noteq> []" using mapM_res_length [OF 1(2)] by auto
  then show ?thesis using b 1 by (auto simp: build_batch_def encode_cursor_def split: res.splits prod.splits if_splits)
qed

lemma build_all_cursors:
  "build_all c w sw db cs st = (st', bs, e) \<Longrightarrow> \<forall>cycle \<in> set cs. cycle_rows w st db cycle \<noteq> []
    \<Longrightarrow> map bt_cursor_after bs = take (length bs) cs \<and> (e = None \<longrightarrow> length bs = length cs)
      \<and> (length bs < length cs \<longrightarrow> (\<exists>st1 st2 x. wt_local_column st1 = wt_local_column st \<and> build_batch c w sw db (cs ! length bs) st1 = (st2, Raise x)))"
proof (induction cs arbitrary: st st' bs e)
  case (Cons cycle cs)
  obtain st1 r where b1: "build_batch c w sw db cycle st = (st1, r)" by fastforce
  have l: "wt_local_column st1 = wt_local_column st" by (rule build_batch_local [OF b1])
  have cr: "cycle_rows w st1 db x = cycle_rows w st db x" for x by (simp add: cycle_rows_def l)
  show ?case
  proof (cases r)
    case (Ok ob)
    then obtain b where b: "ob = Some b" "bt_cursor_after b = cycle" using build_batch_not_None [OF b1 [unfolded Ok]] Cons.prems(2) by auto
    obtain st2 bs' e' where rest: "build_all c w sw db cs st1 = (st2, bs', e')" by (metis prod_cases3)
    have bs: "bs = b # bs'" "e = e'" using Cons.prems(1) b1 Ok rest b by auto
    have "\<forall>cycle \<in> set cs. cycle_rows w st1 db cycle \<noteq> []" using Cons.prems(2) cr by simp
    from Cons.IH [OF rest this] show ?thesis using bs b(2) l by auto
  next
    case (Raise x)
    then show ?thesis using Cons.prems b1 by auto
  qed
qed simp

lemma offered_has_table: "wspr_batches c w sw cursor db st = (st', bs, e) \<Longrightarrow> b \<in> set bs \<Longrightarrow> sd_has_table db"
  by (rule ccontr) (auto simp: wspr_batches_def Let_def)

lemma wspr_batches_parts:
  assumes "wspr_batches c w sw cursor db st = (st', bs, e)" "sd_has_table db"
    and "snd (effective_cursor c (ww_now w) cursor (wspr_connect st)) = Ok cur"
  obtains (failed) x where "bs = []" "e = Some x" "snd (fetch_cycles c w db cur (fst (effective_cursor c (ww_now w) cursor (wspr_connect st)))) = Raise x"
    | (fetched) st2 st3 cycles where "st2 = fst (effective_cursor c (ww_now w) cursor (wspr_connect st))"
      "fetch_cycles c w db cur st2 = (st3, Ok cycles)" "build_all c w sw db cycles st3 = (st', bs, e)"
proof -
  obtain st2 where ec: "effective_cursor c (ww_now w) cursor (wspr_connect st) = (st2, Ok cur)"
    using assms(3) by (cases "effective_cursor c (ww_now w) cursor (wspr_connect st)") auto
  obtain st3 r where f: "fetch_cycles c w db cur st2 = (st3, r)" by fastforce
  show ?thesis
  proof (cases r)
    case (Ok cycles)
    then show ?thesis using assms(1,2) ec f fetched [of st2 st3 cycles] by (simp add: wspr_batches_def Let_def)
  next
    case (Raise x)
    then show ?thesis using assms(1,2) ec f failed [of x] by (simp add: wspr_batches_def Let_def)
  qed
qed

definition wspr_row :: "qrow \<Rightarrow> bool" where
  "wspr_row r \<longleftrightarrow> qr_db r = ''wspr'' \<and> qr_table r \<in> {''spots'', ''noise''}"

definition shippable_row :: "wspr_state \<Rightarrow> qrow \<Rightarrow> bool" where
  "shippable_row st r \<longleftrightarrow> wspr_row r \<and> (wt_local_column st = Some True \<longrightarrow> \<not> qr_local r)"

lemma wspr_clause_row: "wspr_clause [''spots'', ''noise''] r = Ok (Some True) \<longleftrightarrow> wspr_row r"
  by (auto simp: wspr_clause_def wspr_row_def)

lemma local_clause_row: "(\<forall>c \<in> set (wspr_local st). c r = Ok (Some True)) \<longleftrightarrow> (wt_local_column st = Some True \<longrightarrow> \<not> qr_local r)"
  by (simp add: wspr_local_def)

lemma shippable_cycle: "cycle_rows w st db t = filter (\<lambda>r. shippable_row st r \<and> text_of w ''time'' r = Some t) (sd_rows db)"
  unfolding cycle_rows_def by (intro filter_cong refl) (auto simp: shippable_row_def wspr_row_def)

definition fetch_hi :: "wspr_conf \<Rightarrow> wspr_world \<Rightarrow> sinkdb \<Rightarrow> string \<Rightarrow> wspr_state \<Rightarrow> string option" where
  "fetch_hi c w db cur st = (case fetch_ceiling c w db cur (wt_memory st) of Ok (hi, m) \<Rightarrow> hi | Raise _ \<Rightarrow> None)"

lemma ceiling_op_cases: "ceiling_op c = ''<'' \<or> ceiling_op c = ''<=''"
  by (simp add: ceiling_op_def)

lemma fetched_cycles:
  assumes "fetch_cycles c w db cur st2 = (st3, Ok cycles)"
  shows "sorted cycles" "distinct cycles"
    and "t \<in> set cycles \<longleftrightarrow> (\<exists>hi. fetch_hi c w db cur st2 = Some hi \<and> cur < t \<and> in_op (ceiling_op c) t hi
      \<and> (\<exists>r \<in> set (sd_rows db). shippable_row st3 r \<and> text_of w ''time'' r = Some t))"
proof -
  obtain ho m where fc: "fetch_ceiling c w db cur (wt_memory st2) = Ok (ho, m)"
    using assms by (auto simp: fetch_cycles_def split: res.splits)
  have "sorted cycles \<and> distinct cycles \<and> (t \<in> set cycles \<longleftrightarrow> (\<exists>hi. fetch_hi c w db cur st2 = Some hi \<and> cur < t \<and> in_op (ceiling_op c) t hi
      \<and> (\<exists>r \<in> set (sd_rows db). shippable_row st3 r \<and> text_of w ''time'' r = Some t)))"
  proof (cases ho)
    case None
    then show ?thesis using assms fc by (simp add: fetch_cycles_def fetch_hi_def)
  next
    case (Some hi)
    then have q: "cycle_query w (wspr_local st3) cur (ceiling_op c) hi db = Ok cycles"
      using assms fc by (auto simp: fetch_cycles_def Let_def)
    show ?thesis
      using cycle_query_Ok [OF q ceiling_op_cases] fc Some
      unfolding wspr_clause_row local_clause_row by (auto simp: fetch_hi_def shippable_row_def)
  qed
  then show "sorted cycles" "distinct cycles"
    "t \<in> set cycles \<longleftrightarrow> (\<exists>hi. fetch_hi c w db cur st2 = Some hi \<and> cur < t \<and> in_op (ceiling_op c) t hi
      \<and> (\<exists>r \<in> set (sd_rows db). shippable_row st3 r \<and> text_of w ''time'' r = Some t))" by blast+
qed

lemma fetched_rows:
  "fetch_cycles c w db cur st2 = (st3, Ok cycles) \<Longrightarrow> \<forall>t \<in> set cycles. cycle_rows w st3 db t \<noteq> []"
  unfolding shippable_cycle filter_empty_conv using fetched_cycles(3) by blast

text \<open>The cycles of a fetch and the cursors of its batches.\<close>

lemma batch_cursors:
  assumes "fetch_cycles c w db cur st2 = (st3, Ok cycles)" "build_all c w sw db cycles st3 = (st', bs, e)"
  shows "map bt_cursor_after bs = take (length bs) cycles" "e = None \<Longrightarrow> map bt_cursor_after bs = cycles"
    and "b \<in> set bs \<Longrightarrow> bt_cursor_after b \<in> set cycles"
proof -
  from build_all_cursors [OF assms(2) fetched_rows [OF assms(1)]]
  have m: "map bt_cursor_after bs = take (length bs) cycles" "e = None \<longrightarrow> length bs = length cycles" by blast+
  show "map bt_cursor_after bs = take (length bs) cycles" by (rule m(1))
  show "map bt_cursor_after bs = cycles" if "e = None" using m that by simp
  show "bt_cursor_after b \<in> set cycles" if "b \<in> set bs"
  proof -
    have "bt_cursor_after b \<in> set (map bt_cursor_after bs)" using that by simp
    then show ?thesis unfolding m(1) by (rule in_set_takeD)
  qed
qed

text \<open>The state a fetch reads with, its probe of the local column made.\<close>

definition probed :: "sinkdb \<Rightarrow> wspr_state \<Rightarrow> wspr_state" where
  "probed db st = probe_wspr_local db (wspr_connect st)"

lemma effective_cursor_frames:
  "wt_memory (fst (effective_cursor c now cursor st)) = wt_memory st"
  "wt_local_column (fst (effective_cursor c now cursor st)) = wt_local_column st"
  by (simp_all add: effective_cursor_def Let_def split: option.split)

lemma connect_memory [simp]: "wt_memory (wspr_connect st) = wt_memory st"
  by (simp add: wspr_connect_def)

lemma probe_same: "wt_local_column st = wt_local_column st' \<Longrightarrow> wt_local_column (probe_wspr_local db st) = wt_local_column (probe_wspr_local db st')"
  by (simp add: probe_wspr_local_def split: option.split)

lemma probe_memory: "wt_local_column (probe_wspr_local db (st\<lparr>wt_memory := m\<rparr>)) = wt_local_column (probe_wspr_local db st)"
  by (rule probe_same) simp

lemma fetched_probe:
  assumes "fetch_cycles c w db cur st2 = (st3, Ok cycles)" "fetch_hi c w db cur st2 \<noteq> None"
  shows "wt_local_column st3 = wt_local_column (probe_wspr_local db st2)"
  using assms by (auto simp: fetch_cycles_def fetch_hi_def Let_def probe_memory split: res.splits option.splits prod.splits)

text \<open>C25: a batch is a cycle.  A fetch of the cycle source that raises nothing offers one batch for every
  cycle of a shippable row between the cursor and the ceiling, in order of time and each once; each
  batch first carries every shippable spot and noise row of its cycle, in queue order with its
  columns, and after them psk rows only.\<close>

theorem batches_are_cycles:
  assumes "wspr_batches c w sw cursor db st = (st', bs, None)" "sd_has_table db"
    and "snd (effective_cursor c (ww_now w) cursor (wspr_connect st)) = Ok cur"
  shows "sorted (map bt_cursor_after bs) \<and> distinct (map bt_cursor_after bs)
    \<and> set (map bt_cursor_after bs) = {t. \<exists>hi. fetch_hi c w db cur st = Some hi \<and> cur < t \<and> in_op (ceiling_op c) t hi
        \<and> (\<exists>r \<in> set (sd_rows db). shippable_row (probed db st) r \<and> text_of w ''time'' r = Some t)}
    \<and> (\<forall>b \<in> set bs. \<exists>wspr psk. bt_records b = wspr @ psk \<and> set (map rec_table psk) \<subseteq> {''psk.spots''}
        \<and> map rec_columns wspr = map payload_dict (cycle_rows w (probed db st) db (bt_cursor_after b)))"
proof (cases rule: wspr_batches_parts [OF assms])
  case (2 st2 st3 cycles)
  have m: "map bt_cursor_after bs = cycles" using batch_cursors(2) [OF 2(2,3)] by simp
  have fh: "fetch_hi c w db cur st2 = fetch_hi c w db cur st" by (simp add: fetch_hi_def 2(1) effective_cursor_frames)
  have l: "wt_local_column st3 = wt_local_column (probed db st)" if "fetch_hi c w db cur st \<noteq> None"
    using fetched_probe [OF 2(2)] that fh probe_same [of st2 "wspr_connect st" db] by (simp add: probed_def 2(1) effective_cursor_frames)
  have hi: "fetch_hi c w db cur st \<noteq> None" if "b \<in> set bs" for b
    using batch_cursors(3) [OF 2(2,3) that] fetched_cycles(3) [OF 2(2)] fh by auto
  have "\<exists>wspr psk. bt_records b = wspr @ psk \<and> set (map rec_table psk) \<subseteq> {''psk.spots''}
        \<and> map rec_columns wspr = map payload_dict (cycle_rows w (probed db st) db (bt_cursor_after b))" if b: "b \<in> set bs" for b
  proof -
    obtain cycle s1 s2 where x: "wt_local_column s1 = wt_local_column st3" "build_batch c w sw db cycle s1 = (s2, Ok (Some b))"
      using build_all_each [OF 2(3) b] by blast
    then have "cycle_rows w s1 db cycle = cycle_rows w (probed db st) db cycle" using l [OF hi [OF b]] by (simp add: cycle_rows_def)
    then show ?thesis using build_batch_Some [OF x(2)] by metis
  qed
  moreover have "set cycles = {t. \<exists>hi. fetch_hi c w db cur st = Some hi \<and> cur < t \<and> in_op (ceiling_op c) t hi
        \<and> (\<exists>r \<in> set (sd_rows db). shippable_row (probed db st) r \<and> text_of w ''time'' r = Some t)}"
  proof (cases "fetch_hi c w db cur st")
    case None
    then have "set cycles = {}" using fetched_cycles(3) [OF 2(2)] fh by (intro equals0I) simp
    then show ?thesis using None by simp
  next
    case (Some hi)
    then have "shippable_row st3 = shippable_row (probed db st)" using l by (simp add: shippable_row_def fun_eq_iff)
    then show ?thesis using fetched_cycles(3) [OF 2(2)] fh by (intro set_eqI) simp
  qed
  ultimately show ?thesis unfolding m using fetched_cycles(1,2) [OF 2(2)] by blast
qed simp

subsection \<open>The completion gate\<close>

lemma may_go_cases:
  "may_go w db expected force t \<Longrightarrow> cycle_complete w db t expected = Ok True \<or> ww_strptime w t = None
    \<or> (\<exists>s. ww_strptime w t = Some s \<and> s * 1000000 < force)"
  by (auto simp: may_go_def judge_cycle_def split: if_splits option.splits)

lemma ceiling_parts:
  assumes "fetch_ceiling c w db cur m = Ok (Some hi, m')" "wc_expected c \<noteq> []"
  obtains cycles n where "cycle_query w [] cur ''<'' (cycle_text (current_cycle_floor (ww_now w))) db = Ok cycles"
    "ceiling_walk w db (wc_expected c) (force_before w (wc_backstop c)) cycles None m = Ok (Some hi, m')"
    "0 < n" "n \<le> length cycles" "hi = cycles ! (n - 1)"
    "\<forall>t \<in> set (take n cycles). may_go w db (wc_expected c) (force_before w (wc_backstop c)) t"
proof -
  obtain cycles where q: "cycle_query w [] cur ''<'' (cycle_text (current_cycle_floor (ww_now w))) db = Ok cycles"
    and k: "ceiling_walk w db (wc_expected c) (force_before w (wc_backstop c)) cycles None m = Ok (Some hi, m')"
    using assms by (auto simp: fetch_ceiling_def shippable_ceiling_def)
  from ceiling_walk_prefix [OF k] obtain n where "Some hi = (if n = 0 then None else Some (cycles ! (n - 1)))" "n \<le> length cycles"
    "\<forall>t \<in> set (take n cycles). may_go w db (wc_expected c) (force_before w (wc_backstop c)) t" by blast
  then show ?thesis using that [OF q k, of n] by (cases n) auto
qed

lemma sorted_prefix: "sorted xs \<Longrightarrow> n \<le> length xs \<Longrightarrow> 0 < n \<Longrightarrow> t \<in> set xs \<Longrightarrow> distinct xs \<Longrightarrow> t \<le> xs ! (n - 1) \<Longrightarrow> t \<in> set (take n xs)"
proof -
  assume a: "sorted xs" "n \<le> length xs" "0 < n" "t \<in> set xs" "distinct xs" "t \<le> xs ! (n - 1)"
  obtain i where i: "i < length xs" "xs ! i = t" using a(4) by (auto simp: in_set_conv_nth)
  have "i \<le> n - 1"
  proof (rule ccontr)
    assume "\<not> i \<le> n - 1"
    then have "xs ! (n - 1) \<le> xs ! i" "n - 1 \<noteq> i" using sorted_nth_mono [OF a(1)] i(1) by auto
    then have "xs ! (n - 1) = xs ! i" using a(6) i(2) by simp
    then show False using nth_eq_iff_index_eq [OF a(5)] i(1) a(2,3) \<open>n - 1 \<noteq> i\<close> by simp
  qed
  then show ?thesis using i a(2,3) by (auto simp: in_set_conv_nth intro!: exI [of _ i])
qed

text \<open>C26: the gate ships a prefix.  With expected receivers set, a batch goes only for a cycle before the
  one in progress, and every cycle past the cursor up to it, of any row in the sink, is complete, or
  past the backstop, or has a text that is no time: no older cycle still waiting is jumped.\<close>

theorem gate_ships_a_prefix:
  assumes "wspr_batches c w sw cursor db st = (st', bs, e)" "wc_expected c \<noteq> []" "b \<in> set bs"
    and "snd (effective_cursor c (ww_now w) cursor (wspr_connect st)) = Ok cur"
    and "r \<in> set (sd_rows db)" "wspr_row r" "text_of w ''time'' r = Some t" "cur < t" "t \<le> bt_cursor_after b"
  shows "(cycle_complete w db t (wc_expected c) = Ok True \<or> ww_strptime w t = None
      \<or> (\<exists>s. ww_strptime w t = Some s \<and> s * 1000000 < force_before w (wc_backstop c)))
    \<and> bt_cursor_after b < cycle_text (current_cycle_floor (ww_now w))"
proof -
  have t: "sd_has_table db" using offered_has_table assms(1,3) by blast
  show ?thesis
  proof (cases rule: wspr_batches_parts [OF assms(1) t assms(4)])
    case (2 st2 st3 cycles)
    have "bt_cursor_after b \<in> set cycles" using batch_cursors(3) [OF 2(2,3) assms(3)] .
    then obtain hi where hi: "fetch_hi c w db cur st2 = Some hi" "bt_cursor_after b \<le> hi"
      using fetched_cycles(3) [OF 2(2)] assms(2) by (auto simp: in_op_def ceiling_op_def)
    then obtain m' where "fetch_ceiling c w db cur (wt_memory st2) = Ok (Some hi, m')"
      by (auto simp: fetch_hi_def split: res.splits prod.splits)
    from ceiling_parts [OF this assms(2)] obtain cs n where cs: "cycle_query w [] cur ''<'' (cycle_text (current_cycle_floor (ww_now w))) db = Ok cs"
      "0 < n" "n \<le> length cs" "hi = cs ! (n - 1)" "\<forall>t \<in> set (take n cs). may_go w db (wc_expected c) (force_before w (wc_backstop c)) t"
      by metis
    have mem: "x \<in> set cs \<longleftrightarrow> (\<exists>r \<in> set (sd_rows db). wspr_row r \<and> text_of w ''time'' r = Some x \<and> cur < x \<and> x < cycle_text (current_cycle_floor (ww_now w)))" for x
      using cycle_query_Ok(3) [OF cs(1)] by (simp add: in_op_def wspr_clause_row)
    have "hi \<in> set cs" using cs(2,3,4) by simp
    then have f: "hi < cycle_text (current_cycle_floor (ww_now w))" using mem by blast
    have "t \<le> hi" using assms(9) hi(2) by simp
    moreover have "t \<in> set cs" using mem assms(5-8) \<open>t \<le> hi\<close> f by fastforce
    ultimately have "t \<in> set (take n cs)"
      using sorted_prefix [of cs n t] cycle_query_Ok(1,2) [OF cs(1)] cs(2-4) by simp
    then show ?thesis using may_go_cases cs(5) hi(2) f by fastforce
  qed (use assms(3) in simp)
qed

text \<open>The gate opens when nothing waits.  When every cycle past the cursor and before the one in
  progress is complete, expired or without a time, the gated source finds exactly the cycles the
  source without expected receivers finds: a receiver that is down holds nothing past the backstop.\<close>

theorem gate_opens_when_nothing_waits:
  assumes "wc_expected c \<noteq> []" "wc_ship_buffer c = 0"
    and "\<forall>r \<in> set (sd_rows db). \<forall>t. wspr_row r \<and> text_of w ''time'' r = Some t \<and> cur < t \<and> t < cycle_text (current_cycle_floor (ww_now w))
        \<longrightarrow> may_go w db (wc_expected c) (force_before w (wc_backstop c)) t"
    and "fetch_cycles c w db cur st = (st1, Ok cycles)" "fetch_cycles (c\<lparr>wc_expected := []\<rparr>) w db cur st = (st2, Ok cycles')"
  shows "cycles = cycles'"
proof -
  let ?floor = "cycle_text (current_cycle_floor (ww_now w))"
  have hi': "fetch_hi (c\<lparr>wc_expected := []\<rparr>) w db cur st = Some ?floor" "ceiling_op (c\<lparr>wc_expected := []\<rparr>) = ''<''"
    using assms(2) by (simp_all add: fetch_hi_def fetch_ceiling_def cycle_floor_iso_def ceiling_op_def)
  note f = fetched_cycles [OF assms(4)] and f' = fetched_cycles [OF assms(5)]
  obtain ho m where fc: "fetch_ceiling c w db cur (wt_memory st) = Ok (ho, m)"
    using assms(4) by (auto simp: fetch_cycles_def split: res.splits)
  obtain cs where cs: "cycle_query w [] cur ''<'' ?floor db = Ok cs"
    and k: "ceiling_walk w db (wc_expected c) (force_before w (wc_backstop c)) cs None (wt_memory st) = Ok (ho, m)"
    using fc assms(1) by (auto simp: fetch_ceiling_def shippable_ceiling_def)
  have mem: "x \<in> set cs \<longleftrightarrow> (\<exists>r \<in> set (sd_rows db). wspr_row r \<and> text_of w ''time'' r = Some x \<and> cur < x \<and> x < ?floor)" for x
    using cycle_query_Ok(3) [OF cs] by (simp add: in_op_def wspr_clause_row)
  have lo: "wt_local_column st1 = wt_local_column st2" if "ho \<noteq> None"
    using assms(4,5) fc that assms(1) by (auto simp: fetch_cycles_def fetch_ceiling_def Let_def probe_wspr_local_def split: option.splits if_splits)
  have "set cycles = set cycles'"
  proof (cases "cs = []")
    case True
    then have "ho = None" using k by simp
    then have "cycles = []" using assms(4) fc by (simp add: fetch_cycles_def)
    moreover have "t \<notin> set cycles'" for t using f'(3) [of t] hi' mem [of t] True by (auto simp: in_op_def shippable_row_def)
    then have "set cycles' = {}" by (intro equals0I) blast
    ultimately show ?thesis by simp
  next
    case False
    have "\<forall>x \<in> set cs. may_go w db (wc_expected c) (force_before w (wc_backstop c)) x" using assms(3) mem by blast
    from ceiling_walk_all [OF this k False] have ho: "ho = Some (last cs)" .
    have le: "t \<le> last cs \<longleftrightarrow> t < ?floor" if "t \<in> set cs" for t
      using mem that sorted_wrt_le_nth_last [OF cycle_query_Ok(1) [OF cs]] by blast
    have h: "fetch_hi c w db cur st = Some (last cs)" by (simp add: fetch_hi_def fc ho)
    have s: "shippable_row st1 = shippable_row st2" using lo ho by (simp add: shippable_row_def fun_eq_iff)
    have last_in: "last cs < ?floor" using mem False last_in_set by blast
    have in_cs: "t \<in> set cs" if "r \<in> set (sd_rows db)" "shippable_row st2 r" "text_of w ''time'' r = Some t" "cur < t" "t < ?floor" for r t
      using mem that by (auto simp: shippable_row_def)
    show ?thesis
    proof (intro set_eqI iffI)
      fix t assume "t \<in> set cycles"
      then obtain r where r: "r \<in> set (sd_rows db)" "shippable_row st2 r" "text_of w ''time'' r = Some t" "cur < t" "t \<le> last cs"
        using f(3) h s assms(1) by (auto simp: in_op_def ceiling_op_def)
      then have "t < ?floor" using last_in by (rule_tac le_less_trans)
      then show "t \<in> set cycles'" using r f'(3) hi' by (auto simp: in_op_def)
    next
      fix t assume "t \<in> set cycles'"
      then obtain r where r: "r \<in> set (sd_rows db)" "shippable_row st2 r" "text_of w ''time'' r = Some t" "cur < t" "t < ?floor"
        using f'(3) hi' by (auto simp: in_op_def)
      then have "t \<le> last cs" using le in_cs by blast
      then show "t \<in> set cycles" using r f(3) h s assms(1) by (auto simp: in_op_def ceiling_op_def)
    qed
  qed
  then show ?thesis using f(1,2) f'(1,2) by (rule_tac sorted_distinct_set_unique)
qed

subsection \<open>What stops the source\<close>

lemma corrupt_raises: "qr_payload r = Corrupt \<Longrightarrow> \<exists>x. time_clause w op t r = Raise x"
  by (simp add: time_clause_def json_extract_def)

lemma keep_rows_raises: "r \<in> set rs \<Longrightarrow> p r = Raise x \<Longrightarrow> \<exists>y. keep_rows p rs = Raise y"
proof (induction rs)
  case (Cons a rs)
  then show ?case by (cases "p a"; cases "keep_rows p rs") auto
qed simp

lemma cycle_query_raises:
  assumes "r \<in> set (sd_rows db)" "wspr_row r" "qr_payload r = Corrupt" "\<forall>c \<in> set extra. c r = Ok (Some True)"
  shows "\<exists>x. cycle_query w extra lo op hi db = Raise x"
proof -
  obtain x where x: "time_clause w ''>'' lo r = Raise x" using corrupt_raises [OF assms(3)] by blast
  have "where_holds (es @ [time_clause w ''>'' lo, d]) r = Raise x" if "\<forall>c \<in> set es. c r = Ok (Some True)" for es d
    using that by (induction es) (simp_all add: x)
  from this [OF assms(4)] have "where_holds (wspr_clause [''spots'', ''noise''] # extra @ [time_clause w ''>'' lo, time_clause w op hi]) r = Raise x"
    using assms(2) by (simp add: wspr_clause_row [symmetric])
  from keep_rows_raises [of r "sd_rows db" "where_holds (wspr_clause [''spots'', ''noise''] # extra @ [time_clause w ''>'' lo, time_clause w op hi])" x, OF assms(1) this]
  show ?thesis by (auto simp: cycle_query_def select_def)
qed

text \<open>One corrupt row stops every cycle.  While the sink holds a spot or noise row, not marked local,
  whose payload is no JSON, a fetch offers no batch at all and raises, whatever the cursor, although
  the code that builds a batch means to pass over such a row.\<close>

theorem corrupt_row_stops_every_cycle:
  assumes "r \<in> set (sd_rows db)" "wspr_row r" "qr_payload r = Corrupt" "\<not> qr_local r" "sd_has_table db"
    and "snd (effective_cursor c (ww_now w) cursor (wspr_connect st)) = Ok cur"
  shows "\<exists>st' x. wspr_batches c w sw cursor db st = (st', [], Some x)"
proof -
  obtain st' bs e where b: "wspr_batches c w sw cursor db st = (st', bs, e)" by (metis prod_cases3)
  have "\<exists>x. snd (fetch_cycles c w db cur s) = Raise x" for s
  proof (cases "wc_expected c = []")
    case True
    have "\<forall>d \<in> set (wspr_local z). d r = Ok (Some True)" for z using assms(4) by (simp add: wspr_local_def)
    from cycle_query_raises [OF assms(1-3) this] True show ?thesis by (simp add: fetch_cycles_def fetch_ceiling_def Let_def)
  next
    case False
    have "\<exists>x. cycle_query w [] cur ''<'' (cycle_text (current_cycle_floor (ww_now w))) db = Raise x"
      by (rule cycle_query_raises [OF assms(1-3)]) simp
    then show ?thesis using False by (auto simp: fetch_cycles_def fetch_ceiling_def shippable_ceiling_def)
  qed
  then show ?thesis
    using wspr_batches_parts [OF b assms(5,6)] b by (metis res.distinct(1) snd_conv)
qed

lemma unparsed_row_time:
  assumes "ww_fromiso w (replace_z t) = None" "text_of w ''time'' r = Some t"
  shows "\<exists>x. row_time w False t (payload_dict r) = Raise x"
proof -
  obtain d where d: "qr_payload r = Doc (PDict d)" "sql_value (ww_json_text w) (py_get d ''time'') = SText t"
    using assms(2) by (auto simp: text_of_Some json_extract_def split: payload.splits pyval.splits)
  obtain v where v: "map_of d ''time'' = Some v" "sql_value (ww_json_text w) v = SText t"
    using d(2) by (auto simp: py_get_def split: option.splits)
  show ?thesis
    using v assms(1) d(1) by (cases v) (auto simp: row_time_def parse_cycle_def payload_dict_def)
qed

text \<open>A cycle text \<open>fromisoformat\<close> refuses stops the cycles behind it.  Every batch a fetch offers
  lies before such a cycle, so the send record never passes it, although the completion walk lets it go
  so that it should not wedge the source.\<close>

theorem unparsed_cycle_stops_the_rest:
  assumes "wspr_batches c w sw cursor db st = (st', bs, e)" "b \<in> set bs"
    and "snd (effective_cursor c (ww_now w) cursor (wspr_connect st)) = Ok cur"
    and "r \<in> set (sd_rows db)" "wspr_row r" "\<not> qr_local r" "text_of w ''time'' r = Some t" "cur < t"
    and "ww_fromiso w (replace_z t) = None"
  shows "bt_cursor_after b < t"
proof (rule ccontr)
  assume "\<not> bt_cursor_after b < t"
  then have le: "t \<le> bt_cursor_after b" by simp
  have tb: "sd_has_table db" using offered_has_table assms(1,2) by blast
  show False
  proof (cases rule: wspr_batches_parts [OF assms(1) tb assms(3)])
    case (2 st2 st3 cycles)
    have bc: "bt_cursor_after b \<in> set (map bt_cursor_after bs)" using assms(2) by simp
    have "bt_cursor_after b \<in> set cycles" using batch_cursors(3) [OF 2(2,3) assms(2)] .
    then obtain hi where hi: "fetch_hi c w db cur st2 = Some hi" "in_op (ceiling_op c) (bt_cursor_after b) hi"
      using fetched_cycles(3) [OF 2(2)] by blast
    have "in_op (ceiling_op c) t hi" using hi(2) le by (auto simp: in_op_def split: if_splits)
    moreover have "shippable_row st3 r" using assms(5,6) by (simp add: shippable_row_def)
    ultimately have tc: "t \<in> set cycles" using fetched_cycles(3) [OF 2(2)] hi(1) assms(4,7,8) by blast
    note m = batch_cursors(1) [OF 2(2,3)]
    obtain j where j: "j < length bs" "take (length bs) cycles ! j = bt_cursor_after b" using bc m
      by (metis in_set_conv_nth length_map)
    have "take (length bs) cycles = take (length bs) cycles" ..
    have "t \<in> set (take (Suc j) cycles)"
    proof (rule sorted_prefix)
      have "length (take (length bs) cycles) = length bs" using m by (metis length_map)
      then have "length bs \<le> length cycles" by simp
      then show "Suc j \<le> length cycles" using j(1) by simp
      show "t \<le> cycles ! (Suc j - 1)" using le j by simp
    qed (use fetched_cycles(1,2) [OF 2(2)] tc in simp_all)
    then have "t \<in> set (take (length bs) cycles)" using j(1) by (meson Suc_leI set_take_subset_set_take subsetD)
    then obtain b' where b': "b' \<in> set bs" "bt_cursor_after b' = t" unfolding m [symmetric] by auto
    obtain cycle s1 s2 where x: "wt_local_column s1 = wt_local_column st3" "build_batch c w sw db cycle s1 = (s2, Ok (Some b'))"
      using build_all_each [OF 2(3) b'(1)] by blast
    have cy: "cycle = t" using build_batch_Some [OF x(2)] b'(2) by auto
    obtain rs wspr where y: "select (wspr_clause [''spots'', ''noise''] # wspr_local s1 @ [time_clause w ''='' t]) db = Ok rs"
      "mapM_res (\<lambda>r. cycle_record w False t (''wspr.'' @ qr_table r) r) rs = Ok wspr"
      using x(2) cy by (auto simp: build_batch_def split: res.splits)
    have "r \<in> set rs" using wspr_rows_of_cycle [OF y(1)] assms(4-7) by (auto simp: wspr_row_def)
    moreover have "\<exists>z. cycle_record w False t (''wspr.'' @ qr_table r) r = Raise z"
      using unparsed_row_time [OF assms(9,7)] by (auto simp: cycle_record_def)
    ultimately have "\<exists>z. mapM_res (\<lambda>r. cycle_record w False t (''wspr.'' @ qr_table r) r) rs = Raise z"
      using mapM_res_Raise_iff by blast
    then show False using y(2) by simp
  qed (use assms(2) in simp)
qed


subsection \<open>The riders\<close>

text \<open>The state of a client's switch files, read afresh.\<close>

definition switch_state :: "switch_world \<Rightarrow> string \<Rightarrow> sink_state" where
  "switch_state sw client = (if \<not> valid_client_name client then Off
     else case declared (ws_loads sw) (ws_files sw) (switch_file (ws_sinks_dir sw) client) of
       None \<Rightarrow> Off
     | Some c \<Rightarrow> if no_file (ws_files sw) (switch_file (ws_sinks_dir sw) site) then c
         else (case declared (ws_loads sw) (ws_files sw) (switch_file (ws_sinks_dir sw) site) of None \<Rightarrow> Off | Some s \<Rightarrow> min c s))"

definition riders_fresh :: "switch_world \<Rightarrow> rider_state \<Rightarrow> bool" where
  "riders_fresh sw r \<longleftrightarrow> cache_fresh (ws_loads sw) (ws_files sw) (rs_switch r)"

lemma note_rider_switch [simp]: "rs_switch (note_rider p rides s r) = rs_switch r"
  by (simp add: note_rider_def Let_def)

lemma judge_loop_reads:
  assumes "riders_fresh sw r" "\<forall>p b. map_of verdict p = Some b \<longrightarrow> b = (switch_state sw p = Upload)"
  shows "riders_fresh sw (fst (judge_loop sw True verdict ps r))
    \<and> snd (judge_loop sw True verdict ps r) = map (\<lambda>p. switch_state sw (rider_producer p) = Upload) ps"
  using assms
proof (induction ps arbitrary: verdict r)
  case (Cons p ps)
  let ?p = "rider_producer p"
  show ?case
  proof (cases "map_of verdict ?p")
    case (Some b)
    then show ?thesis using Cons.IH [OF Cons.prems] Cons.prems(2) by (simp add: Let_def case_prod_beta)
  next
    case None
    obtain eff m where em: "effective_state (ws_loads sw) (ws_files sw) (ws_sinks_dir sw) ?p (rs_switch r) = (eff, m)" by fastforce
    have es: "ef_state eff = switch_state sw ?p" "cache_fresh (ws_loads sw) (ws_files sw) m"
      using effective_state_reads [of "ws_loads sw" "ws_files sw" "rs_switch r" "ws_sinks_dir sw" ?p] Cons.prems(1) em
      by (simp_all add: riders_fresh_def switch_state_def)
    define r1 where "r1 = note_rider ?p (ef_state eff = Upload) (Some (ef_state eff)) (r\<lparr>rs_switch := m\<rparr>)"
    have "riders_fresh sw r1" using es(2) by (simp add: r1_def riders_fresh_def)
    moreover have "\<forall>q b. map_of (dict_set ?p (ef_state eff = Upload) verdict) q = Some b \<longrightarrow> b = (switch_state sw q = Upload)"
      using Cons.prems(2) es(1) by simp
    ultimately have ih: "riders_fresh sw (fst (judge_loop sw True (dict_set ?p (ef_state eff = Upload) verdict) ps r1))
        \<and> snd (judge_loop sw True (dict_set ?p (ef_state eff = Upload) verdict) ps r1) = map (\<lambda>p. switch_state sw (rider_producer p) = Upload) ps"
      by (rule Cons.IH)
    show ?thesis using ih None em es(1) by (simp add: Let_def case_prod_beta r1_def)
  qed
qed simp

definition marker_there :: "switch_world \<Rightarrow> bool" where
  "marker_there sw \<longleftrightarrow> ws_lstat sw (ws_marker sw) \<notin> {LNoEnt, LNotDir}"

lemma marker_stands_reads:
  "fst (marker_stands (ws_lstat sw) (ws_marker sw) m) = marker_there sw"
  "sm_cache (snd (marker_stands (ws_lstat sw) (ws_marker sw) m)) = sm_cache m"
  by (simp_all add: marker_stands_def marker_there_def split: lstat_result.split)

lemma judge_riders_reads:
  assumes "riders_fresh sw r" "marker_there sw"
  shows "riders_fresh sw (fst (judge_riders sw riders r)) \<and> length (snd (judge_riders sw riders r)) = length riders
    \<and> (\<forall>i < length riders. snd (judge_riders sw riders r) ! i \<longrightarrow> switch_state sw (rider_producer (riders ! i)) = Upload)"
proof -
  obtain en m where mm: "marker_stands (ws_lstat sw) (ws_marker sw) (rs_switch r) = (en, m)" by fastforce
  have e: "en" "sm_cache m = sm_cache (rs_switch r)" using marker_stands_reads [of sw "rs_switch r"] mm assms(2) by simp_all
  have f: "riders_fresh sw (r\<lparr>rs_switch := m\<rparr>)" using assms(1) e(2) by (simp add: riders_fresh_def cache_fresh_def)
  have c: "riders_fresh sw (check_failed k t r)" for k t using assms(1) by (simp add: check_failed_def Let_def riders_fresh_def)
  note l = judge_loop_reads [OF f, of "[]" riders]
  show ?thesis using l mm e(1) c assms(1) by (auto simp: judge_riders_def split: option.split)
qed

lemma riding_rows_reads:
  assumes "riding_rows c w sw db cycle st = (st', q)" "riders_fresh sw (wt_riders st)" "marker_there sw"
  shows "riders_fresh sw (wt_riders st')"
    and "q = Ok rs \<Longrightarrow> r \<in> set rs \<Longrightarrow> r \<in> set (sd_rows db) \<and> where_holds (psk_clause # wspr_local (probe_riders db st) @ [time_clause w ''>='' cycle, time_clause w ''<'' (next_cycle w cycle)]) r = Ok True
      \<and> switch_state sw (rider_producer (rider_of (probe_riders db st) r)) = Upload"
proof -
  have p: "wt_riders (probe_riders db st) = wt_riders st" by (simp add: probe_riders_def split: option.split)
  show "riders_fresh sw (wt_riders st')"
    using assms(1) judge_riders_reads [OF assms(2,3)] assms(2)
    by (auto simp: riding_rows_def Let_def p case_prod_beta split: if_splits res.splits)
  assume q: "q = Ok rs" "r \<in> set rs"
  have i: "wc_include_psk c" using assms(1) q by (auto simp: riding_rows_def split: if_splits)
  then obtain rows where rows: "rider_rows w db (probe_riders db st) cycle = Ok rows"
    using assms(1) q by (auto simp: riding_rows_def Let_def split: res.splits)
  let ?js = "snd (judge_riders sw (map (rider_of (probe_riders db st)) rows) (wt_riders st))"
  have "rs = map fst (filter snd (zip rows ?js))"
    using assms(1) q i rows by (simp add: riding_rows_def Let_def p case_prod_beta)
  then have "(r, True) \<in> set (zip rows ?js)" using q(2) by auto
  then obtain k where k: "k < length rows" "rows ! k = r" "?js ! k" by (auto simp: in_set_zip)
  have "r \<in> set rows" using k by auto
  then have "r \<in> set (sd_rows db) \<and> where_holds (psk_clause # wspr_local (probe_riders db st) @ [time_clause w ''>='' cycle, time_clause w ''<'' (next_cycle w cycle)]) r = Ok True"
    using select_Ok [OF rows [unfolded rider_rows_def]] by simp
  moreover have "switch_state sw (rider_producer (rider_of (probe_riders db st) r)) = Upload"
  proof -
    have "\<forall>i < length rows. ?js ! i \<longrightarrow> switch_state sw (rider_producer (map (rider_of (probe_riders db st)) rows ! i)) = Upload"
      using judge_riders_reads [OF assms(2,3), of "map (rider_of (probe_riders db st)) rows"] by simp
    then show ?thesis using k by auto
  qed
  ultimately show "r \<in> set (sd_rows db) \<and> where_holds (psk_clause # wspr_local (probe_riders db st) @ [time_clause w ''>='' cycle, time_clause w ''<'' (next_cycle w cycle)]) r = Ok True
      \<and> switch_state sw (rider_producer (rider_of (probe_riders db st) r)) = Upload" by blast
qed

lemma build_batch_fresh:
  "riders_fresh sw (wt_riders st) \<Longrightarrow> marker_there sw \<Longrightarrow> build_batch c w sw db cycle st = (st', r) \<Longrightarrow> riders_fresh sw (wt_riders st')"
  unfolding build_batch_def by (auto split: res.splits prod.splits dest: riding_rows_reads(1) simp del: bind_res_Ok)

lemma build_all_fresh:
  "build_all c w sw db cs st = (st', bs, e) \<Longrightarrow> riders_fresh sw (wt_riders st) \<Longrightarrow> marker_there sw \<Longrightarrow> b \<in> set bs
    \<Longrightarrow> \<exists>cycle st1 st2. cycle \<in> set cs \<and> riders_fresh sw (wt_riders st1) \<and> build_batch c w sw db cycle st1 = (st2, Ok (Some b))"
  by (rule build_all_inv [of "\<lambda>s. riders_fresh sw (wt_riders s)"]) (auto dest: build_batch_fresh)

lemma fetch_riders [simp]:
  "wt_riders (fst (fetch_cycles c w db cur st)) = wt_riders st"
  "wt_riders (fst (effective_cursor c now cursor st)) = wt_riders st" "wt_riders (wspr_connect st) = wt_riders st"
  by (auto simp: fetch_cycles_def effective_cursor_def wspr_connect_def probe_wspr_local_def Let_def split: res.split option.split prod.split)

text \<open>A psk row rides only when its producer's switch reads upload.  While the carry-over marker
  stands, every psk record of every batch is a psk row of the sink within the cycle's two minutes
  whose producer, by its column or else by its mode, has a switch that reads upload with the site's.\<close>

theorem psk_rides_only_on_upload:
  assumes "wspr_batches c w sw cursor db st = (st', bs, e)" "b \<in> set bs" "rc \<in> set (bt_records b)" "rec_table rc = ''psk.spots''"
    and "snd (effective_cursor c (ww_now w) cursor (wspr_connect st)) = Ok cur"
    and "riders_fresh sw (wt_riders st)" "marker_there sw"
  shows "\<exists>r \<in> set (sd_rows db). \<exists>column. rec_columns rc = payload_dict r \<and> qr_db r = ''psk'' \<and> qr_table r = ''spots''
    \<and> time_clause w ''>='' (bt_cursor_after b) r = Ok (Some True) \<and> time_clause w ''<'' (next_cycle w (bt_cursor_after b)) r = Ok (Some True)
    \<and> column \<in> {[], qr_producer r} \<and> switch_state sw (rider_producer (PDict (payload_dict r), column)) = Upload"
proof -
  have tb: "sd_has_table db" using offered_has_table assms(1,2) by blast
  show ?thesis
  proof (cases rule: wspr_batches_parts [OF assms(1) tb assms(5)])
    case (2 st2 st3 cycles)
    have "wt_riders st3 = wt_riders st2" using fetch_riders(1) [of c w db cur st2] 2(2) by simp
    also have "\<dots> = wt_riders st" by (simp add: 2(1))
    finally have "wt_riders st3 = wt_riders st" .
    then have fr: "riders_fresh sw (wt_riders st3)" using assms(6) by simp
    from build_all_fresh [OF 2(3) fr assms(7,2)]
    obtain cycle s1 s2 where x: "riders_fresh sw (wt_riders s1)" "build_batch c w sw db cycle s1 = (s2, Ok (Some b))" by blast
    from build_batch_Some [OF x(2)] obtain wspr psk rs where y: "bt_records b = wspr @ psk" "bt_cursor_after b = cycle"
      "map rec_table wspr = map (\<lambda>r. ''wspr.'' @ qr_table r) (cycle_rows w s1 db cycle)"
      "riding_rows c w sw db cycle s1 = (s2, Ok rs)" "map rec_columns psk = map payload_dict rs"
      by (elim exE conjE) (rule that, assumption+)
    have "rc \<notin> set wspr"
    proof
      assume "rc \<in> set wspr"
      then have "''psk.spots'' \<in> set (map rec_table wspr)" using assms(4) by force
      then show False unfolding y(3) by auto
    qed
    then have "rc \<in> set psk" using assms(3) y(1) by simp
    then have "rec_columns rc \<in> set (map payload_dict rs)" unfolding y(5) [symmetric] by simp
    then obtain r where r: "r \<in> set rs" "rec_columns rc = payload_dict r" by auto
    let ?p = "probe_riders db s1"
    from riding_rows_reads(2) [OF y(4) x(1) assms(7) refl r(1)]
    have h: "r \<in> set (sd_rows db)" "switch_state sw (rider_producer (rider_of ?p r)) = Upload"
      "where_holds (psk_clause # wspr_local ?p @ [time_clause w ''>='' cycle, time_clause w ''<'' (next_cycle w cycle)]) r = Ok True" by blast+
    have "psk_clause r = Ok (Some True)" "time_clause w ''>='' cycle r = Ok (Some True)" "time_clause w ''<'' (next_cycle w cycle) r = Ok (Some True)"
      using h(3) unfolding where_holds_iff by simp_all
    then show ?thesis
      using h(1,2) r(2) y(2) by (intro bexI [of _ r] exI [of _ "if wt_producer_column ?p = Some True then qr_producer r else []"])
        (auto simp: psk_clause_def rider_of_def)
  qed (use assms(2) in simp)
qed

subsection \<open>Cursors\<close>

definition cycle_cursor :: "bytes \<Rightarrow> bool" where "cycle_cursor b \<longleftrightarrow> b \<noteq> [] \<and> is_ascii b"

interpretation wcur: cursor_order wspr_is_after cycle_cursor "\<lambda>b. b"
  by standard (simp add: wspr_is_after_def cycle_cursor_def)

lemma wspr_later_is_not_before: "cycle_cursor a \<Longrightarrow> cycle_cursor b \<Longrightarrow> wspr_is_after a b = Ok True \<Longrightarrow> wspr_is_after b a = Ok False"
  by (rule wcur.after_asym)

end
