(* ===== verification/WsprWitnesses.thy ===== *)
theory WsprWitnesses
  imports WsprLaws
begin

text \<open>A small sink of WSPR and psk rows, and the witnesses of the cycle source's properties.\<close>

definition small_wspr_world :: wspr_world where
  "small_wspr_world = \<lparr>ww_json_text = (\<lambda>v. []), ww_strptime = (\<lambda>t. Some (- 999)),
     ww_fromiso = (\<lambda>t. if t = ''12'' then None else Some (0, 0)), ww_now = 0\<rparr>"

definition small_rider_state :: rider_state where
  "small_rider_state = \<lparr>rs_left_out = [], rs_cap_said = False, rs_check_failed = [], rs_log = [],
     rs_switch = \<lparr>sm_cache = [], sm_logged = [], sm_log = []\<rparr>\<rparr>"

definition small_wspr_state :: wspr_state where
  "small_wspr_state = \<lparr>wt_conn = False, wt_local_column = None, wt_producer_column = None, wt_anchor = None,
     wt_memory = \<lparr>wm_warned = [], wm_log = []\<rparr>, wt_riders = small_rider_state\<rparr>"

definition small_wspr_conf :: "string list \<Rightarrow> wspr_conf" where
  "small_wspr_conf expected = \<lparr>wc_ship_buffer = 0, wc_start_beginning = True, wc_expected = expected, wc_backstop = 90, wc_include_psk = True\<rparr>"

definition small_switches :: switch_world where
  "small_switches = \<lparr>ws_loads = (\<lambda>b. Ok [(''state'', PStr ''upload'')]), ws_files = \<lparr>fs_stat = (\<lambda>p. Stat (0, 0, 0)), fs_read = (\<lambda>p. Content [])\<rparr>,
     ws_lstat = (\<lambda>p. Stands), ws_sinks_dir = [], ws_marker = ''m'', ws_check = None, ws_clock = 0\<rparr>"

definition small_row :: "nat \<Rightarrow> string \<Rightarrow> string \<Rightarrow> payload \<Rightarrow> qrow" where
  "small_row i d t p = \<lparr>qr_id = i, qr_db = d, qr_table = t, qr_version = 1, qr_payload = p, qr_queued_at = [], qr_producer = ''psk-recorder'', qr_local = False\<rparr>"

definition timed :: "string \<Rightarrow> payload" where "timed t = Doc (PDict [(''time'', PStr t), (''rx_call'', PStr ''A'')])"

definition small_sink :: "qrow list \<Rightarrow> sinkdb" where
  "small_sink rs = \<lparr>sd_has_table = True, sd_has_producer = True, sd_has_local = True, sd_rows = rs, sd_next_id = 9\<rparr>"

definition two_cycles :: sinkdb where
  "two_cycles = small_sink [small_row 1 ''wspr'' ''spots'' (timed ''10''), small_row 2 ''wspr'' ''noise'' (timed ''11''), small_row 3 ''psk'' ''spots'' (timed ''10'')]"

lemma small_floor: "cycle_text 0 = ''1970-01-01T00:00:00Z''" "cycle_text 120 = ''1970-01-01T00:02:00Z''" "current_cycle_floor 0 = 0"
  by code_simp+

lemmas small_defs = small_wspr_world_def small_rider_state_def small_wspr_state_def small_wspr_conf_def small_switches_def small_row_def
  timed_def small_sink_def two_cycles_def

lemmas fetch_defs = wspr_connect_def effective_cursor_def fetch_cycles_def fetch_ceiling_def cycle_floor_iso_def ceiling_op_def
  probe_wspr_local_def cycle_query_def cycles_of_def select_def wspr_clause_def time_clause_def json_extract_def py_get_def wspr_local_def text_of_def map_filter_def

lemma small_cycles:
  "snd (fetch_cycles (small_wspr_conf []) small_wspr_world two_cycles [] (wspr_connect small_wspr_state)) = Ok [''10'', ''11'']"
  by (simp add: small_defs fetch_defs small_floor)

lemmas build_defs = build_batch_def cycle_record_def row_time_def parse_cycle_def payload_dict_def encode_cursor_def is_ascii_def
  replace_z_def instant_def riding_rows_def probe_riders_def rider_rows_def psk_clause_def next_cycle_def rider_of_def

definition small_columns :: "string \<Rightarrow> pydict" where "small_columns t = [(''time'', PStr t), (''rx_call'', PStr ''A'')]"

definition small_judged :: rider_state where
  "small_judged = fst (judge_riders small_switches [(PDict (small_columns ''10''), ''psk-recorder'')] small_rider_state)"

lemma small_judge: "judge_riders small_switches [(PDict (small_columns ''10''), ''psk-recorder'')] small_rider_state = (small_judged, [True])"
proof (rule prod_eqI)
  show "snd (judge_riders small_switches [(PDict (small_columns ''10''), ''psk-recorder'')] small_rider_state) = snd (small_judged, [True])"
    by code_simp
qed (simp add: small_judged_def)

lemma judge_no_riders [simp]: "judge_riders sw [] r = (r, [])"
  by (simp add: judge_riders_def)

definition small_record :: "string \<Rightarrow> string \<Rightarrow> urecord" where
  "small_record table t = \<lparr>rec_table = table, rec_time = 0, rec_columns = small_columns t, rec_dedup_key = None, rec_payload_path = None\<rparr>"

definition small_batches :: "batch list" where
  "small_batches = [\<lparr>bt_records = [small_record ''wspr.spots'' ''10'', small_record ''psk.spots'' ''10''], bt_cursor_after = ''10'', bt_commit_token = []\<rparr>,
     \<lparr>bt_records = [small_record ''wspr.noise'' ''11''], bt_cursor_after = ''11'', bt_commit_token = []\<rparr>]"

lemma small_fetch: "\<exists>st'. wspr_batches (small_wspr_conf []) small_wspr_world small_switches [] two_cycles small_wspr_state = (st', small_batches, None)"
  using small_judge
  by (simp add: wspr_batches_def small_defs fetch_defs build_defs small_floor small_columns_def small_batches_def small_record_def)

subsection \<open>Witnesses\<close>

lemma small_cursor: "snd (effective_cursor (small_wspr_conf es) (ww_now small_wspr_world) [] (wspr_connect small_wspr_state)) = Ok []"
  by (simp add: effective_cursor_def small_wspr_conf_def)

lemma small_table: "sd_has_table two_cycles"
  by (simp add: two_cycles_def small_sink_def)

lemma batches_are_cycles_witness:
  "\<exists>st'. wspr_batches (small_wspr_conf []) small_wspr_world small_switches [] two_cycles small_wspr_state = (st', small_batches, None)
    \<and> map bt_cursor_after small_batches = [''10'', ''11''] \<and> sorted (map bt_cursor_after small_batches)"
proof -
  obtain st' where f: "wspr_batches (small_wspr_conf []) small_wspr_world small_switches [] two_cycles small_wspr_state = (st', small_batches, None)"
    using small_fetch by blast
  from batches_are_cycles [OF f small_table small_cursor] have "sorted (map bt_cursor_after small_batches)" by (rule conjunct1)
  then show ?thesis using f by (simp add: small_batches_def)
qed

lemma psk_rides_only_on_upload_witness:
  "\<exists>column. column \<in> {[], ''psk-recorder''} \<and> switch_state small_switches (rider_producer (PDict (small_columns ''10''), column)) = Upload"
proof -
  obtain st' where f: "wspr_batches (small_wspr_conf []) small_wspr_world small_switches [] two_cycles small_wspr_state = (st', small_batches, None)"
    using small_fetch by blast
  have r: "riders_fresh small_switches (wt_riders small_wspr_state)" "marker_there small_switches"
    by (simp_all add: riders_fresh_def cache_fresh_def marker_there_def small_defs)
  have b: "hd small_batches \<in> set small_batches" "small_record ''psk.spots'' ''10'' \<in> set (bt_records (hd small_batches))"
    "rec_table (small_record ''psk.spots'' ''10'') = ''psk.spots''" "rec_columns (small_record ''psk.spots'' ''10'') = small_columns ''10''"
    by (simp_all add: small_batches_def small_record_def)
  from psk_rides_only_on_upload [OF f b(1,2,3) small_cursor r]
  obtain q column where q: "q \<in> set (sd_rows two_cycles)" "small_columns ''10'' = payload_dict q" "column \<in> {[], qr_producer q}"
    "switch_state small_switches (rider_producer (PDict (payload_dict q), column)) = Upload"
    unfolding b(4) by blast
  have "qr_producer q = ''psk-recorder''" using q(1) by (auto simp: small_defs)
  then show ?thesis using q by auto
qed

lemma corrupt_row_stops_every_cycle_witness:
  "\<exists>st' x. wspr_batches (small_wspr_conf []) small_wspr_world small_switches [] (small_sink [small_row 1 ''wspr'' ''spots'' Corrupt]) small_wspr_state = (st', [], Some x)"
  by (rule corrupt_row_stops_every_cycle [where r = "small_row 1 ''wspr'' ''spots'' Corrupt", OF _ _ _ _ _ small_cursor])
    (simp_all add: small_sink_def small_row_def wspr_row_def)

definition past_unparsed :: sinkdb where
  "past_unparsed = small_sink [small_row 1 ''wspr'' ''spots'' (timed ''11''), small_row 2 ''wspr'' ''spots'' (timed ''12'')]"

lemma unparsed_fetch: "\<exists>st' b x. wspr_batches (small_wspr_conf []) small_wspr_world small_switches [] past_unparsed small_wspr_state = (st', [b], Some x)"
  by (simp add: wspr_batches_def past_unparsed_def small_defs fetch_defs build_defs small_floor)

lemma unparsed_cycle_stops_the_rest_witness:
  "\<exists>st' b x. wspr_batches (small_wspr_conf []) small_wspr_world small_switches [] past_unparsed small_wspr_state = (st', [b], Some x)
    \<and> bt_cursor_after b < ''12''"
proof -
  obtain st' b x where f: "wspr_batches (small_wspr_conf []) small_wspr_world small_switches [] past_unparsed small_wspr_state = (st', [b], Some x)"
    using unparsed_fetch by blast
  have "bt_cursor_after b < ''12''"
    by (rule unparsed_cycle_stops_the_rest [OF f _ small_cursor, where r = "small_row 2 ''wspr'' ''spots'' (timed ''12'')"])
      (simp_all add: past_unparsed_def small_defs wspr_row_def text_of_def json_extract_def py_get_def replace_z_def)
  then show ?thesis using f by blast
qed

subsection \<open>Behind the gate\<close>

lemmas gate_defs = shippable_ceiling_def judge_cycle_def cycle_complete_def present_reporters_def force_warning_def warn_once_def warn_cap_def
  force_before_def cycle_seconds_def

lemma small_round: "round_half_even 210000000 = 210000000" by code_simp

lemma gated_fetch: "\<exists>st'. wspr_batches (small_wspr_conf [''A'']) small_wspr_world small_switches [] two_cycles small_wspr_state = (st', small_batches, None)"
  using small_judge
  by (simp add: wspr_batches_def small_defs fetch_defs build_defs gate_defs small_floor small_round small_columns_def small_batches_def small_record_def)

lemma gate_ships_a_prefix_witness:
  "(cycle_complete small_wspr_world two_cycles ''10'' [''A''] = Ok True \<or> ww_strptime small_wspr_world ''10'' = None
      \<or> (\<exists>s. ww_strptime small_wspr_world ''10'' = Some s \<and> s * 1000000 < force_before small_wspr_world 90))
    \<and> ''11'' < cycle_text (current_cycle_floor 0)"
proof -
  obtain st' where f: "wspr_batches (small_wspr_conf [''A'']) small_wspr_world small_switches [] two_cycles small_wspr_state = (st', small_batches, None)"
    using gated_fetch by blast
  have p: "wc_expected (small_wspr_conf [''A'']) = [''A'']" "wc_backstop (small_wspr_conf [''A'']) = 90"
    "bt_cursor_after (last small_batches) = ''11''" "ww_now small_wspr_world = 0" "last small_batches \<in> set small_batches"
    by (simp_all add: small_wspr_conf_def small_batches_def small_wspr_world_def)
  show ?thesis
    by (rule gate_ships_a_prefix [OF f _ p(5) small_cursor, unfolded p, of "small_row 1 ''wspr'' ''spots'' (timed ''10'')"])
      (simp_all add: small_defs wspr_row_def text_of_def json_extract_def py_get_def)
qed

lemma small_gated_cycles:
  "fetch_cycles (small_wspr_conf [''A'']) small_wspr_world two_cycles [] (wspr_connect small_wspr_state)
     = (fst (fetch_cycles (small_wspr_conf [''A'']) small_wspr_world two_cycles [] (wspr_connect small_wspr_state)), Ok [''10'', ''11''])"
  by (simp add: prod_eq_iff) (simp add: small_defs fetch_defs gate_defs small_floor small_round)

lemma small_verdicts:
  "judge_cycle small_wspr_world two_cycles [''A''] (force_before small_wspr_world 90) ''10'' = Ok Expired"
  "judge_cycle small_wspr_world two_cycles [''A''] (force_before small_wspr_world 90) ''11'' = Ok Complete"
  by (simp_all add: small_defs fetch_defs gate_defs small_round)

lemma small_times: "r \<in> set (sd_rows two_cycles) \<Longrightarrow> text_of small_wspr_world ''time'' r = Some t \<Longrightarrow> t = ''10'' \<or> t = ''11''"
  by (auto simp: small_defs text_of_def json_extract_def py_get_def)

lemma gate_opens_when_nothing_waits_witness:
  "snd (fetch_cycles (small_wspr_conf []) small_wspr_world two_cycles [] (wspr_connect small_wspr_state)) = Ok [''10'', ''11'']
    \<and> [''10'', ''11''] = [''10'', ''11'' :: string]"
proof -
  have e: "(small_wspr_conf [''A''])\<lparr>wc_expected := []\<rparr> = small_wspr_conf []" by (simp add: small_wspr_conf_def)
  obtain st2 where u: "fetch_cycles ((small_wspr_conf [''A''])\<lparr>wc_expected := []\<rparr>) small_wspr_world two_cycles [] (wspr_connect small_wspr_state) = (st2, Ok [''10'', ''11''])"
    using small_cycles unfolding e by (metis prod.collapse)
  have "[''10'', ''11''] = [''10'', ''11'' :: string]"
  proof (rule gate_opens_when_nothing_waits [OF _ _ _ small_gated_cycles u])
    show "\<forall>r \<in> set (sd_rows two_cycles). \<forall>t. wspr_row r \<and> text_of small_wspr_world ''time'' r = Some t \<and> [] < t
        \<and> t < cycle_text (current_cycle_floor (ww_now small_wspr_world))
        \<longrightarrow> may_go small_wspr_world two_cycles (wc_expected (small_wspr_conf [''A''])) (force_before small_wspr_world (wc_backstop (small_wspr_conf [''A'']))) t"
      using small_verdicts small_times by (fastforce simp: may_go_def small_wspr_conf_def)
  qed (simp_all add: small_wspr_conf_def)
  then show ?thesis using small_cycles by simp
qed

end
