(* ===== verification/FileWitnesses.thy ===== *)
theory FileWitnesses
  imports FileLaws
begin

text \<open>A small spool, and the witnesses of the file source's properties.\<close>

definition small_file_world :: file_world where
  "small_file_world = \<lparr>fw_order = remdups, fw_float = (\<lambda>_. NoFloat), fw_locked = (\<lambda>_. False)\<rparr>"

definition small_file_conf :: "bool \<Rightarrow> file_conf" where
  "small_file_conf keep = \<lparr>fc_root = [''s''], fc_specs = [\<lparr>fs_pattern = ''*'', fs_parser = None, fs_table = ''f''\<rparr>],
     fc_keep = keep, fc_source_id = None, fc_prune = True, fc_match_dirs = False\<rparr>"

definition small_node :: "fpath \<Rightarrow> fkind \<Rightarrow> int \<Rightarrow> fnode" where
  "small_node p k m = \<lparr>fn_path = p, fn_kind = k, fn_mtime_ns = m, fn_mtime = 0\<rparr>"

definition small_tree :: "int \<Rightarrow> ftree" where
  "small_tree m = [small_node [''s''] Folder 1, small_node [''s'', ''d''] Folder 2,
     small_node [''s'', ''d'', ''a''] (Contents []) 5, small_node [''s'', ''b''] (Contents []) m]"

lemmas small_file_defs = small_file_world_def small_file_conf_def small_node_def small_tree_def

lemma small_file_facts:
  "wf_tree (small_tree m)" "set_like small_file_world" "bare (small_file_conf k)" "path_exists (small_tree m) (fc_root (small_file_conf k))"
  by (simp_all add: small_file_defs wf_tree_def plain_path_def set_like_def bare_def path_exists_def node_at_def)

lemma small_pattern: "pattern_parts ''*'' = [''*'']"
  by (simp add: pattern_parts_def)

lemma small_found: "found (small_file_conf k) (small_tree m) = [[''s'', ''d'', ''a''], [''s'', ''b'']]"
  by (simp add: small_file_defs found_def path_match_def small_pattern Let_def below_def is_file_def)

lemma small_file_times: "mtime_of (small_tree m) [''s'', ''d'', ''a''] = 5" "mtime_of (small_tree m) [''s'', ''b''] = m"
  by (simp_all add: small_file_defs mtime_of_def node_at_def)

lemma small_collected: "5 \<le> m \<Longrightarrow> collect_files (small_file_conf k) small_file_world (small_tree m) = [[''s'', ''d'', ''a''], [''s'', ''b'']]"
  by (simp add: collect_files_def small_found small_file_times) (simp add: small_file_world_def small_file_times)

definition small_batch :: "bool \<Rightarrow> batch" where
  "small_batch keep = file_batch (small_file_conf keep) (small_tree 5)
     [\<lparr>rec_table = ''f'', rec_time = 0, rec_columns = [(''path'', PStr ''/s/d/a'')], rec_dedup_key = None, rec_payload_path = Some ''/s/d/a''\<rparr>]"

lemma small_batch: "file_batches (small_file_conf k) small_file_world [] 1 (small_tree 5) = Ok (Some (small_batch k))"
proof -
  have "path_records (small_file_conf k) (small_tree 5) [''s'', ''d'', ''a'']
    = Ok [\<lparr>rec_table = ''f'', rec_time = 0, rec_columns = [(''path'', PStr ''/s/d/a'')], rec_dedup_key = None, rec_payload_path = Some ''/s/d/a''\<rparr>]"
    by (simp add: path_records_def node_records_def spec_for_def row_record_def mtime_us_def small_file_defs node_at_def
        path_match_def small_pattern path_text_def round_half_even_def)
  moreover have "pending_files (small_file_conf k) small_file_world [] (small_tree 5) = Ok [[''s'', ''d'', ''a''], [''s'', ''b'']]"
    by (simp add: pending_files_def small_collected small_file_times Let_def)
  ultimately show ?thesis using small_file_facts(4) [of 5 k] by (simp add: file_batches_def small_batch_def)
qed

lemma small_paths: "payload_paths (bt_records (small_batch k)) = [''/s/d/a'']"
  by (simp add: small_batch_def file_batch_def payload_paths_def map_filter_simps)

lemma commit_removes_what_shipped_witness:
  "small_node [''s'', ''d'', ''a''] (Contents []) 5 \<notin> set (file_commit (small_file_conf False) small_file_world (bt_commit_token (small_batch False)) (small_tree 5))
    \<and> small_node [''s'', ''b''] (Contents []) 5 \<in> set (file_commit (small_file_conf False) small_file_world (bt_commit_token (small_batch False)) (small_tree 5))"
proof -
  have u: "\<not> fc_keep (small_file_conf False)" "\<not> fc_match_dirs (small_file_conf False)" "\<forall>p. \<not> fw_locked small_file_world p"
    by (simp_all add: small_file_defs)
  from commit_removes_what_shipped [OF small_batch u(1,2) small_file_facts(1,2) u(3) refl]
  have f: "n \<in> set (file_commit (small_file_conf False) small_file_world (bt_commit_token (small_batch False)) (small_tree 5)) \<and> fn_kind n \<noteq> Folder
    \<longleftrightarrow> n \<in> set (small_tree 5) \<and> fn_kind n \<noteq> Folder \<and> path_text (fn_path n) \<notin> {''/s/d/a''}" for n
    unfolding small_paths by simp
  show ?thesis
    using f [of "small_node [''s'', ''d'', ''a''] (Contents []) 5"] f [of "small_node [''s'', ''b''] (Contents []) 5"]
    by (simp add: small_node_def path_text_def small_tree_def)
qed

lemma keep_offers_every_file_once_witness:
  "concat (map (\<lambda>b. payload_paths (bt_records b)) (keep_on (small_file_conf True) small_file_world 1 (small_tree 7) 2 []))
     = [''/s/d/a'', ''/s/b'']"
proof -
  have c: "collect_files (small_file_conf True) small_file_world (small_tree 7) = [[''s'', ''d'', ''a''], [''s'', ''b'']]"
    by (rule small_collected) simp
  have "concat (map (\<lambda>b. payload_paths (bt_records b)) (keep_on (small_file_conf True) small_file_world 1 (small_tree 7) 2 []))
     = map path_text (collect_files (small_file_conf True) small_file_world (small_tree 7))"
    by (rule keep_offers_every_file_once [THEN conjunct1, OF _ small_file_facts(3,1,2,4)])
      (simp_all add: small_found small_file_times inj_on_def, simp add: small_file_conf_def)
  then show ?thesis by (simp add: c path_text_def)
qed

text \<open>Both files have the time 5; the batch took one, and a newer file came in.\<close>

definition later_tree :: ftree where "later_tree = small_tree 5 @ [small_node [''s'', ''c''] (Contents []) 9]"

definition later_batch :: batch where
  "later_batch = file_batch (small_file_conf True) later_tree
     [\<lparr>rec_table = ''f'', rec_time = 0, rec_columns = [(''path'', PStr ''/s/c'')], rec_dedup_key = None, rec_payload_path = Some ''/s/c''\<rparr>]"

lemma later_batch: "file_batches (small_file_conf True) small_file_world (encode_keep_cursor 5) 9 later_tree = Ok (Some later_batch)"
proof -
  have "path_records (small_file_conf True) later_tree [''s'', ''c'']
    = Ok [\<lparr>rec_table = ''f'', rec_time = 0, rec_columns = [(''path'', PStr ''/s/c'')], rec_dedup_key = None, rec_payload_path = Some ''/s/c''\<rparr>]"
    by (simp add: path_records_def node_records_def spec_for_def row_record_def mtime_us_def small_file_defs later_tree_def node_at_def
        path_match_def small_pattern path_text_def round_half_even_def)
  moreover have "mtime_of later_tree [''s'', ''d'', ''a''] = 5" "mtime_of later_tree [''s'', ''b''] = 5" "mtime_of later_tree [''s'', ''c''] = 9"
    by (simp_all add: later_tree_def small_file_defs mtime_of_def node_at_def)
  moreover have "found (small_file_conf True) later_tree = [[''s'', ''d'', ''a''], [''s'', ''b''], [''s'', ''c'']]"
    by (simp add: small_file_defs later_tree_def found_def path_match_def small_pattern Let_def below_def is_file_def)
  moreover have "path_exists later_tree (fc_root (small_file_conf True))"
    by (simp add: small_file_defs later_tree_def path_exists_def node_at_def)
  moreover have "fw_order small_file_world = remdups" "fc_keep (small_file_conf True)" by (simp_all add: small_file_defs)
  ultimately show ?thesis by (simp add: file_batches_def later_batch_def pending_files_def collect_files_def Let_def)
qed

lemma equal_mtime_is_never_offered_witness:
  "bt_cursor_after (small_batch True) = encode_keep_cursor 5 \<and> ''/s/b'' \<notin> set (payload_paths (bt_records later_batch))"
proof -
  have l: "latest_mtime (small_tree 5) (bt_records (small_batch True)) = 5"
    unfolding latest_mtime_def small_paths using path_of_text [of "[''s'', ''d'', ''a'']"] small_file_times(1) [of 5]
    by (simp add: path_text_def plain_path_def)
  have "mtime_of later_tree [''s'', ''b''] = 5" by (simp add: later_tree_def small_file_defs mtime_of_def node_at_def)
  moreover have "wf_tree later_tree" by (simp add: small_file_defs later_tree_def wf_tree_def plain_path_def)
  moreover have "plain_path [''s'', ''b'']" "fc_keep (small_file_conf True)" by (simp_all add: plain_path_def small_file_conf_def)
  ultimately show ?thesis
    using equal_mtime_is_never_offered [OF _ small_file_facts(2) small_batch _ decode_encode _ _ _ later_batch, of "[''s'', ''b'']"]
    by (simp add: l path_text_def)
qed

end
