(* ===== verification/Layout.thy ===== *)
theory Layout
  imports SinkSwitch
begin

text \<open>
  What the daemon will try to build, \<open>pipelines_d.py\<close>: the legacy manifest's entries and one file for
  each client in \<open>pipelines.d/\<close>, with the rules that accept or refuse a file whole.

  A directory's listing and each file's \<open>stat\<close> and TOML are parameters, read once and unchanged while
  a layout is made.  Why a file is refused is a constructor, not its text.
\<close>

subsection \<open>Paths and names\<close>

definition beside :: "string \<Rightarrow> string list \<Rightarrow> string list" where
  "beside name manifest_path = butlast manifest_path @ [name]"

definition pipelines_dir_for :: "string list \<Rightarrow> string list" where
  "pipelines_dir_for = beside ''pipelines.d''"

definition sinks_dir_for :: "string list \<Rightarrow> string list" where
  "sinks_dir_for = beside ''sinks''"

text \<open>An origin is the legacy manifest or a file of \<open>pipelines.d/\<close>; its text names the state row.\<close>

datatype origin = Legacy | InFile string

fun origin_text :: "origin \<Rightarrow> string" where
  "origin_text Legacy = ''legacy''"
| "origin_text (InFile f) = ''pipelines.d/'' @ f"

definition is_pipeline_file :: "string \<Rightarrow> bool" where
  "is_pipeline_file f \<longleftrightarrow> ends_with f ''.toml'' \<and> \<not> starts_with f ''.''"

definition file_stem :: "string \<Rightarrow> string" where "file_stem f = take (length f - 5) f"

definition file_client :: "string \<Rightarrow> string option" where
  "file_client f = (if \<not> is_pipeline_file f then None
     else if valid_client_name (file_stem f) then Some (file_stem f) else None)"

subsection \<open>The signature\<close>

type_synonym stat_key = "int \<times> int \<times> int"

datatype listing = NoDirectory | ListError string | Listed stat_key "string list"

datatype signature = Missing | Failed string | Seen stat_key "(string \<times> stat_key option) list"

datatype file_stat = NoStat exn | Regular | NotRegularFile

record pd_world =
  pw_listing :: listing
  pw_stat_key :: "string \<Rightarrow> stat_key option"
  pw_stat :: "string \<Rightarrow> file_stat"
  pw_toml :: "string \<Rightarrow> pydict res"
  pw_str :: "pyval \<Rightarrow> string"

definition pipelines_signature :: "pd_world \<Rightarrow> signature" where
  "pipelines_signature w = (case pw_listing w of NoDirectory \<Rightarrow> Missing | ListError e \<Rightarrow> Failed e
     | Listed d names \<Rightarrow> Seen d (map (\<lambda>n. (n, pw_stat_key w n)) (sort names)))"

subsection \<open>A file's rules\<close>

text \<open>\<open>str(v)\<close>; the text of a number with a fraction or of a container is a parameter.\<close>

definition text_of_value :: "(pyval \<Rightarrow> string) \<Rightarrow> pyval \<Rightarrow> string" where
  "text_of_value f v = (case v of PStr s \<Rightarrow> s | PNone \<Rightarrow> ''None'' | PBool True \<Rightarrow> ''True'' | PBool False \<Rightarrow> ''False''
     | PInt i \<Rightarrow> str_of_int i | _ \<Rightarrow> f v)"

text \<open>\<open>d.get(k, default)\<close>, and \<open>str(d.get(k) or "")\<close>.\<close>

definition get_or :: "pydict \<Rightarrow> string \<Rightarrow> pyval \<Rightarrow> pyval" where
  "get_or d k v = (case map_of d k of Some x \<Rightarrow> x | None \<Rightarrow> v)"

definition text_or_empty :: "(pyval \<Rightarrow> string) \<Rightarrow> pydict \<Rightarrow> string \<Rightarrow> string" where
  "text_or_empty f d k = (if py_truthy (py_get d k) then text_of_value f (py_get d k) else [])"

datatype start_problem = NowInFile | WsprReadsNow pyval

definition wspr_typed :: "(pyval \<Rightarrow> string) \<Rightarrow> pydict \<Rightarrow> bool" where
  "wspr_typed f source \<longleftrightarrow> py_lower (py_strip (text_of_value f (get_or source ''type'' (PStr [])))) = ''wspr_cycle''"

definition start_at_problem :: "(pyval \<Rightarrow> string) \<Rightarrow> pydict \<Rightarrow> start_problem option" where
  "start_at_problem f source = (case map_of source ''start_at'' of None \<Rightarrow> None
     | Some v \<Rightarrow> if v = PStr ''now'' then Some NowInFile
         else if wspr_typed f source \<and> v \<noteq> PStr ''beginning'' then Some (WsprReadsNow v) else None)"

datatype refusal_reason = IllegalName | NotRegular | CannotRead exn | HostWideDaemon | IdentityNoTable | NamesSshKey | NoArray
  | OtherClient nat pyval | GovernedNoBool nat | BadStart nat start_problem
  | BuildFailed nat exn | Collides string string

text \<open>The loop over the entries; the index is the entry's place.\<close>

fun check_entries :: "(pyval \<Rightarrow> string) \<Rightarrow> string \<Rightarrow> nat \<Rightarrow> pydict list \<Rightarrow> pydict list + refusal_reason" where
  "check_entries f client i [] = Inl []"
| "check_entries f client i (e # es) = (if py_get e ''client'' \<noteq> PNone \<and> py_get e ''client'' \<noteq> PStr client
     then Inr (OtherClient i (py_get e ''client''))
     else if \<not> (case get_or e ''governed'' (PBool True) of PBool _ \<Rightarrow> True | _ \<Rightarrow> False) then Inr (GovernedNoBool i)
     else (case (case py_get e ''source'' of PDict s \<Rightarrow> start_at_problem f s | _ \<Rightarrow> None) of
         Some p \<Rightarrow> Inr (BadStart i p)
       | None \<Rightarrow> (case check_entries f client (Suc i) es of Inr r \<Rightarrow> Inr r
           | Inl out \<Rightarrow> Inl (dict_set ''client'' (PStr client) e # out))))"

fun as_tables :: "pyval list \<Rightarrow> pydict list option" where
  "as_tables [] = Some []"
| "as_tables (PDict d # vs) = map_option (Cons d) (as_tables vs)"
| "as_tables _ = None"

definition check_file :: "(pyval \<Rightarrow> string) \<Rightarrow> string \<Rightarrow> pydict \<Rightarrow> pydict list + refusal_reason" where
  "check_file f filename data = (if map_of data ''daemon'' \<noteq> None then Inr HostWideDaemon
     else (case (case py_get data ''identity'' of PNone \<Rightarrow> None
           | PDict ident \<Rightarrow> if map_of ident ''ssh_key_file'' \<noteq> None then Some NamesSshKey else None
           | _ \<Rightarrow> Some IdentityNoTable) of
         Some r \<Rightarrow> Inr r
       | None \<Rightarrow> (case get_or data ''pipeline'' (PList []) of
           PList raw \<Rightarrow> (case as_tables raw of None \<Rightarrow> Inr NoArray
             | Some es \<Rightarrow> check_entries f (file_stem filename) 0 es)
         | _ \<Rightarrow> Inr NoArray)))"

subsection \<open>The layout\<close>

record refusal =
  rf_file :: string
  rf_client :: string
  rf_reason :: refusal_reason

definition row_name :: "refusal \<Rightarrow> string" where "row_name r = origin_text (InFile (rf_file r))"

record layout =
  ly_manifest :: pydict
  ly_entries :: "(pydict \<times> origin) list"
  ly_refused :: "refusal list"
  ly_signature :: signature

text \<open>The manifest's entries: a value that is no table has no \<open>get\<close>, a number cannot be iterated.\<close>

definition attribute_error :: exn where "attribute_error = Exn ''AttributeError'' ''object has no attribute get''"

definition manifest_entries :: "pydict \<Rightarrow> pydict list res" where
  "manifest_entries m = (let v = get_or m ''pipeline'' (PList []) in
     if \<not> py_truthy v then Ok []
     else (case v of
         PList vs \<Rightarrow> mapM_res (\<lambda>x. case x of PDict d \<Rightarrow> Ok d | _ \<Rightarrow> Raise attribute_error) vs
       | PDict _ \<Rightarrow> Raise attribute_error | PStr _ \<Rightarrow> Raise attribute_error
       | _ \<Rightarrow> Raise (Exn ''TypeError'' ''object is not iterable'')))"

definition pipeline_names :: "pd_world \<Rightarrow> string list" where
  "pipeline_names w = (case pw_listing w of Listed _ names \<Rightarrow> sort (filter is_pipeline_file names) | _ \<Rightarrow> [])"

definition read_file :: "pd_world \<Rightarrow> string \<Rightarrow> pydict list + refusal_reason" where
  "read_file w name = (if file_client name = None then Inr IllegalName
     else (case pw_stat w name of NoStat e \<Rightarrow> Inr (CannotRead e) | NotRegularFile \<Rightarrow> Inr NotRegular
       | Regular \<Rightarrow> (case pw_toml w name of Raise e \<Rightarrow> Inr (CannotRead e)
           | Ok data \<Rightarrow> check_file (pw_str w) name data)))"

fun read_files :: "pd_world \<Rightarrow> string list \<Rightarrow> (pydict \<times> origin) list \<times> refusal list" where
  "read_files w [] = ([], [])"
| "read_files w (n # ns) = (let (es, rs) = read_files w ns in case read_file w n of
     Inl out \<Rightarrow> (map (\<lambda>e. (e, InFile n)) out @ es, rs)
   | Inr r \<Rightarrow> (es, \<lparr>rf_file = n, rf_client = file_stem n, rf_reason = r\<rparr> # rs))"

definition load_layout :: "pd_world \<Rightarrow> pydict \<Rightarrow> layout res" where
  "load_layout w manifest = (let names = pipeline_names w; present = map file_stem names; (files, refused) = read_files w names in
     map_res (\<lambda>es. \<lparr>ly_manifest = manifest,
         ly_entries = map (\<lambda>e. (e, Legacy)) (filter (\<lambda>e. text_or_empty (pw_str w) e ''client'' \<notin> set present) es) @ files,
         ly_refused = refused, ly_signature = pipelines_signature w\<rparr>)
       (manifest_entries manifest))"

subsection \<open>What a layout holds\<close>

text \<open>The client an entry reads.\<close>

definition entry_client :: "pd_world \<Rightarrow> pydict \<Rightarrow> string" where
  "entry_client w e = text_or_empty (pw_str w) e ''client''"

lemma check_entries_client: "check_entries f client i es = Inl out \<Longrightarrow> e \<in> set out \<Longrightarrow> py_get e ''client'' = PStr client"
  by (induction f client i es arbitrary: out rule: check_entries.induct)
    (auto simp: py_get_def split: if_splits option.splits sum.splits)

lemma check_file_client: "check_file f name data = Inl out \<Longrightarrow> e \<in> set out \<Longrightarrow> py_get e ''client'' = PStr (file_stem name)"
  by (auto simp: check_file_def split: if_splits option.splits sum.splits pyval.splits dest: check_entries_client)

lemma read_file_Inl:
  "read_file w n = Inl out \<Longrightarrow> valid_client_name (file_stem n) \<and> (\<exists>data. pw_toml w n = Ok data \<and> check_file (pw_str w) n data = Inl out)"
  by (auto simp: read_file_def file_client_def split: if_splits file_stat.splits res.splits)

lemma valid_client_nonempty: "valid_client_name c \<Longrightarrow> c \<noteq> []"
  by (auto simp: valid_client_name_def)

lemma read_file_client: "read_file w n = Inl out \<Longrightarrow> e \<in> set out \<Longrightarrow> entry_client w e = file_stem n"
  using read_file_Inl [of w n out] check_file_client [of "pw_str w" n _ out e] valid_client_nonempty [of "file_stem n"]
  by (auto simp: entry_client_def text_or_empty_def text_of_value_def)

lemma read_files_entries:
  "(e, o1) \<in> set (fst (read_files w ns)) \<longleftrightarrow> (\<exists>n \<in> set ns. o1 = InFile n \<and> (\<exists>out. read_file w n = Inl out \<and> e \<in> set out))"
  by (induction ns) (auto simp: case_prod_beta Let_def split: sum.splits)

lemma read_files_refused:
  "map rf_file (snd (read_files w ns)) = filter (\<lambda>n. \<exists>r. read_file w n = Inr r) ns"
  by (induction ns) (auto simp: case_prod_beta Let_def split: sum.splits)

lemma read_files_of:
  "distinct ns \<Longrightarrow> n \<in> set ns \<Longrightarrow> read_file w n = Inl out \<Longrightarrow> map fst (filter (\<lambda>(e, o1). o1 = InFile n) (fst (read_files w ns))) = out"
proof (induction ns)
  case (Cons m ns)
  show ?case
  proof (cases "m = n")
    case True
    then have "\<forall>(e, o1) \<in> set (fst (read_files w ns)). o1 \<noteq> InFile n" using Cons.prems(1) read_files_entries by fastforce
    then have "filter (\<lambda>a. snd a = InFile n) (fst (read_files w ns)) = []" by (auto simp: filter_empty_conv)
    then show ?thesis using True Cons.prems(3) by (simp add: case_prod_beta Let_def comp_def)
  next
    case False
    then show ?thesis using Cons by (auto simp: case_prod_beta Let_def split: sum.splits)
  qed
qed simp

lemma pipeline_stem: "is_pipeline_file n \<Longrightarrow> n = file_stem n @ ''.toml''"
  unfolding is_pipeline_file_def ends_with_iff file_stem_def by auto

lemma stem_inj: "is_pipeline_file a \<Longrightarrow> is_pipeline_file b \<Longrightarrow> file_stem a = file_stem b \<Longrightarrow> a = b"
  using pipeline_stem by metis

lemma pipeline_names_files: "n \<in> set (pipeline_names w) \<Longrightarrow> is_pipeline_file n"
  by (auto simp: pipeline_names_def split: listing.splits)

lemma load_layout_Ok:
  assumes "load_layout w m = Ok l"
  obtains es where "manifest_entries m = Ok es"
    "ly_entries l = map (\<lambda>e. (e, Legacy)) (filter (\<lambda>e. entry_client w e \<notin> file_stem ` set (pipeline_names w)) es) @ fst (read_files w (pipeline_names w))"
    "ly_refused l = snd (read_files w (pipeline_names w))"
  using assms by (auto simp: load_layout_def Let_def case_prod_beta entry_client_def)

text \<open>A client has one origin.  Two entries of a layout that read the same client, and one of them
  from a file, come from the same file; a file named after a client, even one that cannot be read,
  drops every entry of the legacy manifest for that client.\<close>

theorem one_origin_per_client:
  assumes "load_layout w m = Ok l" "(e1, o1) \<in> set (ly_entries l)" "(e2, o2) \<in> set (ly_entries l)"
    and "entry_client w e1 = entry_client w e2" "o1 \<noteq> Legacy"
  shows "o1 = o2 \<and> o1 = InFile (entry_client w e1 @ ''.toml'')"
proof -
  let ?ns = "pipeline_names w"
  obtain es where es: "ly_entries l = map (\<lambda>e. (e, Legacy)) (filter (\<lambda>e. entry_client w e \<notin> file_stem ` set ?ns) es) @ fst (read_files w ?ns)"
    using load_layout_Ok [OF assms(1)] by metis
  have infile: "\<exists>n \<in> set ?ns. o1 = InFile n \<and> entry_client w e = file_stem n" if "(e, o1) \<in> set (ly_entries l)" "o1 \<noteq> Legacy" for e o1
    using that read_files_entries read_file_client unfolding es by fastforce
  obtain n where n: "n \<in> set ?ns" "o1 = InFile n" "entry_client w e1 = file_stem n" using infile assms(2,5) by blast
  have "o2 \<noteq> Legacy"
  proof
    assume "o2 = Legacy"
    then have "entry_client w e2 \<notin> file_stem ` set ?ns" using assms(3) read_files_entries unfolding es by fastforce
    then show False using n assms(4) by auto
  qed
  then obtain n' where n': "n' \<in> set ?ns" "o2 = InFile n'" "entry_client w e2 = file_stem n'" using infile assms(3) by blast
  have "n = n'" using n n' assms(4) stem_inj pipeline_names_files by metis
  then show ?thesis using n n' pipeline_stem [OF pipeline_names_files [OF n(1)]] by simp
qed

subsection \<open>Which files are taken\<close>

text \<open>
  The rules for an entry, apart from the loop that checks them: a client, if there is one, is the file's;
  \<open>governed\<close> is a boolean; and \<open>start_at\<close> is not \<open>"now"\<close>, and of a \<open>wspr_cycle\<close> source only \<open>"beginning"\<close>.
\<close>

definition entry_allowed :: "(pyval \<Rightarrow> string) \<Rightarrow> string \<Rightarrow> pydict \<Rightarrow> bool" where
  "entry_allowed f client e \<longleftrightarrow> py_get e ''client'' \<in> {PNone, PStr client}
     \<and> (\<exists>b. get_or e ''governed'' (PBool True) = PBool b)
     \<and> (\<forall>s v. py_get e ''source'' = PDict s \<and> map_of s ''start_at'' = Some v
          \<longrightarrow> v \<noteq> PStr ''now'' \<and> (wspr_typed f s \<longrightarrow> v = PStr ''beginning''))"

text \<open>
  The rules for a file whose \<open>pipeline\<close> array holds the tables \<open>raw\<close> (an absent array is empty): a legal name, a
  regular file that reads as TOML, no \<open>daemon\<close>, an \<open>identity\<close> that is a table without SSH key, and every entry allowed.
\<close>

definition follows_rules :: "pd_world \<Rightarrow> string \<Rightarrow> pydict list \<Rightarrow> bool" where
  "follows_rules w n raw \<longleftrightarrow> valid_client_name (file_stem n) \<and> pw_stat w n = Regular \<and> (\<exists>data. pw_toml w n = Ok data
     \<and> map_of data ''daemon'' = None
     \<and> (py_get data ''identity'' = PNone \<or> (\<exists>ident. py_get data ''identity'' = PDict ident \<and> map_of ident ''ssh_key_file'' = None))
     \<and> get_or data ''pipeline'' (PList []) = PList (map PDict raw)
     \<and> (\<forall>e \<in> set raw. entry_allowed (pw_str w) (file_stem n) e))"

lemma start_at_fine: "start_at_problem f s = None \<longleftrightarrow>
    (\<forall>v. map_of s ''start_at'' = Some v \<longrightarrow> v \<noteq> PStr ''now'' \<and> (wspr_typed f s \<longrightarrow> v = PStr ''beginning''))"
  by (auto simp: start_at_problem_def split: option.split)

lemma entry_allowed_iff: "entry_allowed f client e \<longleftrightarrow> (py_get e ''client'' = PNone \<or> py_get e ''client'' = PStr client)
    \<and> (case get_or e ''governed'' (PBool True) of PBool _ \<Rightarrow> True | _ \<Rightarrow> False)
    \<and> (case py_get e ''source'' of PDict s \<Rightarrow> start_at_problem f s | _ \<Rightarrow> None) = None"
proof -
  have "(case get_or e ''governed'' (PBool True) of PBool _ \<Rightarrow> True | _ \<Rightarrow> False) \<longleftrightarrow> (\<exists>b. get_or e ''governed'' (PBool True) = PBool b)"
    by (cases "get_or e ''governed'' (PBool True)") simp_all
  moreover have "(case py_get e ''source'' of PDict s \<Rightarrow> start_at_problem f s | _ \<Rightarrow> None) = None \<longleftrightarrow>
      (\<forall>s. py_get e ''source'' = PDict s \<longrightarrow> start_at_problem f s = None)"
    by (cases "py_get e ''source''") simp_all
  ultimately show ?thesis by (auto simp: entry_allowed_def start_at_fine)
qed

lemma check_entries_iff: "check_entries f client i es = Inl out \<longleftrightarrow>
    (\<forall>e \<in> set es. entry_allowed f client e) \<and> out = map (dict_set ''client'' (PStr client)) es"
proof (induction es arbitrary: i out)
  case (Cons e es)
  show ?case
  proof (cases "entry_allowed f client e")
    case True
    then have "check_entries f client i (e # es) = (case check_entries f client (Suc i) es of Inr r \<Rightarrow> Inr r
        | Inl out \<Rightarrow> Inl (dict_set ''client'' (PStr client) e # out))"
      by (auto simp: entry_allowed_iff)
    moreover have "check_entries f client (Suc i) es = Inl xs \<longleftrightarrow> (\<forall>e \<in> set es. entry_allowed f client e) \<and> xs = map (dict_set ''client'' (PStr client)) es" for xs
      by (rule Cons.IH)
    ultimately show ?thesis using True by (cases "check_entries f client (Suc i) es") auto
  next
    case False
    then show ?thesis by (auto simp: entry_allowed_iff split: option.splits)
  qed
qed auto

lemma as_tables_iff: "as_tables vs = Some es \<longleftrightarrow> vs = map PDict es"
  by (induction vs arbitrary: es rule: as_tables.induct) (auto simp: Cons_eq_map_conv)

lemma array_iff: "(case v of PList vs \<Rightarrow> (case as_tables vs of None \<Rightarrow> Inr NoArray | Some es \<Rightarrow> check_entries f c 0 es) | _ \<Rightarrow> Inr NoArray) = Inl out
    \<longleftrightarrow> (\<exists>raw. v = PList (map PDict raw) \<and> (\<forall>e \<in> set raw. entry_allowed f c e) \<and> out = map (dict_set ''client'' (PStr c)) raw)"
proof (cases v)
  case (PList vs)
  show ?thesis
  proof (cases "as_tables vs")
    case None
    then have "vs \<noteq> map PDict raw" for raw using as_tables_iff [of vs raw] by auto
    then show ?thesis using PList None by simp
  next
    case (Some es)
    then have "vs = map PDict raw \<longleftrightarrow> raw = es" for raw using as_tables_iff [of vs raw] by auto
    then show ?thesis using PList Some by (simp add: check_entries_iff)
  qed
qed auto

lemma check_file_iff: "check_file f n data = Inl out \<longleftrightarrow> map_of data ''daemon'' = None
    \<and> (py_get data ''identity'' = PNone \<or> (\<exists>ident. py_get data ''identity'' = PDict ident \<and> map_of ident ''ssh_key_file'' = None))
    \<and> (\<exists>raw. get_or data ''pipeline'' (PList []) = PList (map PDict raw) \<and> (\<forall>e \<in> set raw. entry_allowed f (file_stem n) e)
        \<and> out = map (dict_set ''client'' (PStr (file_stem n))) raw)"
  unfolding check_file_def array_iff [symmetric] by (cases "py_get data ''identity''") (simp_all add: if_distrib)

lemma read_file_iff: "read_file w n = Inl out \<longleftrightarrow> is_pipeline_file n
    \<and> (\<exists>raw. follows_rules w n raw \<and> out = map (dict_set ''client'' (PStr (file_stem n))) raw)"
  by (auto simp: read_file_def file_client_def follows_rules_def check_file_iff split: file_stat.split res.split)

text \<open>C35: a file is taken whole or refused.  A pipeline file of the directory that follows the rules (\<open>follows_rules\<close>) is not
  refused, and the layout's entries from it are the entries of its own \<open>pipeline\<close> array, every one and in
  their order, each with the file's client; a file that breaks one rule in one entry is refused once, with its
  reason, and none of its entries is in the layout.\<close>

theorem file_taken_whole_or_refused:
  assumes "load_layout w m = Ok l" "n \<in> set (pipeline_names w)" "distinct (pipeline_names w)"
  shows "(\<exists>raw. follows_rules w n raw \<and> map fst (filter (\<lambda>(e, o1). o1 = InFile n) (ly_entries l)) = map (dict_set ''client'' (PStr (file_stem n))) raw
      \<and> (\<forall>e \<in> set raw. entry_client w (dict_set ''client'' (PStr (file_stem n)) e) = file_stem n) \<and> n \<notin> set (map rf_file (ly_refused l)))
    \<or> ((\<forall>raw. \<not> follows_rules w n raw) \<and> length (filter (\<lambda>r. rf_file r = n) (ly_refused l)) = 1 \<and> (\<forall>(e, o1) \<in> set (ly_entries l). o1 \<noteq> InFile n))"
proof -
  let ?ns = "pipeline_names w"
  obtain es where es: "ly_entries l = map (\<lambda>e. (e, Legacy)) (filter (\<lambda>e. entry_client w e \<notin> file_stem ` set ?ns) es) @ fst (read_files w ?ns)"
    "ly_refused l = snd (read_files w ?ns)" using load_layout_Ok [OF assms(1)] by metis
  have none: "filter (\<lambda>(e, o1). o1 = InFile n) (map (\<lambda>e. (e, Legacy)) xs) = []" for xs :: "pydict list"
    by (induction xs) auto
  show ?thesis
  proof (cases "read_file w n")
    case (Inl out)
    then obtain raw where raw: "follows_rules w n raw" "out = map (dict_set ''client'' (PStr (file_stem n))) raw" using read_file_iff by blast
    have "map fst (filter (\<lambda>(e, o1). o1 = InFile n) (ly_entries l)) = out"
      using read_files_of [OF assms(3,2) Inl] none by (simp add: es)
    moreover have "n \<notin> set (map rf_file (ly_refused l))" using Inl by (simp add: es read_files_refused)
    moreover have "\<forall>e \<in> set raw. entry_client w (dict_set ''client'' (PStr (file_stem n)) e) = file_stem n"
      using read_file_client [OF Inl] raw(2) by simp
    ultimately show ?thesis using raw by blast
  next
    case (Inr r)
    have "length (filter (\<lambda>x. x = n) (map rf_file (ly_refused l))) = 1"
    proof -
      have "filter (\<lambda>x. x = n) (map rf_file (ly_refused l)) = filter (\<lambda>x. x = n) ?ns"
        using Inr by (auto simp: es read_files_refused filter_filter_conj intro: filter_cong)
      moreover have "length (filter (\<lambda>x. x = n) ?ns) = 1"
        using assms(2,3) distinct_length_filter [of ?ns "\<lambda>x. x = n"] by (simp add: Int_insert_left conj_commute Collect_conv_if)
      ultimately show ?thesis by simp
    qed
    then have "length (filter (\<lambda>r. rf_file r = n) (ly_refused l)) = 1" by (simp add: filter_map comp_def)
    moreover have "o1 \<noteq> InFile n" if "(e, o1) \<in> set (ly_entries l)" for e o1
      using that Inr read_files_entries unfolding es by fastforce
    moreover have "\<not> follows_rules w n raw" for raw
      using Inr read_file_iff [of w n] pipeline_names_files [OF assms(2)] by (metis sum.distinct(1))
    ultimately show ?thesis by blast
  qed
qed

end
