(* ===== verification/Factory.thy ===== *)
theory Factory
  imports Layout FileTree WsprCycle Pump
begin

text \<open>
  Pipelines from manifest entries, \<open>pipeline_factory.py\<close>, with \<open>config.py\<close>'s station identity and
  \<open>transports/discard.py\<close>.

  What is built is described: a source by its class and arguments, a transport by its class and
  keyword arguments in the order the code sets them.  Parameters: \<open>str\<close> of a number with a fraction
  or of a container, \<open>float\<close> of a text, and what a class's own constructor raises.
\<close>

record fx_world =
  fx_str :: "pyval \<Rightarrow> string"
  fx_float :: "string \<Rightarrow> pyval option"
  fx_construct :: "string \<Rightarrow> pydict \<Rightarrow> exn option"

subsection \<open>Conversions\<close>

definition value_error :: "string \<Rightarrow> exn" where "value_error t = Exn ''ValueError'' t"

definition type_error :: exn where "type_error = Exn ''TypeError'' ''unsupported type''"

abbreviation str_v :: "fx_world \<Rightarrow> pyval \<Rightarrow> string" where "str_v w \<equiv> text_of_value (fx_str w)"

definition int_v :: "pyval \<Rightarrow> int res" where
  "int_v v = (case v of PInt i \<Rightarrow> Ok i | PBool b \<Rightarrow> Ok (if b then 1 else 0)
     | PFloat r \<Rightarrow> Ok (if r < 0 then \<lceil>r\<rceil> else \<lfloor>r\<rfloor>)
     | PInf _ \<Rightarrow> Raise (Exn ''OverflowError'' ''cannot convert float infinity to integer'')
     | PNaN \<Rightarrow> Raise (value_error ''cannot convert float NaN to integer'')
     | PStr s \<Rightarrow> (case py_int s of Some i \<Rightarrow> Ok i | None \<Rightarrow> Raise (value_error ''invalid literal for int()''))
     | _ \<Rightarrow> Raise type_error)"

definition float_v :: "fx_world \<Rightarrow> pyval \<Rightarrow> pyval res" where
  "float_v w v = (case v of PInt i \<Rightarrow> Ok (PFloat (of_int i)) | PBool b \<Rightarrow> Ok (PFloat (if b then 1 else 0))
     | PFloat r \<Rightarrow> Ok v | PInf _ \<Rightarrow> Ok v | PNaN \<Rightarrow> Ok v
     | PStr s \<Rightarrow> (case fx_float w s of Some x \<Rightarrow> Ok x | None \<Rightarrow> Raise (value_error ''could not convert string to float''))
     | _ \<Rightarrow> Raise type_error)"

text \<open>Iterating a value: a list, the characters of a text, the keys of a table.\<close>

definition iterate :: "pyval \<Rightarrow> pyval list res" where
  "iterate v = (case v of PList xs \<Rightarrow> Ok xs | PStr s \<Rightarrow> Ok (map (\<lambda>c. PStr [c]) s)
     | PDict d \<Rightarrow> Ok (map (\<lambda>kv. PStr (fst kv)) d) | _ \<Rightarrow> Raise type_error)"

definition required :: "pydict \<Rightarrow> string \<Rightarrow> pyval res" where
  "required d k = (case map_of d k of Some v \<Rightarrow> Ok v | None \<Rightarrow> Raise (Exn ''KeyError'' k))"

definition as_mapping :: "pyval \<Rightarrow> pydict res" where
  "as_mapping v = (case v of PDict d \<Rightarrow> Ok d | _ \<Rightarrow> Raise attribute_error)"

text \<open>\<open>if spec.get(k) is not None: kw[k] = str(...)\<close>, and the same for a truthy value, an integer and
  a float.\<close>

definition put_str :: "fx_world \<Rightarrow> pydict \<Rightarrow> string \<Rightarrow> pydict \<Rightarrow> pydict" where
  "put_str w spec k kw = (if py_get spec k = PNone then kw else dict_set k (PStr (str_v w (py_get spec k))) kw)"

definition put_truthy :: "fx_world \<Rightarrow> pydict \<Rightarrow> string \<Rightarrow> pydict \<Rightarrow> pydict" where
  "put_truthy w spec k kw = (if py_truthy (py_get spec k) then dict_set k (PStr (str_v w (py_get spec k))) kw else kw)"

definition put_bool :: "pydict \<Rightarrow> string \<Rightarrow> pydict \<Rightarrow> pydict" where
  "put_bool spec k kw = (if py_get spec k = PNone then kw else dict_set k (PBool (py_truthy (py_get spec k))) kw)"

definition put_int :: "pydict \<Rightarrow> string \<Rightarrow> pydict \<Rightarrow> pydict res" where
  "put_int spec k kw = (if py_get spec k = PNone then Ok kw else map_res (\<lambda>i. dict_set k (PInt i) kw) (int_v (py_get spec k)))"

definition put_float :: "fx_world \<Rightarrow> pydict \<Rightarrow> string \<Rightarrow> pydict \<Rightarrow> pydict res" where
  "put_float w spec k kw = (if py_get spec k = PNone then Ok kw else map_res (\<lambda>x. dict_set k x kw) (float_v w (py_get spec k)))"

subsection \<open>Identity\<close>

record station =
  sn_call :: pyval
  sn_grid :: pyval
  sn_station_id :: pyval
  sn_ssh_key_file :: pyval
  sn_radiod_id :: pyval

definition default_key_file :: string where "default_key_file = ''/etc/hs-uploader/keys/id_ed25519''"

definition empty_station :: station where
  "empty_station = \<lparr>sn_call = PStr [], sn_grid = PStr [], sn_station_id = PStr [],
     sn_ssh_key_file = PStr default_key_file, sn_radiod_id = PStr []\<rparr>"

definition override_with :: "(string \<Rightarrow> pyval option) \<Rightarrow> station \<Rightarrow> station" where
  "override_with f s = (let pick = (\<lambda>k old. case f k of Some v \<Rightarrow> v | None \<Rightarrow> old) in
     \<lparr>sn_call = pick ''call'' (sn_call s), sn_grid = pick ''grid'' (sn_grid s), sn_station_id = pick ''station_id'' (sn_station_id s),
      sn_ssh_key_file = pick ''ssh_key_file'' (sn_ssh_key_file s), sn_radiod_id = pick ''radiod_id'' (sn_radiod_id s)\<rparr>)"

text \<open>\<open>StationIdentity.load\<close>: the file's station block, if there is a file, then the non-empty
  environment variables.\<close>

definition station_from_toml :: "pydict option \<Rightarrow> station res" where
  "station_from_toml data = (case data of None \<Rightarrow> Ok empty_station
     | Some d \<Rightarrow> bind_res (as_mapping (get_or d ''hs_uploader'' (PDict []))) (\<lambda>h.
         map_res (\<lambda>block. override_with (map_of block) empty_station) (as_mapping (get_or h ''station'' (PDict [])))))"

definition env_name :: "string \<Rightarrow> string" where
  "env_name k = ''HS_UPLOADER_'' @ map (\<lambda>c. if is_lower_ascii c then char_of ((of_char c :: nat) - 32) else c) k"

definition load_station :: "pydict option \<Rightarrow> (string \<Rightarrow> string option) \<Rightarrow> station res" where
  "load_station data env = map_res (override_with (\<lambda>k. case env (env_name k) of None \<Rightarrow> None
     | Some v \<Rightarrow> if v = [] then None else Some (PStr v))) (station_from_toml data)"

text \<open>\<open>_identity\<close>: the base identity with a pipeline's overrides that are not \<open>None\<close>; a truthy field counts.\<close>

definition merged_identity :: "pydict \<Rightarrow> pydict option \<Rightarrow> pydict" where
  "merged_identity base over = (case over of None \<Rightarrow> base
     | Some o1 \<Rightarrow> fold (\<lambda>(k, v) d. if v = PNone then d else dict_set k v d) o1 base)"

definition build_identity :: "fx_world \<Rightarrow> pydict \<Rightarrow> pydict option \<Rightarrow> station" where
  "build_identity w base over = override_with (\<lambda>k. let v = py_get (merged_identity base over) k in
     if py_truthy v then Some (PStr (str_v w v)) else None) empty_station"

subsection \<open>Sources\<close>

record wspr_args =
  wa_db_path :: pyval
  wa_start_at :: string
  wa_expected :: "pyval list option"
  wa_backstop :: pyval
  wa_include_psk :: bool
  wa_ship_buffer :: int

record sqlite_args =
  sa_database :: string
  sa_table :: string
  sa_versions :: "pyval list"
  sa_extra_where :: "pyval list list option"
  sa_start_at :: pyval
  sa_delete_on_commit :: bool
  sa_rest :: pydict

record file_args =
  fa_root :: string
  fa_patterns :: "string list"
  fa_table :: string
  fa_keep :: bool
  fa_match_dirs :: bool
  fa_source_id :: pyval

datatype built_source = BuiltFiles file_args | BuiltSqlite sqlite_args | BuiltWspr wspr_args

definition spec_type :: "fx_world \<Rightarrow> pydict \<Rightarrow> string" where
  "spec_type w spec = py_lower (py_strip (str_v w (get_or spec ''type'' (PStr []))))"

definition files_source :: "fx_world \<Rightarrow> pydict \<Rightarrow> built_source res" where
  "files_source w spec = (let patterns = if py_truthy (py_get spec ''patterns'') then py_get spec ''patterns''
       else PList [get_or spec ''pattern'' (PStr ''*'')] in
     bind_res (required spec ''root'') (\<lambda>root. map_res (\<lambda>ps. BuiltFiles
       \<lparr>fa_root = str_v w root, fa_patterns = map (str_v w) ps, fa_table = str_v w (get_or spec ''table'' (PStr ''files'')),
        fa_keep = (py_lower (str_v w (get_or spec ''retention'' (PStr ''delete_on_ack''))) = ''keep''),
        fa_match_dirs = py_truthy (get_or spec ''match_dirs'' (PBool False)), fa_source_id = py_get spec ''source_id''\<rparr>)
       (iterate patterns)))"

definition sqlite_source :: "fx_world \<Rightarrow> pydict \<Rightarrow> built_source res" where
  "sqlite_source w spec = bind_res (if py_truthy (py_get spec ''extra_where'')
       then bind_res (iterate (py_get spec ''extra_where'')) (\<lambda>cs. map_res Some (mapM_res iterate cs)) else Ok None) (\<lambda>extra.
     bind_res (required spec ''database'') (\<lambda>db. bind_res (required spec ''table'') (\<lambda>tb.
     bind_res (iterate (get_or spec ''accepted_schema_versions'' (PList [PInt 1]))) (\<lambda>vs.
     (let a = \<lparr>sa_database = str_v w db, sa_table = str_v w tb, sa_versions = vs, sa_extra_where = extra,
          sa_start_at = py_get spec ''start_at'', sa_delete_on_commit = py_truthy (get_or spec ''delete_on_commit'' (PBool True)),
          sa_rest = map (\<lambda>k. (k, py_get spec k)) [''select_columns'', ''dedup_partition_by'', ''dedup_order_by_desc'', ''producer'', ''radiod_id'']\<rparr>
      in case fx_construct w ''SqliteSource'' spec of Some e \<Rightarrow> Raise e | None \<Rightarrow> Ok (BuiltSqlite a))))))"

definition wspr_source :: "fx_world \<Rightarrow> string \<Rightarrow> pydict \<Rightarrow> built_source res" where
  "wspr_source w default_start spec = bind_res (if py_truthy (py_get spec ''expected_reporters'')
       then map_res (\<lambda>xs. Some (remdups xs)) (iterate (py_get spec ''expected_reporters'')) else Ok None) (\<lambda>reporters.
     bind_res (float_v w (get_or spec ''backstop_sec'' (PFloat 90))) (\<lambda>backstop.
     map_res (\<lambda>buffer. BuiltWspr \<lparr>wa_db_path = py_get spec ''db_path'', wa_start_at = str_v w (get_or spec ''start_at'' (PStr default_start)),
       wa_expected = reporters, wa_backstop = backstop, wa_include_psk = py_truthy (get_or spec ''include_psk'' (PBool False)),
       wa_ship_buffer = buffer\<rparr>) (int_v (get_or spec ''ship_buffer_sec'' (PInt 0)))))"

definition build_source :: "fx_world \<Rightarrow> string \<Rightarrow> pydict \<Rightarrow> built_source res" where
  "build_source w default_start spec = (let t = spec_type w spec in
     if t = ''filetree'' then files_source w spec
     else if t = ''sqlite'' then sqlite_source w spec
     else if t = ''wspr_cycle'' then wspr_source w default_start spec
     else Raise (value_error (''unknown source type: '' @ t)))"

subsection \<open>Transports\<close>

datatype tclass = PswsDatasetSftp | PskReporterTcp | WsprNetClass | WsprdaemonTarSftp | HeartbeatSftpClass

record built_transport =
  tx_class :: tclass
  tx_kw :: pydict
  tx_fallback :: "pydict option"
  tx_discard :: bool

definition plain_transport :: "tclass \<Rightarrow> pydict \<Rightarrow> built_transport" where
  "plain_transport c kw = \<lparr>tx_class = c, tx_kw = kw, tx_fallback = None, tx_discard = False\<rparr>"

text \<open>\<open>_wsprnet_proxy_kw\<close>: an absent key stays absent.\<close>

definition put_pair :: "fx_world \<Rightarrow> pydict \<Rightarrow> string \<Rightarrow> string \<Rightarrow> string \<Rightarrow> pydict \<Rightarrow> pydict" where
  "put_pair w spec key call grid kw = (if py_truthy (py_get spec call)
     then dict_set key (PList [PStr (str_v w (py_get spec call)), PStr (text_or_empty (fx_str w) spec grid)]) kw else kw)"

definition wsprnet_proxy_kw :: "fx_world \<Rightarrow> pydict \<Rightarrow> pydict" where
  "wsprnet_proxy_kw w spec = put_pair w spec ''psk_reporter'' ''psk_reporter_call'' ''psk_reporter_grid''
     (put_pair w spec ''wsprnet_reporter'' ''wsprnet_reporter_call'' ''wsprnet_reporter_grid''
       (put_bool spec ''forward_to_wsprnet'' []))"

definition update_kw :: "pydict \<Rightarrow> pydict \<Rightarrow> pydict" where
  "update_kw kw new = fold (\<lambda>(k, v) d. dict_set k v d) new kw"

definition no_limit :: "pyval \<Rightarrow> bool" where
  "no_limit v \<longleftrightarrow> v \<in> {PNone, PInt 0, PFloat 0, PBool False, PStr ''0'', PStr []}"

definition psws_kw :: "fx_world \<Rightarrow> pydict \<Rightarrow> pydict res" where
  "psws_kw w spec = bind_res (required spec ''instrument_id'') (\<lambda>inst.
     (let kw0 = put_truthy w spec ''ssh_key_file'' (put_truthy w spec ''sftp_user''
          [(''instrument_id'', PStr (str_v w inst)), (''host'', PStr (str_v w (get_or spec ''host'' (PStr ''pswsnetwork.eng.ua.edu'')))),
           (''table'', PStr (str_v w (get_or spec ''table'' (PStr ''mag.daily_zip'')))),
           (''dry_run'', PBool (py_truthy (get_or spec ''dry_run'' (PBool False))))]);
          bw = py_get spec ''bandwidth_limit_kbps'' in
      map_res (\<lambda>limit. put_bool spec ''trigger_ts_colons'' (put_str w spec ''trigger_prefix'' (put_str w spec ''trigger_path''
          (put_str w spec ''remote_path'' (put_truthy w spec ''name'' (dict_set ''bandwidth_limit_kbps'' limit kw0))))))
        (if no_limit bw then Ok PNone else map_res PInt (int_v bw))))"

definition fallback_kw :: "fx_world \<Rightarrow> pydict \<Rightarrow> pydict \<Rightarrow> pydict res" where
  "fallback_kw w spec fb = map_res (\<lambda>servers.
     put_truthy w spec ''upload_id'' (update_kw (put_str w spec ''receiver'' (put_str w spec ''tar_root'' (put_str w spec ''compression''
       (put_str w spec ''version'' (put_truthy w fb ''ftp_password_file'' (put_str w fb ''ftp_password''
         [(''servers'', PList servers), (''ftp_user'', PStr (str_v w (get_or fb ''ftp_user'' (PStr ''noisegraphs'')))),
          (''remote_path'', PStr (str_v w (get_or fb ''remote_path'' (PStr ''upload''))))])))))) (wsprnet_proxy_kw w spec)))
     (iterate (py_get fb ''servers''))"

definition wsprdaemon_kw :: "fx_world \<Rightarrow> pydict \<Rightarrow> pydict res" where
  "wsprdaemon_kw w spec = map_res (\<lambda>servers.
     update_kw (dict_set ''primary_table_name'' (PStr (str_v w (get_or spec ''primary_table_name'' (PStr ''wspr.cycle''))))
       (put_truthy w spec ''receiver'' (put_truthy w spec ''upload_id'' (put_truthy w spec ''sftp_user''
         (put_str w spec ''name'' (put_str w spec ''tar_root'' (put_str w spec ''compression'' (put_str w spec ''version''
           (put_str w spec ''remote_path'' [(''servers'', PList servers)]))))))))) (wsprnet_proxy_kw w spec))
     (if py_truthy (py_get spec ''servers'') then iterate (py_get spec ''servers'') else Ok [])"

definition constructed :: "fx_world \<Rightarrow> string \<Rightarrow> pydict \<Rightarrow> pydict res" where
  "constructed w cls kw = (case fx_construct w cls kw of Some e \<Rightarrow> Raise e | None \<Rightarrow> Ok kw)"

definition wsprdaemon_transport :: "fx_world \<Rightarrow> pydict \<Rightarrow> built_transport res" where
  "wsprdaemon_transport w spec = bind_res (let v = py_get spec ''ftp_fallback'' in
       if \<not> py_truthy v then Ok None
       else bind_res (as_mapping v) (\<lambda>fb. if \<not> py_truthy (py_get fb ''servers'') then Ok None
         else bind_res (fallback_kw w spec fb) (\<lambda>kw. map_res Some (constructed w ''WsprdaemonTarFtp'' kw)))) (\<lambda>fb.
     bind_res (wsprdaemon_kw w spec) (\<lambda>kw. map_res (\<lambda>kw. \<lparr>tx_class = WsprdaemonTarSftp, tx_kw = kw, tx_fallback = fb, tx_discard = False\<rparr>)
       (constructed w ''WsprdaemonTarSftp'' kw)))"

definition build_transport :: "fx_world \<Rightarrow> pydict \<Rightarrow> built_transport res" where
  "build_transport w spec = (let t = spec_type w spec in
     if t = ''psws_dataset'' then map_res (plain_transport PswsDatasetSftp) (psws_kw w spec)
     else if t = ''pskreporter'' then map_res (plain_transport PskReporterTcp)
       (put_int spec ''port'' (fold (put_str w spec) [''host'', ''decoding_software'', ''antenna'', ''primary_table'', ''name''] []))
     else if t = ''wsprnet'' then map_res (\<lambda>kw. plain_transport WsprNetClass (put_str w spec ''name'' kw))
       (bind_res (put_int spec ''max_spots_per_upload'' (put_str w spec ''version'' (put_str w spec ''api_base_url'' [])))
         (put_float w spec ''poll_interval_sec''))
     else if t = ''wsprdaemon_tar'' then wsprdaemon_transport w spec
     else if t = ''heartbeat_sftp'' then map_res (\<lambda>kw. plain_transport HeartbeatSftpClass (put_str w spec ''name'' kw))
       (bind_res (required spec ''host'') (\<lambda>host. bind_res (put_int spec ''port'' [(''host'', PStr (str_v w host))]) (\<lambda>kw.
         put_int spec ''connect_timeout_sec'' (put_str w spec ''remote_path'' (put_str w spec ''sftp_user'' kw)))))
     else Raise (value_error (''unknown transport type: '' @ t)))"

subsection \<open>Discard\<close>

text \<open>The wrapper as a pump sees it: the inner transport's name, table and policy, none of its calls.\<close>

definition discard_transport :: "(nat \<Rightarrow> 'e \<Rightarrow> 'e) \<Rightarrow> 'e transport \<Rightarrow> 'e transport" where
  "discard_transport tally inner = inner\<lparr>tr_ships := False, tr_ship := (\<lambda>b e. (tally (length (bt_records b)) e, Ok acked)),
     tr_serialize := (\<lambda>b e. (e, Ok [])), tr_replay := (\<lambda>p e. (e, Ok acked))\<rparr>"

definition wrap_if_discard :: "pydict \<Rightarrow> built_transport \<Rightarrow> built_transport" where
  "wrap_if_discard entry t = (if py_truthy (py_get entry ''discard'') then t\<lparr>tx_discard := True\<rparr> else t)"

subsection \<open>An entry\<close>

definition retry_of :: "fx_world \<Rightarrow> pyval \<Rightarrow> (pyval \<times> pyval) option res" where
  "retry_of w v = (if \<not> py_truthy v then Ok None
     else bind_res (as_mapping v) (\<lambda>d. bind_res (float_v w (get_or d ''base'' (PFloat 2))) (\<lambda>b.
       map_res (\<lambda>c. Some (b, c)) (float_v w (get_or d ''cap_sec'' (PFloat 300))))))"

definition default_start_at :: "origin \<Rightarrow> string" where
  "default_start_at o1 = (case o1 of Legacy \<Rightarrow> ''now'' | InFile _ \<Rightarrow> ''beginning'')"

record built_pipeline =
  bp_name :: string
  bp_source :: built_source
  bp_transport :: built_transport
  bp_identity :: station
  bp_retry :: "(pyval \<times> pyval) option"
  bp_limit :: int
  bp_per_pump :: "int option"
  bp_client :: string
  bp_governed :: bool
  bp_origin :: origin

definition entry_name :: "fx_world \<Rightarrow> pydict \<Rightarrow> nat \<Rightarrow> string" where
  "entry_name w entry i = (if py_truthy (py_get entry ''name'') then str_v w (py_get entry ''name'') else ''pipeline-'' @ str_of_nat i)"

definition build_entry :: "fx_world \<Rightarrow> pydict \<Rightarrow> origin \<Rightarrow> nat \<Rightarrow> pydict \<Rightarrow> built_pipeline res" where
  "build_entry w base o1 i entry = bind_res (bind_res (required entry ''source'') as_mapping) (\<lambda>ss.
     bind_res (build_source w (default_start_at o1) ss) (\<lambda>source.
     bind_res (bind_res (required entry ''transport'') as_mapping) (\<lambda>ts.
     bind_res (build_transport w ts) (\<lambda>t.
     bind_res (if py_truthy (py_get entry ''identity'') then map_res Some (as_mapping (py_get entry ''identity'')) else Ok None) (\<lambda>over.
     bind_res (retry_of w (py_get entry ''retry'')) (\<lambda>retry.
     bind_res (int_v (get_or entry ''batch_limit'' (PInt 1000))) (\<lambda>limit.
     map_res (\<lambda>per_pump. \<lparr>bp_name = entry_name w entry i, bp_source = source, bp_transport = wrap_if_discard entry t,
        bp_identity = build_identity w base over, bp_retry = retry, bp_limit = limit, bp_per_pump = per_pump,
        bp_client = text_or_empty (fx_str w) entry ''client'', bp_governed = py_truthy (get_or entry ''governed'' (PBool True)),
        bp_origin = o1\<rparr>)
       (case py_get entry ''max_records_per_pump'' of PNone \<Rightarrow> Ok None | v \<Rightarrow> map_res Some (int_v v)))))))))"

text \<open>\<open>build_pipelines\<close>: builder entries are passed over and do not count.\<close>

fun build_pipelines :: "fx_world \<Rightarrow> pydict \<Rightarrow> nat \<Rightarrow> pydict list \<Rightarrow> built_pipeline list res" where
  "build_pipelines w base i [] = Ok []"
| "build_pipelines w base i (e # es) = (if py_truthy (py_get e ''builder'') then build_pipelines w base i es
     else bind_res (build_entry w base Legacy i e) (\<lambda>p. map_res (Cons p) (build_pipelines w base (Suc i) es)))"

subsection \<open>The send-record key\<close>

text \<open>What the constructors give their \<open>name\<close> and \<open>primary_table\<close>: a keyword argument or a default.\<close>

definition kw_text :: "pydict \<Rightarrow> string \<Rightarrow> string \<Rightarrow> string" where
  "kw_text kw k d = (case map_of kw k of Some (PStr s) \<Rightarrow> s | _ \<Rightarrow> d)"

definition rstrip_slash :: "string \<Rightarrow> string" where
  "rstrip_slash s = rev (dropWhile (\<lambda>c. c = CHR ''/'') (rev s))"

definition psws_name :: "pydict \<Rightarrow> string" where
  "psws_name kw = ''psws-sftp:'' @ kw_text kw ''host'' [] @ '':'' @ kw_text kw ''instrument_id'' []"

definition pskreporter_name :: "pydict \<Rightarrow> string" where
  "pskreporter_name kw = ''pskreporter-tcp:'' @ kw_text kw ''host'' ''report.pskreporter.info'' @ '':''
     @ str_of_int (case map_of kw ''port'' of Some (PInt i) \<Rightarrow> i | _ \<Rightarrow> 4739)"

definition wsprnet_name :: "pydict \<Rightarrow> string" where
  "wsprnet_name kw = (let base = rstrip_slash (py_strip (kw_text kw ''api_base_url'' [])) in
     if base \<noteq> [] then ''wsprnet-async:'' @ base else ''wsprnet:http://wsprnet.org/meptspots.php'')"

definition wsprdaemon_name :: "pydict \<Rightarrow> string" where
  "wsprdaemon_name kw = ''wsprdaemon-tar-sftp:'' @ join '','' (case map_of kw ''servers'' of
     Some (PList vs) \<Rightarrow> map (\<lambda>v. case v of PStr s \<Rightarrow> s | _ \<Rightarrow> []) vs | _ \<Rightarrow> [])"

definition heartbeat_name :: "pydict \<Rightarrow> string" where
  "heartbeat_name kw = ''heartbeat-sftp:'' @ kw_text kw ''host'' []"

definition default_name :: "built_transport \<Rightarrow> string" where
  "default_name t = (let kw = tx_kw t in case tx_class t of PswsDatasetSftp \<Rightarrow> psws_name kw | PskReporterTcp \<Rightarrow> pskreporter_name kw
   | WsprNetClass \<Rightarrow> wsprnet_name kw | WsprdaemonTarSftp \<Rightarrow> wsprdaemon_name kw | HeartbeatSftpClass \<Rightarrow> heartbeat_name kw)"

definition transport_name :: "built_transport \<Rightarrow> string" where
  "transport_name t = (let n = kw_text (tx_kw t) ''name'' [] in if n \<noteq> [] then n else default_name t)"

definition transport_table :: "built_transport \<Rightarrow> string" where
  "transport_table t = (case tx_class t of
     PswsDatasetSftp \<Rightarrow> kw_text (tx_kw t) ''table'' ''mag.daily_zip''
   | PskReporterTcp \<Rightarrow> kw_text (tx_kw t) ''primary_table'' ''psk.spots''
   | WsprNetClass \<Rightarrow> ''wspr.spots''
   | WsprdaemonTarSftp \<Rightarrow> kw_text (tx_kw t) ''primary_table_name'' ''wspr.spots''
   | HeartbeatSftpClass \<Rightarrow> ''station.heartbeat'')"

definition source_key :: "fx_world \<Rightarrow> built_source \<Rightarrow> string" where
  "source_key w s = (case s of
     BuiltFiles a \<Rightarrow> if py_truthy (fa_source_id a) then str_v w (fa_source_id a) else ''files:'' @ path_text (path_of (fa_root a))
   | BuiltSqlite a \<Rightarrow> ''sqlite:'' @ sa_database a @ ''.'' @ sa_table a
       @ (if py_truthy (py_get (sa_rest a) ''producer'') then ''@'' @ str_v w (py_get (sa_rest a) ''producer'')
            @ (if py_truthy (py_get (sa_rest a) ''radiod_id'') then ''/'' @ str_v w (py_get (sa_rest a) ''radiod_id'') else []) else [])
   | BuiltWspr a \<Rightarrow> wspr_source_id)"

definition built_key :: "fx_world \<Rightarrow> built_pipeline \<Rightarrow> string \<times> string \<times> string" where
  "built_key w p = (source_key w (bp_source p), transport_name (bp_transport p), transport_table (bp_transport p))"

definition has_producer :: "built_source \<Rightarrow> bool" where
  "has_producer s = (case s of BuiltSqlite a \<Rightarrow> py_truthy (py_get (sa_rest a) ''producer'') | _ \<Rightarrow> False)"

end
