(* ===== verification/FactoryLaws.thy ===== *)
theory FactoryLaws
  imports Factory
begin

text \<open>The layout and the factory together: where a pipeline file's WSPR source starts.\<close>

lemma check_entries_start:
  "check_entries f client i es = Inl out \<Longrightarrow> e \<in> set out \<Longrightarrow> py_get e ''source'' = PDict s \<Longrightarrow> start_at_problem f s = None"
proof (induction es arbitrary: i out)
  case (Cons x es)
  obtain out' where o1: "(case py_get x ''source'' of PDict s \<Rightarrow> start_at_problem f s | _ \<Rightarrow> None) = None" "check_entries f client (Suc i) es = Inl out'"
    "out = dict_set ''client'' (PStr client) x # out'"
    using Cons.prems(1) by (auto split: if_splits option.splits sum.splits)
  show ?case
  proof (cases "e \<in> set out'")
    case False
    then have "e = dict_set ''client'' (PStr client) x" using Cons.prems(2) o1(3) by simp
    then have "py_get x ''source'' = PDict s" using Cons.prems(3) by (simp add: py_get_def)
    then show ?thesis using o1(1) by simp
  qed (use Cons.IH [OF o1(2)] Cons.prems(3) in blast)
qed simp

lemma required_source: "bind_res (required e ''source'') as_mapping = Ok s \<Longrightarrow> py_get e ''source'' = PDict s"
  by (auto simp: required_def as_mapping_def py_get_def split: option.splits pyval.splits)

text \<open>A file's WSPR source starts at the beginning.  Whatever a pipeline file of the directory says, a WSPR
  cycle source the factory builds from an accepted entry of it starts at the beginning, so no cycle is
  passed over; only a legacy entry may start at now.\<close>

theorem file_wspr_starts_at_the_beginning:
  assumes "load_layout d m = Ok l" "(e, InFile n) \<in> set (ly_entries l)" "fx_str w = pw_str d"
    and "build_entry w base (InFile n) i e = Ok p" "bp_source p = BuiltWspr a"
  shows "wa_start_at a = ''beginning''"
proof -
  obtain es0 where "ly_entries l = map (\<lambda>e. (e, Legacy)) (filter (\<lambda>e. entry_client d e \<notin> file_stem ` set (pipeline_names d)) es0)
      @ fst (read_files d (pipeline_names d))" using load_layout_Ok [OF assms(1)] by metis
  then have "(e, InFile n) \<in> set (fst (read_files d (pipeline_names d)))" using assms(2) by auto
  then obtain out where out: "read_file d n = Inl out" "e \<in> set out" unfolding read_files_entries by blast
  then obtain data where "check_file (pw_str d) n data = Inl out" using read_file_Inl by blast
  then obtain es where es: "check_entries (pw_str d) (file_stem n) 0 es = Inl out"
    by (auto simp: check_file_def split: if_splits option.splits pyval.splits)
  obtain s where s: "bind_res (required e ''source'') as_mapping = Ok s" "build_source w ''beginning'' s = Ok (BuiltWspr a)"
    using assms(4,5) unfolding build_entry_def default_start_at_def bind_res_Ok map_res_Ok origin.case by force
  have none: "start_at_problem (pw_str d) s = None" by (rule check_entries_start [OF es out(2) required_source [OF s(1)]])
  have ty: "spec_type w s = ''wspr_cycle''" "wspr_source w ''beginning'' s = Ok (BuiltWspr a)"
    using s(2) by (auto simp: build_source_def files_source_def sqlite_source_def Let_def split: if_splits option.splits)
  have "get_or s ''start_at'' (PStr ''beginning'') = PStr ''beginning''"
    using none ty(1) assms(3) by (auto simp: start_at_problem_def wspr_typed_def spec_type_def get_or_def split: option.splits if_splits)
  then show ?thesis using ty(2) by (auto simp: wspr_source_def text_of_value_def)
qed

text \<open>A directory with one WSPR pipeline file.\<close>

definition wspr_entry :: pydict where
  "wspr_entry = [(''source'', PDict [(''type'', PStr ''wspr_cycle'')]), (''transport'', PDict [(''type'', PStr ''pskreporter'')]),
     (''client'', PStr ''w'')]"

definition wspr_dir :: pd_world where
  "wspr_dir = \<lparr>pw_listing = Listed (0, 0, 0) [''w.toml''], pw_stat_key = (\<lambda>_. None), pw_stat = (\<lambda>_. Regular),
     pw_toml = (\<lambda>_. Ok [(''pipeline'', PList [PDict wspr_entry])]), pw_str = (\<lambda>_. [])\<rparr>"

definition plain_fx :: fx_world where "plain_fx = \<lparr>fx_str = (\<lambda>_. []), fx_float = (\<lambda>_. None), fx_construct = (\<lambda>_ _. None)\<rparr>"

lemma wspr_dir_loads: "load_layout wspr_dir [] = Ok \<lparr>ly_manifest = [], ly_entries = [(wspr_entry, InFile ''w.toml'')], ly_refused = [],
    ly_signature = Seen (0, 0, 0) [(''w.toml'', None)]\<rparr>"
  by code_simp

lemma wspr_entry_builds: "case build_entry plain_fx [] (InFile ''w.toml'') 0 wspr_entry of
    Ok p \<Rightarrow> (case bp_source p of BuiltWspr a \<Rightarrow> True | _ \<Rightarrow> False) | Raise _ \<Rightarrow> False"
  by code_simp

lemma file_wspr_starts_at_the_beginning_witness:
  "\<exists>p a. build_entry plain_fx [] (InFile ''w.toml'') 0 wspr_entry = Ok p \<and> bp_source p = BuiltWspr a \<and> wa_start_at a = ''beginning''"
proof -
  obtain p a where b: "build_entry plain_fx [] (InFile ''w.toml'') 0 wspr_entry = Ok p" "bp_source p = BuiltWspr a"
    using wspr_entry_builds by (auto split: res.splits built_source.splits)
  have "wa_start_at a = ''beginning''"
    by (rule file_wspr_starts_at_the_beginning [OF wspr_dir_loads _ _ b]) (simp_all add: plain_fx_def wspr_dir_def)
  then show ?thesis using b by blast
qed

end
