(* ===== verification/Daemon.thy ===== *)
theory Daemon
  imports Factory Gate
begin

text \<open>
  The daemon's pipelines, \<open>daemon.py\<close>: building a layout with what the previous build may lend,
  refusing files that fail or collide, the store check, the starting records, and the rebuilder.

  A pipeline object is a record with an identity; building hands out fresh identities and closing
  notes them.  Parameters: what a client's own builder returns, what a source answers as its initial
  cursor, a refusal's text, whether reading the store's version or writing its rows raises.  Log lines
  of a build are left out.
\<close>

subsection \<open>Pipelines and worlds\<close>

record pipe =
  pp_id :: nat
  pp_gate :: gate_pipe
  pp_key :: send_key
  pp_producer :: bool
  pp_origin :: origin

abbreviation pp_name :: "pipe \<Rightarrow> string" where "pp_name p \<equiv> gp_name (pp_gate p)"

record build_desc =
  ds_name :: string
  ds_key :: send_key
  ds_transport :: transport_kind
  ds_producer :: bool

record daemon_world =
  dw_dir :: pd_world
  dw_fx :: fx_world
  dw_gate :: gate_world
  dw_builder :: "pydict \<Rightarrow> build_desc list res"
  dw_initial :: "nat \<Rightarrow> bytes option res option"
  dw_reason :: "refusal_reason \<Rightarrow> string"
  dw_version_error :: "exn option"
  dw_record_error :: "exn option"
  dw_stamp :: string

record objects =
  ob_next :: nat
  ob_closed :: "nat list"

definition close_quietly :: "pipe list \<Rightarrow> objects \<Rightarrow> objects" where
  "close_quietly ps ob = ob\<lparr>ob_closed := ob_closed ob @ map pp_id ps\<rparr>"

subsection \<open>Equal entries\<close>

text \<open>Python's \<open>==\<close> on the values of a TOML file: numbers by value, tables in any order; a NaN is taken
  to be another object each time it is read.\<close>

definition number_of :: "pyval \<Rightarrow> rat option" where
  "number_of v = (case v of PBool b \<Rightarrow> Some (if b then 1 else 0) | PInt i \<Rightarrow> Some (of_int i) | PFloat r \<Rightarrow> Some r | _ \<Rightarrow> None)"

function (sequential) same_value :: "pyval \<Rightarrow> pyval \<Rightarrow> bool" where
  "same_value (PList xs) (PList ys) = (length xs = length ys \<and> list_all (\<lambda>(x, y). same_value x y) (zip xs ys))"
| "same_value (PDict a) (PDict b) = (length a = length b
     \<and> list_all (\<lambda>(k, v). case map_of b k of Some v' \<Rightarrow> same_value v v' | None \<Rightarrow> False) a)"
| "same_value PNaN PNaN = False"
| "same_value v v' = (case (number_of v, number_of v') of (Some x, Some y) \<Rightarrow> x = y | (None, None) \<Rightarrow> v = v' | _ \<Rightarrow> False)"
  by pat_completeness auto
termination
proof (relation "measure (\<lambda>(v, v'). size v)")
  fix xs ys :: "pyval list" and z x y assume "z \<in> set (zip xs ys)" "(x, y) = z"
  then have "x \<in> set xs" by (auto dest: set_zip_leftD)
  then show "((x, y), PList xs, PList ys) \<in> measure (\<lambda>(v, v'). size v)"
    using size_list_estimation' [of x xs "size x" size] by (simp add: less_Suc_eq_le)
next
  fix a b :: pydict and z k v v' assume "z \<in> set a" "(k, v) = z"
  then have "(k, v) \<in> set a" by simp
  then have "size v < size_list (size_prod (\<lambda>x. 0) size) a" by (induction a) auto
  then show "((v, v'), PDict a, PDict b) \<in> measure (\<lambda>(v, v'). size v)" by simp
qed simp

abbreviation same_entry :: "pydict \<Rightarrow> pydict \<Rightarrow> bool" where "same_entry a b \<equiv> same_value (PDict a) (PDict b)"

definition same_entries :: "pydict list \<Rightarrow> pydict list \<Rightarrow> bool" where
  "same_entries as bs \<longleftrightarrow> length as = length bs \<and> list_all2 same_entry as bs"

subsection \<open>Slots\<close>

record slot =
  sl_origin :: origin
  sl_index :: "nat option"
  sl_entry :: pydict
  sl_pipes :: "pipe list"

record build =
  bd_pipelines :: "pipe list"
  bd_refused :: "refusal list"
  bd_slots :: "slot list"
  bd_good :: "(string \<times> pydict list) list"
  bd_fresh :: "pipe list"

definition empty_build :: build where
  "empty_build = \<lparr>bd_pipelines = [], bd_refused = [], bd_slots = [], bd_good = [], bd_fresh = []\<rparr>"

fun take_slot :: "origin \<Rightarrow> nat option \<Rightarrow> pydict \<Rightarrow> slot list \<Rightarrow> (slot \<times> slot list) option" where
  "take_slot o1 i e [] = None"
| "take_slot o1 i e (s # ss) = (if sl_origin s = o1 \<and> sl_index s = i \<and> same_entry (sl_entry s) e then Some (s, ss)
     else map_option (\<lambda>(x, r). (x, s # r)) (take_slot o1 i e ss))"

definition is_builder :: "pydict \<Rightarrow> bool" where "is_builder e \<longleftrightarrow> py_truthy (py_get e ''builder'')"

definition naming_index :: "pydict \<Rightarrow> nat \<Rightarrow> nat option" where
  "naming_index e i = (if py_truthy (py_get e ''name'') \<or> is_builder e then None else Some i)"

subsection \<open>Building one entry\<close>

fun gate_kind :: "built_transport \<Rightarrow> transport_kind" where
  "gate_kind t = (let k = (if tx_class t = HeartbeatSftpClass then Heartbeat else OtherTransport) in
     if tx_discard t then DiscardOf k else k)"

definition describe :: "fx_world \<Rightarrow> built_pipeline \<Rightarrow> build_desc" where
  "describe w p = \<lparr>ds_name = bp_name p, ds_key = built_key w p, ds_transport = gate_kind (bp_transport p),
     ds_producer = has_producer (bp_source p)\<rparr>"

definition make_pipe :: "fx_world \<Rightarrow> pydict \<Rightarrow> origin \<Rightarrow> build_desc \<Rightarrow> nat \<Rightarrow> pipe" where
  "make_pipe w e o1 d i = \<lparr>pp_id = i, pp_gate = \<lparr>gp_name = ds_name d, gp_origin = origin_text o1,
      gp_client = text_or_empty (fx_str w) e ''client'', gp_governed = py_truthy (get_or e ''governed'' (PBool True)),
      gp_transport = ds_transport d\<rparr>, pp_key = ds_key d, pp_producer = ds_producer d, pp_origin = o1\<rparr>"

definition make_pipes :: "fx_world \<Rightarrow> pydict \<Rightarrow> origin \<Rightarrow> build_desc list \<Rightarrow> objects \<Rightarrow> objects \<times> pipe list" where
  "make_pipes w e o1 ds ob = (ob\<lparr>ob_next := ob_next ob + length ds\<rparr>, map2 (make_pipe w e o1) ds [ob_next ob ..< ob_next ob + length ds])"

definition wrap_kind :: "pydict \<Rightarrow> build_desc \<Rightarrow> build_desc" where
  "wrap_kind e d = (if py_truthy (py_get e ''discard'') then d\<lparr>ds_transport := DiscardOf (ds_transport d)\<rparr> else d)"

text \<open>An \<open>identity\<close> that is no table is outside the model.\<close>

definition base_identity :: "pydict \<Rightarrow> pydict" where
  "base_identity m = (case py_get m ''identity'' of PDict d \<Rightarrow> d | _ \<Rightarrow> [])"

text \<open>The builder's spec must hold a colon; the module is the client's code.\<close>

definition run_builder :: "daemon_world \<Rightarrow> pydict \<Rightarrow> build_desc list res" where
  "run_builder w e = (if CHR '':'' \<notin> set (text_of_value (fx_str (dw_fx w)) (py_get e ''builder''))
     then Raise (value_error ''builder must be module:function'')
     else map_res (map (wrap_kind e)) (dw_builder w e))"

definition build_one :: "daemon_world \<Rightarrow> pydict \<Rightarrow> pydict \<Rightarrow> origin \<Rightarrow> nat \<Rightarrow> objects \<Rightarrow> objects \<times> pipe list res" where
  "build_one w m e o1 i ob = (case (if is_builder e then run_builder w e
       else map_res (\<lambda>p. [describe (dw_fx w) p]) (build_entry (dw_fx w) (base_identity m) o1 i e)) of
     Raise x \<Rightarrow> (ob, Raise x)
   | Ok ds \<Rightarrow> (let (ob', ps) = make_pipes (dw_fx w) e o1 ds ob in (ob', Ok ps)))"

subsection \<open>The legacy manifest\<close>

text \<open>A generic entry that fails raises when strict, the fresh ones closed; else it builds nothing.\<close>

fun legacy_generic :: "daemon_world \<Rightarrow> pydict \<Rightarrow> bool \<Rightarrow> nat \<Rightarrow> pydict list \<Rightarrow> slot list \<Rightarrow> pipe list \<Rightarrow> objects
    \<Rightarrow> objects \<times> (slot list \<times> slot list \<times> pipe list) res" where
  "legacy_generic w m strict i [] pool fresh ob = (ob, Ok ([], pool, fresh))"
| "legacy_generic w m strict i (e # es) pool fresh ob = (case take_slot Legacy (naming_index e i) e pool of
     Some (s, pool') \<Rightarrow> (case legacy_generic w m strict (Suc i) es pool' fresh ob of
         (ob', r) \<Rightarrow> (ob', map_res (\<lambda>(ss, q). (s # ss, q)) r))
   | None \<Rightarrow> (case build_one w m e Legacy i ob of
       (ob1, r1) \<Rightarrow> (case (r1, strict) of
           (Raise x, True) \<Rightarrow> (close_quietly fresh ob1, Raise x)
         | _ \<Rightarrow> (let ps = (case r1 of Ok ps \<Rightarrow> ps | Raise _ \<Rightarrow> []) in
             case legacy_generic w m strict (Suc i) es pool (fresh @ ps) ob1 of
               (ob', r) \<Rightarrow> (ob', map_res (\<lambda>(ss, q). (\<lparr>sl_origin = Legacy, sl_index = naming_index e i, sl_entry = e, sl_pipes = ps\<rparr> # ss, q)) r)))))"

fun legacy_builders :: "daemon_world \<Rightarrow> pydict \<Rightarrow> pydict list \<Rightarrow> slot list \<Rightarrow> pipe list \<Rightarrow> objects
    \<Rightarrow> objects \<times> slot list \<times> slot list \<times> pipe list" where
  "legacy_builders w m [] pool fresh ob = (ob, [], pool, fresh)"
| "legacy_builders w m (e # es) pool fresh ob = (case take_slot Legacy None e pool of
     Some (s, pool') \<Rightarrow> (let (ob', ss, q) = legacy_builders w m es pool' fresh ob in (ob', s # ss, q))
   | None \<Rightarrow> (let (ob1, r1) = build_one w m e Legacy 0 ob; ps = (case r1 of Ok ps \<Rightarrow> ps | Raise _ \<Rightarrow> []);
         (ob', ss, q) = legacy_builders w m es pool (fresh @ ps) ob1
       in (ob', \<lparr>sl_origin = Legacy, sl_index = None, sl_entry = e, sl_pipes = ps\<rparr> # ss, q)))"

definition build_legacy :: "daemon_world \<Rightarrow> pydict \<Rightarrow> bool \<Rightarrow> pydict list \<Rightarrow> slot list \<Rightarrow> objects
    \<Rightarrow> objects \<times> (slot list \<times> slot list \<times> pipe list) res" where
  "build_legacy w m strict es pool ob = (case legacy_generic w m strict 0 (filter (\<lambda>e. \<not> is_builder e) es) pool [] ob of
     (ob1, Raise x) \<Rightarrow> (ob1, Raise x)
   | (ob1, Ok (ss, pool1, fresh)) \<Rightarrow> (let (ob2, ss2, pool2, fresh2) = legacy_builders w m (filter is_builder es) pool1 fresh ob1
       in (ob2, Ok (ss @ ss2, pool2, fresh2))))"

subsection \<open>One file\<close>

record file_build =
  fb_slots :: "slot list"
  fb_taken :: "slot list"
  fb_fresh :: "pipe list"
  fb_pool :: "slot list"

text \<open>Whole or not at all: a failed entry closes the fresh ones and gives the reused ones back.\<close>

fun build_file :: "daemon_world \<Rightarrow> pydict \<Rightarrow> origin \<Rightarrow> nat \<Rightarrow> pydict list \<Rightarrow> file_build \<Rightarrow> objects
    \<Rightarrow> objects \<times> (file_build + refusal_reason) \<times> slot list" where
  "build_file w m o1 i [] b ob = (ob, Inl b, fb_pool b)"
| "build_file w m o1 i (e # es) b ob = (case take_slot o1 (naming_index e i) e (fb_pool b) of
     Some (s, pool') \<Rightarrow> build_file w m o1 (Suc i) es (b\<lparr>fb_slots := fb_slots b @ [s], fb_taken := fb_taken b @ [s], fb_pool := pool'\<rparr>) ob
   | None \<Rightarrow> (case build_one w m e o1 i ob of
       (ob1, Raise x) \<Rightarrow> (close_quietly (fb_fresh b) ob1, Inr (BuildFailed i x), fb_pool b @ fb_taken b)
     | (ob1, Ok ps) \<Rightarrow> build_file w m o1 (Suc i) es (b\<lparr>fb_slots := fb_slots b @ [\<lparr>sl_origin = o1, sl_index = naming_index e i,
           sl_entry = e, sl_pipes = ps\<rparr>], fb_fresh := fb_fresh b @ ps\<rparr>) ob1))"

subsection \<open>Collisions\<close>

type_synonym taken_names = "(string \<times> pipe) list"
type_synonym taken_keys = "(send_key \<times> pipe) list"

definition collision :: "pipe \<Rightarrow> taken_names \<Rightarrow> taken_keys \<Rightarrow> pipe option" where
  "collision p names keys = (case map_of names (pp_name p) of Some q \<Rightarrow> Some q | None \<Rightarrow> map_of keys (pp_key p))"

fun admit :: "pipe list \<Rightarrow> taken_names \<Rightarrow> taken_keys \<Rightarrow> (taken_names \<times> taken_keys) + refusal_reason" where
  "admit [] names keys = Inl (names, keys)"
| "admit (p # ps) names keys = (case collision p names keys of
     Some q \<Rightarrow> Inr (Collides (pp_name p) (pp_name q))
   | None \<Rightarrow> admit ps (dict_set (pp_name p) p names) (dict_set (pp_key p) p keys))"

definition set_default :: "'k \<Rightarrow> 'v \<Rightarrow> ('k \<times> 'v) list \<Rightarrow> ('k \<times> 'v) list" where
  "set_default k v d = (if map_of d k = None then d @ [(k, v)] else d)"

definition slot_pipes :: "slot list \<Rightarrow> pipe list" where "slot_pipes ss = concat (map sl_pipes ss)"

subsection \<open>Assembling\<close>

record assembly =
  as_pool :: "slot list"
  as_names :: taken_names
  as_keys :: taken_keys
  as_accepted :: "(string \<times> slot list) list"
  as_good :: "(string \<times> pydict list) list"
  as_refused :: "refusal list"
  as_fresh :: "pipe list"
  as_objects :: objects

definition try_file :: "daemon_world \<Rightarrow> pydict \<Rightarrow> string \<Rightarrow> pydict list \<Rightarrow> assembly \<Rightarrow> assembly \<times> refusal_reason option" where
  "try_file w m f entries a = (case build_file w m (InFile f) 0 entries \<lparr>fb_slots = [], fb_taken = [], fb_fresh = [], fb_pool = as_pool a\<rparr> (as_objects a) of
     (ob, Inr r, pool) \<Rightarrow> (a\<lparr>as_pool := pool, as_objects := ob\<rparr>, Some r)
   | (ob, Inl b, _) \<Rightarrow> (case admit (slot_pipes (fb_slots b)) (as_names a) (as_keys a) of
       Inr r \<Rightarrow> (a\<lparr>as_pool := fb_pool b @ fb_taken b, as_objects := close_quietly (fb_fresh b) ob\<rparr>, Some r)
     | Inl (names, keys) \<Rightarrow> (a\<lparr>as_pool := fb_pool b, as_names := names, as_keys := keys, as_objects := ob,
         as_accepted := dict_set f (fb_slots b) (as_accepted a), as_good := dict_set f entries (as_good a),
         as_fresh := as_fresh a @ fb_fresh b\<rparr>, None)))"

text \<open>A file that now fails keeps what it last built, unless that collides.\<close>

definition keep_last :: "daemon_world \<Rightarrow> pydict \<Rightarrow> (string \<times> pydict list) list \<Rightarrow> string \<Rightarrow> assembly \<Rightarrow> assembly" where
  "keep_last w m prev_good f a = (case map_of prev_good f of None \<Rightarrow> a | Some entries \<Rightarrow> fst (try_file w m f entries a))"

definition refuse :: "refusal \<Rightarrow> assembly \<Rightarrow> assembly" where
  "refuse r a = a\<lparr>as_refused := as_refused a @ [r]\<rparr>"

definition file_entries :: "layout \<Rightarrow> string \<Rightarrow> pydict list" where
  "file_entries l f = map fst (filter (\<lambda>(e, o1). o1 = InFile f) (ly_entries l))"

definition layout_files :: "layout \<Rightarrow> string list" where
  "layout_files l = remdups (List.map_filter (\<lambda>(e, o1). case o1 of InFile f \<Rightarrow> Some f | Legacy \<Rightarrow> None) (ly_entries l))"

definition load_refused :: "layout \<Rightarrow> string \<Rightarrow> refusal option" where
  "load_refused l f = find (\<lambda>r. rf_file r = f) (ly_refused l)"

definition file_step :: "daemon_world \<Rightarrow> layout \<Rightarrow> (string \<times> pydict list) list \<Rightarrow> string \<Rightarrow> assembly \<Rightarrow> assembly" where
  "file_step w l prev_good f a = (case load_refused l f of
     Some r \<Rightarrow> keep_last w (ly_manifest l) prev_good f (refuse r a)
   | None \<Rightarrow> (case try_file w (ly_manifest l) f (file_entries l f) a of
       (a1, None) \<Rightarrow> a1
     | (a1, Some reason) \<Rightarrow> keep_last w (ly_manifest l) prev_good f
         (refuse \<lparr>rf_file = f, rf_client = file_stem f, rf_reason = reason\<rparr> a1)))"

definition unchanged :: "layout \<Rightarrow> (string \<times> pydict list) list \<Rightarrow> string \<Rightarrow> bool" where
  "unchanged l prev_good f \<longleftrightarrow> f \<in> set (layout_files l)
     \<and> (case map_of prev_good f of Some es \<Rightarrow> same_entries es (file_entries l f) | None \<Rightarrow> False)"

text \<open>Files whose entries match their last good build go first.\<close>

definition file_order :: "layout \<Rightarrow> (string \<times> pydict list) list \<Rightarrow> string list" where
  "file_order l prev_good = (let fs = sort (remdups (layout_files l @ map rf_file (ly_refused l))) in
     filter (unchanged l prev_good) fs @ filter (\<lambda>f. \<not> unchanged l prev_good f) fs)"

definition start_assembly :: "slot list \<Rightarrow> slot list \<Rightarrow> pipe list \<Rightarrow> objects \<Rightarrow> assembly" where
  "start_assembly lss pool fresh ob = \<lparr>as_pool = pool, as_names = fold (\<lambda>p. set_default (pp_name p) p) (slot_pipes lss) [],
     as_keys = fold (\<lambda>p. set_default (pp_key p) p) (slot_pipes lss) [], as_accepted = [], as_good = [], as_refused = [],
     as_fresh = fresh, as_objects = ob\<rparr>"

definition finish :: "slot list \<Rightarrow> assembly \<Rightarrow> build" where
  "finish lss a = (let slots = lss @ concat (map (\<lambda>f. the (map_of (as_accepted a) f)) (sort (map fst (as_accepted a))));
      ps = slot_pipes slots in
    \<lparr>bd_pipelines = ps, bd_refused = as_refused a, bd_slots = slots, bd_good = as_good a,
     bd_fresh = filter (\<lambda>p. pp_id p \<in> pp_id ` set (as_fresh a)) ps\<rparr>)"

definition assemble :: "daemon_world \<Rightarrow> layout \<Rightarrow> build \<Rightarrow> bool \<Rightarrow> objects \<Rightarrow> objects \<times> build res" where
  "assemble w l previous strict ob = (case build_legacy w (ly_manifest l) strict
       (map fst (filter (\<lambda>(e, o1). o1 = Legacy) (ly_entries l))) (bd_slots previous) ob of
     (ob1, Raise x) \<Rightarrow> (ob1, Raise x)
   | (ob1, Ok (lss, pool, fresh)) \<Rightarrow> (let a = fold (file_step w l (bd_good previous)) (file_order l (bd_good previous))
         (start_assembly lss pool fresh ob1) in (as_objects a, Ok (finish lss a))))"

text \<open>\<open>build_layout\<close>, the start's build for a caller without a rebuilder, and \<open>build_all_pipelines\<close>, the
  legacy manifest alone: a generic entry that fails raises, a builder that fails is passed over.\<close>

definition build_layout :: "daemon_world \<Rightarrow> layout \<Rightarrow> objects \<Rightarrow> objects \<times> (pipe list \<times> refusal list) res" where
  "build_layout w l ob = (case assemble w l empty_build True ob of (ob', r) \<Rightarrow> (ob', map_res (\<lambda>b. (bd_pipelines b, bd_refused b)) r))"

fun run_builders :: "daemon_world \<Rightarrow> pydict list \<Rightarrow> build_desc list" where
  "run_builders w [] = []"
| "run_builders w (e # es) = (if is_builder e then (case run_builder w e of Ok ds \<Rightarrow> ds | Raise _ \<Rightarrow> []) else []) @ run_builders w es"

definition build_all_pipelines :: "daemon_world \<Rightarrow> pydict \<Rightarrow> build_desc list res" where
  "build_all_pipelines w m = bind_res (manifest_entries m) (\<lambda>es.
     map_res (\<lambda>ps. map (describe (dw_fx w)) ps @ run_builders w es) (build_pipelines (dw_fx w) (base_identity m) 0 es))"

subsection \<open>Views\<close>

text \<open>\<open>pipe_views\<close>: what \<open>sink status\<close> shows the gate of each entry, no source and no store built.\<close>

record pipe_view =
  vw_name :: string
  vw_client :: string
  vw_governed :: bool
  vw_origin :: origin
  vw_transport :: "built_transport option"
  vw_builder :: bool

definition entry_view :: "fx_world \<Rightarrow> origin \<Rightarrow> nat \<Rightarrow> pydict \<Rightarrow> pipe_view" where
  "entry_view w o1 i e = \<lparr>vw_name = (if \<not> is_builder e then entry_name w e i
       else str_v w (if py_truthy (py_get e ''name'') then py_get e ''name'' else py_get e ''builder'')),
     vw_client = text_or_empty (fx_str w) e ''client'', vw_governed = py_truthy (get_or e ''governed'' (PBool True)), vw_origin = o1,
     vw_transport = (if is_builder e then None
       else case bind_res (bind_res (required e ''transport'') as_mapping) (build_transport w) of
         Ok t \<Rightarrow> Some (wrap_if_discard e t) | Raise _ \<Rightarrow> None),
     vw_builder = is_builder e\<rparr>"

fun pipe_views :: "fx_world \<Rightarrow> nat \<Rightarrow> (string \<times> nat) list \<Rightarrow> (pydict \<times> origin) list \<Rightarrow> pipe_view list" where
  "pipe_views w legacy_i file_i [] = []"
| "pipe_views w legacy_i file_i ((e, Legacy) # es) = entry_view w Legacy legacy_i e
     # pipe_views w (if is_builder e then legacy_i else Suc legacy_i) file_i es"
| "pipe_views w legacy_i file_i ((e, InFile f) # es) = (let i = (case map_of file_i f of Some n \<Rightarrow> n | None \<Rightarrow> 0) in
     entry_view w (InFile f) i e # pipe_views w legacy_i (dict_set f (Suc i) file_i) es)"

definition view_gate :: "pipe_view \<Rightarrow> gate_pipe" where
  "view_gate v = \<lparr>gp_name = vw_name v, gp_origin = origin_text (vw_origin v), gp_client = vw_client v, gp_governed = vw_governed v,
     gp_transport = (case vw_transport v of Some t \<Rightarrow> gate_kind t | None \<Rightarrow> OtherTransport)\<rparr>"

text \<open>The gate judges the view of a generic entry as it judges the pipeline the entry builds.\<close>

lemma entry_view_gate:
  assumes "\<not> is_builder e" "build_one w m e o1 i ob = (ob', Ok ps)"
  shows "\<exists>p. ps = [p] \<and> pp_gate p = view_gate (entry_view (dw_fx w) o1 i e)"
proof -
  obtain b where b: "build_entry (dw_fx w) (base_identity m) o1 i e = Ok b"
    and ps: "ps = [make_pipe (dw_fx w) e o1 (describe (dw_fx w) b) (ob_next ob)]"
    using assms unfolding build_one_def make_pipes_def by (auto simp: Let_def upt_rec split: res.splits)
  obtain ts t where t: "bind_res (required e ''transport'') as_mapping = Ok ts" "build_transport (dw_fx w) ts = Ok t"
    "bp_transport b = wrap_if_discard e t" "bp_name b = entry_name (dw_fx w) e i"
    using b unfolding build_entry_def bind_res_Ok map_res_Ok by force
  have "bind_res (bind_res (required e ''transport'') as_mapping) (build_transport (dw_fx w)) = Ok t" unfolding t(1) using t(2) by simp
  then have "vw_transport (entry_view (dw_fx w) o1 i e) = Some (wrap_if_discard e t)" using assms(1) unfolding entry_view_def by (simp del: bind_res_Ok)
  then show ?thesis using assms(1) t(3,4) unfolding ps make_pipe_def view_gate_def describe_def
    by (simp add: entry_view_def del: gate_kind.simps)
qed

end
