(* ===== verification/DaemonLaws.thy ===== *)
theory DaemonLaws
  imports Daemon "HOL-Library.Multiset"
begin

text \<open>
  The properties of a build: no pipeline of a file shares a name or a key with another, everything
  built is running or closed, and building an unchanged layout again builds nothing.
\<close>

subsection \<open>Objects\<close>

text \<open>What a step built since \<open>ob\<close>: closed by now, or among \<open>ps\<close>.\<close>

definition accounted :: "objects \<Rightarrow> objects \<Rightarrow> pipe list \<Rightarrow> bool" where
  "accounted ob ob' ps \<longleftrightarrow> ob_next ob \<le> ob_next ob' \<and> set (ob_closed ob) \<subseteq> set (ob_closed ob')
     \<and> (\<forall>i. ob_next ob \<le> i \<and> i < ob_next ob' \<longrightarrow> i \<in> set (ob_closed ob') \<or> i \<in> pp_id ` set ps)"

lemma accounted_refl [simp]: "accounted ob ob ps"
  by (auto simp: accounted_def)

lemma accounted_trans: "accounted a b ps \<Longrightarrow> accounted b c qs \<Longrightarrow> set ps \<subseteq> set rs \<Longrightarrow> set qs \<subseteq> set rs \<Longrightarrow> accounted a c rs"
  unfolding accounted_def by (meson image_mono le_trans not_le subset_iff)

lemma accounted_more: "accounted a b ps \<Longrightarrow> set ps \<subseteq> set qs \<Longrightarrow> accounted a b qs"
  using accounted_trans [of a b ps b "[]"] by simp

lemma accounted_closed: "accounted a b ps \<Longrightarrow> pp_id ` set ps \<subseteq> set (ob_closed b) \<Longrightarrow> accounted a b qs"
  unfolding accounted_def by blast

lemma accounted_close: "accounted a b ps \<Longrightarrow> set ps \<subseteq> set cs \<Longrightarrow> accounted a (close_quietly cs b) qs"
proof -
  assume a: "accounted a b ps" and s: "set ps \<subseteq> set cs"
  have "accounted a (close_quietly cs b) ps" using a unfolding accounted_def close_quietly_def by simp blast
  then show ?thesis by (rule accounted_closed) (use s in \<open>auto simp: close_quietly_def\<close>)
qed

lemma build_one_accounted: "build_one w m e o1 i ob = (ob', r) \<Longrightarrow> accounted ob ob' (case r of Ok ps \<Rightarrow> ps | Raise _ \<Rightarrow> [])"
proof -
  have ids: "map pp_id (map2 (make_pipe f e o1) ds [a ..< a + length ds]) = [a ..< a + length ds]" for f ds a
    by (rule nth_equalityI) (simp_all add: make_pipe_def)
  assume b: "build_one w m e o1 i ob = (ob', r)"
  show ?thesis
  proof (cases r)
    case (Ok ps)
    then obtain ds where "ob' = ob\<lparr>ob_next := ob_next ob + length ds\<rparr>" "ps = map2 (make_pipe (dw_fx w) e o1) ds [ob_next ob ..< ob_next ob + length ds]"
      using b by (auto simp: build_one_def make_pipes_def Let_def split: res.splits)
    then show ?thesis using Ok ids [of "dw_fx w" ds "ob_next ob"] by (simp add: accounted_def flip: set_map)
  next
    case (Raise x)
    then show ?thesis using b by (auto simp: build_one_def make_pipes_def Let_def split: res.splits)
  qed
qed

lemma build_one_origin: "build_one w m e o1 i ob = (ob', Ok ps) \<Longrightarrow> p \<in> set ps \<Longrightarrow> pp_origin p = o1"
  by (auto simp: build_one_def make_pipes_def make_pipe_def Let_def in_set_zip split: res.splits)

subsection \<open>Slots\<close>

definition slot_for :: "origin \<Rightarrow> nat option \<Rightarrow> pydict \<Rightarrow> slot \<Rightarrow> bool" where
  "slot_for o1 i e s \<longleftrightarrow> sl_origin s = o1 \<and> sl_index s = i \<and> (sl_entry s = e \<or> same_entry (sl_entry s) e)"

definition own_slot :: "slot \<Rightarrow> bool" where
  "own_slot s \<longleftrightarrow> (\<forall>p \<in> set (sl_pipes s). pp_origin p = sl_origin s)"

lemma take_slot_Some:
  "take_slot o1 i e pool = Some (s, pool') \<Longrightarrow> slot_for o1 i e s \<and> s \<in> set pool \<and> set pool' \<subseteq> set pool"
  by (induction pool arbitrary: s pool') (auto simp: slot_for_def split: if_splits)

lemma take_slot_head: "slot_for o1 i e s \<Longrightarrow> same_entry e e \<Longrightarrow> take_slot o1 i e (s # pool) = Some (s, pool)"
  by (auto simp: slot_for_def)

lemma slot_pipes_simps [simp]:
  "slot_pipes [] = []" "slot_pipes (s # ss) = sl_pipes s @ slot_pipes ss" "slot_pipes (ss @ ts) = slot_pipes ss @ slot_pipes ts"
  by (simp_all add: slot_pipes_def)

lemma new_slot_own: "build_one w m e o1 i ob = (ob', Ok ps) \<Longrightarrow> own_slot \<lparr>sl_origin = o1, sl_index = k, sl_entry = e, sl_pipes = ps\<rparr>"
  by (auto simp: own_slot_def dest: build_one_origin)

text \<open>The slots that stand for a list of entries from place \<open>i\<close> on.\<close>

fun slots_for :: "origin \<Rightarrow> nat \<Rightarrow> pydict list \<Rightarrow> slot list \<Rightarrow> bool" where
  "slots_for o1 i [] ss = (ss = [])"
| "slots_for o1 i (e # es) ss = (case ss of [] \<Rightarrow> False | s # ss' \<Rightarrow> slot_for o1 (naming_index e i) e s \<and> slots_for o1 (Suc i) es ss')"

lemma slots_for_origin: "slots_for o1 i es ss \<Longrightarrow> s \<in> set ss \<Longrightarrow> sl_origin s = o1"
  by (induction o1 i es ss rule: slots_for.induct) (auto simp: slot_for_def split: list.splits)

lemma slots_for_append: "slots_for o1 i es ss \<Longrightarrow> slot_for o1 (naming_index e (i + length es)) e s \<Longrightarrow> slots_for o1 i (es @ [e]) (ss @ [s])"
  by (induction o1 i es ss rule: slots_for.induct) (auto split: list.splits)

subsection \<open>The legacy manifest\<close>

definition built :: "pipe list res \<Rightarrow> pipe list" where
  "built r = (case r of Ok ps \<Rightarrow> ps | Raise _ \<Rightarrow> [])"

lemma legacy_generic_new:
  assumes "take_slot Legacy (naming_index e i) e pool = None" "build_one w m e Legacy i ob = (ob1, r1)"
    and "\<not> (\<exists>x. r1 = Raise x \<and> strict)"
  shows "legacy_generic w m strict i (e # es) pool fresh ob = (case legacy_generic w m strict (Suc i) es pool (fresh @ built r1) ob1 of
     (ob', r) \<Rightarrow> (ob', map_res (\<lambda>(ss, q). (\<lparr>sl_origin = Legacy, sl_index = naming_index e i, sl_entry = e, sl_pipes = built r1\<rparr> # ss, q)) r))"
  using assms by (cases r1; cases strict) (simp_all add: built_def Let_def)

lemma legacy_generic_Ok:
  "legacy_generic w m strict i es pool fresh ob = (ob', Ok (ss, pool', fresh')) \<Longrightarrow> \<forall>s \<in> set pool. own_slot s
    \<Longrightarrow> slots_for Legacy i es ss \<and> (\<forall>s \<in> set ss. own_slot s) \<and> set pool' \<subseteq> set pool
      \<and> set fresh \<subseteq> set fresh' \<and> set fresh' \<subseteq> set fresh \<union> set (slot_pipes ss) \<and> accounted ob ob' fresh'"
proof (induction es arbitrary: i pool fresh ob ob' ss pool' fresh')
  case (Cons e es)
  show ?case
  proof (cases "take_slot Legacy (naming_index e i) e pool")
    case (Some sp)
    obtain s pool1 where sp: "sp = (s, pool1)" by fastforce
    have t: "slot_for Legacy (naming_index e i) e s" "s \<in> set pool" "set pool1 \<subseteq> set pool" using take_slot_Some Some sp by blast+
    obtain ss' where r: "legacy_generic w m strict (Suc i) es pool1 fresh ob = (ob', Ok (ss', pool', fresh'))" "ss = s # ss'"
      using Cons.prems(1) Some sp by (auto split: prod.splits)
    have "\<forall>s \<in> set pool1. own_slot s" using Cons.prems(2) t(3) by blast
    from Cons.IH [OF r(1) this] show ?thesis using r(2) t Cons.prems(2) by auto
  next
    case None
    obtain ob1 r1 where b: "build_one w m e Legacy i ob = (ob1, r1)" by fastforce
    have ns: "\<not> (\<exists>x. r1 = Raise x \<and> strict)" using Cons.prems(1) None b by auto
    define s where "s = \<lparr>sl_origin = Legacy, sl_index = naming_index e i, sl_entry = e, sl_pipes = built r1\<rparr>"
    obtain ss' where r: "legacy_generic w m strict (Suc i) es pool (fresh @ built r1) ob1 = (ob', Ok (ss', pool', fresh'))" "ss = s # ss'"
      using Cons.prems(1) unfolding legacy_generic_new [OF None b ns] s_def by (auto split: prod.splits)
    have ih: "slots_for Legacy (Suc i) es ss' \<and> (\<forall>s \<in> set ss'. own_slot s) \<and> set pool' \<subseteq> set pool
      \<and> set (fresh @ built r1) \<subseteq> set fresh' \<and> set fresh' \<subseteq> set (fresh @ built r1) \<union> set (slot_pipes ss') \<and> accounted ob1 ob' fresh'"
      using Cons.IH [OF r(1) Cons.prems(2)] by simp
    have "own_slot s" using b new_slot_own by (cases r1) (auto simp: s_def built_def own_slot_def)
    moreover have "slot_for Legacy (naming_index e i) e s" by (simp add: s_def slot_for_def)
    moreover have "accounted ob ob' fresh'"
      using accounted_trans [OF build_one_accounted [OF b]] ih unfolding built_def [symmetric] by auto
    ultimately show ?thesis using ih r(2) by (auto simp: s_def)
  qed
qed simp

lemma legacy_generic_Raise:
  "legacy_generic w m strict i es pool fresh ob = (ob', Raise x) \<Longrightarrow> accounted ob ob' [] \<and> pp_id ` set fresh \<subseteq> set (ob_closed ob')"
proof (induction es arbitrary: i pool fresh ob)
  case (Cons e es)
  show ?case
  proof (cases "take_slot Legacy (naming_index e i) e pool")
    case (Some sp)
    obtain s pool1 where sp: "sp = (s, pool1)" by fastforce
    have "legacy_generic w m strict (Suc i) es pool1 fresh ob = (ob', Raise x)"
      using Cons.prems Some sp by (cases "legacy_generic w m strict (Suc i) es pool1 fresh ob"; cases "snd (legacy_generic w m strict (Suc i) es pool1 fresh ob)") auto
    then show ?thesis by (rule Cons.IH)
  next
    case None
    obtain ob1 r1 where b: "build_one w m e Legacy i ob = (ob1, r1)" by fastforce
    have acc: "accounted ob ob1 (built r1)" using build_one_accounted [OF b] by (simp add: built_def)
    show ?thesis
    proof (cases "\<exists>y. r1 = Raise y \<and> strict")
      case True
      then have "ob' = close_quietly fresh ob1" "built r1 = []" using Cons.prems None b by (auto simp: built_def)
      then show ?thesis using accounted_close [OF acc, of fresh "[]"] True by (simp add: close_quietly_def)
    next
      case False
      obtain obx rx where l: "legacy_generic w m strict (Suc i) es pool (fresh @ built r1) ob1 = (obx, rx)" by fastforce
      then have "rx = Raise x" "obx = ob'" using Cons.prems unfolding legacy_generic_new [OF None b False] by (cases rx; auto)+
      then have ih: "accounted ob1 ob' []" "pp_id ` set (fresh @ built r1) \<subseteq> set (ob_closed ob')" using Cons.IH l by blast+
      have "accounted ob ob' (built r1)" using accounted_trans [OF acc ih(1)] by simp
      from accounted_closed [OF this, of "[]"] show ?thesis using ih(2) by auto
    qed
  qed
qed simp

lemma legacy_builders_Ok:
  "legacy_builders w m es pool fresh ob = (ob', ss, pool', fresh') \<Longrightarrow> \<forall>s \<in> set pool. own_slot s \<Longrightarrow> \<forall>e \<in> set es. is_builder e
    \<Longrightarrow> slots_for Legacy i es ss \<and> (\<forall>s \<in> set ss. own_slot s) \<and> set pool' \<subseteq> set pool
      \<and> set fresh \<subseteq> set fresh' \<and> set fresh' \<subseteq> set fresh \<union> set (slot_pipes ss) \<and> accounted ob ob' fresh'"
proof (induction es arbitrary: i pool fresh ob ob' ss pool' fresh')
  case (Cons e es)
  have ni: "naming_index e i = None" using Cons.prems(3) by (simp add: naming_index_def)
  show ?case
  proof (cases "take_slot Legacy None e pool")
    case (Some sp)
    obtain s pool1 where sp: "sp = (s, pool1)" by fastforce
    have t: "slot_for Legacy None e s" "s \<in> set pool" "set pool1 \<subseteq> set pool" using take_slot_Some Some sp by blast+
    obtain ss' where r: "legacy_builders w m es pool1 fresh ob = (ob', ss', pool', fresh')" "ss = s # ss'"
      using Cons.prems(1) Some sp by (auto simp: Let_def split: prod.splits)
    have "\<forall>s \<in> set pool1. own_slot s" using Cons.prems(2) t(3) by blast
    from Cons.IH [OF r(1) this, of "Suc i"] show ?thesis using r(2) t ni Cons.prems(2,3) by auto
  next
    case None
    obtain ob1 r1 where b: "build_one w m e Legacy 0 ob = (ob1, r1)" by fastforce
    define s where "s = \<lparr>sl_origin = Legacy, sl_index = None, sl_entry = e, sl_pipes = built r1\<rparr>"
    obtain ss' where r: "legacy_builders w m es pool (fresh @ built r1) ob1 = (ob', ss', pool', fresh')" "ss = s # ss'"
      using Cons.prems(1) None b unfolding s_def built_def by (auto simp: Let_def split: prod.splits)
    have ih: "slots_for Legacy (Suc i) es ss' \<and> (\<forall>s \<in> set ss'. own_slot s) \<and> set pool' \<subseteq> set pool
      \<and> set (fresh @ built r1) \<subseteq> set fresh' \<and> set fresh' \<subseteq> set (fresh @ built r1) \<union> set (slot_pipes ss') \<and> accounted ob1 ob' fresh'"
      using Cons.IH [OF r(1) Cons.prems(2)] Cons.prems(3) by simp
    have "own_slot s" using b new_slot_own by (cases r1) (auto simp: s_def built_def own_slot_def)
    moreover have "slot_for Legacy (naming_index e i) e s" by (simp add: s_def slot_for_def ni)
    moreover have "accounted ob ob' fresh'"
      using accounted_trans [OF build_one_accounted [OF b]] ih unfolding built_def [symmetric] by auto
    ultimately show ?thesis using ih r(2) by (auto simp: s_def)
  qed
qed simp

subsection \<open>One file\<close>

lemma build_file_Inl:
  "build_file w m o1 i es b ob = (ob', Inl b', pool') \<Longrightarrow> \<forall>s \<in> set (fb_pool b @ fb_slots b). own_slot s
    \<Longrightarrow> slots_for o1 0 bef (fb_slots b) \<Longrightarrow> i = length bef
    \<Longrightarrow> slots_for o1 0 (bef @ es) (fb_slots b') \<and> (\<forall>s \<in> set (fb_slots b'). own_slot s) \<and> set (fb_pool b' @ fb_taken b') \<subseteq> set (fb_pool b @ fb_taken b)
      \<and> set (fb_fresh b) \<subseteq> set (fb_fresh b') \<and> set (fb_fresh b') \<subseteq> set (fb_fresh b) \<union> set (slot_pipes (fb_slots b')) \<and> accounted ob ob' (fb_fresh b')
      \<and> set (fb_slots b) \<subseteq> set (fb_slots b')"
proof (induction es arbitrary: i b ob bef)
  case (Cons e es)
  show ?case
  proof (cases "take_slot o1 (naming_index e i) e (fb_pool b)")
    case (Some sp)
    obtain s pool1 where sp: "sp = (s, pool1)" by fastforce
    have t: "slot_for o1 (naming_index e i) e s" "s \<in> set (fb_pool b)" "set pool1 \<subseteq> set (fb_pool b)" using take_slot_Some Some sp by blast+
    define c where "c = b\<lparr>fb_slots := fb_slots b @ [s], fb_taken := fb_taken b @ [s], fb_pool := pool1\<rparr>"
    have r: "build_file w m o1 (Suc i) es c ob = (ob', Inl b', pool')" using Cons.prems(1) Some sp by (simp add: c_def)
    have h: "\<forall>s \<in> set (fb_pool c @ fb_slots c). own_slot s" 
      "slots_for o1 0 (bef @ [e]) (fb_slots c)" "Suc i = length (bef @ [e])"
      using Cons.prems t slots_for_append [OF Cons.prems(3), of e s] by (auto simp: c_def)
    from Cons.IH [OF r h] show ?thesis using t by (auto simp: c_def)
  next
    case None
    obtain ob1 ps where b1: "build_one w m e o1 i ob = (ob1, Ok ps)" using Cons.prems(1) None
      by (cases "build_one w m e o1 i ob"; cases "snd (build_one w m e o1 i ob)") auto
    define s where "s = \<lparr>sl_origin = o1, sl_index = naming_index e i, sl_entry = e, sl_pipes = ps\<rparr>"
    define c where "c = b\<lparr>fb_slots := fb_slots b @ [s], fb_fresh := fb_fresh b @ ps\<rparr>"
    have r: "build_file w m o1 (Suc i) es c ob1 = (ob', Inl b', pool')" using Cons.prems(1) None b1 by (simp add: c_def s_def)
    have sf: "slot_for o1 (naming_index e i) e s" "own_slot s" using new_slot_own [OF b1] by (simp_all add: s_def slot_for_def)
    have h: "\<forall>s \<in> set (fb_pool c @ fb_slots c). own_slot s" 
      "slots_for o1 0 (bef @ [e]) (fb_slots c)" "Suc i = length (bef @ [e])"
      using Cons.prems sf slots_for_append [OF Cons.prems(3), of e s] by (auto simp: c_def)
    have acc: "accounted ob ob1 ps" using build_one_accounted [OF b1] by simp
    have "s \<in> set (fb_slots b')" "set ps \<subseteq> set (fb_fresh b')" "accounted ob1 ob' (fb_fresh b')" using Cons.IH [OF r h] by (auto simp: c_def)
    then have "accounted ob ob' (fb_fresh b')" "set ps \<subseteq> set (slot_pipes (fb_slots b'))"
      using accounted_trans [OF acc] by (auto simp: s_def slot_pipes_def)
    then show ?thesis using Cons.IH [OF r h] by (auto simp: c_def)
  qed
qed auto

lemma build_file_Inr:
  "build_file w m o1 i es b ob = (ob', Inr x, pool') \<Longrightarrow> accounted ob ob' [] \<and> pp_id ` set (fb_fresh b) \<subseteq> set (ob_closed ob')
    \<and> set pool' \<subseteq> set (fb_pool b @ fb_taken b)"
proof (induction es arbitrary: i b ob)
  case (Cons e es)
  show ?case
  proof (cases "take_slot o1 (naming_index e i) e (fb_pool b)")
    case (Some sp)
    obtain s pool1 where sp: "sp = (s, pool1)" by fastforce
    have t: "s \<in> set (fb_pool b)" "set pool1 \<subseteq> set (fb_pool b)" using take_slot_Some Some sp by blast+
    have r: "build_file w m o1 (Suc i) es (b\<lparr>fb_slots := fb_slots b @ [s], fb_taken := fb_taken b @ [s], fb_pool := pool1\<rparr>) ob = (ob', Inr x, pool')"
      using Cons.prems Some sp by simp
    from Cons.IH [OF r] show ?thesis using t by auto
  next
    case None
    obtain ob1 r1 where b1: "build_one w m e o1 i ob = (ob1, r1)" by fastforce
    have acc: "accounted ob ob1 (built r1)" using build_one_accounted [OF b1] by (simp add: built_def)
    show ?thesis
    proof (cases r1)
      case (Raise y)
      then have "ob' = close_quietly (fb_fresh b) ob1" "pool' = fb_pool b @ fb_taken b" "built r1 = []"
        using Cons.prems None b1 by (auto simp: built_def)
      then show ?thesis using accounted_close [OF acc, of "fb_fresh b" "[]"] by (simp add: close_quietly_def)
    next
      case (Ok ps)
      have r: "build_file w m o1 (Suc i) es (b\<lparr>fb_slots := fb_slots b @ [\<lparr>sl_origin = o1, sl_index = naming_index e i, sl_entry = e, sl_pipes = ps\<rparr>],
          fb_fresh := fb_fresh b @ ps\<rparr>) ob1 = (ob', Inr x, pool')" using Cons.prems None b1 Ok by simp
      have ih: "accounted ob1 ob' []" "pp_id ` set (fb_fresh b @ ps) \<subseteq> set (ob_closed ob')" "set pool' \<subseteq> set (fb_pool b @ fb_taken b)"
        using Cons.IH [OF r] by simp_all
      have "accounted ob ob' (built r1)" using accounted_trans [OF acc ih(1)] by simp
      from accounted_closed [OF this, of "[]"] show ?thesis using ih(2,3) Ok by (auto simp: built_def)
    qed
  qed
qed simp

subsection \<open>Collisions\<close>

text \<open>No name and no key twice, and none of those taken.\<close>

definition apart :: "pipe list \<Rightarrow> string set \<Rightarrow> send_key set \<Rightarrow> bool" where
  "apart ps names keys \<longleftrightarrow> distinct (map pp_name ps) \<and> distinct (map pp_key ps) \<and> pp_name ` set ps \<inter> names = {} \<and> pp_key ` set ps \<inter> keys = {}"

lemma collision_None: "collision p names keys = None \<longleftrightarrow> pp_name p \<notin> dom (map_of names) \<and> pp_key p \<notin> dom (map_of keys)"
  by (auto simp: collision_def dom_def split: option.split)

lemma apart_Cons:
  "apart (p # ps) N K \<longleftrightarrow> pp_name p \<notin> N \<and> pp_key p \<notin> K \<and> apart ps (insert (pp_name p) N) (insert (pp_key p) K)"
  by (auto simp: apart_def)

lemma dom_dict_set [simp]: "dom (map_of (dict_set k v d)) = insert k (dom (map_of d))"
  by simp

lemma admit_iff:
  "(\<exists>names' keys'. admit ps names keys = Inl (names', keys')) \<longleftrightarrow> apart ps (dom (map_of names)) (dom (map_of keys))"
proof (induction ps arbitrary: names keys)
  case (Cons p ps)
  show ?case
  proof (cases "collision p names keys")
    case None
    then show ?thesis using Cons.IH [of "dict_set (pp_name p) p names" "dict_set (pp_key p) p keys"]
      unfolding admit.simps None option.case apart_Cons dom_dict_set using None by (simp add: collision_None)
  next
    case (Some q)
    then have "\<not> (pp_name p \<notin> dom (map_of names) \<and> pp_key p \<notin> dom (map_of keys))" using collision_None by (metis option.distinct(1))
    then show ?thesis using Some by (auto simp: apart_Cons)
  qed
qed (simp add: apart_def)

lemma admit_doms:
  "admit ps names keys = Inl (names', keys') \<Longrightarrow> dom (map_of names') = dom (map_of names) \<union> pp_name ` set ps
    \<and> dom (map_of keys') = dom (map_of keys) \<union> pp_key ` set ps"
proof (induction ps arbitrary: names keys)
  case (Cons p ps)
  then have "admit ps (dict_set (pp_name p) p names) (dict_set (pp_key p) p keys) = Inl (names', keys')"
    by (auto split: option.splits)
  from Cons.IH [OF this] show ?case unfolding dom_dict_set by auto
qed simp

lemma apart_append: "apart (ps @ qs) N K \<longleftrightarrow> apart ps N K \<and> apart qs (N \<union> pp_name ` set ps) (K \<union> pp_key ` set ps)"
  by (auto simp: apart_def)

lemma dom_set_default: "dom (map_of (set_default k v d)) = insert k (dom (map_of d))"
  by (cases "map_of d k") (auto simp: set_default_def map_add_def split: option.splits)

lemma dom_fold_default: "dom (map_of (fold (\<lambda>p. set_default (f p) p) ps d)) = dom (map_of d) \<union> f ` set ps"
  by (induction ps arbitrary: d) (auto simp: dom_set_default)

subsection \<open>The assembly\<close>

lemma dict_set_new: "k \<notin> fst ` set d \<Longrightarrow> dict_set k v d = d @ [(k, v)]"
  by (induction k v d rule: dict_set.induct) auto

definition acc_pipes :: "assembly \<Rightarrow> pipe list" where
  "acc_pipes a = slot_pipes (concat (map snd (as_accepted a)))"

definition good_assembly :: "pipe list \<Rightarrow> objects \<Rightarrow> assembly \<Rightarrow> bool" where
  "good_assembly lps ob a \<longleftrightarrow> distinct (map fst (as_accepted a)) \<and> (\<forall>s \<in> set (as_pool a). own_slot s)
     \<and> (\<forall>(f, ss) \<in> set (as_accepted a). (\<forall>s \<in> set ss. own_slot s)
         \<and> (\<exists>es. map_of (as_good a) f = Some es \<and> slots_for (InFile f) 0 es ss))
     \<and> dom (map_of (as_names a)) = pp_name ` set lps \<union> pp_name ` set (acc_pipes a)
     \<and> dom (map_of (as_keys a)) = pp_key ` set lps \<union> pp_key ` set (acc_pipes a)
     \<and> apart (acc_pipes a) (pp_name ` set lps) (pp_key ` set lps)
     \<and> set (as_fresh a) \<subseteq> set lps \<union> set (acc_pipes a) \<and> accounted ob (as_objects a) (as_fresh a)"

lemma try_file_good:
  assumes "good_assembly lps ob a" "f \<notin> fst ` set (as_accepted a)" "try_file w m f entries a = (a', r)"
  shows "good_assembly lps ob a'"
    "r = None \<Longrightarrow> map_of (as_good a') = (map_of (as_good a))(f \<mapsto> entries) \<and> fst ` set (as_accepted a') = insert f (fst ` set (as_accepted a))"
    "r \<noteq> None \<Longrightarrow> as_good a' = as_good a \<and> as_accepted a' = as_accepted a"
    "as_refused a' = as_refused a"
proof -
  define b0 where "b0 = \<lparr>fb_slots = [], fb_taken = [], fb_fresh = [], fb_pool = as_pool a\<rparr>"
  obtain ob1 r1 pool where bf: "build_file w m (InFile f) 0 entries b0 (as_objects a) = (ob1, r1, pool)" by (metis prod_cases3)
  note g = assms(1) [unfolded good_assembly_def]
  have "good_assembly lps ob a' \<and> (r = None \<longrightarrow> map_of (as_good a') = (map_of (as_good a))(f \<mapsto> entries) \<and> fst ` set (as_accepted a') = insert f (fst ` set (as_accepted a)))
    \<and> (r \<noteq> None \<longrightarrow> as_good a' = as_good a \<and> as_accepted a' = as_accepted a) \<and> as_refused a' = as_refused a"
  proof (cases r1)
    case (Inr x)
    then have a': "a' = a\<lparr>as_pool := pool, as_objects := ob1\<rparr>" "r = Some x" using assms(3) bf unfolding b0_def by (auto simp: try_file_def)
    have i: "accounted (as_objects a) ob1 []" "set pool \<subseteq> set (as_pool a)" using build_file_Inr [OF bf [unfolded Inr]] by (simp_all add: b0_def)
    have "accounted ob ob1 (as_fresh a)" using accounted_trans [OF _ i(1)] g by auto
    then show ?thesis using a' i(2) g unfolding good_assembly_def by (auto simp: acc_pipes_def)
  next
    case (Inl b)
    have ow: "\<forall>s \<in> set (fb_pool b0 @ fb_slots b0). own_slot s" using g by (simp add: b0_def)
    from build_file_Inl [OF bf [unfolded Inl] ow, of "[]"]
    have i: "slots_for (InFile f) 0 entries (fb_slots b)" "\<forall>s \<in> set (fb_slots b). own_slot s" "set (fb_pool b @ fb_taken b) \<subseteq> set (as_pool a)"
      "set (fb_fresh b) \<subseteq> set (slot_pipes (fb_slots b))" "accounted (as_objects a) ob1 (fb_fresh b)" by (simp_all add: b0_def)
    show ?thesis
    proof (cases "admit (slot_pipes (fb_slots b)) (as_names a) (as_keys a)")
      case (Inr x)
      then have a': "a' = a\<lparr>as_pool := fb_pool b @ fb_taken b, as_objects := close_quietly (fb_fresh b) ob1\<rparr>" "r = Some x"
        using assms(3) bf Inl unfolding b0_def by (auto simp: try_file_def)
      have c: "accounted (as_objects a) (close_quietly (fb_fresh b) ob1) []" by (rule accounted_close [OF i(5)]) simp
      have "accounted ob (close_quietly (fb_fresh b) ob1) (as_fresh a)" using accounted_trans [OF _ c] g by auto
      then show ?thesis using a' i(3) g unfolding good_assembly_def by (auto simp: acc_pipes_def)
    next
      case ad: (Inl nk)
      obtain names keys where nk: "nk = (names, keys)" by fastforce
      have a': "a' = a\<lparr>as_pool := fb_pool b, as_names := names, as_keys := keys, as_objects := ob1, as_accepted := dict_set f (fb_slots b) (as_accepted a),
          as_good := dict_set f entries (as_good a), as_fresh := as_fresh a @ fb_fresh b\<rparr>" "r = None"
        using assms(3) bf Inl ad nk unfolding b0_def by (auto simp: try_file_def)
      have acc: "as_accepted a' = as_accepted a @ [(f, fb_slots b)]" using dict_set_new [OF assms(2)] a' by simp
      have ap: "acc_pipes a' = acc_pipes a @ slot_pipes (fb_slots b)" by (simp add: acc_pipes_def acc)
      have "apart (slot_pipes (fb_slots b)) (dom (map_of (as_names a))) (dom (map_of (as_keys a)))" using admit_iff ad nk by blast
      then have "apart (acc_pipes a') (pp_name ` set lps) (pp_key ` set lps)" using g unfolding ap apart_append by simp
      moreover have "dom (map_of names) = dom (map_of (as_names a)) \<union> pp_name ` set (slot_pipes (fb_slots b))"
        "dom (map_of keys) = dom (map_of (as_keys a)) \<union> pp_key ` set (slot_pipes (fb_slots b))" using admit_doms ad nk by blast+
      moreover have "accounted ob ob1 (as_fresh a @ fb_fresh b)" using accounted_trans [OF _ i(5)] g by auto
      moreover have "\<forall>(f', ss) \<in> set (as_accepted a'). (\<forall>s \<in> set ss. own_slot s) \<and> (\<exists>es. map_of (as_good a') f' = Some es \<and> slots_for (InFile f') 0 es ss)"
      proof clarify
        fix f' ss assume "(f', ss) \<in> set (as_accepted a')"
        then consider "(f', ss) \<in> set (as_accepted a)" | "f' = f" "ss = fb_slots b" unfolding acc by auto
        then show "(\<forall>s \<in> set ss. own_slot s) \<and> (\<exists>es. map_of (as_good a') f' = Some es \<and> slots_for (InFile f') 0 es ss)"
        proof cases
          case 1
          then have "f' \<noteq> f" using assms(2) by force
          then have "map_of (as_good a') f' = map_of (as_good a) f'" by (simp add: a')
          then show ?thesis using g 1 by fastforce
        next
          case 2
          then show ?thesis using i(1,2) by (simp add: a')
        qed
      qed
      moreover have "distinct (map fst (as_accepted a'))" using g assms(2) unfolding acc by simp
      ultimately show ?thesis using a' i(3,4) g acc ap unfolding good_assembly_def by auto
    qed
  qed
  then show "good_assembly lps ob a'"
    "r = None \<Longrightarrow> map_of (as_good a') = (map_of (as_good a))(f \<mapsto> entries) \<and> fst ` set (as_accepted a') = insert f (fst ` set (as_accepted a))"
    "r \<noteq> None \<Longrightarrow> as_good a' = as_good a \<and> as_accepted a' = as_accepted a" "as_refused a' = as_refused a" by blast+
qed

lemma refuse_simps [simp]:
  "good_assembly lps ob (refuse r a) = good_assembly lps ob a" "as_accepted (refuse r a) = as_accepted a" "as_refused (refuse r a) = as_refused a @ [r]"
  by (simp_all add: refuse_def good_assembly_def acc_pipes_def)

lemma keep_last_good:
  assumes "good_assembly lps ob a" "f \<notin> fst ` set (as_accepted a)"
  shows "good_assembly lps ob (keep_last w m prev_good f a) \<and> fst ` set (as_accepted (keep_last w m prev_good f a)) \<subseteq> insert f (fst ` set (as_accepted a))
    \<and> as_refused (keep_last w m prev_good f a) = as_refused a"
proof (cases "map_of prev_good f")
  case (Some es)
  obtain a' r where t: "try_file w m f es a = (a', r)" by fastforce
  show ?thesis using try_file_good [OF assms t] Some t by (cases r) (auto simp: keep_last_def)
qed (simp add: keep_last_def assms subset_insertI)

lemma file_step_good:
  assumes "good_assembly lps ob a" "f \<notin> fst ` set (as_accepted a)"
  shows "good_assembly lps ob (file_step w l prev_good f a) \<and> fst ` set (as_accepted (file_step w l prev_good f a)) \<subseteq> insert f (fst ` set (as_accepted a))
    \<and> (\<exists>rs. as_refused (file_step w l prev_good f a) = as_refused a @ rs)
    \<and> (as_refused (file_step w l prev_good f a) = [] \<longrightarrow> map_of (as_good (file_step w l prev_good f a)) = (map_of (as_good a))(f \<mapsto> file_entries l f)
        \<and> fst ` set (as_accepted (file_step w l prev_good f a)) = insert f (fst ` set (as_accepted a)))"
proof (cases "load_refused l f")
  case (Some r)
  then show ?thesis using keep_last_good [of lps ob "refuse r a" f w "ly_manifest l" prev_good] assms by (simp add: file_step_def)
next
  case None
  obtain a' r where t: "try_file w (ly_manifest l) f (file_entries l f) a = (a', r)" by fastforce
  note tg = try_file_good [OF assms t]
  show ?thesis
  proof (cases r)
    case None
    then show ?thesis using tg \<open>load_refused l f = None\<close> t by (simp add: file_step_def)
  next
    case (Some x)
    then have "as_accepted a' = as_accepted a" using tg(3) by simp
    then show ?thesis
      using keep_last_good [of lps ob "refuse \<lparr>rf_file = f, rf_client = file_stem f, rf_reason = x\<rparr> a'" f w "ly_manifest l" prev_good]
        tg(1,4) assms(2) None t Some by (simp add: file_step_def)
  qed
qed

lemma file_steps_good:
  "good_assembly lps ob a \<Longrightarrow> distinct fs \<Longrightarrow> set fs \<inter> fst ` set (as_accepted a) = {}
    \<Longrightarrow> good_assembly lps ob (fold (file_step w l prev_good) fs a)
      \<and> (\<exists>rs. as_refused (fold (file_step w l prev_good) fs a) = as_refused a @ rs)
      \<and> (as_refused (fold (file_step w l prev_good) fs a) = [] \<longrightarrow> (\<forall>f \<in> set fs. map_of (as_good (fold (file_step w l prev_good) fs a)) f = Some (file_entries l f))
          \<and> (\<forall>f. f \<notin> set fs \<longrightarrow> map_of (as_good (fold (file_step w l prev_good) fs a)) f = map_of (as_good a) f)
          \<and> fst ` set (as_accepted (fold (file_step w l prev_good) fs a)) = set fs \<union> fst ` set (as_accepted a))"
proof (induction fs arbitrary: a)
  case (Cons f fs)
  define a1 where "a1 = file_step w l prev_good f a"
  have f: "f \<notin> fst ` set (as_accepted a)" using Cons.prems(3) by auto
  have s: "good_assembly lps ob a1" "fst ` set (as_accepted a1) \<subseteq> insert f (fst ` set (as_accepted a))" "\<exists>rs. as_refused a1 = as_refused a @ rs"
    "as_refused a1 = [] \<longrightarrow> map_of (as_good a1) = (map_of (as_good a))(f \<mapsto> file_entries l f) \<and> fst ` set (as_accepted a1) = insert f (fst ` set (as_accepted a))"
    using file_step_good [OF Cons.prems(1) f, of w l prev_good] unfolding a1_def [symmetric] by blast+
  have d: "distinct fs" "set fs \<inter> fst ` set (as_accepted a1) = {}" using Cons.prems(2,3) s(2) by auto
  note ih = Cons.IH [OF s(1) d]
  show ?case using ih s(3,4) d Cons.prems(2) unfolding fold.simps comp_apply a1_def [symmetric] by auto
qed simp

subsection \<open>A build\<close>

lemma mset_concat_map: "mset (concat (map f xs)) = (\<Sum>x \<in># mset xs. mset (f x))"
  by (induction xs) auto

lemma apart_mset: "mset ps = mset qs \<Longrightarrow> apart ps N K = apart qs N K"
proof -
  assume m: "mset ps = mset qs"
  have "mset (map pp_name ps) = mset (map pp_name qs)" "mset (map pp_key ps) = mset (map pp_key qs)" using m by simp_all
  then have "distinct (map pp_name ps) = distinct (map pp_name qs)" "distinct (map pp_key ps) = distinct (map pp_key qs)"
    using mset_eq_imp_distinct_iff by blast+
  then show ?thesis using mset_eq_setD [OF m] by (simp add: apart_def)
qed

definition accepted_slots :: "assembly \<Rightarrow> slot list" where
  "accepted_slots a = concat (map (\<lambda>f. the (map_of (as_accepted a) f)) (sort (map fst (as_accepted a))))"

lemma accepted_slots_mset: "distinct (map fst (as_accepted a)) \<Longrightarrow> mset (slot_pipes (accepted_slots a)) = mset (acc_pipes a)"
proof -
  assume d: "distinct (map fst (as_accepted a))"
  have "map (\<lambda>f. the (map_of (as_accepted a) f)) (map fst (as_accepted a)) = map snd (as_accepted a)"
    using d by (auto simp: map_of_is_SomeI)
  moreover have "mset (concat (map (\<lambda>f. the (map_of (as_accepted a) f)) (sort (map fst (as_accepted a)))))
    = mset (concat (map (\<lambda>f. the (map_of (as_accepted a) f)) (map fst (as_accepted a))))"
    unfolding mset_concat_map by simp
  ultimately have "mset (accepted_slots a) = mset (concat (map snd (as_accepted a)))" by (simp only: accepted_slots_def)
  then show ?thesis unfolding acc_pipes_def slot_pipes_def mset_concat_map by simp
qed

lemma accepted_slots_origin:
  assumes "good_assembly lps ob a" "s \<in> set (accepted_slots a)"
  shows "own_slot s \<and> (\<exists>f. sl_origin s = InFile f)"
proof -
  obtain f where f: "f \<in> fst ` set (as_accepted a)" "s \<in> set (the (map_of (as_accepted a) f))" using assms(2) by (auto simp: accepted_slots_def)
  then obtain ss where "(f, ss) \<in> set (as_accepted a)" "s \<in> set ss"
    using assms(1) by (auto simp: good_assembly_def)
  then show ?thesis using assms(1) slots_for_origin unfolding good_assembly_def by fastforce
qed

lemma file_order_distinct [simp]: "distinct (file_order l g)"
  by (auto simp: file_order_def Let_def)

definition legacy_entries :: "layout \<Rightarrow> pydict list" where
  "legacy_entries l = map fst (filter (\<lambda>(e, o1). o1 = Legacy) (ly_entries l))"

lemma assemble_parts:
  assumes "assemble w l previous strict ob = (ob', Ok b)"
  obtains gss pool1 fresh1 ob1 bss pool fresh ob2 a where
    "legacy_generic w (ly_manifest l) strict 0 (filter (\<lambda>e. \<not> is_builder e) (legacy_entries l)) (bd_slots previous) [] ob = (ob1, Ok (gss, pool1, fresh1))"
    "legacy_builders w (ly_manifest l) (filter is_builder (legacy_entries l)) pool1 fresh1 ob1 = (ob2, bss, pool, fresh)"
    "a = fold (file_step w l (bd_good previous)) (file_order l (bd_good previous)) (start_assembly (gss @ bss) pool fresh ob2)"
    "ob' = as_objects a" "b = finish (gss @ bss) a"
  using assms unfolding assemble_def build_legacy_def legacy_entries_def [symmetric] by (auto simp: Let_def split: prod.splits res.splits)

lemma start_good:
  assumes "legacy_generic w m strict 0 ges (bd_slots previous) [] ob = (ob1, Ok (gss, pool1, fresh1))"
    "legacy_builders w m bes pool1 fresh1 ob1 = (ob2, bss, pool, fresh)" "\<forall>s \<in> set (bd_slots previous). own_slot s" "\<forall>e \<in> set bes. is_builder e"
  shows "slots_for Legacy 0 ges gss \<and> slots_for Legacy 0 bes bss \<and> (\<forall>s \<in> set (gss @ bss). own_slot s)
    \<and> good_assembly (slot_pipes (gss @ bss)) ob (start_assembly (gss @ bss) pool fresh ob2)"
proof -
  note go = legacy_generic_Ok [OF assms(1,3)]
  have "\<forall>s \<in> set pool1. own_slot s" using go assms(3) by blast
  from legacy_builders_Ok [OF assms(2) this assms(4), of 0] have bo: "slots_for Legacy 0 bes bss" "\<forall>s \<in> set bss. own_slot s" "set pool \<subseteq> set pool1"
    "set fresh1 \<subseteq> set fresh" "set fresh \<subseteq> set fresh1 \<union> set (slot_pipes bss)" "accounted ob1 ob2 fresh" by simp_all
  have acc: "accounted ob ob2 fresh" using accounted_trans [of ob ob1 fresh1 ob2 fresh] go bo(4,6) by auto
  have sub: "set fresh \<subseteq> set (slot_pipes (gss @ bss))" "\<forall>s \<in> set pool. own_slot s" using go bo assms(3) by auto
  have "good_assembly (slot_pipes (gss @ bss)) ob (start_assembly (gss @ bss) pool fresh ob2)"
    using acc sub unfolding good_assembly_def start_assembly_def acc_pipes_def
    by (simp add: dom_fold_default apart_def slot_pipes_def image_Un)
  then show ?thesis using go bo(1,2) by (simp add: ball_Un)
qed

lemma assemble_Ok:
  assumes "assemble w l previous strict ob = (ob', Ok b)" "\<forall>s \<in> set (bd_slots previous). own_slot s"
  obtains gss bss pool fresh ob1 a where "slots_for Legacy 0 (filter (\<lambda>e. \<not> is_builder e) (legacy_entries l)) gss"
    "slots_for Legacy 0 (filter is_builder (legacy_entries l)) bss"
    "\<forall>s \<in> set (gss @ bss). own_slot s"
    "a = fold (file_step w l (bd_good previous)) (file_order l (bd_good previous)) (start_assembly (gss @ bss) pool fresh ob1)"
    "good_assembly (slot_pipes (gss @ bss)) ob a" "b = finish (gss @ bss) a" "ob' = as_objects a" "as_accepted (start_assembly (gss @ bss) pool fresh ob1) = []"
    "good_assembly (slot_pipes (gss @ bss)) ob (start_assembly (gss @ bss) pool fresh ob1)"
proof -
  obtain gss pool1 fresh1 ob1 bss pool fresh ob2 a where
    p: "legacy_generic w (ly_manifest l) strict 0 (filter (\<lambda>e. \<not> is_builder e) (legacy_entries l)) (bd_slots previous) [] ob = (ob1, Ok (gss, pool1, fresh1))"
    "legacy_builders w (ly_manifest l) (filter is_builder (legacy_entries l)) pool1 fresh1 ob1 = (ob2, bss, pool, fresh)"
    and a: "a = fold (file_step w l (bd_good previous)) (file_order l (bd_good previous)) (start_assembly (gss @ bss) pool fresh ob2)"
    and e: "ob' = as_objects a" "b = finish (gss @ bss) a"
    using assemble_parts [OF assms(1)] .
  have "\<forall>e \<in> set (filter is_builder (legacy_entries l)). is_builder e" by simp
  from start_good [OF p assms(2) this] have st: "slots_for Legacy 0 (filter (\<lambda>e. \<not> is_builder e) (legacy_entries l)) gss"
    "slots_for Legacy 0 (filter is_builder (legacy_entries l)) bss" "\<forall>s \<in> set (gss @ bss). own_slot s"
    "good_assembly (slot_pipes (gss @ bss)) ob (start_assembly (gss @ bss) pool fresh ob2)" by blast+
  have n: "as_accepted (start_assembly (gss @ bss) pool fresh ob2) = []" by (simp add: start_assembly_def)
  have "good_assembly (slot_pipes (gss @ bss)) ob a" unfolding a
    using file_steps_good [OF st(4), of "file_order l (bd_good previous)" w l "bd_good previous"] n by simp
  then show thesis using that [OF st(1-3) a _ e(2,1) n st(4)] by blast
qed

lemma finish_simps:
  "bd_slots (finish lss a) = lss @ accepted_slots a" "bd_pipelines (finish lss a) = slot_pipes lss @ slot_pipes (accepted_slots a)"
  "bd_refused (finish lss a) = as_refused a" "bd_good (finish lss a) = as_good a"
  "bd_fresh (finish lss a) = filter (\<lambda>p. pp_id p \<in> pp_id ` set (as_fresh a)) (slot_pipes lss @ slot_pipes (accepted_slots a))"
  by (simp_all add: finish_def accepted_slots_def Let_def)

lemma origins_apart:
  assumes "\<forall>s \<in> set lss. own_slot s \<and> sl_origin s = Legacy" "good_assembly lps ob a"
  shows "filter (\<lambda>p. pp_origin p \<noteq> Legacy) (slot_pipes lss @ slot_pipes (accepted_slots a)) = slot_pipes (accepted_slots a)"
    "filter (\<lambda>p. pp_origin p = Legacy) (slot_pipes lss @ slot_pipes (accepted_slots a)) = slot_pipes lss"
proof -
  have l: "pp_origin p = Legacy" if "p \<in> set (slot_pipes lss)" for p
    using that assms(1) by (auto simp: slot_pipes_def own_slot_def)
  have f: "pp_origin p \<noteq> Legacy" if "p \<in> set (slot_pipes (accepted_slots a))" for p
    using that accepted_slots_origin [OF assms(2)] by (fastforce simp: slot_pipes_def own_slot_def)
  show "filter (\<lambda>p. pp_origin p \<noteq> Legacy) (slot_pipes lss @ slot_pipes (accepted_slots a)) = slot_pipes (accepted_slots a)"
    "filter (\<lambda>p. pp_origin p = Legacy) (slot_pipes lss @ slot_pipes (accepted_slots a)) = slot_pipes lss"
    using l f by (auto simp: filter_empty_conv filter_id_conv)
qed

lemma assemble_own: "assemble w l previous strict ob = (ob', Ok b) \<Longrightarrow> \<forall>s \<in> set (bd_slots previous). own_slot s
    \<Longrightarrow> (\<forall>s \<in> set (bd_slots b). own_slot s) \<and> bd_pipelines b = slot_pipes (bd_slots b)"
proof -
  assume a: "assemble w l previous strict ob = (ob', Ok b)" "\<forall>s \<in> set (bd_slots previous). own_slot s"
  from assemble_Ok [OF this] obtain gss bss a where
    s: "\<forall>s \<in> set (gss @ bss). own_slot s" "good_assembly (slot_pipes (gss @ bss)) ob a" "b = finish (gss @ bss) a" by metis
  then show ?thesis using accepted_slots_origin [OF s(2)] by (auto simp: finish_simps)
qed

text \<open>C10: a file's pipelines never collide.  In every build, whatever the build before lent, two pipelines
  share a name or a send-record key only when both come from the legacy manifest.\<close>

theorem files_never_collide:
  assumes "assemble w l previous strict ob = (ob', Ok b)" "\<forall>s \<in> set (bd_slots previous). own_slot s"
  shows "distinct (map pp_name (filter (\<lambda>p. pp_origin p \<noteq> Legacy) (bd_pipelines b)))
    \<and> distinct (map pp_key (filter (\<lambda>p. pp_origin p \<noteq> Legacy) (bd_pipelines b)))
    \<and> (\<forall>p q. p \<in> set (bd_pipelines b) \<and> q \<in> set (bd_pipelines b) \<and> pp_origin p = Legacy \<and> pp_origin q \<noteq> Legacy
          \<longrightarrow> pp_name p \<noteq> pp_name q \<and> pp_key p \<noteq> pp_key q)
    \<and> (\<forall>s \<in> set (bd_slots b). own_slot s)"
proof -
  from assemble_Ok [OF assms] obtain gss bss pool fresh ob1 a where
    sl: "slots_for Legacy 0 (filter (\<lambda>e. \<not> is_builder e) (legacy_entries l)) gss"
    "slots_for Legacy 0 (filter is_builder (legacy_entries l)) bss" "\<forall>s \<in> set (gss @ bss). own_slot s"
    and g: "good_assembly (slot_pipes (gss @ bss)) ob a" and b: "b = finish (gss @ bss) a" by metis
  have lo: "\<forall>s \<in> set (gss @ bss). own_slot s \<and> sl_origin s = Legacy" using sl slots_for_origin by auto
  note o = origins_apart [OF lo g]
  have d: "distinct (map fst (as_accepted a))" using g by (simp add: good_assembly_def)
  have "apart (acc_pipes a) (pp_name ` set (slot_pipes (gss @ bss))) (pp_key ` set (slot_pipes (gss @ bss)))"
    using g by (simp only: good_assembly_def)
  then have ap: "apart (slot_pipes (accepted_slots a)) (pp_name ` set (slot_pipes (gss @ bss))) (pp_key ` set (slot_pipes (gss @ bss)))"
    unfolding apart_mset [OF accepted_slots_mset [OF d]] .
  have leg: "p \<in> set (slot_pipes (gss @ bss))" if "p \<in> set (bd_pipelines b)" "pp_origin p = Legacy" for p
  proof -
    have "p \<in> set (filter (\<lambda>p. pp_origin p = Legacy) (bd_pipelines b))" using that by simp
    then show ?thesis unfolding b finish_simps o(2) .
  qed
  have fil: "q \<in> set (slot_pipes (accepted_slots a))" if "q \<in> set (bd_pipelines b)" "pp_origin q \<noteq> Legacy" for q
  proof -
    have "q \<in> set (filter (\<lambda>p. pp_origin p \<noteq> Legacy) (bd_pipelines b))" using that by simp
    then show ?thesis unfolding b finish_simps o(1) .
  qed
  have own: "\<forall>s \<in> set (bd_slots b). own_slot s" using sl(3) accepted_slots_origin [OF g] unfolding b finish_simps by auto
  have eq: "filter (\<lambda>p. pp_origin p \<noteq> Legacy) (bd_pipelines b) = slot_pipes (accepted_slots a)" using o(1) by (simp only: b finish_simps)
  have "pp_name p \<noteq> pp_name q \<and> pp_key p \<noteq> pp_key q"
    if "p \<in> set (bd_pipelines b)" "q \<in> set (bd_pipelines b)" "pp_origin p = Legacy" "pp_origin q \<noteq> Legacy" for p q
    using ap leg [OF that(1,3)] fil [OF that(2,4)] unfolding apart_def by blast
  then show ?thesis using ap own unfolding eq apart_def by blast
qed

text \<open>Every pipeline object made while a layout is assembled is closed by the end, or is one of the build's
  pipelines and noted as fresh; a build that raises has closed them all.\<close>

lemma nothing_built_leaks:
  assumes "assemble w l previous strict ob = (ob', r)" "\<forall>s \<in> set (bd_slots previous). own_slot s"
    and "ob_next ob \<le> i" "i < ob_next ob'"
  shows "i \<in> set (ob_closed ob') \<or> (\<exists>b. r = Ok b \<and> i \<in> pp_id ` set (bd_fresh b) \<and> i \<in> pp_id ` set (bd_pipelines b))"
proof (cases r)
  case (Ok b)
  from assemble_Ok [OF assms(1) [unfolded Ok] assms(2)] obtain gss bss a where
    g: "good_assembly (slot_pipes (gss @ bss)) ob a" and b: "b = finish (gss @ bss) a" "ob' = as_objects a" by metis
  have "i \<in> set (ob_closed ob') \<or> i \<in> pp_id ` set (as_fresh a)" using g assms(3,4) b(2) by (simp add: good_assembly_def accounted_def)
  moreover have "set (as_fresh a) \<subseteq> set (bd_pipelines b)"
  proof -
    have "set (slot_pipes (accepted_slots a)) = set (acc_pipes a)"
      using accepted_slots_mset g unfolding good_assembly_def by (metis set_mset_mset)
    then show ?thesis using g unfolding good_assembly_def b(1) finish_simps by auto
  qed
  moreover have "bd_fresh b = filter (\<lambda>p. pp_id p \<in> pp_id ` set (as_fresh a)) (bd_pipelines b)" by (simp only: b(1) finish_simps)
  ultimately show ?thesis using Ok by auto
next
  case (Raise x)
  define es where "es = legacy_entries l"
  have "legacy_generic w (ly_manifest l) strict 0 (filter (\<lambda>e. \<not> is_builder e) es) (bd_slots previous) [] ob = (ob', Raise x)"
    using assms(1) Raise unfolding assemble_def build_legacy_def legacy_entries_def [symmetric] es_def [symmetric]
    by (auto simp: Let_def split: prod.splits res.splits)
  then have "accounted ob ob' []" using legacy_generic_Raise by blast
  then show ?thesis using assms(3,4) by (simp add: accounted_def)
qed

end
