(* ===== verification/DaemonRebuild.thy ===== *)
theory DaemonRebuild
  imports DaemonLaws
begin

text \<open>
  Building an unchanged layout again: every slot of the build before is taken back, in the order it
  was put in, so nothing is built, closed or refused.
\<close>

subsection \<open>Slots are taken back in order\<close>

abbreviation comparable :: "pydict list \<Rightarrow> bool" where "comparable es \<equiv> \<forall>e \<in> set es. same_entry e e"

lemma slots_for_Cons: "slots_for o1 i (e # es) ss \<longleftrightarrow> (\<exists>s ss'. ss = s # ss' \<and> slot_for o1 (naming_index e i) e s \<and> slots_for o1 (Suc i) es ss')"
  by (cases ss) auto

lemma generic_reuse:
  "slots_for Legacy i es ss \<Longrightarrow> comparable es \<Longrightarrow> legacy_generic w m strict i es (ss @ pool) fresh ob = (ob, Ok (ss, pool, fresh))"
proof (induction es arbitrary: i ss)
  case (Cons e es)
  obtain s ss' where s: "ss = s # ss'" "slot_for Legacy (naming_index e i) e s" "slots_for Legacy (Suc i) es ss'"
    using Cons.prems(1) unfolding slots_for_Cons by blast
  have "take_slot Legacy (naming_index e i) e (s # ss' @ pool) = Some (s, ss' @ pool)" using take_slot_head [OF s(2)] Cons.prems(2) by simp
  then show ?case using Cons.IH [OF s(3)] Cons.prems(2) by (simp add: s(1) del: take_slot.simps)
qed simp

lemma builders_reuse:
  "slots_for Legacy i es ss \<Longrightarrow> comparable es \<Longrightarrow> \<forall>e \<in> set es. is_builder e
    \<Longrightarrow> legacy_builders w m es (ss @ pool) fresh ob = (ob, ss, pool, fresh)"
proof (induction es arbitrary: i ss)
  case (Cons e es)
  have ni: "naming_index e i = None" using Cons.prems(3) by (simp add: naming_index_def)
  obtain s ss' where s: "ss = s # ss'" "slot_for Legacy None e s" "slots_for Legacy (Suc i) es ss'"
    using Cons.prems(1) unfolding slots_for_Cons ni by blast
  have "take_slot Legacy None e (s # ss' @ pool) = Some (s, ss' @ pool)" using take_slot_head [OF s(2)] Cons.prems(2) by simp
  then show ?case using Cons.IH [OF s(3)] Cons.prems(2,3) by (simp add: s(1) del: take_slot.simps)
qed simp

lemma file_reuse:
  "slots_for o1 i es ss \<Longrightarrow> comparable es \<Longrightarrow> fb_pool b = ss @ pool
    \<Longrightarrow> build_file w m o1 i es b ob = (ob, Inl (b\<lparr>fb_slots := fb_slots b @ ss, fb_taken := fb_taken b @ ss, fb_pool := pool\<rparr>), pool)"
proof (induction es arbitrary: i ss b)
  case (Cons e es)
  obtain s ss' where s: "ss = s # ss'" "slot_for o1 (naming_index e i) e s" "slots_for o1 (Suc i) es ss'"
    using Cons.prems(1) unfolding slots_for_Cons by blast
  have t: "take_slot o1 (naming_index e i) e (fb_pool b) = Some (s, ss' @ pool)"
    using take_slot_head [OF s(2), of "ss' @ pool"] Cons.prems(2,3) s(1) by simp
  define c where "c = b\<lparr>fb_slots := fb_slots b @ [s], fb_taken := fb_taken b @ [s], fb_pool := ss' @ pool\<rparr>"
  have "fb_pool c = ss' @ pool" "comparable es" using Cons.prems(2) by (simp_all add: c_def)
  note ih = Cons.IH [OF s(3) this(2,1)]
  show ?case unfolding build_file.simps t option.case prod.case c_def [symmetric] ih by (simp add: c_def s(1))
qed simp

subsection \<open>Files are taken back\<close>

lemma try_file_reuse:
  assumes "slots_for (InFile f) 0 es ss" "comparable es" "as_pool a = ss @ pool" "f \<notin> fst ` set (as_accepted a)"
    "apart (slot_pipes ss) (dom (map_of (as_names a))) (dom (map_of (as_keys a)))"
  obtains a' where "try_file w m f es a = (a', None)" "as_pool a' = pool" "as_accepted a' = as_accepted a @ [(f, ss)]"
    "as_fresh a' = as_fresh a" "as_objects a' = as_objects a" "as_refused a' = as_refused a"
    "dom (map_of (as_names a')) = dom (map_of (as_names a)) \<union> pp_name ` set (slot_pipes ss)"
    "dom (map_of (as_keys a')) = dom (map_of (as_keys a)) \<union> pp_key ` set (slot_pipes ss)"
proof -
  obtain names keys where ad: "admit (slot_pipes ss) (as_names a) (as_keys a) = Inl (names, keys)" using assms(5) admit_iff by blast
  define b where "b = \<lparr>fb_slots = [], fb_taken = [], fb_fresh = [], fb_pool = as_pool a\<rparr>"
  have "fb_pool b = ss @ pool" using assms(3) by (simp add: b_def)
  note bf = file_reuse [OF assms(1,2) this, of w m "as_objects a"]
  have "try_file w m f es a = (a\<lparr>as_pool := pool, as_names := names, as_keys := keys,
      as_accepted := as_accepted a @ [(f, ss)], as_good := dict_set f es (as_good a)\<rparr>, None)"
    unfolding try_file_def b_def [symmetric] bf using ad dict_set_new [OF assms(4)] by (simp add: b_def)
  then show thesis using that admit_doms [OF ad] by simp
qed

lemma file_steps_reuse:
  assumes "ly_refused l = []"
  shows "\<forall>f \<in> set fs. slots_for (InFile f) 0 (file_entries l f) (g f) \<and> comparable (file_entries l f) \<Longrightarrow> distinct fs
    \<Longrightarrow> fst ` set (as_accepted a) \<inter> set fs = {} \<Longrightarrow> as_pool a = concat (map g fs) @ rest
    \<Longrightarrow> apart (slot_pipes (concat (map g fs))) (dom (map_of (as_names a))) (dom (map_of (as_keys a)))
    \<Longrightarrow> as_accepted (fold (file_step w l good) fs a) = as_accepted a @ map (\<lambda>f. (f, g f)) fs
      \<and> as_fresh (fold (file_step w l good) fs a) = as_fresh a \<and> as_objects (fold (file_step w l good) fs a) = as_objects a
      \<and> as_refused (fold (file_step w l good) fs a) = as_refused a"
proof (induction fs arbitrary: a)
  case (Cons f fs)
  have sl: "slots_for (InFile f) 0 (file_entries l f) (g f)" "comparable (file_entries l f)" using Cons.prems(1) by simp_all
  have po: "as_pool a = g f @ concat (map g fs) @ rest" using Cons.prems(4) by simp
  have fr: "f \<notin> fst ` set (as_accepted a)" using Cons.prems(3) by auto
  have ap: "apart (slot_pipes (g f)) (dom (map_of (as_names a))) (dom (map_of (as_keys a)))"
    "apart (slot_pipes (concat (map g fs))) (dom (map_of (as_names a)) \<union> pp_name ` set (slot_pipes (g f))) (dom (map_of (as_keys a)) \<union> pp_key ` set (slot_pipes (g f)))"
    using Cons.prems(5) by (simp_all add: apart_append)
  obtain a1 where t: "try_file w (ly_manifest l) f (file_entries l f) a = (a1, None)" and p1: "as_pool a1 = concat (map g fs) @ rest"
    and a1: "as_accepted a1 = as_accepted a @ [(f, g f)]" "as_fresh a1 = as_fresh a" "as_objects a1 = as_objects a" "as_refused a1 = as_refused a"
    and d1: "dom (map_of (as_names a1)) = dom (map_of (as_names a)) \<union> pp_name ` set (slot_pipes (g f))"
      "dom (map_of (as_keys a1)) = dom (map_of (as_keys a)) \<union> pp_key ` set (slot_pipes (g f))"
    using try_file_reuse [OF sl po fr ap(1), of w "ly_manifest l"] .
  have st: "file_step w l good f a = a1" by (simp add: file_step_def load_refused_def assms t)
  have "fst ` set (as_accepted a1) \<inter> set fs = {}" using Cons.prems(2,3) a1(1) by auto
  then have "as_accepted (fold (file_step w l good) fs a1) = as_accepted a1 @ map (\<lambda>f. (f, g f)) fs
      \<and> as_fresh (fold (file_step w l good) fs a1) = as_fresh a1 \<and> as_objects (fold (file_step w l good) fs a1) = as_objects a1
      \<and> as_refused (fold (file_step w l good) fs a1) = as_refused a1"
    using Cons.IH [of a1] Cons.prems(1,2) p1 ap(2) d1 by simp
  then show ?case using a1 st by simp
qed simp

lemma file_order_settled:
  assumes "ly_refused l = []" "\<forall>f \<in> set (layout_files l). map_of good f = Some (file_entries l f)" "comparable (map fst (ly_entries l))"
  shows "file_order l good = sort (remdups (layout_files l))"
proof -
  have "list_all2 same_entry es es" if "comparable es" for es using that by (induction es) auto
  then have "unchanged l good f" if "f \<in> set (layout_files l)" for f
    using assms(2,3) that unfolding unchanged_def same_entries_def file_entries_def by fastforce
  then show ?thesis using assms(1) by (simp add: file_order_def Let_def filter_id_conv filter_empty_conv)
qed

subsection \<open>The whole build\<close>

lemma accepted_map: "distinct fs \<Longrightarrow> sorted fs \<Longrightarrow> as_accepted a = map (\<lambda>f. (f, g f)) fs \<Longrightarrow> accepted_slots a = concat (map g fs)"
proof -
  assume d: "distinct fs" "sorted fs" "as_accepted a = map (\<lambda>f. (f, g f)) fs"
  have "map fst (as_accepted a) = fs" using d(3) by (simp add: comp_def)
  then have "accepted_slots a = concat (map (\<lambda>f. the (map_of (as_accepted a) f)) fs)" using d(2) by (simp add: accepted_slots_def sorted_sort_id)
  moreover have "map (\<lambda>f. the (map_of (as_accepted a) f)) fs = map g fs" unfolding d(3) map_of_map_restrict by simp
  ultimately show ?thesis by simp
qed

text \<open>C11: an unchanged layout rebuilds nothing.  When a build refused no file, building the same layout over
  it, strict or not and whatever the clients' builders would return now, makes no pipeline, closes none
  and gives the same slots and the same pipelines in the same order.\<close>

theorem unchanged_layout_rebuilds_nothing:
  assumes "assemble w l previous strict ob = (ob1, Ok b)" "\<forall>s \<in> set (bd_slots previous). own_slot s"
    and "bd_refused b = []" "ly_refused l = []" "comparable (map fst (ly_entries l))"
  shows "\<exists>b'. assemble w' l b strict' ob2 = (ob2, Ok b') \<and> bd_slots b' = bd_slots b \<and> bd_pipelines b' = bd_pipelines b
    \<and> bd_fresh b' = [] \<and> bd_refused b' = []"
proof -
  define es where "es = legacy_entries l"
  define ords where "ords = file_order l (bd_good previous)"
  define fs where "fs = sort (remdups (layout_files l))"
  from assemble_Ok [OF assms(1,2)] obtain gss bss pool fresh obx a where
    sl: "slots_for Legacy 0 (filter (\<lambda>e. \<not> is_builder e) es) gss" "slots_for Legacy 0 (filter is_builder es) bss"
    and a: "a = fold (file_step w l (bd_good previous)) ords (start_assembly (gss @ bss) pool fresh obx)"
    and g: "good_assembly (slot_pipes (gss @ bss)) ob a" and b: "b = finish (gss @ bss) a"
    and st: "as_accepted (start_assembly (gss @ bss) pool fresh obx) = []" "good_assembly (slot_pipes (gss @ bss)) ob (start_assembly (gss @ bss) pool fresh obx)"
    unfolding es_def ords_def by metis
  have fs: "distinct fs" "sorted fs" "set fs = set ords" "set fs = set (layout_files l)" using assms(4) by (auto simp: fs_def ords_def file_order_def Let_def)
  have od: "distinct ords" by (simp add: ords_def)
  have "as_refused a = []" using assms(3) b by (simp add: finish_simps)
  then have good: "\<forall>f \<in> set ords. map_of (as_good a) f = Some (file_entries l f)" "fst ` set (as_accepted a) = set ords"
    using file_steps_good [OF st(2) od, of w l "bd_good previous"] st(1) unfolding a [symmetric] by simp_all
  define g1 where "g1 = (\<lambda>f. the (map_of (as_accepted a) f))"
  have d: "distinct (map fst (as_accepted a))" using g by (simp add: good_assembly_def)
  have srt: "sort (map fst (as_accepted a)) = fs"
    by (rule sorted_distinct_set_unique) (use d fs(1,2,3) good(2) in simp_all)
  have acc: "accepted_slots a = concat (map g1 fs)" by (simp only: accepted_slots_def srt g1_def)
  have g1: "slots_for (InFile f) 0 (file_entries l f) (g1 f) \<and> comparable (file_entries l f)" if "f \<in> set fs" for f
  proof -
    have "f \<in> fst ` set (as_accepted a)" using that good(2) fs(3) by simp
    then obtain ss where ss: "map_of (as_accepted a) f = Some ss" by (meson map_of_eq_None_iff not_None_eq)
    then have "(f, ss) \<in> set (as_accepted a)" by (rule map_of_SomeD)
    then have "slots_for (InFile f) 0 (file_entries l f) ss" using g good(1) that fs(3) unfolding good_assembly_def by fastforce
    moreover have "comparable (file_entries l f)" using assms(5) by (auto simp: file_entries_def)
    ultimately show ?thesis using ss by (simp add: g1_def)
  qed
  have ap: "apart (slot_pipes (accepted_slots a)) (pp_name ` set (slot_pipes (gss @ bss))) (pp_key ` set (slot_pipes (gss @ bss)))"
    unfolding apart_mset [OF accepted_slots_mset [OF d]] using g by (simp only: good_assembly_def)
  define a0 where "a0 = start_assembly (gss @ bss) (concat (map g1 fs)) [] ob2"
  define a' where "a' = fold (file_step w' l (as_good a)) fs a0"
  have a0: "as_accepted a0 = []" "as_fresh a0 = []" "as_objects a0 = ob2" "as_refused a0 = []" "as_pool a0 = concat (map g1 fs) @ []"
    "dom (map_of (as_names a0)) = pp_name ` set (slot_pipes (gss @ bss))" "dom (map_of (as_keys a0)) = pp_key ` set (slot_pipes (gss @ bss))"
    by (simp_all add: a0_def start_assembly_def dom_fold_default image_Un)
  have "apart (slot_pipes (concat (map g1 fs))) (dom (map_of (as_names a0))) (dom (map_of (as_keys a0)))" using ap unfolding a0 acc .
  from file_steps_reuse [OF assms(4) _ fs(1) _ a0(5) this] g1 a0(1)
  have a': "as_accepted a' = map (\<lambda>f. (f, g1 f)) fs" "as_fresh a' = []" "as_objects a' = ob2" "as_refused a' = []"
    unfolding a'_def by (simp_all add: a0)
  have sp: "accepted_slots a' = accepted_slots a" using accepted_map [OF fs(1,2) a'(1)] acc by simp
  have ord: "file_order l (as_good a) = fs"
    unfolding fs_def by (rule file_order_settled [OF assms(4) _ assms(5)]) (use good(1) fs(3,4) in simp)
  have ce: "comparable (filter (\<lambda>e. \<not> is_builder e) es)" "comparable (filter is_builder es)" using assms(5) by (auto simp: es_def legacy_entries_def)
  have "bd_slots b = gss @ bss @ concat (map g1 fs)" using b acc by (simp add: finish_simps)
  then have leg: "build_legacy w' (ly_manifest l) strict' es (bd_slots b) ob2 = (ob2, Ok (gss @ bss, concat (map g1 fs), []))"
    using generic_reuse [OF sl(1) ce(1)] builders_reuse [OF sl(2) ce(2)] by (simp add: build_legacy_def)
  have "assemble w' l b strict' ob2 = (ob2, Ok (finish (gss @ bss) a'))"
    unfolding assemble_def legacy_entries_def [symmetric] es_def [symmetric] leg using ord b by (simp add: a0_def [symmetric] a'_def [symmetric] a'(3) finish_simps)
  moreover have "bd_slots (finish (gss @ bss) a') = bd_slots b" "bd_pipelines (finish (gss @ bss) a') = bd_pipelines b"
    "bd_fresh (finish (gss @ bss) a') = []" "bd_refused (finish (gss @ bss) a') = []"
    using b sp a' by (simp_all add: finish_simps)
  ultimately show ?thesis by blast
qed

end
