(* ===== verification/Rebuild.thy ===== *)
theory Rebuild
  imports Daemon Store
begin

text \<open>
  The running daemon, \<open>daemon.py\<close>: the store check, the starting records, the rebuilder and one turn of
  the main loop.

  The uploader is its list of pipelines: a pump notes which ones it ran, \<open>replace_pipelines\<close> closes
  those it drops.  Two pipelines are taken to share no source and no transport.
\<close>

subsection \<open>The store check\<close>

definition producer_store_version :: int where "producer_store_version = 2"

definition store_reason :: "int \<Rightarrow> string" where
  "store_reason version = ''store is at schema version '' @ str_of_int version @ ''; producer pipelines need version ''
     @ str_of_int producer_store_version @ '' (run `hs-uploader migrate`)''"

definition may_run :: "int \<Rightarrow> pipe \<Rightarrow> bool" where
  "may_run version p \<longleftrightarrow> \<not> (pp_producer p \<and> version < producer_store_version)"

definition split_refused :: "pipe list \<Rightarrow> int \<Rightarrow> pipe list \<times> (string \<times> string) list" where
  "split_refused ps version = (filter (may_run version) ps,
     fold (\<lambda>p d. dict_set (pp_name p) (store_reason version) d) (filter (\<lambda>p. \<not> may_run version p) ps) [])"

subsection \<open>Starting records\<close>

text \<open>A pipeline that offers no initial cursor, that the gate exempts, whose key holds a record or whose
  source fails is passed over; the record is inserted only.\<close>

definition starting_record :: "daemon_world \<Rightarrow> pipe \<Rightarrow> store \<Rightarrow> store \<times> send_key option" where
  "starting_record w p st = (if dw_initial w (pp_id p) = None \<or> exempt_rule (pp_gate p) \<noteq> 0 then (st, None)
     else (case get_cursor st (pp_key p) of Raise _ \<Rightarrow> (st, None)
       | Ok old \<Rightarrow> if old \<noteq> [] then (st, None)
         else (case the (dw_initial w (pp_id p)) of Raise _ \<Rightarrow> (st, None) | Ok None \<Rightarrow> (st, None)
           | Ok (Some cursor) \<Rightarrow> if cursor = [] then (st, None)
             else (case start_cursor (pp_key p) cursor (dw_stamp w) st of
               (True, st') \<Rightarrow> (st', Some (pp_key p)) | (False, st') \<Rightarrow> (st', None)))))"

fun write_starting_records :: "daemon_world \<Rightarrow> pipe list \<Rightarrow> store \<Rightarrow> store \<times> send_key list" where
  "write_starting_records w [] st = (st, [])"
| "write_starting_records w (p # ps) st = (let (st1, k) = starting_record w p st; (st2, ks) = write_starting_records w ps st1
     in (st2, (case k of Some x \<Rightarrow> x # ks | None \<Rightarrow> ks)))"

subsection \<open>The rebuilder\<close>

datatype switch_line = NoSwitchFiles | SwitchReads string sink_state bool

type_synonym state_row = "string \<times> string \<times> string"

record rebuilder =
  rb_manifest :: pydict
  rb_has_marker :: bool
  rb_build :: build
  rb_running :: "pipe list"
  rb_rows :: "state_row list"
  rb_signature :: "signature option"
  rb_marker_seen :: bool
  rb_said :: "(string \<times> sink_state \<times> bool) list"
  rb_said_no_files :: bool

record daemon =
  dm_rb :: rebuilder
  dm_store :: store
  dm_objects :: objects
  dm_mem :: switch_mem
  dm_gate :: gate
  dm_uploader :: "pipe list"
  dm_lines :: "switch_line list"
  dm_pumps :: "pipe list list"
  dm_hup_pending :: bool
  dm_last_failure :: "exn option"
  dm_failures :: "exn list"

definition set_rb :: "(rebuilder \<Rightarrow> rebuilder) \<Rightarrow> daemon \<Rightarrow> daemon" where
  "set_rb f d = d\<lparr>dm_rb := f (dm_rb d)\<rparr>"

definition read_marker :: "daemon_world \<Rightarrow> daemon \<Rightarrow> bool \<times> daemon" where
  "read_marker w d = (case marker_stands (gw_lstat (dw_gate w)) (gw_marker (dw_gate w)) (dm_mem d) of
     (stands, m) \<Rightarrow> (stands, d\<lparr>dm_mem := m\<rparr>))"

definition starting_records :: "daemon_world \<Rightarrow> pipe list \<Rightarrow> daemon \<Rightarrow> daemon" where
  "starting_records w ps d = d\<lparr>dm_store := fst (write_starting_records w ps (dm_store d))\<rparr>"

definition starting_pass :: "daemon_world \<Rightarrow> pipe list \<Rightarrow> daemon \<Rightarrow> daemon" where
  "starting_pass w ps d = (if \<not> rb_has_marker (dm_rb d) then d
     else (let (stands, d1) = read_marker w d; d2 = set_rb (\<lambda>r. r\<lparr>rb_marker_seen := stands\<rparr>) d1
       in if stands then starting_records w ps d2 else d2))"

subsection \<open>The switch report\<close>

definition say_line :: "switch_line \<Rightarrow> daemon \<Rightarrow> daemon" where "say_line l d = d\<lparr>dm_lines := dm_lines d @ [l]\<rparr>"

definition report_client :: "daemon_world \<Rightarrow> bool \<Rightarrow> string \<Rightarrow> daemon \<Rightarrow> daemon" where
  "report_client w enforced client d = (let g = dw_gate w;
       (eff, m) = effective_state (gw_loads g) (gw_files g) (gw_sinks_dir g) client (dm_mem d);
       d1 = d\<lparr>dm_mem := m\<rparr> in
     if map_of (rb_said (dm_rb d1)) client = Some (ef_state eff, enforced) then d1
     else say_line (SwitchReads client (ef_state eff) enforced)
       (set_rb (\<lambda>r. r\<lparr>rb_said := dict_set client (ef_state eff, enforced) (rb_said r)\<rparr>) d1))"

definition governed_clients :: "pipe list \<Rightarrow> string list" where
  "governed_clients ps = sort (remdups (map (\<lambda>p. gp_client (pp_gate p))
     (filter (\<lambda>p. gp_client (pp_gate p) \<noteq> [] \<and> gp_governed (pp_gate p)) ps)))"

definition report_switches :: "daemon_world \<Rightarrow> daemon \<Rightarrow> daemon \<times> unit res" where
  "report_switches w d = (let (enforced, d1) = (if rb_has_marker (dm_rb d) then read_marker w d else (False, d)) in
     case gw_is_dir (dw_gate w) of Raise e \<Rightarrow> (d1, Raise e)
     | Ok False \<Rightarrow> (let d2 = (if \<not> rb_said_no_files (dm_rb d1) \<and> \<not> enforced
           then say_line NoSwitchFiles (set_rb (\<lambda>r. r\<lparr>rb_said_no_files := True\<rparr>) d1) else d1)
         in (set_rb (\<lambda>r. r\<lparr>rb_said := []\<rparr>) d2, Ok ()))
     | Ok True \<Rightarrow> (fold (report_client w enforced) (governed_clients (bd_pipelines (rb_build (dm_rb d1))))
         (set_rb (\<lambda>r. r\<lparr>rb_said_no_files := False\<rparr>) d1), Ok ()))"

subsection \<open>Building\<close>

record made =
  md_signature :: signature
  md_build :: build
  md_running :: "pipe list"
  md_rows :: "state_row list"

definition make_rows :: "daemon_world \<Rightarrow> build \<Rightarrow> (string \<times> string) list \<Rightarrow> state_row list" where
  "make_rows w b refused = map (\<lambda>p. (pp_name p, gp_client (pp_gate p), case map_of refused (pp_name p) of Some r \<Rightarrow> r | None \<Rightarrow> [])) (bd_pipelines b)
     @ map (\<lambda>r. (row_name r, rf_client r, dw_reason w (rf_reason r))) (bd_refused b)"

definition make :: "daemon_world \<Rightarrow> build \<Rightarrow> bool \<Rightarrow> daemon \<Rightarrow> daemon \<times> made res" where
  "make w previous strict d = (case load_layout (dw_dir w) (rb_manifest (dm_rb d)) of Raise e \<Rightarrow> (d, Raise e)
   | Ok l \<Rightarrow> (case assemble w l previous strict (dm_objects d) of
       (ob, Raise e) \<Rightarrow> (d\<lparr>dm_objects := ob\<rparr>, Raise e)
     | (ob, Ok b) \<Rightarrow> (case dw_version_error w of
         Some e \<Rightarrow> (d\<lparr>dm_objects := close_quietly (bd_fresh b) ob\<rparr>, Raise e)
       | None \<Rightarrow> (let (version, st) = refresh_schema_version (dm_store d); (running, refused) = split_refused (bd_pipelines b) version
           in (d\<lparr>dm_objects := ob, dm_store := st\<rparr>,
               Ok \<lparr>md_signature = ly_signature l, md_build = b, md_running = running, md_rows = make_rows w b refused\<rparr>)))))"

definition record_rows :: "daemon_world \<Rightarrow> state_row list \<Rightarrow> daemon \<Rightarrow> daemon \<times> unit res" where
  "record_rows w rows d = (case dw_record_error w of Some e \<Rightarrow> (d, Raise e)
   | None \<Rightarrow> (d\<lparr>dm_store := record_pipeline_states (dw_stamp w) rows True (dm_store d)\<rparr>, Ok ()))"

definition due :: "daemon_world \<Rightarrow> daemon \<Rightarrow> bool" where
  "due w d \<longleftrightarrow> rb_signature (dm_rb d) \<noteq> Some (pipelines_signature (dw_dir w))"

subsection \<open>Start and rebuild\<close>

definition start :: "daemon_world \<Rightarrow> daemon \<Rightarrow> daemon \<times> unit res" where
  "start w d = (case make w empty_build True d of (d1, Raise e) \<Rightarrow> (d1, Raise e)
   | (d1, Ok m) \<Rightarrow> (case record_rows w (md_rows m) d1 of (d2, Raise e) \<Rightarrow> (d2, Raise e)
     | (d2, Ok _) \<Rightarrow> report_switches w (starting_pass w (md_running m)
         (set_rb (\<lambda>r. r\<lparr>rb_build := md_build m, rb_running := md_running m, rb_rows := md_rows m, rb_signature := Some (md_signature m)\<rparr>) d2))))"

text \<open>What the start leads to: a daemon with nothing to run stays up only for a refused file.\<close>

datatype verdict = RunPipelines | RunIdle | ExitOne

definition start_verdict :: "daemon \<Rightarrow> verdict" where
  "start_verdict d = (if rb_running (dm_rb d) \<noteq> [] then RunPipelines
     else if bd_refused (rb_build (dm_rb d)) \<noteq> [] then RunIdle else ExitOne)"

definition ids :: "pipe list \<Rightarrow> nat list" where "ids ps = map pp_id ps"

definition replace_pipelines :: "pipe list \<Rightarrow> daemon \<Rightarrow> daemon" where
  "replace_pipelines new d = d\<lparr>dm_objects := close_quietly (filter (\<lambda>p. pp_id p \<notin> set (ids new)) (dm_uploader d)) (dm_objects d),
     dm_uploader := new\<rparr>"

definition rebuild :: "daemon_world \<Rightarrow> daemon \<Rightarrow> daemon \<times> bool res" where
  "rebuild w d = (let previous = rb_build (dm_rb d) in
     case make w previous False d of (d1, Raise e) \<Rightarrow> (d1, Raise e)
   | (d1, Ok m) \<Rightarrow> (let changed = \<not> (md_rows m = rb_rows (dm_rb d1) \<and> ids (md_running m) = ids (rb_running (dm_rb d1))) in
       case (if changed then record_rows w (md_rows m) d1 else (d1, Ok ())) of
         (d2, Raise e) \<Rightarrow> (d2\<lparr>dm_objects := close_quietly (bd_fresh (md_build m)) (dm_objects d2)\<rparr>, Raise e)
       | (d2, Ok _) \<Rightarrow> (case report_switches w (starting_pass w (md_running m)
             (set_rb (\<lambda>r. r\<lparr>rb_build := md_build m, rb_signature := Some (md_signature m)\<rparr>) d2)) of
           (d3, Raise e) \<Rightarrow> (d3, Raise e)
         | (d3, Ok _) \<Rightarrow> (let d4 = d3\<lparr>dm_objects := close_quietly (filter (\<lambda>p. pp_id p \<notin> set (ids (bd_pipelines (md_build m)))
                 \<and> pp_id p \<notin> set (ids (dm_uploader d3))) (bd_pipelines previous)) (dm_objects d3)\<rparr> in
             if \<not> changed then (d4, Ok False)
             else (set_rb (\<lambda>r. r\<lparr>rb_running := md_running m\<rparr>)
                 (replace_pipelines (md_running m) (set_rb (\<lambda>r. r\<lparr>rb_rows := md_rows m\<rparr>) d4)), Ok True)))))"

subsection \<open>Before a pump\<close>

definition marker_check :: "daemon_world \<Rightarrow> daemon \<Rightarrow> daemon \<times> unit res" where
  "marker_check w d = (if \<not> rb_has_marker (dm_rb d) then (d, Ok ())
     else (let seen = rb_marker_seen (dm_rb d); (stands, d1) = read_marker w d;
         d2 = set_rb (\<lambda>r. r\<lparr>rb_marker_seen := stands\<rparr>) d1 in
       if stands \<and> \<not> seen then report_switches w (starting_records w (rb_running (dm_rb d2)) d2)
       else if stands \<noteq> seen then report_switches w d2
       else (d2, Ok ())))"

subsection \<open>One turn of the loop\<close>

definition try_rebuild :: "daemon_world \<Rightarrow> daemon \<Rightarrow> daemon" where
  "try_rebuild w d = (case rebuild w d of
     (d1, Ok changed) \<Rightarrow> (let d2 = d1\<lparr>dm_hup_pending := False, dm_last_failure := None\<rparr> in
       if changed then d2\<lparr>dm_gate := forget (map pp_gate (bd_pipelines (rb_build (dm_rb d2)))) (dm_gate d2)\<rparr> else d2)
   | (d1, Raise e) \<Rightarrow> d1\<lparr>dm_last_failure := Some e,
       dm_failures := dm_failures d1 @ (if dm_last_failure d1 = Some e then [] else [e])\<rparr>)"

definition turn :: "daemon_world \<Rightarrow> bool \<Rightarrow> daemon \<Rightarrow> daemon" where
  "turn w hangup d = (let d1 = d\<lparr>dm_hup_pending := dm_hup_pending d \<or> hangup\<rparr>;
       d2 = (if dm_hup_pending d1 \<or> due w d1 then try_rebuild w d1 else d1);
       d3 = fst (marker_check w d2)
     in d3\<lparr>dm_pumps := dm_pumps d3 @ [dm_uploader d3]\<rparr>)"

end
