(* ===== verification/RebuildLaws.thy ===== *)
theory RebuildLaws
  imports Rebuild DaemonLaws
begin

text \<open>
  The running daemon: what it runs is never closed, what it drops always is, and a rebuild that fails
  changes nothing.  A multiset of pipelines is sound when no identity is in it twice and none is closed.
\<close>

subsection \<open>Sound multisets of pipelines\<close>

definition sound :: "objects \<Rightarrow> pipe multiset \<Rightarrow> bool" where
  "sound ob M \<longleftrightarrow> (\<forall>i \<in> set (ob_closed ob). i < ob_next ob)
     \<and> (\<forall>i. count (image_mset pp_id M) i \<le> (if i < ob_next ob \<and> i \<notin> set (ob_closed ob) then 1 else 0))"

lemma sound_sub: "sound ob M \<Longrightarrow> N \<subseteq># M \<Longrightarrow> sound ob N"
  unfolding sound_def by (meson image_mset_subseteq_mono le_trans mset_subset_eq_count)

lemma sound_close:
  assumes "sound ob (M + mset cs)"
  shows "sound (close_quietly cs ob) M"
proof -
  have s: "count (image_mset pp_id M) i + count (image_mset pp_id (mset cs)) i \<le> (if i < ob_next ob \<and> i \<notin> set (ob_closed ob) then 1 else 0)" for i
    using assms unfolding sound_def by simp
  have c: "i \<in> pp_id ` set cs \<Longrightarrow> 0 < count (image_mset pp_id (mset cs)) i" for i by (simp add: count_greater_zero_iff)
  have "i < ob_next ob" if "i \<in> pp_id ` set cs" for i using s [of i] c [OF that] by presburger
  moreover have "count (image_mset pp_id M) i = 0" if "i \<in> pp_id ` set cs" for i
  proof -
    have "count (image_mset pp_id M) i + count (image_mset pp_id (mset cs)) i \<le> 1" by (rule le_trans [OF s]) simp
    then show ?thesis using c [OF that] by linarith
  qed
  moreover have "count (image_mset pp_id M) i \<le> (if i < ob_next ob \<and> i \<notin> set (ob_closed ob) \<union> pp_id ` set cs then 1 else 0)" for i
  proof (cases "i \<in> pp_id ` set cs")
    case False
    then show ?thesis using le_trans [OF le_add1 s [of i]] by simp
  next
    case True
    then show ?thesis using calculation(2) [OF True] by simp
  qed
  ultimately show ?thesis using assms unfolding sound_def close_quietly_def by (auto simp del: count_image_mset)
qed

lemma made_ids: "map pp_id (map2 (make_pipe f e o1) ds [a ..< a + length ds]) = [a ..< a + length ds]"
  by (rule nth_equalityI) (simp_all add: make_pipe_def)

lemma sound_new:
  assumes "build_one w m e o1 i ob = (ob', r)" "sound ob M"
  shows "sound ob' (M + mset (built r))"
proof (cases r)
  case (Raise x)
  then have "ob' = ob" using assms(1) by (auto simp: build_one_def make_pipes_def Let_def split: res.splits)
  then show ?thesis using assms(2) Raise by (simp add: built_def)
next
  case (Ok ps)
  then obtain ds where d: "ob' = ob\<lparr>ob_next := ob_next ob + length ds\<rparr>" "ps = map2 (make_pipe (dw_fx w) e o1) ds [ob_next ob ..< ob_next ob + length ds]"
    using assms(1) by (auto simp: build_one_def make_pipes_def Let_def split: res.splits)
  have "image_mset pp_id (mset ps) = mset [ob_next ob ..< ob_next ob + length ds]" unfolding d(2) mset_map [symmetric] made_ids ..
  then have n: "count (image_mset pp_id (mset ps)) i = (if ob_next ob \<le> i \<and> i < ob_next ob + length ds then 1 else 0)" for i
    using distinct_count_atmost_1 [of "[ob_next ob ..< ob_next ob + length ds]"] by (simp del: mset_upt)
  have b: "i \<in> set (ob_closed ob) \<Longrightarrow> i < ob_next ob" "count (image_mset pp_id M) i \<le> (if i < ob_next ob \<and> i \<notin> set (ob_closed ob) then 1 else 0)" for i
    using assms(2) unfolding sound_def by blast+
  have "count (image_mset pp_id M) i + count (image_mset pp_id (mset ps)) i \<le> (if i < ob_next ob' \<and> i \<notin> set (ob_closed ob') then 1 else 0)" for i
    using b [of i] unfolding n d(1) by (auto split: if_splits simp del: count_image_mset)
  moreover have "\<forall>i \<in> set (ob_closed ob'). i < ob_next ob'" using b(1) unfolding d(1) by fastforce
  ultimately show ?thesis using Ok unfolding sound_def built_def by simp
qed


subsection \<open>What a build takes, makes and closes\<close>

text \<open>A slot list's pipelines; a step keeps any sound multiset sound, its fresh pipelines added.\<close>

abbreviation pm :: "slot list \<Rightarrow> pipe multiset" where "pm ss \<equiv> mset (slot_pipes ss)"

lemma take_slot_mset: "take_slot o1 i e pool = Some (s, pool') \<Longrightarrow> pm pool = mset (sl_pipes s) + pm pool'"
  by (induction pool arbitrary: s pool') (auto split: if_splits)

lemma generic_sound:
  "legacy_generic w m strict i es pool fresh ob = (ob', Ok (ss, pool', fresh')) \<Longrightarrow>
    (sound ob (R + mset fresh) \<longrightarrow> sound ob' (R + mset fresh')) \<and> pm pool' + pm ss + mset fresh = pm pool + mset fresh'"
proof (induction es arbitrary: i pool fresh ob ss)
  case (Cons e es)
  show ?case
  proof (cases "take_slot Legacy (naming_index e i) e pool")
    case (Some sp)
    obtain s pool1 where sp: "sp = (s, pool1)" by fastforce
    obtain ss' where r: "legacy_generic w m strict (Suc i) es pool1 fresh ob = (ob', Ok (ss', pool', fresh'))" "ss = s # ss'"
      using Cons.prems(1) Some sp by (auto split: prod.splits)
    show ?thesis using Cons.IH [OF r(1)] take_slot_mset [of Legacy "naming_index e i" e pool s pool1] Some sp r(2) by (simp add: ac_simps)
  next
    case None
    obtain ob1 r1 where b: "build_one w m e Legacy i ob = (ob1, r1)" by fastforce
    have ns: "\<not> (\<exists>x. r1 = Raise x \<and> strict)" using Cons.prems(1) None b by auto
    obtain s ss' where r: "legacy_generic w m strict (Suc i) es pool (fresh @ built r1) ob1 = (ob', Ok (ss', pool', fresh'))" "ss = s # ss'" "sl_pipes s = built r1"
      using Cons.prems(1) unfolding legacy_generic_new [OF None b ns] by (auto split: prod.splits)
    show ?thesis using Cons.IH [OF r(1)] sound_new [OF b, of "R + mset fresh"] r(2,3) by (simp add: ac_simps)
  qed
qed simp

lemma generic_raise_sound:
  "legacy_generic w m strict i es pool fresh ob = (ob', Raise x) \<Longrightarrow> sound ob (R + mset fresh) \<Longrightarrow> sound ob' R"
proof (induction es arbitrary: i pool fresh ob)
  case (Cons e es)
  show ?case
  proof (cases "take_slot Legacy (naming_index e i) e pool")
    case (Some sp)
    obtain s pool1 where sp: "sp = (s, pool1)" by fastforce
    have "legacy_generic w m strict (Suc i) es pool1 fresh ob = (ob', Raise x)"
      using Cons.prems(1) Some sp by (cases "legacy_generic w m strict (Suc i) es pool1 fresh ob"; cases "snd (legacy_generic w m strict (Suc i) es pool1 fresh ob)") auto
    then show ?thesis using Cons.IH Cons.prems(2) by blast
  next
    case None
    obtain ob1 r1 where b: "build_one w m e Legacy i ob = (ob1, r1)" by fastforce
    show ?thesis
    proof (cases "\<exists>y. r1 = Raise y \<and> strict")
      case True
      then have "ob' = close_quietly fresh ob1" "built r1 = []" using Cons.prems(1) None b by (auto simp: built_def)
      then show ?thesis using sound_new [OF b Cons.prems(2)] sound_close by simp
    next
      case False
      obtain obx rx where l: "legacy_generic w m strict (Suc i) es pool (fresh @ built r1) ob1 = (obx, rx)" by fastforce
      then have "rx = Raise x" "obx = ob'" using Cons.prems(1) unfolding legacy_generic_new [OF None b False] by (cases rx; auto)+
      then show ?thesis using Cons.IH [of "Suc i" pool "fresh @ built r1" ob1] l sound_new [OF b Cons.prems(2)] by (simp add: ac_simps)
    qed
  qed
qed simp

lemma builders_sound:
  "legacy_builders w m es pool fresh ob = (ob', ss, pool', fresh') \<Longrightarrow>
    (sound ob (R + mset fresh) \<longrightarrow> sound ob' (R + mset fresh')) \<and> pm pool' + pm ss + mset fresh = pm pool + mset fresh'"
proof (induction es arbitrary: pool fresh ob ss)
  case (Cons e es)
  show ?case
  proof (cases "take_slot Legacy None e pool")
    case (Some sp)
    obtain s pool1 where sp: "sp = (s, pool1)" by fastforce
    obtain ss' where r: "legacy_builders w m es pool1 fresh ob = (ob', ss', pool', fresh')" "ss = s # ss'"
      using Cons.prems(1) Some sp by (auto simp: Let_def split: prod.splits)
    show ?thesis using Cons.IH [OF r(1)] take_slot_mset [of Legacy None e pool s pool1] Some sp r(2) by (simp add: ac_simps)
  next
    case None
    obtain ob1 r1 where b: "build_one w m e Legacy 0 ob = (ob1, r1)" by fastforce
    obtain s ss' where r: "legacy_builders w m es pool (fresh @ built r1) ob1 = (ob', ss', pool', fresh')" "ss = s # ss'" "sl_pipes s = built r1"
      using Cons.prems(1) None b by (auto simp: Let_def built_def split: prod.splits)
    show ?thesis using Cons.IH [OF r(1)] sound_new [OF b, of "R + mset fresh"] r(2,3) by (simp add: ac_simps)
  qed
qed simp

definition balanced :: "file_build \<Rightarrow> bool" where
  "balanced b \<longleftrightarrow> pm (fb_slots b) = pm (fb_taken b) + mset (fb_fresh b)"

lemma file_sound:
  "build_file w m o1 i es b ob = (ob', Inl b', pool') \<Longrightarrow> balanced b \<Longrightarrow> balanced b' \<and> pm (fb_pool b') + pm (fb_taken b') = pm (fb_pool b) + pm (fb_taken b)
    \<and> (sound ob (R + mset (fb_fresh b)) \<longrightarrow> sound ob' (R + mset (fb_fresh b')))"
proof (induction es arbitrary: i b ob)
  case (Cons e es)
  show ?case
  proof (cases "take_slot o1 (naming_index e i) e (fb_pool b)")
    case (Some sp)
    obtain s pool1 where sp: "sp = (s, pool1)" by fastforce
    define c where "c = b\<lparr>fb_slots := fb_slots b @ [s], fb_taken := fb_taken b @ [s], fb_pool := pool1\<rparr>"
    have r: "build_file w m o1 (Suc i) es c ob = (ob', Inl b', pool')" using Cons.prems(1) Some sp by (simp add: c_def)
    have "balanced c" using Cons.prems(2) by (simp add: c_def balanced_def)
    from Cons.IH [OF r this] show ?thesis using take_slot_mset [of o1 "naming_index e i" e "fb_pool b" s pool1] Some sp by (simp add: c_def ac_simps)
  next
    case None
    obtain ob1 ps where b1: "build_one w m e o1 i ob = (ob1, Ok ps)" using Cons.prems(1) None
      by (cases "build_one w m e o1 i ob"; cases "snd (build_one w m e o1 i ob)") auto
    define c where "c = b\<lparr>fb_slots := fb_slots b @ [\<lparr>sl_origin = o1, sl_index = naming_index e i, sl_entry = e, sl_pipes = ps\<rparr>], fb_fresh := fb_fresh b @ ps\<rparr>"
    have r: "build_file w m o1 (Suc i) es c ob1 = (ob', Inl b', pool')" using Cons.prems(1) None b1 by (simp add: c_def)
    have "balanced c" using Cons.prems(2) by (simp add: c_def balanced_def)
    from Cons.IH [OF r this] show ?thesis using sound_new [OF b1, of "R + mset (fb_fresh b)"] by (simp add: c_def built_def ac_simps)
  qed
qed simp

lemma file_refused_sound:
  "build_file w m o1 i es b ob = (ob', Inr x, pool') \<Longrightarrow> pm pool' = pm (fb_pool b) + pm (fb_taken b)
    \<and> (sound ob (R + mset (fb_fresh b)) \<longrightarrow> sound ob' R)"
proof (induction es arbitrary: i b ob)
  case (Cons e es)
  show ?case
  proof (cases "take_slot o1 (naming_index e i) e (fb_pool b)")
    case (Some sp)
    obtain s pool1 where sp: "sp = (s, pool1)" by fastforce
    have r: "build_file w m o1 (Suc i) es (b\<lparr>fb_slots := fb_slots b @ [s], fb_taken := fb_taken b @ [s], fb_pool := pool1\<rparr>) ob = (ob', Inr x, pool')"
      using Cons.prems Some sp by simp
    from Cons.IH [OF r] show ?thesis using take_slot_mset [of o1 "naming_index e i" e "fb_pool b" s pool1] Some sp by (simp add: ac_simps)
  next
    case None
    obtain ob1 r1 where b1: "build_one w m e o1 i ob = (ob1, r1)" by fastforce
    show ?thesis
    proof (cases r1)
      case (Raise y)
      then have "ob' = close_quietly (fb_fresh b) ob1" "pool' = fb_pool b @ fb_taken b" "built r1 = []"
        using Cons.prems None b1 by (auto simp: built_def)
      then show ?thesis using sound_new [OF b1, of "R + mset (fb_fresh b)"] sound_close by simp
    next
      case (Ok ps)
      have r: "build_file w m o1 (Suc i) es (b\<lparr>fb_slots := fb_slots b @ [\<lparr>sl_origin = o1, sl_index = naming_index e i, sl_entry = e, sl_pipes = ps\<rparr>],
          fb_fresh := fb_fresh b @ ps\<rparr>) ob1 = (ob', Inr x, pool')" using Cons.prems None b1 Ok by simp
      from Cons.IH [OF r] show ?thesis using sound_new [OF b1, of "R + mset (fb_fresh b)"] Ok by (simp add: built_def ac_simps)
    qed
  qed
qed simp

subsection \<open>Assemblies\<close>

definition spent :: "assembly \<Rightarrow> assembly \<Rightarrow> bool" where
  "spent a a' \<longleftrightarrow> pm (as_pool a') + mset (acc_pipes a') + mset (as_fresh a) = pm (as_pool a) + mset (acc_pipes a) + mset (as_fresh a')
     \<and> (\<forall>R. sound (as_objects a) (R + mset (as_fresh a)) \<longrightarrow> sound (as_objects a') (R + mset (as_fresh a')))"

lemma spent_refl [simp]: "spent a a" "spent a (refuse r a)"
  by (simp_all add: spent_def refuse_def acc_pipes_def)

lemma spent_trans: "spent a b \<Longrightarrow> spent b c \<Longrightarrow> spent a c"
proof -
  assume s: "spent a b" "spent b c"
  have "x + fa + fb = y + fc + fb" if "z + fa = y + fb" "x + fb = z + fc" for x y z fa fb fc :: "pipe multiset"
    using that by (metis add.assoc add.commute)
  then have "pm (as_pool c) + mset (acc_pipes c) + mset (as_fresh a) = pm (as_pool a) + mset (acc_pipes a) + mset (as_fresh c)"
    using s unfolding spent_def by (meson add_right_cancel)
  then show ?thesis using s unfolding spent_def by blast
qed

lemma try_file_spent:
  assumes "f \<notin> fst ` set (as_accepted a)" "try_file w m f entries a = (a', r)"
  shows "spent a a'"
proof -
  define b0 where "b0 = \<lparr>fb_slots = [], fb_taken = [], fb_fresh = [], fb_pool = as_pool a\<rparr>"
  have b0: "balanced b0" "pm (fb_pool b0) + pm (fb_taken b0) = pm (as_pool a)" "mset (fb_fresh b0) = {#}" by (simp_all add: b0_def balanced_def)
  obtain ob1 r1 pool where bf: "build_file w m (InFile f) 0 entries b0 (as_objects a) = (ob1, r1, pool)" by (metis prod_cases3)
  show ?thesis
  proof (cases r1)
    case (Inr x)
    then have "a' = a\<lparr>as_pool := pool, as_objects := ob1\<rparr>" using assms(2) bf unfolding b0_def by (auto simp: try_file_def)
    then show ?thesis using file_refused_sound [OF bf [unfolded Inr]] b0 by (simp add: spent_def acc_pipes_def)
  next
    case (Inl b)
    note fs = file_sound [OF bf [unfolded Inl] b0(1)]
    show ?thesis
    proof (cases "admit (slot_pipes (fb_slots b)) (as_names a) (as_keys a)")
      case (Inr x)
      then have "a' = a\<lparr>as_pool := fb_pool b @ fb_taken b, as_objects := close_quietly (fb_fresh b) ob1\<rparr>"
        using assms(2) bf Inl unfolding b0_def by (auto simp: try_file_def)
      then show ?thesis using fs b0 sound_close by (simp add: spent_def acc_pipes_def)
    next
      case ad: (Inl nk)
      obtain names keys where nk: "nk = (names, keys)" by fastforce
      have a': "a' = a\<lparr>as_pool := fb_pool b, as_names := names, as_keys := keys, as_objects := ob1, as_accepted := as_accepted a @ [(f, fb_slots b)],
          as_good := dict_set f entries (as_good a), as_fresh := as_fresh a @ fb_fresh b\<rparr>"
        using assms(2) bf Inl ad nk dict_set_new [OF assms(1)] unfolding b0_def by (auto simp: try_file_def)
      have "pm (fb_pool b) + pm (fb_slots b) = pm (as_pool a) + mset (fb_fresh b)" using fs b0(2) by (simp add: balanced_def ac_simps)
      moreover have "sound ob1 (R + mset (as_fresh a) + mset (fb_fresh b))" if "sound (as_objects a) (R + mset (as_fresh a))" for R
        using file_sound [OF bf [unfolded Inl] b0(1), of "R + mset (as_fresh a)"] that b0(3) by simp
      ultimately show ?thesis unfolding spent_def a' acc_pipes_def by (simp add: ac_simps)
    qed
  qed
qed

lemma keep_last_spent: "f \<notin> fst ` set (as_accepted a) \<Longrightarrow> spent a (keep_last w m good f a)"
  using try_file_spent [of f a w m] by (auto simp: keep_last_def split: option.split) (metis prod.collapse)

lemma file_step_spent:
  assumes "f \<notin> fst ` set (as_accepted a)" "good_assembly lps ob a"
  shows "spent a (file_step w l good f a)"
proof (cases "load_refused l f")
  case (Some r)
  have "f \<notin> fst ` set (as_accepted (refuse r a))" using assms(1) by simp
  from spent_trans [OF spent_refl(2) keep_last_spent [OF this]] show ?thesis using Some by (simp add: file_step_def)
next
  case None
  obtain a' r where t: "try_file w (ly_manifest l) f (file_entries l f) a = (a', r)" by fastforce
  note sp = try_file_spent [OF assms(1) t]
  show ?thesis
  proof (cases r)
    case None
    then show ?thesis using sp \<open>load_refused l f = None\<close> t by (simp add: file_step_def)
  next
    case (Some x)
    have "f \<notin> fst ` set (as_accepted (refuse y a'))" for y using try_file_good(3) [OF assms(2,1) t] Some assms(1) by simp
    then have "spent a' (keep_last w (ly_manifest l) good f (refuse y a'))" for y using spent_trans [OF spent_refl(2) keep_last_spent] by blast
    then show ?thesis using spent_trans [OF sp] \<open>load_refused l f = None\<close> t Some by (simp add: file_step_def)
  qed
qed

lemma file_steps_spent:
  "good_assembly lps ob a \<Longrightarrow> distinct fs \<Longrightarrow> set fs \<inter> fst ` set (as_accepted a) = {} \<Longrightarrow> spent a (fold (file_step w l good) fs a)"
proof (induction fs arbitrary: a)
  case (Cons f fs)
  have f: "f \<notin> fst ` set (as_accepted a)" using Cons.prems(3) by auto
  note g = file_step_good [OF Cons.prems(1) f, of w l good]
  have "fst ` set (as_accepted (file_step w l good f a)) \<subseteq> insert f (fst ` set (as_accepted a))" using g by blast
  then have "set fs \<inter> fst ` set (as_accepted (file_step w l good f a)) = {}" using Cons.prems(2,3) by auto
  then show ?case using spent_trans [OF file_step_spent [OF f Cons.prems(1), of w l good]] Cons.IH g Cons.prems(2) by simp
qed simp


lemma sum_fresh:
  assumes "p + (g + b) = v + f" "x + acc + f = p + F"
  shows "x + (g + b + acc) = v + (F :: 'a multiset)"
proof (rule multiset_eqI)
  fix i
  have "count p i + (count g i + count b i) = count v i + count f i" "count x i + count acc i + count f i = count p i + count F i"
    using arg_cong [OF assms(1), of "\<lambda>m. count m i"] arg_cong [OF assms(2), of "\<lambda>m. count m i"] by simp_all
  then show "count (x + (g + b + acc)) i = count (v + F) i" by simp
qed

lemma assemble_sound:
  assumes "assemble w l previous strict ob = (ob', Ok b)" "\<forall>s \<in> set (bd_slots previous). own_slot s"
  obtains F where "\<And>R. sound ob R \<Longrightarrow> sound ob' (R + mset F)" "mset (bd_pipelines b) \<subseteq># pm (bd_slots previous) + mset F"
    "bd_fresh b = filter (\<lambda>p. pp_id p \<in> pp_id ` set F) (bd_pipelines b)"
proof -
  obtain gss pool1 fresh1 ob1 bss pool fresh ob2 a where
    p: "legacy_generic w (ly_manifest l) strict 0 (filter (\<lambda>e. \<not> is_builder e) (legacy_entries l)) (bd_slots previous) [] ob = (ob1, Ok (gss, pool1, fresh1))"
    "legacy_builders w (ly_manifest l) (filter is_builder (legacy_entries l)) pool1 fresh1 ob1 = (ob2, bss, pool, fresh)"
    and a: "a = fold (file_step w l (bd_good previous)) (file_order l (bd_good previous)) (start_assembly (gss @ bss) pool fresh ob2)"
    and e: "ob' = as_objects a" "b = finish (gss @ bss) a"
    using assemble_parts [OF assms(1)] .
  have "\<forall>e \<in> set (filter is_builder (legacy_entries l)). is_builder e" by simp
  note st = start_good [OF p assms(2) this, THEN conjunct2, THEN conjunct2, THEN conjunct2]
  define s where "s = start_assembly (gss @ bss) pool fresh ob2"
  have s: "as_accepted s = []" "as_pool s = pool" "as_fresh s = fresh" "as_objects s = ob2" "acc_pipes s = []" by (simp_all add: s_def start_assembly_def acc_pipes_def)
  have "good_assembly (slot_pipes (gss @ bss)) ob a"
    using file_steps_good [OF st [folded s_def], of "file_order l (bd_good previous)" w l "bd_good previous"] s(1) unfolding a s_def [symmetric] by simp
  then have d: "distinct (map fst (as_accepted a))" by (simp add: good_assembly_def)
  have sp: "spent s a" unfolding a s_def [symmetric] by (rule file_steps_spent [OF st [folded s_def]]) (simp_all add: s(1))
  note gs = generic_sound [OF p(1)] and bs = builders_sound [OF p(2)]
  have c1: "pm pool + (pm gss + pm bss) = pm (bd_slots previous) + mset fresh"
  proof (rule multiset_eqI)
    fix i
    have "count (pm pool1) i + count (pm gss) i = count (pm (bd_slots previous)) i + count (mset fresh1) i"
      "count (pm pool) i + count (pm bss) i + count (mset fresh1) i = count (pm pool1) i + count (mset fresh) i"
      using arg_cong [OF gs [THEN conjunct2], of "\<lambda>m. count m i"] arg_cong [OF bs [THEN conjunct2], of "\<lambda>m. count m i"] by simp_all
    then show "count (pm pool + (pm gss + pm bss)) i = count (pm (bd_slots previous) + mset fresh) i" by simp
  qed
  have c2: "pm (as_pool a) + mset (acc_pipes a) + mset fresh = pm pool + mset (as_fresh a)" using sp s by (simp add: spent_def)
  have pl: "mset (bd_pipelines b) = pm gss + pm bss + mset (acc_pipes a)"
    unfolding e(2) finish_simps using accepted_slots_mset [OF d] by simp
  have "mset (bd_pipelines b) \<subseteq># pm (bd_slots previous) + mset (as_fresh a)"
    unfolding pl sum_fresh [OF c1 c2, symmetric] by simp
  moreover have "sound ob' (R + mset (as_fresh a))" if "sound ob R" for R
    using that gs [of R] bs [of R] sp s unfolding spent_def e(1) by simp
  moreover have "bd_fresh b = filter (\<lambda>p. pp_id p \<in> pp_id ` set (as_fresh a)) (bd_pipelines b)" by (simp only: e(2) finish_simps)
  ultimately show thesis using that by blast
qed

lemma assemble_raise_sound:
  assumes "assemble w l previous strict ob = (ob', Raise x)" "sound ob R"
  shows "sound ob' R"
proof -
  define es where "es = legacy_entries l"
  have "legacy_generic w (ly_manifest l) strict 0 (filter (\<lambda>e. \<not> is_builder e) es) (bd_slots previous) [] ob = (ob', Raise x)"
    using assms(1) unfolding assemble_def build_legacy_def legacy_entries_def [symmetric] es_def [symmetric]
    by (auto simp: Let_def split: prod.splits res.splits)
  then show ?thesis using generic_raise_sound assms(2) by fastforce
qed


subsection \<open>Identities\<close>

lemma sound_count: "sound ob M \<Longrightarrow> count (image_mset pp_id M) i \<le> (if i < ob_next ob \<and> i \<notin> set (ob_closed ob) then 1 else 0)"
  by (simp only: sound_def)

lemma sound_one: "sound ob M \<Longrightarrow> count (image_mset pp_id M) i \<le> 1"
  by (rule le_trans [OF sound_count]) simp_all

lemma in_ids: "p \<in># M \<Longrightarrow> 0 < count (image_mset pp_id M) (pp_id p)"
  unfolding count_greater_zero_iff by simp

lemma sound_id: "sound ob M \<Longrightarrow> p \<in># M \<Longrightarrow> pp_id p < ob_next ob \<and> pp_id p \<notin> set (ob_closed ob)"
  using sound_count [of ob M "pp_id p"] in_ids [of p M] by (auto split: if_splits simp del: count_image_mset count_greater_zero_iff)

lemma sound_inj: "sound ob M \<Longrightarrow> p \<in># M \<Longrightarrow> q \<in># M \<Longrightarrow> pp_id p = pp_id q \<Longrightarrow> p = q"
proof (rule ccontr)
  assume s: "sound ob M" "p \<in># M" "q \<in># M" "pp_id p = pp_id q" "p \<noteq> q"
  then obtain N where n: "M = add_mset p N" "q \<in># N" by (metis insert_DiffM insert_noteq_member)
  then show False using sound_one [OF s(1), of "pp_id p"] in_ids [OF n(2)] s(4) by (simp del: count_image_mset count_greater_zero_iff)
qed

lemma sound_close_apart:
  assumes "sound ob M" "\<forall>c \<in> set cs. pp_id c < ob_next ob \<and> pp_id c \<notin> pp_id ` set_mset M"
  shows "sound (close_quietly cs ob) M"
proof -
  have "count (image_mset pp_id M) i \<le> (if i < ob_next ob \<and> i \<notin> set (ob_closed ob) \<union> pp_id ` set cs then 1 else 0)" for i
  proof (cases "i \<in> pp_id ` set cs")
    case True
    then have "i \<notin># image_mset pp_id M" using assms(2) by auto
    then show ?thesis by (simp only: count_eq_zero_iff [symmetric])
  next
    case False
    then show ?thesis using sound_count [OF assms(1), of i] by simp
  qed
  then show ?thesis using assms unfolding sound_def close_quietly_def by (auto simp del: count_image_mset)
qed

lemma fresh_sub:
  assumes "sound ob (V + mset F)" "mset P \<subseteq># V + mset F"
  shows "mset (filter (\<lambda>p. pp_id p \<in> pp_id ` set F) P) \<subseteq># mset F"
proof -
  have "pp_id p \<notin> pp_id ` set F" if p: "p \<in># V" for p
  proof
    assume "pp_id p \<in> pp_id ` set F"
    then have "0 < count (image_mset pp_id (mset F)) (pp_id p)" unfolding count_greater_zero_iff by auto
    then show False using sound_one [OF assms(1), of "pp_id p"] in_ids [OF p] by (simp del: count_image_mset count_greater_zero_iff)
  qed
  then have "filter_mset (\<lambda>p. pp_id p \<in> pp_id ` set F) V = filter_mset (\<lambda>p. False) V" by (intro filter_mset_cong) auto
  then have z: "filter_mset (\<lambda>p. pp_id p \<in> pp_id ` set F) V = {#}" by (simp only: filter_mset_False)
  have "mset (filter (\<lambda>p. pp_id p \<in> pp_id ` set F) P) \<subseteq># filter_mset (\<lambda>p. pp_id p \<in> pp_id ` set F) (mset F)"
    using multiset_filter_mono [OF assms(2), of "\<lambda>p. pp_id p \<in> pp_id ` set F"] unfolding filter_union_mset z mset_filter by simp
  then show ?thesis by (rule subset_mset.order_trans) (rule multiset_filter_subset)
qed

subsection \<open>The daemon's invariant\<close>

text \<open>What runs is part of the build and passed the store check; an object is in the build and open, or
  closed.\<close>

definition daemon_ok :: "daemon \<Rightarrow> bool" where
  "daemon_ok d \<longleftrightarrow> (let b = rb_build (dm_rb d) in dm_uploader d = rb_running (dm_rb d)
     \<and> mset (rb_running (dm_rb d)) \<subseteq># mset (bd_pipelines b) \<and> list_all (may_run (st_user_version (dm_store d))) (rb_running (dm_rb d))
     \<and> bd_pipelines b = slot_pipes (bd_slots b) \<and> (\<forall>s \<in> set (bd_slots b). own_slot s) \<and> sound (dm_objects d) (mset (bd_pipelines b))
     \<and> (\<forall>i < ob_next (dm_objects d). i \<in> set (ob_closed (dm_objects d)) \<or> i \<in> pp_id ` set (bd_pipelines b)))"

text \<open>The parts of a daemon the passes before a pump leave alone.\<close>

definition same_run :: "daemon \<Rightarrow> daemon \<Rightarrow> bool" where
  "same_run d d' \<longleftrightarrow> dm_uploader d' = dm_uploader d \<and> dm_objects d' = dm_objects d \<and> rb_build (dm_rb d') = rb_build (dm_rb d)
     \<and> rb_running (dm_rb d') = rb_running (dm_rb d) \<and> rb_signature (dm_rb d') = rb_signature (dm_rb d) \<and> rb_rows (dm_rb d') = rb_rows (dm_rb d)
     \<and> st_user_version (dm_store d') = st_user_version (dm_store d) \<and> dm_hup_pending d' = dm_hup_pending d"

lemma same_run_refl [simp]: "same_run d d" by (simp add: same_run_def)

lemma same_run_trans: "same_run a b \<Longrightarrow> same_run b c \<Longrightarrow> same_run a c" by (simp add: same_run_def)

lemma same_run_ok: "same_run d d' \<Longrightarrow> daemon_ok d \<Longrightarrow> daemon_ok d'" unfolding same_run_def daemon_ok_def by simp

lemma starting_record_version [simp]: "st_user_version (fst (starting_record w p st)) = st_user_version st"
  by (simp add: starting_record_def start_cursor_def upsert_def split: res.split option.split)

lemma starting_records_version [simp]: "st_user_version (fst (write_starting_records w ps st)) = st_user_version st"
  by (induction ps arbitrary: st) (simp_all add: Let_def case_prod_beta)

lemma read_marker_same: "read_marker w d = (b, d') \<Longrightarrow> same_run d d' \<and> dm_store d' = dm_store d \<and> dm_rb d' = dm_rb d"
  by (auto simp: read_marker_def same_run_def split: prod.splits)

lemma starting_records_same: "same_run d (starting_records w ps d)"
  by (simp add: starting_records_def same_run_def)

lemma starting_pass_same: "same_run d (starting_pass w ps d)"
proof (cases "rb_has_marker (dm_rb d)")
  case True
  obtain b d1 where r: "read_marker w d = (b, d1)" by fastforce
  show ?thesis using True r read_marker_same [OF r] by (auto simp: starting_pass_def starting_records_def same_run_def set_rb_def Let_def)
qed (simp add: starting_pass_def)

lemma report_client_same: "same_run d (report_client w b c d)"
  by (auto simp: report_client_def same_run_def say_line_def set_rb_def Let_def split: prod.splits)

lemma report_clients_same: "same_run d (fold (report_client w b) cs d)"
  by (induction cs arbitrary: d) (auto intro: same_run_trans report_client_same)

lemma report_switches_same: "report_switches w d = (d', r) \<Longrightarrow> same_run d d' \<and> (\<forall>e. r = Raise e \<longrightarrow> gw_is_dir (dw_gate w) = Raise e)
    \<and> (r = Ok () \<longrightarrow> (\<exists>x. gw_is_dir (dw_gate w) = Ok x))"
proof -
  assume r: "report_switches w d = (d', r)"
  obtain b d1 where m: "(if rb_has_marker (dm_rb d) then read_marker w d else (False, d)) = (b, d1)" by fastforce
  have s: "same_run d d1" using m read_marker_same [of w d b d1] by (auto split: if_splits)
  have t: "same_run d1 (set_rb (\<lambda>r. r\<lparr>rb_said_no_files := x\<rparr>) d1)" "same_run e (set_rb (\<lambda>r. r\<lparr>rb_said := []\<rparr>) e)" "same_run e (say_line l e)" for x e l
    by (simp_all add: same_run_def set_rb_def say_line_def)
  show ?thesis
  proof (cases "gw_is_dir (dw_gate w)")
    case (Ok x)
    have "same_run d1 d' \<and> r = Ok ()"
    proof (cases x)
      case True
      then have "d' = fold (report_client w b) (governed_clients (bd_pipelines (rb_build (dm_rb d1)))) (set_rb (\<lambda>r. r\<lparr>rb_said_no_files := False\<rparr>) d1)" "r = Ok ()"
        using r Ok unfolding report_switches_def m by (simp_all add: Let_def)
      then show ?thesis using same_run_trans [OF t(1) report_clients_same] by blast
    next
      case False
      define d2 where "d2 = (if \<not> rb_said_no_files (dm_rb d1) \<and> \<not> b then say_line NoSwitchFiles (set_rb (\<lambda>r. r\<lparr>rb_said_no_files := True\<rparr>) d1) else d1)"
      have "d' = set_rb (\<lambda>r. r\<lparr>rb_said := []\<rparr>) d2" "r = Ok ()"
        using r Ok False unfolding report_switches_def m d2_def by (simp_all add: Let_def)
      moreover have "same_run d1 d2" using same_run_trans [OF t(1) t(3)] by (simp add: d2_def)
      ultimately show ?thesis using same_run_trans t(2) by blast
    qed
    then show ?thesis using same_run_trans [OF s] Ok by simp
  next
    case (Raise e)
    then have "d' = d1" "r = Raise e" using r unfolding report_switches_def m by (simp_all add: Let_def)
    then show ?thesis using s Raise by simp
  qed
qed


subsection \<open>Making a build\<close>

lemma assemble_accounted:
  assumes "assemble w l previous strict ob = (ob', r)" "\<forall>s \<in> set (bd_slots previous). own_slot s"
  shows "accounted ob ob' (case r of Ok b \<Rightarrow> bd_fresh b | Raise _ \<Rightarrow> [])"
proof -
  have "ob_next ob \<le> ob_next ob' \<and> set (ob_closed ob) \<subseteq> set (ob_closed ob')"
  proof (cases r)
    case (Ok b)
    from assemble_Ok [OF assms(1) [unfolded Ok] assms(2)] show ?thesis unfolding good_assembly_def accounted_def by metis
  next
    case (Raise x)
    define es where "es = legacy_entries l"
    have "legacy_generic w (ly_manifest l) strict 0 (filter (\<lambda>e. \<not> is_builder e) es) (bd_slots previous) [] ob = (ob', Raise x)"
      using assms(1) Raise unfolding assemble_def build_legacy_def legacy_entries_def [symmetric] es_def [symmetric]
      by (auto simp: Let_def split: prod.splits res.splits)
    then show ?thesis using legacy_generic_Raise unfolding accounted_def by blast
  qed
  then show ?thesis using nothing_built_leaks [OF assms] unfolding accounted_def by (cases r) auto
qed

text \<open>Whatever the build before held is safe from a build that fails, and stays sound beside one that
  succeeds.\<close>

lemma make_Raise:
  assumes "make w previous strict d = (d', Raise e)" "\<forall>s \<in> set (bd_slots previous). own_slot s"
  obtains ob where "d' = d\<lparr>dm_objects := ob\<rparr>" "accounted (dm_objects d) ob []"
    "\<And>R. sound (dm_objects d) R \<Longrightarrow> pm (bd_slots previous) \<subseteq># R \<Longrightarrow> sound ob R"
proof (cases "load_layout (dw_dir w) (rb_manifest (dm_rb d))")
  case (Raise x)
  then have "d' = d\<lparr>dm_objects := dm_objects d\<rparr>" using assms(1) by (simp add: make_def)
  then show thesis by (rule that) simp_all
next
  case (Ok l)
  obtain ob r where a: "assemble w l previous strict (dm_objects d) = (ob, r)" by fastforce
  show thesis
  proof (cases r)
    case (Raise x)
    then have "d' = d\<lparr>dm_objects := ob\<rparr>" using assms(1) Ok a by (simp add: make_def)
    then show thesis using that assemble_accounted [OF a assms(2)] assemble_raise_sound [OF a [unfolded Raise]] Raise by simp
  next
    case r: (Ok b)
    obtain x where "dw_version_error w = Some x" using assms(1) Ok a r by (cases "dw_version_error w") (auto simp: make_def Let_def split: prod.splits)
    then have d': "d' = d\<lparr>dm_objects := close_quietly (bd_fresh b) ob\<rparr>" using assms(1) Ok a r by (simp add: make_def)
    obtain F where F: "\<And>R. sound (dm_objects d) R \<Longrightarrow> sound ob (R + mset F)" "mset (bd_pipelines b) \<subseteq># pm (bd_slots previous) + mset F"
      "bd_fresh b = filter (\<lambda>p. pp_id p \<in> pp_id ` set F) (bd_pipelines b)" by (rule assemble_sound [OF a [unfolded r] assms(2)]) blast
    have "sound (close_quietly (bd_fresh b) ob) R" if R: "sound (dm_objects d) R" "pm (bd_slots previous) \<subseteq># R" for R
    proof -
      have "mset (bd_pipelines b) \<subseteq># R + mset F" using F(2) R(2) by (meson subset_mset.add_right_mono subset_mset.order_trans)
      then have "mset (bd_fresh b) \<subseteq># mset F" unfolding F(3) by (rule fresh_sub [OF F(1) [OF R(1)]])
      then have "sound ob (R + mset (bd_fresh b))" using sound_sub [OF F(1) [OF R(1)]] by simp
      then show ?thesis by (rule sound_close)
    qed
    moreover have "accounted (dm_objects d) (close_quietly (bd_fresh b) ob) []"
      using accounted_close [OF assemble_accounted [OF a assms(2)], of "bd_fresh b"] r by simp
    ultimately show thesis using that d' by blast
  qed
qed

lemma make_Ok:
  assumes "make w previous strict d = (d', Ok m)" "\<forall>s \<in> set (bd_slots previous). own_slot s"
  obtains l ob st F where "load_layout (dw_dir w) (rb_manifest (dm_rb d)) = Ok l" "assemble w l previous strict (dm_objects d) = (ob, Ok (md_build m))"
    "d' = d\<lparr>dm_objects := ob, dm_store := st\<rparr>" "st_user_version st = st_user_version (dm_store d)" "st_marks st = st_marks (dm_store d)"
    "md_signature m = pipelines_signature (dw_dir w)" "md_running m = filter (may_run (st_user_version (dm_store d))) (bd_pipelines (md_build m))"
    "\<And>R. sound (dm_objects d) R \<Longrightarrow> sound ob (R + mset F)" "mset (bd_pipelines (md_build m)) \<subseteq># pm (bd_slots previous) + mset F"
    "bd_fresh (md_build m) = filter (\<lambda>p. pp_id p \<in> pp_id ` set F) (bd_pipelines (md_build m))"
    "accounted (dm_objects d) ob (bd_fresh (md_build m))"
proof -
  obtain l where l: "load_layout (dw_dir w) (rb_manifest (dm_rb d)) = Ok l" using assms(1) by (auto simp: make_def split: res.splits)
  obtain ob r where a: "assemble w l previous strict (dm_objects d) = (ob, r)" by fastforce
  obtain b where b: "r = Ok b" using assms(1) l a by (cases r) (auto simp: make_def)
  have v: "dw_version_error w = None" using assms(1) l a b by (cases "dw_version_error w") (auto simp: make_def)
  note e = assms(1) [unfolded make_def l res.case a b prod.case v option.case refresh_schema_version_def split_refused_def Let_def]
  then have d: "d' = d\<lparr>dm_objects := ob, dm_store := (dm_store d)\<lparr>st_v3 := 3 \<le> st_user_version (dm_store d)\<rparr>\<rparr>" "md_build m = b"
    "md_signature m = ly_signature l" "md_running m = filter (may_run (st_user_version (dm_store d))) (bd_pipelines b)"
    by auto
  have sg: "ly_signature l = pipelines_signature (dw_dir w)" using l by (auto simp: load_layout_def Let_def case_prod_beta)
  obtain F where F: "\<And>R. sound (dm_objects d) R \<Longrightarrow> sound ob (R + mset F)" "mset (bd_pipelines b) \<subseteq># pm (bd_slots previous) + mset F"
    "bd_fresh b = filter (\<lambda>p. pp_id p \<in> pp_id ` set F) (bd_pipelines b)" by (rule assemble_sound [OF a [unfolded b] assms(2)]) blast
  have acc: "accounted (dm_objects d) ob (bd_fresh b)" using assemble_accounted [OF a assms(2)] b by simp
  show thesis by (rule that [OF l _ d(1) _ _ _ _ F(1)]) (use a b d(2-4) F(2,3) sg acc in simp_all)
qed


subsection \<open>A rebuild\<close>

lemma record_rows_same: "record_rows w rows d = (d', r) \<Longrightarrow> same_run d d' \<and> dm_rb d' = dm_rb d \<and> st_marks (dm_store d') = st_marks (dm_store d)"
  by (auto simp: record_rows_def same_run_def record_pipeline_states_def Let_def split: option.splits)

lemma daemon_okD:
  assumes "daemon_ok d"
  shows "dm_uploader d = rb_running (dm_rb d)" "mset (rb_running (dm_rb d)) \<subseteq># mset (bd_pipelines (rb_build (dm_rb d)))"
    "list_all (may_run (st_user_version (dm_store d))) (rb_running (dm_rb d))" "pm (bd_slots (rb_build (dm_rb d))) = mset (bd_pipelines (rb_build (dm_rb d)))"
    "\<forall>s \<in> set (bd_slots (rb_build (dm_rb d))). own_slot s" "sound (dm_objects d) (mset (bd_pipelines (rb_build (dm_rb d))))"
    "i < ob_next (dm_objects d) \<Longrightarrow> i \<in> set (ob_closed (dm_objects d)) \<or> i \<in> pp_id ` set (bd_pipelines (rb_build (dm_rb d)))"
  using assms unfolding daemon_ok_def Let_def by auto

lemma rebuild_steps:
  assumes "make w (rb_build (dm_rb d)) False d = (d1, Ok mm)" "changed = (\<not> (md_rows mm = rb_rows (dm_rb d1) \<and> ids (md_running mm) = ids (rb_running (dm_rb d1))))"
    "(if changed then record_rows w (md_rows mm) d1 else (d1, Ok ())) = (d2, r2)"
    "report_switches w (starting_pass w (md_running mm) (set_rb (\<lambda>r. r\<lparr>rb_build := md_build mm, rb_signature := Some (md_signature mm)\<rparr>) d2)) = (d3, r3)"
  shows "rebuild w d = (case r2 of Raise e \<Rightarrow> (d2\<lparr>dm_objects := close_quietly (bd_fresh (md_build mm)) (dm_objects d2)\<rparr>, Raise e)
    | Ok _ \<Rightarrow> (case r3 of Raise e \<Rightarrow> (d3, Raise e)
      | Ok _ \<Rightarrow> (let d4 = d3\<lparr>dm_objects := close_quietly (filter (\<lambda>p. pp_id p \<notin> set (ids (bd_pipelines (md_build mm)))
                 \<and> pp_id p \<notin> set (ids (dm_uploader d3))) (bd_pipelines (rb_build (dm_rb d)))) (dm_objects d3)\<rparr> in
             if \<not> changed then (d4, Ok False)
             else (set_rb (\<lambda>r. r\<lparr>rb_running := md_running mm\<rparr>)
                 (replace_pipelines (md_running mm) (set_rb (\<lambda>r. r\<lparr>rb_rows := md_rows mm\<rparr>) d4)), Ok True))))"
  unfolding rebuild_def Let_def assms(1) prod.case res.case assms(2) [symmetric] assms(3)
  by (cases r2; cases r3) (simp_all only: prod.case res.case assms(4))

text \<open>A rebuild that fails, \<open>sinks/\<close> readable: nothing the daemon runs or holds has moved, and what was
  made is closed.\<close>

lemma rebuild_Raise:
  assumes "daemon_ok d" "rebuild w d = (d', Raise e)" "gw_is_dir (dw_gate w) = Ok x"
  shows "dm_rb d' = dm_rb d \<and> dm_uploader d' = dm_uploader d \<and> st_marks (dm_store d') = st_marks (dm_store d)
    \<and> st_user_version (dm_store d') = st_user_version (dm_store d) \<and> dm_hup_pending d' = dm_hup_pending d
    \<and> sound (dm_objects d') (mset (bd_pipelines (rb_build (dm_rb d)))) \<and> accounted (dm_objects d) (dm_objects d') []"
proof -
  note ok = daemon_okD [OF assms(1)]
  obtain d1 r where m: "make w (rb_build (dm_rb d)) False d = (d1, r)" by fastforce
  show ?thesis
  proof (cases r)
    case (Raise y)
    then have "d1 = d'" using assms(2) m by (simp add: rebuild_def)
    then show ?thesis using make_Raise [OF m [unfolded Raise] ok(5)] ok(4,6) by fastforce
  next
    case (Ok mm)
    obtain ob st F where mk: "d1 = d\<lparr>dm_objects := ob, dm_store := st\<rparr>" "st_user_version st = st_user_version (dm_store d)" "st_marks st = st_marks (dm_store d)"
      and F: "\<And>R. sound (dm_objects d) R \<Longrightarrow> sound ob (R + mset F)" "mset (bd_pipelines (md_build mm)) \<subseteq># pm (bd_slots (rb_build (dm_rb d))) + mset F"
        "bd_fresh (md_build mm) = filter (\<lambda>p. pp_id p \<in> pp_id ` set F) (bd_pipelines (md_build mm))" "accounted (dm_objects d) ob (bd_fresh (md_build mm))"
      by (rule make_Ok [OF m [unfolded Ok] ok(5)]) blast
    define changed where "changed = (\<not> (md_rows mm = rb_rows (dm_rb d1) \<and> ids (md_running mm) = ids (rb_running (dm_rb d1))))"
    obtain d2 r2 where rr: "(if changed then record_rows w (md_rows mm) d1 else (d1, Ok ())) = (d2, r2)" by fastforce
    obtain d3 r3 where rs: "report_switches w (starting_pass w (md_running mm) (set_rb (\<lambda>r. r\<lparr>rb_build := md_build mm, rb_signature := Some (md_signature mm)\<rparr>) d2)) = (d3, r3)"
      by fastforce
    have "r3 = Ok ()" using report_switches_same [OF rs] assms(3) by (cases r3) auto
    then obtain y where y: "r2 = Raise y" using assms(2) rebuild_steps [OF m [unfolded Ok] changed_def rr rs]
      by (cases r2) (auto simp: Let_def split: if_splits)
    then have c: changed using rr by (auto split: if_splits)
    have d2: "same_run d1 d2" "dm_rb d2 = dm_rb d1" "st_marks (dm_store d2) = st_marks (dm_store d1)" "dm_objects d2 = ob"
      using record_rows_same [of w "md_rows mm" d1 d2 r2] rr c mk(1) by (auto simp: same_run_def)
    have d': "d' = d2\<lparr>dm_objects := close_quietly (bd_fresh (md_build mm)) (dm_objects d2)\<rparr>"
      using assms(2) y unfolding rebuild_steps [OF m [unfolded Ok] changed_def rr rs] by simp
    have all: "sound ob (mset (bd_pipelines (rb_build (dm_rb d))) + mset F)" by (rule F(1) [OF ok(6)])
    have "mset (bd_fresh (md_build mm)) \<subseteq># mset F" using fresh_sub [OF all F(2) [unfolded ok(4)]] by (simp only: F(3))
    then have "sound ob (mset (bd_pipelines (rb_build (dm_rb d))) + mset (bd_fresh (md_build mm)))" by (intro sound_sub [OF all]) simp
    then have "sound (close_quietly (bd_fresh (md_build mm)) ob) (mset (bd_pipelines (rb_build (dm_rb d))))" by (rule sound_close)
    moreover have "accounted (dm_objects d) (close_quietly (bd_fresh (md_build mm)) ob) []" by (rule accounted_close [OF F(4)]) simp
    ultimately show ?thesis using d2 mk unfolding d' same_run_def by simp
  qed
qed

lemma same_ids: "sound ob M \<Longrightarrow> set ps \<subseteq> set_mset M \<Longrightarrow> set qs \<subseteq> set_mset M \<Longrightarrow> ids ps = ids qs \<Longrightarrow> ps = qs"
  unfolding ids_def by (rule map_inj_on [of pp_id]) (auto intro!: inj_onI dest: sound_inj)

text \<open>A rebuild that succeeds.\<close>

lemma rebuild_Ok:
  assumes "daemon_ok d" "rebuild w d = (d', Ok c)"
  shows "daemon_ok d' \<and> st_user_version (dm_store d') = st_user_version (dm_store d)"
proof -
  let ?V = "bd_pipelines (rb_build (dm_rb d))"
  note ok = daemon_okD [OF assms(1)]
  obtain d1 mm where m: "make w (rb_build (dm_rb d)) False d = (d1, Ok mm)" using assms(2)
    by (cases "make w (rb_build (dm_rb d)) False d"; cases "snd (make w (rb_build (dm_rb d)) False d)") (auto simp: rebuild_def)
  obtain l ob st F where as: "assemble w l (rb_build (dm_rb d)) False (dm_objects d) = (ob, Ok (md_build mm))"
    and mk: "d1 = d\<lparr>dm_objects := ob, dm_store := st\<rparr>" "st_user_version st = st_user_version (dm_store d)"
      "md_running mm = filter (may_run (st_user_version (dm_store d))) (bd_pipelines (md_build mm))"
    and F: "\<And>R. sound (dm_objects d) R \<Longrightarrow> sound ob (R + mset F)" "mset (bd_pipelines (md_build mm)) \<subseteq># pm (bd_slots (rb_build (dm_rb d))) + mset F"
      "bd_fresh (md_build mm) = filter (\<lambda>p. pp_id p \<in> pp_id ` set F) (bd_pipelines (md_build mm))" "accounted (dm_objects d) ob (bd_fresh (md_build mm))"
    by (rule make_Ok [OF m ok(5)]) blast
  let ?W = "bd_pipelines (md_build mm)"
  have W: "?W = slot_pipes (bd_slots (md_build mm))" "\<forall>s \<in> set (bd_slots (md_build mm)). own_slot s" using assemble_own [OF as ok(5)] by blast+
  have all: "sound ob (mset ?V + mset F)" by (rule F(1) [OF ok(6)])
  have sub: "mset ?W \<subseteq># mset ?V + mset F" using F(2) unfolding ok(4) .
  have sW: "sound ob (mset ?W)" by (rule sound_sub [OF all sub])
  define changed where "changed = (\<not> (md_rows mm = rb_rows (dm_rb d1) \<and> ids (md_running mm) = ids (rb_running (dm_rb d1))))"
  obtain d2 r2 where r2: "(if changed then record_rows w (md_rows mm) d1 else (d1, Ok ())) = (d2, r2)" by fastforce
  define b2 where "b2 = set_rb (\<lambda>r. r\<lparr>rb_build := md_build mm, rb_signature := Some (md_signature mm)\<rparr>) d2"
  obtain d3 r3 where r3: "report_switches w (starting_pass w (md_running mm) b2) = (d3, r3)" by fastforce
  note steps = rebuild_steps [OF m changed_def r2 r3 [unfolded b2_def]]
  have "r2 = Ok () \<and> r3 = Ok ()" using assms(2) unfolding steps by (cases r2; cases r3) auto
  then have rr: "(if changed then record_rows w (md_rows mm) d1 else (d1, Ok ())) = (d2, Ok ())"
    and rs: "report_switches w (starting_pass w (md_running mm) b2) = (d3, Ok ())"
    and d'e: "(d', Ok c) = (let d4 = d3\<lparr>dm_objects := close_quietly (filter (\<lambda>p. pp_id p \<notin> set (ids ?W)
                 \<and> pp_id p \<notin> set (ids (dm_uploader d3))) ?V) (dm_objects d3)\<rparr> in
             if \<not> changed then (d4, Ok False)
             else (set_rb (\<lambda>r. r\<lparr>rb_running := md_running mm\<rparr>)
                 (replace_pipelines (md_running mm) (set_rb (\<lambda>r. r\<lparr>rb_rows := md_rows mm\<rparr>) d4)), Ok True))"
    using r2 r3 assms(2) unfolding steps by simp_all
  have "same_run d1 d2" "dm_rb d2 = dm_rb d1" using rr record_rows_same [of w "md_rows mm" d1 d2 "Ok ()"] by (auto split: if_splits)
  then have b2: "dm_uploader b2 = rb_running (dm_rb d)" "dm_objects b2 = ob" "rb_build (dm_rb b2) = md_build mm" "rb_running (dm_rb b2) = rb_running (dm_rb d)"
    "st_user_version (dm_store b2) = st_user_version (dm_store d)" using mk ok(1) unfolding b2_def set_rb_def same_run_def by simp_all
  have "same_run b2 d3" using same_run_trans [OF starting_pass_same] report_switches_same [OF rs] by blast
  then have d3: "dm_uploader d3 = rb_running (dm_rb d)" "dm_objects d3 = ob" "rb_build (dm_rb d3) = md_build mm" "rb_running (dm_rb d3) = rb_running (dm_rb d)"
    "st_user_version (dm_store d3) = st_user_version (dm_store d)" using b2 unfolding same_run_def by simp_all
  define held where "held = filter (\<lambda>p. pp_id p \<notin> set (ids ?W) \<and> pp_id p \<notin> set (ids (rb_running (dm_rb d)))) ?V"
  define d4 where "d4 = d3\<lparr>dm_objects := close_quietly held ob\<rparr>"
  have held: "sound (close_quietly held ob) (mset ?W)"
  proof (rule sound_close_apart [OF sW], intro ballI conjI)
    fix p assume p: "p \<in> set held"
    then have "p \<in># mset ?V + mset F" by (simp add: held_def)
    then show "pp_id p < ob_next ob" using sound_id [OF all] by blast
    show "pp_id p \<notin> pp_id ` set_mset (mset ?W)" using p by (auto simp: held_def ids_def)
  qed
  have known: "i \<in> set (ob_closed ob) \<or> i \<in> pp_id ` set ?W \<or> i \<in> pp_id ` set ?V" if "i < ob_next ob" for i
  proof (cases "i < ob_next (dm_objects d)")
    case True
    then show ?thesis using ok(7) F(4) unfolding accounted_def by blast
  next
    case False
    have "set (bd_fresh (md_build mm)) \<subseteq> set ?W" unfolding F(3) by auto
    moreover have "i \<in> set (ob_closed ob) \<or> i \<in> pp_id ` set (bd_fresh (md_build mm))" using that False F(4) unfolding accounted_def by simp
    ultimately show ?thesis by blast
  qed
  have run: "set (rb_running (dm_rb d)) \<subseteq> set ?V" using set_mset_mono [OF ok(2)] by simp
  have new: "mset (md_running mm) \<subseteq># mset ?W" "list_all (may_run (st_user_version (dm_store d))) (md_running mm)" unfolding mk(3) by (simp_all add: list_all_iff)
  show ?thesis
  proof (cases changed)
    case False
    have "ids (md_running mm) = ids (rb_running (dm_rb d))" using False mk(1) unfolding changed_def by simp
    then have eq: "md_running mm = rb_running (dm_rb d)"
      by (intro same_ids [OF all]) (use set_mset_mono [OF new(1)] set_mset_mono [OF sub] run in auto)
    have "d' = d4" using d'e False by (simp add: Let_def d4_def held_def d3)
    moreover have "i \<in> set (ob_closed (close_quietly held ob)) \<or> i \<in> pp_id ` set ?W" if "i < ob_next ob" for i
    proof -
      have "i \<in> pp_id ` set ?W" if "i \<in> pp_id ` set (rb_running (dm_rb d))" using that set_mset_mono [OF new(1)] unfolding eq by auto
      then show ?thesis using known [OF that] unfolding held_def ids_def close_quietly_def by auto
    qed
    ultimately show ?thesis using d3 W held new unfolding eq by (simp add: daemon_ok_def d4_def close_quietly_def)
  next
    case True
    define gone where "gone = filter (\<lambda>p. pp_id p \<notin> set (ids (md_running mm))) (rb_running (dm_rb d))"
    have d': "d' = set_rb (\<lambda>r. r\<lparr>rb_running := md_running mm\<rparr>) (replace_pipelines (md_running mm) (set_rb (\<lambda>r. r\<lparr>rb_rows := md_rows mm\<rparr>) d4))"
      using d'e True by (simp add: Let_def d4_def held_def d3)
    have "sound (close_quietly gone (close_quietly held ob)) (mset ?W)"
    proof (rule sound_close_apart [OF held], intro ballI conjI)
      fix p assume p: "p \<in> set gone"
      then have pv: "p \<in># mset ?V + mset F" using run by (auto simp: gone_def)
      show "pp_id p < ob_next (close_quietly held ob)" using sound_id [OF all pv] by (simp add: close_quietly_def)
      have ok_p: "may_run (st_user_version (dm_store d)) p" using p ok(3) by (auto simp: gone_def list_all_iff)
      show "pp_id p \<notin> pp_id ` set_mset (mset ?W)"
      proof
        assume "pp_id p \<in> pp_id ` set_mset (mset ?W)"
        then obtain q where q: "q \<in> set ?W" "pp_id p = pp_id q" by auto
        then have "p = q" using sound_inj [OF all pv] mset_subset_eqD [OF sub] by simp
        then have "p \<in> set (md_running mm)" using q ok_p unfolding mk(3) by simp
        then show False using p by (simp add: gone_def ids_def)
      qed
    qed
    moreover have "i \<in> set (ob_closed (close_quietly gone (close_quietly held ob))) \<or> i \<in> pp_id ` set ?W" if "i < ob_next ob" for i
    proof -
      have a: "i \<in> pp_id ` set ?W" if "i \<in> pp_id ` set (md_running mm)" using that unfolding mk(3) by auto
      have "i \<in> pp_id ` set gone" if "i \<in> pp_id ` set (rb_running (dm_rb d))" "i \<notin> pp_id ` set (md_running mm)"
        using that unfolding gone_def ids_def by auto
      moreover have "i \<in> pp_id ` set held" if "i \<in> pp_id ` set ?V" "i \<notin> pp_id ` set ?W" "i \<notin> pp_id ` set (rb_running (dm_rb d))"
        using that unfolding held_def ids_def by auto
      ultimately show ?thesis using known [OF that] a unfolding close_quietly_def by auto
    qed
    ultimately show ?thesis using d3 W new unfolding d'
      by (simp add: daemon_ok_def d4_def set_rb_def replace_pipelines_def gone_def [symmetric] close_quietly_def)
  qed
qed


subsection \<open>A turn, and a run\<close>

lemma daemon_okI:
  assumes "daemon_ok d" "dm_rb d' = dm_rb d" "dm_uploader d' = dm_uploader d" "st_user_version (dm_store d) \<le> st_user_version (dm_store d')"
    "sound (dm_objects d') (mset (bd_pipelines (rb_build (dm_rb d))))" "accounted (dm_objects d) (dm_objects d') []"
  shows "daemon_ok d'"
proof -
  have "i \<in> set (ob_closed (dm_objects d')) \<or> i \<in> pp_id ` set (bd_pipelines (rb_build (dm_rb d)))" if "i < ob_next (dm_objects d')" for i
    using assms(6) daemon_okD(7) [OF assms(1), of i] that unfolding accounted_def by (cases "i < ob_next (dm_objects d)") auto
  moreover have "list_all (may_run (st_user_version (dm_store d'))) (rb_running (dm_rb d))"
    using daemon_okD(3) [OF assms(1)] assms(4) by (auto simp: list_all_iff may_run_def)
  ultimately show ?thesis using daemon_okD(1,2,5) [OF assms(1)] assms(1,2,3,5) unfolding daemon_ok_def by (simp add: Let_def)
qed

lemma daemon_ok_cong:
  "daemon_ok d \<Longrightarrow> dm_rb d' = dm_rb d \<Longrightarrow> dm_uploader d' = dm_uploader d \<Longrightarrow> dm_objects d' = dm_objects d \<Longrightarrow> dm_store d' = dm_store d \<Longrightarrow> daemon_ok d'"
  unfolding daemon_ok_def by simp

lemma marker_check_same: "same_run d (fst (marker_check w d))"
proof (cases "rb_has_marker (dm_rb d)")
  case True
  obtain b d1 where r: "read_marker w d = (b, d1)" by fastforce
  define d2 where "d2 = set_rb (\<lambda>r. r\<lparr>rb_marker_seen := b\<rparr>) d1"
  have s: "same_run d d2" using read_marker_same [OF r] by (simp add: d2_def same_run_def set_rb_def)
  have t: "same_run d (fst (report_switches w e))" if "same_run d2 e" for e
    using same_run_trans [OF s that] same_run_trans report_switches_same [of w e "fst (report_switches w e)"] by (metis prod.collapse)
  show ?thesis using True r s t [OF starting_records_same] t [OF same_run_refl] by (cases b; cases "rb_marker_seen (dm_rb d)") (simp_all add: marker_check_def d2_def Let_def)
qed (simp add: marker_check_def)

lemma turn_ok:
  assumes "daemon_ok d" "gw_is_dir (dw_gate w) = Ok x"
  shows "daemon_ok (turn w hangup d)"
proof -
  define d1 where "d1 = d\<lparr>dm_hup_pending := dm_hup_pending d \<or> hangup\<rparr>"
  have d1: "daemon_ok d1" by (rule daemon_ok_cong [OF assms(1)]) (simp_all add: d1_def)
  have "daemon_ok (try_rebuild w d1)"
  proof (cases "snd (rebuild w d1)")
    case (Ok c)
    then obtain d' where r: "rebuild w d1 = (d', Ok c)" by (metis prod.collapse)
    have "daemon_ok d'" using rebuild_Ok [OF d1 r] by blast
    then show ?thesis by (rule daemon_ok_cong) (simp_all add: try_rebuild_def r Let_def)
  next
    case (Raise e)
    then obtain d' where r: "rebuild w d1 = (d', Raise e)" by (metis prod.collapse)
    then show ?thesis using rebuild_Raise [OF d1 r assms(2)] by (intro daemon_okI [OF d1]) (simp_all add: try_rebuild_def)
  qed
  then have "daemon_ok (if dm_hup_pending d1 \<or> due w d1 then try_rebuild w d1 else d1)" using d1 by simp
  then have "daemon_ok (fst (marker_check w (if dm_hup_pending d1 \<or> due w d1 then try_rebuild w d1 else d1)))" by (rule same_run_ok [OF marker_check_same])
  then show ?thesis unfolding turn_def d1_def [symmetric] Let_def by (rule daemon_ok_cong) simp_all
qed

text \<open>A daemon run: a start from nothing, then turns of the loop and what others do to the store, in any order,
  each with a world of its own.  \<open>sinks/\<close> is readable throughout and the store's version never falls.\<close>

definition boot :: "daemon_world \<Rightarrow> daemon \<Rightarrow> daemon \<Rightarrow> bool" where
  "boot w d0 d \<longleftrightarrow> dm_objects d0 = \<lparr>ob_next = 0, ob_closed = []\<rparr>
     \<and> (case start w d0 of (d1, Ok _) \<Rightarrow> d = d1\<lparr>dm_uploader := rb_running (dm_rb d1)\<rparr> | _ \<Rightarrow> False)"

inductive daemon_run :: "daemon \<Rightarrow> bool" where
  Boot: "boot w d0 d \<Longrightarrow> daemon_run d"
| Turn: "daemon_run d \<Longrightarrow> gw_is_dir (dw_gate w) = Ok x \<Longrightarrow> daemon_run (turn w hangup d)"
| Others: "daemon_run d \<Longrightarrow> st_user_version (dm_store d) \<le> st_user_version st \<Longrightarrow> daemon_run (d\<lparr>dm_store := st\<rparr>)"

lemma boot_ok:
  assumes "boot w d0 d"
  shows "daemon_ok d"
proof -
  obtain d1 where st: "start w d0 = (d1, Ok ())" and d: "d = d1\<lparr>dm_uploader := rb_running (dm_rb d1)\<rparr>" and z: "dm_objects d0 = \<lparr>ob_next = 0, ob_closed = []\<rparr>"
    using assms unfolding boot_def by (auto split: prod.splits res.splits)
  obtain d2 m where m: "make w empty_build True d0 = (d2, Ok m)" using st
    by (cases "make w empty_build True d0"; cases "snd (make w empty_build True d0)") (auto simp: start_def)
  obtain d3 where r: "record_rows w (md_rows m) d2 = (d3, Ok ())" using st m
    by (cases "record_rows w (md_rows m) d2"; cases "snd (record_rows w (md_rows m) d2)") (auto simp: start_def)
  define d4 where "d4 = set_rb (\<lambda>r. r\<lparr>rb_build := md_build m, rb_running := md_running m, rb_rows := md_rows m, rb_signature := Some (md_signature m)\<rparr>) d3"
  have rs: "report_switches w (starting_pass w (md_running m) d4) = (d1, Ok ())" using st m r by (simp add: start_def d4_def)
  have own: "\<forall>s \<in> set (bd_slots empty_build). own_slot s" by (simp add: empty_build_def)
  obtain l ob st1 F where as: "assemble w l empty_build True (dm_objects d0) = (ob, Ok (md_build m))"
    and mk: "d2 = d0\<lparr>dm_objects := ob, dm_store := st1\<rparr>" "st_user_version st1 = st_user_version (dm_store d0)"
      "md_running m = filter (may_run (st_user_version (dm_store d0))) (bd_pipelines (md_build m))"
    and F: "\<And>R. sound (dm_objects d0) R \<Longrightarrow> sound ob (R + mset F)" "mset (bd_pipelines (md_build m)) \<subseteq># pm (bd_slots empty_build) + mset F"
      "bd_fresh (md_build m) = filter (\<lambda>p. pp_id p \<in> pp_id ` set F) (bd_pipelines (md_build m))" "accounted (dm_objects d0) ob (bd_fresh (md_build m))"
    by (rule make_Ok [OF m own]) blast
  have "sound (dm_objects d0) {#}" by (simp add: z sound_def)
  then have so: "sound ob (mset (bd_pipelines (md_build m)))" using sound_sub [OF F(1) F(2)] by (simp add: empty_build_def)
  have "same_run d2 d3" using record_rows_same [OF r] by blast
  moreover have "same_run d4 d1" using same_run_trans [OF starting_pass_same] report_switches_same [OF rs] by blast
  ultimately have e: "dm_objects d1 = ob" "rb_build (dm_rb d1) = md_build m" "rb_running (dm_rb d1) = md_running m" "st_user_version (dm_store d1) = st_user_version (dm_store d0)"
    using mk unfolding d4_def set_rb_def same_run_def by simp_all
  have "i \<in> set (ob_closed ob) \<or> i \<in> pp_id ` set (bd_pipelines (md_build m))" if "i < ob_next ob" for i
    using that F(4) unfolding accounted_def z F(3) by fastforce
  then show ?thesis using e so assemble_own [OF as own] mk(3) unfolding d by (auto simp: daemon_ok_def list_all_iff)
qed

lemma run_ok: "daemon_run d \<Longrightarrow> daemon_ok d"
proof (induction rule: daemon_run.induct)
  case (Others d st)
  then show ?case using daemon_okI [OF Others(3), of "d\<lparr>dm_store := st\<rparr>"] daemon_okD(6) [OF Others(3)] by simp
qed (auto intro: boot_ok turn_ok)


text \<open>C4: what runs is open, and what does not run is closed.  As long as \<open>sinks/\<close> can be read at every turn and
  nobody lowers the store's version, a daemon may start, rebuild, fail to rebuild and pump in any order
  (\<open>daemon_run\<close>): no pipeline it runs was ever closed or runs twice, it runs the pipelines it took last, and
  every pipeline object it ever made is closed or is one of the last build's.  Without the first condition a
  rebuild can be lost (\<open>unreadable_sinks_loses_a_rebuild\<close>, below).\<close>

theorem running_pipelines_stay_open:
  assumes "daemon_run d"
  shows "distinct (ids (dm_uploader d)) \<and> set (ids (dm_uploader d)) \<inter> set (ob_closed (dm_objects d)) = {}
    \<and> dm_uploader d = rb_running (dm_rb d)
    \<and> {..< ob_next (dm_objects d)} \<subseteq> set (ob_closed (dm_objects d)) \<union> set (ids (bd_pipelines (rb_build (dm_rb d))))"
proof -
  note ok = daemon_okD [OF run_ok [OF assms]]
  have s: "sound (dm_objects d) (mset (dm_uploader d))" unfolding ok(1) by (rule sound_sub [OF ok(6,2)])
  have "count (mset (ids (dm_uploader d))) i \<le> 1" for i using sound_one [OF s, of i] by (simp add: ids_def)
  then have "distinct (ids (dm_uploader d))" unfolding distinct_count_atmost_1
    by (metis One_nat_def count_mset_0_iff le_Suc_eq le_zero_eq)
  moreover have "set (ids (dm_uploader d)) \<inter> set (ob_closed (dm_objects d)) = {}" using sound_id [OF s] by (auto simp: ids_def)
  ultimately show ?thesis using ok(1,7) by (auto simp: ids_def)
qed

text \<open>C12: a rebuild that fails changes nothing.  While \<open>sinks/\<close> can be read, a rebuild that raises leaves the
  running set, the build, the signature and every send record as they were, closes all it made and
  nothing it runs, and is tried again at the next turn.\<close>

theorem failed_rebuild_changes_nothing:
  assumes "daemon_run d" "rebuild w d = (d', Raise e)" "gw_is_dir (dw_gate w) = Ok x"
  shows "dm_rb d' = dm_rb d \<and> dm_uploader d' = dm_uploader d \<and> st_marks (dm_store d') = st_marks (dm_store d)
    \<and> set (ids (dm_uploader d')) \<inter> set (ob_closed (dm_objects d')) = {}
    \<and> {ob_next (dm_objects d) ..< ob_next (dm_objects d')} \<subseteq> set (ob_closed (dm_objects d'))
    \<and> due w d' = due w d \<and> dm_hup_pending d' = dm_hup_pending d"
proof -
  note ok = run_ok [OF assms(1)]
  note r = rebuild_Raise [OF ok assms(2,3)]
  have "sound (dm_objects d') (mset (dm_uploader d'))" using r daemon_okD(1,2) [OF ok] sound_sub by metis
  then have "set (ids (dm_uploader d')) \<inter> set (ob_closed (dm_objects d')) = {}" using sound_id by (fastforce simp: ids_def)
  then show ?thesis using r by (auto simp: due_def accounted_def)
qed

text \<open>An unreadable \<open>sinks/\<close> loses a rebuild.  When asking whether \<open>sinks/\<close> is a directory raises, a
  rebuild that has built everything raises too, after the new build and its signature are kept: the old
  pipelines stay in the uploader, and nothing is due any more.\<close>

theorem unreadable_sinks_loses_a_rebuild:
  assumes "daemon_run d" "make w (rb_build (dm_rb d)) False d = (d1, Ok m)" "dw_record_error w = None" "gw_is_dir (dw_gate w) = Raise e"
  shows "\<exists>d'. rebuild w d = (d', Raise e) \<and> rb_build (dm_rb d') = md_build m \<and> dm_uploader d' = dm_uploader d \<and> \<not> due w d'"
proof -
  obtain ob st where mk: "d1 = d\<lparr>dm_objects := ob, dm_store := st\<rparr>" "md_signature m = pipelines_signature (dw_dir w)"
    by (rule make_Ok [OF assms(2) daemon_okD(5) [OF run_ok [OF assms(1)]]]) blast
  define changed where "changed = (\<not> (md_rows m = rb_rows (dm_rb d1) \<and> ids (md_running m) = ids (rb_running (dm_rb d1))))"
  obtain d2 r2 where rr: "(if changed then record_rows w (md_rows m) d1 else (d1, Ok ())) = (d2, r2)" by fastforce
  define b2 where "b2 = set_rb (\<lambda>r. r\<lparr>rb_build := md_build m, rb_signature := Some (md_signature m)\<rparr>) d2"
  obtain d3 r3 where rs: "report_switches w (starting_pass w (md_running m) b2) = (d3, r3)" by fastforce
  have "r2 = Ok ()" using rr assms(3) by (auto simp: record_rows_def split: if_splits)
  moreover have "r3 = Raise e" using rs assms(4) by (auto simp: report_switches_def Let_def split: prod.splits)
  ultimately have "rebuild w d = (d3, Raise e)" unfolding rebuild_steps [OF assms(2) changed_def rr rs [unfolded b2_def]] by simp
  moreover have "same_run d1 d2" using rr record_rows_same [of w "md_rows m" d1 d2 r2] by (auto split: if_splits)
  moreover have "same_run b2 d3" using same_run_trans [OF starting_pass_same] report_switches_same [OF rs] by blast
  ultimately show ?thesis using mk unfolding same_run_def b2_def set_rb_def by (simp add: due_def)
qed

subsection \<open>Starting records\<close>

lemma starting_record_moves: "starting_record w p st = (st', k) \<Longrightarrow>
    (st' = st \<and> k = None)
    \<or> (\<exists>c. k = Some (pp_key p) \<and> find_mark st (pp_key p) = None \<and> dw_initial w (pp_id p) = Some (Ok (Some c)) \<and> c \<noteq> []
        \<and> exempt_rule (pp_gate p) = 0 \<and> st' = upsert (pp_key p) c (dw_stamp w) st)"
  by (auto simp: starting_record_def start_cursor_def split: if_splits res.splits option.splits)

text \<open>A starting record moves nothing.  Every send record that stood keeps its cursor and its time; a new
  one is at the present position of a pipeline of the list that the gate governs, and is told once.\<close>

theorem starting_records_only_insert:
  assumes "write_starting_records w ps st = (st', ks)"
  shows "(\<forall>k m. find_mark st k = Some m \<longrightarrow> find_mark st' k = Some m)
    \<and> (\<forall>k m. find_mark st k = None \<and> find_mark st' k = Some m \<longrightarrow> k \<in> set ks \<and> (\<exists>p c. p \<in> set ps \<and> pp_key p = k
          \<and> exempt_rule (pp_gate p) = 0 \<and> dw_initial w (pp_id p) = Some (Ok (Some c)) \<and> m = \<lparr>mk_cursor = CBlob c, mk_last_ack = dw_stamp w\<rparr>))
    \<and> distinct ks \<and> set ks \<subseteq> {k. find_mark st k = None \<and> find_mark st' k \<noteq> None}"
  using assms
proof (induction ps arbitrary: st st' ks)
  case (Cons p ps)
  obtain st1 k where p: "starting_record w p st = (st1, k)" by fastforce
  obtain ks1 where r: "write_starting_records w ps st1 = (st', ks1)" "ks = (case k of Some x \<Rightarrow> x # ks1 | None \<Rightarrow> ks1)"
    using Cons.prems p by (auto simp: Let_def split: prod.splits)
  note ih = Cons.IH [OF r(1)]
  show ?case
  proof (cases "st1 = st \<and> k = None")
    case True
    then show ?thesis using ih r(2) by fastforce
  next
    case False
    then obtain c where c: "k = Some (pp_key p)" "find_mark st (pp_key p) = None" "dw_initial w (pp_id p) = Some (Ok (Some c))"
      "exempt_rule (pp_gate p) = 0" "st1 = upsert (pp_key p) c (dw_stamp w) st" using starting_record_moves [OF p] by blast
    have f: "find_mark st1 k' = (if k' = pp_key p then Some \<lparr>mk_cursor = CBlob c, mk_last_ack = dw_stamp w\<rparr> else find_mark st k')" for k'
      by (simp add: c(5))
    have i1: "find_mark st1 k' = Some m \<Longrightarrow> find_mark st' k' = Some m" for k' m using ih by blast
    have i2: "find_mark st1 k' = None \<Longrightarrow> find_mark st' k' = Some m \<Longrightarrow> k' \<in> set ks1 \<and> (\<exists>p c. p \<in> set ps \<and> pp_key p = k'
          \<and> exempt_rule (pp_gate p) = 0 \<and> dw_initial w (pp_id p) = Some (Ok (Some c)) \<and> m = \<lparr>mk_cursor = CBlob c, mk_last_ack = dw_stamp w\<rparr>)" for k' m
      using ih by blast
    have i3: "distinct ks1" "\<And>k'. k' \<in> set ks1 \<Longrightarrow> find_mark st1 k' = None \<and> find_mark st' k' \<noteq> None" using ih by blast+
    have new: "find_mark st' (pp_key p) = Some \<lparr>mk_cursor = CBlob c, mk_last_ack = dw_stamp w\<rparr>" by (rule i1) (simp add: f)
    have ks: "ks = pp_key p # ks1" using r(2) c(1) by simp
    have "find_mark st' k' = Some m" if "find_mark st k' = Some m" for k' m
      using that c(2) by (intro i1) (auto simp: f)
    moreover have "k' \<in> set ks \<and> (\<exists>q c. q \<in> set (p # ps) \<and> pp_key q = k' \<and> exempt_rule (pp_gate q) = 0
        \<and> dw_initial w (pp_id q) = Some (Ok (Some c)) \<and> m = \<lparr>mk_cursor = CBlob c, mk_last_ack = dw_stamp w\<rparr>)"
      if "find_mark st k' = None" "find_mark st' k' = Some m" for k' m
    proof (cases "k' = pp_key p")
      case True
      then show ?thesis using that(2) new c(3,4) ks by auto
    next
      case False
      then show ?thesis using i2 [of k' m] that f [of k'] ks by (auto simp del: f)
    qed
    moreover have "distinct ks"
    proof -
      have "find_mark st1 (pp_key p) \<noteq> None" unfolding f by simp
      then have "pp_key p \<notin> set ks1" using i3(2) [THEN conjunct1, of "pp_key p"] by (intro notI) simp
      then show ?thesis using i3(1) ks by simp
    qed
    moreover have "find_mark st k' = None \<and> find_mark st' k' \<noteq> None" if "k' \<in> set ks" for k'
    proof (cases "k' = pp_key p")
      case False
      then have "find_mark st1 k' = find_mark st k'" unfolding f by simp
      then show ?thesis using that i3(2) [of k'] False ks by simp
    qed (use c(2) new in simp)
    ultimately show ?thesis by blast
  qed
qed auto

end
