(* ===== verification/DaemonWitnesses.thy ===== *)
theory DaemonWitnesses
  imports DaemonRebuild RebuildLaws
begin

text \<open>A daemon with one pipeline file and one legacy entry, each built by a client's own builder.\<close>

definition demo_entry :: pydict where "demo_entry = [(''builder'', PStr ''m:f'')]"

definition file_entry :: pydict where "file_entry = [(''builder'', PStr ''m:f''), (''client'', PStr ''a'')]"

definition demo_dir :: pd_world where
  "demo_dir = \<lparr>pw_listing = Listed (0, 0, 0) [''a.toml''], pw_stat_key = (\<lambda>_. None), pw_stat = (\<lambda>_. Regular),
     pw_toml = (\<lambda>_. Ok [(''pipeline'', PList [PDict demo_entry])]), pw_str = (\<lambda>_. [])\<rparr>"

definition demo_manifest :: pydict where "demo_manifest = [(''pipeline'', PList [PDict demo_entry])]"

definition demo_layout :: layout where
  "demo_layout = \<lparr>ly_manifest = demo_manifest, ly_entries = [(demo_entry, Legacy), (file_entry, InFile ''a.toml'')], ly_refused = [],
     ly_signature = Seen (0, 0, 0) [(''a.toml'', None)]\<rparr>"

text \<open>The builder names its pipeline after the entry's client.\<close>

definition demo_builder :: "pydict \<Rightarrow> build_desc list res" where
  "demo_builder e = (let n = text_or_empty (\<lambda>_. []) e ''client'' in
     Ok [\<lparr>ds_name = n, ds_key = (''s'', ''d'', n), ds_transport = OtherTransport, ds_producer = False\<rparr>])"

definition demo_daemon_world :: "bool res \<Rightarrow> exn option \<Rightarrow> daemon_world" where
  "demo_daemon_world isdir failing = \<lparr>dw_dir = demo_dir, dw_fx = \<lparr>fx_str = (\<lambda>_. []), fx_float = (\<lambda>_. None), fx_construct = (\<lambda>_ _. None)\<rparr>,
     dw_gate = (demo_world Stands)\<lparr>gw_is_dir := isdir\<rparr>, dw_builder = demo_builder, dw_initial = (\<lambda>_. Some (Ok (Some ''7''))),
     dw_reason = (\<lambda>_. []), dw_version_error = failing, dw_record_error = None, dw_stamp = ''t''\<rparr>"

definition demo_pipe :: "nat \<Rightarrow> string \<Rightarrow> origin \<Rightarrow> pipe" where
  "demo_pipe i n o1 = \<lparr>pp_id = i, pp_gate = \<lparr>gp_name = n, gp_origin = origin_text o1, gp_client = n, gp_governed = True, gp_transport = OtherTransport\<rparr>,
     pp_key = (''s'', ''d'', n), pp_producer = False, pp_origin = o1\<rparr>"

definition demo_build :: build where
  "demo_build = (let p = demo_pipe 0 [] Legacy; q = demo_pipe 1 ''a'' (InFile ''a.toml'') in
     \<lparr>bd_pipelines = [p, q], bd_refused = [], bd_slots = [\<lparr>sl_origin = Legacy, sl_index = None, sl_entry = demo_entry, sl_pipes = [p]\<rparr>,
        \<lparr>sl_origin = InFile ''a.toml'', sl_index = None, sl_entry = file_entry, sl_pipes = [q]\<rparr>],
      bd_good = [(''a.toml'', [file_entry])], bd_fresh = [p, q]\<rparr>)"

definition no_objects :: objects where "no_objects = \<lparr>ob_next = 0, ob_closed = []\<rparr>"

definition two_objects :: objects where "two_objects = \<lparr>ob_next = 2, ob_closed = []\<rparr>"

lemmas demo_daemon_defs = demo_entry_def file_entry_def demo_dir_def demo_manifest_def demo_layout_def demo_daemon_world_def

lemma demo_names: "pipeline_names demo_dir = [''a.toml'']"
  by (simp add: pipeline_names_def demo_dir_def) code_simp

lemma demo_read: "read_file demo_dir ''a.toml'' = Inl [file_entry]"
  by code_simp

lemma demo_loads: "load_layout demo_dir demo_manifest = Ok demo_layout"
  by code_simp

lemma demo_assembles: "assemble (demo_daemon_world r f) demo_layout empty_build s no_objects = (two_objects, Ok demo_build)"
  by code_simp


subsection \<open>Layouts and builds\<close>

lemma one_origin_per_client_witness: "InFile ''a.toml'' = InFile (entry_client demo_dir file_entry @ ''.toml'')"
proof -
  have "(file_entry, InFile ''a.toml'') \<in> set (ly_entries demo_layout)" by (simp add: demo_layout_def)
  from one_origin_per_client [OF demo_loads this this refl] show ?thesis by simp
qed

lemma file_taken_whole_or_refused_witness:
  "\<exists>raw. follows_rules demo_dir ''a.toml'' raw \<and> map (dict_set ''client'' (PStr ''a'')) raw = [file_entry]"
proof -
  have n: "''a.toml'' \<in> set (pipeline_names demo_dir)" "distinct (pipeline_names demo_dir)" by (simp_all add: demo_names)
  have stem: "file_stem ''a.toml'' = ''a''" by (simp add: file_stem_def)
  have "\<not> (\<forall>(e, o1) \<in> set (ly_entries demo_layout). o1 \<noteq> InFile ''a.toml'')" by (simp add: demo_layout_def)
  with file_taken_whole_or_refused [OF demo_loads n] obtain raw where "follows_rules demo_dir ''a.toml'' raw"
    "map fst (filter (\<lambda>(e, o1). o1 = InFile ''a.toml'') (ly_entries demo_layout)) = map (dict_set ''client'' (PStr ''a'')) raw"
    unfolding stem by blast
  then show ?thesis by (intro exI [of _ raw]) (simp add: demo_layout_def)
qed

lemma empty_owns: "\<forall>s \<in> set (bd_slots empty_build). own_slot s"
  by (simp add: empty_build_def)

lemma files_never_collide_witness:
  "distinct (map pp_name (filter (\<lambda>p. pp_origin p \<noteq> Legacy) (bd_pipelines demo_build))) \<and> pp_key (demo_pipe 0 [] Legacy) \<noteq> pp_key (demo_pipe 1 ''a'' (InFile ''a.toml''))"
  using files_never_collide [OF demo_assembles [of "Ok True" None True] empty_owns] by (simp add: demo_build_def demo_pipe_def Let_def)

lemma unchanged_layout_rebuilds_nothing_witness:
  "\<exists>b. assemble (demo_daemon_world (Ok False) (Some attribute_error)) demo_layout demo_build True two_objects = (two_objects, Ok b)
     \<and> bd_pipelines b = bd_pipelines demo_build \<and> bd_fresh b = []"
proof -
  have b: "bd_refused demo_build = []" "ly_refused demo_layout = []" by (simp_all add: demo_build_def demo_layout_def Let_def)
  have c: "comparable (map fst (ly_entries demo_layout))" by code_simp
  from unchanged_layout_rebuilds_nothing [OF demo_assembles [of "Ok True" None True] empty_owns b c] show ?thesis by blast
qed

subsection \<open>A running daemon\<close>

definition new_daemon :: daemon where
  "new_daemon = \<lparr>dm_rb = \<lparr>rb_manifest = demo_manifest, rb_has_marker = True, rb_build = empty_build, rb_running = [], rb_rows = [], rb_signature = None,
       rb_marker_seen = False, rb_said = [], rb_said_no_files = False\<rparr>,
     dm_store = open_store empty_file, dm_objects = no_objects, dm_mem = ga_mem demo_gate, dm_gate = demo_gate, dm_uploader = [], dm_lines = [],
     dm_pumps = [], dm_hup_pending = False, dm_last_failure = None, dm_failures = []\<rparr>"

definition started :: daemon where
  "started = (let d = fst (start (demo_daemon_world (Ok True) None) new_daemon) in d\<lparr>dm_uploader := rb_running (dm_rb d)\<rparr>)"

lemma start_succeeds: "snd (start (demo_daemon_world (Ok True) None) new_daemon) = Ok ()"
  by code_simp

lemma started_runs: "daemon_run started"
proof (rule Boot)
  show "boot (demo_daemon_world (Ok True) None) new_daemon started"
    using start_succeeds by (cases "start (demo_daemon_world (Ok True) None) new_daemon") (simp add: boot_def started_def new_daemon_def no_objects_def)
qed

lemma started_ids: "ids (dm_uploader started) = [0, 1]"
  by code_simp

definition gone_world :: "bool res \<Rightarrow> daemon_world" where
  "gone_world isdir = (demo_daemon_world isdir None)\<lparr>dw_dir := demo_dir\<lparr>pw_listing := Listed (1, 0, 0) []\<rparr>\<rparr>"

lemma gone_turn_ids: "ids (dm_uploader (turn (gone_world (Ok True)) False started)) = [0]" "ob_closed (dm_objects (turn (gone_world (Ok True)) False started)) = [1]"
  by code_simp+

lemma running_pipelines_stay_open_witness:
  "set (ids (dm_uploader (turn (gone_world (Ok True)) False started))) \<inter> set (ob_closed (dm_objects (turn (gone_world (Ok True)) False started))) = {}
    \<and> ob_closed (dm_objects (turn (gone_world (Ok True)) False started)) = [1]"
proof -
  have "daemon_run (turn (gone_world (Ok True)) False started)"
    by (rule Turn [OF started_runs, of _ True]) (simp add: gone_world_def demo_daemon_world_def)
  from running_pipelines_stay_open [OF this] show ?thesis using gone_turn_ids(2) by blast
qed

lemma failing_rebuild: "snd (rebuild (demo_daemon_world (Ok True) (Some attribute_error)) started) = Raise attribute_error"
  by code_simp

lemma failed_rebuild_changes_nothing_witness:
  "dm_rb (fst (rebuild (demo_daemon_world (Ok True) (Some attribute_error)) started)) = dm_rb started
    \<and> snd (rebuild (demo_daemon_world (Ok True) (Some attribute_error)) started) = Raise attribute_error"
proof -
  have r: "rebuild (demo_daemon_world (Ok True) (Some attribute_error)) started
      = (fst (rebuild (demo_daemon_world (Ok True) (Some attribute_error)) started), Raise attribute_error)"
    using failing_rebuild by (metis prod.collapse)
  have "gw_is_dir (dw_gate (demo_daemon_world (Ok True) (Some attribute_error))) = Ok True" by (simp add: demo_daemon_world_def)
  from failed_rebuild_changes_nothing [OF started_runs r this] show ?thesis using failing_rebuild by blast
qed

lemma gone_makes: "snd (make (gone_world (Raise attribute_error)) (rb_build (dm_rb started)) False started) \<noteq> Raise x"
  "ids (case snd (make (gone_world (Raise attribute_error)) (rb_build (dm_rb started)) False started) of Ok m \<Rightarrow> bd_pipelines (md_build m) | Raise _ \<Rightarrow> []) = [0]"
  by code_simp+

lemma unreadable_sinks_loses_a_rebuild_witness:
  "\<exists>d. rebuild (gone_world (Raise attribute_error)) started = (d, Raise attribute_error) \<and> ids (bd_pipelines (rb_build (dm_rb d))) = [0]
    \<and> ids (dm_uploader d) = [0, 1] \<and> \<not> due (gone_world (Raise attribute_error)) d"
proof -
  obtain d1 m where m: "make (gone_world (Raise attribute_error)) (rb_build (dm_rb started)) False started = (d1, Ok m)"
    using gone_makes(1) by (cases "make (gone_world (Raise attribute_error)) (rb_build (dm_rb started)) False started";
        cases "snd (make (gone_world (Raise attribute_error)) (rb_build (dm_rb started)) False started)") auto
  then have b: "ids (bd_pipelines (md_build m)) = [0]" using gone_makes(2) by simp
  have w: "dw_record_error (gone_world (Raise attribute_error)) = None" "gw_is_dir (dw_gate (gone_world (Raise attribute_error))) = Raise attribute_error"
    by (simp_all add: gone_world_def demo_daemon_world_def)
  from unreadable_sinks_loses_a_rebuild [OF started_runs m w] show ?thesis using b started_ids by metis
qed

lemma starting_records_only_insert_witness:
  "\<exists>m. find_mark (fst (write_starting_records (demo_daemon_world (Ok True) None) [demo_pipe 1 ''a'' (InFile ''a.toml'')]
      (upsert (''s'', ''d'', ''b'') ''5'' [] (open_store empty_file)))) (''s'', ''d'', ''b'') = Some m \<and> mk_cursor m = CBlob ''5''"
proof -
  define r where "r = write_starting_records (demo_daemon_world (Ok True) None) [demo_pipe 1 ''a'' (InFile ''a.toml'')]
      (upsert (''s'', ''d'', ''b'') ''5'' [] (open_store empty_file))"
  have "\<forall>k m. find_mark (upsert (''s'', ''d'', ''b'') ''5'' [] (open_store empty_file)) k = Some m \<longrightarrow> find_mark (fst r) k = Some m"
    by (rule starting_records_only_insert [of "demo_daemon_world (Ok True) None" "[demo_pipe 1 ''a'' (InFile ''a.toml'')]" _ _ "snd r", THEN conjunct1])
      (simp add: r_def)
  then show ?thesis unfolding r_def [symmetric] by simp
qed

end
