(* ===== verification/Backlog.thy ===== *)
theory Backlog
  imports Schema
begin

text \<open>
  The backlog report, \<open>backlog.py\<close>: counts of retries and dead letters per pipeline, the cursors and the
  last sends, read from the store's tables.

  Parameters: \<open>datetime.fromisoformat\<close> as the microseconds of the wall clock and of the offset, and the
  length of SQLite's text of a real.  A row stands in rowid order; a dead letter's position is its rowid.
\<close>

subsection \<open>Reading\<close>

record backlog_world =
  bw_fromiso :: "string \<Rightarrow> (int \<times> int option) option"
  bw_now :: int
  bw_real_length :: int

definition dead_letter_recent :: int where "dead_letter_recent = 24 * 3600 * 1000000"

text \<open>A time without an offset is taken as UTC.\<close>

definition iso_instant :: "backlog_world \<Rightarrow> string \<Rightarrow> int option" where
  "iso_instant w ts = map_option (\<lambda>(wall, offset). wall - (case offset of Some z \<Rightarrow> z | None \<Rightarrow> 0)) (bw_fromiso w ts)"

definition is_recent :: "backlog_world \<Rightarrow> string \<Rightarrow> bool" where
  "is_recent w ts \<longleftrightarrow> (case iso_instant w ts of None \<Rightarrow> True | Some t \<Rightarrow> bw_now w - dead_letter_recent \<le> t)"

text \<open>\<open>length(cursor)\<close>; a text ends at its first NUL.\<close>

definition cell_length :: "backlog_world \<Rightarrow> cell \<Rightarrow> int" where
  "cell_length w c = (case c of CBlob b \<Rightarrow> int (length b) | CText t \<Rightarrow> int (length (takeWhile (\<lambda>x. x \<noteq> CHR 0x00) t))
     | CInt n \<Rightarrow> int (length (str_of_int n)) | CReal \<Rightarrow> bw_real_length w)"

text \<open>The first dead letter of the same pipeline with the same payload.\<close>

definition dataset_id :: "dead_row list \<Rightarrow> dead_row \<Rightarrow> nat" where
  "dataset_id rows d = length (takeWhile (\<lambda>e. \<not> (dd_pipeline e = dd_pipeline d \<and> dd_payload e = dd_payload d)) rows)"

definition need_table :: "mdb \<Rightarrow> string \<Rightarrow> unit res" where
  "need_table db t = (if has_table db t then Ok () else Raise (Exn ''OperationalError'' (''no such table: '' @ t)))"

text \<open>\<open>_optional_rows\<close>.\<close>

definition optional_rows :: "mdb \<Rightarrow> string \<Rightarrow> 'a list \<Rightarrow> 'a list" where
  "optional_rows db t rows = (if has_table db t then rows else [])"

subsection \<open>Counting dead letters\<close>

record tally =
  tl_count :: "(string \<times> int) list"
  tl_recent :: "(string \<times> int) list"
  tl_newest :: "(string \<times> string) list"
  tl_sets :: "(string \<times> nat list) list"
  tl_sets_recent :: "(string \<times> nat list) list"

definition no_tally :: tally where
  "no_tally = \<lparr>tl_count = [], tl_recent = [], tl_newest = [], tl_sets = [], tl_sets_recent = []\<rparr>"

definition get_count :: "(string \<times> int) list \<Rightarrow> string \<Rightarrow> int" where
  "get_count d k = (case map_of d k of Some n \<Rightarrow> n | None \<Rightarrow> 0)"

definition get_set :: "(string \<times> nat list) list \<Rightarrow> string \<Rightarrow> nat list" where
  "get_set d k = (case map_of d k of Some s \<Rightarrow> s | None \<Rightarrow> [])"

definition bump :: "string \<Rightarrow> (string \<times> int) list \<Rightarrow> (string \<times> int) list" where
  "bump k d = dict_set k (get_count d k + 1) d"

text \<open>\<open>setdefault(k, set()).add(x)\<close>.\<close>

definition add_to :: "string \<Rightarrow> nat \<Rightarrow> (string \<times> nat list) list \<Rightarrow> (string \<times> nat list) list" where
  "add_to k x d = dict_set k (List.insert x (get_set d k)) d"

definition tally_row :: "backlog_world \<Rightarrow> dead_row list \<Rightarrow> dead_row \<Rightarrow> tally \<Rightarrow> tally" where
  "tally_row w rows d t = (let name = dd_pipeline d; i = dataset_id rows d; fresh = is_recent w (dd_ts d) in
     t\<lparr>tl_count := bump name (tl_count t), tl_sets := add_to name i (tl_sets t),
       tl_recent := (if fresh then bump name (tl_recent t) else tl_recent t),
       tl_sets_recent := (if fresh then add_to name i (tl_sets_recent t) else tl_sets_recent t),
       tl_newest := (case map_of (tl_newest t) name of None \<Rightarrow> dict_set name (dd_ts d) (tl_newest t)
         | Some z \<Rightarrow> if z < dd_ts d then dict_set name (dd_ts d) (tl_newest t) else tl_newest t)\<rparr>)"

definition tally_dead :: "backlog_world \<Rightarrow> dead_row list \<Rightarrow> tally" where
  "tally_dead w rows = fold (tally_row w rows) rows no_tally"

subsection \<open>The report\<close>

record backlog_row =
  br_name :: string
  br_client :: string
  br_refused :: string
  br_deliverables :: int
  br_dead :: int
  br_dead_recent :: int
  br_datasets :: int
  br_datasets_recent :: int
  br_newest :: "string option"

record cursor_row =
  cr_key :: send_key
  cr_last_ack :: string
  cr_length :: int
  cr_superseded_by :: "string list"

record summary =
  sm_pipelines :: "backlog_row list"
  sm_cursors :: "cursor_row list"
  sm_orphaned :: int
  sm_last_send :: "((string \<times> string) \<times> last_send_row) list"

datatype backlog = Unknown string | Summary summary

definition queue_counts :: "mdb \<Rightarrow> (string \<times> int) list" where
  "queue_counts db = (let names = map dl_pipeline (st_queue (md_store db)) in
     map (\<lambda>p. (p, int (length (filter (\<lambda>n. n = p) names)))) (remdups names))"

definition known_pipelines :: "mdb \<Rightarrow> (string \<times> pipe_row) list" where
  "known_pipelines db = optional_rows db ''pipeline_state'' (pipeline_states (md_store db))"

definition cursor_rows :: "backlog_world \<Rightarrow> mdb \<Rightarrow> cursor_row list" where
  "cursor_rows w db = map (\<lambda>(k, m). \<lparr>cr_key = k, cr_last_ack = mk_last_ack m, cr_length = cell_length w (mk_cursor m),
     cr_superseded_by = optional_rows db ''superseded_keys'' (superseded_by k (md_store db))\<rparr>) (all_cursors (md_store db))"

definition pipeline_names :: "mdb \<Rightarrow> tally \<Rightarrow> string list" where
  "pipeline_names db t = sort (remdups (map fst (queue_counts db) @ map fst (tl_count t) @ map fst (known_pipelines db)))"

definition backlog_row_of :: "mdb \<Rightarrow> tally \<Rightarrow> string \<Rightarrow> backlog_row" where
  "backlog_row_of db t n = \<lparr>br_name = n,
     br_client = (case map_of (known_pipelines db) n of Some r \<Rightarrow> pr_client r | None \<Rightarrow> []),
     br_refused = (case map_of (known_pipelines db) n of Some r \<Rightarrow> pr_refused_reason r | None \<Rightarrow> []),
     br_deliverables = get_count (queue_counts db) n, br_dead = get_count (tl_count t) n,
     br_dead_recent = get_count (tl_recent t) n, br_datasets = int (length (get_set (tl_sets t) n)),
     br_datasets_recent = int (length (get_set (tl_sets_recent t) n)), br_newest = map_of (tl_newest t) n\<rparr>"

definition orphaned :: "mdb \<Rightarrow> tally \<Rightarrow> int" where
  "orphaned db t = (if known_pipelines db = [] then 0
     else sum_list (map snd (filter (\<lambda>(n, _). n \<notin> fst ` set (known_pipelines db)) (tl_count t))))"

definition summary_of :: "backlog_world \<Rightarrow> mdb \<Rightarrow> summary" where
  "summary_of w db = (let t = tally_dead w (st_dead (md_store db)) in
     \<lparr>sm_pipelines = map (backlog_row_of db t) (pipeline_names db t), sm_cursors = cursor_rows w db,
      sm_orphaned = orphaned db t,
      sm_last_send = optional_rows db ''last_send'' (sort_key fst (st_last_send (md_store db)))\<rparr>)"

text \<open>\<open>summarize\<close> of what opening the file gave: any failure is the answer that nothing is known.\<close>

definition summarize :: "backlog_world \<Rightarrow> mdb res \<Rightarrow> backlog" where
  "summarize w opened = (case bind_res opened (\<lambda>db. bind_res (need_table db ''watermarks'') (\<lambda>_.
       bind_res (need_table db ''deliverables'') (\<lambda>_. map_res (\<lambda>_. db) (need_table db ''dead_letter'')))) of
     Raise e \<Rightarrow> Unknown (exn_type e @ '': '' @ exn_text e)
   | Ok db \<Rightarrow> Summary (summary_of w db))"

text \<open>\<open>python -m hs_uploader.backlog\<close>: one argument, the path; the exit code is 0 whatever the answer.\<close>

definition backlog_main :: "backlog_world \<Rightarrow> (string \<Rightarrow> mdb res) \<Rightarrow> string list \<Rightarrow> int \<times> backlog" where
  "backlog_main w opening argv = (0, case argv of [p] \<Rightarrow> summarize w (opening p)
     | _ \<Rightarrow> Unknown ''ValueError: usage: python -m hs_uploader.backlog <db-path>'')"

subsection \<open>The counts\<close>

lemma get_count_bump: "get_count (bump k d) n = get_count d n + (if n = k then 1 else 0)"
  by (simp add: get_count_def bump_def)

lemma get_set_add: "get_set (add_to k x d) n = (if n = k then List.insert x (get_set d n) else get_set d n)"
  by (simp add: get_set_def add_to_def)

text \<open>The dead letters of a pipeline, all and the recent ones.\<close>

definition dead_of :: "dead_row list \<Rightarrow> string \<Rightarrow> dead_row list" where
  "dead_of rows n = filter (\<lambda>d. dd_pipeline d = n) rows"

definition recent_of :: "backlog_world \<Rightarrow> dead_row list \<Rightarrow> string \<Rightarrow> dead_row list" where
  "recent_of w rows n = filter (\<lambda>d. is_recent w (dd_ts d)) (dead_of rows n)"

lemma tally_counts:
  "get_count (tl_count (fold (tally_row w rows) ds t)) n = get_count (tl_count t) n + int (length (dead_of ds n))"
  "get_count (tl_recent (fold (tally_row w rows) ds t)) n = get_count (tl_recent t) n + int (length (recent_of w ds n))"
  by (induction ds arbitrary: t) (auto simp: tally_row_def Let_def get_count_bump dead_of_def recent_of_def)

lemma tally_sets:
  "set (get_set (tl_sets (fold (tally_row w rows) ds t)) n) = set (get_set (tl_sets t) n) \<union> dataset_id rows ` set (dead_of ds n)"
  "set (get_set (tl_sets_recent (fold (tally_row w rows) ds t)) n) = set (get_set (tl_sets_recent t) n) \<union> dataset_id rows ` set (recent_of w ds n)"
  by (induction ds arbitrary: t) (auto simp: tally_row_def Let_def get_set_add dead_of_def recent_of_def)

lemma tally_sets_distinct:
  "distinct (get_set (tl_sets t) n) \<Longrightarrow> distinct (get_set (tl_sets_recent t) n)
    \<Longrightarrow> distinct (get_set (tl_sets (fold (tally_row w rows) ds t)) n) \<and> distinct (get_set (tl_sets_recent (fold (tally_row w rows) ds t)) n)"
proof (induction ds arbitrary: t)
  case (Cons d ds)
  have "distinct (get_set (tl_sets (tally_row w rows d t)) n)" "distinct (get_set (tl_sets_recent (tally_row w rows d t)) n)"
    using Cons.prems by (auto simp: tally_row_def Let_def get_set_add)
  then show ?case using Cons.IH by simp
qed simp

lemma tally_keys: "set (map fst (tl_count (fold (tally_row w rows) ds t))) = set (map fst (tl_count t)) \<union> dd_pipeline ` set ds"
  by (induction ds arbitrary: t) (simp_all add: tally_row_def Let_def bump_def fst_set_dict_set)

definition later :: "string \<Rightarrow> string option \<Rightarrow> string option" where
  "later ts z = Some (case z of None \<Rightarrow> ts | Some y \<Rightarrow> max y ts)"

lemma tally_newest:
  "map_of (tl_newest (fold (tally_row w rows) ds t)) n = fold later (map dd_ts (dead_of ds n)) (map_of (tl_newest t) n)"
proof (induction ds arbitrary: t)
  case (Cons d ds)
  have "map_of (tl_newest (tally_row w rows d t)) n
      = (if n = dd_pipeline d then later (dd_ts d) (map_of (tl_newest t) n) else map_of (tl_newest t) n)"
    by (auto simp: tally_row_def Let_def later_def max_def split: option.split)
  then show ?case using Cons by (simp add: dead_of_def)
qed (simp add: dead_of_def)

lemma fold_later: "fold later ts (Some y) = Some (fold max ts y)"
  by (induction ts arbitrary: y) (simp_all add: later_def max.commute)

lemma newest_is_max: "fold later ts None = (if ts = [] then None else Some (Max (set ts)))"
  by (cases ts) (simp_all add: later_def fold_later Max.set_eq_fold [symmetric] del: List.set_simps)

lemma dataset_id_same:
  assumes "d \<in> set rows" "e \<in> set rows" "dd_pipeline d = dd_pipeline e"
  shows "dataset_id rows d = dataset_id rows e \<longleftrightarrow> dd_payload d = dd_payload e"
proof
  have first: "dd_payload (rows ! dataset_id rows x) = dd_payload x" if "x \<in> set rows" for x
  proof -
    let ?P = "\<lambda>e. \<not> (dd_pipeline e = dd_pipeline x \<and> dd_payload e = dd_payload x)"
    have "takeWhile ?P rows \<noteq> rows" using that unfolding takeWhile_eq_all_conv by blast
    then have "\<not> length rows \<le> length (takeWhile ?P rows)" using takeWhile_eq_take [of ?P rows] by auto
    then have "length (takeWhile ?P rows) < length rows" by simp
    from nth_length_takeWhile [OF this] show ?thesis unfolding dataset_id_def by blast
  qed
  show "dd_payload d = dd_payload e" if "dataset_id rows d = dataset_id rows e"
    using first [OF assms(1)] first [OF assms(2)] that by simp
qed (use assms(3) in \<open>simp add: dataset_id_def\<close>)

lemma card_images_agree:
  assumes "\<And>x y. x \<in> A \<Longrightarrow> y \<in> A \<Longrightarrow> f x = f y \<longleftrightarrow> g x = g y"
  shows "card (f ` A) = card (g ` A)"
proof -
  have "f (inv_into A g (g x)) = f x" if "x \<in> A" for x
    using assms [OF inv_into_into [OF imageI [OF that], of g] that] f_inv_into_f [OF imageI [OF that], of g] by simp
  then have "f ` A = (f \<circ> inv_into A g) ` g ` A" by (auto simp: image_image)
  moreover have "inj_on (f \<circ> inv_into A g) (g ` A)"
    by (rule inj_onI) (auto simp: assms inv_into_into f_inv_into_f)
  ultimately show ?thesis using card_image by metis
qed

lemma dataset_count:
  assumes "set ds \<subseteq> set rows"
  shows "card (dataset_id rows ` set (dead_of ds n)) = card (dd_payload ` set (dead_of ds n))"
  using assms by (intro card_images_agree dataset_id_same) (auto simp: dead_of_def)

lemma sum_of_counts:
  "distinct ns \<Longrightarrow> f ` set xs \<subseteq> set ns \<Longrightarrow> (\<Sum>n \<leftarrow> ns. int (length (filter (\<lambda>x. f x = n) xs))) = int (length xs)"
proof (induction xs)
  case (Cons x xs)
  have "(\<Sum>n \<leftarrow> ns. int (length (filter (\<lambda>y. f y = n) (x # xs))))
      = (\<Sum>n \<leftarrow> ns. (if f x = n then 1 else 0) + int (length (filter (\<lambda>y. f y = n) xs)))"
    by (intro arg_cong [of _ _ sum_list] map_cong) auto
  also have "\<dots> = (\<Sum>n \<leftarrow> ns. if f x = n then 1 else 0) + int (length xs)" using Cons by (simp add: sum_list_addf)
  also have "(\<Sum>n \<leftarrow> ns. if f x = n then 1 else (0 :: int)) = 1"
    using Cons.prems by (simp add: sum_list_distinct_conv_sum_set)
  finally show ?case by simp
qed simp

lemma set_length: "distinct xs \<Longrightarrow> length xs = card (set xs)"
  by (simp add: distinct_card)

lemma tally_facts:
  fixes rows :: "dead_row list" and w :: backlog_world
  defines "t \<equiv> tally_dead w rows"
  shows "get_count (tl_count t) n = int (length (dead_of rows n))" "get_count (tl_recent t) n = int (length (recent_of w rows n))"
    and "length (get_set (tl_sets t) n) = card (dd_payload ` set (dead_of rows n))"
    and "length (get_set (tl_sets_recent t) n) = card (dd_payload ` set (recent_of w rows n))"
    and "map_of (tl_newest t) n = (if dead_of rows n = [] then None else Some (Max (dd_ts ` set (dead_of rows n))))"
    and "set (map fst (tl_count t)) = dd_pipeline ` set rows"
proof -
  have none: "get_count (tl_count no_tally) n = 0" "get_count (tl_recent no_tally) n = 0" "get_set (tl_sets no_tally) n = []"
      "get_set (tl_sets_recent no_tally) n = []" "map_of (tl_newest no_tally) n = None" "tl_count no_tally = []"
    by (simp_all add: no_tally_def get_count_def get_set_def)
  show "get_count (tl_count t) n = int (length (dead_of rows n))" "get_count (tl_recent t) n = int (length (recent_of w rows n))"
    "set (map fst (tl_count t)) = dd_pipeline ` set rows"
    using tally_counts [of w rows rows no_tally] tally_keys [of w rows rows no_tally] none by (simp_all add: t_def tally_dead_def)
  have d: "distinct (get_set (tl_sets t) n)" "distinct (get_set (tl_sets_recent t) n)"
    using tally_sets_distinct [of no_tally n w rows rows] none by (simp_all add: t_def tally_dead_def)
  have s: "set (get_set (tl_sets t) n) = dataset_id rows ` set (dead_of rows n)"
      "set (get_set (tl_sets_recent t) n) = dataset_id rows ` set (recent_of w rows n)"
    using tally_sets [of w rows rows no_tally] none by (simp_all add: t_def tally_dead_def)
  have same: "card (dataset_id rows ` A) = card (dd_payload ` A)" if "A \<subseteq> set (dead_of rows n)" for A
    using that by (intro card_images_agree dataset_id_same) (auto simp: dead_of_def)
  show "length (get_set (tl_sets t) n) = card (dd_payload ` set (dead_of rows n))"
    "length (get_set (tl_sets_recent t) n) = card (dd_payload ` set (recent_of w rows n))"
    unfolding set_length [OF d(1)] set_length [OF d(2)] s by (rule same, auto simp: recent_of_def)+
  show "map_of (tl_newest t) n = (if dead_of rows n = [] then None else Some (Max (dd_ts ` set (dead_of rows n))))"
    using tally_newest [of w rows rows no_tally n] none by (simp add: t_def tally_dead_def newest_is_max)
qed

lemma queue_count: "get_count (queue_counts db) n = int (length (filter (\<lambda>d. dl_pipeline d = n) (st_queue (md_store db))))"
proof -
  have "map_of (map (\<lambda>p. (p, g p)) ns) n = (if n \<in> set ns then Some (g n) else None)" for ns and g :: "string \<Rightarrow> int"
    by (induction ns) auto
  then show ?thesis by (auto simp: get_count_def queue_counts_def Let_def filter_map comp_def filter_empty_conv)
qed

text \<open>C38: The report counts what is there.  Each pipeline with a retry, a dead letter or a recorded state has
  one row, with the number of its retries, of its dead letters and of the recent ones, the number of
  different payloads among them, however often each was tried, and the time of the newest; the dead letters
  of the rows add up to those of the store.\<close>

theorem backlog_counts_what_is_there:
  assumes "summarize w (Ok db) = Summary s"
  shows "let dead = st_dead (md_store db); queue = st_queue (md_store db) in
     distinct (map br_name (sm_pipelines s))
   \<and> br_name ` set (sm_pipelines s) = dl_pipeline ` set queue \<union> dd_pipeline ` set dead \<union> fst ` set (known_pipelines db)
   \<and> list_all (\<lambda>r. br_deliverables r = int (length (filter (\<lambda>d. dl_pipeline d = br_name r) queue))
       \<and> br_dead r = int (length (dead_of dead (br_name r))) \<and> br_dead_recent r = int (length (recent_of w dead (br_name r)))
       \<and> br_datasets r = int (card (dd_payload ` set (dead_of dead (br_name r))))
       \<and> br_datasets_recent r = int (card (dd_payload ` set (recent_of w dead (br_name r))))
       \<and> br_newest r = (if dead_of dead (br_name r) = [] then None else Some (Max (dd_ts ` set (dead_of dead (br_name r))))))
       (sm_pipelines s)
   \<and> sum_list (map br_dead (sm_pipelines s)) = int (length dead)"
proof -
  define dead where "dead = st_dead (md_store db)"
  define t where "t = tally_dead w dead"
  have s: "sm_pipelines s = map (backlog_row_of db t) (pipeline_names db t)"
    using assms by (auto simp: summarize_def summary_of_def Let_def t_def dead_def split: res.splits)
  have name: "br_name (backlog_row_of db t n) = n" for n by (simp add: backlog_row_of_def)
  have names: "map br_name (sm_pipelines s) = pipeline_names db t" by (simp add: s comp_def name)
  have d: "distinct (pipeline_names db t)" by (simp add: pipeline_names_def)
  have all: "set (pipeline_names db t) = dl_pipeline ` set (st_queue (md_store db)) \<union> dd_pipeline ` set dead \<union> fst ` set (known_pipelines db)"
    using tally_facts(6) [of w dead] by (auto simp: pipeline_names_def queue_counts_def Let_def t_def image_image)
  have counts: "br_dead (backlog_row_of db t n) = int (length (filter (\<lambda>x. dd_pipeline x = n) dead))" for n
    using tally_facts(1) [of w dead n] by (simp add: backlog_row_of_def t_def dead_of_def)
  have "sum_list (map br_dead (sm_pipelines s)) = int (length dead)"
    unfolding s map_map comp_def counts by (rule sum_of_counts [OF d]) (use all in auto)
  moreover have "br_name ` set (sm_pipelines s) = set (pipeline_names db t)" using arg_cong [OF names, of set] by simp
  moreover have "list_all P (sm_pipelines s)" if "\<And>n. P (backlog_row_of db t n)" for P using that by (simp add: s list_all_iff)
  ultimately show ?thesis unfolding Let_def dead_def [symmetric] names all
    by (simp add: d, simp add: backlog_row_of_def queue_count tally_facts t_def)
qed

lemma unreadable_is_unknown:
  "summarize w (Raise e) = Unknown (exn_type e @ '': '' @ exn_text e)"
  "\<not> has_table db ''watermarks'' \<or> \<not> has_table db ''deliverables'' \<or> \<not> has_table db ''dead_letter''
     \<Longrightarrow> \<exists>why. summarize w (Ok db) = Unknown why"
  by (auto simp: summarize_def need_table_def split: res.split)

end
