(* ===== verification/Admin.thy ===== *)
theory Admin
  imports Backlog SinkSwitch
begin

text \<open>
  The commands of \<open>cli.py\<close> that change something: purging dead letters, kicking retries, resetting a cursor,
  migrating, and the checks of \<open>sink set\<close> on the identity it is given.  A result is the exit code and the
  new state; what is printed is left out.

  Parameters, beside those of \<open>Backlog\<close>: what writing the backup file does.  An exception of a subclass of
  \<open>OSError\<close> or \<open>ValueError\<close> goes by the name of the class the code catches.
\<close>

subsection \<open>Dead letters\<close>

record purge_args =
  pa_before :: "string option"
  pa_pipeline :: "string option"

text \<open>\<open>_matches\<close>: \<open>before\<close> is the bound already read.\<close>

definition purge_matches :: "backlog_world \<Rightarrow> string option \<Rightarrow> int option \<Rightarrow> dead_row \<Rightarrow> bool" where
  "purge_matches w pipeline before d = (if pipeline \<noteq> None \<and> pipeline \<noteq> Some (dd_pipeline d) then False
     else (case before of None \<Rightarrow> True | Some limit \<Rightarrow>
       (case iso_instant w (dd_ts d) of None \<Rightarrow> False | Some t \<Rightarrow> t < limit)))"

definition quote :: char where "quote = CHR 0x27"

text \<open>\<open>replace("'", "''")\<close>, and the literal.\<close>

definition doubled :: "string \<Rightarrow> string" where
  "doubled v = concat (map (\<lambda>c. if c = quote then [quote, quote] else [c]) v)"

definition sql_text :: "string \<Rightarrow> string" where "sql_text v = quote # doubled v @ [quote]"

definition to_hex :: "bytes \<Rightarrow> string" where
  "to_hex b = concat (map (\<lambda>c. let k = (of_char c :: nat) in [hex_char (k div 16), hex_char (k mod 16)]) b)"

definition insert_start :: string where
  "insert_start = ''INSERT INTO dead_letter(ts, pipeline, payload_blob, final_error) VALUES(''"

definition insert_line :: "dead_row \<Rightarrow> string" where
  "insert_line d = insert_start @ sql_text (dd_ts d) @ '', '' @ sql_text (dd_pipeline d) @ '', ''
     @ CHR ''X'' # quote # to_hex (dd_payload d) @ quote # '', '' @ sql_text (dd_final_error d) @ '');''"

definition backup_text :: "dead_row list \<Rightarrow> string" where
  "backup_text rows = ''BEGIN;'' @ [CHR 0x0A] @ join [CHR 0x0A] (map insert_line rows) @ [CHR 0x0A] @ ''COMMIT;'' @ [CHR 0x0A]"

text \<open>\<open>_cmd_purge_dead_letters\<close>: the exit code, the backup if there is one, and the store.  \<open>write\<close> is how
  the backup file fails to be written.\<close>

definition purge_dead_letters :: "backlog_world \<Rightarrow> (string \<Rightarrow> exn option) \<Rightarrow> purge_args \<Rightarrow> store
    \<Rightarrow> (int \<times> string option) res \<times> store" where
  "purge_dead_letters w writing a st = (case (case pa_before a of Some (c # cs) \<Rightarrow>
         (case iso_instant w (c # cs) of Some t \<Rightarrow> Ok (Some t) | None \<Rightarrow> Raise (Exn ''ValueError'' ''Invalid isoformat string''))
       | _ \<Rightarrow> Ok None) of
     Raise e \<Rightarrow> (Raise e, st)
   | Ok before \<Rightarrow> (let chosen = filter (purge_matches w (pa_pipeline a) before) (st_dead st) in
       if chosen = [] then (Ok (0, None), st)
       else (case writing (backup_text chosen) of
         Some e \<Rightarrow> (if exn_type e = ''OSError'' then Ok (1, None) else Raise e, st)
       | None \<Rightarrow> (Ok (0, Some (backup_text chosen)),
           st\<lparr>st_dead := filter (\<lambda>d. \<not> purge_matches w (pa_pipeline a) before d) (st_dead st)\<rparr>))))"

subsection \<open>Retries and cursors\<close>

definition epoch_text :: string where "epoch_text = ''1970-01-01T00:00:00+00:00''"

definition kick :: "store \<Rightarrow> nat \<times> store" where
  "kick st = (length (st_queue st), st\<lparr>st_queue := map (\<lambda>d. d\<lparr>dl_next_attempt_at := epoch_text\<rparr>) (st_queue st)\<rparr>)"

definition reset_cursor_cmd :: "send_key \<Rightarrow> store \<Rightarrow> int \<times> store" where
  "reset_cursor_cmd k st = (if superseded_by k st \<noteq> [] then (2, st)
     else (case reset_cursor k st of (removed, st') \<Rightarrow> (if removed then 0 else 1, st')))"

definition migrate_check_pending :: int where "migrate_check_pending = 3"

text \<open>\<open>_cmd_migrate\<close>: \<open>dir\<close> is whether the directory of the file is there.\<close>

definition migrate_cmd :: "bool \<Rightarrow> bool \<Rightarrow> bool \<Rightarrow> (mdb \<Rightarrow> mdb) \<Rightarrow> string \<Rightarrow> migrate_ctx \<Rightarrow> store_file \<Rightarrow> int \<times> store_file" where
  "migrate_cmd as_root dir check between now ctx f = (if f = NoFile \<and> (check \<or> as_root \<or> \<not> dir) then (0, f)
     else (case migrate as_root check between now ctx f of
       (f', Raise e) \<Rightarrow> (if exn_type e = ''JournalRecoveryNeeded'' then migrate_check_pending else 1, f')
     | (f', Ok r) \<Rightarrow> (if check \<and> mr_would_write r then migrate_check_pending else 0, f')))"

subsection \<open>The identity of \<open>sink set\<close>\<close>

text \<open>\<open>_toml_problem\<close>: the path of the key and what is wrong with it, both empty when the value fits.\<close>

definition no_problem :: "string \<times> string" where "no_problem = ([], [])"

fun toml_problem :: "pyval \<Rightarrow> string \<Rightarrow> string \<times> string"
  and dict_problem :: "(string \<times> pyval) list \<Rightarrow> string \<Rightarrow> string \<times> string"
  and items_problem :: "pyval list \<Rightarrow> nat \<Rightarrow> string \<Rightarrow> string \<times> string" where
  "toml_problem PNone p = (p, ''null has no TOML form'')"
| "toml_problem (PDict d) p = dict_problem d p"
| "toml_problem (PList xs) p = (if xs \<noteq> [] \<and> \<not> list_all is_dict xs then (p, ''an array of values (only arrays of tables fit)'')
     else items_problem xs 0 p)"
| "toml_problem (POther t) p = (p, ''a '' @ t @ '' has no TOML form'')"
| "toml_problem _ p = no_problem"
| "dict_problem [] p = no_problem"
| "dict_problem ((k, v) # kvs) p = (if k = [] then (p, ''an empty key has no TOML form'')
     else let bad = toml_problem v (if p = [] then k else p @ ''.'' @ k) in if bad \<noteq> no_problem then bad else dict_problem kvs p)"
| "items_problem [] i p = no_problem"
| "items_problem (x # xs) i p = (let bad = toml_problem x (p @ ''['' @ str_of_nat i @ '']'') in
     if bad \<noteq> no_problem then bad else items_problem xs (i + 1) p)"

text \<open>The checks of \<open>_read_identity\<close> on the parsed JSON; the bytes are capped before they are parsed.\<close>

definition identity_json_cap :: nat where "identity_json_cap = 1048576"

fun tables_problem :: "pydict \<Rightarrow> string option" where
  "tables_problem [] = None"
| "tables_problem ((k, v) # kvs) = (let bad = toml_problem v [];
       bad' = (if k = [] then ([], ''an empty instance name has no TOML form'') else bad) in
     if snd bad' \<noteq> [] then Some (''identity JSON: '' @ k @ '': '' @ fst bad' @ '': '' @ snd bad') else tables_problem kvs)"

definition check_identity :: "pyval \<Rightarrow> pydict res" where
  "check_identity v = (case v of
     PDict d \<Rightarrow> if list_all (\<lambda>(k, t). is_dict t) d then (case tables_problem d of None \<Rightarrow> Ok d | Some t \<Rightarrow> Raise (value_error t))
       else Raise (value_error ''identity JSON must be an object of tables, one per instance'')
   | _ \<Rightarrow> Raise (value_error ''identity JSON must be an object of tables, one per instance''))"

definition read_identity :: "(bytes \<Rightarrow> pyval option) \<Rightarrow> bytes \<Rightarrow> pydict res" where
  "read_identity loads raw = (if identity_json_cap < length raw then Raise (value_error ''identity JSON is larger than the cap'')
     else case loads raw of None \<Rightarrow> Raise (value_error ''identity JSON does not parse'') | Some v \<Rightarrow> check_identity v)"

text \<open>\<open>sink set\<close>: \<open>production\<close> is whether the directory is the production one, \<open>identity\<close> what reading the identity
  gave.  The result is the exit code and the text written, if any.\<close>

definition refuses :: "exn \<Rightarrow> bool" where "refuses e \<longleftrightarrow> exn_type e \<in> {''OSError'', ''ValueError'', ''TimeoutError''}"

definition sink_set_cmd :: "toml_loads \<Rightarrow> (rat \<Rightarrow> string) \<Rightarrow> files \<Rightarrow> bool \<Rightarrow> string \<Rightarrow> bool \<Rightarrow> bool \<Rightarrow> string
    \<Rightarrow> string \<Rightarrow> string \<Rightarrow> string \<Rightarrow> string \<Rightarrow> pydict res option \<Rightarrow> switch_mem \<Rightarrow> (int \<times> string option) res \<times> switch_mem" where
  "sink_set_cmd loads frepr fs locked now as_root production dir name state reason who identity m =
     (if state_of (PStr state) = None then (Ok (1, None), m)
      else if name \<noteq> site \<and> \<not> valid_client_name name then (Ok (1, None), m)
      else if \<not> as_root \<and> production then (Ok (1, None), m)
      else (case (case identity of None \<Rightarrow> Ok [] | Some r \<Rightarrow> r) of
        Raise e \<Rightarrow> (if exn_type e \<in> {''OSError'', ''ValueError''} then Ok (1, None) else Raise e, m)
      | Ok ident \<Rightarrow> (case write_switch loads frepr fs locked now dir (name @ ''.toml'')
            \<lparr>ch_state = PStr state, ch_reason = PStr reason, ch_set_by = PStr who, ch_set_at = [], ch_grant = [], ch_identity = ident\<rparr> m of
          (Raise e, m') \<Rightarrow> (if refuses e then Ok (1, None) else Raise e, m')
        | (Ok (t, before), m') \<Rightarrow> (Ok (0, Some t), m'))))"

subsection \<open>What can be written\<close>

fun writable :: "pyval \<Rightarrow> bool" where
  "writable PNone = False"
| "writable (POther t) = False"
| "writable (PDict d) = (\<forall>(k, v) \<in> set d. k \<noteq> [] \<and> writable v)"
| "writable (PList xs) = (\<forall>x \<in> set xs. is_dict x \<and> writable x)"
| "writable _ = True"

lemma problem_iff:
  "toml_problem v p = no_problem \<longleftrightarrow> writable v"
  "dict_problem d p = no_problem \<longleftrightarrow> (\<forall>(k, v) \<in> set d. k \<noteq> [] \<and> writable v)"
  "items_problem xs i p = no_problem \<longleftrightarrow> (\<forall>x \<in> set xs. writable x)"
  by (induction v p and d p and xs i p rule: toml_problem_dict_problem_items_problem.induct)
    (auto simp: Let_def no_problem_def list_all_iff)

lemma problem_says_what:
  "toml_problem v p \<noteq> no_problem \<Longrightarrow> snd (toml_problem v p) \<noteq> []"
  "dict_problem d p \<noteq> no_problem \<Longrightarrow> snd (dict_problem d p) \<noteq> []"
  "items_problem xs i p \<noteq> no_problem \<Longrightarrow> snd (items_problem xs i p) \<noteq> []"
  by (induction v p and d p and xs i p rule: toml_problem_dict_problem_items_problem.induct)
    (simp_all add: Let_def split: if_splits, auto)

lemma tables_problem_iff: "tables_problem d = None \<longleftrightarrow> (\<forall>(k, v) \<in> set d. k \<noteq> [] \<and> writable v)"
proof (induction d rule: tables_problem.induct)
  case (2 k v kvs)
  have "snd (toml_problem v []) = [] \<longleftrightarrow> writable v"
    using problem_says_what(1) [of v "[]"] problem_iff(1) [of v "[]"] by (auto simp: no_problem_def)
  then show ?case using 2 by (auto simp: Let_def)
qed simp

lemma scalar_written: "\<not> is_nested v \<Longrightarrow> v \<noteq> PList [] \<Longrightarrow> is_ok (toml_scalar frepr v) \<longleftrightarrow> writable v"
  by (cases v) auto

lemma scalars_written: "is_ok (emit_scalars frepr d) \<longleftrightarrow> (\<forall>(k, v) \<in> set d. is_nested v \<or> k \<noteq> [] \<and> writable v)"
proof (induction d)
  case (Cons kv d)
  obtain k v where kv: "kv = (k, v)" by fastforce
  have "is_ok (bind_res (toml_key k) (\<lambda>k'. bind_res (if v = PList [] then Ok ''[]'' else toml_scalar frepr v) (\<lambda>v'.
       map_res (\<lambda>ls. (k' @ '' = '' @ v') # ls) (emit_scalars frepr d)))) \<longleftrightarrow> k \<noteq> [] \<and> writable v \<and> is_ok (emit_scalars frepr d)"
    if "\<not> is_nested v"
    using scalar_written [OF that, of frepr] by (cases "toml_scalar frepr v"; cases "emit_scalars frepr d") (auto simp: toml_key_def)
  then show ?case using Cons by (auto simp: kv)
qed simp

lemma is_ok_map [simp]: "is_ok (map_res f a) \<longleftrightarrow> is_ok a"
  by (cases a) auto

lemma is_ok_seq: "is_ok (bind_res a (\<lambda>x. map_res (g x) b)) \<longleftrightarrow> is_ok a \<and> is_ok b"
  by (cases a; cases b) simp_all

lemma is_ok_iff: "is_ok a \<longleftrightarrow> (\<exists>x. a = Ok x)"
  by (cases a) auto

lemma subs_written:
  "is_ok (emit_subs frepr d path) \<longleftrightarrow> (\<forall>(k, v) \<in> set d. is_nested v \<longrightarrow> k \<noteq> [] \<and> writable v)"
  "is_ok (emit_items frepr xs here) \<longleftrightarrow> (\<forall>x \<in> set xs. is_dict x \<longrightarrow> writable x)"
proof (induction frepr d path and frepr xs here rule: emit_subs_emit_items.induct)
  case (2 frepr k v kvs path)
  show ?case
  proof (cases "is_nested v \<and> k \<noteq> []")
    case True
    obtain k0 where k: "toml_key k = Ok k0" using True by (simp add: toml_key_def)
    define here where "here = path @ [k0]"
    have rest: "is_ok (emit_subs frepr kvs path) \<longleftrightarrow> (\<forall>(k, v) \<in> set kvs. is_nested v \<longrightarrow> k \<noteq> [] \<and> writable v)"
      using 2 True by simp
    have inner: "is_ok (case v of
           PDict d \<Rightarrow> bind_res (emit_scalars frepr d) (\<lambda>a.
             map_res (\<lambda>b. [[], ''['' @ join ''.'' here @ '']''] @ a @ b) (emit_subs frepr d here))
         | PList xs \<Rightarrow> if list_all is_dict xs then emit_items frepr xs here
             else Raise (type_error ''only arrays of tables are supported'')
         | _ \<Rightarrow> Ok []) \<longleftrightarrow> writable v"
    proof (cases v)
      case (PDict d)
      have "is_ok (emit_subs frepr d here) \<longleftrightarrow> (\<forall>(k, v) \<in> set d. is_nested v \<longrightarrow> k \<noteq> [] \<and> writable v)"
        by (rule 2(3) [OF _ here_def]) (use True PDict in auto)
      then show ?thesis using PDict by (auto simp: is_ok_seq scalars_written)
    next
      case (PList xs)
      have "list_all is_dict xs \<Longrightarrow> is_ok (emit_items frepr xs here) \<longleftrightarrow> (\<forall>x \<in> set xs. is_dict x \<longrightarrow> writable x)"
        by (rule 2(2) [OF _ here_def]) (use True PList in auto)
      then show ?thesis using PList by (auto simp: list_all_iff)
    qed (use True in auto)
    show ?thesis using True rest inner unfolding here_def by (simp add: k Let_def is_ok_seq)
  next
    case False
    then show ?thesis using 2 by (auto simp: toml_key_def)
  qed
next
  case (4 frepr x xs here)
  then show ?case by (cases x) (auto simp: is_ok_seq scalars_written)
qed simp_all

lemma dumps_iff: "is_ok (dumps_toml frepr d) \<longleftrightarrow> writable (PDict d)"
  by (auto simp: dumps_toml_def is_ok_seq scalars_written subs_written)

text \<open>C40: \<open>sink set\<close> takes exactly the identities it can write.  The check of a parsed identity accepts an
  object when its members are tables that the writer of switch files emits without an error, and no other.\<close>

theorem identity_check_is_exact:
  "(\<exists>t. check_identity (PDict d) = Ok t) \<longleftrightarrow> list_all (\<lambda>(k, t). is_dict t) d \<and> (\<exists>text. dumps_toml frepr d = Ok text)"
  using dumps_iff [of frepr d] tables_problem_iff [of d] by (auto simp: check_identity_def is_ok_iff)

end
