(* ===== verification/AdminLaws.thy ===== *)
theory AdminLaws
  imports Admin
begin

text \<open>
  A purge deletes only what its backup holds, and kicked retries are due.  The backup is read by the rules
  of SQL literals: a quote inside a text is doubled, a blob is its hex digits.
\<close>

subsection \<open>Reading a backup\<close>

definition after :: "string \<Rightarrow> string \<Rightarrow> string option" where
  "after p s = (if starts_with s p then Some (drop (length p) s) else None)"

fun read_quoted :: "string \<Rightarrow> (string \<times> string) option" where
  "read_quoted [] = None"
| "read_quoted (c # s) = (if c \<noteq> quote then map_option (\<lambda>(v, r). (c # v, r)) (read_quoted s)
     else (case s of d # r \<Rightarrow> if d = quote then map_option (\<lambda>(v, q). (quote # v, q)) (read_quoted r) else Some ([], s)
       | [] \<Rightarrow> Some ([], [])))"

fun read_hex :: "string \<Rightarrow> (bytes \<times> string) option" where
  "read_hex [] = None"
| "read_hex (c # s) = (if c = quote then Some ([], s) else (case s of [] \<Rightarrow> None
     | d # r \<Rightarrow> (case (hex_val c, hex_val d) of
         (Some x, Some y) \<Rightarrow> map_option (\<lambda>(v, q). (char_of (16 * x + y) # v, q)) (read_hex r) | _ \<Rightarrow> None)))"

text \<open>One column after a separator.\<close>

definition column :: "string \<Rightarrow> (string \<Rightarrow> ('a \<times> string) option) \<Rightarrow> string \<Rightarrow> ('a \<times> string) option" where
  "column p rd s = (case after p s of None \<Rightarrow> None | Some r \<Rightarrow> rd r)"

definition read_insert :: "string \<Rightarrow> (dead_row \<times> string) option" where
  "read_insert s = (case column (insert_start @ [quote]) read_quoted s of None \<Rightarrow> None
   | Some (ts, s1) \<Rightarrow> (case column ('', '' @ [quote]) read_quoted s1 of None \<Rightarrow> None
   | Some (p, s2) \<Rightarrow> (case column ('', X'' @ [quote]) read_hex s2 of None \<Rightarrow> None
   | Some (b, s3) \<Rightarrow> (case column ('', '' @ [quote]) read_quoted s3 of None \<Rightarrow> None
   | Some (e, s4) \<Rightarrow> map_option (\<lambda>r. (\<lparr>dd_ts = ts, dd_pipeline = p, dd_payload = b, dd_final_error = e\<rparr>, r))
       (after ('');'' @ [CHR 0x0A]) s4)))))"

fun read_inserts :: "nat \<Rightarrow> string \<Rightarrow> dead_row list option" where
  "read_inserts 0 s = None"
| "read_inserts (Suc n) s = (if s = ''COMMIT;'' @ [CHR 0x0A] then Some []
     else (case read_insert s of None \<Rightarrow> None | Some (d, r) \<Rightarrow> map_option (Cons d) (read_inserts n r)))"

definition read_backup :: "string \<Rightarrow> dead_row list option" where
  "read_backup s = (case after (''BEGIN;'' @ [CHR 0x0A]) s of None \<Rightarrow> None | Some r \<Rightarrow> read_inserts (length r) r)"

lemma after_append [simp]: "after p (p @ s) = Some s"
  by (auto simp: after_def starts_with_iff)

lemma read_quoted_text: "r = [] \<or> hd r \<noteq> quote \<Longrightarrow> read_quoted (doubled v @ quote # r) = Some (v, r)"
  by (induction v) (auto simp: doubled_def split: list.split)

lemma text_column:
  "r = [] \<or> hd r \<noteq> quote \<Longrightarrow> column (p @ [quote]) read_quoted (p @ quote # doubled v @ quote # r) = Some (v, r)"
  using after_append [of "p @ [quote]" "doubled v @ quote # r"] by (simp add: column_def read_quoted_text)

lemma hex_char_not_quote: "d < 16 \<Longrightarrow> hex_char d \<noteq> quote"
  using hex_round [of d] by (auto simp: quote_def hex_val_def)

lemma byte_range: "(of_char c :: nat) < 256"
  by (metis of_char_mod_256 mod_less_divisor zero_less_numeral)

lemma read_hex_text: "read_hex (to_hex b @ quote # r) = Some (b, r)"
proof (induction b)
  case (Cons c b)
  have k: "(of_char c :: nat) div 16 < 16" "(of_char c :: nat) mod 16 < 16"
    using byte_range [of c] by (auto simp: div_less_iff_less_mult)
  then show ?case using Cons by (simp add: to_hex_def Let_def hex_round hex_char_not_quote)
qed (simp add: to_hex_def)

lemma hex_column: "column (p @ [quote]) read_hex (p @ quote # to_hex b @ quote # r) = Some (b, r)"
  using after_append [of "p @ [quote]" "to_hex b @ quote # r"] by (simp add: column_def read_hex_text)

lemma insert_line_columns: "insert_line d @ CHR 0x0A # r
    = insert_start @ quote # doubled (dd_ts d) @ quote # '', '' @ quote # doubled (dd_pipeline d) @ quote # '', X'' @ quote
        # to_hex (dd_payload d) @ quote # '', '' @ quote # doubled (dd_final_error d) @ quote # ('');'' @ [CHR 0x0A]) @ r"
  by (simp add: insert_line_def sql_text_def)

lemma read_insert_line: "read_insert (insert_line d @ CHR 0x0A # r) = Some (d, r)"
proof -
  have sep: "hd ('', '' @ s) \<noteq> quote" "hd ('', X'' @ s) \<noteq> quote" "hd (('');'' @ [CHR 0x0A]) @ s) \<noteq> quote" for s
    by (simp_all add: quote_def)
  show ?thesis unfolding insert_line_columns read_insert_def
    by (simp only: text_column [OF disjI2, OF sep(1)] text_column [OF disjI2, OF sep(2)] text_column [OF disjI2, OF sep(3)]
        hex_column after_append option.case prod.case option.map) simp
qed

lemma read_insert_lines:
  "length ds < n \<Longrightarrow> read_inserts n (concat (map (\<lambda>d. insert_line d @ [CHR 0x0A]) ds) @ ''COMMIT;'' @ [CHR 0x0A]) = Some ds"
proof (induction ds arbitrary: n)
  case Nil
  then show ?case by (cases n) simp_all
next
  case (Cons d ds)
  then obtain m where n: "n = Suc m" "length ds < m" by (cases n) auto
  have "insert_line d @ CHR 0x0A # s \<noteq> ''COMMIT;'' @ [CHR 0x0A]" for s by (simp add: insert_line_def insert_start_def)
  then show ?case using Cons.IH [OF n(2)] by (simp add: n(1) read_insert_line)
qed

lemma backup_reads_back:
  assumes "ds \<noteq> []"
  shows "read_backup (backup_text ds) = Some ds"
proof -
  have lines: "join [CHR 0x0A] (map insert_line ds) @ [CHR 0x0A] = concat (map (\<lambda>d. insert_line d @ [CHR 0x0A]) ds)"
    using assms by (induction ds rule: induct_list012) simp_all
  have "length ds \<le> length (concat (map (\<lambda>d. insert_line d @ [CHR 0x0A]) ds))" by (induction ds) simp_all
  then have "read_inserts (length (concat (map (\<lambda>d. insert_line d @ [CHR 0x0A]) ds) @ ''COMMIT;'' @ [CHR 0x0A]))
      (concat (map (\<lambda>d. insert_line d @ [CHR 0x0A]) ds) @ ''COMMIT;'' @ [CHR 0x0A]) = Some ds"
    by (intro read_insert_lines) simp
  moreover have "backup_text ds = (''BEGIN;'' @ [CHR 0x0A]) @ concat (map (\<lambda>d. insert_line d @ [CHR 0x0A]) ds) @ ''COMMIT;'' @ [CHR 0x0A]"
    unfolding backup_text_def lines [symmetric] by simp
  ultimately show ?thesis unfolding read_backup_def by (simp only: after_append option.case)
qed

subsection \<open>Purging\<close>

text \<open>C39: A purge deletes nothing that its backup does not hold.  Either the store is left as it was, or the
  backup was written, reads back as the dead letters that are gone, in their order, and the others are still
  there; all those gone are of the pipeline asked for, and of a readable time before the one asked for.\<close>

theorem purge_keeps_what_it_deletes:
  assumes "purge_dead_letters w writing a st = (r, st')"
  shows "st' = st \<or> (\<exists>text saved. r = Ok (0, Some text) \<and> writing text = None \<and> read_backup text = Some saved
     \<and> mset (st_dead st) = mset (st_dead st') + mset saved \<and> st' = st\<lparr>st_dead := st_dead st'\<rparr>
     \<and> list_all (\<lambda>d. pa_pipeline a \<in> {None, Some (dd_pipeline d)}
         \<and> (pa_before a \<in> {None, Some []} \<or> (\<exists>limit t. iso_instant w (the (pa_before a)) = Some limit
              \<and> iso_instant w (dd_ts d) = Some t \<and> t < limit))) saved)"
proof (cases "st' = st")
  case False
  obtain before where b: "(case pa_before a of Some (c # cs) \<Rightarrow> iso_instant w (c # cs) = before \<and> before \<noteq> None | _ \<Rightarrow> before = None)"
      "(case pa_before a of Some (c # cs) \<Rightarrow>
         (case iso_instant w (c # cs) of Some t \<Rightarrow> Ok (Some t) | None \<Rightarrow> Raise (Exn ''ValueError'' ''Invalid isoformat string''))
       | _ \<Rightarrow> Ok None) = Ok before"
    using assms False by (auto simp: purge_dead_letters_def split: option.splits list.splits res.splits)
  define P where "P = purge_matches w (pa_pipeline a) before"
  define saved where "saved = filter P (st_dead st)"
  have run: "saved \<noteq> []" "writing (backup_text saved) = None" "r = Ok (0, Some (backup_text saved))"
      "st' = st\<lparr>st_dead := filter (\<lambda>d. \<not> P d) (st_dead st)\<rparr>"
    using assms False unfolding purge_dead_letters_def b(2) res.case Let_def P_def [symmetric] saved_def [symmetric]
    by (auto split: if_splits option.splits)
  have "mset (st_dead st) = mset (st_dead st') + mset saved" unfolding run(4) saved_def by simp
  moreover have "list_all (\<lambda>d. pa_pipeline a \<in> {None, Some (dd_pipeline d)}
         \<and> (pa_before a \<in> {None, Some []} \<or> (\<exists>limit t. iso_instant w (the (pa_before a)) = Some limit
              \<and> iso_instant w (dd_ts d) = Some t \<and> t < limit))) saved"
    using b(1) by (auto simp: saved_def P_def purge_matches_def list_all_iff split: if_splits option.splits list.splits)
  ultimately show ?thesis using run backup_reads_back [OF run(1)] by auto
qed simp

lemma kicked_retry_is_due:
  assumes "filter (\<lambda>d. dl_pipeline d = p) (st_queue st) = d # ds" "epoch_text \<le> now"
  shows "fst (pop_due p now (snd (kick st))) = Some (d\<lparr>dl_next_attempt_at := epoch_text\<rparr>)"
proof -
  have "due_rows p now (snd (kick st)) = map (\<lambda>d. d\<lparr>dl_next_attempt_at := epoch_text\<rparr>) (filter (\<lambda>d. dl_pipeline d = p) (st_queue st))"
    using assms(2) by (simp add: due_rows_def kick_def filter_map comp_def)
  moreover have "min_by dl_next_attempt_at (map (\<lambda>d. d\<lparr>dl_next_attempt_at := epoch_text\<rparr>) (x # xs)) = Some (x\<lparr>dl_next_attempt_at := epoch_text\<rparr>)"
    for x :: deliverable and xs by (induction xs arbitrary: x) simp_all
  ultimately show ?thesis using assms(1) by (simp add: pop_due_def del: list.map)
qed

end
