(* ===== verification/AdminWitnesses.thy ===== *)
theory AdminWitnesses
  imports AdminLaws
begin

text \<open>Witnesses of the properties of the backlog report and of the purge.\<close>

definition tiny_dead :: "string \<Rightarrow> string \<Rightarrow> dead_row" where
  "tiny_dead p b = \<lparr>dd_ts = ''t'', dd_pipeline = p, dd_payload = b, dd_final_error = ''it's''\<rparr>"

definition tiny_dead_store :: store where
  "tiny_dead_store = empty_file\<lparr>st_dead := [tiny_dead ''p'' ''x'', tiny_dead ''q'' ''y'', tiny_dead ''p'' ''x'']\<rparr>"

definition tiny_dead_db :: mdb where
  "tiny_dead_db = \<lparr>md_tables = [''watermarks'', ''deliverables'', ''dead_letter''], md_attempt_cols = [], md_store = tiny_dead_store\<rparr>"

definition tiny_backlog :: backlog_world where
  "tiny_backlog = \<lparr>bw_fromiso = (\<lambda>_. None), bw_now = 0, bw_real_length = 0\<rparr>"

theorem backlog_counts_what_is_there_witness:
  "\<exists>s. summarize tiny_backlog (Ok tiny_dead_db) = Summary s \<and> sum_list (map br_dead (sm_pipelines s)) = 3
     \<and> br_name ` set (sm_pipelines s) = {''p'', ''q''}
     \<and> (\<forall>r \<in> set (sm_pipelines s). br_name r = ''p'' \<longrightarrow> br_dead r = 2 \<and> br_datasets r = 1)"
proof -
  have s: "summarize tiny_backlog (Ok tiny_dead_db) = Summary (summary_of tiny_backlog tiny_dead_db)"
    by (simp add: summarize_def need_table_def has_table_def tiny_dead_db_def)
  have dead: "st_dead (md_store tiny_dead_db) = [tiny_dead ''p'' ''x'', tiny_dead ''q'' ''y'', tiny_dead ''p'' ''x'']"
      "st_queue (md_store tiny_dead_db) = []" "known_pipelines tiny_dead_db = []"
    by (simp_all add: tiny_dead_db_def tiny_dead_store_def empty_file_def known_pipelines_def optional_rows_def has_table_def)
  have p: "dead_of [tiny_dead ''p'' ''x'', tiny_dead ''q'' ''y'', tiny_dead ''p'' ''x''] ''p'' = [tiny_dead ''p'' ''x'', tiny_dead ''p'' ''x'']"
    by (simp add: dead_of_def tiny_dead_def)
  have "dd_pipeline (tiny_dead q b) = q" for q b by (simp add: tiny_dead_def)
  then show ?thesis using backlog_counts_what_is_there [OF s] s unfolding dead Let_def
    by (auto simp: list_all_iff p)
qed

definition tiny_purge :: "(int \<times> string option) res \<times> store" where
  "tiny_purge = purge_dead_letters tiny_backlog (\<lambda>_. None) \<lparr>pa_before = None, pa_pipeline = Some ''p''\<rparr> tiny_dead_store"

theorem purge_keeps_what_it_deletes_witness:
  "\<exists>text saved. fst tiny_purge = Ok (0, Some text) \<and> read_backup text = Some saved \<and> length saved = 2 \<and> length (st_dead (snd tiny_purge)) = 1"
proof -
  have left: "st_dead (snd tiny_purge) = [tiny_dead ''q'' ''y'']"
    by (simp add: tiny_purge_def purge_dead_letters_def tiny_dead_store_def empty_file_def purge_matches_def tiny_dead_def Let_def)
  have before: "st_dead tiny_dead_store = [tiny_dead ''p'' ''x'', tiny_dead ''q'' ''y'', tiny_dead ''p'' ''x'']"
    by (simp add: tiny_dead_store_def)
  have "snd tiny_purge \<noteq> tiny_dead_store" using left before by auto
  with purge_keeps_what_it_deletes [OF prod.collapse [of tiny_purge, unfolded tiny_purge_def, symmetric]]
  obtain sql saved where p: "fst tiny_purge = Ok (0, Some sql)" "read_backup sql = Some saved"
      "mset (st_dead tiny_dead_store) = mset (st_dead (snd tiny_purge)) + mset saved"
    unfolding tiny_purge_def by auto
  have "size (mset saved) = 2" using arg_cong [OF p(3), of size] by (simp add: left before)
  then show ?thesis using p(1,2) left by auto
qed

end
