(* ===== verification/Spec2Isabelle.thy ===== *)
theory Spec2Isabelle
  imports PumpWitnesses Gate SqliteWitnesses WsprNetLaws TarWitnesses DatasetWitnesses SchemaWitnesses WsprWitnesses FileWitnesses FactoryLaws
    DaemonWitnesses AdminWitnesses
begin

text \<open>
  A verification library for \<open>hs-uploader\<close>, the process that ships what the recorders of a HamSCI
  station have written: spots from a SQLite queue or files from a spool, to PSKReporter, wsprnet,
  wsprdaemon and PSWS.  All paths below are under \<open>src/src/hs_uploader/\<close>.

  \<^bold>\<open>The program\<close>.  A recorder hands rows to a \<open>Writer\<close>, which drops those of a client
  switched off and queues the rest in \<open>sink.db\<close>.  The daemon builds pipelines, each a source, a
  transport and a client name.  At every round \<open>Uploader.pump\<close> asks the gate whether a pipeline may
  send, first replays the deliveries due for a retry until one fails again, then reads the source from its send record
  on, batch by batch, ships, and moves the record.  Send records, the attempt log, the retry queue and
  dead letters are in \<open>watermarks.db\<close>, which \<open>hs-uploader migrate\<close> brings to the current schema.
  The switches that the writer and the gate read are small TOML files, one for the site and one for
  each client.

  \<^bold>\<open>The theories, in the order of the code\<close>:

  \<^item> \<open>Prelude\<close>: results (\<open>Ok\<close> or a Python exception), dynamic values, the part of Python's
    \<open>str\<close> and \<open>int\<close> that the uploader uses, association lists as dicts.
  \<^item> \<open>Clock\<close>, \<open>CoreTypes\<close>: \<open>core.py\<close>'s ISO text of an instant, records, batches, outcomes
    and policies; the locale \<open>cursor_order\<close>, what a source's comparator promises.
  \<^item> \<open>Store\<close>: \<open>watermark/sqlite.py\<close>, each method a function on the record \<open>store\<close>; the
    locale \<open>retry_queue\<close>, what the pump needs of the queue.
  \<^item> \<open>Pump\<close>: \<open>core.py\<close>'s \<open>Uploader\<close>.  Sources, transports, gate and clock are records of
    effects on an arbitrary environment, so every theorem holds for all of them.  \<open>PumpLaws\<close> has the
    relations kept by every step (locales \<open>step_relation\<close>, \<open>ship_relation\<close>, \<open>pump_relation\<close>);
    \<open>PumpForward\<close>, \<open>PumpRetry\<close>, \<open>PumpEquiv\<close> prove that send records only move forward, that no
    queued delivery is lost and that a retried batch ends as a batch acknowledged at once.  The second is a
    \<open>ledger\<close> of one pump: a history kept by the environment (\<open>history_kept\<close>; \<open>watched_history\<close> gives every
    pipeline one) says which rows were replayed and what was answered, and each row is accounted for by its own answer.
  \<^item> \<open>SinkSwitch\<close>, \<open>Gate\<close>: \<open>sinkswitch.py\<close> and \<open>gate.py\<close>, reading, combining and writing
    the switches and the decision for a pipeline.
  \<^item> \<open>Sink\<close>: \<open>sink/writer.py\<close>, the queue table and the buffering writer.
  \<^item> \<open>SqliteSource\<close> with \<open>SqliteLaws\<close>, \<open>SqliteCommit\<close>, \<open>SqliteScope\<close>: \<open>sources/sqlite.py\<close>
    and \<open>sources/_local_rows.py\<close>, what each query selects and each commit deletes;
    \<open>SqlitePump\<close> composes the source with the pump and proves delivery.
  \<^item> \<open>WsprCompletion\<close>, \<open>WsprCycle\<close> with \<open>WsprLaws\<close>: \<open>sources/wspr_completion.py\<close> and
    \<open>sources/wspr_cycle.py\<close>, the cycles a fetch finds, the completion gate that holds a cycle back
    until every receiver reported or the backstop passed, and the psk rows that ride.
  \<^item> \<open>FileTree\<close> with \<open>FileLaws\<close>: \<open>sources/files.py\<close>, the files a fetch offers, the keep cursor,
    what a commit deletes and which empty folders go with it.
  \<^item> \<open>PskPayload\<close>, \<open>PskReporter\<close>: \<open>payload/psk_pskr.py\<close> and \<open>transports/pskreporter.py\<close>,
    the wire format with a reader for it, chunking, the connection and the retry blob.
  \<^item> \<open>WsprNet\<close> with \<open>WsprNetLaws\<close>: \<open>transports/wsprnet.py\<close>, a spot to a line, the duplicates of
    several receivers, the multipart body, the blocking and the polled post.
  \<^item> \<open>SftpRun\<close>: what the file transports share, subprocesses and temporary files, the key of the station
    (\<open>config.py\<close>), and the locale \<open>server_attempts\<close>: what trying one server after the other tells.
  \<^item> \<open>TarRows\<close>, \<open>TarShip\<close> with \<open>TarLaws\<close>, \<open>TarShipLaws\<close>: \<open>transports/wsprdaemon.py\<close>, the files of a
    tar and their lines, the routing table, the gateways over sftp and the ftp fallback; \<open>spot_at\<close> says, from
    its columns alone, where a spot belongs.
  \<^item> \<open>Dataset\<close> with \<open>DatasetLaws\<close>: \<open>transports/psws_magnetometer.py\<close>, the walk of a data set folder and
    its sftp batch, which puts every file once, below folders made before, and the trigger last.
  \<^item> \<open>Heartbeat\<close> with \<open>HeartbeatLaws\<close>: \<open>transports/heartbeat_sftp.py\<close>, the batch of small files, base 64
    and the JSON of the retry blob, and what a replay sends.
  \<^item> \<open>Schema\<close> with \<open>SchemaLaws\<close>, \<open>SchemaMigrate\<close>, \<open>SchemaCheck\<close>: \<open>watermark/schema.py\<close>,
    the migrations, the fill of producer keys, the retry pass and the check that foretells them.

  \<^item> \<open>Layout\<close>, \<open>Factory\<close> with \<open>FactoryLaws\<close>: \<open>pipelines_d.py\<close>, \<open>pipeline_factory.py\<close>,
    \<open>config.py\<close> and \<open>transports/discard.py\<close>, which entries the daemon will try to build and what each
    becomes: source, transport and their arguments, identity, send-record key.
  \<^item> \<open>Daemon\<close> with \<open>DaemonLaws\<close>, \<open>DaemonRebuild\<close>: the build half of \<open>daemon.py\<close>, a layout
    assembled over the build before, each file whole or not at all (which ones: \<open>follows_rules\<close> in \<open>Layout\<close>), no file colliding, and nothing built
    for a layout that did not change.
  \<^item> \<open>Rebuild\<close> with \<open>RebuildLaws\<close>: the running half, the store check, the starting records, start,
    rebuild and one turn of the loop; \<open>daemon_run\<close> is every state a daemon reaches while \<open>sinks/\<close> can be read and nobody
    lowers the store's version.
  \<^item> \<open>Backlog\<close>: \<open>backlog.py\<close>, the report of what waits and what is lost, and that its numbers are right.
  \<^item> \<open>Admin\<close> with \<open>AdminLaws\<close>: the commands of \<open>cli.py\<close> that change something; a purge deletes only
    what its backup holds, and the identity check of \<open>sink set\<close> is exact.

  The \<open>Witnesses\<close> theories apply the properties to concrete inputs.

  \<^bold>\<open>Conventions\<close>.  A Python \<open>str\<close> or \<open>bytes\<close> is a \<open>string\<close>; texts therefore have code
  points up to 255.  A dict or a table is an association list or a list of rows in key order.  An
  exception is a value \<open>Raise\<close>, and every function that may raise returns a \<open>res\<close>.  Python's
  integers are \<open>int\<close> or \<open>nat\<close>; those that go to SQLite or into a packet are checked against their
  width where the code's libraries check it.  Seconds are \<open>rat\<close>, instants are microseconds.

  \<^bold>\<open>Loops\<close>.  \<open>drain_loop\<close> and \<open>source_loop\<close> terminate by a measure (the rows due; the passes
  left).  \<open>pump_until_idle\<close> takes the code's own bound \<open>max_passes\<close>, and the delivery theorem
  states how many passes are enough.  \<open>read_on\<close> in \<open>SqliteLaws\<close> takes as fuel the number of rows
  of the queue, each of which a fetch passes at most once.  \<open>os_walk\<close> terminates because a folder has
  fewer nodes below it than the folder it is in; the readers of the heartbeat blob take the length of the
  text as fuel, which \<open>blob_fuel_suffices\<close> shows to be enough.

  \<^bold>\<open>Parameters\<close>, code that is not in the repository: \<open>datetime.fromisoformat\<close>, SQLite's text of a
  JSON value and its reading of a number, Python's \<open>str\<close> of an arbitrary value, \<open>tomllib\<close>, the
  random session id, the clocks, the file system's answers and the socket's.

  \<^bold>\<open>Not modelled\<close>.  Failures of SQLite itself (a full disk, a lock held too long), threads inside one
  process (each component takes its lock for a whole operation), file modes and ownership, the text of
  log lines where it carries no state.  Still outside: \<open>wake.py\<close>, a
  datagram socket that shortens the wait between pumps and carries no data; signals, the watchdog and the
  reading of the manifest file in \<open>daemon.py\<close>; the parser and the printed reports of \<open>cli.py\<close>;
  \<open>transports/base.py\<close> and \<open>sources/base.py\<close>, protocol classes without code; the scripts under
  \<open>src/tools\<close> and \<open>src/scripts\<close>, which are no part of the uploader.
\<close>

end
